(* ===== verification/Prelude.thy ===== *)
theory Prelude
  imports "HOL-Library.Word"
begin

text \<open>
  Shared vocabulary of the development: bytes, outcomes of C code, the errno
  values, slot lookup in fixed tables, copies into byte
  buffers, and a little-endian codec interface.  Every component theory
  imports this one.
\<close>

section \<open>Bytes and outcomes\<close>

type_synonym byte = "8 word"
type_synonym bytes = "8 word list"

text \<open>
  Outcome of a C function: a returned value, an access outside an object
  (undefined behaviour), or a loop that used up the fuel given to it.
\<close>

datatype 'a exec = Ret 'a | Faults | Diverges

text \<open>Sequencing of C statements.\<close>

fun exec_bind :: "'a exec \<Rightarrow> ('a \<Rightarrow> 'b exec) \<Rightarrow> 'b exec" where
  "exec_bind (Ret a) f = f a"
| "exec_bind Faults f = Faults"
| "exec_bind Diverges f = Diverges"

lemma exec_bind_Ret_iff: "exec_bind m f = Ret b \<longleftrightarrow> (\<exists>a. m = Ret a \<and> f a = Ret b)"
  by (cases m) auto

lemma exec_bind_RetE:
  "exec_bind m f = Ret b \<Longrightarrow> (\<And>a. m = Ret a \<Longrightarrow> f a = Ret b \<Longrightarrow> P) \<Longrightarrow> P"
  by (auto simp: exec_bind_Ret_iff)

named_theorems slot_simps "bookkeeping of fixed tables of slots"
named_theorems codec_simps "encoding and decoding of wire fields"

text \<open>The errno values used by the code, as errno.h of FreeRTOS-POSIX numbers them.\<close>

abbreviation (input) EPERM :: int where "EPERM \<equiv> 1"
abbreviation (input) ENOENT :: int where "ENOENT \<equiv> 2"
abbreviation (input) EINTR :: int where "EINTR \<equiv> 4"
abbreviation (input) EIO :: int where "EIO \<equiv> 5"
abbreviation (input) EBADF :: int where "EBADF \<equiv> 9"
abbreviation (input) EAGAIN :: int where "EAGAIN \<equiv> 11"
abbreviation (input) ENOMEM :: int where "ENOMEM \<equiv> 12"
abbreviation (input) EACCES :: int where "EACCES \<equiv> 13"
abbreviation (input) EFAULT :: int where "EFAULT \<equiv> 14"
abbreviation (input) EBUSY :: int where "EBUSY \<equiv> 16"
abbreviation (input) EEXIST :: int where "EEXIST \<equiv> 17"
abbreviation (input) ENODEV :: int where "ENODEV \<equiv> 19"
abbreviation (input) EINVAL :: int where "EINVAL \<equiv> 22"
abbreviation (input) ENFILE :: int where "ENFILE \<equiv> 23"
abbreviation (input) EMFILE :: int where "EMFILE \<equiv> 24"
abbreviation (input) ENOSPC :: int where "ENOSPC \<equiv> 28"
abbreviation (input) EDEADLK :: int where "EDEADLK \<equiv> 45"
abbreviation (input) ENOSYS :: int where "ENOSYS \<equiv> 88"
abbreviation (input) EMSGSIZE :: int where "EMSGSIZE \<equiv> 90"
abbreviation (input) ENAMETOOLONG :: int where "ENAMETOOLONG \<equiv> 36"
abbreviation (input) ENOTSUP :: int where "ENOTSUP \<equiv> 95"
abbreviation (input) ETIMEDOUT :: int where "ETIMEDOUT \<equiv> 116"
abbreviation (input) ENOTCONN :: int where "ENOTCONN \<equiv> 107"

section \<open>Looking up a slot\<close>

text \<open>The loop \<open>for (i = 0; i < N; ++i) if (P t[i]) ... break;\<close>.\<close>

fun find_index :: "('a \<Rightarrow> bool) \<Rightarrow> 'a list \<Rightarrow> nat option" where
  "find_index P [] = None"
| "find_index P (x # xs) = (if P x then Some 0 else map_option Suc (find_index P xs))"

lemma find_index_None_iff [slot_simps]:
  "find_index P xs = None \<longleftrightarrow> (\<forall>x\<in>set xs. \<not> P x)"
  by (induction xs) auto

lemma find_index_SomeD:
  "find_index P xs = Some i \<Longrightarrow> i < length xs \<and> P (xs ! i) \<and> (\<forall>j<i. \<not> P (xs ! j))"
proof (induction xs arbitrary: i)
  case (Cons x xs)
  then show ?case
    by (cases i) (auto split: if_splits simp: less_Suc_eq_0_disj nth_Cons')
qed simp

lemma find_index_less: "find_index P xs = Some i \<Longrightarrow> i < length xs"
  by (simp add: find_index_SomeD)

lemma find_index_holds: "find_index P xs = Some i \<Longrightarrow> P (xs ! i)"
  by (simp add: find_index_SomeD)

lemma find_indexI:
  "i < length xs \<Longrightarrow> P (xs ! i) \<Longrightarrow> (\<And>j. j < i \<Longrightarrow> \<not> P (xs ! j)) \<Longrightarrow> find_index P xs = Some i"
proof (induction xs arbitrary: i)
  case (Cons x xs)
  show ?case
  proof (cases i)
    case 0
    with Cons.prems show ?thesis by simp
  next
    case (Suc k)
    with Cons.prems(3)[of 0] have "\<not> P x" by simp
    moreover have "find_index P xs = Some k"
      using Cons.prems Suc by (intro Cons.IH) (simp, simp, metis Suc_less_eq nth_Cons_Suc)
    ultimately show ?thesis using Suc by simp
  qed
qed simp

lemma find_index_cong:
  "length xs = length ys \<Longrightarrow> (\<And>i. i < length xs \<Longrightarrow> P (xs ! i) = Q (ys ! i)) \<Longrightarrow>
   find_index P xs = find_index Q ys"
proof (induction xs ys rule: list_induct2')
  case (4 x xs y ys)
  have "P x = Q y" using 4(3)[of 0] by simp
  moreover have "find_index P xs = find_index Q ys"
    using 4(2) 4(3)[of "Suc _"] by (intro 4(1)) auto
  ultimately show ?case by simp
qed auto

lemma nth_update_if:
  "j < length xs \<Longrightarrow> xs[i := y] ! j = (if i = j then y else xs ! j)"
  by (cases "i = j") simp_all

text \<open>Number of entries of a table that satisfy a predicate.\<close>

definition count_if :: "('a \<Rightarrow> bool) \<Rightarrow> 'a list \<Rightarrow> nat" where
  "count_if P xs = length (filter P xs)"

lemma count_if_le: "count_if P xs \<le> length xs"
  by (simp add: count_if_def)

lemma count_if_full_iff: "count_if P xs = length xs \<longleftrightarrow> (\<forall>x\<in>set xs. P x)"
  by (metis count_if_def filter_id_conv length_filter_less less_irrefl)

lemma count_if_Cons [simp]: "count_if P (x # xs) = (if P x then 1 else 0) + count_if P xs"
  by (simp add: count_if_def)

lemma count_if_Nil [simp]: "count_if P [] = 0"
  by (simp add: count_if_def)

lemma count_if_append [simp]: "count_if P (xs @ ys) = count_if P xs + count_if P ys"
  by (simp add: count_if_def)

lemma count_if_update:
  "i < length xs \<Longrightarrow>
   count_if P (xs[i := y]) + (if P (xs ! i) then 1 else 0) = count_if P xs + (if P y then 1 else 0)"
proof (induction xs arbitrary: i)
  case (Cons x xs)
  then show ?case by (cases i) (auto split: if_splits)
qed simp

lemma count_if_pos: "i < length xs \<Longrightarrow> P (xs ! i) \<Longrightarrow> 0 < count_if P xs"
  by (metis count_if_def length_greater_0_conv filter_empty_conv nth_mem)

section \<open>Signed counters\<close>

lemma sint_plus_one:
  fixes w :: "32 word"
  assumes "sint w < 2147483647"
  shows "sint (w + 1) = sint w + 1"
  using assms sint_ge[of w] by (simp add: sint_word_add signed_take_bit_int_eq_self)

lemma sint_minus_one:
  fixes w :: "32 word"
  assumes "- 2147483648 < sint w"
  shows "sint (w - 1) = sint w - 1"
  using assms sint_lt[of w] by (simp add: sint_word_diff signed_take_bit_int_eq_self)

lemma sint_of_int32: "- 2147483648 \<le> i \<Longrightarrow> i < 2147483648 \<Longrightarrow> sint (of_int i :: 32 word) = i"
  by (simp add: sint_sbintrunc' signed_take_bit_int_eq_self)

section \<open>Copies into a byte buffer\<close>

text \<open>\<open>memcpy (buf + off, data, length data)\<close>; it stays inside the object
  exactly when the length does not change.\<close>

definition overwrite :: "nat \<Rightarrow> 'a list \<Rightarrow> 'a list \<Rightarrow> 'a list" where
  "overwrite off data buf = take off buf @ data @ drop (off + length data) buf"

lemma length_overwrite [simp]:
  "off + length data \<le> length buf \<Longrightarrow> length (overwrite off data buf) = length buf"
  by (simp add: overwrite_def)

lemma overwrite_Nil [simp]: "overwrite off [] buf = buf"
  by (simp add: overwrite_def)

lemma nth_overwrite:
  "off + length data \<le> length buf \<Longrightarrow> i < length buf \<Longrightarrow>
   overwrite off data buf ! i =
     (if off \<le> i \<and> i < off + length data then data ! (i - off) else buf ! i)"
  by (auto simp: overwrite_def nth_append)

lemma take_overwrite_0: "take (length data) (overwrite 0 data buf) = data"
  by (simp add: overwrite_def)

lemma take_overwrite_prefix: "k \<le> length data \<Longrightarrow> take k (overwrite 0 data buf) = take k data"
  by (simp add: overwrite_def)

lemma nth_overwrite_prefix: "i < length data \<Longrightarrow> overwrite 0 data buf ! i = data ! i"
  by (simp add: overwrite_def nth_append)

lemma take_overwrite_le: "n \<le> off \<Longrightarrow> off \<le> length buf \<Longrightarrow> take n (overwrite off data buf) = take n buf"
  by (simp add: overwrite_def min_def)

section \<open>Little-endian wire fields\<close>

text \<open>
  A codec of fixed width.  Clients of the interface read a field out of a
  longer message at the offset where it was written.
\<close>

locale le_codec =
  fixes enc :: "'a \<Rightarrow> bytes"
    and dec :: "bytes \<Rightarrow> 'a"
    and width :: nat
  assumes enc_length: "length (enc x) = width"
    and dec_enc: "dec (enc x @ rest) = x"
begin

lemma dec_enc_only: "dec (enc x) = x"
  using dec_enc[of x "[]"] by simp

lemma dec_at: "length p = off \<Longrightarrow> dec (drop off (p @ enc x @ rest)) = x"
  by (simp add: dec_enc)

lemma enc_inj: "enc x = enc y \<Longrightarrow> x = y"
  by (metis dec_enc_only)

lemma enc_append_inj: "enc x @ p = enc y @ q \<longleftrightarrow> x = y \<and> p = q"
  by (metis append_same_eq dec_enc same_append_eq)

end

text \<open>\<open>le_nat n v\<close> are the \<open>n\<close> low bytes of \<open>v\<close>, the least significant one first.\<close>

fun le_nat :: "nat \<Rightarrow> nat \<Rightarrow> bytes" where
  "le_nat 0 v = []"
| "le_nat (Suc n) v = of_nat (v mod 256) # le_nat n (v div 256)"

fun nat_le :: "bytes \<Rightarrow> nat" where
  "nat_le [] = 0"
| "nat_le (b # bs) = unat b + 256 * nat_le bs"

lemma length_le_nat [simp]: "length (le_nat n v) = n"
  by (induction n arbitrary: v) auto

lemma le_nat_add: "le_nat (m + n) v = le_nat m v @ le_nat n (v div 256 ^ m)"
  by (induction m arbitrary: v) (simp_all add: div_mult2_eq)

lemma le_nat_0: "le_nat n 0 = replicate n 0"
  by (induction n) simp_all

lemma nat_le_le_nat: "nat_le (le_nat n v) = v mod 256 ^ n"
proof (induction n arbitrary: v)
  case (Suc n)
  have "unat (of_nat (v mod 256) :: 8 word) = v mod 256"
    by (simp add: unat_of_nat)
  then show ?case
    by (simp add: Suc.IH mod_mult2_eq)
qed simp

lemma take_le_nat_append: "take n (le_nat n v @ rest) = le_nat n v"
  by simp

definition le16 :: "16 word \<Rightarrow> bytes" where "le16 w = le_nat 2 (unat w)"
definition le32 :: "32 word \<Rightarrow> bytes" where "le32 w = le_nat 4 (unat w)"
definition le64 :: "64 word \<Rightarrow> bytes" where "le64 w = le_nat 8 (unat w)"

definition get16 :: "bytes \<Rightarrow> 16 word" where "get16 bs = of_nat (nat_le (take 2 bs))"
definition get32 :: "bytes \<Rightarrow> 32 word" where "get32 bs = of_nat (nat_le (take 4 bs))"
definition get64 :: "bytes \<Rightarrow> 64 word" where "get64 bs = of_nat (nat_le (take 8 bs))"

lemma unat_mod_width:
  fixes w :: "'a::len word"
  assumes "2 ^ LENGTH('a) = m"
  shows "of_nat (unat w mod m) = w"
proof -
  have "unat w < m" unfolding assms[symmetric] by (rule unsigned_less)
  then show ?thesis by simp
qed

interpretation u16: le_codec le16 get16 2
  by unfold_locales (simp_all add: le16_def get16_def nat_le_le_nat unat_mod_width)

interpretation u32: le_codec le32 get32 4
  by unfold_locales (simp_all add: le32_def get32_def nat_le_le_nat unat_mod_width)

interpretation u64: le_codec le64 get64 8
  by unfold_locales (simp_all add: le64_def get64_def nat_le_le_nat unat_mod_width)

lemmas [codec_simps] =
  u16.enc_length u32.enc_length u64.enc_length
  u16.dec_enc u32.dec_enc u64.dec_enc
  u16.dec_enc_only u32.dec_enc_only u64.dec_enc_only

end
