(* ===== verification/Slot_Pool.thy ===== *)
theory Slot_Pool
  imports Prelude
begin

text \<open>
  The interface shared by the fixed tables of the program (pending calls,
  logger descriptors, log streams, device channels): a slot is busy or free,
  the first free slot is claimed, a busy one is released.  The facts about
  occupancy are proved once here; each table interprets the locale on its own
  slot type and its own claim and release code.
\<close>

locale slot_pool =
  fixes busy :: "'s \<Rightarrow> bool"
    and ok :: "'a \<Rightarrow> bool"
    and claim :: "'a \<Rightarrow> 's \<Rightarrow> 's"
    and release :: "'s \<Rightarrow> 's"
  assumes busy_claim: "ok a \<Longrightarrow> busy (claim a s)"
    and free_release: "\<not> busy (release s)"
begin

abbreviation free_slot :: "'s list \<Rightarrow> nat option" where
  "free_slot t \<equiv> find_index (\<lambda>s. \<not> busy s) t"

lemma free_slot_None_iff: "free_slot t = None \<longleftrightarrow> count_if busy t = length t"
  by (simp add: find_index_None_iff count_if_full_iff)

lemma free_slot_Some_less: "free_slot t = Some i \<Longrightarrow> count_if busy t < length t"
  by (metis count_if_le free_slot_None_iff le_neq_implies_less option.distinct(1))

lemma free_slotD: "free_slot t = Some i \<Longrightarrow> i < length t \<and> \<not> busy (t ! i)"
  by (drule find_index_SomeD) simp

lemma claim_count:
  assumes "free_slot t = Some i" "ok a"
  shows "count_if busy (t[i := claim a (t ! i)]) = Suc (count_if busy t)"
  using count_if_update[of i t busy "claim a (t ! i)"] free_slotD[OF assms(1)] busy_claim[OF assms(2)]
  by simp

lemma release_count:
  assumes "i < length t" "busy (t ! i)"
  shows "Suc (count_if busy (t[i := release (t ! i)])) = count_if busy t"
  using count_if_update[of i t busy "release (t ! i)"] assms free_release by simp

lemma release_count_le:
  assumes "i < length t"
  shows "count_if busy (t[i := release (t ! i)]) \<le> count_if busy t"
  using count_if_update[of i t busy "release (t ! i)"] assms free_release by simp

lemma claim_keeps_busy:
  "free_slot t = Some i \<Longrightarrow> j < length t \<Longrightarrow> busy (t ! j) \<Longrightarrow> t[i := x] ! j = t ! j"
  using free_slotD[of t i] by (metis nth_list_update_neq)

lemma release_reopens:
  "i < length t \<Longrightarrow> free_slot (t[i := release (t ! i)]) \<noteq> None"
  using free_release by (simp add: find_index_None_iff) (metis length_list_update nth_list_update_eq nth_mem)

lemma claim_release_count:
  assumes "free_slot t = Some i" "ok a"
  shows "count_if busy ((t[i := claim a (t ! i)])[i := release (claim a (t ! i))]) = count_if busy t"
  using count_if_update[of i t busy "release (claim a (t ! i))"] free_slotD[OF assms(1)] free_release
  by simp

end

end
