(* ===== verification/Rpc_Protocol.thy ===== *)
theory Rpc_Protocol
  imports Prelude
begin

text \<open>
  The wire protocol of the remote procedure calls between the Cortex-R8 and
  the Cortex-A55 (src/rpc/openamp\<open>_\<close>rpc.h): categories, operation codes and
  the packed 24-byte header, with its encoding as the \<open>memcpy\<close> of the packed
  little-endian structure.
\<close>

section \<open>Categories and operation codes\<close>

datatype px4_rpc_category = PX4_RPC_CATEGORY_SOCKET | PX4_RPC_CATEGORY_FS

fun rpc_category_code :: "px4_rpc_category \<Rightarrow> 16 word" where
  "rpc_category_code PX4_RPC_CATEGORY_SOCKET = 1"
| "rpc_category_code PX4_RPC_CATEGORY_FS = 2"

datatype px4_rpc_socket_op =
    PX4_RPC_SOCKET | PX4_RPC_BIND | PX4_RPC_CONNECT | PX4_RPC_LISTEN | PX4_RPC_ACCEPT
  | PX4_RPC_SETSOCKOPT | PX4_RPC_SHUTDOWN | PX4_RPC_SEND | PX4_RPC_RECV
  | PX4_RPC_GETSOCKNAME | PX4_RPC_GETPEERNAME | PX4_RPC_CLOSE_SOCKET | PX4_RPC_SOCKET_IOCTL

fun rpc_socket_code :: "px4_rpc_socket_op \<Rightarrow> 16 word" where
  "rpc_socket_code PX4_RPC_SOCKET = 1"
| "rpc_socket_code PX4_RPC_BIND = 2"
| "rpc_socket_code PX4_RPC_CONNECT = 3"
| "rpc_socket_code PX4_RPC_LISTEN = 4"
| "rpc_socket_code PX4_RPC_ACCEPT = 5"
| "rpc_socket_code PX4_RPC_SETSOCKOPT = 6"
| "rpc_socket_code PX4_RPC_SHUTDOWN = 7"
| "rpc_socket_code PX4_RPC_SEND = 8"
| "rpc_socket_code PX4_RPC_RECV = 9"
| "rpc_socket_code PX4_RPC_GETSOCKNAME = 10"
| "rpc_socket_code PX4_RPC_GETPEERNAME = 11"
| "rpc_socket_code PX4_RPC_CLOSE_SOCKET = 12"
| "rpc_socket_code PX4_RPC_SOCKET_IOCTL = 13"

datatype px4_rpc_fs_op =
    PX4_RPC_FS_OPEN | PX4_RPC_FS_READ | PX4_RPC_FS_WRITE | PX4_RPC_FS_CLOSE
  | PX4_RPC_FS_LSEEK | PX4_RPC_FS_FSYNC | PX4_RPC_FS_UNLINK | PX4_RPC_FS_ACCESS
  | PX4_RPC_FS_IOCTL | PX4_RPC_FS_MKDIR | PX4_RPC_FS_RMDIR | PX4_RPC_FS_TRUNCATE
  | PX4_RPC_FS_SESSION_RESET | PX4_RPC_FS_OPENDIR | PX4_RPC_FS_READDIR
  | PX4_RPC_FS_CLOSEDIR | PX4_RPC_FS_RENAME | PX4_RPC_FS_STAT
  | PX4_RPC_CA55_CLOCK_SETTIME | PX4_RPC_CA55_SYSTEM_REBOOT
  | PX4_RPC_FS_SESSION_OPEN | PX4_RPC_FS_SESSION_CLOSE

fun rpc_fs_code :: "px4_rpc_fs_op \<Rightarrow> 16 word" where
  "rpc_fs_code PX4_RPC_FS_OPEN = 1"
| "rpc_fs_code PX4_RPC_FS_READ = 2"
| "rpc_fs_code PX4_RPC_FS_WRITE = 3"
| "rpc_fs_code PX4_RPC_FS_CLOSE = 4"
| "rpc_fs_code PX4_RPC_FS_LSEEK = 5"
| "rpc_fs_code PX4_RPC_FS_FSYNC = 6"
| "rpc_fs_code PX4_RPC_FS_UNLINK = 7"
| "rpc_fs_code PX4_RPC_FS_ACCESS = 8"
| "rpc_fs_code PX4_RPC_FS_IOCTL = 9"
| "rpc_fs_code PX4_RPC_FS_MKDIR = 10"
| "rpc_fs_code PX4_RPC_FS_RMDIR = 11"
| "rpc_fs_code PX4_RPC_FS_TRUNCATE = 12"
| "rpc_fs_code PX4_RPC_FS_SESSION_RESET = 13"
| "rpc_fs_code PX4_RPC_FS_OPENDIR = 14"
| "rpc_fs_code PX4_RPC_FS_READDIR = 15"
| "rpc_fs_code PX4_RPC_FS_CLOSEDIR = 16"
| "rpc_fs_code PX4_RPC_FS_RENAME = 17"
| "rpc_fs_code PX4_RPC_FS_STAT = 18"
| "rpc_fs_code PX4_RPC_CA55_CLOCK_SETTIME = 19"
| "rpc_fs_code PX4_RPC_CA55_SYSTEM_REBOOT = 20"
| "rpc_fs_code PX4_RPC_FS_SESSION_OPEN = 21"
| "rpc_fs_code PX4_RPC_FS_SESSION_CLOSE = 22"

lemma rpc_fs_code_inject: "rpc_fs_code a = rpc_fs_code b \<longleftrightarrow> a = b"
  by (cases a; cases b; simp)

section \<open>The packed header\<close>

record px4_rpc_header =
  hdr_magic :: "32 word"
  hdr_category :: "16 word"
  hdr_opcode :: "16 word"
  hdr_request_id :: "32 word"
  hdr_return_value :: "32 word"
  hdr_errno_value :: "32 word"
  hdr_payload_size :: "32 word"

definition PX4_RPC_MAGIC :: "32 word" where
  "PX4_RPC_MAGIC = 0x52504330"

abbreviation (input) RPC_HEADER_SIZE :: nat where "RPC_HEADER_SIZE \<equiv> 24"

text \<open>\<open>memcpy (buffer, &header, sizeof header)\<close> and back.\<close>

definition header_bytes :: "px4_rpc_header \<Rightarrow> bytes" where
  "header_bytes h =
     le32 (hdr_magic h) @ le16 (hdr_category h) @ le16 (hdr_opcode h) @
     le32 (hdr_request_id h) @ le32 (hdr_return_value h) @ le32 (hdr_errno_value h) @
     le32 (hdr_payload_size h)"

definition bytes_header :: "bytes \<Rightarrow> px4_rpc_header" where
  "bytes_header bs =
     \<lparr> hdr_magic = get32 bs, hdr_category = get16 (drop 4 bs), hdr_opcode = get16 (drop 6 bs),
       hdr_request_id = get32 (drop 8 bs), hdr_return_value = get32 (drop 12 bs),
       hdr_errno_value = get32 (drop 16 bs), hdr_payload_size = get32 (drop 20 bs) \<rparr>"

lemma length_header_bytes: "length (header_bytes h) = RPC_HEADER_SIZE"
  by (simp add: header_bytes_def codec_simps)

lemma bytes_header_of_bytes: "bytes_header (header_bytes h @ rest) = h"
  by (simp add: bytes_header_def header_bytes_def codec_simps)

text \<open>The header codec is an instance of the field codec interface.\<close>

interpretation rpc_hdr: le_codec header_bytes bytes_header RPC_HEADER_SIZE
  by unfold_locales (simp_all add: length_header_bytes bytes_header_of_bytes)

lemmas [codec_simps] = length_header_bytes bytes_header_of_bytes rpc_hdr.dec_enc_only

end
