(* ===== verification/Rpc_Client.thy ===== *)
theory Rpc_Client
  imports Slot_Pool Rpc_Protocol
begin

text \<open>
  The RPC client (src/rpc/openamp\<open>_\<close>rpc\<open>_\<close>client.c).  The globals of the file are
  the record \<open>rpc_client\<close>; the caller's response buffers and length variables
  live in a store indexed by address, so a response that arrives late writes
  where the C code would write.  The RPMsg endpoint, the heap, the clock and
  the condition variables are the record of functions \<open>rpc_os\<close> over a world
  \<open>'w\<close>; a call that is made with the RPC lock released also returns the list of
  events (incoming messages, other threads' allocations and releases) that
  took place meanwhile.  Messages printed with \<open>fprintf\<close> are not modelled.
\<close>

section \<open>Data\<close>

abbreviation (input) MAX_PENDING_RPC :: nat where "MAX_PENDING_RPC \<equiv> 32"
abbreviation (input) PX4_OPENAMP_RPC_TIMEOUT_FOREVER :: nat where
  "PX4_OPENAMP_RPC_TIMEOUT_FOREVER \<equiv> 4294967295"
abbreviation (input) RPMSG_ERR_NO_BUFF :: int where "RPMSG_ERR_NO_BUFF \<equiv> - 2002"
abbreviation (input) SIZE_MODULUS :: nat where "SIZE_MODULUS \<equiv> 4294967296"

text \<open>A response callback is \<open>rpc_noop_callback\<close> or a function of the caller,
  known here by a number.\<close>

datatype rpc_callback = Noop_callback | User_callback nat

record rpc_pending =
  in_use :: bool
  completed :: bool
  request_id :: "32 word"
  return_value :: "32 word"
  errno_value :: "32 word"
  response_buffer :: "nat option"
  response_capacity :: nat
  response_length :: nat
  response_length_out :: "nat option"
  callback :: "rpc_callback option"
  user_data :: nat

record rpc_client =
  g_rpc_pending :: "rpc_pending list"
  g_rpc_initialized :: bool
  g_rpc_next_request_id :: "32 word"
  g_rpc_channel_ready :: bool
  g_rpc_no_buf_count :: "32 word"
  c_mem :: "nat \<Rightarrow> bytes"
  c_sizes :: "nat \<Rightarrow> nat"

text \<open>What a handled message leads to once the lock is released: nothing, a
  signal to the waiter of a slot, or a callback with its arguments.\<close>

datatype rpc_dispatch =
    No_dispatch
  | Signal_slot nat
  | Run_callback rpc_callback "32 word" "32 word" "32 word" "nat option" nat nat

section \<open>Slots\<close>

text \<open>\<open>pthread_cond_init\<close> on the slots is not visible in the state.\<close>

definition px4_openamp_rpc_init_locked :: "rpc_client \<Rightarrow> rpc_client" where
  "px4_openamp_rpc_init_locked c = (if g_rpc_initialized c then c else c\<lparr>g_rpc_initialized := True\<rparr>)"

definition release_slot :: "rpc_pending \<Rightarrow> rpc_pending" where
  "release_slot s =
     s\<lparr>in_use := False, completed := False, request_id := 0, return_value := 0,
       errno_value := 0, response_buffer := None, response_capacity := 0,
       response_length := 0, response_length_out := None, callback := None, user_data := 0\<rparr>"

definition set_slot :: "nat \<Rightarrow> rpc_pending \<Rightarrow> rpc_client \<Rightarrow> rpc_client" where
  "set_slot i s c = c\<lparr>g_rpc_pending := (g_rpc_pending c)[i := s]\<rparr>"

definition release_slot_locked :: "nat \<Rightarrow> rpc_client \<Rightarrow> rpc_client" where
  "release_slot_locked i c = set_slot i (release_slot (g_rpc_pending c ! i)) c"

text \<open>The two \<open>__atomic_fetch_add\<close> calls on the request counter.\<close>

definition INT32_MIN :: "32 word" where "INT32_MIN = 0x80000000"

definition fetch_request_id :: "rpc_client \<Rightarrow> 32 word \<times> rpc_client" where
  "fetch_request_id c =
     (let r = g_rpc_next_request_id c in
      if r = INT32_MIN then (r + 1, c\<lparr>g_rpc_next_request_id := r + 2\<rparr>)
      else (r, c\<lparr>g_rpc_next_request_id := r + 1\<rparr>))"

definition claim_slot ::
  "nat option \<times> nat \<times> nat option \<times> rpc_callback option \<times> nat \<times> 32 word \<Rightarrow> rpc_pending \<Rightarrow> rpc_pending"
where
  "claim_slot a s = (case a of (buf, cap, len_out, cb, ud, rid) \<Rightarrow>
     s\<lparr>in_use := True, completed := False, response_buffer := buf, response_capacity := cap,
       response_length := 0, response_length_out := len_out, return_value := 0,
       errno_value := 0, callback := cb, user_data := ud, request_id := rid\<rparr>)"

definition alloc_pending ::
  "nat option \<Rightarrow> nat \<Rightarrow> nat option \<Rightarrow> rpc_callback option \<Rightarrow> nat \<Rightarrow> rpc_client
   \<Rightarrow> (nat \<times> 32 word) option \<times> rpc_client"
where
  "alloc_pending buf cap len_out cb ud c0 =
     (let c = px4_openamp_rpc_init_locked c0 in
      case find_index (\<lambda>s. \<not> in_use s) (g_rpc_pending c) of
        None \<Rightarrow> (None, c)
      | Some i \<Rightarrow>
          (let (rid, c') = fetch_request_id c in
           (Some (i, rid),
            set_slot i (claim_slot (buf, cap, len_out, cb, ud, rid) (g_rpc_pending c' ! i)) c')))"

definition px4_openamp_rpc_pending_count :: "rpc_client \<Rightarrow> nat" where
  "px4_openamp_rpc_pending_count c = foldl (\<lambda>n s. if in_use s then n + 1 else n) 0 (g_rpc_pending c)"

definition px4_openamp_rpc_no_buf_count :: "rpc_client \<Rightarrow> 32 word" where
  "px4_openamp_rpc_no_buf_count c = g_rpc_no_buf_count c"

definition px4_openamp_rpc_channel_ready :: "rpc_client \<Rightarrow> bool" where
  "px4_openamp_rpc_channel_ready c = g_rpc_channel_ready c"

section \<open>Incoming messages\<close>

definition store_response :: "px4_rpc_header \<Rightarrow> bytes \<Rightarrow> rpc_pending \<Rightarrow> rpc_client \<Rightarrow> rpc_client" where
  "store_response h payload s c =
     (let n = unat (hdr_payload_size h);
          to_copy = (if n < response_capacity s then n else response_capacity s);
          c1 = (case response_buffer s of
                  Some b \<Rightarrow> if to_copy > 0 \<and> n > 0
                           then c\<lparr>c_mem := (c_mem c)(b := overwrite 0 (take to_copy payload) (c_mem c b))\<rparr>
                           else c
                | None \<Rightarrow> c)
      in case response_length_out s of
           Some l \<Rightarrow> c1\<lparr>c_sizes := (c_sizes c1)(l := n)\<rparr>
         | None \<Rightarrow> c1)"

definition complete_slot :: "px4_rpc_header \<Rightarrow> rpc_pending \<Rightarrow> rpc_pending" where
  "complete_slot h s =
     s\<lparr>response_length := unat (hdr_payload_size h), return_value := hdr_return_value h,
       errno_value := hdr_errno_value h, completed := True\<rparr>"

text \<open>The part of \<open>px4_openamp_rpc_handle_message\<close> behind the search, for the slot
  \<open>i\<close> that the search found.\<close>

definition deliver_response ::
  "px4_rpc_header \<Rightarrow> bytes \<Rightarrow> nat \<Rightarrow> rpc_client \<Rightarrow> rpc_client \<times> rpc_dispatch"
where
  "deliver_response h payload i c =
     (let s = g_rpc_pending c ! i;
          s' = complete_slot h s;
          c1 = set_slot i s' (store_response h payload s c)
      in case callback s' of
           Some cb \<Rightarrow>
             (release_slot_locked i c1,
              Run_callback cb (request_id s') (return_value s') (errno_value s')
                (response_buffer s') (unat (hdr_payload_size h)) (user_data s'))
         | None \<Rightarrow> (c1, Signal_slot i))"

definition px4_openamp_rpc_handle_message ::
  "bytes \<Rightarrow> rpc_client \<Rightarrow> bool \<times> rpc_client \<times> rpc_dispatch"
where
  "px4_openamp_rpc_handle_message data c0 =
    (if length data < RPC_HEADER_SIZE then (False, c0, No_dispatch)
     else let h = bytes_header data in
     if hdr_magic h \<noteq> PX4_RPC_MAGIC then (False, c0, No_dispatch)
     else let c1 = c0\<lparr>g_rpc_channel_ready := True\<rparr>;
              available_payload = length data - RPC_HEADER_SIZE in
     if available_payload < unat (hdr_payload_size h) then (True, c1, No_dispatch)
     else let c = px4_openamp_rpc_init_locked c1 in
     case find_index (\<lambda>s. in_use s \<and> request_id s = hdr_request_id h) (g_rpc_pending c) of
       None \<Rightarrow> (True, c, No_dispatch)
     | Some i \<Rightarrow> (True, deliver_response h (drop RPC_HEADER_SIZE data) i c))"

text \<open>The state at power-up: static storage, all zero, and the first id 1.\<close>

definition blank_slot :: rpc_pending where
  "blank_slot = \<lparr>in_use = False, completed = False, request_id = 0, return_value = 0,
     errno_value = 0, response_buffer = None, response_capacity = 0, response_length = 0,
     response_length_out = None, callback = None, user_data = 0\<rparr>"

definition rpc_boot :: "(nat \<Rightarrow> bytes) \<Rightarrow> (nat \<Rightarrow> nat) \<Rightarrow> rpc_client" where
  "rpc_boot m z = \<lparr>g_rpc_pending = replicate MAX_PENDING_RPC blank_slot, g_rpc_initialized = False,
     g_rpc_next_request_id = 1, g_rpc_channel_ready = False, g_rpc_no_buf_count = 0,
     c_mem = m, c_sizes = z\<rparr>"

section \<open>The environment\<close>

definition jump_request_ids :: "rpc_client \<Rightarrow> rpc_client" where
  "jump_request_ids c =
     (let old_id = g_rpc_next_request_id c in
      c\<lparr>g_rpc_next_request_id := (if 2000 < sint old_id then old_id else 10000)\<rparr>)"

datatype rpc_event =
    Ev_message bytes
  | Ev_alloc "nat option" nat "nat option" "rpc_callback option" nat
  | Ev_release nat
  | Ev_session

text \<open>
  One event while the thread that owns slot \<open>me\<close> does not hold the lock.  Other
  threads release only slots of their own, so a release of \<open>me\<close> is no event.
\<close>

fun rpc_event_step :: "nat \<Rightarrow> rpc_event \<Rightarrow> rpc_client \<Rightarrow> rpc_client" where
  "rpc_event_step me (Ev_message d) c = fst (snd (px4_openamp_rpc_handle_message d c))"
| "rpc_event_step me (Ev_alloc b n l cb u) c = snd (alloc_pending b n l cb u c)"
| "rpc_event_step me (Ev_release i) c = (if i = me then c else release_slot_locked i c)"
| "rpc_event_step me Ev_session c = jump_request_ids c"

definition rpc_run_events :: "nat \<Rightarrow> rpc_event list \<Rightarrow> rpc_client \<Rightarrow> rpc_client" where
  "rpc_run_events me evs c = fold (rpc_event_step me) evs c"

record 'w rpc_os =
  os_ept_rdev :: "'w \<Rightarrow> bool"
  os_ept_dest :: "'w \<Rightarrow> 32 word"
  os_ept_is_ready :: "'w \<Rightarrow> bool"
  os_vdev :: "'w \<Rightarrow> bool"
  os_rproc :: "'w \<Rightarrow> bool"
  os_get_notification :: "'w \<Rightarrow> rpc_event list \<times> 'w"
  os_malloc :: "nat \<Rightarrow> 'w \<Rightarrow> (nat \<Rightarrow> byte) option \<times> 'w"
  os_free :: "'w \<Rightarrow> 'w"
  os_trysend :: "bytes \<Rightarrow> 'w \<Rightarrow> int \<times> rpc_event list \<times> 'w"
  os_clock :: "'w \<Rightarrow> (int \<times> nat \<times> nat) \<times> 'w"
  os_cond_wait :: "nat \<Rightarrow> 'w \<Rightarrow> rpc_event list \<times> 'w"
  os_cond_timedwait :: "nat \<Rightarrow> nat \<times> nat \<Rightarrow> 'w \<Rightarrow> int \<times> rpc_event list \<times> 'w"
  os_usleep :: "nat \<Rightarrow> 'w \<Rightarrow> rpc_event list \<times> 'w"

record 'w rpc_state =
  cl :: rpc_client
  err :: int
  world :: 'w

definition RPMSG_ADDR_ANY :: "32 word" where "RPMSG_ADDR_ANY = 0xFFFFFFFF"

definition px4_openamp_rpc_endpoint_ready :: "'w rpc_os \<Rightarrow> 'w \<Rightarrow> bool" where
  "px4_openamp_rpc_endpoint_ready os w =
     (if \<not> os_ept_rdev os w then False
      else if os_ept_dest os w = RPMSG_ADDR_ANY then False
      else os_ept_is_ready os w)"

text \<open>\<open>remoteproc_get_notification\<close> runs the endpoint callback on what it finds.\<close>

definition poll_remoteproc_notifications ::
  "'w rpc_os \<Rightarrow> nat \<Rightarrow> rpc_client \<Rightarrow> 'w \<Rightarrow> rpc_client \<times> 'w"
where
  "poll_remoteproc_notifications os me c w =
     (if \<not> os_ept_rdev os w then (c, w)
      else if \<not> os_vdev os w then (c, w)
      else if \<not> os_rproc os w then (c, w)
      else case os_get_notification os w of (evs, w') \<Rightarrow> (rpc_run_events me evs c, w'))"

section \<open>Sending a request\<close>

definition rpc_request_header :: "16 word \<Rightarrow> 16 word \<Rightarrow> 32 word \<Rightarrow> nat \<Rightarrow> px4_rpc_header" where
  "rpc_request_header cat op rid request_len =
     \<lparr>hdr_magic = PX4_RPC_MAGIC, hdr_category = cat, hdr_opcode = op, hdr_request_id = rid,
      hdr_return_value = 0, hdr_errno_value = 0, hdr_payload_size = of_nat request_len\<rparr>"

text \<open>\<open>total_len\<close> is a 32-bit \<open>size_t\<close>.\<close>

definition rpc_total_len :: "nat \<Rightarrow> nat" where
  "rpc_total_len request_len = (RPC_HEADER_SIZE + request_len) mod SIZE_MODULUS"

text \<open>The two copies into the block of \<open>rpc_total_len\<close> bytes that \<open>malloc\<close> returned
  with contents \<open>g\<close>.\<close>

definition rpc_fill_message ::
  "(nat \<Rightarrow> byte) \<Rightarrow> px4_rpc_header \<Rightarrow> bytes option \<Rightarrow> nat \<Rightarrow> bytes exec"
where
  "rpc_fill_message g h payload request_len =
     (let total = rpc_total_len request_len;
          buf = map g [0..<total] in
      if total < RPC_HEADER_SIZE then Faults
      else let buf1 = overwrite 0 (header_bytes h) buf in
      case payload of
        None \<Rightarrow> Ret buf1
      | Some p \<Rightarrow>
          if request_len = 0 then Ret buf1
          else if length p < request_len \<or> total < RPC_HEADER_SIZE + request_len then Faults
          else Ret (overwrite RPC_HEADER_SIZE (take request_len p) buf1))"

definition count_no_buf :: "int \<Rightarrow> rpc_client \<Rightarrow> rpc_client" where
  "count_no_buf send_result c =
     (if send_result = RPMSG_ERR_NO_BUFF
      then c\<lparr>g_rpc_no_buf_count := g_rpc_no_buf_count c + 1\<rparr> else c)"

section \<open>Waiting for the response\<close>

abbreviation slot_completed :: "nat \<Rightarrow> rpc_client \<Rightarrow> bool" where
  "slot_completed i c \<equiv> completed (g_rpc_pending c ! i)"

fun rpc_wait_forever :: "'w rpc_os \<Rightarrow> nat \<Rightarrow> nat \<Rightarrow> rpc_client \<Rightarrow> 'w \<Rightarrow> (int \<times> rpc_client \<times> 'w) exec"
where
  "rpc_wait_forever os i 0 c w = Diverges"
| "rpc_wait_forever os i (Suc fuel) c w =
    (if slot_completed i c then Ret (0, c, w)
     else case poll_remoteproc_notifications os i c w of (c1, w1) \<Rightarrow>
     if slot_completed i c1 then Ret (0, c1, w1)
     else case os_cond_wait os i w1 of (evs, w2) \<Rightarrow>
     rpc_wait_forever os i fuel (rpc_run_events i evs c1) w2)"

definition timespec_ms :: "nat \<Rightarrow> nat \<Rightarrow> nat" where
  "timespec_ms sec nsec = (sec * 1000 + nsec div 1000000) mod 2 ^ 64"

definition slice_deadline :: "nat \<Rightarrow> nat \<Rightarrow> nat \<times> nat" where
  "slice_deadline sec nsec =
     (let slice_ns = nsec + 1 * 1000000 in
      (sec + slice_ns div 1000000000, slice_ns mod 1000000000))"

fun rpc_wait_timed ::
  "'w rpc_os \<Rightarrow> nat \<Rightarrow> nat \<Rightarrow> nat \<Rightarrow> nat \<Rightarrow> rpc_client \<Rightarrow> 'w \<Rightarrow> (int \<times> rpc_client \<times> 'w) exec"
where
  "rpc_wait_timed os i timeout_ms start_ms 0 c w = Diverges"
| "rpc_wait_timed os i timeout_ms start_ms (Suc fuel) c w =
    (if slot_completed i c then Ret (0, c, w)
     else case os_clock os w of ((_, sec, nsec), w1) \<Rightarrow>
     let now_ms = timespec_ms sec nsec;
         elapsed_ms = (if now_ms > start_ms then now_ms - start_ms else 0) in
     if elapsed_ms \<ge> timeout_ms then Ret (- ETIMEDOUT, c, w1)
     else case poll_remoteproc_notifications os i c w1 of (c2, w2) \<Rightarrow>
     if slot_completed i c2 then Ret (0, c2, w2)
     else case os_clock os w2 of ((e, sec', nsec'), w3) \<Rightarrow>
     if e \<noteq> 0 then Ret (- e, c2, w3)
     else case os_cond_timedwait os i (slice_deadline sec' nsec') w3 of (cond_ret, evs, w4) \<Rightarrow>
     let c4 = rpc_run_events i evs c2 in
     if slot_completed i c4 then Ret (0, c4, w4)
     else if cond_ret \<noteq> 0 \<and> cond_ret \<noteq> ETIMEDOUT then Ret (- cond_ret, c4, w4)
     else rpc_wait_timed os i timeout_ms start_ms fuel c4 w4)"

definition rpc_wait ::
  "'w rpc_os \<Rightarrow> nat \<Rightarrow> nat \<Rightarrow> nat \<Rightarrow> rpc_client \<Rightarrow> 'w \<Rightarrow> (int \<times> rpc_client \<times> 'w) exec"
where
  "rpc_wait os fuel i timeout_ms c w =
     (if timeout_ms = PX4_OPENAMP_RPC_TIMEOUT_FOREVER then rpc_wait_forever os i fuel c w
      else case os_clock os w of ((_, sec, nsec), w1) \<Rightarrow>
           rpc_wait_timed os i timeout_ms (timespec_ms sec nsec) fuel c w1)"

text \<open>The part of \<open>px4_openamp_rpc_call_timeout\<close> behind the wait: the slot is
  read out and released.  The pair is what \<open>*return_value\<close> and \<open>*errno_value\<close>
  receive.\<close>

definition rpc_finish ::
  "nat \<Rightarrow> nat option \<Rightarrow> int \<Rightarrow> int \<Rightarrow> rpc_client \<Rightarrow> 'w \<Rightarrow> int \<times> (32 word \<times> 32 word) option \<times> 'w rpc_state"
where
  "rpc_finish i response_len wait_result e c w =
     (if wait_result \<noteq> 0 \<and> \<not> slot_completed i c then
        (- 1, None,
         \<lparr>cl = release_slot_locked i c,
          err = (if wait_result = - ETIMEDOUT then ETIMEDOUT
                 else if wait_result < 0 then - wait_result else EIO), world = w\<rparr>)
      else let s = g_rpc_pending c ! i;
               c1 = (case response_len of
                       Some l \<Rightarrow> c\<lparr>c_sizes := (c_sizes c)(l := response_length s)\<rparr>
                     | None \<Rightarrow> c) in
        (0, Some (return_value s, errno_value s), \<lparr>cl = release_slot_locked i c1, err = e, world = w\<rparr>))"

definition px4_openamp_rpc_call_timeout ::
  "'w rpc_os \<Rightarrow> nat \<Rightarrow> 16 word \<Rightarrow> 16 word \<Rightarrow> bytes option \<Rightarrow> nat \<Rightarrow> nat option \<Rightarrow> nat \<Rightarrow> nat option \<Rightarrow> nat
   \<Rightarrow> 'w rpc_state \<Rightarrow> (int \<times> (32 word \<times> 32 word) option \<times> 'w rpc_state) exec"
where
  "px4_openamp_rpc_call_timeout os fuel cat op payload request_len buf cap len_out timeout_ms st =
    (if \<not> px4_openamp_rpc_endpoint_ready os (world st) then Ret (- 1, None, st\<lparr>err := ENOTCONN\<rparr>)
     else if request_len > 4294967295 then Ret (- 1, None, st\<lparr>err := EINVAL\<rparr>)
     else case alloc_pending buf cap len_out None 0 (cl st) of
       (None, c) \<Rightarrow> Ret (- 1, None, st\<lparr>cl := c, err := EBUSY\<rparr>)
     | (Some (i, rid), c) \<Rightarrow>
       (case os_malloc os (rpc_total_len request_len) (world st) of
          (None, w) \<Rightarrow> Ret (- 1, None, \<lparr>cl = release_slot_locked i c, err = ENOMEM, world = w\<rparr>)
        | (Some g, w) \<Rightarrow>
          (case rpc_fill_message g (rpc_request_header cat op rid request_len) payload request_len of
             Ret buffer \<Rightarrow>
               (case os_trysend os buffer w of (send_result, evs, w1) \<Rightarrow>
                let c1 = rpc_run_events i evs c;
                    c2 = count_no_buf send_result c1;
                    w2 = os_free os w1 in
                if send_result < 0 then
                  Ret (- 1, None, \<lparr>cl = release_slot_locked i c2,
                        err = (if send_result = RPMSG_ERR_NO_BUFF then EAGAIN else EIO), world = w2\<rparr>)
                else (case rpc_wait os fuel i timeout_ms c2 w2 of
                        Ret (wait_result, c3, w3) \<Rightarrow>
                          Ret (rpc_finish i len_out wait_result (err st) c3 w3)
                      | Faults \<Rightarrow> Faults
                      | Diverges \<Rightarrow> Diverges))
           | Faults \<Rightarrow> Faults
           | Diverges \<Rightarrow> Diverges)))"

definition px4_openamp_rpc_call ::
  "'w rpc_os \<Rightarrow> nat \<Rightarrow> 16 word \<Rightarrow> 16 word \<Rightarrow> bytes option \<Rightarrow> nat \<Rightarrow> nat option \<Rightarrow> nat \<Rightarrow> nat option
   \<Rightarrow> 'w rpc_state \<Rightarrow> (int \<times> (32 word \<times> 32 word) option \<times> 'w rpc_state) exec"
where
  "px4_openamp_rpc_call os fuel cat op payload request_len buf cap len_out st =
     px4_openamp_rpc_call_timeout os fuel cat op payload request_len buf cap len_out
       PX4_OPENAMP_RPC_TIMEOUT_FOREVER st"

section \<open>Asynchronous calls\<close>

text \<open>The send with its one retry after 2 ms when the transmit ring is full.\<close>

definition rpc_send_async ::
  "'w rpc_os \<Rightarrow> nat \<Rightarrow> bytes \<Rightarrow> rpc_client \<Rightarrow> 'w \<Rightarrow> int \<times> rpc_client \<times> 'w"
where
  "rpc_send_async os i buffer c w =
     (case os_trysend os buffer w of (send_result, evs, w1) \<Rightarrow>
      let c1 = rpc_run_events i evs c in
      if send_result = RPMSG_ERR_NO_BUFF then
        (case os_usleep os 2000 w1 of (evs2, w2) \<Rightarrow>
         case os_trysend os buffer w2 of (send_result', evs3, w3) \<Rightarrow>
         (send_result', rpc_run_events i evs3 (rpc_run_events i evs2 c1), w3))
      else (send_result, c1, w1))"

definition px4_openamp_rpc_call_async ::
  "'w rpc_os \<Rightarrow> 16 word \<Rightarrow> 16 word \<Rightarrow> bytes option \<Rightarrow> nat \<Rightarrow> nat option \<Rightarrow> nat \<Rightarrow> rpc_callback option \<Rightarrow> nat
   \<Rightarrow> 'w rpc_state \<Rightarrow> (int \<times> 32 word option \<times> 'w rpc_state) exec"
where
  "px4_openamp_rpc_call_async os cat op payload request_len buf cap cb ud st =
    (if \<not> px4_openamp_rpc_endpoint_ready os (world st) then Ret (- 1, None, st\<lparr>err := ENOTCONN\<rparr>)
     else if request_len > 4294967295 then Ret (- 1, None, st\<lparr>err := EINVAL\<rparr>)
     else let cb' = (case cb of None \<Rightarrow> Noop_callback | Some f \<Rightarrow> f) in
     case alloc_pending buf cap None (Some cb') ud (cl st) of
       (None, c) \<Rightarrow> Ret (- 1, None, st\<lparr>cl := c, err := EBUSY\<rparr>)
     | (Some (i, rid), c) \<Rightarrow>
       (case os_malloc os (rpc_total_len request_len) (world st) of
          (None, w) \<Rightarrow> Ret (- 1, None, \<lparr>cl = release_slot_locked i c, err = ENOMEM, world = w\<rparr>)
        | (Some g, w) \<Rightarrow>
          (case rpc_fill_message g (rpc_request_header cat op rid request_len) payload request_len of
             Ret buffer \<Rightarrow>
               (case rpc_send_async os i buffer c w of (send_result, c1, w1) \<Rightarrow>
                let w2 = os_free os w1 in
                if send_result < 0 then
                  Ret (- 1, None, \<lparr>cl = release_slot_locked i c1, err = EIO, world = w2\<rparr>)
                else Ret (0, Some rid, \<lparr>cl = c1, err = err st, world = w2\<rparr>))
           | Faults \<Rightarrow> Faults
           | Diverges \<Rightarrow> Diverges)))"

section \<open>A new session\<close>

definition px4_openamp_rpc_session_reset ::
  "'w rpc_os \<Rightarrow> nat \<Rightarrow> 'w rpc_state \<Rightarrow> (int \<times> 'w rpc_state) exec"
where
  "px4_openamp_rpc_session_reset os fuel st =
    (if \<not> px4_openamp_rpc_endpoint_ready os (world st) then Ret (- 1, st)
     else case px4_openamp_rpc_call_timeout os fuel (rpc_category_code PX4_RPC_CATEGORY_FS)
            (rpc_fs_code PX4_RPC_FS_SESSION_RESET) None 0 None 0 None 5000
            (st\<lparr>cl := jump_request_ids (cl st)\<rparr>) of
       Ret (rc, outs, st') \<Rightarrow>
         (let ret_val = (case outs of Some (r, _) \<Rightarrow> r | None \<Rightarrow> 0) in
          if rc \<noteq> 0 \<or> ret_val \<noteq> 0 then Ret (- 1, st') else Ret (0, st'))
     | Faults \<Rightarrow> Faults
     | Diverges \<Rightarrow> Diverges)"

end
