(* ===== verification/Rpc_Client_Correct.thy ===== *)
theory Rpc_Client_Correct
  imports Rpc_Client
begin

text \<open>
  Correctness of the RPC client: slot accounting, uniqueness of request ids,
  what an incoming message may change, ownership of a slot by its caller under
  interference, release of the slot on every return, termination of the timed
  call and delivery of the response.
\<close>

section \<open>The pending table as a slot pool\<close>

definition rpc_wf :: "rpc_client \<Rightarrow> bool" where
  "rpc_wf c \<longleftrightarrow> length (g_rpc_pending c) = MAX_PENDING_RPC"

lemma in_use_claim_slot [slot_simps]: "in_use (claim_slot a s)"
  by (simp add: claim_slot_def split: prod.splits)

lemma in_use_release_slot [slot_simps]: "\<not> in_use (release_slot s)"
  by (simp add: release_slot_def)

interpretation pending: slot_pool in_use "\<lambda>_. True" claim_slot release_slot
  by unfold_locales (simp_all add: slot_simps)

lemma pending_init [simp]: "g_rpc_pending (px4_openamp_rpc_init_locked c) = g_rpc_pending c"
  by (simp add: px4_openamp_rpc_init_locked_def)

lemma next_id_init [simp]:
  "g_rpc_next_request_id (px4_openamp_rpc_init_locked c) = g_rpc_next_request_id c"
  by (simp add: px4_openamp_rpc_init_locked_def)

lemma mem_init [simp]:
  "c_mem (px4_openamp_rpc_init_locked c) = c_mem c"
  "c_sizes (px4_openamp_rpc_init_locked c) = c_sizes c"
  by (simp_all add: px4_openamp_rpc_init_locked_def)

lemma pending_fetch [simp]: "g_rpc_pending (snd (fetch_request_id c)) = g_rpc_pending c"
  by (simp add: fetch_request_id_def Let_def)

lemma mem_fetch [simp]:
  "c_mem (snd (fetch_request_id c)) = c_mem c"
  "c_sizes (snd (fetch_request_id c)) = c_sizes c"
  by (simp_all add: fetch_request_id_def Let_def)

lemma set_slot_simps [simp]:
  "g_rpc_pending (set_slot i s c) = (g_rpc_pending c)[i := s]"
  "g_rpc_next_request_id (set_slot i s c) = g_rpc_next_request_id c"
  "c_mem (set_slot i s c) = c_mem c" "c_sizes (set_slot i s c) = c_sizes c"
  by (simp_all add: set_slot_def)

lemma release_slot_locked_simps [simp]:
  "g_rpc_pending (release_slot_locked i c) = (g_rpc_pending c)[i := release_slot (g_rpc_pending c ! i)]"
  "g_rpc_next_request_id (release_slot_locked i c) = g_rpc_next_request_id c"
  "c_mem (release_slot_locked i c) = c_mem c" "c_sizes (release_slot_locked i c) = c_sizes c"
  by (simp_all add: release_slot_locked_def)

lemma jump_simps [simp]:
  "g_rpc_pending (jump_request_ids c) = g_rpc_pending c"
  "c_mem (jump_request_ids c) = c_mem c" "c_sizes (jump_request_ids c) = c_sizes c"
  by (simp_all add: jump_request_ids_def Let_def)

lemma count_no_buf_simps [simp]:
  "g_rpc_pending (count_no_buf r c) = g_rpc_pending c"
  "c_mem (count_no_buf r c) = c_mem c" "c_sizes (count_no_buf r c) = c_sizes c"
  by (simp_all add: count_no_buf_def)

text \<open>\<open>alloc_pending\<close> on its two branches, over the table.\<close>

lemma alloc_pending_None_iff:
  "fst (alloc_pending b n l cb u c) = None \<longleftrightarrow> find_index (\<lambda>s. \<not> in_use s) (g_rpc_pending c) = None"
  by (simp add: alloc_pending_def Let_def split: option.splits prod.splits)

lemma alloc_pending_None:
  "alloc_pending b n l cb u c = (None, c') \<Longrightarrow>
   find_index (\<lambda>s. \<not> in_use s) (g_rpc_pending c) = None \<and> c' = px4_openamp_rpc_init_locked c"
  by (simp add: alloc_pending_def Let_def split: option.splits prod.splits)

lemma alloc_pending_Some:
  assumes "alloc_pending b n l cb u c = (Some (i, rid), c')"
  shows "find_index (\<lambda>s. \<not> in_use s) (g_rpc_pending c) = Some i"
    and "g_rpc_pending c' = (g_rpc_pending c)[i := claim_slot (b, n, l, cb, u, rid) (g_rpc_pending c ! i)]"
    and "(rid, g_rpc_next_request_id c') =
           (let r = g_rpc_next_request_id c in if r = INT32_MIN then (r + 1, r + 2) else (r, r + 1))"
    and "c_mem c' = c_mem c" and "c_sizes c' = c_sizes c"
proof -
  from assms obtain d where
    fi: "find_index (\<lambda>s. \<not> in_use s) (g_rpc_pending c) = Some i" and
    fe: "fetch_request_id (px4_openamp_rpc_init_locked c) = (rid, d)" and
    c': "c' = set_slot i (claim_slot (b, n, l, cb, u, rid) (g_rpc_pending d ! i)) d"
    by (auto simp add: alloc_pending_def Let_def split: option.splits prod.splits)
  have d: "g_rpc_pending d = g_rpc_pending c" "c_mem d = c_mem c" "c_sizes d = c_sizes c"
    using pending_fetch[of "px4_openamp_rpc_init_locked c"] mem_fetch[of "px4_openamp_rpc_init_locked c"]
    by (simp_all add: fe)
  show "find_index (\<lambda>s. \<not> in_use s) (g_rpc_pending c) = Some i" by (rule fi)
  show "g_rpc_pending c' = (g_rpc_pending c)[i := claim_slot (b, n, l, cb, u, rid) (g_rpc_pending c ! i)]"
    by (simp add: c' d)
  show "(rid, g_rpc_next_request_id c') =
           (let r = g_rpc_next_request_id c in if r = INT32_MIN then (r + 1, r + 2) else (r, r + 1))"
    using fe by (auto simp add: c' fetch_request_id_def Let_def split: if_splits)
  show "c_mem c' = c_mem c" "c_sizes c' = c_sizes c" by (simp_all add: c' d)
qed

lemma pending_count_eq: "px4_openamp_rpc_pending_count c = count_if in_use (g_rpc_pending c)"
proof -
  have "foldl (\<lambda>n s. if in_use s then n + 1 else n) k xs = k + count_if in_use xs" for k :: nat and xs
    by (induction xs arbitrary: k) auto
  from this[of 0] show ?thesis by (simp add: px4_openamp_rpc_pending_count_def)
qed

lemma alloc_pending_count:
  assumes "rpc_wf c"
  shows "case fst (alloc_pending b n l cb u c) of
           None \<Rightarrow> px4_openamp_rpc_pending_count c = MAX_PENDING_RPC \<and>
                   g_rpc_pending (snd (alloc_pending b n l cb u c)) = g_rpc_pending c
         | Some (i, rid) \<Rightarrow> i < MAX_PENDING_RPC \<and> \<not> in_use (g_rpc_pending c ! i) \<and>
             px4_openamp_rpc_pending_count (snd (alloc_pending b n l cb u c)) =
               Suc (px4_openamp_rpc_pending_count c)"
proof (cases "alloc_pending b n l cb u c")
  case (Pair r c')
  show ?thesis
  proof (cases r)
    case None
    with Pair alloc_pending_None[of b n l cb u c c'] assms show ?thesis
      by (simp add: pending_count_eq pending.free_slot_None_iff rpc_wf_def)
  next
    case (Some p)
    obtain i rid where p: "p = (i, rid)" by (cases p)
    note a = alloc_pending_Some[of b n l cb u c i rid c'] Pair[unfolded Some p]
    from a have fi: "find_index (\<lambda>s. \<not> in_use s) (g_rpc_pending c) = Some i" by simp
    show ?thesis
      using a pending.claim_count[OF fi] pending.free_slotD[OF fi] assms
      by (simp add: pending_count_eq Some p rpc_wf_def)
  qed
qed

section \<open>Incoming messages\<close>

abbreviation answers :: "px4_rpc_header \<Rightarrow> rpc_pending \<Rightarrow> bool" where
  "answers h s \<equiv> in_use s \<and> request_id s = hdr_request_id h"

definition well_formed_message :: "bytes \<Rightarrow> bool" where
  "well_formed_message data \<longleftrightarrow>
     RPC_HEADER_SIZE \<le> length data \<and> hdr_magic (bytes_header data) = PX4_RPC_MAGIC \<and>
     unat (hdr_payload_size (bytes_header data)) \<le> length data - RPC_HEADER_SIZE"

abbreviation receive :: "bytes \<Rightarrow> rpc_client \<Rightarrow> rpc_client" where
  "receive data c \<equiv> fst (snd (px4_openamp_rpc_handle_message data c))"

text \<open>The state in which a well-formed message is searched for its slot.\<close>

abbreviation opened :: "rpc_client \<Rightarrow> rpc_client" where
  "opened c \<equiv> px4_openamp_rpc_init_locked (c\<lparr>g_rpc_channel_ready := True\<rparr>)"

lemma handle_malformed:
  "\<not> well_formed_message data \<Longrightarrow>
   receive data c = c \<or> receive data c = c\<lparr>g_rpc_channel_ready := True\<rparr>"
  by (auto simp: px4_openamp_rpc_handle_message_def well_formed_message_def Let_def)

lemma handle_miss:
  "well_formed_message data \<Longrightarrow>
   find_index (answers (bytes_header data)) (g_rpc_pending c) = None \<Longrightarrow>
   px4_openamp_rpc_handle_message data c = (True, opened c, No_dispatch)"
  by (simp add: px4_openamp_rpc_handle_message_def well_formed_message_def Let_def)

lemma handle_hit:
  "well_formed_message data \<Longrightarrow>
   find_index (answers (bytes_header data)) (g_rpc_pending c) = Some i \<Longrightarrow>
   px4_openamp_rpc_handle_message data c =
     (True, deliver_response (bytes_header data) (drop RPC_HEADER_SIZE data) i (opened c))"
  by (simp add: px4_openamp_rpc_handle_message_def well_formed_message_def Let_def)

lemma handle_cases:
  obtains (malformed) "receive data c = c \<or> receive data c = c\<lparr>g_rpc_channel_ready := True\<rparr>"
    | (late) "receive data c = opened c"
    | (hit) i where "find_index (answers (bytes_header data)) (g_rpc_pending c) = Some i"
      "receive data c = fst (deliver_response (bytes_header data) (drop RPC_HEADER_SIZE data) i (opened c))"
proof (cases "well_formed_message data")
  case False
  then show ?thesis using handle_malformed malformed by blast
next
  case wf: True
  show ?thesis
  proof (cases "find_index (answers (bytes_header data)) (g_rpc_pending c)")
    case None
    then show ?thesis using handle_miss[OF wf] late by simp
  next
    case (Some i)
    then show ?thesis using handle_hit[OF wf] hit by simp
  qed
qed

lemma store_response_simps [simp]:
  "g_rpc_pending (store_response h p s c) = g_rpc_pending c"
  "g_rpc_next_request_id (store_response h p s c) = g_rpc_next_request_id c"
  by (simp_all add: store_response_def Let_def split: option.splits)

lemma store_response_mem:
  "c_mem (store_response h p s c) b =
     (if response_buffer s = Some b
      then overwrite 0 (take (min (unat (hdr_payload_size h)) (response_capacity s)) p) (c_mem c b)
      else c_mem c b)"
  by (auto simp add: store_response_def Let_def min_def split: option.splits)

lemma store_response_sizes:
  "c_sizes (store_response h p s c) l =
     (if response_length_out s = Some l then unat (hdr_payload_size h) else c_sizes c l)"
  by (auto simp add: store_response_def Let_def split: option.splits)

lemma complete_slot_simps [simp]:
  "in_use (complete_slot h s) = in_use s" "request_id (complete_slot h s) = request_id s"
  "callback (complete_slot h s) = callback s" "response_buffer (complete_slot h s) = response_buffer s"
  "response_length_out (complete_slot h s) = response_length_out s"
  "user_data (complete_slot h s) = user_data s" "completed (complete_slot h s)"
  "response_capacity (complete_slot h s) = response_capacity s"
  "return_value (complete_slot h s) = hdr_return_value h"
  "errno_value (complete_slot h s) = hdr_errno_value h"
  "response_length (complete_slot h s) = unat (hdr_payload_size h)"
  by (simp_all add: complete_slot_def)

lemma deliver_pending:
  assumes "i < length (g_rpc_pending c)"
  shows "g_rpc_pending (fst (deliver_response h p i c)) =
    (let s = complete_slot h (g_rpc_pending c ! i) in
     (g_rpc_pending c)[i := (if callback s = None then s else release_slot s)])"
  using assms by (auto simp: deliver_response_def Let_def split: option.splits)

lemma deliver_next_id [simp]:
  "g_rpc_next_request_id (fst (deliver_response h p i c)) = g_rpc_next_request_id c"
  by (simp add: deliver_response_def Let_def split: option.splits)

lemma deliver_mem:
  "c_mem (fst (deliver_response h p i c)) b =
     (if response_buffer (g_rpc_pending c ! i) = Some b
      then overwrite 0 (take (min (unat (hdr_payload_size h))
             (response_capacity (g_rpc_pending c ! i))) p) (c_mem c b)
      else c_mem c b)"
  by (simp add: deliver_response_def Let_def store_response_mem split: option.splits)

lemma deliver_sizes:
  "c_sizes (fst (deliver_response h p i c)) l =
     (if response_length_out (g_rpc_pending c ! i) = Some l then unat (hdr_payload_size h)
      else c_sizes c l)"
  by (simp add: deliver_response_def Let_def store_response_sizes split: option.splits)

lemma handle_next_id [simp]:
  "g_rpc_next_request_id (receive data c) = g_rpc_next_request_id c"
  by (cases rule: handle_cases[of data c]) auto

text \<open>Each slot after a message: unchanged, completed, or handed to its callback.\<close>

lemma handle_slot_cases:
  assumes "j < length (g_rpc_pending c)"
  shows "g_rpc_pending (receive data c) ! j = g_rpc_pending c ! j \<or>
    (answers (bytes_header data) (g_rpc_pending c ! j) \<and>
     g_rpc_pending (receive data c) ! j =
       (let s = complete_slot (bytes_header data) (g_rpc_pending c ! j) in
        if callback s = None then s else release_slot s))"
proof (cases rule: handle_cases[of data c])
  case (hit i)
  from hit(1) have "i < length (g_rpc_pending c)" "answers (bytes_header data) (g_rpc_pending c ! i)"
    using find_index_SomeD by fast+
  then show ?thesis using assms by (cases "i = j") (simp_all add: hit(2) deliver_pending Let_def)
qed auto

lemma handle_length [simp]:
  "length (g_rpc_pending (receive data c)) = length (g_rpc_pending c)"
proof (cases rule: handle_cases[of data c])
  case (hit i)
  then show ?thesis using find_index_less[OF hit(1)] by (simp add: deliver_pending Let_def)
qed auto

section \<open>Ownership of a slot under interference\<close>

text \<open>Slot \<open>i\<close> belongs to a synchronous call with these parameters.\<close>

definition owns :: "nat \<Rightarrow> 32 word \<Rightarrow> nat option \<Rightarrow> nat \<Rightarrow> nat option \<Rightarrow> rpc_client \<Rightarrow> bool" where
  "owns i rid buf cap len_out c \<longleftrightarrow>
     i < length (g_rpc_pending c) \<and>
     (let s = g_rpc_pending c ! i in
      in_use s \<and> request_id s = rid \<and> response_buffer s = buf \<and> response_capacity s = cap \<and>
      response_length_out s = len_out \<and> callback s = None)"

lemma alloc_other_slot:
  assumes "in_use (g_rpc_pending c ! j)"
  shows "g_rpc_pending (snd (alloc_pending b n l cb u c)) ! j = g_rpc_pending c ! j"
proof (cases "alloc_pending b n l cb u c")
  case (Pair r c')
  show ?thesis
  proof (cases r)
    case None
    then show ?thesis using Pair alloc_pending_None[of b n l cb u c c'] by simp
  next
    case (Some p)
    obtain i rid where p: "p = (i, rid)" by (cases p)
    note a = alloc_pending_Some[OF Pair[unfolded Some p]]
    have "i \<noteq> j" using pending.free_slotD[OF a(1)] assms by auto
    then show ?thesis using Pair a(2) by simp
  qed
qed

lemma alloc_length [simp]:
  "length (g_rpc_pending (snd (alloc_pending b n l cb u c))) = length (g_rpc_pending c)"
proof (cases "alloc_pending b n l cb u c")
  case (Pair r c')
  then show ?thesis
    using alloc_pending_None[of b n l cb u c c'] alloc_pending_Some(2)[of b n l cb u c _ _ c']
    by (cases r) auto
qed

lemma event_length [simp]:
  "length (g_rpc_pending (rpc_event_step me ev c)) = length (g_rpc_pending c)"
  by (cases ev) auto

lemma run_events_Nil [simp]: "rpc_run_events me [] c = c"
  by (simp add: rpc_run_events_def)

lemma run_events_Cons [simp]:
  "rpc_run_events me (e # evs) c = rpc_run_events me evs (rpc_event_step me e c)"
  by (simp add: rpc_run_events_def)

lemma run_events_length [simp]:
  "length (g_rpc_pending (rpc_run_events me evs c)) = length (g_rpc_pending c)"
  by (induction evs arbitrary: c) auto

text \<open>An invariant of the single events is one of their runs.\<close>

lemma run_events_inv:
  "I c \<Longrightarrow> (\<And>ev c. ev \<in> set evs \<Longrightarrow> I c \<Longrightarrow> I (rpc_event_step me ev c)) \<Longrightarrow>
   I (rpc_run_events me evs c)"
  by (induction evs arbitrary: c) auto

lemma event_owns:
  assumes "owns i rid buf cap lo c"
  shows "owns i rid buf cap lo (rpc_event_step i ev c)"
proof (cases ev)
  case (Ev_message d)
  then show ?thesis
    using assms handle_slot_cases[of i c d] by (auto simp: owns_def Let_def)
next
  case (Ev_alloc b n l cb u)
  then show ?thesis using assms alloc_other_slot[of c i b n l cb u] by (simp add: owns_def Let_def)
next
  case (Ev_release j)
  then show ?thesis using assms by (auto simp: owns_def Let_def)
next
  case Ev_session
  then show ?thesis using assms by (simp add: owns_def Let_def)
qed

lemma run_events_owns:
  "owns i rid buf cap lo c \<Longrightarrow> owns i rid buf cap lo (rpc_run_events i evs c)"
  by (rule run_events_inv) (simp_all add: event_owns)

lemma alloc_owns:
  "alloc_pending b n l None u c = (Some (i, rid), c') \<Longrightarrow> owns i rid b n l c' \<and> \<not> slot_completed i c'"
  using alloc_pending_Some[of b n l None u c i rid c'] find_index_less[of _ "g_rpc_pending c" i]
  by (simp add: owns_def Let_def claim_slot_def)

section \<open>Request ids\<close>

definition ids_unique :: "rpc_client \<Rightarrow> bool" where
  "ids_unique c \<longleftrightarrow>
     (\<forall>i<length (g_rpc_pending c). \<forall>j<length (g_rpc_pending c).
        in_use (g_rpc_pending c ! i) \<and> in_use (g_rpc_pending c ! j) \<and>
        request_id (g_rpc_pending c ! i) = request_id (g_rpc_pending c ! j) \<longrightarrow> i = j)"

text \<open>All ids in flight are positive and below the next one.\<close>

definition ids_below :: "rpc_client \<Rightarrow> bool" where
  "ids_below c \<longleftrightarrow> 0 < sint (g_rpc_next_request_id c) \<and>
     (\<forall>s\<in>set (g_rpc_pending c). in_use s \<longrightarrow>
        0 < sint (request_id s) \<and> sint (request_id s) < sint (g_rpc_next_request_id c))"

abbreviation ids_ok :: "rpc_client \<Rightarrow> bool" where
  "ids_ok c \<equiv> ids_unique c \<and> ids_below c"

text \<open>Messages and releases only take slots away.\<close>

definition slots_shrink :: "rpc_client \<Rightarrow> rpc_client \<Rightarrow> bool" where
  "slots_shrink c c' \<longleftrightarrow>
     length (g_rpc_pending c') = length (g_rpc_pending c) \<and>
     sint (g_rpc_next_request_id c) \<le> sint (g_rpc_next_request_id c') \<and>
     (\<forall>j<length (g_rpc_pending c). in_use (g_rpc_pending c' ! j) \<longrightarrow>
        in_use (g_rpc_pending c ! j) \<and> request_id (g_rpc_pending c' ! j) = request_id (g_rpc_pending c ! j))"

lemma shrink_ids_ok: "slots_shrink c c' \<Longrightarrow> ids_ok c \<Longrightarrow> ids_ok c'"
  unfolding slots_shrink_def ids_unique_def ids_below_def all_set_conv_all_nth
  by (smt (verit))

lemma shrink_event:
  assumes "\<And>b n l cb u. ev \<noteq> Ev_alloc b n l cb u"
  shows "slots_shrink c (rpc_event_step me ev c)"
proof (cases ev)
  case (Ev_message d)
  have "in_use (g_rpc_pending (receive d c) ! j) \<longrightarrow> in_use (g_rpc_pending c ! j) \<and>
      request_id (g_rpc_pending (receive d c) ! j) = request_id (g_rpc_pending c ! j)"
    if "j < length (g_rpc_pending c)" for j
    using handle_slot_cases[OF that, of d] by (auto simp: Let_def slot_simps split: if_splits)
  then show ?thesis by (simp add: Ev_message slots_shrink_def)
next
  case (Ev_release i)
  then show ?thesis
    by (auto simp: slots_shrink_def nth_update_if in_use_release_slot)
next
  case Ev_session
  then show ?thesis by (auto simp: slots_shrink_def jump_request_ids_def Let_def)
qed (use assms in simp)

lemma alloc_ids_ok:
  assumes ok: "ids_ok c" and room: "sint (g_rpc_next_request_id c) < 2147483647"
    and a: "alloc_pending b n l cb u c = (Some (i, rid), c')"
  shows "ids_ok c'" and "rid = g_rpc_next_request_id c" and "g_rpc_next_request_id c' = rid + 1"
proof -
  note aS = alloc_pending_Some[OF a]
  from ok have pos: "0 < sint (g_rpc_next_request_id c)" by (simp add: ids_below_def)
  then have ne: "g_rpc_next_request_id c \<noteq> INT32_MIN" by (auto simp: INT32_MIN_def)
  with aS(3) show rid: "rid = g_rpc_next_request_id c" and nx: "g_rpc_next_request_id c' = rid + 1"
    by (simp_all add: Let_def)
  have up: "sint (g_rpc_next_request_id c') = sint (g_rpc_next_request_id c) + 1"
    using sint_plus_one[OF room] by (simp add: nx rid)
  have i: "i < length (g_rpc_pending c)" using find_index_less[OF aS(1)] .
  have slot: "g_rpc_pending c' ! j =
      (if j = i then claim_slot (b, n, l, cb, u, rid) (g_rpc_pending c ! i) else g_rpc_pending c ! j)"
    if "j < length (g_rpc_pending c)" for j
    using that i by (simp add: aS(2) nth_list_update)
  have new: "request_id (g_rpc_pending c' ! i) = rid"
    using i by (simp add: slot claim_slot_def)
  have low: "sint (request_id (g_rpc_pending c ! j)) < sint rid"
    if "j < length (g_rpc_pending c)" "in_use (g_rpc_pending c ! j)" for j
    using ok that by (simp add: ids_below_def rid)
  have "ids_unique c'"
    unfolding ids_unique_def
  proof (intro allI impI)
    fix j k
    assume jk: "j < length (g_rpc_pending c')" "k < length (g_rpc_pending c')"
      "in_use (g_rpc_pending c' ! j) \<and> in_use (g_rpc_pending c' ! k) \<and>
       request_id (g_rpc_pending c' ! j) = request_id (g_rpc_pending c' ! k)"
    then have l: "j < length (g_rpc_pending c)" "k < length (g_rpc_pending c)" by (simp_all add: aS(2))
    show "j = k"
    proof (cases "j = i \<or> k = i")
      case True
      then show ?thesis using jk(3) l new slot low by (metis order_less_irrefl)
    next
      case False
      then show ?thesis using jk(3) l ok slot by (simp add: ids_unique_def)
    qed
  qed
  moreover have "ids_below c'"
    unfolding ids_below_def all_set_conv_all_nth
  proof (intro conjI allI impI)
    show "0 < sint (g_rpc_next_request_id c')" using up pos by simp
    fix j
    assume "j < length (g_rpc_pending c')" "in_use (g_rpc_pending c' ! j)"
    then have j: "j < length (g_rpc_pending c)" "j = i \<or> in_use (g_rpc_pending c ! j)"
      by (auto simp: aS(2) nth_update_if split: if_splits)
    then show "0 < sint (request_id (g_rpc_pending c' ! j))"
      and "sint (request_id (g_rpc_pending c' ! j)) < sint (g_rpc_next_request_id c')"
      using ok new slot up pos rid by (cases "j = i", auto simp: ids_below_def)+
  qed
  ultimately show "ids_ok c'" by simp
qed

text \<open>Each event raises the counter by at most one, or to 10000.\<close>

lemma event_ids_ok:
  assumes "ids_ok c" "sint (g_rpc_next_request_id c) \<le> int k" "k < 2147483647" "10000 \<le> k"
  shows "ids_ok (rpc_event_step me ev c) \<and>
    sint (g_rpc_next_request_id (rpc_event_step me ev c)) \<le> int (Suc k)"
proof (cases "\<exists>b n l cb u. ev = Ev_alloc b n l cb u")
  case False
  have "sint (g_rpc_next_request_id (rpc_event_step me ev c)) \<le> int (Suc k)"
    using assms(2,4) False by (cases ev) (auto simp: jump_request_ids_def Let_def)
  then show ?thesis using shrink_ids_ok[OF shrink_event[of ev c me]] False assms(1) by metis
next
  case True
  then obtain b n l cb u where ev: "ev = Ev_alloc b n l cb u" by blast
  have room: "sint (g_rpc_next_request_id c) < 2147483647" using assms(2,3) by simp
  show ?thesis
  proof (cases "alloc_pending b n l cb u c")
    case (Pair r c')
    show ?thesis
    proof (cases r)
      case None
      with Pair have "c' = px4_openamp_rpc_init_locked c"
        using alloc_pending_None by blast
      then show ?thesis using assms(1,2) by (simp add: ev Pair ids_unique_def ids_below_def)
    next
      case (Some p)
      obtain i rid where p: "p = (i, rid)" by (cases p)
      note a = alloc_ids_ok[OF assms(1) room Pair[unfolded Some p]]
      then show ?thesis using sint_plus_one[OF room] assms(2) by (simp add: ev Pair)
    qed
  qed
qed

lemma run_ids_ok:
  assumes "ids_ok c" "sint (g_rpc_next_request_id c) \<le> int k" "k + length evs < 2147483648" "10000 \<le> k"
  shows "ids_ok (rpc_run_events me evs c)"
  using assms
proof (induction evs arbitrary: c k)
  case (Cons e evs)
  from event_ids_ok[OF Cons.prems(1,2) _ Cons.prems(4)] Cons.prems(3)
  have "ids_ok (rpc_event_step me e c)"
    "sint (g_rpc_next_request_id (rpc_event_step me e c)) \<le> int (Suc k)" by simp_all
  from Cons.IH[OF this] Cons.prems show ?case by simp
qed simp

lemma boot_ids_ok: "ids_ok (rpc_boot m z)"
  by (simp add: ids_unique_def ids_below_def rpc_boot_def blank_slot_def)

section \<open>The wait loops\<close>

text \<open>Every event that the environment delivers satisfies \<open>P\<close>.\<close>

definition os_emits :: "'w rpc_os \<Rightarrow> (rpc_event \<Rightarrow> bool) \<Rightarrow> bool" where
  "os_emits os P \<longleftrightarrow>
     (\<forall>w. list_all P (fst (os_get_notification os w))) \<and>
     (\<forall>b w. list_all P (fst (snd (os_trysend os b w)))) \<and>
     (\<forall>i w. list_all P (fst (os_cond_wait os i w))) \<and>
     (\<forall>i d w. list_all P (fst (snd (os_cond_timedwait os i d w)))) \<and>
     (\<forall>t w. list_all P (fst (os_usleep os t w)))"

lemma os_emits_True: "os_emits os (\<lambda>_. True)"
  by (simp add: os_emits_def list_all_iff)

text \<open>\<open>I\<close> is kept by every event the environment can deliver to the owner of \<open>i\<close>.\<close>

definition event_stable :: "nat \<Rightarrow> (rpc_event \<Rightarrow> bool) \<Rightarrow> (rpc_client \<Rightarrow> bool) \<Rightarrow> bool" where
  "event_stable i P I \<longleftrightarrow> (\<forall>ev c. P ev \<longrightarrow> I c \<longrightarrow> I (rpc_event_step i ev c))"

lemma stable_run: "event_stable i P I \<Longrightarrow> list_all P evs \<Longrightarrow> I c \<Longrightarrow> I (rpc_run_events i evs c)"
  by (rule run_events_inv) (auto simp: event_stable_def list_all_iff)

lemma stable_poll:
  assumes "event_stable i P I" "os_emits os P" "I c"
    and "poll_remoteproc_notifications os i c w = (c', w')"
  shows "I c'"
proof -
  have "list_all P (fst (os_get_notification os w))" using assms(2) by (simp add: os_emits_def)
  with assms(1,3,4) show ?thesis
    by (auto simp: poll_remoteproc_notifications_def stable_run split: if_splits prod.splits)
qed

lemma os_emits_dest:
  assumes "os_emits os P"
  shows "os_cond_wait os i w = (evs, w') \<Longrightarrow> list_all P evs"
    and "os_cond_timedwait os i d w = (r, evs, w') \<Longrightarrow> list_all P evs"
    and "os_trysend os b w = (r, evs, w') \<Longrightarrow> list_all P evs"
    and "os_usleep os t w = (evs, w') \<Longrightarrow> list_all P evs"
  using assms unfolding os_emits_def by (metis fst_conv snd_conv)+

lemma wait_forever_inv:
  assumes "event_stable i P I" "os_emits os P"
  shows "rpc_wait_forever os i fuel c w = Ret (r, c', w') \<Longrightarrow> I c \<Longrightarrow> I c' \<and> r = 0 \<and> slot_completed i c'"
proof (induction fuel arbitrary: c w)
  case (Suc fuel)
  obtain c1 w1 where p: "poll_remoteproc_notifications os i c w = (c1, w1)" by fastforce
  obtain evs w2 where q: "os_cond_wait os i w1 = (evs, w2)" by fastforce
  note I1 = stable_poll[OF assms Suc.prems(2) p]
  note I2 = stable_run[OF assms(1) os_emits_dest(1)[OF assms(2) q] I1]
  show ?case using Suc.prems Suc.IH[OF _ I2] I1 by (auto simp: p q split: if_splits)
qed simp

lemma wait_timed_inv:
  assumes "event_stable i P I" "os_emits os P"
  shows "rpc_wait_timed os i t s fuel c w = Ret (r, c', w') \<Longrightarrow> I c \<Longrightarrow>
    I c' \<and> (r = 0 \<longrightarrow> slot_completed i c')"
proof (induction fuel arbitrary: c w)
  case (Suc fuel)
  obtain e sec ns w1 where k: "os_clock os w = ((e, sec, ns), w1)" by (metis prod_cases3 surj_pair)
  obtain c2 w2 where p: "poll_remoteproc_notifications os i c w1 = (c2, w2)" by fastforce
  obtain e' sec' ns' w3 where k': "os_clock os w2 = ((e', sec', ns'), w3)" by (metis prod_cases3 surj_pair)
  obtain cr evs w4 where q: "os_cond_timedwait os i (slice_deadline sec' ns') w3 = (cr, evs, w4)"
    by (metis prod_cases3)
  note I1 = stable_poll[OF assms Suc.prems(2) p]
  note I2 = stable_run[OF assms(1) os_emits_dest(2)[OF assms(2) q] I1]
  show ?case using Suc.prems Suc.IH[OF _ I2] I1 I2
    by (auto simp: k p k' q Let_def split: if_splits)
qed simp

lemma wait_inv:
  assumes "event_stable i P I" "os_emits os P" "I c"
    and "rpc_wait os fuel i t c w = Ret (r, c', w')"
  shows "I c' \<and> (r = 0 \<longrightarrow> slot_completed i c')"
  using assms(3,4) wait_forever_inv[OF assms(1,2)] wait_timed_inv[OF assms(1,2)]
  by (auto simp: rpc_wait_def split: if_splits prod.splits)

lemma wait_never_faults: "rpc_wait os fuel i t c w \<noteq> Faults"
proof -
  have "rpc_wait_forever os i fuel c w \<noteq> Faults" for c w
    by (induction fuel arbitrary: c w) (auto split: prod.splits)
  moreover have "rpc_wait_timed os i t s fuel c w \<noteq> Faults" for c w s
    by (induction fuel arbitrary: c w) (auto simp: Let_def split: prod.splits)
  ultimately show ?thesis by (auto simp: rpc_wait_def split: prod.splits)
qed

lemma owns_stable: "event_stable i P (owns i rid buf cap lo)"
  by (simp add: event_stable_def event_owns)

section \<open>The synchronous call\<close>

text \<open>What \<open>px4_openamp_rpc_call_timeout\<close> returned, by the step at which it returned.\<close>

lemma call_cases:
  assumes "px4_openamp_rpc_call_timeout os fuel cat op payload n buf cap lo t st = Ret (rc, outs, st')"
  obtains (not_ready) "rc = - 1" "outs = None" "st' = st\<lparr>err := ENOTCONN\<rparr>"
      "\<not> px4_openamp_rpc_endpoint_ready os (world st)"
    | (too_long) "rc = - 1" "outs = None" "st' = st\<lparr>err := EINVAL\<rparr>" "n > 4294967295"
    | (busy) c where "rc = - 1" "outs = None" "st' = st\<lparr>cl := c, err := EBUSY\<rparr>"
      "alloc_pending buf cap lo None 0 (cl st) = (None, c)"
    | (no_mem) i rid c w where "rc = - 1" "outs = None"
      "alloc_pending buf cap lo None 0 (cl st) = (Some (i, rid), c)"
      "st' = \<lparr>cl = release_slot_locked i c, err = ENOMEM, world = w\<rparr>"
    | (send_failed) i rid c buffer w send_result evs w1 where "rc = - 1" "outs = None"
      "alloc_pending buf cap lo None 0 (cl st) = (Some (i, rid), c)"
      "os_trysend os buffer w = (send_result, evs, w1)" "send_result < 0"
      "st' = \<lparr>cl = release_slot_locked i (count_no_buf send_result (rpc_run_events i evs c)),
              err = (if send_result = RPMSG_ERR_NO_BUFF then EAGAIN else EIO), world = os_free os w1\<rparr>"
    | (waited) i rid c buffer w send_result evs w1 wait_result c3 w3 where
      "alloc_pending buf cap lo None 0 (cl st) = (Some (i, rid), c)"
      "os_trysend os buffer w = (send_result, evs, w1)" "0 \<le> send_result"
      "rpc_wait os fuel i t (rpc_run_events i evs c) (os_free os w1) = Ret (wait_result, c3, w3)"
      "(rc, outs, st') = rpc_finish i lo wait_result (err st) c3 w3"
proof -
  note call = assms[unfolded px4_openamp_rpc_call_timeout_def]
  consider "\<not> px4_openamp_rpc_endpoint_ready os (world st)"
    | "px4_openamp_rpc_endpoint_ready os (world st)" "n > 4294967295"
    | "px4_openamp_rpc_endpoint_ready os (world st)" "\<not> n > 4294967295" by blast
  then show ?thesis
  proof cases
    case 1 with call not_ready show ?thesis by simp
  next
    case 2 with call too_long show ?thesis by simp
  next
    case 3
    obtain a c where a: "alloc_pending buf cap lo None 0 (cl st) = (a, c)" by fastforce
    show ?thesis
    proof (cases a)
      case None
      with call 3 a show ?thesis by (intro busy[of c]) auto
    next
      case (Some p)
      obtain i rid where p: "p = (i, rid)" by fastforce
      obtain g w where m: "os_malloc os (rpc_total_len n) (world st) = (g, w)" by fastforce
      show ?thesis
      proof (cases g)
        case None
        with call 3 a m show ?thesis by (auto simp: Some p intro: no_mem)
      next
        case (Some f)
        from call 3 a m obtain buffer where
          b: "rpc_fill_message f (rpc_request_header cat op rid n) payload n = Ret buffer"
          by (auto simp: \<open>a = Some p\<close> p Some split: exec.splits)
        obtain sr evs w1 where t: "os_trysend os buffer w = (sr, evs, w1)" by (metis prod_cases3)
        show ?thesis
        proof (cases "sr < 0")
          case True
          with call 3 a m b t show ?thesis
            by (intro send_failed[of i rid c buffer w sr evs w1])
               (auto simp: \<open>a = Some p\<close> p Some Let_def)
        next
          case False
          then have "count_no_buf sr (rpc_run_events i evs c) = rpc_run_events i evs c"
            by (simp add: count_no_buf_def)
          with call 3 a m b t False show ?thesis
            by (auto simp: \<open>a = Some p\<close> p Some Let_def intro: waited split: exec.splits)
        qed
      qed
    qed
  qed
qed

lemma rpc_finish_released:
  assumes "i < length (g_rpc_pending c)" "(rc, outs, st') = rpc_finish i lo wr e c w"
  shows "g_rpc_pending (cl st') = (g_rpc_pending c)[i := release_slot (g_rpc_pending c ! i)]"
  using assms(2) by (simp add: rpc_finish_def Let_def split: if_splits option.splits)

text \<open>Whatever is kept by the events is kept until the slot is released.\<close>

lemma call_inv:
  assumes call: "px4_openamp_rpc_call_timeout os fuel cat op payload n buf cap lo t st = Ret (rc, outs, st')"
    and st: "event_stable i P I" "os_emits os P"
    and a: "alloc_pending buf cap lo None 0 (cl st) = (Some (i, rid), c)" and I: "I c"
    and ready: "px4_openamp_rpc_endpoint_ready os (world st)" and n: "n \<le> 4294967295"
  shows "\<exists>c'. I c' \<and>
    g_rpc_pending (cl st') = (g_rpc_pending c')[i := release_slot (g_rpc_pending c' ! i)] \<and>
    length (g_rpc_pending c') = length (g_rpc_pending (cl st)) \<and> c_mem (cl st') = c_mem c'"
proof -
  have lc: "length (g_rpc_pending c) = length (g_rpc_pending (cl st))"
    using alloc_pending_Some(2)[OF a] by simp
  have stl: "event_stable i P (\<lambda>c'. I c' \<and> length (g_rpc_pending c') = length (g_rpc_pending (cl st)))"
    using st(1) by (simp add: event_stable_def)
  from call show ?thesis
  proof (cases rule: call_cases)
    case (no_mem i' rid' c2 w)
    with a I lc show ?thesis by (intro exI[of _ c]) simp
  next
    case (send_failed i' rid' c2 buffer w sr evs w1)
    with a have eq: "i' = i" "c2 = c" by simp_all
    note ev = os_emits_dest(3)[OF st(2) send_failed(4)]
    from stable_run[OF stl ev] I lc
    have "I (rpc_run_events i evs c)" by simp
    then show ?thesis
      using send_failed(6) lc by (intro exI[of _ "rpc_run_events i evs c"]) (simp add: eq)
  next
    case (waited i' rid' c2 buffer w sr evs w1 wr c3 w3)
    with a have eq: "i' = i" "c2 = c" by simp_all
    note ev = os_emits_dest(3)[OF st(2) waited(2)]
    note I1 = stable_run[OF stl ev, of c]
    from wait_inv[OF stl st(2) I1 waited(4)[unfolded eq]] I lc
    have c3: "I c3" "length (g_rpc_pending c3) = length (g_rpc_pending (cl st))" by simp_all
    have "i < length (g_rpc_pending c3)"
      using c3(2) find_index_less[OF alloc_pending_Some(1)[OF a]] by simp
    note fin = rpc_finish_released[OF this waited(5)[unfolded eq]]
    have "c_mem (cl st') = c_mem c3"
      using waited(5) by (simp add: rpc_finish_def Let_def split: if_splits option.splits)
    then show ?thesis using c3 fin by blast
  qed (use a ready n in simp_all)
qed

lemma call_error_cases:
  assumes "px4_openamp_rpc_call_timeout os fuel cat op payload n buf cap lo t st = Ret (rc, outs, st')"
  shows "rc = 0 \<and> outs \<noteq> None \<and> err st' = err st \<or> rc = - 1 \<and> outs = None"
  using assms
  by (cases rule: call_cases) (auto simp: rpc_finish_def Let_def split: if_splits)

text \<open>A failed call always leaves a positive \<open>errno\<close>.\<close>

lemma call_errno_pos:
  assumes "px4_openamp_rpc_call_timeout os fuel cat op payload n buf cap lo t st = Ret (rc, outs, st')"
    and "rc \<noteq> 0"
  shows "0 < err st'"
  using assms(1)
proof (cases rule: call_cases)
  case (waited i rid c buffer w sr evs w1 wr c3 w3)
  then show ?thesis using assms(2)
    by (cases "wr \<noteq> 0 \<and> \<not> slot_completed i c3") (auto simp: rpc_finish_def Let_def)
qed simp_all

end
