(* ===== verification/Rpc_Client_Props.thy ===== *)
theory Rpc_Client_Props
  imports Rpc_Client_Correct
begin

text \<open>
  The properties of the RPC client: layout of requests, what a message may
  change, ids, slot accounting, release on every return, safety of the
  caller's buffer, termination and delivery.  The lemmas they rest on are in
  \<open>Rpc_Client_Correct\<close>.
\<close>

section \<open>Requests on the wire\<close>

lemma unat_of_nat32 [simp]: "n < 4294967296 \<Longrightarrow> unat (of_nat n :: 32 word) = n"
  by (simp add: unat_of_nat)

lemma total_len_small: "RPC_HEADER_SIZE + n < SIZE_MODULUS \<Longrightarrow> rpc_total_len n = RPC_HEADER_SIZE + n"
  by (simp add: rpc_total_len_def)

lemma total_len_wrapped:
  "n < SIZE_MODULUS \<Longrightarrow> SIZE_MODULUS \<le> RPC_HEADER_SIZE + n \<Longrightarrow> rpc_total_len n < RPC_HEADER_SIZE"
  by (auto simp: rpc_total_len_def mod_if)

lemma fill_message_Ret:
  assumes "n \<le> length p" "RPC_HEADER_SIZE + n < SIZE_MODULUS"
  shows "rpc_fill_message g h (Some p) n = Ret (header_bytes h @ take n p)"
proof (cases n)
  case 0
  then show ?thesis
    by (simp add: rpc_fill_message_def rpc_total_len_def overwrite_def length_header_bytes)
next
  case (Suc k)
  have "overwrite RPC_HEADER_SIZE (take n p) (overwrite 0 (header_bytes h) (map g [0..<RPC_HEADER_SIZE + n])) =
      header_bytes h @ take n p"
    using assms by (simp add: overwrite_def length_header_bytes)
  then show ?thesis using assms total_len_small[OF assms(2)] Suc by (simp add: rpc_fill_message_def)
qed

text \<open>A request whose payload fits in the address space is sent as the packed
  header, which the peer decodes to the category, operation, request id and
  payload size that the caller gave, followed by exactly the caller's bytes.\<close>

theorem request_layout:
  assumes "n \<le> length p" "RPC_HEADER_SIZE + n < SIZE_MODULUS"
  shows "\<exists>m. rpc_fill_message g (rpc_request_header cat op rid n) (Some p) n = Ret m \<and>
      length m = RPC_HEADER_SIZE + n \<and> bytes_header m = rpc_request_header cat op rid n \<and>
      drop RPC_HEADER_SIZE m = take n p \<and> well_formed_message m"
  using fill_message_Ret[OF assms, of g "rpc_request_header cat op rid n"] assms
  by (simp add: codec_simps well_formed_message_def) (simp add: rpc_request_header_def)

theorem request_layout_witness:
  "\<exists>m. rpc_fill_message (\<lambda>_. 7) (rpc_request_header 2 1 5 2) (Some [3, 4, 9]) 2 = Ret m \<and>
      length m = RPC_HEADER_SIZE + 2 \<and> bytes_header m = rpc_request_header 2 1 5 2 \<and>
      drop RPC_HEADER_SIZE m = take 2 [3, 4, 9] \<and> well_formed_message m"
  by (rule request_layout) simp_all

text \<open>The 32-bit sum of header and payload size is not checked: for a request
  length that fits in a \<open>size_t\<close>, filling the message leaves the allocated block
  or the payload exactly when the sum wraps or the payload is shorter than announced.\<close>

theorem request_overflow_iff:
  assumes "n < SIZE_MODULUS" "0 < n"
  shows "rpc_fill_message g h (Some p) n = Faults \<longleftrightarrow> SIZE_MODULUS - RPC_HEADER_SIZE \<le> n \<or> length p < n"
proof (cases "SIZE_MODULUS \<le> RPC_HEADER_SIZE + n")
  case True
  then show ?thesis using total_len_wrapped[OF assms(1) True] by (simp add: rpc_fill_message_def Let_def)
next
  case False
  then have "rpc_total_len n = RPC_HEADER_SIZE + n" by (simp add: total_len_small)
  then show ?thesis using False assms by (simp add: rpc_fill_message_def Let_def)
qed

theorem request_overflow_iff_witness:
  "rpc_fill_message (\<lambda>_. 0) (rpc_request_header 2 3 1 4294967272) (Some [1]) 4294967272 = Faults \<longleftrightarrow>
     SIZE_MODULUS - RPC_HEADER_SIZE \<le> 4294967272 \<or> length [1 :: byte] < 4294967272"
  by (rule request_overflow_iff) simp_all

section \<open>Incoming messages\<close>

text \<open>A message is taken for an RPC message exactly when it holds a whole header
  with the magic number; otherwise nothing changes.  One whose payload is cut
  short, or whose id no call in flight has (a late or stale response), changes
  no slot, no buffer and no length variable and wakes nobody.\<close>

theorem message_filter:
  "fst (px4_openamp_rpc_handle_message data c) =
     (RPC_HEADER_SIZE \<le> length data \<and> hdr_magic (bytes_header data) = PX4_RPC_MAGIC) \<and>
   (\<not> fst (px4_openamp_rpc_handle_message data c) \<longrightarrow>
      snd (px4_openamp_rpc_handle_message data c) = (c, No_dispatch)) \<and>
   (\<not> well_formed_message data \<or>
    (\<forall>s\<in>set (g_rpc_pending c). in_use s \<longrightarrow> request_id s \<noteq> hdr_request_id (bytes_header data)) \<longrightarrow>
     snd (snd (px4_openamp_rpc_handle_message data c)) = No_dispatch \<and>
     g_rpc_pending (receive data c) = g_rpc_pending c \<and>
     c_mem (receive data c) = c_mem c \<and> c_sizes (receive data c) = c_sizes c)"
proof (intro conjI impI)
  show "fst (px4_openamp_rpc_handle_message data c) =
     (RPC_HEADER_SIZE \<le> length data \<and> hdr_magic (bytes_header data) = PX4_RPC_MAGIC)"
    by (auto simp: px4_openamp_rpc_handle_message_def Let_def split: option.splits)
  show "snd (px4_openamp_rpc_handle_message data c) = (c, No_dispatch)"
    if "\<not> fst (px4_openamp_rpc_handle_message data c)"
    using that by (auto simp: px4_openamp_rpc_handle_message_def Let_def split: if_splits option.splits)
next
  assume *: "\<not> well_formed_message data \<or>
    (\<forall>s\<in>set (g_rpc_pending c). in_use s \<longrightarrow> request_id s \<noteq> hdr_request_id (bytes_header data))"
  then have "well_formed_message data \<Longrightarrow> find_index (answers (bytes_header data)) (g_rpc_pending c) = None"
    by (auto simp: find_index_None_iff)
  then have no: "snd (snd (px4_openamp_rpc_handle_message data c)) = No_dispatch \<and>
      (receive data c = c \<or> receive data c = c\<lparr>g_rpc_channel_ready := True\<rparr> \<or> receive data c = opened c)"
    using handle_miss[of data c]
    by (cases "well_formed_message data")
       (auto simp: px4_openamp_rpc_handle_message_def well_formed_message_def Let_def)
  then show "snd (snd (px4_openamp_rpc_handle_message data c)) = No_dispatch"
    and "g_rpc_pending (receive data c) = g_rpc_pending c"
    and "c_mem (receive data c) = c_mem c" and "c_sizes (receive data c) = c_sizes c"
    by auto
qed

theorem message_filter_witness:
  "\<not> fst (px4_openamp_rpc_handle_message [1, 2, 3] (rpc_boot (\<lambda>_. []) (\<lambda>_. 0)))"
  using message_filter[of "[1, 2, 3]" "rpc_boot (\<lambda>_. []) (\<lambda>_. 0)"] by simp

text \<open>Every response buffer holds the capacity registered for it.\<close>

definition capacities_fit :: "rpc_client \<Rightarrow> bool" where
  "capacities_fit c \<longleftrightarrow> (\<forall>s\<in>set (g_rpc_pending c). in_use s \<longrightarrow>
     (case response_buffer s of Some b \<Rightarrow> response_capacity s \<le> length (c_mem c b) | None \<Rightarrow> True))"

text \<open>A message that answers a call writes only into that call's response buffer,
  at most \<open>response_capacity\<close> bytes at its start, and into that call's length
  variable; so no buffer changes its size when every slot's capacity is at
  most the size of its buffer.\<close>

theorem message_writes:
  assumes "capacities_fit c"
  shows "length (c_mem (receive data c) b) = length (c_mem c b) \<and>
    (c_mem (receive data c) b \<noteq> c_mem c b \<longrightarrow>
      (\<exists>s\<in>set (g_rpc_pending c). in_use s \<and> request_id s = hdr_request_id (bytes_header data) \<and>
         response_buffer s = Some b \<and>
         drop (response_capacity s) (c_mem (receive data c) b) = drop (response_capacity s) (c_mem c b))) \<and>
    (c_sizes (receive data c) l \<noteq> c_sizes c l \<longrightarrow>
      (\<exists>s\<in>set (g_rpc_pending c). in_use s \<and> request_id s = hdr_request_id (bytes_header data) \<and>
         response_length_out s = Some l \<and>
         c_sizes (receive data c) l = unat (hdr_payload_size (bytes_header data))))"
proof (cases rule: handle_cases[of data c])
  case (hit i)
  let ?s = "g_rpc_pending c ! i" and ?h = "bytes_header data" and ?p = "drop RPC_HEADER_SIZE data"
  let ?d = "take (min (unat (hdr_payload_size ?h)) (response_capacity ?s)) ?p"
  from find_index_SomeD[OF hit(1)]
  have s: "?s \<in> set (g_rpc_pending c)" "in_use ?s" "request_id ?s = hdr_request_id ?h" by auto
  have mem: "c_mem (receive data c) b =
      (if response_buffer ?s = Some b then overwrite 0 ?d (c_mem c b) else c_mem c b)"
    and sz: "c_sizes (receive data c) l =
      (if response_length_out ?s = Some l then unat (hdr_payload_size ?h) else c_sizes c l)"
    by (simp_all add: hit(2) deliver_mem deliver_sizes)
  have fit: "response_capacity ?s \<le> length (c_mem c b)" if "response_buffer ?s = Some b"
    using assms s that by (auto simp: capacities_fit_def)
  have d: "length ?d \<le> response_capacity ?s" by simp
  have "drop (response_capacity ?s) (overwrite 0 ?d (c_mem c b)) = drop (response_capacity ?s) (c_mem c b)"
    using d by (simp add: overwrite_def)
  then show ?thesis using s fit d by (auto simp: mem sz)
qed auto

text \<open>An environment whose peer answers each request at once with return value 0,
  error 5 and the payload of the request; it runs the examples below.\<close>

definition echo_reply :: "bytes \<Rightarrow> bytes" where
  "echo_reply m = header_bytes (bytes_header m\<lparr>hdr_errno_value := 5\<rparr>) @ drop RPC_HEADER_SIZE m"

definition echo_os :: "nat rpc_os" where
  "echo_os = \<lparr>os_ept_rdev = (\<lambda>_. True), os_ept_dest = (\<lambda>_. 1024), os_ept_is_ready = (\<lambda>_. True),
     os_vdev = (\<lambda>_. True), os_rproc = (\<lambda>_. True), os_get_notification = (\<lambda>w. ([], w)),
     os_malloc = (\<lambda>n w. (Some (\<lambda>_. 0), w)), os_free = (\<lambda>w. w),
     os_trysend = (\<lambda>m w. (int (length m), [Ev_message (echo_reply m)], w)),
     os_clock = (\<lambda>w. ((0, w div 1000, w mod 1000 * 1000000), w)), os_cond_wait = (\<lambda>i w. ([], w)),
     os_cond_timedwait = (\<lambda>i d w. (ETIMEDOUT, [], w + 1)), os_usleep = (\<lambda>t w. ([], w))\<rparr>"

abbreviation demo_client :: rpc_client where
  "demo_client \<equiv> rpc_boot (\<lambda>_. replicate 4 0) (\<lambda>_. 0)"

abbreviation waiting_client :: rpc_client where
  "waiting_client \<equiv> snd (alloc_pending (Some 3) 2 (Some 0) None 0 demo_client)"

abbreviation reply_message :: bytes where
  "reply_message \<equiv> echo_reply (header_bytes (rpc_request_header 2 1 1 3) @ [7, 8, 9])"

lemma boot_slots: "g_rpc_pending (rpc_boot m z) = blank_slot # replicate 31 blank_slot"
  by (simp add: rpc_boot_def replicate_Suc[symmetric] del: replicate_Suc)

lemma blank_not_in_use [simp]: "\<not> in_use blank_slot"
  by (simp add: blank_slot_def)

lemma alloc_boot:
  "alloc_pending b n l cb u (rpc_boot m z) =
     (Some (0, 1), (rpc_boot m z)\<lparr>g_rpc_initialized := True, g_rpc_next_request_id := 2,
        g_rpc_pending := claim_slot (b, n, l, cb, u, 1) blank_slot # replicate 31 blank_slot\<rparr>)"
  using boot_slots[of m z]
  by (simp add: alloc_pending_def px4_openamp_rpc_init_locked_def fetch_request_id_def INT32_MIN_def
      set_slot_def) (simp add: rpc_boot_def)

lemma waiting_client_eq:
  "g_rpc_pending waiting_client = claim_slot (Some 3, 2, Some 0, None, 0, 1) blank_slot # replicate 31 blank_slot"
  "c_mem waiting_client = (\<lambda>_. replicate 4 0)" "c_sizes waiting_client = (\<lambda>_. 0)"
  by (simp_all add: alloc_boot) (simp_all add: rpc_boot_def)

theorem message_writes_witness:
  "length (c_mem (receive reply_message waiting_client) 3) = 4"
proof -
  have "capacities_fit waiting_client"
    by (simp add: capacities_fit_def waiting_client_eq claim_slot_def)
  from message_writes[OF this, of reply_message 3 0] show ?thesis
    by (simp add: waiting_client_eq)
qed

section \<open>Request ids and slots\<close>



text \<open>The pending count is the number of slots in use and at most 32;
  \<open>alloc_pending\<close> fails exactly when it is 32 and then changes no slot, otherwise it
  takes a free slot and raises the count by one; releasing a slot in use lowers it by one.\<close>

theorem pending_accounting:
  assumes "rpc_wf c"
  shows "px4_openamp_rpc_pending_count c \<le> MAX_PENDING_RPC \<and>
    (fst (alloc_pending b n l cb u c) = None \<longleftrightarrow> px4_openamp_rpc_pending_count c = MAX_PENDING_RPC) \<and>
    (\<forall>i rid. fst (alloc_pending b n l cb u c) = Some (i, rid) \<longrightarrow>
       \<not> in_use (g_rpc_pending c ! i) \<and> i < MAX_PENDING_RPC \<and>
       px4_openamp_rpc_pending_count (snd (alloc_pending b n l cb u c)) = Suc (px4_openamp_rpc_pending_count c)) \<and>
    (\<forall>i<MAX_PENDING_RPC. in_use (g_rpc_pending c ! i) \<longrightarrow>
       Suc (px4_openamp_rpc_pending_count (release_slot_locked i c)) = px4_openamp_rpc_pending_count c)"
proof (intro conjI allI impI)
  have len: "length (g_rpc_pending c) = MAX_PENDING_RPC" using assms by (simp add: rpc_wf_def)
  note count = alloc_pending_count[OF assms, of b n l cb u]
  show "px4_openamp_rpc_pending_count c \<le> MAX_PENDING_RPC"
    using count_if_le[of in_use "g_rpc_pending c"] by (simp add: pending_count_eq len)
  show "fst (alloc_pending b n l cb u c) = None \<longleftrightarrow> px4_openamp_rpc_pending_count c = MAX_PENDING_RPC"
    by (simp add: alloc_pending_None_iff pending.free_slot_None_iff pending_count_eq len)
  fix i rid
  assume a: "fst (alloc_pending b n l cb u c) = Some (i, rid)"
  note c3 = count[unfolded a option.case prod.case]
  show "\<not> in_use (g_rpc_pending c ! i)" using c3 by blast
  show "i < MAX_PENDING_RPC" using c3 by blast
  show "px4_openamp_rpc_pending_count (snd (alloc_pending b n l cb u c)) = Suc (px4_openamp_rpc_pending_count c)"
    using c3 by blast
next
  fix i
  assume "i < MAX_PENDING_RPC" "in_use (g_rpc_pending c ! i)"
  then show "Suc (px4_openamp_rpc_pending_count (release_slot_locked i c)) = px4_openamp_rpc_pending_count c"
    using assms pending.release_count[of i "g_rpc_pending c"] by (simp add: pending_count_eq rpc_wf_def)
qed

theorem pending_accounting_witness:
  "px4_openamp_rpc_pending_count demo_client \<le> 32"
proof -
  have "rpc_wf demo_client" by (simp add: rpc_wf_def rpc_boot_def)
  from pending_accounting[OF this] show ?thesis by blast
qed

section \<open>The synchronous call\<close>

lemma call_sent:
  assumes "px4_openamp_rpc_endpoint_ready os (world st)" "n \<le> 4294967295"
    and "alloc_pending buf cap lo None 0 (cl st) = (Some (i, rid), c)"
    and "os_malloc os (rpc_total_len n) (world st) = (Some g, w)"
    and "rpc_fill_message g (rpc_request_header cat op rid n) payload n = Ret m"
    and "os_trysend os m w = (sr, evs, w1)" "0 \<le> sr"
  shows "px4_openamp_rpc_call_timeout os fuel cat op payload n buf cap lo t st =
    (case rpc_wait os fuel i t (rpc_run_events i evs c) (os_free os w1) of
       Ret (wr, c3, w3) \<Rightarrow> Ret (rpc_finish i lo wr (err st) c3 w3)
     | Faults \<Rightarrow> Faults | Diverges \<Rightarrow> Diverges)"
  using assms by (simp add: px4_openamp_rpc_call_timeout_def count_no_buf_def Let_def)

lemma wait_completed:
  assumes "slot_completed i c" "0 < fuel"
  shows "\<exists>w'. rpc_wait os fuel i t c w = Ret (0, c, w')"
  using assms by (cases fuel) (auto simp: rpc_wait_def split: prod.splits)

lemma call_completed:
  assumes "px4_openamp_rpc_endpoint_ready os (world st)" "n \<le> 4294967295"
    and "alloc_pending buf cap lo None 0 (cl st) = (Some (i, rid), c)"
    and "os_malloc os (rpc_total_len n) (world st) = (Some g, w)"
    and "rpc_fill_message g (rpc_request_header cat op rid n) payload n = Ret m"
    and "os_trysend os m w = (sr, evs, w1)" "0 \<le> sr"
    and "slot_completed i (rpc_run_events i evs c)" "0 < fuel"
  shows "\<exists>w'. px4_openamp_rpc_call_timeout os fuel cat op payload n buf cap lo t st =
    Ret (rpc_finish i lo 0 (err st) (rpc_run_events i evs c) w')"
  using wait_completed[OF assms(8,9), of os t "os_free os w1"]
  by (auto simp: call_sent[OF assms(1-7)])

lemma deliver_to_owner:
  assumes "owns i rid (Some b) cap (Some l) c" "ids_unique c"
    and "well_formed_message d" "hdr_request_id (bytes_header d) = rid"
  shows "g_rpc_pending (receive d c) ! i = complete_slot (bytes_header d) (g_rpc_pending c ! i) \<and>
    c_mem (receive d c) b =
      overwrite 0 (take (min (unat (hdr_payload_size (bytes_header d))) cap) (drop RPC_HEADER_SIZE d)) (c_mem c b) \<and>
    c_sizes (receive d c) l = unat (hdr_payload_size (bytes_header d))"
proof -
  have i: "i < length (g_rpc_pending c)" "answers (bytes_header d) (g_rpc_pending c ! i)"
    using assms(1,4) by (simp_all add: owns_def Let_def)
  have "find_index (answers (bytes_header d)) (g_rpc_pending c) = Some i"
  proof (rule find_indexI[where P = "answers (bytes_header d)", OF i])
    fix j assume "j < i"
    then show "\<not> answers (bytes_header d) (g_rpc_pending c ! j)"
      using assms(2) i unfolding ids_unique_def by (metis less_trans order_less_irrefl)
  qed
  from handle_hit[OF assms(3) this] show ?thesis
    using assms(1) i(1)
    by (simp add: owns_def Let_def deliver_pending deliver_mem deliver_sizes)
qed


lemma echo_reply_simps [simp]:
  "bytes_header (echo_reply (header_bytes h @ p)) = h\<lparr>hdr_errno_value := 5\<rparr>"
  "drop RPC_HEADER_SIZE (echo_reply (header_bytes h @ p)) = p"
  "length (echo_reply (header_bytes h @ p)) = RPC_HEADER_SIZE + length p"
  by (simp_all add: echo_reply_def codec_simps)

lemma echo_ready: "px4_openamp_rpc_endpoint_ready echo_os w"
  by (simp add: px4_openamp_rpc_endpoint_ready_def echo_os_def RPMSG_ADDR_ANY_def)

lemma echo_reply_ok:
  "well_formed_message (echo_reply (header_bytes (rpc_request_header 2 1 1 2) @ [7, 8]))"
  by (simp add: well_formed_message_def) (simp add: rpc_request_header_def)

abbreviation demo_state :: "nat rpc_state" where
  "demo_state \<equiv> \<lparr>cl = demo_client, err = 0, world = 0\<rparr>"


text \<open>C36: Whatever happens during a call (no memory, a failed send, a timeout, an
  error of the wait, a response), when it returns the slot that it takes is
  free again, so that no error path leaks a pending slot.\<close>

theorem call_releases_slot:
  assumes call: "px4_openamp_rpc_call_timeout os fuel cat op payload n buf cap lo t st = Ret (rc, outs, st')"
    and i: "fst (alloc_pending buf cap lo None 0 (cl st)) = Some (i, rid)"
  shows "i < length (g_rpc_pending (cl st')) \<and> \<not> in_use (g_rpc_pending (cl st') ! i)"
proof -
  from i obtain c where a: "alloc_pending buf cap lo None 0 (cl st) = (Some (i, rid), c)"
    by (metis prod.collapse)
  note free = pending.free_slotD[OF alloc_pending_Some(1)[OF a]]
  show ?thesis
  proof (cases "px4_openamp_rpc_endpoint_ready os (world st) \<and> n \<le> 4294967295")
    case True
    have es: "event_stable i (\<lambda>_. True) (\<lambda>c. length (g_rpc_pending c) = length (g_rpc_pending (cl st)))"
      by (simp add: event_stable_def)
    have lc: "length (g_rpc_pending c) = length (g_rpc_pending (cl st))"
      using alloc_pending_Some(2)[OF a] by simp
    from call_inv[OF call es os_emits_True a lc True[THEN conjunct1] True[THEN conjunct2]]
    obtain c' :: rpc_client where "length (g_rpc_pending c') = length (g_rpc_pending (cl st))"
      "g_rpc_pending (cl st') = (g_rpc_pending c')[i := release_slot (g_rpc_pending c' ! i)]"
      by blast
    then show ?thesis using free by (simp add: slot_simps)
  next
    case False
    with call have "cl st' = cl st"
      by (auto simp: px4_openamp_rpc_call_timeout_def split: if_splits)
    then show ?thesis using free by simp
  qed
qed

lemma echo_call:
  "\<exists>st'. px4_openamp_rpc_call_timeout echo_os 1 2 1 (Some [7, 8]) 2 (Some 3) 4 (Some 0) 2000 demo_state =
      Ret (0, Some (0, 5), st')"
proof -
  define c where "c = snd (alloc_pending (Some 3) 4 (Some 0) None 0 demo_client)"
  let ?m = "header_bytes (rpc_request_header 2 1 1 2) @ take 2 [7, 8]"
  have a: "alloc_pending (Some 3) 4 (Some 0) None 0 (cl demo_state) = (Some (0, 1), c)"
    by (simp add: c_def alloc_boot)
  have o: "owns 0 1 (Some 3) 4 (Some 0) c" using alloc_owns[OF a] by simp
  have u: "ids_unique c"
    using run_ids_ok[of demo_client 10000 "[Ev_alloc (Some 3) 4 (Some 0) None 0]" 0] boot_ids_ok
    by (simp add: c_def) (simp add: rpc_boot_def)
  have id: "hdr_request_id (bytes_header (echo_reply ?m)) = 1"
    unfolding echo_reply_simps by (simp add: rpc_request_header_def)
  have "take 2 [7, 8 :: byte] = [7, 8]" by simp
  note del = deliver_to_owner[OF o u _ id, unfolded this, OF echo_reply_ok]
  have m: "os_malloc echo_os (rpc_total_len 2) (world demo_state) = (Some (\<lambda>_. 0), 0)"
    and t: "os_trysend echo_os ?m 0 = (26, [Ev_message (echo_reply ?m)], 0)"
    by (simp_all add: echo_os_def codec_simps)
  have f: "rpc_fill_message (\<lambda>_. 0) (rpc_request_header 2 1 1 2) (Some [7, 8]) 2 = Ret ?m"
    by (rule fill_message_Ret) simp_all
  have fin: "slot_completed 0 (rpc_run_events 0 [Ev_message (echo_reply ?m)] c)"
    using del by simp
  show ?thesis
    using call_completed[OF echo_ready _ a m f t _ fin, of 1 2000] del
    by (auto simp: rpc_finish_def Let_def) (simp_all add: rpc_request_header_def)
qed

theorem call_releases_slot_witness:
  "\<exists>rc outs st'. px4_openamp_rpc_call_timeout echo_os 1 2 1 (Some [7, 8]) 2 (Some 3) 4 (Some 0) 2000 demo_state =
      Ret (rc, outs, st') \<and> \<not> in_use (g_rpc_pending (cl st') ! 0)"
proof -
  obtain st' where c: "px4_openamp_rpc_call_timeout echo_os 1 2 1 (Some [7, 8]) 2 (Some 3) 4 (Some 0) 2000
      demo_state = Ret (0, Some (0, 5), st')"
    using echo_call by blast
  have "fst (alloc_pending (Some 3) 4 (Some 0) None 0 (cl demo_state)) = Some (0, 1)"
    by (simp add: alloc_boot)
  from call_releases_slot[OF c this] c show ?thesis by blast
qed

text \<open>While a call waits, its slot stays its own: neither other threads nor
  incoming messages release it, give it to another call or redirect its
  response, whatever the order of events.\<close>

theorem slot_stays_owned:
  assumes "alloc_pending buf cap lo None u c = (Some (i, rid), c')"
  shows "owns i rid buf cap lo (rpc_run_events i evs c')"
  using alloc_owns[OF assms] run_events_owns by blast

theorem slot_stays_owned_witness:
  "owns 0 1 (Some 3) 2 (Some 0)
     (rpc_run_events 0 [Ev_message reply_message, Ev_release 0, Ev_alloc None 0 None None 0] waiting_client)"
proof -
  have "alloc_pending (Some 3) 2 (Some 0) None 0 demo_client = (Some (0, 1), waiting_client)"
    by (simp add: alloc_boot)
  from slot_stays_owned[OF this] show ?thesis .
qed


text \<open>Buffers and length variables that no slot in flight refers to.\<close>

definition foreign :: "nat \<Rightarrow> nat \<Rightarrow> rpc_event \<Rightarrow> bool" where
  "foreign b l ev = (case ev of Ev_alloc b' n l' cb u \<Rightarrow> b' \<noteq> Some b \<and> l' \<noteq> Some l | _ \<Rightarrow> True)"

definition refers :: "nat \<Rightarrow> nat \<Rightarrow> rpc_pending \<Rightarrow> bool" where
  "refers b l s \<longleftrightarrow> in_use s \<and> (response_buffer s = Some b \<or> response_length_out s = Some l)"

definition refers_only :: "nat set \<Rightarrow> nat \<Rightarrow> nat \<Rightarrow> rpc_client \<Rightarrow> bool" where
  "refers_only I b l c \<longleftrightarrow> (\<forall>j<length (g_rpc_pending c). refers b l (g_rpc_pending c ! j) \<longrightarrow> j \<in> I)"

lemma alloc_slot_cases:
  assumes "j < length (g_rpc_pending c)"
  shows "g_rpc_pending (snd (alloc_pending b n l cb u c)) ! j = g_rpc_pending c ! j \<or>
    (\<exists>rid. g_rpc_pending (snd (alloc_pending b n l cb u c)) ! j =
       claim_slot (b, n, l, cb, u, rid) (g_rpc_pending c ! j))"
proof (cases "alloc_pending b n l cb u c")
  case (Pair r c')
  show ?thesis
  proof (cases r)
    case None
    then show ?thesis using Pair alloc_pending_None[of b n l cb u c c'] by simp
  next
    case (Some p)
    obtain i rid where p: "p = (i, rid)" by (cases p)
    from alloc_pending_Some(2)[OF Pair[unfolded Some p]] assms show ?thesis
      by (cases "i = j") (auto simp: Pair)
  qed
qed

lemma event_refers_only:
  assumes "foreign b l ev" "refers_only I b l c"
  shows "refers_only I b l (rpc_event_step me ev c)"
proof (cases ev)
  case (Ev_message d)
  have "refers b l (g_rpc_pending (receive d c) ! j) \<longrightarrow> refers b l (g_rpc_pending c ! j)"
    if "j < length (g_rpc_pending c)" for j
    using handle_slot_cases[OF that, of d] by (auto simp: Let_def refers_def slot_simps split: if_splits)
  then show ?thesis using assms(2) by (auto simp: Ev_message refers_only_def)
next
  case (Ev_alloc b' n l' cb u)
  have "refers b l (g_rpc_pending (rpc_event_step me ev c) ! j) \<longrightarrow> refers b l (g_rpc_pending c ! j)"
    if "j < length (g_rpc_pending c)" for j
    using alloc_slot_cases[OF that, of b' n l' cb u] assms(1)
    by (auto simp: Ev_alloc foreign_def refers_def claim_slot_def)
  then show ?thesis using assms(2) by (auto simp: Ev_alloc refers_only_def)
next
  case (Ev_release i)
  then show ?thesis using assms(2)
    by (auto simp: refers_only_def refers_def nth_update_if in_use_release_slot split: if_splits)
next
  case Ev_session
  then show ?thesis using assms(2) by (simp add: refers_only_def)
qed

lemma unreferred_event:
  assumes "refers_only {} b l c"
  shows "c_mem (rpc_event_step me ev c) b = c_mem c b \<and> c_sizes (rpc_event_step me ev c) l = c_sizes c l"
proof (cases ev)
  case (Ev_message d)
  show ?thesis
  proof (cases rule: handle_cases[of d c])
    case (hit i)
    from find_index_SomeD[OF hit(1)] have "i < length (g_rpc_pending c)" "in_use (g_rpc_pending c ! i)"
      by simp_all
    then show ?thesis using assms
      by (auto simp: Ev_message hit(2) deliver_mem deliver_sizes refers_only_def refers_def)
  qed (auto simp: Ev_message)
next
  case (Ev_alloc b' n l' cb u)
  show ?thesis
  proof (cases "alloc_pending b' n l' cb u c")
    case (Pair r c')
    then show ?thesis
      using alloc_pending_None[of b' n l' cb u c c'] alloc_pending_Some(4,5)[of b' n l' cb u c _ _ c']
      by (cases r) (auto simp: Ev_alloc)
  qed
qed simp_all

lemma unreferred_run:
  assumes "refers_only {} b l c" "list_all (foreign b l) evs"
  shows "c_mem (rpc_run_events me evs c) b = c_mem c b \<and> c_sizes (rpc_run_events me evs c) l = c_sizes c l"
  using assms
proof (induction evs arbitrary: c)
  case (Cons e evs)
  then have "refers_only {} b l (rpc_event_step me e c)" by (simp add: event_refers_only)
  from Cons.IH[OF this] unreferred_event[OF Cons.prems(1), of me e] Cons.prems(2) show ?case by simp
qed simp

text \<open>Once a call has returned, nothing that arrives later (responses to it that
  are late or duplicated, other calls and their responses) writes into the
  buffer or the length variable that it was given, as long as no other call is
  given the same ones.\<close>

theorem no_late_write:
  assumes call: "px4_openamp_rpc_call_timeout os fuel cat op payload n (Some b) cap (Some l) t st = Ret (rc, outs, st')"
    and before: "refers_only {} b l (cl st)"
    and env: "os_emits os (foreign b l)" and later: "list_all (foreign b l) evs"
  shows "c_mem (rpc_run_events me evs (cl st')) b = c_mem (cl st') b \<and>
    c_sizes (rpc_run_events me evs (cl st')) l = c_sizes (cl st') l"
proof (rule unreferred_run[OF _ later])
  show "refers_only {} b l (cl st')"
  proof (cases "px4_openamp_rpc_endpoint_ready os (world st) \<and> n \<le> 4294967295")
    case False
    with call have "cl st' = cl st" by (auto simp: px4_openamp_rpc_call_timeout_def split: if_splits)
    then show ?thesis using before by simp
  next
    case True
    show ?thesis
    proof (cases "alloc_pending (Some b) cap (Some l) None 0 (cl st)")
      case (Pair r c)
      show ?thesis
      proof (cases r)
        case None
        with Pair call True have "cl st' = c" by (auto simp: px4_openamp_rpc_call_timeout_def)
        moreover have "g_rpc_pending c = g_rpc_pending (cl st)"
          using alloc_pending_None[of "Some b" cap "Some l" None 0 "cl st" c] Pair None by simp
        ultimately show ?thesis using before by (simp add: refers_only_def)
      next
        case (Some p)
        obtain i rid where p: "p = (i, rid)" by (cases p)
        note a = Pair[unfolded Some p]
        have ro: "refers_only {i} b l c"
          using before alloc_pending_Some(2)[OF a] by (auto simp: refers_only_def nth_update_if)
        have es: "event_stable i (foreign b l) (refers_only {i} b l)"
          by (simp add: event_stable_def event_refers_only)
        from call_inv[OF call es env a ro True[THEN conjunct1] True[THEN conjunct2]]
        obtain c' :: rpc_client where "refers_only {i} b l c'"
          "g_rpc_pending (cl st') = (g_rpc_pending c')[i := release_slot (g_rpc_pending c' ! i)]" by blast
        then show ?thesis
          by (auto simp: refers_only_def refers_def nth_update_if in_use_release_slot split: if_splits)
      qed
    qed
  qed
qed

theorem no_late_write_witness:
  "\<exists>st'. px4_openamp_rpc_call_timeout echo_os 1 2 1 (Some [7, 8]) 2 (Some 3) 4 (Some 0) 2000 demo_state =
      Ret (0, Some (0, 5), st') \<and>
    c_mem (rpc_run_events 40 [Ev_message reply_message, Ev_release 0] (cl st')) 3 = c_mem (cl st') 3"
proof -
  obtain st' where c: "px4_openamp_rpc_call_timeout echo_os 1 2 1 (Some [7, 8]) 2 (Some 3) 4 (Some 0) 2000
      demo_state = Ret (0, Some (0, 5), st')"
    using echo_call by blast
  have "refers_only {} 3 0 (cl demo_state)"
    by (simp add: refers_only_def refers_def rpc_boot_def)
  moreover have "os_emits echo_os (foreign 3 0)"
    by (simp add: os_emits_def echo_os_def foreign_def)
  moreover have "list_all (foreign 3 0) [Ev_message reply_message, Ev_release 0]"
    by (simp add: foreign_def)
  ultimately show ?thesis using no_late_write[OF c] c by blast
qed

end
