(* ===== verification/Rpc_Client_Liveness.thy ===== *)
theory Rpc_Client_Liveness
  imports Rpc_Client_Props
begin

text \<open>
  The RPC client over time: a call with a timeout returns when the clock makes
  progress, its error values, and the asynchronous calls with their callbacks.
\<close>

section \<open>Termination of the timed call\<close>

text \<open>
  \<open>now\<close> is the monotonic clock in milliseconds.  A read of the clock shows it and no
  step sets it back.  A timed wait of one millisecond either lets the clock advance,
  or is one of the \<open>wk\<close> wake-ups still outstanding (a signal that was
  consumed late), or fails with an error.
\<close>

definition clock_progress :: "'w rpc_os \<Rightarrow> ('w \<Rightarrow> nat) \<Rightarrow> ('w \<Rightarrow> nat) \<Rightarrow> bool" where
  "clock_progress os now wk \<longleftrightarrow>
     (\<forall>w e s ns w'. os_clock os w = ((e, s, ns), w') \<longrightarrow>
        timespec_ms s ns = now w' \<and> now w \<le> now w' \<and> wk w' \<le> wk w) \<and>
     (\<forall>w evs w'. os_get_notification os w = (evs, w') \<longrightarrow> now w \<le> now w' \<and> wk w' \<le> wk w) \<and>
     (\<forall>i d w r evs w'. os_cond_timedwait os i d w = (r, evs, w') \<longrightarrow>
        now w < now w' \<and> wk w' \<le> wk w \<or>
        r = 0 \<and> now w \<le> now w' \<and> wk w' < wk w \<or>
        r \<noteq> 0 \<and> r \<noteq> ETIMEDOUT)"

lemma poll_progress:
  assumes "clock_progress os now wk" "poll_remoteproc_notifications os i c w = (c', w')"
  shows "now w \<le> now w' \<and> wk w' \<le> wk w"
  using assms unfolding clock_progress_def poll_remoteproc_notifications_def
  by (auto split: if_splits prod.splits)

lemma wait_timed_terminates:
  assumes prog: "clock_progress os now wk"
  shows "(s + t - now w) + wk w < fuel \<Longrightarrow> rpc_wait_timed os i t s fuel c w \<noteq> Diverges"
proof (induction fuel arbitrary: c w)
  case (Suc fuel)
  obtain e sec ns w1 where k: "os_clock os w = ((e, sec, ns), w1)" by (metis prod_cases3 surj_pair)
  obtain c2 w2 where p: "poll_remoteproc_notifications os i c w1 = (c2, w2)" by fastforce
  obtain e' sec' ns' w3 where k': "os_clock os w2 = ((e', sec', ns'), w3)" by (metis prod_cases3 surj_pair)
  obtain cr evs w4 where q: "os_cond_timedwait os i (slice_deadline sec' ns') w3 = (cr, evs, w4)"
    by (metis prod_cases3)
  have m1: "timespec_ms sec ns = now w1" "now w \<le> now w1" "wk w1 \<le> wk w"
    and m3: "now w2 \<le> now w3" "wk w3 \<le> wk w2"
    using prog k k' unfolding clock_progress_def by blast+
  have m2: "now w1 \<le> now w2" "wk w2 \<le> wk w1" using poll_progress[OF prog p] by simp_all
  have m4: "now w3 < now w4 \<and> wk w4 \<le> wk w3 \<or> cr = 0 \<and> now w3 \<le> now w4 \<and> wk w4 < wk w3 \<or>
      cr \<noteq> 0 \<and> cr \<noteq> ETIMEDOUT"
    using prog q unfolding clock_progress_def by blast
  have step: "(s + t - now w4) + wk w4 < fuel"
    if "\<not> (t \<le> (if now w1 > s then now w1 - s else 0))" "\<not> (cr \<noteq> 0 \<and> cr \<noteq> ETIMEDOUT)"
  proof -
    have "now w1 < s + t" using that(1) by (auto split: if_splits)
    then show ?thesis using m1 m2 m3 m4 that(2) Suc.prems by auto
  qed
  show ?case
    using Suc.IH[OF step] by (auto simp: k p k' q Let_def m1(1) split: if_splits)
qed simp

text \<open>C25: A call with a timeout of \<open>t\<close> milliseconds always returns: with a clock that
  makes progress and at most \<open>B\<close> stale wake-ups, \<open>t + B + 1\<close> rounds of the wait
  loop are enough, whatever messages and other calls arrive meanwhile.\<close>

theorem timed_call_returns:
  assumes "clock_progress os now wk" "\<And>w. wk w \<le> B" "t \<noteq> PX4_OPENAMP_RPC_TIMEOUT_FOREVER"
    and fuel: "t + B < fuel" and len: "n \<le> length p" "RPC_HEADER_SIZE + n < SIZE_MODULUS"
  shows "\<exists>r. px4_openamp_rpc_call_timeout os fuel cat op (Some p) n buf cap lo t st = Ret r"
proof -
  have w: "rpc_wait os fuel i t c w \<noteq> Diverges" for i c w
  proof -
    obtain e sec ns w1 where k: "os_clock os w = ((e, sec, ns), w1)" by (metis prod_cases3 surj_pair)
    have "timespec_ms sec ns = now w1" using assms(1) k unfolding clock_progress_def by blast
    then have "(timespec_ms sec ns + t - now w1) + wk w1 < fuel" using fuel assms(2)[of w1] by simp
    from wait_timed_terminates[OF assms(1) this, of i c] assms(3)
    show ?thesis by (auto simp: rpc_wait_def k)
  qed
  have f: "rpc_fill_message g h (Some p) n \<noteq> Faults" "rpc_fill_message g h (Some p) n \<noteq> Diverges" for g h
    using fill_message_Ret[OF len, of g h] by simp_all
  let ?call = "px4_openamp_rpc_call_timeout os fuel cat op (Some p) n buf cap lo t st"
  have "?call \<noteq> Faults" "?call \<noteq> Diverges"
    unfolding px4_openamp_rpc_call_timeout_def
    using w f wait_never_faults[of os fuel _ t]
    by (auto simp: Let_def split: option.splits prod.splits exec.splits)
  then show ?thesis by (cases ?call) auto
qed

text \<open>A peer that never answers; the clock advances by the timed waits.\<close>

definition silent_os :: "nat rpc_os" where
  "silent_os = echo_os\<lparr>os_trysend := (\<lambda>m w. (int (length m), [], w)),
     os_cond_timedwait := (\<lambda>i d w. if w < 1000000000 then (ETIMEDOUT, [], w + 1) else (EINVAL, [], w)),
     os_clock := (\<lambda>w. ((0, min w 1000000000 div 1000, min w 1000000000 mod 1000 * 1000000), w))\<rparr>"


lemma silent_progress: "clock_progress silent_os (\<lambda>w. min w 1000000000) (\<lambda>_. 0)"
proof -
  have "timespec_ms (m div 1000) (m mod 1000 * 1000000) = m" if "m \<le> 1000000000" for m
    using that by (simp add: timespec_ms_def)
  then show ?thesis
    by (simp add: clock_progress_def silent_os_def echo_os_def)
qed

theorem timed_call_returns_witness:
  "\<exists>r. px4_openamp_rpc_call_timeout silent_os 5001 2 13 (Some []) 0 None 0 None 5000 demo_state = Ret r"
  by (rule timed_call_returns[OF silent_progress, where B = 0]) simp_all

text \<open>Every return is either success, with the two values of the response and
  \<open>errno\<close> untouched, or -1 with no values written; the cause of a failure is in
  \<open>errno\<close>: not connected, table full, no memory, transmit ring full, other send
  error; and \<open>ETIMEDOUT\<close> exactly for the expiry of the timeout.\<close>

theorem call_results:
  "(\<forall>rc outs st'. px4_openamp_rpc_call_timeout os fuel cat op payload n buf cap lo t st = Ret (rc, outs, st') \<longrightarrow>
      rc = 0 \<and> outs \<noteq> None \<and> err st' = err st \<or> rc = - 1 \<and> outs = None) \<and>
   (\<not> px4_openamp_rpc_endpoint_ready os (world st) \<longrightarrow>
      px4_openamp_rpc_call_timeout os fuel cat op payload n buf cap lo t st = Ret (- 1, None, st\<lparr>err := ENOTCONN\<rparr>)) \<and>
   (px4_openamp_rpc_endpoint_ready os (world st) \<and> n \<le> 4294967295 \<longrightarrow>
     (case alloc_pending buf cap lo None 0 (cl st) of
        (None, c) \<Rightarrow> px4_openamp_rpc_call_timeout os fuel cat op payload n buf cap lo t st =
          Ret (- 1, None, st\<lparr>cl := c, err := EBUSY\<rparr>)
      | (Some (i, rid), c) \<Rightarrow>
         (case os_malloc os (rpc_total_len n) (world st) of
            (None, w) \<Rightarrow> px4_openamp_rpc_call_timeout os fuel cat op payload n buf cap lo t st =
              Ret (- 1, None, \<lparr>cl = release_slot_locked i c, err = ENOMEM, world = w\<rparr>)
          | (Some g, w) \<Rightarrow>
             (\<forall>m sr evs w1. rpc_fill_message g (rpc_request_header cat op rid n) payload n = Ret m \<and>
                os_trysend os m w = (sr, evs, w1) \<and> sr < 0 \<longrightarrow>
                (\<exists>c'. px4_openamp_rpc_call_timeout os fuel cat op payload n buf cap lo t st =
                  Ret (- 1, None, \<lparr>cl = c', err = (if sr = RPMSG_ERR_NO_BUFF then EAGAIN else EIO),
                                  world = os_free os w1\<rparr>) \<and>
                  g_rpc_no_buf_count c' =
                    g_rpc_no_buf_count (rpc_run_events i evs c) + (if sr = RPMSG_ERR_NO_BUFF then 1 else 0))))))"
proof (intro conjI allI impI)
  fix rc outs st'
  assume "px4_openamp_rpc_call_timeout os fuel cat op payload n buf cap lo t st = Ret (rc, outs, st')"
  from call_error_cases[OF this]
  show "rc = 0 \<and> outs \<noteq> None \<and> err st' = err st \<or> rc = - 1 \<and> outs = None" .
qed (auto simp: px4_openamp_rpc_call_timeout_def Let_def count_no_buf_def release_slot_locked_def set_slot_def
      split: option.splits prod.splits)

theorem call_results_witness:
  "px4_openamp_rpc_call_timeout (echo_os\<lparr>os_ept_rdev := (\<lambda>_. False)\<rparr>) 1 2 1 None 0 None 0 None 5 demo_state =
     Ret (- 1, None, demo_state\<lparr>err := ENOTCONN\<rparr>)"
  using call_results[of "echo_os\<lparr>os_ept_rdev := (\<lambda>_. False)\<rparr>" 1 2 1 None 0 None 0 None 5 demo_state]
  by (simp add: px4_openamp_rpc_endpoint_ready_def)

section \<open>Asynchronous calls\<close>

text \<open>The response to an asynchronous call runs its callback exactly once, with
  the values of the response and the caller's user data; the slot is free
  before the callback runs, and the same message received again is discarded.
  The length it is told is the full payload size, also when the buffer is smaller.\<close>

theorem async_callback_once:
  assumes i: "i < length (g_rpc_pending c)" "in_use (g_rpc_pending c ! i)" "callback (g_rpc_pending c ! i) = Some f"
    and u: "ids_unique c" and d: "well_formed_message d" "hdr_request_id (bytes_header d) = request_id (g_rpc_pending c ! i)"
  shows "snd (snd (px4_openamp_rpc_handle_message d c)) =
      Run_callback f (request_id (g_rpc_pending c ! i)) (hdr_return_value (bytes_header d))
        (hdr_errno_value (bytes_header d)) (response_buffer (g_rpc_pending c ! i))
        (unat (hdr_payload_size (bytes_header d))) (user_data (g_rpc_pending c ! i)) \<and>
    g_rpc_pending (receive d c) = (g_rpc_pending c)[i := release_slot (g_rpc_pending c ! i)] \<and>
    snd (snd (px4_openamp_rpc_handle_message d (receive d c))) = No_dispatch \<and>
    g_rpc_pending (receive d (receive d c)) = g_rpc_pending (receive d c)"
proof -
  let ?a = "answers (bytes_header d)"
  have ai: "?a (g_rpc_pending c ! i)" using i d by simp
  have only: "?a (g_rpc_pending c ! j) \<longleftrightarrow> j = i" if "j < length (g_rpc_pending c)" for j
    using that i u d(2) unfolding ids_unique_def by metis
  have "find_index ?a (g_rpc_pending c) = Some i"
    by (rule find_indexI[where P = ?a, OF i(1) ai]) (use only i(1) in \<open>metis less_trans order_less_irrefl\<close>)
  note hit = handle_hit[OF d(1) this]
  have rel: "release_slot (complete_slot h s) = release_slot s" for h s
    by (simp add: release_slot_def complete_slot_def)
  have p: "g_rpc_pending (receive d c) = (g_rpc_pending c)[i := release_slot (g_rpc_pending c ! i)]"
    using i by (simp add: hit deliver_pending rel)
  have "find_index ?a (g_rpc_pending (receive d c)) = None"
    unfolding find_index_None_iff p all_set_conv_all_nth
    using only by (auto simp: nth_update_if in_use_release_slot)
  from handle_miss[OF d(1) this] p hit i(3) show ?thesis
    by (simp add: deliver_response_def Let_def)
qed

lemma async_client_ok:
  "ids_unique (snd (alloc_pending (Some 3) 2 None (Some (User_callback 9)) 77 demo_client))"
  using run_ids_ok[of demo_client 10000 "[Ev_alloc (Some 3) 2 None (Some (User_callback 9)) 77]" 0] boot_ids_ok
  by simp (simp add: rpc_boot_def)

theorem async_callback_once_witness:
  "snd (snd (px4_openamp_rpc_handle_message reply_message
     (snd (alloc_pending (Some 3) 2 None (Some (User_callback 9)) 77 demo_client)))) =
   Run_callback (User_callback 9) 1 0 5 (Some 3) 3 77"
proof -
  let ?c = "snd (alloc_pending (Some 3) 2 None (Some (User_callback 9)) 77 demo_client)"
  have c: "g_rpc_pending ?c ! 0 = claim_slot (Some 3, 2, None, Some (User_callback 9), 77, 1) blank_slot"
    "0 < length (g_rpc_pending ?c)"
    by (simp_all add: alloc_boot)
  have wf: "well_formed_message reply_message"
    by (simp add: well_formed_message_def) (simp add: rpc_request_header_def)
  have h: "hdr_request_id (bytes_header reply_message) = 1" "unat (hdr_payload_size (bytes_header reply_message)) = 3"
    "hdr_return_value (bytes_header reply_message) = 0" "hdr_errno_value (bytes_header reply_message) = 5"
    by (simp_all) (simp_all add: rpc_request_header_def)
  have "in_use (g_rpc_pending ?c ! 0)" "callback (g_rpc_pending ?c ! 0) = Some (User_callback 9)"
    "hdr_request_id (bytes_header reply_message) = request_id (g_rpc_pending ?c ! 0)"
    unfolding c h by (simp_all add: claim_slot_def)
  from async_callback_once[OF c(2) this(1,2) async_client_ok wf this(3)] show ?thesis
    unfolding c h by (simp add: claim_slot_def)
qed

text \<open>An asynchronous call sends once, and once more after 2 ms exactly when the
  transmit ring was full; it reports failure exactly when the last send failed,
  and then its slot is free again and no callback can run for it.\<close>

theorem async_send:
  assumes "px4_openamp_rpc_endpoint_ready os (world st)" "n \<le> length p" "RPC_HEADER_SIZE + n < SIZE_MODULUS"
    and a: "alloc_pending buf cap None (Some f) ud (cl st) = (Some (i, rid), c)"
    and m: "os_malloc os (rpc_total_len n) (world st) = (Some g, w)"
    and t: "os_trysend os (header_bytes (rpc_request_header cat op rid n) @ take n p) w = (sr, evs, w1)"
    and s: "os_usleep os 2000 w1 = (evs2, w2)"
    and t2: "os_trysend os (header_bytes (rpc_request_header cat op rid n) @ take n p) w2 = (sr2, evs3, w3)"
  shows "\<exists>st'. px4_openamp_rpc_call_async os cat op (Some p) n buf cap (Some f) ud st =
      (if (if sr = RPMSG_ERR_NO_BUFF then sr2 else sr) < 0 then Ret (- 1, None, st') else Ret (0, Some rid, st')) \<and>
    world st' = os_free os (if sr = RPMSG_ERR_NO_BUFF then w3 else w1) \<and>
    ((if sr = RPMSG_ERR_NO_BUFF then sr2 else sr) < 0 \<longrightarrow> err st' = EIO \<and> \<not> in_use (g_rpc_pending (cl st') ! i)) \<and>
    (\<not> (if sr = RPMSG_ERR_NO_BUFF then sr2 else sr) < 0 \<longrightarrow>
      cl st' = rpc_run_events i (evs @ (if sr = RPMSG_ERR_NO_BUFF then evs2 @ evs3 else [])) c)"
proof -
  have i: "i < length (g_rpc_pending c)"
    using find_index_less[OF alloc_pending_Some(1)[OF a]] alloc_pending_Some(2)[OF a] by simp
  let ?sr = "if sr = RPMSG_ERR_NO_BUFF then sr2 else sr"
  let ?w = "if sr = RPMSG_ERR_NO_BUFF then w3 else w1"
  let ?c = "rpc_run_events i (evs @ (if sr = RPMSG_ERR_NO_BUFF then evs2 @ evs3 else [])) c"
  have send: "rpc_send_async os i (header_bytes (rpc_request_header cat op rid n) @ take n p) c w = (?sr, ?c, ?w)"
    by (simp add: rpc_send_async_def t s t2 rpc_run_events_def Let_def)
  have "n \<le> 4294967295" using assms(3) by simp
  then have "px4_openamp_rpc_call_async os cat op (Some p) n buf cap (Some f) ud st =
      (if ?sr < 0 then Ret (- 1, None, \<lparr>cl = release_slot_locked i ?c, err = EIO, world = os_free os ?w\<rparr>)
       else Ret (0, Some rid, \<lparr>cl = ?c, err = err st, world = os_free os ?w\<rparr>))"
    using assms(1) by (simp add: px4_openamp_rpc_call_async_def a m fill_message_Ret[OF assms(2,3)] send)
  then show ?thesis using i by (cases "?sr < 0") (simp_all add: in_use_release_slot)
qed

theorem async_send_witness:
  "\<exists>st'. px4_openamp_rpc_call_async echo_os 2 3 (Some [9]) 1 None 0 (Some Noop_callback) 0 demo_state =
     Ret (0, Some 1, st')"
proof -
  obtain c where a: "alloc_pending None 0 None (Some Noop_callback) 0 (cl demo_state) = (Some (0, 1), c)"
    by (simp add: alloc_boot)
  have m: "os_malloc echo_os (rpc_total_len 1) (world demo_state) = (Some (\<lambda>_. 0), 0)"
    and s: "os_usleep echo_os 2000 0 = ([], 0)" by (simp_all add: echo_os_def)
  let ?m = "header_bytes (rpc_request_header 2 3 1 1) @ take 1 [9]"
  have t: "os_trysend echo_os ?m 0 = (25, [Ev_message (echo_reply ?m)], 0)"
    by (simp add: echo_os_def codec_simps)
  have n: "1 \<le> length [9 :: byte]" "RPC_HEADER_SIZE + 1 < SIZE_MODULUS" by simp_all
  from async_send[OF echo_ready n a m t s t] show ?thesis by (elim exE conjE) simp
qed

section \<open>Sessions\<close>

text \<open>The id counter of a new session depends only on this side's own counter:
  two boots that open their session in the same way use the same ids from
  10000 on, so a response left over from the previous boot that carries one of
  them is taken for the answer to a call of the new session.\<close>

theorem session_ids_repeat:
  "g_rpc_next_request_id (jump_request_ids (rpc_boot m z)) = 10000 \<and>
   (\<exists>c. alloc_pending (Some b) cap (Some l) None 0 (jump_request_ids (rpc_boot m z)) = (Some (0, 10000), c) \<and>
     (\<forall>stale. well_formed_message stale \<and> hdr_request_id (bytes_header stale) = 10000 \<longrightarrow>
        snd (snd (px4_openamp_rpc_handle_message stale c)) = Signal_slot 0 \<and>
        slot_completed 0 (receive stale c) \<and>
        c_sizes (receive stale c) l = unat (hdr_payload_size (bytes_header stale))))"
proof (intro conjI exI allI impI)
  let ?j = "jump_request_ids (rpc_boot m z)"
  let ?c = "snd (alloc_pending (Some b) cap (Some l) None 0 ?j)"
  have nx: "g_rpc_next_request_id ?j = 10000"
    by (simp add: jump_request_ids_def rpc_boot_def)
  then show "g_rpc_next_request_id (jump_request_ids (rpc_boot m z)) = 10000" .
  have slots: "g_rpc_pending ?j = blank_slot # replicate 31 blank_slot" by (simp add: boot_slots)
  show a: "alloc_pending (Some b) cap (Some l) None 0 ?j = (Some (0, 10000), ?c)"
    using slots nx
    by (simp add: alloc_pending_def px4_openamp_rpc_init_locked_def fetch_request_id_def INT32_MIN_def
        set_slot_def)
  fix stale
  assume s: "well_formed_message stale \<and> hdr_request_id (bytes_header stale) = 10000"
  have own: "owns 0 10000 (Some b) cap (Some l) ?c" using alloc_owns[OF a] by simp
  have ids: "ids_unique ?c"
    using run_ids_ok[of "rpc_boot m z" 10000 "[Ev_session, Ev_alloc (Some b) cap (Some l) None 0]" 0] boot_ids_ok
    by simp (simp add: rpc_boot_def)
  from deliver_to_owner[OF own ids] s
  show "slot_completed 0 (receive stale ?c)"
    and "c_sizes (receive stale ?c) l = unat (hdr_payload_size (bytes_header stale))" by simp_all
  have "find_index (answers (bytes_header stale)) (g_rpc_pending ?c) = Some 0"
    using own s by (cases "g_rpc_pending ?c") (simp_all add: owns_def Let_def)
  from handle_hit[OF _ this] s own show "snd (snd (px4_openamp_rpc_handle_message stale ?c)) = Signal_slot 0"
    by (simp add: deliver_response_def owns_def Let_def)
qed

theorem session_ids_repeat_witness:
  "g_rpc_next_request_id (jump_request_ids demo_client) = 10000"
  using session_ids_repeat[of "\<lambda>_. replicate 4 0" "\<lambda>_. 0" 3 4 0] by blast

end
