(* ===== verification/Logger_Fds.thy ===== *)
theory Logger_Fds
  imports Slot_Pool
begin

text \<open>
  The table of logger file descriptors (src/rpc/remote\<open>_\<close>storage\<open>_\<close>rpc.c): the CA55
  descriptors whose writes go through the shared-memory stream instead of an
  RPC.  A free entry holds -1.
\<close>

abbreviation (input) LOG_STREAM_MAX_FDS :: nat where "LOG_STREAM_MAX_FDS \<equiv> 4"

record logger_fds =
  s_logger_fds :: "int list"
  s_logger_fd_count :: int

definition logger_fd_table_init :: "logger_fds \<Rightarrow> logger_fds" where
  "logger_fd_table_init t = t\<lparr>s_logger_fds := replicate LOG_STREAM_MAX_FDS (- 1)\<rparr>"

definition is_logger_fd :: "int \<Rightarrow> logger_fds \<Rightarrow> bool" where
  "is_logger_fd fd t = (find_index (\<lambda>x. x = fd) (s_logger_fds t) \<noteq> None)"

text \<open>The access mode and creation flags of FreeRTOS\<open>_\<close>POSIX/fcntl.h.\<close>

definition O_ACCMODE :: "32 word" where "O_ACCMODE = 0xF000"
definition O_RDONLY :: "32 word" where "O_RDONLY = 0x2000"
definition O_WRONLY :: "32 word" where "O_WRONLY = 0x8000"
definition O_RDWR :: "32 word" where "O_RDWR = 0xA000"
definition O_CREAT :: "32 word" where "O_CREAT = 0x2"
definition O_TRUNC :: "32 word" where "O_TRUNC = 0x40"
definition O_APPEND :: "32 word" where "O_APPEND = 0x100"

unbundle bit_operations_syntax

definition logger_open_intends_write :: "32 word \<Rightarrow> bool" where
  "logger_open_intends_write flags =
     (let access_mode = flags AND O_ACCMODE in
      if access_mode = O_WRONLY \<or> access_mode = O_RDWR then True
      else flags AND (O_CREAT OR O_TRUNC OR O_APPEND) \<noteq> 0)"


definition logger_fd_register :: "int \<Rightarrow> logger_fds \<Rightarrow> logger_fds" where
  "logger_fd_register fd t =
     (if is_logger_fd fd t then t
      else case find_index (\<lambda>x. x = - 1) (s_logger_fds t) of
             Some i \<Rightarrow> t\<lparr>s_logger_fds := (s_logger_fds t)[i := fd],
                        s_logger_fd_count := s_logger_fd_count t + 1\<rparr>
           | None \<Rightarrow> t)"

definition logger_fd_unregister :: "int \<Rightarrow> logger_fds \<Rightarrow> logger_fds" where
  "logger_fd_unregister fd t =
     (case find_index (\<lambda>x. x = fd) (s_logger_fds t) of
        Some i \<Rightarrow> t\<lparr>s_logger_fds := (s_logger_fds t)[i := - 1],
                   s_logger_fd_count := (if 0 < s_logger_fd_count t then s_logger_fd_count t - 1
                                         else s_logger_fd_count t)\<rparr>
      | None \<Rightarrow> t)"

section \<open>Invariant and occupancy\<close>

abbreviation fd_busy :: "int \<Rightarrow> bool" where "fd_busy x \<equiv> x \<noteq> - 1"

text \<open>The table is a slot pool whose slots are the descriptors themselves.\<close>

interpretation logger_pool: slot_pool fd_busy "\<lambda>fd. fd \<noteq> - 1" "\<lambda>fd _. fd" "\<lambda>_. - 1 :: int"
  by unfold_locales simp_all

definition logger_fds_ok :: "logger_fds \<Rightarrow> bool" where
  "logger_fds_ok t \<longleftrightarrow> length (s_logger_fds t) = LOG_STREAM_MAX_FDS \<and>
     s_logger_fd_count t = int (count_if fd_busy (s_logger_fds t)) \<and>
     distinct (filter fd_busy (s_logger_fds t))"

definition logger_fd_set :: "logger_fds \<Rightarrow> int set" where
  "logger_fd_set t = set (s_logger_fds t) - {- 1}"

lemma is_logger_fd_iff: "is_logger_fd fd t \<longleftrightarrow> fd \<in> set (s_logger_fds t)"
  by (auto simp: is_logger_fd_def find_index_None_iff)

lemma distinct_filter_update:
  assumes i: "i < length xs" and "\<not> P (xs ! i)" "distinct (filter P xs)" "y \<notin> set xs"
  shows "distinct (filter P (xs[i := y]))"
proof -
  note * = id_take_nth_drop[OF i, symmetric] upd_conv_take_nth_drop[OF i]
  have "distinct (filter P (take i xs @ xs ! i # drop (Suc i) xs))" using assms(3) unfolding *(1) .
  moreover have "y \<notin> set (take i xs @ xs ! i # drop (Suc i) xs)" using assms(4) unfolding *(1) .
  ultimately show ?thesis using assms(2) unfolding *(2) by auto
qed

lemma distinct_filter_drop:
  assumes "\<not> P y" "distinct (filter P xs)"
  shows "distinct (filter P (xs[i := y]))"
proof (cases "i < length xs")
  case True
  note * = id_take_nth_drop[OF True, symmetric] upd_conv_take_nth_drop[OF True]
  have "distinct (filter P (take i xs @ xs ! i # drop (Suc i) xs))" using assms(2) unfolding *(1) .
  then show ?thesis using assms(1) unfolding *(2) by (auto split: if_splits)
qed (use assms list_update_beyond[of xs i y] in simp)

lemma filter_clear_set:
  assumes i: "i < length xs" and "P (xs ! i)" "\<not> P y" "distinct (filter P xs)"
  shows "set (filter P (xs[i := y])) = set (filter P xs) - {xs ! i}"
proof -
  note * = id_take_nth_drop[OF i, symmetric] upd_conv_take_nth_drop[OF i]
  have "distinct (filter P (take i xs @ xs ! i # drop (Suc i) xs))" using assms(4) unfolding *(1) .
  moreover have "set (filter P xs) = set (filter P (take i xs @ xs ! i # drop (Suc i) xs))" unfolding *(1) ..
  ultimately show ?thesis using assms(2,3) unfolding *(2) by auto
qed

lemma filter_fill_set:
  assumes i: "i < length xs" and "\<not> P (xs ! i)" "P y"
  shows "set (filter P (xs[i := y])) = insert y (set (filter P xs))"
proof -
  note * = id_take_nth_drop[OF i, symmetric] upd_conv_take_nth_drop[OF i]
  have "set (filter P xs) = set (filter P (take i xs @ xs ! i # drop (Suc i) xs))" unfolding *(1) ..
  then show ?thesis using assms(2,3) unfolding *(2) by auto
qed

lemma logger_fd_set_filter: "logger_fd_set t = set (filter fd_busy (s_logger_fds t))"
  by (auto simp: logger_fd_set_def)

lemma register_cases:
  assumes ok: "logger_fds_ok t" and fd: "fd \<noteq> - 1"
  shows "logger_fds_ok (logger_fd_register fd t) \<and>
    logger_fd_set (logger_fd_register fd t) =
      (if fd \<in> logger_fd_set t \<or> s_logger_fd_count t = 4 then logger_fd_set t
       else insert fd (logger_fd_set t))"
proof (cases "is_logger_fd fd t")
  case True
  then have "fd \<in> logger_fd_set t" using fd by (simp add: is_logger_fd_iff logger_fd_set_def)
  then show ?thesis using True ok by (simp add: logger_fd_register_def)
next
  case no: False
  then have out: "fd \<notin> set (s_logger_fds t)" by (simp add: is_logger_fd_iff)
  show ?thesis
  proof (cases "find_index (\<lambda>x. x = - 1) (s_logger_fds t)")
    case None
    then have "count_if fd_busy (s_logger_fds t) = length (s_logger_fds t)"
      using logger_pool.free_slot_None_iff[of "s_logger_fds t"] by simp
    then show ?thesis using None no ok by (simp add: logger_fd_register_def logger_fds_ok_def)
  next
    case (Some i)
    note i = find_index_SomeD[OF Some]
    have free: "logger_pool.free_slot (s_logger_fds t) = Some i" using Some by simp
    have "s_logger_fd_count t \<noteq> 4"
      using logger_pool.free_slot_Some_less[OF free] ok by (simp add: logger_fds_ok_def)
    moreover have "logger_fds_ok (logger_fd_register fd t)"
      using no Some i ok out logger_pool.claim_count[OF free fd]
        distinct_filter_update[of i "s_logger_fds t" fd_busy fd]
      by (simp add: logger_fd_register_def logger_fds_ok_def)
    moreover have "logger_fd_set (logger_fd_register fd t) = insert fd (logger_fd_set t)"
      using no Some i fd filter_fill_set[of i "s_logger_fds t" fd_busy fd]
      by (simp add: logger_fd_register_def logger_fd_set_filter del: set_filter)
    ultimately show ?thesis using out by (simp add: logger_fd_set_def)
  qed
qed

lemma unregister_cases:
  assumes ok: "logger_fds_ok t" and fd: "fd \<noteq> - 1"
  shows "logger_fds_ok (logger_fd_unregister fd t) \<and>
    logger_fd_set (logger_fd_unregister fd t) = logger_fd_set t - {fd}"
proof (cases "find_index (\<lambda>x. x = fd) (s_logger_fds t)")
  case None
  then have "fd \<notin> set (s_logger_fds t)" by (auto simp: find_index_None_iff)
  then show ?thesis using None ok by (simp add: logger_fd_unregister_def logger_fd_set_def)
next
  case (Some i)
  note i = find_index_SomeD[OF Some]
  have d: "distinct (filter fd_busy (s_logger_fds t))" using ok by (simp add: logger_fds_ok_def)
  have busy: "fd_busy (s_logger_fds t ! i)" using i fd by simp
  have "Suc (count_if fd_busy ((s_logger_fds t)[i := - 1])) = count_if fd_busy (s_logger_fds t)"
    using logger_pool.release_count[of i "s_logger_fds t"] i busy by simp
  then have "logger_fds_ok (logger_fd_unregister fd t)"
    using Some ok distinct_filter_drop[where P = fd_busy, OF _ d, of "- 1" i]
    by (auto simp: logger_fd_unregister_def logger_fds_ok_def)
  moreover have "logger_fd_set (logger_fd_unregister fd t) = logger_fd_set t - {fd}"
    using Some i busy d filter_clear_set[of i "s_logger_fds t" fd_busy "- 1"]
    by (simp add: logger_fd_unregister_def logger_fd_set_filter del: set_filter)
  ultimately show ?thesis by simp
qed

text \<open>Registering and unregistering a descriptor implement a set of at most four
  descriptors: each is held once, the count is exact, a full table refuses a
  new one, and a descriptor is found exactly when it is in the set.\<close>

theorem logger_fds_refine_set:
  assumes "logger_fds_ok t" "fd \<noteq> - 1"
  shows "is_logger_fd fd t = (fd \<in> logger_fd_set t) \<and>
    logger_fds_ok (logger_fd_register fd t) \<and> logger_fds_ok (logger_fd_unregister fd t) \<and>
    logger_fd_set (logger_fd_register fd t) =
      (if fd \<in> logger_fd_set t \<or> s_logger_fd_count t = 4 then logger_fd_set t else insert fd (logger_fd_set t)) \<and>
    logger_fd_set (logger_fd_unregister fd t) = logger_fd_set t - {fd}"
  using register_cases[OF assms] unregister_cases[OF assms] assms(2)
  by (simp add: is_logger_fd_iff logger_fd_set_def)

abbreviation logger_boot :: logger_fds where
  "logger_boot \<equiv> logger_fd_table_init \<lparr>s_logger_fds = [0, 0, 0, 0], s_logger_fd_count = 0\<rparr>"

lemma logger_boot_ok: "logger_fds_ok logger_boot"
  by (simp add: logger_fds_ok_def logger_fd_table_init_def numeral_eq_Suc)

theorem logger_fds_refine_set_witness:
  "logger_fd_set (logger_fd_register 7 logger_boot) = {7}"
  using logger_fds_refine_set[OF logger_boot_ok, of 7]
  by (simp add: logger_fd_set_def logger_fd_table_init_def)

lemma invalid_fd_lookup: "logger_fds_ok t \<Longrightarrow> is_logger_fd (- 1) t = (s_logger_fd_count t < 4)"
  using logger_pool.free_slot_None_iff[of "s_logger_fds t"] count_if_le[of fd_busy "s_logger_fds t"]
  by (auto simp: is_logger_fd_def logger_fds_ok_def)

text \<open>The free marker -1 is found by the lookup whenever an entry is free: an
  invalid descriptor -1 counts as a logger descriptor from power-up until four
  logs are open, and unregistering it lowers the count below the number of
  descriptors held.\<close>

theorem invalid_fd_is_logger_fd:
  assumes "logger_fds_ok t"
  shows "is_logger_fd (- 1) t = (s_logger_fd_count t < 4) \<and>
    (0 < s_logger_fd_count t \<and> s_logger_fd_count t < 4 \<longrightarrow>
      logger_fd_set (logger_fd_unregister (- 1) t) = logger_fd_set t \<and>
      s_logger_fd_count (logger_fd_unregister (- 1) t) < int (card (logger_fd_set t)))"
proof -
  have len: "length (s_logger_fds t) = 4" and cnt: "s_logger_fd_count t = int (count_if fd_busy (s_logger_fds t))"
    and d: "distinct (filter fd_busy (s_logger_fds t))"
    using assms by (simp_all add: logger_fds_ok_def)
  have card: "card (logger_fd_set t) = count_if fd_busy (s_logger_fds t)"
    using distinct_card[OF d] by (simp add: logger_fd_set_filter count_if_def del: set_filter)
  note look = invalid_fd_lookup[OF assms]
  have "logger_fd_set (logger_fd_unregister (- 1) t) = logger_fd_set t \<and>
      s_logger_fd_count (logger_fd_unregister (- 1) t) < int (card (logger_fd_set t))"
    if "0 < s_logger_fd_count t" "s_logger_fd_count t < 4"
  proof -
    from look that obtain i where i: "find_index (\<lambda>x. x = - 1) (s_logger_fds t) = Some i"
      by (auto simp: is_logger_fd_def)
    then have "(s_logger_fds t)[i := - 1] = s_logger_fds t"
      using find_index_SomeD[OF i] by (metis list_update_id)
    then show ?thesis using that i card cnt by (simp add: logger_fd_unregister_def logger_fd_set_def)
  qed
  then show ?thesis using look by blast
qed

theorem invalid_fd_is_logger_fd_witness: "is_logger_fd (- 1) logger_boot"
  using invalid_fd_is_logger_fd[OF logger_boot_ok] by (simp add: logger_fd_table_init_def)

end
