(* ===== verification/Logger_Shm.thy ===== *)
theory Logger_Shm
  imports Slot_Pool
begin

text \<open>
  The shared-memory log streams between the Cortex-R8 writer
  (src/rpc/remote\<open>_\<close>storage\<open>_\<close>rpc.c) and the CA55 reader (custom\<open>_\<close>agent.cpp): a pool of
  two streams, each a ring buffer with 32-bit head and tail.  Cache
  maintenance is not visible in this model: both sides see the ring in one
  memory.  The kicks sent on the logger endpoint are returned as messages,
  because their send result is ignored by the code.
\<close>

section \<open>A byte stream through a bounded buffer\<close>

text \<open>
  What a client of a log stream relies on: an accepted block is appended, a
  refused one leaves the contents alone, and a reader takes bytes from the
  front.  Every operation keeps the invariant.
\<close>

locale byte_fifo =
  fixes put :: "bytes \<Rightarrow> 's \<Rightarrow> bool \<times> 's"
    and get :: "nat \<Rightarrow> 's \<Rightarrow> 's"
    and contents :: "'s \<Rightarrow> bytes"
    and room :: "'s \<Rightarrow> nat"
    and inv :: "'s \<Rightarrow> bool"
  assumes put_inv: "inv s \<Longrightarrow> inv (snd (put d s))"
    and put_accepts: "inv s \<Longrightarrow> fst (put d s) = (length d \<le> room s)"
    and put_contents: "inv s \<Longrightarrow> contents (snd (put d s)) = (if fst (put d s) then contents s @ d else contents s)"
    and get_inv: "inv s \<Longrightarrow> k \<le> length (contents s) \<Longrightarrow> inv (get k s)"
    and get_contents: "inv s \<Longrightarrow> k \<le> length (contents s) \<Longrightarrow> contents (get k s) = drop k (contents s)"
begin

text \<open>One step of the pair: the writer offers a block, or the reader takes at most
  \<open>k\<close> bytes.  The result collects what was accepted and what was read.\<close>

fun stream_step :: "bytes + nat \<Rightarrow> 's \<times> bytes \<times> bytes \<Rightarrow> 's \<times> bytes \<times> bytes" where
  "stream_step (Inl d) (s, acc, out) =
     (let (ok, s') = put d s in (s', if ok then acc @ d else acc, out))"
| "stream_step (Inr k) (s, acc, out) =
     (let n = min k (length (contents s)) in (get n s, acc, out @ take n (contents s)))"

definition stream_ok :: "bytes \<Rightarrow> 's \<times> bytes \<times> bytes \<Rightarrow> bool" where
  "stream_ok before x = (case x of (s, acc, out) \<Rightarrow> inv s \<and> before @ acc = out @ contents s)"

lemma stream_step_ok: "stream_ok b x \<Longrightarrow> stream_ok b (stream_step op x)"
proof (cases op)
  case (Inl d)
  assume ok: "stream_ok b x"
  obtain s acc out where x: "x = (s, acc, out)" by (cases x)
  obtain r s' where p: "put d s = (r, s')" by fastforce
  from ok have "inv s" "b @ acc = out @ contents s" by (simp_all add: x stream_ok_def)
  then show ?thesis
    using put_inv[of s d] put_contents[of s d] by (simp add: x Inl p stream_ok_def)
next
  case (Inr k)
  assume ok: "stream_ok b x"
  obtain s acc out where x: "x = (s, acc, out)" by (cases x)
  from ok have s: "inv s" "b @ acc = out @ contents s" by (simp_all add: x stream_ok_def)
  let ?n = "min k (length (contents s))"
  have "inv (get ?n s)" "contents (get ?n s) = drop ?n (contents s)"
    using s(1) by (simp_all add: get_inv get_contents)
  then show ?thesis
    using s(2) by (simp add: x Inr stream_ok_def Let_def)
qed

text \<open>Stream integrity: what has been read, followed by what is still buffered, is
  exactly the old contents followed by the accepted blocks in order.\<close>

lemma stream_integrity:
  assumes "inv s" "fold stream_step ops (s, [], []) = (s', acc, out)"
  shows "inv s' \<and> contents s @ acc = out @ contents s'"
proof -
  have step: "stream_ok b (fold stream_step ops x)" if "stream_ok b x" for b x
    using that by (induction ops arbitrary: x) (simp_all add: stream_step_ok)
  have "stream_ok (contents s) (s, [], [])" using assms(1) by (simp add: stream_ok_def)
  from step[OF this] show ?thesis by (simp add: assms(2) stream_ok_def)
qed

lemma read_prefix:
  assumes "inv s" "fold stream_step ops (s, [], []) = (s', acc, out)"
  shows "take (length out) (contents s @ acc) = out"
  using stream_integrity[OF assms] by simp

end

section \<open>The streams\<close>

abbreviation (input) LOG_SHM_MAGIC :: "32 word" where "LOG_SHM_MAGIC \<equiv> 0x4C4F4753"
abbreviation (input) RZV_SDRAM_LOGGER_STREAM_COUNT :: nat where "RZV_SDRAM_LOGGER_STREAM_COUNT \<equiv> 2"
abbreviation (input) RZV_SDRAM_LOGGER_BUF_SIZE :: nat where "RZV_SDRAM_LOGGER_BUF_SIZE \<equiv> 262112"
abbreviation (input) LOG_STREAM_MSG_FLUSH :: "8 word" where "LOG_STREAM_MSG_FLUSH \<equiv> 2"
abbreviation (input) LOG_STREAM_MSG_KICK :: "8 word" where "LOG_STREAM_MSG_KICK \<equiv> 3"

record logger_shm_ctrl =
  sc_magic :: "32 word"
  sc_buffer_size :: "32 word"
  sc_head :: "32 word"
  sc_tail :: "32 word"
  sc_dropped_bytes :: "32 word"
  sc_active_fd :: int
  sc_data :: bytes

record logger_shm =
  shm_streams :: "logger_shm_ctrl list"
  last_kick_head :: "32 word list"

text \<open>\<open>struct log_stream_hdr\<close> on the wire.\<close>

definition log_stream_hdr :: "8 word \<Rightarrow> int \<Rightarrow> bytes" where
  "log_stream_hdr msg_type ca55_fd = [msg_type, 0] @ le16 0 @ le32 (of_int ca55_fd)"

definition shm_open_stream :: "int \<Rightarrow> logger_shm_ctrl \<Rightarrow> logger_shm_ctrl" where
  "shm_open_stream fd c =
     c\<lparr>sc_buffer_size := of_nat RZV_SDRAM_LOGGER_BUF_SIZE, sc_head := 0, sc_tail := 0,
       sc_dropped_bytes := 0, sc_active_fd := fd, sc_magic := LOG_SHM_MAGIC\<rparr>"

definition get_shm_stream :: "int \<Rightarrow> logger_shm_ctrl list \<Rightarrow> nat option \<times> logger_shm_ctrl list" where
  "get_shm_stream fd ss =
     (case find_index (\<lambda>c. sc_magic c = LOG_SHM_MAGIC \<and> sc_active_fd c = fd) ss of
        Some i \<Rightarrow> (Some i, ss)
      | None \<Rightarrow>
          (case find_index (\<lambda>c. sc_magic c \<noteq> LOG_SHM_MAGIC \<or> sc_active_fd c < 0) ss of
             Some i \<Rightarrow> (Some i, ss[i := shm_open_stream fd (ss ! i)])
           | None \<Rightarrow> (None, ss)))"

definition shm_free_space :: "logger_shm_ctrl \<Rightarrow> 32 word" where
  "shm_free_space c =
     (if sc_tail c > sc_head c then sc_tail c - sc_head c - 1
      else sc_buffer_size c - sc_head c + sc_tail c - 1)"

definition shm_drop :: "nat \<Rightarrow> logger_shm_ctrl \<Rightarrow> logger_shm_ctrl" where
  "shm_drop buflen c = c\<lparr>sc_dropped_bytes := sc_dropped_bytes c + of_nat buflen\<rparr>"

text \<open>The copies, with the bounds of the array \<open>data\<close> checked, and the new head.\<close>

definition shm_append :: "bytes \<Rightarrow> logger_shm_ctrl \<Rightarrow> logger_shm_ctrl exec" where
  "shm_append src c =
     (let head = unat (sc_head c);
          until_end = unat (sc_buffer_size c - sc_head c);
          buflen = length src;
          size = sc_buffer_size c
      in if buflen \<le> until_end then
           (if length (sc_data c) < head + buflen \<or> size = 0 then Faults
            else Ret (c\<lparr>sc_data := overwrite head src (sc_data c),
                        sc_head := (sc_head c + of_nat buflen) mod size\<rparr>))
         else
           (if length (sc_data c) < head + until_end \<or> length (sc_data c) < buflen - until_end \<or> size = 0
            then Faults
            else Ret (c\<lparr>sc_data := overwrite 0 (drop until_end src) (overwrite head (take until_end src) (sc_data c)),
                        sc_head := (sc_head c + of_nat buflen) mod size\<rparr>)))"

definition shm_kick_due :: "32 word \<Rightarrow> logger_shm_ctrl \<Rightarrow> bool" where
  "shm_kick_due kicked c =
     ((if sc_head c \<ge> kicked then sc_head c - kicked else sc_buffer_size c - kicked + sc_head c) \<ge> 16384)"

definition rzv_logger_stream_write ::
  "int \<Rightarrow> bytes \<Rightarrow> logger_shm \<Rightarrow> (int \<times> bytes list \<times> logger_shm) exec"
where
  "rzv_logger_stream_write ca55_fd buffer l =
     (case get_shm_stream ca55_fd (shm_streams l) of
        (None, ss) \<Rightarrow> Ret (0, [], l\<lparr>shm_streams := ss\<rparr>)
      | (Some idx, ss) \<Rightarrow>
          let ctrl = ss ! idx; buflen = length buffer in
          if unat (shm_free_space ctrl) < buflen then
            Ret (int buflen, [], l\<lparr>shm_streams := ss[idx := shm_drop buflen ctrl]\<rparr>)
          else
            (case shm_append buffer ctrl of
               Ret c' \<Rightarrow>
                 if shm_kick_due (last_kick_head l ! idx) c' then
                   Ret (int buflen, [log_stream_hdr LOG_STREAM_MSG_KICK ca55_fd],
                        l\<lparr>shm_streams := ss[idx := c'],
                          last_kick_head := (last_kick_head l)[idx := sc_head c']\<rparr>)
                 else Ret (int buflen, [], l\<lparr>shm_streams := ss[idx := c']\<rparr>)
             | Faults \<Rightarrow> Faults
             | Diverges \<Rightarrow> Diverges))"

definition rzv_logger_stream_flush :: "int \<Rightarrow> bytes list" where
  "rzv_logger_stream_flush ca55_fd = [log_stream_hdr LOG_STREAM_MSG_FLUSH ca55_fd]"

text \<open>The CA55 reader: the size of the next block handed to \<open>write\<close>, the block, and the
  tail after \<open>written\<close> bytes of it were taken; closing a stream frees it.\<close>

definition ca55_chunk :: "nat \<Rightarrow> logger_shm_ctrl \<Rightarrow> nat" where
  "ca55_chunk max_chunk c =
     (let n = unat (if sc_head c > sc_tail c then sc_head c - sc_tail c
                    else sc_buffer_size c - sc_tail c) in
      if n > max_chunk then max_chunk else n)"

definition ca55_block :: "nat \<Rightarrow> logger_shm_ctrl \<Rightarrow> bytes" where
  "ca55_block max_chunk c = take (ca55_chunk max_chunk c) (drop (unat (sc_tail c)) (sc_data c))"

definition ca55_consume :: "nat \<Rightarrow> logger_shm_ctrl \<Rightarrow> logger_shm_ctrl" where
  "ca55_consume written c = c\<lparr>sc_tail := (sc_tail c + of_nat written) mod sc_buffer_size c\<rparr>"

definition ca55_close_stream :: "logger_shm_ctrl \<Rightarrow> logger_shm_ctrl" where
  "ca55_close_stream c = c\<lparr>sc_active_fd := - 1\<rparr>"

section \<open>The ring buffer as a stream\<close>

definition shm_wf :: "logger_shm_ctrl \<Rightarrow> bool" where
  "shm_wf c \<longleftrightarrow> unat (sc_buffer_size c) = length (sc_data c) \<and> 0 < length (sc_data c) \<and>
     length (sc_data c) < 2 ^ 31 \<and>
     unat (sc_head c) < length (sc_data c) \<and> unat (sc_tail c) < length (sc_data c)"

text \<open>The bytes between tail and head.\<close>

definition shm_contents :: "logger_shm_ctrl \<Rightarrow> bytes" where
  "shm_contents c =
     (let h = unat (sc_head c); t = unat (sc_tail c) in
      if t \<le> h then take (h - t) (drop t (sc_data c)) else drop t (sc_data c) @ take h (sc_data c))"

lemma unat_add_small:
  fixes a b :: "32 word"
  shows "unat a + unat b < 4294967296 \<Longrightarrow> unat (a + b) = unat a + unat b"
  by (simp add: unat_word_ariths)

lemma free_space_nat:
  assumes "shm_wf c"
  shows "unat (shm_free_space c) = length (sc_data c) - 1 - length (shm_contents c)"
proof -
  let ?h = "unat (sc_head c)" and ?t = "unat (sc_tail c)" and ?n = "length (sc_data c)"
  from assms have w: "unat (sc_buffer_size c) = ?n" "?h < ?n" "?t < ?n" "?n < 2 ^ 31"
    by (simp_all add: shm_wf_def)
  have len: "length (shm_contents c) = (if ?t \<le> ?h then ?h - ?t else ?n - ?t + ?h)"
    using w by (simp add: shm_contents_def Let_def)
  show ?thesis
  proof (cases "sc_tail c > sc_head c")
    case True
    then have lt: "?h < ?t" by (simp add: word_less_nat_alt)
    then have d: "unat (sc_tail c - sc_head c) = ?t - ?h" by (simp add: unat_sub word_le_nat_alt)
    have "unat (sc_tail c - sc_head c - 1) = ?t - ?h - 1"
      using lt d by (subst unat_sub) (simp_all add: word_le_nat_alt)
    then show ?thesis using True lt w len by (simp add: shm_free_space_def)
  next
    case False
    then have le: "?t \<le> ?h" by (simp add: word_less_nat_alt)
    have d: "unat (sc_buffer_size c - sc_head c) = ?n - ?h" using w by (simp add: unat_sub word_le_nat_alt)
    have e: "unat (sc_buffer_size c - sc_head c + sc_tail c) = ?n - ?h + ?t"
      using w d by (subst unat_add_small) simp_all
    have "unat (sc_buffer_size c - sc_head c + sc_tail c - 1) = ?n - ?h + ?t - 1"
      using w e by (subst unat_sub) (simp_all add: word_le_nat_alt)
    then show ?thesis using False le w len by (simp add: shm_free_space_def)
  qed
qed

lemma unat_of_nat_small: "n < 4294967296 \<Longrightarrow> unat (of_nat n :: 32 word) = n"
  by (simp add: unat_of_nat)

lemma head_advance:
  fixes h size :: "32 word"
  assumes "unat h + k < 2 ^ 32" "0 < unat size"
  shows "unat ((h + of_nat k) mod size) = (unat h + k) mod unat size"
proof -
  have "unat (of_nat k :: 32 word) = k" using assms(1) by (simp add: unat_of_nat_small)
  then have "unat (h + of_nat k) = unat h + k" using assms(1) by (simp add: unat_add_small)
  then show ?thesis by (simp add: unat_mod_distrib)
qed

lemma append_shape:
  assumes wf: "shm_wf c" and room: "length src \<le> length (sc_data c) - 1 - length (shm_contents c)"
  shows "\<exists>d. length d = length (sc_data c) \<and>
    shm_append src c = Ret (c\<lparr>sc_data := d, sc_head := (sc_head c + of_nat (length src)) mod sc_buffer_size c\<rparr>) \<and>
    d = (let h = unat (sc_head c); e = length (sc_data c) - h in
         if length src \<le> e then overwrite h src (sc_data c)
         else overwrite 0 (drop e src) (overwrite h (take e src) (sc_data c)))"
proof -
  let ?h = "unat (sc_head c)" and ?n = "length (sc_data c)"
  from wf have w: "unat (sc_buffer_size c) = ?n" "?h < ?n" "0 < ?n" by (simp_all add: shm_wf_def)
  have d: "unat (sc_buffer_size c - sc_head c) = ?n - ?h" using w by (simp add: unat_sub word_le_nat_alt)
  have z: "sc_buffer_size c \<noteq> 0" using w by auto
  show ?thesis
    using w z room by (auto simp: shm_append_def d Let_def)
qed

lemma append_wf:
  assumes "shm_wf c" "length src \<le> length (sc_data c) - 1 - length (shm_contents c)" "shm_append src c = Ret c'"
  shows "shm_wf c'"
  using append_shape[OF assms(1,2)] assms(1,3)
  by (auto simp: shm_wf_def unat_mod_distrib)

text \<open>The same on lists, where the four cases of the copy are separate.\<close>

definition ring :: "nat \<Rightarrow> nat \<Rightarrow> bytes \<Rightarrow> bytes" where
  "ring h t d = (if t \<le> h then take (h - t) (drop t d) else drop t d @ take h d)"

lemma shm_contents_ring: "shm_contents c = ring (unat (sc_head c)) (unat (sc_tail c)) (sc_data c)"
  by (simp add: shm_contents_def ring_def Let_def)

lemma length_ring:
  "h < length d \<Longrightarrow> t < length d \<Longrightarrow> length (ring h t d) = (if t \<le> h then h - t else length d - t + h)"
  by (simp add: ring_def)

lemma ring_put_straight:
  assumes "t \<le> h" "h + length src \<le> length d" "h < length d"
  shows "take (h + length src - t) (drop t (overwrite h src d)) = ring h t d @ src"
  using assms by (simp add: ring_def overwrite_def drop_take)

lemma ring_put_before:
  assumes "h < t" "h + length src < t" "t < length d"
  shows "ring (h + length src) t (overwrite h src d) = ring h t d @ src"
  using assms by (simp add: ring_def overwrite_def)

lemma ring_put_wrapped:
  assumes "t \<le> h" "h < length d" "length d - h < length src" "length src - (length d - h) < t"
  shows "ring (length src - (length d - h)) t
      (overwrite 0 (drop (length d - h) src) (overwrite h (take (length d - h) src) d)) = ring h t d @ src"
proof -
  let ?e = "length d - h"
  let ?w = "overwrite h (take ?e src) d"
  have w: "?w = take h d @ take ?e src" using assms by (simp add: overwrite_def)
  let ?r = "drop ?e src"
  have o: "overwrite 0 ?r ?w = ?r @ drop (length ?r) ?w" by (simp add: overwrite_def)
  have "drop t (overwrite 0 ?r ?w) = drop t ?w"
    using assms by (simp add: o)
  also have "\<dots> = take (h - t) (drop t d) @ take ?e src"
    using assms by (simp add: w drop_take)
  finally have "drop t (overwrite 0 ?r ?w) = ring h t d @ take ?e src"
    using assms(1) by (simp add: ring_def)
  then show ?thesis using assms by (simp add: ring_def o)
qed

lemma append_contents:
  assumes wf: "shm_wf c" and room: "length src \<le> length (sc_data c) - 1 - length (shm_contents c)"
    and c': "shm_append src c = Ret c'"
  shows "shm_contents c' = shm_contents c @ src"
proof -
  let ?h = "unat (sc_head c)" and ?t = "unat (sc_tail c)" and ?n = "length (sc_data c)" and ?k = "length src"
  from wf have w: "unat (sc_buffer_size c) = ?n" "?h < ?n" "?t < ?n" "0 < ?n" "?n < 2 ^ 31"
    by (simp_all add: shm_wf_def)
  note r = room[unfolded shm_contents_ring length_ring[OF w(2,3)]]
  have small: "?h + ?k < 2 ^ 32" using r w by (auto split: if_splits)
  obtain d where d: "c' = c\<lparr>sc_data := d, sc_head := (sc_head c + of_nat ?k) mod sc_buffer_size c\<rparr>"
    "d = (let e = ?n - ?h in if ?k \<le> e then overwrite ?h src (sc_data c)
          else overwrite 0 (drop e src) (overwrite ?h (take e src) (sc_data c)))"
    using append_shape[OF wf room] c' by (auto simp: Let_def)
  have h': "unat (sc_head c') = (?h + ?k) mod ?n"
    using head_advance[OF small, of "sc_buffer_size c"] w by (simp add: d(1))
  have goal: "shm_contents c' = ring ((?h + ?k) mod ?n) ?t d"
    by (simp add: shm_contents_ring h') (simp add: d(1))
  have "?t \<le> ?h \<or> ?h < ?t \<and> ?h + ?k < ?t" using r w by (cases "?t \<le> ?h") simp_all
  then have "?t \<le> ?h \<and> ?h + ?k < ?n \<or> ?t \<le> ?h \<and> ?h + ?k = ?n \<or>
      ?t \<le> ?h \<and> ?n < ?h + ?k \<or> ?h < ?t \<and> ?h + ?k < ?t"
    by linarith
  then consider (straight) "?t \<le> ?h" "?h + ?k < ?n" | (full) "?t \<le> ?h" "?h + ?k = ?n"
    | (wrap) "?t \<le> ?h" "?n < ?h + ?k" | (before) "?h < ?t" "?h + ?k < ?t"
    by blast
  then show ?thesis
  proof cases
    case straight
    then have "?k \<le> ?n - ?h" by simp
    then have "d = overwrite ?h src (sc_data c)" by (simp add: d(2) Let_def)
    moreover have "ring (?h + ?k) ?t d = take (?h + ?k - ?t) (drop ?t d)" using straight by (simp add: ring_def)
    ultimately show ?thesis
      using straight ring_put_straight[of ?t ?h src "sc_data c"] w by (simp add: goal shm_contents_ring[of c])
  next
    case full
    then have "?k \<le> ?n - ?h" by simp
    then have dd: "d = overwrite ?h src (sc_data c)" by (simp add: d(2) Let_def)
    have len: "length d = ?n" using full by (simp add: dd)
    have "0 < ?t" using r full w by auto
    then have "ring 0 ?t d = take (?h + ?k - ?t) (drop ?t d)" using full len by (simp add: ring_def)
    then show ?thesis
      using full ring_put_straight[of ?t ?h src "sc_data c"] w by (simp add: goal dd shm_contents_ring[of c])
  next
    case wrap
    have lt: "?k - (?n - ?h) < ?t" using r wrap w by auto
    have "?h + ?k = (?k - (?n - ?h)) + ?n" using wrap w by simp
    then have "(?h + ?k) mod ?n = ?k - (?n - ?h)" using lt w by (metis mod_add_self2 mod_less less_trans)
    moreover have "d = overwrite 0 (drop (?n - ?h) src) (overwrite ?h (take (?n - ?h) src) (sc_data c))"
    proof -
      have "\<not> ?k \<le> ?n - ?h" using wrap w by linarith
      then show ?thesis by (simp add: d(2) Let_def)
    qed
    ultimately show ?thesis
      using ring_put_wrapped[of ?t ?h "sc_data c" src] wrap lt w by (simp add: goal shm_contents_ring[of c])
  next
    case before
    then have "?k \<le> ?n - ?h" using w by simp
    then have "d = overwrite ?h src (sc_data c)" by (simp add: d(2) Let_def)
    then show ?thesis
      using ring_put_before[of ?h ?t src "sc_data c"] before w by (simp add: goal shm_contents_ring[of c])
  qed
qed

lemma ring_drop:
  assumes "h < length d" "t < length d" "k \<le> (if t \<le> h then h - t else length d - t + h)"
  shows "ring h ((t + k) mod length d) d = drop k (ring h t d)"
proof (cases "t \<le> h")
  case True
  then have "(t + k) mod length d = t + k" "t + k \<le> h" using assms by simp_all
  then show ?thesis using True by (simp add: ring_def drop_take add.commute)
next
  case after: False
  show ?thesis
  proof (cases "t + k < length d")
    case True
    then show ?thesis using after by (simp add: ring_def add.commute)
  next
    case False
    define m where "m = t + k - length d"
    have k: "k = length d - t + m" and m: "m \<le> h" using False after assms by (simp_all add: m_def)
    have "t + k = m + length d" using k assms(2) by simp
    then have "(t + k) mod length d = m" using m assms(1) by simp
    moreover have "drop k (drop t d @ take h d) = take (h - m) (drop m d)"
      by (simp add: k drop_take)
    ultimately show ?thesis using after m by (simp add: ring_def)
  qed
qed

lemma append_ret:
  assumes "shm_wf c" "length src \<le> length (sc_data c) - 1 - length (shm_contents c)"
  shows "\<exists>c'. shm_append src c = Ret c'"
  using append_shape[OF assms] by blast

lemma consume_tail:
  assumes "shm_wf c" "k \<le> length (shm_contents c)"
  shows "unat (sc_tail (ca55_consume k c)) = (unat (sc_tail c) + k) mod length (sc_data c)"
proof -
  from assms(1) have w: "unat (sc_buffer_size c) = length (sc_data c)" "unat (sc_head c) < length (sc_data c)"
    "unat (sc_tail c) < length (sc_data c)" "length (sc_data c) < 2 ^ 31" "0 < length (sc_data c)"
    by (simp_all add: shm_wf_def)
  have "unat (sc_tail c) + k < 2 ^ 32"
    using assms(2) w length_ring[OF w(2,3)] by (auto simp: shm_contents_ring split: if_splits)
  then show ?thesis using head_advance[of "sc_tail c" k "sc_buffer_size c"] w by (simp add: ca55_consume_def)
qed

lemma consume_wf: "shm_wf c \<Longrightarrow> k \<le> length (shm_contents c) \<Longrightarrow> shm_wf (ca55_consume k c)"
  using consume_tail[of c k] by (auto simp: shm_wf_def ca55_consume_def)

lemma consume_contents:
  assumes wf: "shm_wf c" and k: "k \<le> length (shm_contents c)"
  shows "shm_contents (ca55_consume k c) = drop k (shm_contents c)"
proof -
  let ?h = "unat (sc_head c)" and ?t = "unat (sc_tail c)" and ?n = "length (sc_data c)"
  from wf have w: "?h < ?n" "?t < ?n" by (simp_all add: shm_wf_def)
  note kk = k[unfolded shm_contents_ring length_ring[OF w]]
  have "shm_contents (ca55_consume k c) = ring ?h ((?t + k) mod ?n) (sc_data c)"
    using consume_tail[OF wf k] by (simp add: shm_contents_ring) (simp add: ca55_consume_def)
  moreover have "ring ?h ((?t + k) mod ?n) (sc_data c) = drop k (ring ?h ?t (sc_data c))"
    using kk by (intro ring_drop w) simp
  ultimately show ?thesis by (simp add: shm_contents_ring)
qed

text \<open>One offer of a block to a stream, as \<open>rzv_logger_stream_write\<close> makes it.\<close>

definition shm_put :: "bytes \<Rightarrow> logger_shm_ctrl \<Rightarrow> bool \<times> logger_shm_ctrl" where
  "shm_put d c =
     (if unat (shm_free_space c) < length d then (False, shm_drop (length d) c)
      else case shm_append d c of Ret c' \<Rightarrow> (True, c') | _ \<Rightarrow> (False, c))"

lemma drop_simps [simp]:
  "shm_contents (shm_drop n c) = shm_contents c" "shm_wf (shm_drop n c) = shm_wf c"
  "sc_data (shm_drop n c) = sc_data c" "sc_active_fd (shm_drop n c) = sc_active_fd c"
  "sc_magic (shm_drop n c) = sc_magic c"
  by (simp_all add: shm_drop_def shm_contents_def shm_wf_def Let_def)

lemma put_cases:
  assumes "shm_wf c"
  shows "fst (shm_put d c) = (length d \<le> length (sc_data c) - 1 - length (shm_contents c)) \<and>
    shm_wf (snd (shm_put d c)) \<and>
    shm_contents (snd (shm_put d c)) = (if fst (shm_put d c) then shm_contents c @ d else shm_contents c)"
proof (cases "length d \<le> length (sc_data c) - 1 - length (shm_contents c)")
  case True
  from append_ret[OF assms True] obtain c' where c': "shm_append d c = Ret c'" by blast
  then have "shm_put d c = (True, c')" using True by (simp add: shm_put_def free_space_nat[OF assms])
  then show ?thesis using True append_wf[OF assms True c'] append_contents[OF assms True c'] by simp
next
  case False
  then have "shm_put d c = (False, shm_drop (length d) c)" by (simp add: shm_put_def free_space_nat[OF assms])
  then show ?thesis using False assms by simp
qed

interpretation log_ring: byte_fifo shm_put ca55_consume shm_contents
  "\<lambda>c. length (sc_data c) - 1 - length (shm_contents c)" shm_wf
  by unfold_locales (simp_all add: put_cases consume_wf consume_contents)

text \<open>Interleavings of the writer on the R8 and the reader on the CA55.\<close>

fun log_step :: "bytes + nat \<Rightarrow> logger_shm_ctrl \<times> bytes \<times> bytes \<Rightarrow> logger_shm_ctrl \<times> bytes \<times> bytes" where
  "log_step (Inl d) (c, acc, out) =
     (let (ok, c') = shm_put d c in (c', if ok then acc @ d else acc, out))"
| "log_step (Inr k) (c, acc, out) =
     (let n = min k (length (shm_contents c)) in (ca55_consume n c, acc, out @ take n (shm_contents c)))"

lemma log_step_eq: "log_step = log_ring.stream_step"
proof (intro ext)
  fix op x
  show "log_step op x = log_ring.stream_step op x"
    by (cases op; cases x) simp_all
qed

text \<open>Stream integrity of a log ring: under every interleaving of writes and reads,
  what the CA55 has read followed by what is still in the ring is what was in
  the ring before followed by the accepted writes in order; no byte is lost,
  duplicated, reordered or invented, also across the wrap of the ring.\<close>

theorem log_stream_integrity:
  assumes "shm_wf c" "fold log_step ops (c, [], []) = (c', acc, out)"
  shows "shm_wf c' \<and> shm_contents c @ acc = out @ shm_contents c'"
  using log_ring.stream_integrity[OF assms(1)] assms(2) by (simp add: log_step_eq)

definition demo_ring :: logger_shm_ctrl where
  "demo_ring = \<lparr>sc_magic = LOG_SHM_MAGIC, sc_buffer_size = 4, sc_head = 2, sc_tail = 1, sc_dropped_bytes = 0,
     sc_active_fd = 5, sc_data = [1, 2, 3, 4]\<rparr>"

lemma demo_ring_wf: "shm_wf demo_ring"
  by (simp add: demo_ring_def shm_wf_def)

theorem log_stream_integrity_witness:
  "\<exists>c' acc out. fold log_step [Inl [7, 8], Inr 2, Inl [9, 10, 11]] (demo_ring, [], []) = (c', acc, out) \<and>
     shm_contents demo_ring @ acc = out @ shm_contents c'"
proof -
  obtain c' acc out where r: "fold log_step [Inl [7, 8], Inr 2, Inl [9, 10, 11]] (demo_ring, [], []) = (c', acc, out)"
    by (metis prod_cases3)
  from log_stream_integrity[OF demo_ring_wf r] r show ?thesis by blast
qed

text \<open>The block that the CA55 hands to \<open>write\<close> is a prefix of the buffered bytes,
  and it is not empty unless the ring is empty, so that draining with complete
  writes makes progress until the ring is empty.\<close>

theorem ca55_block_prefix:
  assumes wf: "shm_wf c" and m: "0 < max_chunk" and ne: "sc_tail c \<noteq> sc_head c"
  shows "ca55_block max_chunk c = take (ca55_chunk max_chunk c) (shm_contents c) \<and>
    0 < ca55_chunk max_chunk c \<and> ca55_chunk max_chunk c \<le> length (shm_contents c) \<and>
    shm_contents (ca55_consume (ca55_chunk max_chunk c) c) = drop (ca55_chunk max_chunk c) (shm_contents c)"
proof -
  let ?h = "unat (sc_head c)" and ?t = "unat (sc_tail c)" and ?n = "length (sc_data c)"
  from wf have w: "unat (sc_buffer_size c) = ?n" "?h < ?n" "?t < ?n" by (simp_all add: shm_wf_def)
  have neq: "?t \<noteq> ?h" using ne by (simp add: word_unat_eq_iff)
  let ?k = "if ?t < ?h then ?h - ?t else ?n - ?t"
  have "unat (if sc_head c > sc_tail c then sc_head c - sc_tail c else sc_buffer_size c - sc_tail c) = ?k"
    using w by (auto simp: unat_sub word_less_nat_alt word_le_nat_alt)
  then have chunk: "ca55_chunk max_chunk c = min ?k max_chunk"
    by (simp add: ca55_chunk_def Let_def min_def)
  have le: "ca55_chunk max_chunk c \<le> length (shm_contents c)"
    using neq w by (auto simp: chunk shm_contents_ring length_ring)
  moreover have "0 < ca55_chunk max_chunk c" using m neq w by (auto simp: chunk)
  moreover have "ca55_block max_chunk c = take (ca55_chunk max_chunk c) (shm_contents c)"
    using neq w unfolding ca55_block_def chunk by (auto simp: shm_contents_ring ring_def)
  ultimately show ?thesis using consume_contents[OF wf le] by simp
qed

theorem ca55_block_prefix_witness:
  "ca55_block 131072 demo_ring = take (ca55_chunk 131072 demo_ring) (shm_contents demo_ring)"
  by (rule ca55_block_prefix[OF demo_ring_wf, THEN conjunct1]) (simp_all add: demo_ring_def)

section \<open>The pool of streams\<close>

abbreviation stream_live :: "logger_shm_ctrl \<Rightarrow> bool" where
  "stream_live c \<equiv> sc_magic c = LOG_SHM_MAGIC \<and> 0 \<le> sc_active_fd c"

interpretation stream_pool: slot_pool stream_live "\<lambda>fd. 0 \<le> fd" shm_open_stream ca55_close_stream
  by unfold_locales (simp_all add: shm_open_stream_def ca55_close_stream_def)

text \<open>Each stream has its array; an initialised one is well formed; live streams
  have different descriptors.\<close>

definition pool_wf :: "logger_shm \<Rightarrow> bool" where
  "pool_wf l \<longleftrightarrow> length (shm_streams l) = RZV_SDRAM_LOGGER_STREAM_COUNT \<and>
     length (last_kick_head l) = RZV_SDRAM_LOGGER_STREAM_COUNT \<and>
     (\<forall>c\<in>set (shm_streams l). length (sc_data c) = RZV_SDRAM_LOGGER_BUF_SIZE \<and>
        (sc_magic c = LOG_SHM_MAGIC \<longrightarrow> shm_wf c)) \<and>
     (\<forall>i<RZV_SDRAM_LOGGER_STREAM_COUNT. \<forall>j<RZV_SDRAM_LOGGER_STREAM_COUNT.
        stream_live (shm_streams l ! i) \<and> stream_live (shm_streams l ! j) \<and>
        sc_active_fd (shm_streams l ! i) = sc_active_fd (shm_streams l ! j) \<longrightarrow> i = j)"

lemma opened_wf: "length (sc_data c) = RZV_SDRAM_LOGGER_BUF_SIZE \<Longrightarrow>
    shm_wf (shm_open_stream fd c) \<and> shm_contents (shm_open_stream fd c) = []"
  by (simp add: shm_open_stream_def shm_wf_def shm_contents_def)

lemma get_shm_stream_Some:
  assumes "get_shm_stream fd ss = (Some i, ss')"
  shows "i < length ss \<and> sc_magic (ss' ! i) = LOG_SHM_MAGIC \<and> sc_active_fd (ss' ! i) = fd \<and>
    (ss' = ss \<or> \<not> stream_live (ss ! i) \<and> ss' = ss[i := shm_open_stream fd (ss ! i)] \<and>
       (\<forall>c\<in>set ss. sc_magic c = LOG_SHM_MAGIC \<longrightarrow> sc_active_fd c \<noteq> fd))"
  using assms
  by (auto simp: get_shm_stream_def find_index_None_iff shm_open_stream_def not_le
      split: option.splits dest!: find_index_SomeD)

lemma get_shm_stream_None:
  assumes "0 \<le> fd"
  shows "fst (get_shm_stream fd ss) = None \<longleftrightarrow> (\<forall>c\<in>set ss. stream_live c \<and> sc_active_fd c \<noteq> fd)"
proof -
  have "fst (get_shm_stream fd ss) = None \<longleftrightarrow>
      find_index (\<lambda>c. sc_magic c = LOG_SHM_MAGIC \<and> sc_active_fd c = fd) ss = None \<and>
      find_index (\<lambda>c. sc_magic c \<noteq> LOG_SHM_MAGIC \<or> sc_active_fd c < 0) ss = None"
    by (simp add: get_shm_stream_def split: option.splits)
  then show ?thesis by (auto simp: find_index_None_iff not_less)
qed

lemma pool_update_wf:
  assumes "pool_wf l" "i < 2" "length (sc_data c) = RZV_SDRAM_LOGGER_BUF_SIZE" "shm_wf c"
    and "\<And>j. j < 2 \<Longrightarrow> j \<noteq> i \<Longrightarrow> stream_live (shm_streams l ! j) \<Longrightarrow> sc_active_fd (shm_streams l ! j) \<noteq> sc_active_fd c"
  shows "pool_wf (l\<lparr>shm_streams := (shm_streams l)[i := c]\<rparr>)"
proof -
  have len: "length (shm_streams l) = 2" "length (last_kick_head l) = 2" using assms(1) by (simp_all add: pool_wf_def)
  have "\<forall>x\<in>set ((shm_streams l)[i := c]). length (sc_data x) = RZV_SDRAM_LOGGER_BUF_SIZE \<and>
      (sc_magic x = LOG_SHM_MAGIC \<longrightarrow> shm_wf x)"
    using assms(1,3,4) set_update_subset_insert[of "shm_streams l" i c] by (auto simp: pool_wf_def)
  moreover have "a = b"
    if "a < 2" "b < 2" "stream_live ((shm_streams l)[i := c] ! a)" "stream_live ((shm_streams l)[i := c] ! b)"
      "sc_active_fd ((shm_streams l)[i := c] ! a) = sc_active_fd ((shm_streams l)[i := c] ! b)" for a b
  proof (cases "a = i \<or> b = i")
    case True
    then show ?thesis using that len assms(5)[of a] assms(5)[of b] by (cases "a = i"; cases "b = i") simp_all
  next
    case False
    then show ?thesis using that len assms(1) by (simp add: pool_wf_def)
  qed
  ultimately show ?thesis using len by (simp add: pool_wf_def)
qed

text \<open>The abstract view of the pool: the unread bytes of each descriptor.\<close>

definition fd_contents :: "int \<Rightarrow> logger_shm \<Rightarrow> bytes" where
  "fd_contents fd l =
     (case find_index (\<lambda>c. sc_magic c = LOG_SHM_MAGIC \<and> sc_active_fd c = fd) (shm_streams l) of
        Some i \<Rightarrow> shm_contents (shm_streams l ! i) | None \<Rightarrow> [])"

lemma fd_contents_at:
  assumes "pool_wf l" "i < 2" "0 \<le> fd" "sc_magic (shm_streams l ! i) = LOG_SHM_MAGIC"
    "sc_active_fd (shm_streams l ! i) = fd"
  shows "fd_contents fd l = shm_contents (shm_streams l ! i)"
proof -
  let ?P = "\<lambda>c. sc_magic c = LOG_SHM_MAGIC \<and> sc_active_fd c = fd"
  have len: "length (shm_streams l) = 2" using assms(1) by (simp add: pool_wf_def)
  obtain j where j: "find_index ?P (shm_streams l) = Some j"
    using assms(2,4,5) len by (cases "find_index ?P (shm_streams l)") (auto simp: find_index_None_iff)
  from find_index_SomeD[OF j] len have "j < 2" "?P (shm_streams l ! j)" by simp_all
  then have "j = i" using assms by (simp add: pool_wf_def)
  then show ?thesis by (simp add: fd_contents_def j)
qed

lemma fd_contents_other:
  assumes "pool_wf l" "i < 2" "0 \<le> fd'" "sc_active_fd c \<noteq> fd'"
    and "sc_magic (shm_streams l ! i) = LOG_SHM_MAGIC \<Longrightarrow> sc_active_fd (shm_streams l ! i) \<noteq> fd'"
  shows "fd_contents fd' (l\<lparr>shm_streams := (shm_streams l)[i := c], last_kick_head := k\<rparr>) = fd_contents fd' l"
proof -
  let ?P = "\<lambda>c. sc_magic c = LOG_SHM_MAGIC \<and> sc_active_fd c = fd'"
  have len: "length (shm_streams l) = 2" using assms(1) by (simp add: pool_wf_def)
  have eq: "find_index ?P ((shm_streams l)[i := c]) = find_index ?P (shm_streams l)"
    using assms(4,5) by (intro find_index_cong) (auto simp: nth_update_if)
  have "j \<noteq> i" if "find_index ?P (shm_streams l) = Some j" for j
    using find_index_SomeD[OF that] assms(5) by auto
  then show ?thesis by (auto simp: fd_contents_def eq split: option.splits)
qed

lemma pool_wf_kick: "pool_wf l \<Longrightarrow> length k = 2 \<Longrightarrow> pool_wf (l\<lparr>last_kick_head := k\<rparr>)"
  by (simp add: pool_wf_def)

lemma write_shape:
  assumes wf: "pool_wf l" and fd: "0 \<le> fd" and g: "get_shm_stream fd (shm_streams l) = (Some i, ss)"
  shows "\<exists>msgs k. rzv_logger_stream_write fd b l =
      Ret (int (length b), msgs, l\<lparr>shm_streams := (shm_streams l)[i := snd (shm_put b (ss ! i))], last_kick_head := k\<rparr>) \<and>
    length k = 2 \<and> (msgs = [] \<or> msgs = [log_stream_hdr LOG_STREAM_MSG_KICK fd]) \<and>
    shm_wf (ss ! i) \<and> length (sc_data (ss ! i)) = RZV_SDRAM_LOGGER_BUF_SIZE \<and>
    shm_contents (ss ! i) = fd_contents fd l"
proof -
  note s = get_shm_stream_Some[OF g]
  have len: "length (shm_streams l) = 2" "length (last_kick_head l) = 2" using wf by (simp_all add: pool_wf_def)
  then have i: "i < 2" using s by simp
  then have "shm_streams l ! i \<in> set (shm_streams l)" using len by simp
  then have old: "length (sc_data (shm_streams l ! i)) = RZV_SDRAM_LOGGER_BUF_SIZE"
    "sc_magic (shm_streams l ! i) = LOG_SHM_MAGIC \<Longrightarrow> shm_wf (shm_streams l ! i)"
    using wf by (simp_all add: pool_wf_def)
  have c: "shm_wf (ss ! i) \<and> length (sc_data (ss ! i)) = RZV_SDRAM_LOGGER_BUF_SIZE \<and>
      shm_contents (ss ! i) = fd_contents fd l"
  proof (cases "ss = shm_streams l")
    case True
    then show ?thesis using s old fd_contents_at[OF wf i fd] by simp
  next
    case False
    then have ss: "ss = (shm_streams l)[i := shm_open_stream fd (shm_streams l ! i)]"
      and none: "\<forall>c\<in>set (shm_streams l). sc_magic c = LOG_SHM_MAGIC \<longrightarrow> sc_active_fd c \<noteq> fd"
      using s by auto
    have "fd_contents fd l = []"
      using none by (auto simp: fd_contents_def split: option.splits dest!: find_index_SomeD)
    then show ?thesis using opened_wf[OF old(1), of fd] old(1) i len
      by (simp add: ss) (simp add: shm_open_stream_def)
  qed
  have "ss = shm_streams l \<or> (\<exists>y. ss = (shm_streams l)[i := y])" using s by metis
  then have upd: "ss[i := x] = (shm_streams l)[i := x]" for x by auto
  have "\<exists>msgs k. rzv_logger_stream_write fd b l =
      Ret (int (length b), msgs, l\<lparr>shm_streams := (shm_streams l)[i := snd (shm_put b (ss ! i))], last_kick_head := k\<rparr>) \<and>
    length k = 2 \<and> (msgs = [] \<or> msgs = [log_stream_hdr LOG_STREAM_MSG_KICK fd])"
  proof (cases "unat (shm_free_space (ss ! i)) < length b")
    case True
    then show ?thesis using len
      by (intro exI[of _ "[]"] exI[of _ "last_kick_head l"])
         (simp add: rzv_logger_stream_write_def g upd shm_put_def Let_def)
  next
    case False
    then obtain c' where c': "shm_append b (ss ! i) = Ret c'"
      using append_ret[of "ss ! i" b] c by (auto simp: free_space_nat)
    show ?thesis
    proof (cases "shm_kick_due (last_kick_head l ! i) c'")
      case True
      then show ?thesis using False len c'
        by (intro exI[of _ "[log_stream_hdr LOG_STREAM_MSG_KICK fd]"] exI[of _ "(last_kick_head l)[i := sc_head c']"])
           (simp add: rzv_logger_stream_write_def g upd shm_put_def Let_def)
    next
      case no: False
      then show ?thesis using False len c'
        by (intro exI[of _ "[]"] exI[of _ "last_kick_head l"])
           (simp add: rzv_logger_stream_write_def g upd shm_put_def Let_def)
    qed
  qed
  then show ?thesis using c by blast
qed

text \<open>Whatever the descriptor, a stream write returns 0 or the full length.\<close>

lemma stream_write_returns:
  assumes wf: "pool_wf l"
  shows "\<exists>r msgs l'. rzv_logger_stream_write fd b l = Ret (r, msgs, l') \<and> (r = 0 \<or> r = int (length b))"
proof (cases "get_shm_stream fd (shm_streams l)")
  case (Pair r ss)
  show ?thesis
  proof (cases r)
    case None
    then show ?thesis by (simp add: rzv_logger_stream_write_def Pair)
  next
    case (Some i)
    note s = get_shm_stream_Some[OF Pair[unfolded Some]]
    have len: "length (shm_streams l) = 2" using wf by (simp add: pool_wf_def)
    then have "shm_streams l ! i \<in> set (shm_streams l)" using s by simp
    then have old: "length (sc_data (shm_streams l ! i)) = RZV_SDRAM_LOGGER_BUF_SIZE"
      "sc_magic (shm_streams l ! i) = LOG_SHM_MAGIC \<Longrightarrow> shm_wf (shm_streams l ! i)"
      using wf by (simp_all add: pool_wf_def)
    have c: "shm_wf (ss ! i)"
      using s old(2) opened_wf[OF old(1), of fd] len by (cases "ss = shm_streams l") auto
    show ?thesis
    proof (cases "unat (shm_free_space (ss ! i)) < length b")
      case True
      then show ?thesis by (simp add: rzv_logger_stream_write_def Pair Some Let_def)
    next
      case False
      then obtain c' where "shm_append b (ss ! i) = Ret c'"
        using append_ret[OF c, of b] by (auto simp: free_space_nat[OF c])
      then show ?thesis using False by (simp add: rzv_logger_stream_write_def Pair Some Let_def)
    qed
  qed
qed

lemma put_fields:
  "sc_magic (snd (shm_put b c)) = sc_magic c" "sc_active_fd (snd (shm_put b c)) = sc_active_fd c"
  "shm_wf c \<Longrightarrow> length (sc_data (snd (shm_put b c))) = length (sc_data c)"
proof -
  show "sc_magic (snd (shm_put b c)) = sc_magic c" "sc_active_fd (snd (shm_put b c)) = sc_active_fd c"
    by (auto simp: shm_put_def shm_append_def Let_def split: exec.splits if_splits)
  assume wf: "shm_wf c"
  show "length (sc_data (snd (shm_put b c))) = length (sc_data c)"
  proof (cases "length b \<le> length (sc_data c) - 1 - length (shm_contents c)")
    case True
    from append_shape[OF wf True] show ?thesis using True by (auto simp: shm_put_def free_space_nat[OF wf])
  next
    case False
    then show ?thesis by (simp add: shm_put_def free_space_nat[OF wf])
  qed
qed

lemma stream_write_effect:
  assumes wf: "pool_wf l" and fd: "0 \<le> fd"
  shows "if \<forall>c\<in>set (shm_streams l). stream_live c \<and> sc_active_fd c \<noteq> fd
    then rzv_logger_stream_write fd b l = Ret (0, [], l)
    else \<exists>msgs l'. rzv_logger_stream_write fd b l = Ret (int (length b), msgs, l') \<and> pool_wf l' \<and>
      (msgs = [] \<or> msgs = [log_stream_hdr LOG_STREAM_MSG_KICK fd]) \<and>
      fd_contents fd l' =
        (if length b \<le> RZV_SDRAM_LOGGER_BUF_SIZE - 1 - length (fd_contents fd l)
         then fd_contents fd l @ b else fd_contents fd l) \<and>
      (\<forall>fd'. 0 \<le> fd' \<and> fd' \<noteq> fd \<longrightarrow> fd_contents fd' l' = fd_contents fd' l)"
proof (cases "fst (get_shm_stream fd (shm_streams l))")
  case None
  then have "get_shm_stream fd (shm_streams l) = (None, shm_streams l)"
    by (auto simp: get_shm_stream_def split: option.splits)
  then have "rzv_logger_stream_write fd b l = Ret (0, [], l)" by (simp add: rzv_logger_stream_write_def)
  moreover have "\<forall>c\<in>set (shm_streams l). stream_live c \<and> sc_active_fd c \<noteq> fd"
    using get_shm_stream_None[OF fd, of "shm_streams l"] None by simp
  ultimately show ?thesis by (simp only: if_P)
next
  case (Some i)
  then obtain ss where g: "get_shm_stream fd (shm_streams l) = (Some i, ss)" by (metis prod.collapse)
  note s = get_shm_stream_Some[OF g]
  have len: "length (shm_streams l) = 2" using wf by (simp add: pool_wf_def)
  then have i: "i < 2" using s by simp
  let ?c = "snd (shm_put b (ss ! i))"
  obtain msgs k where w: "rzv_logger_stream_write fd b l =
      Ret (int (length b), msgs, l\<lparr>shm_streams := (shm_streams l)[i := ?c], last_kick_head := k\<rparr>)"
    and k: "length k = 2" and m: "msgs = [] \<or> msgs = [log_stream_hdr LOG_STREAM_MSG_KICK fd]"
    and cwf: "shm_wf (ss ! i)" and cl: "length (sc_data (ss ! i)) = RZV_SDRAM_LOGGER_BUF_SIZE"
    and cc: "shm_contents (ss ! i) = fd_contents fd l"
    using write_shape[OF wf fd g, of b] by blast
  let ?l' = "l\<lparr>shm_streams := (shm_streams l)[i := ?c], last_kick_head := k\<rparr>"
  note p = put_cases[OF cwf, of b]
  have c: "sc_magic ?c = LOG_SHM_MAGIC" "sc_active_fd ?c = fd" "length (sc_data ?c) = RZV_SDRAM_LOGGER_BUF_SIZE"
    using s cl put_fields(1,2)[of b "ss ! i"] put_fields(3)[of "ss ! i" b] cwf by simp_all
  have others: "sc_active_fd (shm_streams l ! j) \<noteq> fd" if "j < 2" "j \<noteq> i" "stream_live (shm_streams l ! j)" for j
  proof (cases "ss = shm_streams l")
    case True
    then show ?thesis using that s wf i fd by (auto simp: pool_wf_def)
  next
    case False
    then show ?thesis using that s len by auto
  qed
  have "pool_wf (l\<lparr>shm_streams := (shm_streams l)[i := ?c]\<rparr>)"
    using pool_update_wf[OF wf i c(3)] p others c(2) by blast
  from pool_wf_kick[OF this k] have wf': "pool_wf ?l'" by simp
  have "fd_contents fd ?l' = shm_contents ?c"
    using fd_contents_at[OF wf' i fd] c i len by simp
  then have fc: "fd_contents fd ?l' = (if length b \<le> RZV_SDRAM_LOGGER_BUF_SIZE - 1 - length (fd_contents fd l)
       then fd_contents fd l @ b else fd_contents fd l)"
    using p by (simp add: cl cc)
  have "fd_contents fd' ?l' = fd_contents fd' l" if "0 \<le> fd'" "fd' \<noteq> fd" for fd'
    using that s c(2) by (intro fd_contents_other[OF wf i]) auto
  moreover have "\<not> (\<forall>c\<in>set (shm_streams l). stream_live c \<and> sc_active_fd c \<noteq> fd)"
    using get_shm_stream_None[OF fd, of "shm_streams l"] Some by simp
  ultimately show ?thesis using w wf' m fc by auto
qed

text \<open>C24: A stream write implements an append to the descriptor's own byte stream:
  with a stream available it reports the full length, and the descriptor's
  unread bytes grow by the whole block when it fits in the 262111 bytes of
  the ring, or stay as they are (the block is dropped as a whole); no other
  descriptor's bytes change, no access leaves the shared region, and only when
  both streams are live for other descriptors is 0 returned and nothing done.\<close>

theorem stream_write_refines_append:
  assumes wf: "pool_wf l" and fd: "0 \<le> fd"
  shows "if \<forall>c\<in>set (shm_streams l). stream_live c \<and> sc_active_fd c \<noteq> fd
    then rzv_logger_stream_write fd b l = Ret (0, [], l)
    else \<exists>msgs l'. rzv_logger_stream_write fd b l = Ret (int (length b), msgs, l') \<and> pool_wf l' \<and>
      (msgs = [] \<or> msgs = [log_stream_hdr LOG_STREAM_MSG_KICK fd]) \<and>
      fd_contents fd l' =
        (if length b \<le> RZV_SDRAM_LOGGER_BUF_SIZE - 1 - length (fd_contents fd l)
         then fd_contents fd l @ b else fd_contents fd l) \<and>
      (\<forall>fd'. 0 \<le> fd' \<and> fd' \<noteq> fd \<longrightarrow> fd_contents fd' l' = fd_contents fd' l)"
  by (rule stream_write_effect[OF assms])

definition demo_pool :: logger_shm where
  "demo_pool = \<lparr>shm_streams = replicate 2 \<lparr>sc_magic = 0, sc_buffer_size = 0, sc_head = 0, sc_tail = 0,
     sc_dropped_bytes = 0, sc_active_fd = 0, sc_data = replicate RZV_SDRAM_LOGGER_BUF_SIZE 0\<rparr>,
     last_kick_head = [0, 0]\<rparr>"

lemma demo_pool_wf: "pool_wf demo_pool"
  by (simp add: pool_wf_def demo_pool_def less_2_cases_iff)

theorem stream_write_refines_append_witness:
  "\<exists>msgs l'. rzv_logger_stream_write 7 [1, 2, 3] demo_pool = Ret (3, msgs, l') \<and> fd_contents 7 l' = [1, 2, 3]"
proof -
  have no: "\<not> (\<forall>c\<in>set (shm_streams demo_pool). stream_live c \<and> sc_active_fd c \<noteq> 7)"
    by (simp add: demo_pool_def)
  have "fd_contents 7 demo_pool = []"
    by (simp add: fd_contents_def demo_pool_def numeral_2_eq_2)
  then show ?thesis
    using stream_write_refines_append[OF demo_pool_wf, of 7 "[1, 2, 3]"] unfolding if_not_P[OF no] by auto
qed

end
