(* ===== verification/Fs_Rpc.thy ===== *)
theory Fs_Rpc
  imports Rpc_Client_Liveness Logger_Fds Logger_Shm
begin

text \<open>
  The transport of the remote file system (\<open>fs\<open>_\<close>rpc\<close> and its callers' common parts
  in src/rpc/remote\<open>_\<close>storage\<open>_\<close>rpc.c): up to three timed calls, with a pause of
  200 ms after a transient failure.  The report of slow calls is printed only;
  its clock reads are part of the model, its rate limit is not.
\<close>

section \<open>State and environment\<close>

record 'w fs_env =
  fe_rpc :: "'w rpc_os"
  fe_logger_rdev :: "'w \<Rightarrow> bool"
  fe_logger_dest :: "'w \<Rightarrow> 32 word"
  fe_logger_send :: "bytes \<Rightarrow> 'w \<Rightarrow> 'w"
  fe_task_delay :: "nat \<Rightarrow> 'w \<Rightarrow> rpc_event list \<times> 'w"

type_synonym rpc_values = "(32 word \<times> 32 word) option"

abbreviation (input) FS_RPC_TIMEOUT_MS :: nat where "FS_RPC_TIMEOUT_MS \<equiv> 2000"
abbreviation (input) FS_RPC_RETRY_DELAY_US :: nat where "FS_RPC_RETRY_DELAY_US \<equiv> 200000"
abbreviation (input) FS_RPC_MAX_ATTEMPTS :: nat where "FS_RPC_MAX_ATTEMPTS \<equiv> 3"
abbreviation (input) FS_RPC_SLOW_THRESHOLD_US :: nat where "FS_RPC_SLOW_THRESHOLD_US \<equiv> 150000"

text \<open>Events while this thread owns no slot.\<close>

abbreviation run_free :: "rpc_event list \<Rightarrow> rpc_client \<Rightarrow> rpc_client" where
  "run_free \<equiv> rpc_run_events MAX_PENDING_RPC"

section \<open>Attempts\<close>

definition fs_rpc_transient :: "int \<Rightarrow> bool" where
  "fs_rpc_transient saved_errno \<longleftrightarrow> saved_errno = ETIMEDOUT \<or> saved_errno = EAGAIN \<or> saved_errno = EBUSY"

definition fs_rpc_call ::
  "'w rpc_os \<Rightarrow> nat \<Rightarrow> 16 word \<Rightarrow> bytes option \<Rightarrow> nat \<Rightarrow> nat option \<Rightarrow> nat \<Rightarrow> nat option
   \<Rightarrow> 'w rpc_state \<Rightarrow> (int \<times> rpc_values \<times> 'w rpc_state) exec"
where
  "fs_rpc_call os fuel opcode payload payload_len buf cap lo st =
     px4_openamp_rpc_call_timeout os fuel (rpc_category_code PX4_RPC_CATEGORY_FS) opcode
       payload payload_len buf cap lo FS_RPC_TIMEOUT_MS st"

text \<open>The \<open>for\<close> loop with \<open>n\<close> attempts left.  The first component is the value of an
  early return.\<close>

fun fs_rpc_attempts ::
  "'w rpc_os \<Rightarrow> nat \<Rightarrow> 16 word \<Rightarrow> bytes option \<Rightarrow> nat \<Rightarrow> nat option \<Rightarrow> nat \<Rightarrow> nat option \<Rightarrow> nat \<Rightarrow> int
   \<Rightarrow> 'w rpc_state \<Rightarrow> (int option \<times> int \<times> rpc_values \<times> int \<times> 'w rpc_state) exec"
where
  "fs_rpc_attempts os fuel opcode payload payload_len buf cap lo 0 saved_errno st =
     Ret (None, - 1, None, saved_errno, st)"
| "fs_rpc_attempts os fuel opcode payload payload_len buf cap lo (Suc n) saved_errno st =
     exec_bind (fs_rpc_call os fuel opcode payload payload_len buf cap lo st)
      (\<lambda>(call_ret, outs, st1).
        if call_ret = 0 then Ret (None, 0, outs, saved_errno, st1)
        else let saved = err st1 in
        if fs_rpc_transient saved then
          if \<not> px4_openamp_rpc_endpoint_ready os (world st1) then Ret (Some (- ENOTCONN), call_ret, None, saved, st1)
          else (case os_usleep os FS_RPC_RETRY_DELAY_US (world st1) of (evs, w2) \<Rightarrow>
                fs_rpc_attempts os fuel opcode payload payload_len buf cap lo n saved
                  (st1\<lparr>cl := run_free evs (cl st1), world := w2\<rparr>))
        else Ret (Some (if saved \<noteq> 0 then - saved else - EIO), call_ret, None, saved, st1))"

definition elapsed_us :: "nat \<times> nat \<Rightarrow> nat \<times> nat \<Rightarrow> nat" where
  "elapsed_us s e =
     (let sec_diff = int (fst e) - int (fst s);
          nsec_diff = int (snd e) - int (snd s);
          sec' = (if nsec_diff < 0 then sec_diff - 1 else sec_diff);
          nsec' = (if nsec_diff < 0 then nsec_diff + 1000000000 else nsec_diff)
      in nat ((sec' * 1000000 + nsec' div 1000) mod 2 ^ 64))"

definition fs_rpc ::
  "'w rpc_os \<Rightarrow> nat \<Rightarrow> 16 word \<Rightarrow> bytes option \<Rightarrow> nat \<Rightarrow> nat option \<Rightarrow> nat \<Rightarrow> nat option
   \<Rightarrow> 'w rpc_state \<Rightarrow> (int \<times> rpc_values \<times> 'w rpc_state) exec"
where
  "fs_rpc os fuel opcode payload payload_len buf cap lo st =
    (if \<not> px4_openamp_rpc_endpoint_ready os (world st) then Ret (- ENOTCONN, None, st)
     else case os_clock os (world st) of ((_, start_ts), w0) \<Rightarrow>
     exec_bind (fs_rpc_attempts os fuel opcode payload payload_len buf cap lo FS_RPC_MAX_ATTEMPTS 0 (st\<lparr>world := w0\<rparr>))
      (\<lambda>(early, call_ret, outs, saved_errno, st1).
        case early of
          Some r \<Rightarrow> Ret (r, None, st1)
        | None \<Rightarrow>
           (case os_clock os (world st1) of ((_, end_ts), w1) \<Rightarrow>
            let w2 = (if elapsed_us start_ts end_ts > FS_RPC_SLOW_THRESHOLD_US
                      then snd (os_clock os w1) else w1);
                st2 = st1\<lparr>world := w2\<rparr> in
            if call_ret < 0 then
              Ret (if saved_errno \<noteq> 0 then - saved_errno
                   else if err st2 \<noteq> 0 then - err st2 else - EIO, None, st2)
            else Ret (0, outs, st2))))"

section \<open>Properties of the attempts\<close>

text \<open>The answer of \<open>fs_rpc\<close> as its callers use it: the two values on success, the
  initial -1 and 0 otherwise.\<close>

definition rpc_values_or_default :: "rpc_values \<Rightarrow> 32 word \<times> 32 word" where
  "rpc_values_or_default v = (case v of Some p \<Rightarrow> p | None \<Rightarrow> (- 1, 0))"

lemma fs_rpc_call_result:
  assumes "fs_rpc_call os fuel op p n buf cap lo st = Ret (rc, outs, st')"
  shows "rc = 0 \<and> outs \<noteq> None \<and> err st' = err st \<or> rc = - 1 \<and> outs = None \<and> 0 < err st'"
  using call_error_cases[OF assms[unfolded fs_rpc_call_def]] call_errno_pos[OF assms[unfolded fs_rpc_call_def]]
  by auto

lemma attempts_result:
  "fs_rpc_attempts os fuel op p n buf cap lo k saved st = Ret (early, rc, outs, saved', st') \<Longrightarrow>
   (early = None \<and> rc = 0 \<and> outs \<noteq> None) \<or>
   (early = None \<and> rc = - 1 \<and> outs = None \<and> (0 < k \<longrightarrow> fs_rpc_transient saved')) \<or>
   (rc = - 1 \<and> outs = None \<and> 0 < saved' \<and>
      early = Some (if fs_rpc_transient saved' then - ENOTCONN else - saved'))"
proof (induction k arbitrary: saved st)
  case (Suc k)
  from Suc.prems obtain c o1 s1 where call: "fs_rpc_call os fuel op p n buf cap lo st = Ret (c, o1, s1)"
    by (auto simp: exec_bind_Ret_iff)
  note res = fs_rpc_call_result[OF call]
  show ?case
  proof (cases "c = 0")
    case True
    then show ?thesis using Suc.prems res by (simp add: call)
  next
    case False
    then have c: "c = - 1" "o1 = None" "0 < err s1" using res by simp_all
    show ?thesis
    proof (cases "fs_rpc_transient (err s1) \<and> px4_openamp_rpc_endpoint_ready os (world s1)")
      case True
      obtain evs w2 where u: "os_usleep os 200000 (world s1) = (evs, w2)" by fastforce
      have rec: "fs_rpc_attempts os fuel op p n buf cap lo k (err s1)
          (s1\<lparr>cl := run_free evs (cl s1), world := w2\<rparr>) = Ret (early, rc, outs, saved', st')"
        using Suc.prems c True by (simp add: call u Let_def)
      show ?thesis
      proof (cases k)
        case 0
        then show ?thesis using rec True by auto
      next
        case (Suc j)
        then show ?thesis using Suc.IH[OF rec] by auto
      qed
    next
      case stop: False
      then show ?thesis using Suc.prems c by (auto simp: call Let_def split: if_splits)
    qed
  qed
qed simp

lemma transient_pos: "fs_rpc_transient e \<Longrightarrow> 0 < e"
  by (auto simp: fs_rpc_transient_def)

lemma fs_rpc_rc:
  assumes "fs_rpc os fuel op p n buf cap lo st = Ret (rc, outs, st')"
  shows "rc = 0 \<and> outs \<noteq> None \<or> rc < 0 \<and> outs = None"
proof -
  obtain ts w0 e where k: "os_clock os (world st) = ((e, ts), w0)" by (metis surj_pair)
  show ?thesis
  proof (cases "px4_openamp_rpc_endpoint_ready os (world st)")
    case False
    then show ?thesis using assms by (simp add: fs_rpc_def)
  next
    case True
    with assms obtain early c o1 saved s1 where
      a: "fs_rpc_attempts os fuel op p n buf cap lo 3 0 (st\<lparr>world := w0\<rparr>) = Ret (early, c, o1, saved, s1)"
      by (auto simp: fs_rpc_def k exec_bind_Ret_iff)
    from attempts_result[OF a] transient_pos[of saved] assms True show ?thesis
      by (auto simp: fs_rpc_def k a Let_def split: if_splits prod.splits)
  qed
qed

end
