(* ===== verification/Fs_Ops.thy ===== *)
theory Fs_Ops
  imports Fs_Rpc
begin

text \<open>
  The remote file operations (src/rpc/remote\<open>_\<close>storage\<open>_\<close>rpc.c): each builds the
  request structure and the path into a payload, calls \<open>fs\<open>_\<close>rpc\<close> and maps the
  outcome to a return value.  A C string is the list of its bytes without the
  terminating zero; a NULL pointer is \<open>None\<close>.  Response buffers and
  \<open>response\<open>_\<close>len\<close> variables on the C stack are addresses of the client's store.
\<close>

section \<open>State\<close>

record 'w fs_state =
  fs_rpcs :: "'w rpc_state"
  fs_fds :: logger_fds
  fs_shm :: logger_shm

definition set_errno :: "int \<Rightarrow> 'w fs_state \<Rightarrow> 'w fs_state" where
  "set_errno e st = st\<lparr>fs_rpcs := (fs_rpcs st)\<lparr>err := e\<rparr>\<rparr>"

abbreviation fs_errno :: "'w fs_state \<Rightarrow> int" where "fs_errno st \<equiv> err (fs_rpcs st)"
abbreviation fs_world :: "'w fs_state \<Rightarrow> 'w" where "fs_world st \<equiv> world (fs_rpcs st)"
abbreviation fs_mem :: "'w fs_state \<Rightarrow> nat \<Rightarrow> bytes" where "fs_mem st \<equiv> c_mem (cl (fs_rpcs st))"
abbreviation fs_len :: "'w fs_state \<Rightarrow> nat \<Rightarrow> nat" where "fs_len st \<equiv> c_sizes (cl (fs_rpcs st))"

definition set_world :: "'w \<Rightarrow> 'w fs_state \<Rightarrow> 'w fs_state" where
  "set_world w st = st\<lparr>fs_rpcs := (fs_rpcs st)\<lparr>world := w\<rparr>\<rparr>"

text \<open>Initialisation of local variables.\<close>

definition set_len :: "nat \<Rightarrow> nat \<Rightarrow> 'w fs_state \<Rightarrow> 'w fs_state" where
  "set_len l n st = st\<lparr>fs_rpcs := (fs_rpcs st)\<lparr>cl := (cl (fs_rpcs st))\<lparr>c_sizes := (fs_len st)(l := n)\<rparr>\<rparr>\<rparr>"

definition set_mem :: "nat \<Rightarrow> bytes \<Rightarrow> 'w fs_state \<Rightarrow> 'w fs_state" where
  "set_mem b d st = st\<lparr>fs_rpcs := (fs_rpcs st)\<lparr>cl := (cl (fs_rpcs st))\<lparr>c_mem := (fs_mem st)(b := d)\<rparr>\<rparr>\<rparr>"

section \<open>Common parts\<close>

text \<open>\<open>fs\<open>_\<close>rpc\<close> with \<open>ret\<open>_\<close>val = -1\<close> and \<open>err\<open>_\<close>val = 0\<close> initially.\<close>

definition fs_direct ::
  "'w fs_env \<Rightarrow> nat \<Rightarrow> px4_rpc_fs_op \<Rightarrow> bytes \<Rightarrow> nat option \<Rightarrow> nat \<Rightarrow> nat option \<Rightarrow> 'w fs_state
   \<Rightarrow> (int \<times> 32 word \<times> 32 word \<times> 'w fs_state) exec"
where
  "fs_direct env fuel op payload buf cap lo st =
     exec_bind (fs_rpc (fe_rpc env) fuel (rpc_fs_code op) (Some payload) (length payload) buf cap lo (fs_rpcs st))
      (\<lambda>(rc, outs, r). case rpc_values_or_default outs of (ret_val, err_val) \<Rightarrow>
        Ret (rc, ret_val, err_val, st\<lparr>fs_rpcs := r\<rparr>))"

text \<open>The same with a payload that is built in a stack buffer of \<open>limit\<close> bytes or,
  when it is longer, in allocated memory.  \<open>None\<close> means that \<open>malloc\<close> failed.\<close>

definition fs_request ::
  "'w fs_env \<Rightarrow> nat \<Rightarrow> nat \<Rightarrow> px4_rpc_fs_op \<Rightarrow> bytes \<Rightarrow> nat option \<Rightarrow> nat \<Rightarrow> nat option \<Rightarrow> 'w fs_state
   \<Rightarrow> ((int \<times> 32 word \<times> 32 word) option \<times> 'w fs_state) exec"
where
  "fs_request env fuel limit op payload buf cap lo st =
     (if length payload > limit then
        (case os_malloc (fe_rpc env) (length payload) (fs_world st) of
           (None, w) \<Rightarrow> Ret (None, set_world w st)
         | (Some _, w) \<Rightarrow>
             exec_bind (fs_direct env fuel op payload buf cap lo (set_world w st))
               (\<lambda>(rc, rv, ev, st'). Ret (Some (rc, rv, ev), set_world (os_free (fe_rpc env) (fs_world st')) st')))
      else exec_bind (fs_direct env fuel op payload buf cap lo st)
             (\<lambda>(rc, rv, ev, st'). Ret (Some (rc, rv, ev), st')))"

text \<open>\<open>(errno != 0) ? -errno : -EIO\<close>\<close>

definition errno_or_EIO :: "'w fs_state \<Rightarrow> int" where
  "errno_or_EIO st = (if fs_errno st \<noteq> 0 then - fs_errno st else - EIO)"

definition translate_rpc_error :: "32 word \<Rightarrow> int" where
  "translate_rpc_error err_val = (if err_val = 0 then 0 else - sint err_val)"

definition c_string :: "bytes \<Rightarrow> bytes" where "c_string path = path @ [0]"

definition path_too_long :: "bytes \<Rightarrow> bool" where
  "path_too_long path \<longleftrightarrow> length (c_string path) > 4294967295"

definition path_len32 :: "bytes \<Rightarrow> bytes" where
  "path_len32 path = le32 (of_nat (length (c_string path)))"

definition int32 :: "int \<Rightarrow> bytes" where "int32 x = le32 (of_int x)"

text \<open>The tail of the operations that take a path and return only an error code.\<close>

definition path_status ::
  "((int \<times> 32 word \<times> 32 word) option \<times> 'w fs_state) exec \<Rightarrow> (int \<times> 'w fs_state) exec"
where
  "path_status m = exec_bind m (\<lambda>(r, st'). case r of
       None \<Rightarrow> Ret (- ENOMEM, st')
     | Some (rpc_ret, ret_val, err_val) \<Rightarrow>
         if rpc_ret < 0 then Ret (errno_or_EIO st', st')
         else Ret (translate_rpc_error err_val, st'))"

section \<open>Opening and logger descriptors\<close>

definition logger_stream_ready :: "'w fs_env \<Rightarrow> 'w \<Rightarrow> bool" where
  "logger_stream_ready env w = (fe_logger_rdev env w \<and> fe_logger_dest env w \<noteq> RPMSG_ADDR_ANY)"

definition logger_fd_use_stream :: "'w fs_env \<Rightarrow> int \<Rightarrow> 'w fs_state \<Rightarrow> bool" where
  "logger_fd_use_stream env fd st = (is_logger_fd fd (fs_fds st) \<and> logger_stream_ready env (fs_world st))"

definition strstr :: "bytes \<Rightarrow> bytes \<Rightarrow> bool" where
  "strstr hay needle = list_ex (\<lambda>k. take (length needle) (drop k hay) = needle) [0..<Suc (length hay)]"

definition ulg_suffix :: bytes where "ulg_suffix = [0x2E, 0x75, 0x6C, 0x67]"

definition fs_open_request :: "int \<Rightarrow> int \<Rightarrow> bytes \<Rightarrow> bytes" where
  "fs_open_request flags mode path = int32 flags @ int32 mode @ path_len32 path @ c_string path"

definition rzv_remote_fs_open_impl ::
  "'w fs_env \<Rightarrow> nat \<Rightarrow> bytes option \<Rightarrow> int \<Rightarrow> int \<Rightarrow> 'w fs_state \<Rightarrow> (int \<times> 'w fs_state) exec"
where
  "rzv_remote_fs_open_impl env fuel path flags mode st =
    (case path of None \<Rightarrow> Ret (- EINVAL, st) | Some p \<Rightarrow>
     if path_too_long p then Ret (- ENAMETOOLONG, st)
     else exec_bind (fs_request env fuel 256 PX4_RPC_FS_OPEN (fs_open_request flags mode p) None 0 None st)
      (\<lambda>(r, st'). case r of
         None \<Rightarrow> Ret (- ENOMEM, st')
       | Some (rpc_ret, ret_val, err_val) \<Rightarrow>
           if rpc_ret < 0 then Ret (errno_or_EIO st', st')
           else if err_val \<noteq> 0 then Ret (- sint err_val, st')
           else let st2 = (if 0 \<le> sint ret_val \<and> strstr p ulg_suffix \<and> logger_open_intends_write (of_int flags)
                           then st'\<lparr>fs_fds := logger_fd_register (sint ret_val) (fs_fds st')\<rparr> else st')
                in Ret (sint ret_val, st2)))"

definition fs_send_kicks :: "'w fs_env \<Rightarrow> bytes list \<Rightarrow> 'w fs_state \<Rightarrow> 'w fs_state" where
  "fs_send_kicks env msgs st = set_world (fold (fe_logger_send env) msgs (fs_world st)) st"

text \<open>\<open>rzv\<open>_\<close>logger\<open>_\<close>stream\<open>_\<close>flush\<close>: the flush message, then a delay of 5 ms.\<close>

definition fs_stream_flush :: "'w fs_env \<Rightarrow> int \<Rightarrow> 'w fs_state \<Rightarrow> 'w fs_state" where
  "fs_stream_flush env fd st =
     (let st1 = fs_send_kicks env (rzv_logger_stream_flush fd) st in
      case fe_task_delay env 5 (fs_world st1) of (evs, w) \<Rightarrow>
      set_world w (st1\<lparr>fs_rpcs := (fs_rpcs st1)\<lparr>cl := run_free evs (cl (fs_rpcs st1))\<rparr>\<rparr>))"

definition rzv_remote_fs_close_impl :: "'w fs_env \<Rightarrow> nat \<Rightarrow> int \<Rightarrow> 'w fs_state \<Rightarrow> (int \<times> 'w fs_state) exec" where
  "rzv_remote_fs_close_impl env fuel fd st =
    (let tracked_logger_fd = is_logger_fd fd (fs_fds st);
         st1 = (if tracked_logger_fd \<and> logger_stream_ready env (fs_world st) then fs_stream_flush env fd st else st);
         st2 = (if tracked_logger_fd then st1\<lparr>fs_fds := logger_fd_unregister fd (fs_fds st1)\<rparr> else st1)
     in exec_bind (fs_direct env fuel PX4_RPC_FS_CLOSE (int32 fd) None 0 None st2)
      (\<lambda>(rpc_ret, ret_val, err_val, st').
         if rpc_ret < 0 then Ret (errno_or_EIO st', st') else Ret (translate_rpc_error err_val, st')))"

section \<open>Reading and writing\<close>

definition rzv_remote_fs_read_impl ::
  "'w fs_env \<Rightarrow> nat \<Rightarrow> nat \<Rightarrow> int \<Rightarrow> nat option \<Rightarrow> nat \<Rightarrow> 'w fs_state \<Rightarrow> (int \<times> 'w fs_state) exec"
where
  "rzv_remote_fs_read_impl env fuel lv fd buffer buflen st =
    (if buflen > 4294967295 then Ret (- EINVAL, st)
     else exec_bind (fs_direct env fuel PX4_RPC_FS_READ (int32 fd @ le32 (of_nat buflen)) buffer buflen (Some lv)
                      (set_len lv 0 st))
      (\<lambda>(rpc_ret, ret_val, err_val, st').
         if rpc_ret < 0 then Ret (errno_or_EIO st', st')
         else if err_val \<noteq> 0 then Ret (- sint err_val, st')
         else if fs_len st' lv > buflen then Ret (- EIO, st')
         else Ret (sint ret_val, st')))"

abbreviation (input) FS_WRITE_MAX_CHUNK :: nat where "FS_WRITE_MAX_CHUNK \<equiv> 448"

text \<open>The chunk loop.  \<open>off\<close> is \<open>src - buffer\<close>; \<open>remaining\<close> is a 32-bit \<open>size_t\<close>; a read
  past the end of the caller's buffer is a fault.\<close>

fun fs_write_loop ::
  "'w fs_env \<Rightarrow> nat \<Rightarrow> int \<Rightarrow> bytes \<Rightarrow> nat \<Rightarrow> nat \<Rightarrow> nat \<Rightarrow> int \<Rightarrow> 'w fs_state \<Rightarrow> (int \<times> 'w fs_state) exec"
where
  "fs_write_loop env fuel fd buffer 0 off remaining written st = Diverges"
| "fs_write_loop env fuel fd buffer (Suc rounds) off remaining written st =
    (if \<not> (remaining > 0 \<or> length buffer = 0) then Ret (written, st)
     else let chunk = (if remaining < FS_WRITE_MAX_CHUNK then remaining else FS_WRITE_MAX_CHUNK) in
     if length buffer < off + chunk then Faults
     else exec_bind (fs_direct env fuel PX4_RPC_FS_WRITE
              (int32 fd @ le32 (of_nat chunk) @ take chunk (drop off buffer)) None 0 None st)
      (\<lambda>(rpc_ret, ret_val, err_val, st').
         if rpc_ret < 0 then Ret (if written > 0 then written else errno_or_EIO st', st')
         else if err_val \<noteq> 0 then Ret (if written > 0 then written else - sint err_val, st')
         else if sint ret_val < 0 then Ret (if written > 0 then written else sint ret_val, st')
         else let n = unat ret_val in
         if length buffer = 0 \<or> n < chunk then Ret (written + int n, st')
         else fs_write_loop env fuel fd buffer rounds (off + n)
                ((remaining + SIZE_MODULUS - n) mod SIZE_MODULUS) (written + int n) st'))"

definition rzv_remote_fs_write_impl ::
  "'w fs_env \<Rightarrow> nat \<Rightarrow> nat \<Rightarrow> int \<Rightarrow> bytes option \<Rightarrow> nat \<Rightarrow> 'w fs_state \<Rightarrow> (int \<times> 'w fs_state) exec"
where
  "rzv_remote_fs_write_impl env fuel rounds fd buffer buflen st =
    (if buflen > 0 \<and> buffer = None \<or> buflen > 4294967295 then Ret (- EINVAL, st)
     else let b = (case buffer of Some d \<Rightarrow> take buflen d | None \<Rightarrow> []) in
     if length b < buflen then Faults
     else if logger_fd_use_stream env fd st then
       exec_bind (rzv_logger_stream_write fd b (fs_shm st))
         (\<lambda>(n, msgs, shm). Ret (n, fs_send_kicks env msgs (st\<lparr>fs_shm := shm\<rparr>)))
     else fs_write_loop env fuel fd b rounds 0 buflen 0 st)"

section \<open>Seek, sync and the operations on paths\<close>

definition rzv_remote_fs_lseek_impl ::
  "'w fs_env \<Rightarrow> nat \<Rightarrow> int \<Rightarrow> int \<Rightarrow> int \<Rightarrow> 'w fs_state \<Rightarrow> (int \<times> 'w fs_state) exec"
where
  "rzv_remote_fs_lseek_impl env fuel fd offset whence st =
     exec_bind (fs_direct env fuel PX4_RPC_FS_LSEEK (int32 fd @ int32 whence @ le64 (of_int offset)) None 0 None st)
      (\<lambda>(rpc_ret, ret_val, err_val, st').
         if rpc_ret < 0 then Ret (errno_or_EIO st', st')
         else if err_val \<noteq> 0 then Ret (- sint err_val, st')
         else Ret (sint ret_val, st'))"

definition rzv_remote_fs_fsync_impl :: "'w fs_env \<Rightarrow> nat \<Rightarrow> int \<Rightarrow> 'w fs_state \<Rightarrow> (int \<times> 'w fs_state) exec" where
  "rzv_remote_fs_fsync_impl env fuel fd st =
    (if logger_fd_use_stream env fd st then Ret (0, st)
     else exec_bind (fs_direct env fuel PX4_RPC_FS_FSYNC (int32 fd) None 0 None st)
      (\<lambda>(rpc_ret, ret_val, err_val, st').
         if rpc_ret < 0 then Ret (errno_or_EIO st', st') else Ret (translate_rpc_error err_val, st')))"

definition fs_path_request :: "bytes \<Rightarrow> bytes" where
  "fs_path_request path = path_len32 path @ c_string path"

definition rzv_remote_fs_unlink_impl ::
  "'w fs_env \<Rightarrow> nat \<Rightarrow> bytes option \<Rightarrow> 'w fs_state \<Rightarrow> (int \<times> 'w fs_state) exec"
where
  "rzv_remote_fs_unlink_impl env fuel path st =
    (case path of None \<Rightarrow> Ret (- EINVAL, st) | Some p \<Rightarrow>
     if path_too_long p then Ret (- ENAMETOOLONG, st)
     else path_status (fs_request env fuel 256 PX4_RPC_FS_UNLINK (fs_path_request p) None 0 None st))"

definition fs_rename_request :: "bytes \<Rightarrow> bytes \<Rightarrow> bytes" where
  "fs_rename_request old_path new_path =
     path_len32 old_path @ path_len32 new_path @ c_string old_path @ c_string new_path"

definition rzv_remote_fs_rename_impl ::
  "'w fs_env \<Rightarrow> nat \<Rightarrow> bytes option \<Rightarrow> bytes option \<Rightarrow> 'w fs_state \<Rightarrow> (int \<times> 'w fs_state) exec"
where
  "rzv_remote_fs_rename_impl env fuel old_path new_path st =
    (case (old_path, new_path) of
       (Some p, Some q) \<Rightarrow>
         path_status (fs_request env fuel 512 PX4_RPC_FS_RENAME (fs_rename_request p q) None 0 None st)
     | _ \<Rightarrow> Ret (- EINVAL, st))"

text \<open>The outputs of \<open>stat\<close> are written only on success; \<open>resp\<close> is the address of the
  packed 20-byte response structure.\<close>

definition stat_fields :: "bytes \<Rightarrow> 32 word \<times> 64 word \<times> 64 word" where
  "stat_fields resp = (get32 resp, get64 (drop 4 resp), get64 (drop 12 resp))"

definition rzv_remote_fs_stat_impl ::
  "'w fs_env \<Rightarrow> nat \<Rightarrow> nat \<Rightarrow> nat \<Rightarrow> bytes option \<Rightarrow> bool \<Rightarrow> 'w fs_state
   \<Rightarrow> (int \<times> (32 word \<times> 64 word \<times> 64 word) option \<times> 'w fs_state) exec"
where
  "rzv_remote_fs_stat_impl env fuel resp lv path outs_given st =
    (case path of None \<Rightarrow> Ret (- EINVAL, None, st) | Some p \<Rightarrow>
     if \<not> outs_given then Ret (- EINVAL, None, st)
     else exec_bind (fs_request env fuel 256 PX4_RPC_FS_STAT (fs_path_request p) (Some resp) 20 (Some lv)
            (set_mem resp (replicate 20 0) (set_len lv 20 st)))
      (\<lambda>(r, st'). case r of
         None \<Rightarrow> Ret (- ENOMEM, None, st')
       | Some (rpc_ret, ret_val, err_val) \<Rightarrow>
           if rpc_ret < 0 then Ret (errno_or_EIO st', None, st')
           else if err_val \<noteq> 0 then Ret (- sint err_val, None, st')
           else Ret (0, Some (stat_fields (fs_mem st' resp)), st')))"

definition rzv_remote_fs_access_impl ::
  "'w fs_env \<Rightarrow> nat \<Rightarrow> bytes option \<Rightarrow> int \<Rightarrow> 'w fs_state \<Rightarrow> (int \<times> 'w fs_state) exec"
where
  "rzv_remote_fs_access_impl env fuel path mode st =
    (case path of None \<Rightarrow> Ret (- EINVAL, st) | Some p \<Rightarrow>
     if path_too_long p then Ret (- ENAMETOOLONG, st)
     else exec_bind (fs_request env fuel 256 PX4_RPC_FS_ACCESS (int32 mode @ path_len32 p @ c_string p) None 0 None st)
      (\<lambda>(r, st'). case r of
         None \<Rightarrow> Ret (- ENOMEM, st')
       | Some (rpc_ret, ret_val, err_val) \<Rightarrow>
           if rpc_ret < 0 then Ret (errno_or_EIO st', st')
           else if err_val \<noteq> 0 then Ret (- sint err_val, st')
           else Ret (sint ret_val, st')))"

definition fs_mkdir_request :: "int \<Rightarrow> bytes \<Rightarrow> bytes" where
  "fs_mkdir_request mode path = path_len32 path @ int32 mode @ c_string path"

definition rzv_remote_fs_mkdir_impl ::
  "'w fs_env \<Rightarrow> nat \<Rightarrow> bytes option \<Rightarrow> int \<Rightarrow> 'w fs_state \<Rightarrow> (int \<times> 'w fs_state) exec"
where
  "rzv_remote_fs_mkdir_impl env fuel path mode st =
    (case path of None \<Rightarrow> Ret (- EINVAL, st) | Some p \<Rightarrow>
     if path_too_long p then Ret (- ENAMETOOLONG, st)
     else path_status (fs_request env fuel 256 PX4_RPC_FS_MKDIR (fs_mkdir_request mode p) None 0 None st))"

definition rzv_remote_fs_rmdir_impl ::
  "'w fs_env \<Rightarrow> nat \<Rightarrow> bytes option \<Rightarrow> 'w fs_state \<Rightarrow> (int \<times> 'w fs_state) exec"
where
  "rzv_remote_fs_rmdir_impl env fuel path st =
    (case path of None \<Rightarrow> Ret (- EINVAL, st) | Some p \<Rightarrow>
     if path_too_long p then Ret (- ENAMETOOLONG, st)
     else path_status (fs_request env fuel 256 PX4_RPC_FS_RMDIR (fs_path_request p) None 0 None st))"

text \<open>The truncate request is not packed: \<open>int64\<open>_\<close>t length\<close> is aligned to eight bytes,
  behind four bytes of padding with the unspecified contents \<open>pad\<close>.\<close>

definition fs_truncate_request :: "bytes \<Rightarrow> int \<Rightarrow> bytes \<Rightarrow> bytes" where
  "fs_truncate_request pad length32 path = path_len32 path @ take 4 pad @ le64 (of_int length32) @ c_string path"

definition rzv_remote_fs_truncate_impl ::
  "'w fs_env \<Rightarrow> nat \<Rightarrow> bytes \<Rightarrow> bytes option \<Rightarrow> int \<Rightarrow> 'w fs_state \<Rightarrow> (int \<times> 'w fs_state) exec"
where
  "rzv_remote_fs_truncate_impl env fuel pad path len st =
    (case path of None \<Rightarrow> Ret (- EINVAL, st) | Some p \<Rightarrow>
     if path_too_long p then Ret (- ENAMETOOLONG, st)
     else path_status (fs_request env fuel 256 PX4_RPC_FS_TRUNCATE (fs_truncate_request pad len p) None 0 None st))"

section \<open>Device control\<close>

definition fs_ioctl_request :: "int \<Rightarrow> 64 word \<Rightarrow> nat \<Rightarrow> nat \<Rightarrow> 64 word \<Rightarrow> bytes \<Rightarrow> bytes" where
  "fs_ioctl_request fd request write_len read_capacity scalar_value data =
     int32 fd @ le32 0 @ le64 request @ le32 (of_nat write_len) @ le32 (of_nat read_capacity) @
     le64 scalar_value @ data"

text \<open>The second result is what \<open>*out\<open>_\<close>read\<open>_\<close>len\<close> receives.\<close>

definition rzv_remote_fs_ioctl_rpc ::
  "'w fs_env \<Rightarrow> nat \<Rightarrow> nat \<Rightarrow> int \<Rightarrow> 64 word \<Rightarrow> bytes option \<Rightarrow> nat \<Rightarrow> 64 word \<Rightarrow> nat option \<Rightarrow> nat \<Rightarrow> 'w fs_state
   \<Rightarrow> (int \<times> nat option \<times> 'w fs_state) exec"
where
  "rzv_remote_fs_ioctl_rpc env fuel lv fd request write_data write_len scalar_value read_buffer read_capacity st =
    (if write_len > 0 \<and> write_data = None then Ret (- 1, None, set_errno EINVAL st)
     else if write_len > 4294967295 \<or> read_capacity > 4294967295 then Ret (- 1, None, set_errno EINVAL st)
     else let d = (case write_data of Some b \<Rightarrow> take write_len b | None \<Rightarrow> []) in
     if length d < write_len then Faults
     else exec_bind (fs_request env fuel 256 PX4_RPC_FS_IOCTL
              (fs_ioctl_request fd request write_len read_capacity scalar_value d)
              read_buffer read_capacity (Some lv) (set_len lv 0 st))
      (\<lambda>(r, st'). case r of
         None \<Rightarrow> Ret (- 1, None, set_errno ENOMEM st')
       | Some (rpc_ret, ret_val, err_val) \<Rightarrow>
           if rpc_ret < 0 then Ret (- 1, None, st')
           else let st2 = set_errno (sint err_val) st' in
           if err_val \<noteq> 0 then Ret (- 1, None, st2)
           else if read_buffer = None \<and> fs_len st2 lv > 0 then Ret (- 1, None, set_errno EMSGSIZE st2)
           else if fs_len st2 lv > read_capacity then Ret (- 1, None, set_errno EMSGSIZE st2)
           else Ret (sint ret_val, Some (fs_len st2 lv), set_errno 0 st2)))"

section \<open>Directories, clock, reboot and log sessions\<close>

definition errno_result :: "'w fs_state \<Rightarrow> int \<times> 'w fs_state" where
  "errno_result st = (- 1, set_errno (if fs_errno st \<noteq> 0 then fs_errno st else EIO) st)"

definition rzv_remote_opendir ::
  "'w fs_env \<Rightarrow> nat \<Rightarrow> bytes option \<Rightarrow> 'w fs_state \<Rightarrow> (int \<times> 'w fs_state) exec"
where
  "rzv_remote_opendir env fuel path st =
    (case path of None \<Rightarrow> Ret (- 1, set_errno EINVAL st) | Some p \<Rightarrow>
     if path_too_long p then Ret (- 1, set_errno ENAMETOOLONG st)
     else exec_bind (fs_request env fuel 256 PX4_RPC_FS_OPENDIR (fs_path_request p) None 0 None st)
      (\<lambda>(r, st'). case r of
         None \<Rightarrow> Ret (- 1, set_errno ENOMEM st')
       | Some (rpc_ret, ret_val, err_val) \<Rightarrow>
           if rpc_ret < 0 then Ret (errno_result st')
           else if err_val \<noteq> 0 then Ret (- 1, set_errno (sint err_val) st')
           else Ret (sint ret_val, st')))"

definition c_strlen :: "bytes \<Rightarrow> nat" where
  "c_strlen bs = length (takeWhile (\<lambda>b. b \<noteq> 0) bs)"

text \<open>The copy of the entry into the caller's buffers.  \<open>resp\<close> is the 257-byte
  response (name and type); the result is the new contents of \<open>d\<open>_\<close>name\<close> and \<open>*d\<open>_\<close>type\<close>.\<close>

definition readdir_entry :: "bytes \<Rightarrow> bytes \<Rightarrow> nat \<Rightarrow> bytes \<times> byte" where
  "readdir_entry resp d_name name_len =
     (let name = (take 256 resp)[255 := 0];
          n = c_strlen name + 1;
          copy_len = (if n > name_len then name_len else n);
          d1 = overwrite 0 (take copy_len name) d_name
      in (d1[name_len - 1 := 0], resp ! 256))"

definition rzv_remote_readdir ::
  "'w fs_env \<Rightarrow> nat \<Rightarrow> nat \<Rightarrow> nat \<Rightarrow> int \<Rightarrow> bytes option \<Rightarrow> nat \<Rightarrow> bool \<Rightarrow> 'w fs_state
   \<Rightarrow> (int \<times> (bytes \<times> byte) option \<times> 'w fs_state) exec"
where
  "rzv_remote_readdir env fuel resp lv dir_handle d_name name_len d_type_given st =
    (case d_name of None \<Rightarrow> Ret (- 1, None, set_errno EINVAL st) | Some nb \<Rightarrow>
     if name_len = 0 \<or> \<not> d_type_given then Ret (- 1, None, set_errno EINVAL st)
     else exec_bind (fs_direct env fuel PX4_RPC_FS_READDIR (int32 dir_handle) (Some resp) 257 (Some lv) (set_len lv 0 st))
      (\<lambda>(rpc_ret, ret_val, err_val, st').
         if rpc_ret < 0 then Ret (- 1, None, snd (errno_result st'))
         else if err_val \<noteq> 0 then Ret (- 1, None, set_errno (sint err_val) st')
         else if ret_val = 1 then Ret (1, None, st')
         else if sint ret_val < 0 then Ret (- 1, None, set_errno (if err_val \<noteq> 0 then sint err_val else EIO) st')
         else if length nb < name_len \<or> length (fs_mem st' resp) < 257 then Faults
         else Ret (0, Some (readdir_entry (fs_mem st' resp) nb name_len), st')))"

definition rzv_remote_closedir :: "'w fs_env \<Rightarrow> nat \<Rightarrow> int \<Rightarrow> 'w fs_state \<Rightarrow> (int \<times> 'w fs_state) exec" where
  "rzv_remote_closedir env fuel dir_handle st =
     exec_bind (fs_direct env fuel PX4_RPC_FS_CLOSEDIR (int32 dir_handle) None 0 None st)
      (\<lambda>(rpc_ret, ret_val, err_val, st').
         if rpc_ret < 0 then Ret (errno_result st')
         else Ret (if err_val \<noteq> 0 then - 1 else 0, st'))"

definition rzv_remote_clock_settime :: "'w fs_env \<Rightarrow> nat \<Rightarrow> int \<Rightarrow> 'w fs_state \<Rightarrow> (int \<times> 'w fs_state) exec" where
  "rzv_remote_clock_settime env fuel unix_sec st =
     exec_bind (fs_direct env fuel PX4_RPC_CA55_CLOCK_SETTIME (le64 (of_int unix_sec)) None 0 None st)
      (\<lambda>(rpc_ret, ret_val, err_val, st'). Ret (if rpc_ret < 0 then - 1 else sint ret_val, st'))"

definition rzv_remote_system_reboot :: "'w fs_env \<Rightarrow> nat \<Rightarrow> 'w fs_state \<Rightarrow> (int \<times> 'w fs_state) exec" where
  "rzv_remote_system_reboot env fuel st =
     exec_bind (fs_direct env fuel PX4_RPC_CA55_SYSTEM_REBOOT [] None 0 None st)
      (\<lambda>(rpc_ret, ret_val, err_val, st'). Ret (if rpc_ret < 0 then - 1 else sint ret_val, st'))"

text \<open>The copy of the path that \<open>session\<open>_\<close>open\<close> received: \<open>path\<open>_\<close>size - 1\<close> is a 32-bit
  difference, and the source is the 256-byte \<open>resp\<open>_\<close>buf\<close>.\<close>

definition session_copy :: "bytes \<Rightarrow> nat \<Rightarrow> bytes \<Rightarrow> nat \<Rightarrow> bytes exec" where
  "session_copy resp_buf resp_len path_out path_size =
     (let copy = (if resp_len < path_size then resp_len else (path_size + SIZE_MODULUS - 1) mod SIZE_MODULUS) in
      if copy > length resp_buf \<or> copy \<ge> length path_out then Faults
      else Ret ((overwrite 0 (take copy resp_buf) path_out)[copy := 0]))"

definition rzv_remote_fs_session_open ::
  "'w fs_env \<Rightarrow> nat \<Rightarrow> nat \<Rightarrow> nat \<Rightarrow> 64 word \<Rightarrow> bytes option \<Rightarrow> nat \<Rightarrow> 'w fs_state
   \<Rightarrow> (int \<times> bytes option \<times> 'w fs_state) exec"
where
  "rzv_remote_fs_session_open env fuel resp lv timestamp_us path_out path_size st =
     exec_bind (fs_direct env fuel PX4_RPC_FS_SESSION_OPEN (le64 timestamp_us) (Some resp) 256 (Some lv) (set_len lv 0 st))
      (\<lambda>(rpc_ret, ret_val, err_val, st').
         if rpc_ret < 0 then Ret (- EIO, path_out, st')
         else if sint ret_val < 0 then Ret (sint ret_val, path_out, set_errno (sint err_val) st')
         else case path_out of
           None \<Rightarrow> Ret (0, None, st')
         | Some po \<Rightarrow>
             if fs_len st' lv > 0 then
               exec_bind (session_copy (fs_mem st' resp) (fs_len st' lv) po path_size) (\<lambda>po'. Ret (0, Some po', st'))
             else Ret (0, Some po, st'))"

definition rzv_remote_fs_session_close :: "'w fs_env \<Rightarrow> nat \<Rightarrow> int \<Rightarrow> 'w fs_state \<Rightarrow> (int \<times> 'w fs_state) exec" where
  "rzv_remote_fs_session_close env fuel fd st =
     exec_bind (fs_direct env fuel PX4_RPC_FS_SESSION_CLOSE (int32 fd) None 0 None st)
      (\<lambda>(rpc_ret, ret_val, err_val, st').
         if rpc_ret < 0 then Ret (- EIO, st')
         else Ret (sint ret_val, if sint ret_val < 0 then set_errno (sint err_val) st' else st'))"

end
