(* ===== verification/Fs_Server.thy ===== *)
theory Fs_Server
  imports Fs_Ops
begin

text \<open>
  How the CA55 server (px4\<open>_\<close>openamp\<open>_\<close>rpc\<open>_\<close>server.cpp) takes the payloads of the file
  requests apart: the packed request structures, the length checks, and the
  path without its terminating zero.  \<open>None\<close> is the answer \<open>EINVAL\<close>.  The decoders
  are checked against the encoders of the Cortex-R8 client.
\<close>

section \<open>Decoders\<close>

text \<open>The path behind a header of \<open>hdr\<close> bytes: \<open>path\<open>_\<close>len\<close> counts the zero.\<close>

definition srv_path :: "nat \<Rightarrow> nat \<Rightarrow> bytes \<Rightarrow> bytes option" where
  "srv_path hdr path_len payload =
     (if path_len = 0 \<or> path_len > length payload - hdr then None
      else Some (take (path_len - 1) (drop hdr payload)))"

definition srv_open :: "bytes \<Rightarrow> (32 word \<times> 32 word \<times> bytes) option" where
  "srv_open payload =
     (if length payload < 12 then None
      else let path_len = unat (get32 (drop 8 payload)) in
      if path_len = 0 \<or> path_len > length payload - 12 \<or> path_len > 4096 then None
      else if path_len \<ge> 4096 then None
      else Some (get32 payload, get32 (drop 4 payload), take (path_len - 1) (drop 12 payload)))"

definition srv_write :: "bytes \<Rightarrow> (32 word \<times> bytes) option" where
  "srv_write payload =
     (if length payload < 8 then None
      else let len = unat (get32 (drop 4 payload)) in
      if len > length payload - 8 then None
      else Some (get32 payload, take len (drop 8 payload)))"

text \<open>Unlink, rmdir and opendir.\<close>

definition srv_path_only :: "bytes \<Rightarrow> bytes option" where
  "srv_path_only payload =
     (if length payload < 4 then None else srv_path 4 (unat (get32 payload)) payload)"

definition srv_access :: "bytes \<Rightarrow> (32 word \<times> bytes) option" where
  "srv_access payload =
     (if length payload < 8 then None
      else map_option (Pair (get32 payload)) (srv_path 8 (unat (get32 (drop 4 payload))) payload))"

definition srv_mkdir :: "bytes \<Rightarrow> (32 word \<times> bytes) option" where
  "srv_mkdir payload =
     (if length payload < 8 then None
      else map_option (Pair (get32 (drop 4 payload))) (srv_path 8 (unat (get32 payload)) payload))"

definition srv_truncate :: "bytes \<Rightarrow> (64 word \<times> bytes) option" where
  "srv_truncate payload =
     (if length payload < 12 then None
      else map_option (Pair (get64 (drop 4 payload))) (srv_path 12 (unat (get32 payload)) payload))"

text \<open>The two names of a rename as C strings: what stands before the first zero.\<close>

definition c_str :: "bytes \<Rightarrow> bytes" where "c_str bs = takeWhile (\<lambda>b. b \<noteq> 0) bs"

abbreviation (input) PATH_MAX :: nat where "PATH_MAX \<equiv> 4096"

definition srv_rename :: "bytes \<Rightarrow> (bytes \<times> bytes) option" where
  "srv_rename payload =
     (if length payload < 8 then None
      else let old_len = unat (get32 payload); new_len = unat (get32 (drop 4 payload)) in
      if length payload < 8 + old_len + new_len then None
      else Some (c_str (take (min old_len (PATH_MAX - 1)) (drop 8 payload)),
                 c_str (take (min new_len (PATH_MAX - 1)) (drop (8 + old_len) payload))))"

definition srv_ioctl :: "bytes \<Rightarrow> (32 word \<times> 64 word \<times> 32 word \<times> 32 word \<times> 64 word \<times> bytes) option" where
  "srv_ioctl payload =
     (if length payload < 32 then None
      else let write_len = get32 (drop 16 payload) in
      if unat write_len > length payload - 32 then None
      else Some (get32 payload, get64 (drop 8 payload), write_len, get32 (drop 20 payload),
                 get64 (drop 24 payload), take (unat write_len) (drop 32 payload)))"

section \<open>Agreement of the two sides\<close>

lemma unat_path_len:
  assumes "length p + 1 < 4294967296"
  shows "unat (1 + of_nat (length p) :: 32 word) = Suc (length p)"
proof -
  have "unat (of_nat (Suc (length p)) :: 32 word) = Suc (length p)"
    using assms by (intro unat_of_nat32) simp
  then show ?thesis by simp
qed

lemma c_str_string: "0 \<notin> set p \<Longrightarrow> c_str (p @ [0]) = p"
  by (induction p) (simp_all add: c_str_def)

lemma c_string_simps: "length (c_string p) = Suc (length p)" "take (length p) (c_string p) = p"
  by (simp_all add: c_string_def)

lemmas decode_simps = int32_def path_len32_def codec_simps Let_def c_string_simps srv_path_def

lemma open_request_decoded: "length p < 4095 \<Longrightarrow> srv_open (fs_open_request flags mode p) = Some (of_int flags, of_int mode, p)"
  using unat_path_len[of p] by (simp add: srv_open_def fs_open_request_def decode_simps)

lemma path_request_decoded:
  assumes "length p < 4095"
  shows "srv_path_only (fs_path_request p) = Some p"
    "srv_access (int32 mode @ path_len32 p @ c_string p) = Some (of_int mode, p)"
    "srv_mkdir (fs_mkdir_request mode p) = Some (of_int mode, p)"
  using unat_path_len[of p] assms
  by (simp_all add: srv_path_only_def fs_path_request_def srv_access_def srv_mkdir_def fs_mkdir_request_def decode_simps)

lemma rename_request_decoded:
  assumes "length p < 4095" "length q < 4094" "0 \<notin> set p" "0 \<notin> set q"
  shows "srv_rename (fs_rename_request p q) = Some (p, q)"
proof -
  have "take (min (length p + 1) 4095) (c_string p @ c_string q) = p @ [0]"
    "take (min (length q + 1) 4095) (c_string q) = q @ [0]"
    using assms by (simp_all add: c_string_def min_def)
  then show ?thesis
    using assms unat_path_len[of p] unat_path_len[of q]
    by (simp add: srv_rename_def fs_rename_request_def decode_simps c_str_string)
qed



text \<open>A write request of at most 448 bytes fits an RPMsg buffer (header included,
  below 496 bytes) and decodes to the descriptor and exactly those bytes; an
  ioctl request decodes to its arguments.\<close>

theorem write_ioctl_agree:
  assumes "length d \<le> FS_WRITE_MAX_CHUNK" "w < 4294967296" "length x = w" "r < 4294967296"
  shows "srv_write (int32 fd @ le32 (of_nat (length d)) @ d) = Some (of_int fd, d) \<and>
    RPC_HEADER_SIZE + length (int32 fd @ le32 (of_nat (length d)) @ d) \<le> 480 \<and>
    srv_ioctl (fs_ioctl_request fd req w r s x) =
      Some (of_int fd, req, of_nat w, of_nat r, s, x)"
proof -
  have "length d < 4294967296" using assms(1) by simp
  then have u: "unat (of_nat (length d) :: 32 word) = length d" "unat (of_nat w :: 32 word) = w"
    using assms(2) by simp_all
  then show ?thesis
    using assms by (simp add: srv_write_def srv_ioctl_def fs_ioctl_request_def int32_def codec_simps Let_def)
qed

theorem write_ioctl_agree_witness:
  "srv_write (int32 5 @ le32 (of_nat (length [1, 2 :: byte])) @ [1, 2]) = Some (of_int 5, [1, 2])"
  using write_ioctl_agree[of "[1, 2]" 0 "[]" 0 5] by simp

text \<open>The truncate request is the exception: the client sends the naturally
  aligned 16-byte structure, the server reads a packed one of 12 bytes.  For
  every path and every length below 2^32 the server sees the padding and the
  low half as the length, and a path that starts with a zero byte, never the
  path that was meant.\<close>

theorem truncate_requests_disagree:
  assumes p: "p \<noteq> []" "0 \<notin> set p" "length p + 1 < 4294967296" and pad: "length pad = 4"
    and len: "0 \<le> len" "len < 4294967296"
  shows "\<exists>l' p'. srv_truncate (fs_truncate_request pad len p) = Some (l', p') \<and>
    l' = get64 (pad @ le32 (of_int len)) \<and> hd p' = 0 \<and> p' \<noteq> p \<and> c_str p' = []"
proof -
  let ?L = "le64 (of_int len)"
  note u = unat_path_len[OF p(3)]
  have n: "of_int len = (of_nat (nat len) :: 64 word)" "of_int len = (of_nat (nat len) :: 32 word)"
    "nat len < 4294967296"
    using len by simp_all
  have un: "unat (of_int len :: 64 word) = nat len" using n(3) unfolding n(1) by (simp add: unat_of_nat)
  have un32: "unat (of_int len :: 32 word) = nat len" using n(3) unfolding n(2) by simp
  have lo: "take 4 ?L = le32 (of_int len)" and hi: "drop 4 ?L = [0, 0, 0, 0]"
  proof -
    have "nat len div 256 ^ 4 = 0" using n(3) by simp
    then have "?L = le_nat 4 (nat len) @ le_nat 4 0"
      using le_nat_add[of 4 4 "nat len"] by (simp add: le64_def un)
    moreover have "le_nat 4 0 = [0, 0, 0, 0]" unfolding le_nat_0 by (simp add: numeral_eq_Suc)
    ultimately show "take 4 ?L = le32 (of_int len)" "drop 4 ?L = [0, 0, 0, 0]"
      by (simp_all add: le32_def un32)
  qed
  have L8: "length ?L = 8" by (simp add: codec_simps)
  have plus: "fs_truncate_request pad len p = path_len32 p @ pad @ take 4 ?L @ drop 4 ?L @ p @ [0]"
    using pad by (simp add: fs_truncate_request_def c_string_def)
  have d4: "drop 4 (fs_truncate_request pad len p) = (pad @ le32 (of_int len)) @ [0, 0, 0, 0] @ p @ [0]"
    unfolding plus lo hi by (simp add: path_len32_def codec_simps)
  have d12: "drop 12 (fs_truncate_request pad len p) = [0, 0, 0, 0] @ p @ [0]"
    unfolding plus lo hi using pad by (simp add: path_len32_def codec_simps)
  have g: "get64 ((pad @ le32 (of_int len)) @ z) = get64 (pad @ le32 (of_int len))" for z
    using pad by (simp add: get64_def codec_simps)
  have h: "unat (get32 (fs_truncate_request pad len p)) = Suc (length p)"
    by (simp add: plus path_len32_def codec_simps c_string_def u)
  have lt: "length (fs_truncate_request pad len p) = 17 + length p"
    using pad L8 by (simp add: plus path_len32_def codec_simps)
  let ?p' = "take (length p) ([0, 0, 0, 0] @ p @ [0])"
  have "srv_truncate (fs_truncate_request pad len p) = Some (get64 (pad @ le32 (of_int len)), ?p')"
    by (simp only: srv_truncate_def srv_path_def h lt d4 d12 g) simp
  moreover have "hd ?p' = 0" "c_str ?p' = []" using p(1) by (cases p; simp add: c_str_def)+
  moreover have "?p' \<noteq> p"
  proof
    assume eq: "?p' = p"
    have "hd p = 0" using \<open>hd ?p' = 0\<close> unfolding eq .
    then show False using p(1,2) hd_in_set[OF p(1)] by simp
  qed
  ultimately show ?thesis by blast
qed

theorem truncate_requests_disagree_witness:
  "\<exists>l' p'. srv_truncate (fs_truncate_request [0, 0, 0, 0] 100 [47, 97]) = Some (l', p') \<and> c_str p' = []"
  using truncate_requests_disagree[of "[47, 97]" "[0, 0, 0, 0]" 100] by auto

end
