(* ===== verification/Fs_Props.thy ===== *)
theory Fs_Props
  imports Fs_Server
begin

text \<open>
  Properties of the remote file operations: results of the transport, complete
  and partial writes in chunks, the logger descriptors under open and close,
  stale \<open>errno\<close> values, and the copies into the caller's buffers.
\<close>

section \<open>The transport contract\<close>

text \<open>
  What the file operations rely on: a call returns 0 with the two values of the
  response, or a negative code with none.  The laws of the callers follow from
  that alone.
\<close>

locale rpc_transport =
  fixes call :: "'st \<Rightarrow> (int \<times> rpc_values \<times> 'st) exec"
  assumes call_rc: "call st = Ret (rc, outs, st') \<Longrightarrow> rc = 0 \<and> outs \<noteq> None \<or> rc < 0 \<and> outs = None"
begin

lemma values_default: "call st = Ret (rc, outs, st') \<Longrightarrow> rc < 0 \<Longrightarrow> rpc_values_or_default outs = (- 1, 0)"
  using call_rc by (fastforce simp: rpc_values_or_default_def)

lemma success_iff: "call st = Ret (rc, outs, st') \<Longrightarrow> rc < 0 \<longleftrightarrow> outs = None"
  using call_rc by fastforce

end

interpretation fs_transport: rpc_transport "fs_rpc os fuel op payload n buf cap lo"
  by unfold_locales (rule fs_rpc_rc)

text \<open>The result of \<open>fs_rpc\<close> is 0 with the two values of a response, or negative
  with none; in particular a caller that tests for a negative code never reads
  a response that did not arrive.\<close>

theorem fs_rpc_result:
  assumes "fs_rpc os fuel op payload n buf cap lo st = Ret (rc, outs, st')"
  shows "(rc < 0 \<longleftrightarrow> outs = None) \<and> (rc = 0 \<longleftrightarrow> outs \<noteq> None) \<and>
    (rc < 0 \<longrightarrow> rpc_values_or_default outs = (- 1, 0))"
  using fs_transport.success_iff[OF assms] fs_transport.values_default[OF assms] fs_rpc_rc[OF assms] by auto

text \<open>An environment for the examples: no endpoint, so every call fails at once.\<close>

definition down_env :: "nat fs_env" where
  "down_env = \<lparr>fe_rpc = echo_os\<lparr>os_ept_rdev := (\<lambda>_. False)\<rparr>, fe_logger_rdev = (\<lambda>_. False),
     fe_logger_dest = (\<lambda>_. 0), fe_logger_send = (\<lambda>m w. w), fe_task_delay = (\<lambda>t w. ([], w))\<rparr>"

definition demo_fs :: "int \<Rightarrow> nat fs_state" where
  "demo_fs e = \<lparr>fs_rpcs = \<lparr>cl = demo_client, err = e, world = 0\<rparr>, fs_fds = logger_boot, fs_shm = demo_pool\<rparr>"

lemma down_not_ready: "\<not> px4_openamp_rpc_endpoint_ready (fe_rpc down_env) w"
  by (simp add: px4_openamp_rpc_endpoint_ready_def down_env_def)

theorem fs_rpc_result_witness:
  "\<exists>rc st'. fs_rpc (fe_rpc down_env) 1 6 (Some []) 0 None 0 None (fs_rpcs (demo_fs 5)) = Ret (rc, None, st') \<and>
     rpc_values_or_default None = (- 1, 0) \<and> rc < 0"
proof -
  let ?st = "fs_rpcs (demo_fs 5)"
  have c: "fs_rpc (fe_rpc down_env) 1 6 (Some []) 0 None 0 None ?st = Ret (- ENOTCONN, None, ?st)"
    using down_not_ready by (simp add: fs_rpc_def)
  from fs_rpc_result[OF c] c show ?thesis by auto
qed

section \<open>Stale error numbers\<close>

lemma fs_direct_down:
  "\<not> px4_openamp_rpc_endpoint_ready (fe_rpc env) (fs_world st) \<Longrightarrow>
   fs_direct env fuel op payload buf cap lo st = Ret (- ENOTCONN, - 1, 0, st)"
  by (simp add: fs_direct_def fs_rpc_def rpc_values_or_default_def)

text \<open>When the CA55 is not connected, the function fs-rpc returns -ENOTCONN but leaves errno
  alone, and the operations report \<open>errno\<close>: the caller gets whatever error an
  earlier call left behind, and -EIO only if there was none; -ENOTCONN is never
  reported unless errno already held it.\<close>

theorem not_connected_reports_stale_errno:
  assumes down: "\<not> px4_openamp_rpc_endpoint_ready (fe_rpc env) (fs_world st)" and p: "length p < 250"
  shows "rzv_remote_fs_unlink_impl env fuel (Some p) st = Ret (errno_or_EIO st, st) \<and>
    rzv_remote_fs_rmdir_impl env fuel (Some p) st = Ret (errno_or_EIO st, st) \<and>
    rzv_remote_fs_lseek_impl env fuel fd off whence st = Ret (errno_or_EIO st, st) \<and>
    (\<not> logger_fd_use_stream env fd st \<longrightarrow>
       rzv_remote_fs_fsync_impl env fuel fd st = Ret (errno_or_EIO st, st)) \<and>
    (fs_errno st \<noteq> 0 \<longrightarrow> errno_or_EIO st = - fs_errno st) \<and> (fs_errno st = 0 \<longrightarrow> errno_or_EIO st = - EIO)"
proof -
  have short: "length (fs_path_request p) \<le> 256" "\<not> path_too_long p"
    using p by (simp_all add: fs_path_request_def path_len32_def codec_simps c_string_def path_too_long_def)
  then show ?thesis
    by (simp add: rzv_remote_fs_unlink_impl_def rzv_remote_fs_rmdir_impl_def rzv_remote_fs_lseek_impl_def
        rzv_remote_fs_fsync_impl_def fs_request_def path_status_def fs_direct_down[OF down] errno_or_EIO_def)
qed

theorem not_connected_reports_stale_errno_witness:
  "rzv_remote_fs_unlink_impl down_env 1 (Some [47, 97]) (demo_fs EEXIST) = Ret (- EEXIST, demo_fs EEXIST)"
proof -
  have "fs_errno (demo_fs EEXIST) = EEXIST" by (simp add: demo_fs_def)
  then show ?thesis
    using not_connected_reports_stale_errno[where env = down_env and st = "demo_fs EEXIST" and p = "[47, 97]"
        and fuel = 1, OF down_not_ready] by simp
qed

section \<open>Writes in chunks\<close>

definition write_payload :: "int \<Rightarrow> bytes \<Rightarrow> bytes" where
  "write_payload fd d = int32 fd @ le32 (of_nat (length d)) @ d"

text \<open>A peer that accepts \<open>acc st n \<le> n\<close> bytes of a request of \<open>n\<close> bytes in state \<open>st\<close> and
  appends them to the file \<open>file st\<close>, while \<open>J\<close> holds.\<close>

definition write_peer ::
  "'w fs_env \<Rightarrow> nat \<Rightarrow> int \<Rightarrow> ('w fs_state \<Rightarrow> bool) \<Rightarrow> ('w fs_state \<Rightarrow> bytes) \<Rightarrow> ('w fs_state \<Rightarrow> nat \<Rightarrow> nat) \<Rightarrow> bool"
where
  "write_peer env fuel fd J file acc \<longleftrightarrow>
     (\<forall>st d. J st \<longrightarrow> length d \<le> FS_WRITE_MAX_CHUNK \<longrightarrow>
        acc st (length d) \<le> length d \<and>
        (\<exists>st'. fs_direct env fuel PX4_RPC_FS_WRITE (write_payload fd d) None 0 None st =
                 Ret (0, of_nat (acc st (length d)), 0, st') \<and> J st' \<and>
               file st' = file st @ take (acc st (length d)) d))"

lemma sint_small: "k \<le> 448 \<Longrightarrow> sint (of_nat k :: 32 word) = int k"
  by (simp add: signed_of_nat signed_take_bit_int_eq_self)

lemma rounds_step:
  fixes r k :: nat
  assumes "0 < r" "(r + 447) div 448 < Suc k"
  shows "(r - min r 448 + 447) div 448 < k"
proof (cases "r \<le> 448")
  case True
  have "448 div 448 \<le> (r + 447) div 448" using assms(1) by (intro div_le_mono) simp
  then have "0 < k" using assms(2) by simp
  moreover have "r - min r 448 + 447 = 447" using True by (simp add: min_def)
  ultimately show ?thesis by simp
next
  case False
  then have "r + 447 = (r - min r 448 + 447) + 448" by (simp add: min_def)
  then have "(r + 447) div 448 = (r - min r 448 + 447) div 448 + 1" by simp
  then show ?thesis using assms(2) by simp
qed

lemma write_loop_prefix:
  assumes peer: "write_peer env fuel fd J file acc" and b: "length b < SIZE_MODULUS" "b \<noteq> []"
  shows "J st \<Longrightarrow> off + remaining = length b \<Longrightarrow> (remaining + 447) div 448 < rounds \<Longrightarrow>
    \<exists>n st'. fs_write_loop env fuel fd b rounds off remaining (int off) st = Ret (int (off + n), st') \<and>
      n \<le> remaining \<and> J st' \<and> file st' = file st @ take n (drop off b) \<and>
      ((\<forall>st m. acc st m = m) \<longrightarrow> n = remaining)"
proof (induction rounds arbitrary: st off remaining)
  case (Suc rounds)
  show ?case
  proof (cases "remaining = 0")
    case True
    then show ?thesis using Suc.prems b by simp
  next
    case False
    let ?c = "min remaining 448"
    let ?d = "take ?c (drop off b)"
    have ld: "length ?d = ?c" using Suc.prems(2) by simp
    let ?k = "acc st ?c"
    obtain st' where st': "fs_direct env fuel PX4_RPC_FS_WRITE (write_payload fd ?d) None 0 None st =
        Ret (0, of_nat ?k, 0, st')" "J st'" "file st' = file st @ take ?k ?d" and k: "?k \<le> ?c"
      using peer Suc.prems(1) ld unfolding write_peer_def by (metis min.cobounded2)
    have pay: "int32 fd @ le32 (of_nat ?c) @ ?d = write_payload fd ?d"
      using ld by (simp add: write_payload_def)
    have k448: "?k \<le> 448" using k by simp
    have step: "fs_write_loop env fuel fd b (Suc rounds) off remaining (int off) st =
        (if ?k < ?c then Ret (int (off + ?k), st')
         else fs_write_loop env fuel fd b rounds (off + ?k) (remaining - ?k) (int (off + ?k)) st')"
    proof -
      have "unat (of_nat ?k :: 32 word) = ?k" using k448 by simp
      moreover have "(remaining + SIZE_MODULUS - ?k) mod SIZE_MODULUS = remaining - ?k"
      proof -
        have "remaining + SIZE_MODULUS - ?k = (remaining - ?k) + SIZE_MODULUS" using k by simp
        moreover have "remaining - ?k < SIZE_MODULUS" using Suc.prems(2) b by simp
        ultimately show ?thesis by (metis mod_add_self2 mod_less)
      qed
      moreover have "\<not> length b < off + ?c" using Suc.prems(2) by simp
      moreover have "(if remaining < 448 then remaining else 448) = ?c" by (simp add: min_def)
      ultimately show ?thesis
        unfolding fs_write_loop.simps Let_def using False b
        by (simp only: pay st'(1) exec_bind.simps prod.case sint_small[OF k448]) simp
    qed
    show ?thesis
    proof (cases "?k < ?c")
      case True
      then have e: "fs_write_loop env fuel fd b (Suc rounds) off remaining (int off) st = Ret (int (off + ?k), st')"
        unfolding step by (simp only: if_True)
      have "\<not> (\<forall>st m. acc st m = m)" using True by (metis less_irrefl)
      moreover have "take ?k ?d = take ?k (drop off b)" using k by simp
      moreover have "?k \<le> remaining" using k by simp
      ultimately show ?thesis using st'(2,3) e by metis
    next
      case full: False
      then have k: "?k = ?c" using k by linarith
      have r: "(remaining - ?c + 447) div 448 < rounds"
        using rounds_step[of remaining rounds] Suc.prems(3) \<open>remaining \<noteq> 0\<close> by simp
      have "off + ?c + (remaining - ?c) = length b" using Suc.prems(2) by simp
      from Suc.IH[OF st'(2) this r] obtain n st'' where
        n: "fs_write_loop env fuel fd b rounds (off + ?c) (remaining - ?c) (int (off + ?c)) st' =
            Ret (int (off + ?c + n), st'')" "n \<le> remaining - ?c" "J st''"
          "file st'' = file st' @ take n (drop (off + ?c) b)" "(\<forall>st m. acc st m = m) \<longrightarrow> n = remaining - ?c"
        by blast
      have ta: "take ?c (drop off b) @ take n (drop (off + ?c) b) = take (?c + n) (drop off b)"
        unfolding take_add drop_drop add.commute[of off ?c] ..
      have "take ?c ?d = ?d" by simp
      then have f: "file st'' = file st @ take (?c + n) (drop off b)"
        unfolding n(4) st'(3) k append_assoc by (simp only: ta)
      have "fs_write_loop env fuel fd b (Suc rounds) off remaining (int off) st =
          fs_write_loop env fuel fd b rounds (off + ?k) (remaining - ?k) (int (off + ?k)) st'"
        unfolding step if_not_P[OF full] ..
      then have e: "fs_write_loop env fuel fd b (Suc rounds) off remaining (int off) st = Ret (int (off + (?c + n)), st'')"
        unfolding k n(1) add.assoc .
      have "?c + n \<le> remaining" "(\<forall>st m. acc st m = m) \<longrightarrow> ?c + n = remaining" using n(2,5) by auto
      then show ?thesis using e f n(3) by blast
    qed
  qed
qed simp


text \<open>An environment whose peer stores the data of every write request; the world is
  the file.  It reports \<open>k\<close> bytes more than it was given; an honest peer has \<open>k = 0\<close>.  At rest no call is in flight.\<close>

definition ack_reply :: "nat \<Rightarrow> bytes \<Rightarrow> bytes" where
  "ack_reply k m = header_bytes (bytes_header m\<lparr>hdr_return_value := of_nat (length m - 32 + k), hdr_payload_size := 0\<rparr>)"

definition ack_os :: "nat \<Rightarrow> bytes rpc_os" where
  "ack_os k = \<lparr>os_ept_rdev = (\<lambda>_. True), os_ept_dest = (\<lambda>_. 1024), os_ept_is_ready = (\<lambda>_. True),
     os_vdev = (\<lambda>_. True), os_rproc = (\<lambda>_. True), os_get_notification = (\<lambda>w. ([], w)),
     os_malloc = (\<lambda>n w. (Some (\<lambda>_. 0), w)), os_free = (\<lambda>w. w),
     os_trysend = (\<lambda>m w. (int (length m), [Ev_message (ack_reply k m)], w @ drop 32 m)),
     os_clock = (\<lambda>w. ((0, 0, 0), w)), os_cond_wait = (\<lambda>i w. ([], w)),
     os_cond_timedwait = (\<lambda>i d w. (ETIMEDOUT, [], w)), os_usleep = (\<lambda>t w. ([], w))\<rparr>"

definition ack_env :: "nat \<Rightarrow> bytes fs_env" where
  "ack_env k = \<lparr>fe_rpc = ack_os k, fe_logger_rdev = (\<lambda>_. False), fe_logger_dest = (\<lambda>_. 0),
     fe_logger_send = (\<lambda>m w. w), fe_task_delay = (\<lambda>t w. ([], w))\<rparr>"

definition at_rest :: "rpc_client \<Rightarrow> bool" where
  "at_rest c \<longleftrightarrow> length (g_rpc_pending c) = MAX_PENDING_RPC \<and> (\<forall>s\<in>set (g_rpc_pending c). \<not> in_use s)"

lemma ack_ready: "px4_openamp_rpc_endpoint_ready (ack_os k) w"
  by (simp add: px4_openamp_rpc_endpoint_ready_def ack_os_def RPMSG_ADDR_ANY_def)

lemma at_rest_alloc:
  assumes "at_rest c"
  obtains rid c' where "alloc_pending None 0 None None 0 c = (Some (0, rid), c')"
    "g_rpc_pending c' = (g_rpc_pending c)[0 := claim_slot (None, 0, None, None, 0, rid) (g_rpc_pending c ! 0)]"
proof -
  obtain r c' where a: "alloc_pending None 0 None None 0 c = (r, c')" by fastforce
  have "find_index (\<lambda>s. \<not> in_use s) (g_rpc_pending c) = Some 0"
    using assms by (intro find_indexI) (auto simp: at_rest_def)
  moreover from this obtain i rid where "r = Some (i, rid)"
    using alloc_pending_None[of None 0 None None 0 c c'] a by (cases r) auto
  ultimately show ?thesis using alloc_pending_Some(1,2)[of None 0 None None 0 c i rid c'] a that by auto
qed

lemma ack_reply_header:
  "bytes_header (ack_reply k (header_bytes h @ p)) =
     h\<lparr>hdr_return_value := of_nat (length p - 8 + k), hdr_payload_size := 0\<rparr>"
  using codec_simps by (simp add: ack_reply_def codec_simps)

lemma ack_reply_ok: "hdr_magic h = PX4_RPC_MAGIC \<Longrightarrow> well_formed_message (ack_reply k (header_bytes h @ p))"
  by (simp add: well_formed_message_def ack_reply_header) (simp add: ack_reply_def codec_simps)

lemma ack_call:
  assumes rest: "at_rest (cl st)" and len: "length p \<le> 456" and fuel: "0 < fuel"
  shows "\<exists>st'. fs_rpc_call (ack_os k) fuel op (Some p) (length p) None 0 None st =
      Ret (0, Some (of_nat (length p - 8 + k), 0), st') \<and> at_rest (cl st') \<and> world st' = world st @ drop 8 p"
proof -
  obtain rid c where a: "alloc_pending None 0 None None 0 (cl st) = (Some (0, rid), c)"
    and c: "g_rpc_pending c = (g_rpc_pending (cl st))[0 := claim_slot (None, 0, None, None, 0, rid) (g_rpc_pending (cl st) ! 0)]"
    using at_rest_alloc[OF rest] .
  define cat where "cat = rpc_category_code PX4_RPC_CATEGORY_FS"
  let ?h = "rpc_request_header cat op rid (length p)"
  let ?m = "header_bytes ?h @ p" and ?d = "ack_reply k (header_bytes ?h @ p)"
  have h: "hdr_magic ?h = PX4_RPC_MAGIC" "hdr_request_id ?h = rid" "hdr_errno_value ?h = 0"
    by (simp_all add: rpc_request_header_def)
  have s0: "g_rpc_pending c ! 0 = claim_slot (None, 0, None, None, 0, rid) (g_rpc_pending (cl st) ! 0)"
    and l0: "0 < length (g_rpc_pending c)" using rest by (simp_all add: c at_rest_def)
  have hb: "bytes_header ?d = ?h\<lparr>hdr_return_value := of_nat (length p - 8 + k), hdr_payload_size := 0\<rparr>"
    by (rule ack_reply_header)
  have "find_index (answers (bytes_header ?d)) (g_rpc_pending c) = Some 0"
    using l0 s0 by (intro find_indexI) (simp_all add: hb h(2) claim_slot_def)
  from handle_hit[OF ack_reply_ok[OF h(1)] this]
  have recv: "receive ?d c = fst (deliver_response (bytes_header ?d) (drop RPC_HEADER_SIZE ?d) 0 (opened c))"
    by simp
  have pend: "g_rpc_pending (receive ?d c) = (g_rpc_pending c)[0 := complete_slot (bytes_header ?d) (g_rpc_pending c ! 0)]"
    using l0 s0 by (simp add: recv deliver_pending claim_slot_def)
  then have sc: "slot_completed 0 (rpc_run_events 0 [Ev_message ?d] c)" using l0 by simp
  have m: "os_malloc (ack_os k) (rpc_total_len (length p)) (world st) = (Some (\<lambda>_. 0), world st)"
    and t: "os_trysend (ack_os k) ?m (world st) = (int (length ?m), [Ev_message ?d], world st @ drop 8 p)"
    by (simp_all add: ack_os_def codec_simps)
  have f: "rpc_fill_message (\<lambda>_. 0) ?h (Some p) (length p) = Ret ?m"
    using fill_message_Ret[of "length p" p "\<lambda>_. 0" ?h] len by simp
  have n: "length p \<le> 4294967295" "0 \<le> int (length ?m)" using len by simp_all
  have w: "rpc_wait (ack_os k) fuel 0 2000 (receive ?d c) (os_free (ack_os k) (world st @ drop 8 p)) = Ret (0, receive ?d c, world st @ drop 8 p)"
    using sc fuel by (cases fuel) (simp_all add: rpc_wait_def ack_os_def)
  have "fs_rpc_call (ack_os k) fuel op (Some p) (length p) None 0 None st =
      Ret (rpc_finish 0 None 0 (err st) (receive ?d c) (world st @ drop 8 p))"
    unfolding fs_rpc_call_def cat_def[symmetric] using call_sent[OF ack_ready n(1) a m f t n(2), of fuel 2000] w by simp
  moreover have "\<forall>s\<in>set ((g_rpc_pending (cl st))[0 := release_slot x]). \<not> in_use s" for x
    using rest set_update_subset_insert[of "g_rpc_pending (cl st)" 0 "release_slot x"]
    by (auto simp: at_rest_def slot_simps)
  ultimately show ?thesis
    using sc rest l0 by (simp add: rpc_finish_def Let_def pend at_rest_def c hb h(3))
qed

lemma ack_write:
  assumes fuel: "0 < fuel" and rest: "at_rest (cl (fs_rpcs st))" and d: "length d \<le> 448"
  shows "\<exists>st'. fs_direct (ack_env k) fuel PX4_RPC_FS_WRITE (write_payload fd d) None 0 None st =
      Ret (0, of_nat (length d + k), 0, st') \<and> at_rest (cl (fs_rpcs st')) \<and> fs_world st' = fs_world st @ d"
proof -
  let ?p = "write_payload fd d"
  have p: "length ?p = length d + 8" "drop 8 ?p = d" by (simp_all add: write_payload_def int32_def codec_simps)
  have clock: "os_clock (ack_os k) w = ((0, 0, 0), w)" for w by (simp add: ack_os_def)
  let ?st = "(fs_rpcs st)\<lparr>world := world (fs_rpcs st)\<rparr>"
  obtain st' where s: "fs_rpc_call (ack_os k) fuel (rpc_fs_code PX4_RPC_FS_WRITE) (Some ?p) (length ?p) None 0 None ?st =
      Ret (0, Some (of_nat (length d + k), 0), st')" "at_rest (cl st')" "world st' = fs_world st @ d"
    using ack_call[of ?st ?p fuel k "rpc_fs_code PX4_RPC_FS_WRITE"] rest d fuel p by auto
  have "fs_rpc_attempts (ack_os k) fuel (rpc_fs_code PX4_RPC_FS_WRITE) (Some ?p) (length ?p) None 0 None 3 0 ?st =
      Ret (None, 0, Some (of_nat (length d + k), 0), 0, st')"
    unfolding numeral_3_eq_3 fs_rpc_attempts.simps s(1) by simp
  then have "fs_rpc (ack_os k) fuel (rpc_fs_code PX4_RPC_FS_WRITE) (Some ?p) (length ?p) None 0 None (fs_rpcs st) =
      Ret (0, Some (of_nat (length d + k), 0), st')"
    using ack_ready by (simp add: fs_rpc_def clock elapsed_us_def)
  then show ?thesis
    using s by (intro exI[of _ "st\<lparr>fs_rpcs := st'\<rparr>"]) (simp add: fs_direct_def ack_env_def rpc_values_or_default_def)
qed

lemma ack_peer:
  "0 < fuel \<Longrightarrow> write_peer (ack_env 0) fuel fd (\<lambda>st. at_rest (cl (fs_rpcs st))) fs_world (\<lambda>st n. n)"
  using ack_write[of fuel _ _ 0 fd] by (simp add: write_peer_def)

definition ack_state :: "bytes fs_state" where
  "ack_state = \<lparr>fs_rpcs = \<lparr>cl = demo_client, err = 0, world = []\<rparr>, fs_fds = logger_boot, fs_shm = demo_pool\<rparr>"


text \<open>A peer that reports more bytes than the request held makes the 32-bit count of
  remaining bytes wrap, and the next round reads past the caller's buffer.\<close>

theorem write_overrun:
  assumes b: "b \<noteq> []" "length b \<le> FS_WRITE_MAX_CHUNK" and n: "length b < n" "n < 2 ^ 31"
    and reply: "fs_direct env fuel PX4_RPC_FS_WRITE (write_payload fd b) None 0 None st = Ret (0, of_nat n, 0, st')"
    and slow: "\<not> logger_fd_use_stream env fd st"
  shows "rzv_remote_fs_write_impl env fuel (Suc (Suc r)) fd (Some b) (length b) st = Faults"
proof -
  have w: "rzv_remote_fs_write_impl env fuel (Suc (Suc r)) fd (Some b) (length b) st =
      fs_write_loop env fuel fd b (Suc (Suc r)) 0 (length b) 0 st"
    using slow b(2) by (simp add: rzv_remote_fs_write_impl_def)
  have c: "(if length b < 448 then length b else 448) = length b" using b(2) by simp
  have s: "sint (of_nat n :: 32 word) = int n"
    using n(2) by (simp add: signed_of_nat signed_take_bit_int_eq_self)
  have u: "unat (of_nat n :: 32 word) = n" using n(2) by simp
  let ?rem = "(length b + SIZE_MODULUS - n) mod SIZE_MODULUS"
  have rem: "?rem = length b + SIZE_MODULUS - n" "0 < ?rem" using b(2) n by simp_all
  have "fs_write_loop env fuel fd b (Suc (Suc r)) 0 (length b) 0 st =
      fs_write_loop env fuel fd b (Suc r) n ?rem (int n) st'"
    using b n reply
    by (subst fs_write_loop.simps) (simp add: c write_payload_def s u Let_def del: fs_write_loop.simps)
  also have "\<dots> = Faults" using rem(2) n(1) by (simp add: Let_def)
  finally show ?thesis by (simp only: w)
qed

theorem write_overrun_witness:
  "rzv_remote_fs_write_impl (ack_env 1) 1 2 9 (Some [7]) 1 ack_state = Faults"
proof -
  have rest: "at_rest (cl (fs_rpcs ack_state))" by (simp add: ack_state_def at_rest_def rpc_boot_def)
  have slow: "\<not> logger_fd_use_stream (ack_env 1) 9 ack_state"
    by (simp add: logger_fd_use_stream_def logger_stream_ready_def ack_env_def)
  obtain st' where r: "fs_direct (ack_env 1) 1 PX4_RPC_FS_WRITE (write_payload 9 [7]) None 0 None ack_state =
      Ret (0, of_nat 2, 0, st')"
    using ack_write[of 1 ack_state "[7]" 1 9] rest by auto
  have n: "[7 :: byte] \<noteq> []" "length [7 :: byte] \<le> 448" "length [7 :: byte] < 2" "(2 :: nat) < 2 ^ 31" by simp_all
  from write_overrun[OF n r slow, of 0] show ?thesis by (simp add: numeral_2_eq_2)
qed

section \<open>Logger descriptors under open and close\<close>

lemma fs_direct_keeps:
  "fs_direct env fuel op p buf cap lo st = Ret (rc, rv, ev, st') \<Longrightarrow> fs_fds st' = fs_fds st \<and> fs_shm st' = fs_shm st"
  by (auto simp: fs_direct_def elim!: exec_bind_RetE split: prod.splits)

lemma fs_request_keeps:
  "fs_request env fuel lim op p buf cap lo st = Ret (r, st') \<Longrightarrow> fs_fds st' = fs_fds st \<and> fs_shm st' = fs_shm st"
  by (auto simp: fs_request_def set_world_def elim!: exec_bind_RetE dest!: fs_direct_keeps
      split: if_splits prod.splits option.splits)

text \<open>Opening a file registers its descriptor as a logger descriptor only when the
  open succeeded, the path contains .ulg and the flags ask for writing, and
  closing removes it on every path, connected or not; both keep the table well formed.\<close>

theorem logger_table_discipline:
  assumes ok: "logger_fds_ok (fs_fds st)" and fd: "fd \<noteq> - 1"
  shows "(\<forall>r st'. rzv_remote_fs_open_impl env fuel path flags mode st = Ret (r, st') \<longrightarrow>
      logger_fds_ok (fs_fds st') \<and>
      (fs_fds st' = fs_fds st \<or>
       fs_fds st' = logger_fd_register r (fs_fds st) \<and> 0 \<le> r \<and> logger_open_intends_write (of_int flags) \<and>
       (\<exists>p. path = Some p \<and> strstr p ulg_suffix))) \<and>
    (\<forall>r st'. rzv_remote_fs_close_impl env fuel fd st = Ret (r, st') \<longrightarrow>
      logger_fds_ok (fs_fds st') \<and> logger_fd_set (fs_fds st') = logger_fd_set (fs_fds st) - {fd})"
proof (intro conjI allI impI)
  fix r st'
  assume o: "rzv_remote_fs_open_impl env fuel path flags mode st = Ret (r, st')"
  show *: "fs_fds st' = fs_fds st \<or>
       fs_fds st' = logger_fd_register r (fs_fds st) \<and> 0 \<le> r \<and> logger_open_intends_write (of_int flags) \<and>
       (\<exists>p. path = Some p \<and> strstr p ulg_suffix)"
    using o by (auto simp: rzv_remote_fs_open_impl_def Let_def elim!: exec_bind_RetE dest!: fs_request_keeps
        split: option.splits if_splits prod.splits)
  then show "logger_fds_ok (fs_fds st')" using ok register_cases[OF ok] by (cases "r = - 1") auto
next
  fix r st'
  assume c: "rzv_remote_fs_close_impl env fuel fd st = Ret (r, st')"
  have fl: "fs_fds (fs_stream_flush env fd s) = fs_fds s" for s
    by (simp add: fs_stream_flush_def fs_send_kicks_def set_world_def Let_def split: prod.splits)
  have "fs_fds st' = (if is_logger_fd fd (fs_fds st) then logger_fd_unregister fd (fs_fds st) else fs_fds st)"
    using c by (auto simp: rzv_remote_fs_close_impl_def Let_def fl elim!: exec_bind_RetE dest!: fs_direct_keeps
        split: if_splits prod.splits)
  then show "logger_fds_ok (fs_fds st')" and "logger_fd_set (fs_fds st') = logger_fd_set (fs_fds st) - {fd}"
    using unregister_cases[OF ok fd] ok fd by (auto simp: is_logger_fd_iff logger_fd_set_def)
qed

theorem logger_table_discipline_witness:
  "\<exists>r st'. rzv_remote_fs_close_impl down_env 1 7 (demo_fs 0) = Ret (r, st') \<and>
     logger_fd_set (fs_fds st') = logger_fd_set (fs_fds (demo_fs 0)) - {7}"
proof -
  have ok: "logger_fds_ok (fs_fds (demo_fs 0))" using logger_boot_ok by (simp add: demo_fs_def)
  have nl: "\<not> is_logger_fd 7 (fs_fds (demo_fs 0))"
    by (simp add: demo_fs_def is_logger_fd_def logger_fd_table_init_def find_index_None_iff)
  obtain r st' where c: "rzv_remote_fs_close_impl down_env 1 7 (demo_fs 0) = Ret (r, st')"
    using fs_direct_down[OF down_not_ready] nl by (auto simp: rzv_remote_fs_close_impl_def Let_def)
  then show ?thesis
    using logger_table_discipline[where env = down_env and fuel = 1 and fd = 7, OF ok] by simp
qed

text \<open>A write to the invalid descriptor -1 is not refused: as long as a logger entry
  is free and the stream endpoint is bound, it goes to the shared-memory stream
  and returns 0 or the full length, never an error.\<close>

theorem write_to_invalid_fd:
  assumes "logger_fds_ok (fs_fds st)" "s_logger_fd_count (fs_fds st) < 4" "logger_stream_ready env (fs_world st)"
    and "pool_wf (fs_shm st)" "length b < SIZE_MODULUS"
  shows "\<exists>r st'. rzv_remote_fs_write_impl env fuel rounds (- 1) (Some b) (length b) st = Ret (r, st') \<and>
    (r = 0 \<or> r = int (length b))"
proof -
  have u: "logger_fd_use_stream env (- 1) st"
    using invalid_fd_lookup[OF assms(1)] assms(2,3) by (simp add: logger_fd_use_stream_def)
  from stream_write_returns[OF assms(4), of "- 1" b] obtain r msgs l' where
    "rzv_logger_stream_write (- 1) b (fs_shm st) = Ret (r, msgs, l')" "r = 0 \<or> r = int (length b)" by blast
  then show ?thesis using u assms(5) by (simp add: rzv_remote_fs_write_impl_def)
qed

definition stream_env :: "nat fs_env" where
  "stream_env = down_env\<lparr>fe_logger_rdev := (\<lambda>_. True)\<rparr>"

theorem write_to_invalid_fd_witness:
  "\<exists>r st'. rzv_remote_fs_write_impl stream_env 1 1 (- 1) (Some [1, 2]) 2 (demo_fs 0) = Ret (r, st') \<and> 0 \<le> r"
proof -
  have ok: "logger_fds_ok (fs_fds (demo_fs 0))" "s_logger_fd_count (fs_fds (demo_fs 0)) < 4"
    using logger_boot_ok by (simp_all add: demo_fs_def logger_fd_table_init_def)
  have ready: "logger_stream_ready stream_env (fs_world (demo_fs 0))"
    by (simp add: logger_stream_ready_def stream_env_def down_env_def RPMSG_ADDR_ANY_def)
  have pool: "pool_wf (fs_shm (demo_fs 0))" using demo_pool_wf by (simp add: demo_fs_def)
  from write_to_invalid_fd[OF ok ready pool, of "[1, 2]" 1 1] show ?thesis
    by (auto simp: numeral_2_eq_2)
qed

section \<open>Copies into the caller's buffers\<close>

text \<open>The path that \<open>session\<open>_\<close>open\<close> copies out stays inside the 256-byte response
  buffer exactly when the smaller of the announced length and the caller's size
  minus one is at most 256; then the caller gets that prefix, terminated, in a
  buffer of unchanged size.  An announced length above 256 with a larger
  caller's buffer reads past the response buffer.\<close>

theorem session_copy_bounds:
  assumes "length resp_buf = 256" "length po = psize" "0 < psize" "psize < SIZE_MODULUS"
  shows "(session_copy resp_buf n po psize = Faults \<longleftrightarrow> 256 < min n (psize - 1)) \<and>
    (min n (psize - 1) \<le> 256 \<longrightarrow> (\<exists>po'. session_copy resp_buf n po psize = Ret po' \<and> length po' = psize \<and>
       take (min n (psize - 1)) po' = take (min n (psize - 1)) resp_buf \<and> po' ! min n (psize - 1) = 0))"
proof -
  let ?c = "min n (psize - 1)"
  have "(psize + SIZE_MODULUS - 1) mod SIZE_MODULUS = psize - 1"
  proof -
    have "psize + SIZE_MODULUS - 1 = (psize - 1) + SIZE_MODULUS" using assms(3) by simp
    then show ?thesis using assms(4) by (simp only: mod_add_self2) simp
  qed
  then have c: "(if n < psize then n else (psize + SIZE_MODULUS - 1) mod SIZE_MODULUS) = ?c"
    using assms(3) by (cases "n < psize") auto
  have lt: "?c < length po" using assms(2,3) by simp
  have def: "session_copy resp_buf n po psize =
      (if 256 < ?c then Faults else Ret ((overwrite 0 (take ?c resp_buf) po)[?c := 0]))"
  proof -
    have "(256 < ?c \<or> length po \<le> ?c) = (256 < ?c)" using lt by linarith
    then show ?thesis unfolding session_copy_def Let_def c assms(1) by (simp only:)
  qed
  show ?thesis
  proof (intro conjI impI)
    show "session_copy resp_buf n po psize = Faults \<longleftrightarrow> 256 < ?c" unfolding def by simp
    assume le: "?c \<le> 256"
    let ?o = "overwrite 0 (take ?c resp_buf) po"
    have l: "length (take ?c resp_buf) = ?c" using le assms(1) by simp
    then have "length ?o = psize" "take ?c ?o = take ?c resp_buf"
      using lt assms(2) take_overwrite_0[of "take ?c resp_buf" po] by simp_all
    moreover have "\<not> 256 < ?c" using le by linarith
    then have "session_copy resp_buf n po psize = Ret (?o[?c := 0])" unfolding def by (rule if_not_P)
    ultimately show "\<exists>po'. session_copy resp_buf n po psize = Ret po' \<and> length po' = psize \<and>
       take ?c po' = take ?c resp_buf \<and> po' ! ?c = 0"
      using lt assms(2) by (intro exI[of _ "?o[?c := 0]"]) (simp add: take_update_cancel)
  qed
qed

theorem session_copy_bounds_witness:
  "session_copy (replicate 256 47) 300 (replicate 512 0) 512 = Faults"
  using session_copy_bounds[of "replicate 256 47" "replicate 512 0" 512 300] by simp

text \<open>Copying a C string: a buffer that starts with a string and a zero byte reads as it.\<close>

lemma c_str_terminated: "0 \<notin> set s \<Longrightarrow> c_str (s @ 0 # r) = s"
  by (induction s) (simp_all add: c_str_def)

lemma c_str_nonzero: "0 \<notin> set (c_str bs)"
  by (auto simp: c_str_def dest: set_takeWhileD)

lemma c_str_split: "\<exists>r. bs @ [0] = c_str bs @ 0 # r"
  by (induction bs) (auto simp: c_str_def)

lemma c_strlen_c_str: "c_strlen bs = length (c_str bs)"
  by (simp add: c_strlen_def c_str_def)

lemma c_str_copy_cut:
  assumes s: "0 \<notin> set s" and n: "0 < n" "n \<le> length d"
    and m: "m = (if length s + 1 > n then n else length s + 1)"
  shows "c_str ((overwrite 0 (take m (s @ 0 # r)) d)[n - 1 := 0]) = take (n - 1) s"
proof (cases "length s < n")
  case True
  then have "overwrite 0 (take m (s @ 0 # r)) d = s @ 0 # drop (Suc (length s)) d"
    by (simp add: m overwrite_def)
  moreover have "\<exists>r'. (s @ 0 # drop (Suc (length s)) d)[n - 1 := 0] = s @ 0 # r'"
    using True by (cases "n - 1 - length s") (auto simp: list_update_append)
  ultimately show ?thesis using True c_str_terminated[OF s] by auto
next
  case False
  obtain k where k: "n = Suc k" using n(1) by (cases n) simp_all
  from False have "overwrite 0 (take m (s @ 0 # r)) d = take k s @ s ! k # drop n d"
    by (simp add: m k overwrite_def take_Suc_conv_app_nth)
  moreover have "0 \<notin> set (take k s)" using s by (auto dest: in_set_takeD)
  ultimately show ?thesis using False
    by (simp add: k list_update_append min_def c_str_terminated)
qed

text \<open>A directory entry is delivered as a C string inside the caller's buffer of the
  given length: the name that the peer sent (at most 255 bytes of it), cut to one
  byte less than that length, with the type byte unchanged.\<close>

theorem readdir_name:
  assumes "length resp = 257" "0 < name_len" "name_len \<le> length nb"
  shows "length (fst (readdir_entry resp nb name_len)) = length nb \<and>
    c_str (fst (readdir_entry resp nb name_len)) = take (name_len - 1) (c_str (take 255 resp)) \<and>
    snd (readdir_entry resp nb name_len) = resp ! 256"
proof -
  let ?s = "c_str (take 255 resp)"
  have nm: "(take 256 resp)[255 := 0] = take 255 resp @ [0]"
    using assms(1) by (simp add: upd_conv_take_nth_drop min_def)
  obtain r where r: "take 255 resp @ [0] = ?s @ 0 # r" using c_str_split by blast
  have "c_strlen (?s @ 0 # r) = length ?s"
    by (simp add: c_strlen_c_str c_str_terminated[OF c_str_nonzero])
  moreover define m where "m = (if length ?s + 1 > name_len then name_len else length ?s + 1)"
  ultimately have e: "readdir_entry resp nb name_len =
      ((overwrite 0 (take m (?s @ 0 # r)) nb)[name_len - 1 := 0], resp ! 256)"
    by (simp only: readdir_entry_def nm r Let_def)
  have "length (take m (?s @ 0 # r)) \<le> length nb" using assms(3) by (simp add: m_def)
  then show ?thesis
    using c_str_copy_cut[OF c_str_nonzero assms(2,3) m_def, of r] by (simp add: e)
qed

theorem readdir_name_witness:
  "c_str (fst (readdir_entry ([97, 98, 99] @ replicate 254 0) [1, 1, 1] 3)) =
     take (3 - 1) (c_str (take 255 ([97, 98, 99] @ replicate 254 0)))"
  using readdir_name[of "[97, 98, 99] @ replicate 254 0" 3 "[1, 1, 1]"] by simp

end
