(* ===== verification/Fs_Async.thy ===== *)
theory Fs_Async
  imports Fs_Ops "HOL-Library.Multiset"
begin

text \<open>
  The asynchronous remote file operations (src/rpc/remote\<open>_\<close>storage\<open>_\<close>rpc.c): open, write and close
  without waiting.  Each call allocates a context object with the caller's callback; the RPC client
  keeps the address of the object as the user data of the pending slot, and its dispatch function
  calls the callback and frees the object.  Objects are entries of a map from addresses; an access
  to an object that is not there is the outcome \<open>Faults\<close>.
\<close>

section \<open>State\<close>

record fs_async_context =
  ctx_callback :: "nat option"
  ctx_user_data :: nat

text \<open>The dispatched contexts, in order, with the arguments their callback got; one without a
  callback is dispatched, and freed, in the same way.  A callback is the caller's code: that it makes
  no asynchronous call itself is assumed, everything else it may do is an event of its own.\<close>

type_synonym callback_run = "fs_async_context \<times> 32 word \<times> 32 word \<times> 32 word"

record 'w fs_async =
  as_rpc :: "'w rpc_state"
  as_ctx :: "nat \<Rightarrow> fs_async_context option"
  as_runs :: "callback_run list"

text \<open>\<open>malloc\<close> of a context object, given the objects that are live.\<close>

record 'w fs_async_env =
  ae_os :: "'w rpc_os"
  ae_malloc :: "nat set \<Rightarrow> 'w \<Rightarrow> nat option \<times> 'w"

text \<open>The function \<open>fs\<open>_\<close>async\<open>_\<close>dispatch\<close> as a callback of the RPC client.\<close>

abbreviation fs_dispatch_callback :: rpc_callback where "fs_dispatch_callback \<equiv> User_callback 0"

section \<open>Dispatch\<close>

definition ctx_free :: "nat \<Rightarrow> 'w fs_async \<Rightarrow> 'w fs_async exec" where
  "ctx_free a st = (case as_ctx st a of None \<Rightarrow> Faults | Some _ \<Rightarrow> Ret (st\<lparr>as_ctx := (as_ctx st)(a := None)\<rparr>))"

definition fs_async_dispatch ::
  "32 word \<Rightarrow> 32 word \<Rightarrow> 32 word \<Rightarrow> nat \<Rightarrow> 'w fs_async \<Rightarrow> 'w fs_async exec"
where
  "fs_async_dispatch rid rv ev ud st =
     (if ud = 0 then Ret st
      else case as_ctx st ud of
        None \<Rightarrow> Faults
      | Some ctx \<Rightarrow> ctx_free ud (st\<lparr>as_runs := as_runs st @ [(ctx, rid, rv, ev)]\<rparr>))"

text \<open>What the RPC client does with a handled message once its lock is released.\<close>

definition run_dispatch :: "rpc_dispatch \<Rightarrow> 'w fs_async \<Rightarrow> 'w fs_async exec" where
  "run_dispatch d st =
     (case d of
        Run_callback cb rid rv ev payload n ud \<Rightarrow>
          if cb = fs_dispatch_callback then fs_async_dispatch rid rv ev ud st else Ret st
      | _ \<Rightarrow> Ret st)"

fun run_dispatches :: "rpc_dispatch list \<Rightarrow> 'w fs_async \<Rightarrow> 'w fs_async exec" where
  "run_dispatches [] st = Ret st"
| "run_dispatches (d # ds) st = exec_bind (run_dispatch d st) (run_dispatches ds)"

text \<open>The dispatches of the messages among the events that take place while the owner of slot \<open>me\<close>
  does not hold the lock.\<close>

fun event_dispatches :: "nat \<Rightarrow> rpc_event list \<Rightarrow> rpc_client \<Rightarrow> rpc_dispatch list" where
  "event_dispatches me [] c = []"
| "event_dispatches me (ev # evs) c =
     (case ev of Ev_message d \<Rightarrow> [snd (snd (px4_openamp_rpc_handle_message d c))] | _ \<Rightarrow> []) @
     event_dispatches me evs (rpc_event_step me ev c)"

section \<open>Calls\<close>

text \<open>The events during the send of an asynchronous call, in the order of \<open>rpc_send_async\<close>.\<close>

definition send_events :: "'w rpc_os \<Rightarrow> bytes \<Rightarrow> 'w \<Rightarrow> rpc_event list" where
  "send_events os buffer w =
     (case os_trysend os buffer w of (send_result, evs, w1) \<Rightarrow>
      if send_result = RPMSG_ERR_NO_BUFF then
        (case os_usleep os 2000 w1 of (evs2, w2) \<Rightarrow>
         case os_trysend os buffer w2 of (_, evs3, _) \<Rightarrow> evs @ evs2 @ evs3)
      else evs)"

text \<open>The callbacks that run during \<open>px4\<open>_\<close>openamp\<open>_\<close>rpc\<open>_\<close>call\<open>_\<close>async\<close> with the same arguments.\<close>

definition call_async_dispatches ::
  "'w rpc_os \<Rightarrow> 16 word \<Rightarrow> 16 word \<Rightarrow> bytes option \<Rightarrow> nat \<Rightarrow> rpc_callback \<Rightarrow> nat \<Rightarrow> 'w rpc_state \<Rightarrow> rpc_dispatch list"
where
  "call_async_dispatches os cat op payload request_len cb ud st =
     (if \<not> px4_openamp_rpc_endpoint_ready os (world st) then []
      else case alloc_pending None 0 None (Some cb) ud (cl st) of
        (None, c) \<Rightarrow> []
      | (Some (i, rid), c) \<Rightarrow>
        (case os_malloc os (rpc_total_len request_len) (world st) of
           (None, w) \<Rightarrow> []
         | (Some g, w) \<Rightarrow>
           (case rpc_fill_message g (rpc_request_header cat op rid request_len) payload request_len of
              Ret buffer \<Rightarrow> event_dispatches i (send_events os buffer w) c
            | _ \<Rightarrow> [])))"

definition fs_rpc_async ::
  "'w fs_async_env \<Rightarrow> px4_rpc_fs_op \<Rightarrow> bytes \<Rightarrow> nat option \<Rightarrow> nat \<Rightarrow> 'w fs_async \<Rightarrow> (int \<times> 'w fs_async) exec"
where
  "fs_rpc_async env opcode payload cb ud st =
    (let os = ae_os env; cat = rpc_category_code PX4_RPC_CATEGORY_FS; op = rpc_fs_code opcode;
         n = length payload; w = world (as_rpc st) in
     if \<not> px4_openamp_rpc_endpoint_ready os w then Ret (- ENOTCONN, st)
     else if n > 4294967295 then Ret (- EINVAL, st)
     else case ae_malloc env (dom (as_ctx st)) w of
       (None, w1) \<Rightarrow> Ret (- ENOMEM, st\<lparr>as_rpc := (as_rpc st)\<lparr>world := w1\<rparr>\<rparr>)
     | (Some ctx, w1) \<Rightarrow>
       (let r1 = (as_rpc st)\<lparr>world := w1\<rparr>;
            st1 = st\<lparr>as_rpc := r1,
              as_ctx := (as_ctx st)(ctx := Some \<lparr>ctx_callback = cb, ctx_user_data = ud\<rparr>)\<rparr> in
        exec_bind (px4_openamp_rpc_call_async os cat op (Some payload) n None 0 (Some fs_dispatch_callback) ctx r1)
         (\<lambda>(ret, request_id, r2).
          exec_bind (run_dispatches (call_async_dispatches os cat op (Some payload) n fs_dispatch_callback ctx r1)
                       (st1\<lparr>as_rpc := r2\<rparr>))
           (\<lambda>st2.
            if ret < 0 then
              exec_bind (ctx_free ctx st2)
                (\<lambda>st3. Ret (if err r2 \<noteq> 0 then - err r2 else - EIO, st3))
            else Ret (sint (the request_id), st2)))))"

text \<open>A payload that is built on the stack, or in allocated memory when it is longer than 256 bytes.\<close>

definition fs_async_request ::
  "'w fs_async_env \<Rightarrow> px4_rpc_fs_op \<Rightarrow> bytes \<Rightarrow> nat option \<Rightarrow> nat \<Rightarrow> 'w fs_async \<Rightarrow> (int \<times> 'w fs_async) exec"
where
  "fs_async_request env opcode payload cb ud st =
    (if length payload > 256 then
       (case os_malloc (ae_os env) (length payload) (world (as_rpc st)) of
          (None, w) \<Rightarrow> Ret (- ENOMEM, st\<lparr>as_rpc := (as_rpc st)\<lparr>world := w\<rparr>\<rparr>)
        | (Some _, w) \<Rightarrow>
            exec_bind (fs_rpc_async env opcode payload cb ud (st\<lparr>as_rpc := (as_rpc st)\<lparr>world := w\<rparr>\<rparr>))
             (\<lambda>(ret, st').
               Ret (ret, st'\<lparr>as_rpc := (as_rpc st')\<lparr>world := os_free (ae_os env) (world (as_rpc st'))\<rparr>\<rparr>)))
     else fs_rpc_async env opcode payload cb ud st)"

definition rzv_remote_fs_open_async ::
  "'w fs_async_env \<Rightarrow> bytes option \<Rightarrow> int \<Rightarrow> int \<Rightarrow> nat option \<Rightarrow> nat \<Rightarrow> 'w fs_async \<Rightarrow> (int \<times> 'w fs_async) exec"
where
  "rzv_remote_fs_open_async env path flags mode cb ud st =
    (case path of
       None \<Rightarrow> Ret (- EINVAL, st)
     | Some p \<Rightarrow>
         if path_too_long p then Ret (- ENAMETOOLONG, st)
         else fs_async_request env PX4_RPC_FS_OPEN (fs_open_request flags mode p) cb ud st)"

definition rzv_remote_fs_write_async ::
  "'w fs_async_env \<Rightarrow> int \<Rightarrow> bytes option \<Rightarrow> nat \<Rightarrow> nat option \<Rightarrow> nat \<Rightarrow> 'w fs_async \<Rightarrow> (int \<times> 'w fs_async) exec"
where
  "rzv_remote_fs_write_async env fd buffer buflen cb ud st =
    (if buflen > 0 \<and> buffer = None \<or> buflen > 4294967295 then Ret (- EINVAL, st)
     else let data = (if buflen > 0 then the buffer else []) in
     if length data < buflen then Faults
     else fs_async_request env PX4_RPC_FS_WRITE (int32 fd @ le32 (of_nat buflen) @ take buflen data) cb ud st)"

definition rzv_remote_fs_close_async ::
  "'w fs_async_env \<Rightarrow> int \<Rightarrow> nat option \<Rightarrow> nat \<Rightarrow> 'w fs_async \<Rightarrow> (int \<times> 'w fs_async) exec"
where
  "rzv_remote_fs_close_async env fd cb ud st =
     fs_rpc_async env PX4_RPC_FS_CLOSE (int32 fd) cb ud st"

section \<open>Asynchronous calls among other uses of the client\<close>

text \<open>Between the calls, messages arrive and other threads make synchronous calls: they claim slots
  without a callback and release only such slots.\<close>

datatype async_step =
    Do_open "bytes option" int int "nat option" nat
  | Do_write int "bytes option" nat "nat option" nat
  | Do_close int "nat option" nat
  | Do_event rpc_event

definition event_allowed :: "rpc_event \<Rightarrow> rpc_client \<Rightarrow> bool" where
  "event_allowed ev c =
     (case ev of
        Ev_alloc b n l cb u \<Rightarrow> cb = None
      | Ev_release i \<Rightarrow> i < length (g_rpc_pending c) \<and> callback (g_rpc_pending c ! i) = None
      | _ \<Rightarrow> True)"

definition async_event :: "rpc_event \<Rightarrow> 'w fs_async \<Rightarrow> 'w fs_async exec" where
  "async_event ev st =
     (let c = cl (as_rpc st) in
      if event_allowed ev c then
        run_dispatches (event_dispatches MAX_PENDING_RPC [ev] c)
          (st\<lparr>as_rpc := (as_rpc st)\<lparr>cl := rpc_event_step MAX_PENDING_RPC ev c\<rparr>\<rparr>)
      else Ret st)"

fun async_call :: "'w fs_async_env \<Rightarrow> async_step \<Rightarrow> 'w fs_async \<Rightarrow> (int \<times> 'w fs_async) exec" where
  "async_call env (Do_open path flags mode cb ud) st = rzv_remote_fs_open_async env path flags mode cb ud st"
| "async_call env (Do_write fd buffer n cb ud) st = rzv_remote_fs_write_async env fd buffer n cb ud st"
| "async_call env (Do_close fd cb ud) st = rzv_remote_fs_close_async env fd cb ud st"
| "async_call env (Do_event ev) st = exec_bind (async_event ev st) (\<lambda>st'. Ret (0, st'))"

fun async_run :: "'w fs_async_env \<Rightarrow> async_step list \<Rightarrow> 'w fs_async \<Rightarrow> 'w fs_async exec" where
  "async_run env [] st = Ret st"
| "async_run env (a # as) st = exec_bind (async_call env a st) (\<lambda>(_, st'). async_run env as st')"

definition async_boot :: "(nat \<Rightarrow> bytes) \<Rightarrow> (nat \<Rightarrow> nat) \<Rightarrow> int \<Rightarrow> 'w \<Rightarrow> 'w fs_async" where
  "async_boot m z e w = \<lparr>as_rpc = \<lparr>cl = rpc_boot m z, err = e, world = w\<rparr>, as_ctx = (\<lambda>_. None), as_runs = []\<rparr>"

section \<open>Contexts and pending slots\<close>

definition is_async :: "rpc_pending \<Rightarrow> bool" where
  "is_async s \<longleftrightarrow> in_use s \<and> callback s \<noteq> None"

definition async_slots :: "rpc_client \<Rightarrow> rpc_pending list" where
  "async_slots c = filter is_async (g_rpc_pending c)"

definition async_ok :: "'w fs_async \<Rightarrow> bool" where
  "async_ok st \<longleftrightarrow> (let S = async_slots (cl (as_rpc st)) in
     length (g_rpc_pending (cl (as_rpc st))) = MAX_PENDING_RPC \<and>
     (\<forall>s\<in>set S. callback s = Some fs_dispatch_callback \<and> user_data s \<noteq> 0) \<and>
     distinct (map user_data S) \<and> set (map user_data S) = dom (as_ctx st))"

text \<open>Every accepted call with its context and its request id: first those whose callback ran, then
  those that are pending.\<close>

definition async_entries :: "'w fs_async \<Rightarrow> (fs_async_context \<times> 32 word) multiset" where
  "async_entries st = mset (map (\<lambda>(ctx, rid, rv, ev). (ctx, rid)) (as_runs st)) +
     mset (map (\<lambda>s. (the (as_ctx st (user_data s)), request_id s)) (async_slots (cl (as_rpc st))))"

text \<open>Replacing one slot of the table.\<close>

lemma filter_update:
  assumes "i < length xs"
  shows "\<exists>A B. filter P xs = A @ filter P [xs ! i] @ B \<and> filter P (xs[i := y]) = A @ filter P [y] @ B"
proof -
  let ?A = "filter P (take i xs)" and ?B = "filter P (drop (Suc i) xs)"
  have "filter P (take i xs @ [xs ! i] @ drop (Suc i) xs) = ?A @ filter P [xs ! i] @ ?B"
    by (simp only: filter_append)
  moreover have "take i xs @ [xs ! i] @ drop (Suc i) xs = xs" using id_take_nth_drop[OF assms] by simp
  moreover have "filter P (take i xs @ [y] @ drop (Suc i) xs) = ?A @ filter P [y] @ ?B"
    by (simp only: filter_append)
  moreover have "take i xs @ [y] @ drop (Suc i) xs = xs[i := y]" using upd_conv_take_nth_drop[OF assms, of y] by simp
  ultimately show ?thesis by metis
qed

lemma handle_async:
  obtains (same) "async_slots (receive d c) = async_slots c"
      "snd (snd (px4_openamp_rpc_handle_message d c)) \<in> {No_dispatch} \<union> range Signal_slot"
    | (runs) s A B rv ev b n where "async_slots c = A @ s # B" "async_slots (receive d c) = A @ B"
      "snd (snd (px4_openamp_rpc_handle_message d c)) = Run_callback (the (callback s)) (request_id s) rv ev b n (user_data s)"
      "is_async s" "request_id s = hdr_request_id (bytes_header d)"
proof (cases "well_formed_message d")
  case False
  then have "snd (snd (px4_openamp_rpc_handle_message d c)) = No_dispatch"
    by (auto simp: px4_openamp_rpc_handle_message_def well_formed_message_def Let_def)
  moreover have "async_slots (receive d c) = async_slots c"
    using handle_malformed[OF False, of c] by (auto simp: async_slots_def)
  ultimately show ?thesis by (intro same) simp_all
next
  case wf: True
  show ?thesis
  proof (cases "find_index (answers (bytes_header d)) (g_rpc_pending c)")
    case None
    show ?thesis by (rule same) (simp_all add: handle_miss[OF wf None] async_slots_def)
  next
    case (Some i)
    let ?s = "g_rpc_pending c ! i" and ?h = "bytes_header d"
    let ?s' = "complete_slot ?h ?s"
    from find_index_SomeD[OF Some] have i: "i < length (g_rpc_pending c)" "in_use ?s" "request_id ?s = hdr_request_id ?h" by auto
    have pend: "g_rpc_pending (receive d c) = (g_rpc_pending c)[i := if callback ?s = None then ?s' else release_slot ?s']"
      using deliver_pending[of i "opened c" ?h "drop RPC_HEADER_SIZE d"] i handle_hit[OF wf Some] by (simp add: Let_def)
    show ?thesis
    proof (cases "callback ?s")
      case None
      obtain A B where "filter is_async (g_rpc_pending c) = A @ filter is_async [?s] @ B"
        "filter is_async ((g_rpc_pending c)[i := ?s']) = A @ filter is_async [?s'] @ B"
        using filter_update[OF i(1)] by metis
      then have "async_slots (receive d c) = async_slots c"
        using None pend by (simp add: async_slots_def is_async_def)
      moreover have "snd (snd (px4_openamp_rpc_handle_message d c)) = Signal_slot i"
        using handle_hit[OF wf Some] None i by (simp add: deliver_response_def Let_def)
      ultimately show ?thesis by (intro same) auto
    next
      case cb: (Some f)
      obtain A B where AB: "filter is_async (g_rpc_pending c) = A @ filter is_async [?s] @ B"
        "filter is_async ((g_rpc_pending c)[i := release_slot ?s']) = A @ filter is_async [release_slot ?s'] @ B"
        using filter_update[OF i(1)] by metis
      have as: "is_async ?s" using cb i by (simp add: is_async_def)
      have disp: "snd (snd (px4_openamp_rpc_handle_message d c)) =
          Run_callback f (request_id ?s) (hdr_return_value ?h) (hdr_errno_value ?h) (response_buffer ?s)
            (unat (hdr_payload_size ?h)) (user_data ?s)"
        using handle_hit[OF wf Some] cb i by (simp add: deliver_response_def Let_def)
      show ?thesis
        by (rule runs[of A ?s B, OF _ _ _ as i(3)])
          (use AB cb pend as disp in \<open>auto simp: async_slots_def slot_simps is_async_def\<close>)
    qed
  qed
qed

text \<open>One dispatch, when the slot it belongs to has just been taken out of the table.\<close>

lemma dispatch_ok:
  assumes ud: "user_data s \<noteq> 0" and cb: "callback s = Some fs_dispatch_callback"
    and ctx: "as_ctx st (user_data s) = Some x"
  shows "run_dispatch (Run_callback (the (callback s)) (request_id s) rv ev b n (user_data s)) st =
    Ret (st\<lparr>as_runs := as_runs st @ [(x, request_id s, rv, ev)], as_ctx := (as_ctx st)(user_data s := None)\<rparr>)"
  using assms by (simp add: run_dispatch_def fs_async_dispatch_def ctx_free_def)

text \<open>What an event does to contexts and slots, with its dispatch: nothing, or one pending call is
  finished.\<close>

definition finishes :: "'w fs_async \<Rightarrow> 'w fs_async \<Rightarrow> bool" where
  "finishes st st' \<longleftrightarrow> async_ok st' \<and> async_entries st' = async_entries st \<and>
     as_ctx st' \<subseteq>\<^sub>m as_ctx st \<and> (\<exists>more. as_runs st' = as_runs st @ more)"

lemma finishes_refl: "async_ok st \<Longrightarrow> finishes st st"
  by (simp add: finishes_def)

lemma finishes_trans: "finishes a b \<Longrightarrow> finishes b c \<Longrightarrow> finishes a c"
  by (auto simp: finishes_def intro: map_le_trans)

lemma finishes_same:
  assumes "async_ok st" "async_slots c = async_slots (cl (as_rpc st))"
    "length (g_rpc_pending c) = length (g_rpc_pending (cl (as_rpc st)))" "cl r = c"
  shows "finishes st (st\<lparr>as_rpc := r\<rparr>)"
  using assms by (simp add: finishes_def async_ok_def async_entries_def Let_def)

lemma message_finishes:
  assumes ok: "async_ok st" and r: "cl r = receive d (cl (as_rpc st))"
  shows "\<exists>st'. run_dispatch (snd (snd (px4_openamp_rpc_handle_message d (cl (as_rpc st))))) (st\<lparr>as_rpc := r\<rparr>) = Ret st' \<and>
    as_rpc st' = r \<and> finishes st st'"
proof -
  let ?c = "cl (as_rpc st)"
  show ?thesis
  proof (cases rule: handle_async[of d ?c])
    case same
    then have "run_dispatch (snd (snd (px4_openamp_rpc_handle_message d ?c))) (st\<lparr>as_rpc := r\<rparr>) = Ret (st\<lparr>as_rpc := r\<rparr>)"
      by (auto simp: run_dispatch_def)
    then show ?thesis using finishes_same[OF ok same(1) handle_length r] by simp
  next
    case (runs s A B rv ev b n)
    from ok runs(1) have s: "callback s = Some fs_dispatch_callback" "user_data s \<noteq> 0"
      "user_data s \<notin> user_data ` set (A @ B)" "distinct (map user_data (A @ B))"
      "insert (user_data s) (user_data ` set (A @ B)) = dom (as_ctx st)"
      by (auto simp: async_ok_def Let_def)
    have "user_data s \<in> dom (as_ctx st)" using s(5) by blast
    then obtain x where x: "as_ctx st (user_data s) = Some x" by blast
    let ?st' = "st\<lparr>as_rpc := r, as_runs := as_runs st @ [(x, request_id s, rv, ev)], as_ctx := (as_ctx st)(user_data s := None)\<rparr>"
    have run: "run_dispatch (snd (snd (px4_openamp_rpc_handle_message d ?c))) (st\<lparr>as_rpc := r\<rparr>) = Ret ?st'"
      using dispatch_ok[OF s(2,1), of "st\<lparr>as_rpc := r\<rparr>" x rv ev b n] x runs(3) by simp
    have slots: "async_slots (cl r) = A @ B" using r runs(2) by simp
    have "async_ok ?st'"
      using ok s(3-5) runs(1) r slots unfolding async_ok_def Let_def by auto
    moreover have "async_entries ?st' = async_entries st"
    proof -
      let ?f = "\<lambda>ctx s'. (the (ctx (user_data s')), request_id s')" and ?g = "\<lambda>(ctx, rid, rv, ev). (ctx, rid)"
      have e: "map (?f ((as_ctx st)(user_data s := None))) (A @ B) = map (?f (as_ctx st)) (A @ B)"
        using s(3) by (intro map_cong refl) (metis fun_upd_other imageI)
      have "async_entries ?st' = mset (map ?g (as_runs st @ [(x, request_id s, rv, ev)])) +
          mset (map (?f ((as_ctx st)(user_data s := None))) (A @ B))" by (simp add: async_entries_def slots)
      also have "\<dots> = mset (map ?g (as_runs st @ [(x, request_id s, rv, ev)])) + mset (map (?f (as_ctx st)) (A @ B))"
        by (simp only: e)
      also have "\<dots> = async_entries st" using runs(1) x by (simp add: async_entries_def)
      finally show ?thesis .
    qed
    moreover have "as_ctx ?st' \<subseteq>\<^sub>m as_ctx st" by (simp add: map_le_def)
    ultimately show ?thesis using run by (simp add: finishes_def)
  qed
qed

text \<open>Slots that other threads claim and release.\<close>

lemma other_slots:
  assumes "event_allowed ev c" "\<And>d. ev \<noteq> Ev_message d"
  shows "async_slots (rpc_event_step me ev c) = async_slots c"
proof (cases ev)
  case (Ev_alloc b n l cb u)
  then have cb: "cb = None" using assms by (simp add: event_allowed_def)
  show ?thesis
  proof (cases "fst (alloc_pending b n l cb u c)")
    case None
    then obtain c' where a: "alloc_pending b n l cb u c = (None, c')" by (metis prod.collapse)
    then show ?thesis using alloc_pending_None[OF a] Ev_alloc by (simp add: async_slots_def)
  next
    case (Some p)
    then obtain j rid c' where a: "alloc_pending b n l cb u c = (Some (j, rid), c')" by (metis prod.collapse)
    note aS = alloc_pending_Some[OF a]
    have j: "j < length (g_rpc_pending c)" "\<not> in_use (g_rpc_pending c ! j)" using find_index_SomeD[OF aS(1)] by auto
    obtain A B where "filter is_async (g_rpc_pending c) = A @ filter is_async [g_rpc_pending c ! j] @ B"
      "filter is_async (g_rpc_pending c') = A @ filter is_async [claim_slot (b, n, l, cb, u, rid) (g_rpc_pending c ! j)] @ B"
      using filter_update[OF j(1)] aS(2) by metis
    then show ?thesis using j(2) cb a Ev_alloc by (simp add: async_slots_def is_async_def claim_slot_def)
  qed
next
  case (Ev_release j)
  then have j: "j < length (g_rpc_pending c)" "callback (g_rpc_pending c ! j) = None"
    using assms by (auto simp: event_allowed_def)
  obtain A B where "filter is_async (g_rpc_pending c) = A @ filter is_async [g_rpc_pending c ! j] @ B"
    "filter is_async ((g_rpc_pending c)[j := release_slot (g_rpc_pending c ! j)]) =
      A @ filter is_async [release_slot (g_rpc_pending c ! j)] @ B"
    using filter_update[OF j(1)] by metis
  then show ?thesis using Ev_release j(2)
    by (simp add: async_slots_def is_async_def slot_simps release_slot_locked_def set_slot_def)
qed (use assms in \<open>auto simp: async_slots_def\<close>)

lemma event_finishes:
  assumes ok: "async_ok st" and ev: "event_allowed ev (cl (as_rpc st))"
    and r: "cl r = rpc_event_step me ev (cl (as_rpc st))"
  shows "\<exists>st'. run_dispatches (event_dispatches me [ev] (cl (as_rpc st))) (st\<lparr>as_rpc := r\<rparr>) = Ret st' \<and>
    as_rpc st' = r \<and> finishes st st'"
proof (cases "\<exists>d. ev = Ev_message d")
  case True
  then obtain d where d: "ev = Ev_message d" by blast
  from message_finishes[OF ok, of r d] r d show ?thesis by auto
next
  case False
  then have "event_dispatches me [ev] (cl (as_rpc st)) = []" by (cases ev) auto
  moreover have "finishes st (st\<lparr>as_rpc := r\<rparr>)"
    by (rule finishes_same[OF ok other_slots _ r]) (use ev False in auto)
  ultimately show ?thesis by simp
qed

section \<open>Dispatches during a send\<close>

lemma run_dispatches_append:
  "run_dispatches (ds @ es) st = exec_bind (run_dispatches ds st) (run_dispatches es)"
proof (induction ds arbitrary: st)
  case (Cons d ds)
  then show ?case by (cases "run_dispatch d st") auto
qed simp

text \<open>Dispatching does not look at the RPC client.\<close>

lemma run_dispatch_rpc:
  "run_dispatch d (st\<lparr>as_rpc := r\<rparr>) = Ret st' \<Longrightarrow>
   as_rpc st' = r \<and> run_dispatch d (st\<lparr>as_rpc := r'\<rparr>) = Ret (st'\<lparr>as_rpc := r'\<rparr>)"
  by (auto simp: run_dispatch_def fs_async_dispatch_def ctx_free_def split: rpc_dispatch.splits if_splits option.splits)

lemma run_dispatches_rpc:
  "run_dispatches ds (st\<lparr>as_rpc := r\<rparr>) = Ret st' \<Longrightarrow>
   as_rpc st' = r \<and> run_dispatches ds (st\<lparr>as_rpc := r'\<rparr>) = Ret (st'\<lparr>as_rpc := r'\<rparr>)"
proof (induction ds arbitrary: st)
  case (Cons d ds)
  from Cons.prems obtain s1 where s1: "run_dispatch d (st\<lparr>as_rpc := r\<rparr>) = Ret s1" "run_dispatches ds s1 = Ret st'"
    by (auto simp: exec_bind_Ret_iff)
  note d = run_dispatch_rpc[OF s1(1), of r']
  have "s1 = s1\<lparr>as_rpc := r\<rparr>" using d by simp
  then have "run_dispatches ds (s1\<lparr>as_rpc := r\<rparr>) = Ret st'" using s1(2) by simp
  from Cons.IH[OF this] d show ?case by simp
qed auto

definition calm_event :: "rpc_event \<Rightarrow> bool" where
  "calm_event ev = (case ev of Ev_alloc b n l cb u \<Rightarrow> cb = None | Ev_release i \<Rightarrow> False | _ \<Rightarrow> True)"

lemma calm_allowed: "calm_event ev \<Longrightarrow> event_allowed ev c"
  by (auto simp: calm_event_def event_allowed_def split: rpc_event.splits)

lemma events_finish:
  "async_ok st \<Longrightarrow> list_all calm_event evs \<Longrightarrow> cl r = rpc_run_events me evs (cl (as_rpc st)) \<Longrightarrow>
   \<exists>st'. run_dispatches (event_dispatches me evs (cl (as_rpc st))) (st\<lparr>as_rpc := r\<rparr>) = Ret st' \<and>
    as_rpc st' = r \<and> finishes st st'"
proof (induction evs arbitrary: st)
  case Nil
  then show ?case using finishes_same[of st "cl r" r] by simp
next
  case (Cons ev evs)
  let ?c = "cl (as_rpc st)"
  let ?r1 = "r\<lparr>cl := rpc_event_step me ev ?c\<rparr>"
  have "event_allowed ev ?c" using Cons.prems by (simp add: calm_allowed)
  from event_finishes[OF Cons.prems(1) this, of ?r1 me] obtain s1 where s1:
    "run_dispatches (event_dispatches me [ev] ?c) (st\<lparr>as_rpc := ?r1\<rparr>) = Ret s1" "as_rpc s1 = ?r1" "finishes st s1" by auto
  have "async_ok s1" using s1(3) by (simp add: finishes_def)
  from Cons.IH[OF this, of] s1(2) Cons.prems obtain s2 where s2:
    "run_dispatches (event_dispatches me evs (rpc_event_step me ev ?c)) (s1\<lparr>as_rpc := r\<rparr>) = Ret s2"
    "as_rpc s2 = r" "finishes s1 s2" by auto
  have "run_dispatches (event_dispatches me [ev] ?c) (st\<lparr>as_rpc := r\<rparr>) = Ret (s1\<lparr>as_rpc := r\<rparr>)"
    using run_dispatches_rpc[OF s1(1)] by blast
  then have "run_dispatches (event_dispatches me [ev] ?c @ event_dispatches me evs (rpc_event_step me ev ?c))
      (st\<lparr>as_rpc := r\<rparr>) = Ret s2"
    using s2(1) by (simp only: run_dispatches_append exec_bind.simps)
  then show ?case using s2(2,3) s1(3) by (auto intro: finishes_trans)
qed

text \<open>The result of a send: that of the last attempt.\<close>

definition send_result :: "'w rpc_os \<Rightarrow> bytes \<Rightarrow> 'w \<Rightarrow> int" where
  "send_result os buffer w = fst (rpc_send_async os 0 buffer (rpc_boot (\<lambda>_. []) (\<lambda>_. 0)) w)"

lemma run_events_append: "rpc_run_events i (xs @ ys) c = rpc_run_events i ys (rpc_run_events i xs c)"
  by (simp add: rpc_run_events_def)

lemma send_async_eq:
  "\<exists>w'. rpc_send_async os i buffer c w = (send_result os buffer w, rpc_run_events i (send_events os buffer w) c, w')"
  by (auto simp: rpc_send_async_def send_result_def send_events_def Let_def run_events_append split: prod.splits)

text \<open>What the transport documents: a message that it refuses is not delivered, so that nobody answers
  it.  During a send, other threads do not end their calls.\<close>

definition honest_transport :: "'w rpc_os \<Rightarrow> bool" where
  "honest_transport os \<longleftrightarrow> (\<forall>buffer w. list_all calm_event (send_events os buffer w) \<and>
     (send_result os buffer w < 0 \<longrightarrow>
       (\<forall>d. Ev_message d \<in> set (send_events os buffer w) \<longrightarrow>
         hdr_request_id (bytes_header d) \<noteq> hdr_request_id (bytes_header buffer))))"

text \<open>A slot that no message answers stays as it is.\<close>

lemma unanswered_slot:
  "list_all calm_event evs \<Longrightarrow> \<forall>d. Ev_message d \<in> set evs \<longrightarrow> hdr_request_id (bytes_header d) \<noteq> request_id s \<Longrightarrow>
   j < length (g_rpc_pending c) \<Longrightarrow> g_rpc_pending c ! j = s \<Longrightarrow> in_use s \<Longrightarrow>
   g_rpc_pending (rpc_run_events i evs c) ! j = s"
proof (induction evs arbitrary: c)
  case (Cons ev evs)
  have "g_rpc_pending (rpc_event_step i ev c) ! j = s"
  proof (cases ev)
    case (Ev_message d)
    then have "\<not> answers (bytes_header d) (g_rpc_pending c ! j)" using Cons.prems by auto
    then show ?thesis using handle_slot_cases[OF Cons.prems(3), of d] Cons.prems(4) Ev_message by auto
  next
    case (Ev_alloc b n l cb u)
    then show ?thesis using alloc_other_slot[of c j b n l cb u] Cons.prems by simp
  qed (use Cons.prems in \<open>auto simp: calm_event_def\<close>)
  then show ?case using Cons.IH[of "rpc_event_step i ev c"] Cons.prems by simp
qed simp

section \<open>One asynchronous call\<close>

lemma mset_map_middle: "mset (map f (A @ s # B)) = add_mset (f s) (mset (map f (A @ B)))"
  by simp

lemma claim_async:
  assumes ok: "async_ok st" and a: "ctx \<noteq> 0" "ctx \<notin> dom (as_ctx st)"
    and alloc: "alloc_pending None 0 None (Some fs_dispatch_callback) ctx (cl (as_rpc st)) = (Some (i, rid), c)"
    and r: "cl r = c"
  shows "async_ok (st\<lparr>as_rpc := r, as_ctx := (as_ctx st)(ctx := Some x)\<rparr>)"
    and "async_entries (st\<lparr>as_rpc := r, as_ctx := (as_ctx st)(ctx := Some x)\<rparr>) = add_mset (x, rid) (async_entries st)"
proof -
  note aS = alloc_pending_Some[OF alloc]
  let ?p = "g_rpc_pending (cl (as_rpc st))"
  let ?s = "claim_slot (None, 0, None, Some fs_dispatch_callback, ctx, rid) (?p ! i)"
  have i: "i < length ?p" "\<not> in_use (?p ! i)" using find_index_SomeD[OF aS(1)] by auto
  obtain A B where AB: "async_slots (cl (as_rpc st)) = A @ B" "async_slots c = A @ ?s # B"
    using filter_update[OF i(1), of is_async ?s] i(2) aS(2)
    by (auto simp: async_slots_def is_async_def claim_slot_def)
  have s: "user_data ?s = ctx" "request_id ?s = rid" "callback ?s = Some fs_dispatch_callback"
    by (simp_all add: claim_slot_def)
  have dom: "user_data ` set (A @ B) = dom (as_ctx st)" using ok AB by (simp add: async_ok_def Let_def)
  show "async_ok (st\<lparr>as_rpc := r, as_ctx := (as_ctx st)(ctx := Some x)\<rparr>)"
    using ok AB s r a dom aS(2) i unfolding async_ok_def Let_def by auto
  let ?f = "\<lambda>m s'. (the (m (user_data s')), request_id s')" and ?g = "\<lambda>(ctx, rid, rv, ev). (ctx, rid)"
  have e: "map (?f ((as_ctx st)(ctx := Some x))) (A @ B) = map (?f (as_ctx st)) (A @ B)"
    using dom a(2) by (intro map_cong refl) (metis fun_upd_other imageI)
  have "?f ((as_ctx st)(ctx := Some x)) ?s = (x, rid)" using s by simp
  then have "mset (map (?f ((as_ctx st)(ctx := Some x))) (A @ ?s # B)) = add_mset (x, rid) (mset (map (?f (as_ctx st)) (A @ B)))"
    by (simp only: mset_map_middle e)
  then show "async_entries (st\<lparr>as_rpc := r, as_ctx := (as_ctx st)(ctx := Some x)\<rparr>) = add_mset (x, rid) (async_entries st)"
    unfolding async_entries_def using AB r by simp
qed

text \<open>The slot of a call that fails is released and its context freed.\<close>

lemma withdraw_async:
  assumes ok: "async_ok st" and j: "j < length (g_rpc_pending (cl (as_rpc st)))"
    and s: "is_async (g_rpc_pending (cl (as_rpc st)) ! j)" "user_data (g_rpc_pending (cl (as_rpc st)) ! j) = ctx"
      "request_id (g_rpc_pending (cl (as_rpc st)) ! j) = rid"
    and x: "as_ctx st ctx = Some x" and r: "cl r = release_slot_locked j (cl (as_rpc st))"
  shows "async_ok (st\<lparr>as_rpc := r, as_ctx := (as_ctx st)(ctx := None)\<rparr>)"
    and "async_entries st = add_mset (x, rid) (async_entries (st\<lparr>as_rpc := r, as_ctx := (as_ctx st)(ctx := None)\<rparr>))"
proof -
  let ?p = "g_rpc_pending (cl (as_rpc st))"
  have pend: "g_rpc_pending (cl r) = ?p[j := release_slot (?p ! j)]"
    by (simp add: r release_slot_locked_def set_slot_def)
  obtain A B where AB: "async_slots (cl (as_rpc st)) = A @ (?p ! j) # B" "async_slots (cl r) = A @ B"
    using filter_update[OF j, of is_async "release_slot (?p ! j)"] s(1) pend
    by (auto simp: async_slots_def is_async_def slot_simps)
  from ok AB s have d: "ctx \<notin> user_data ` set (A @ B)" "distinct (map user_data (A @ B))"
    "insert ctx (user_data ` set (A @ B)) = dom (as_ctx st)"
    by (auto simp: async_ok_def Let_def)
  show "async_ok (st\<lparr>as_rpc := r, as_ctx := (as_ctx st)(ctx := None)\<rparr>)"
    using ok AB d pend unfolding async_ok_def Let_def by auto
  let ?f = "\<lambda>m s'. (the (m (user_data s')), request_id s')"
  have e: "map (?f ((as_ctx st)(ctx := None))) (A @ B) = map (?f (as_ctx st)) (A @ B)"
    using d(1) by (intro map_cong refl) (metis fun_upd_other imageI)
  have "?f (as_ctx st) (?p ! j) = (x, rid)" using s x by simp
  then have "mset (map (?f (as_ctx st)) (A @ (?p ! j) # B)) = add_mset (x, rid) (mset (map (?f ((as_ctx st)(ctx := None))) (A @ B)))"
    by (simp only: mset_map_middle e)
  then show "async_entries st = add_mset (x, rid) (async_entries (st\<lparr>as_rpc := r, as_ctx := (as_ctx st)(ctx := None)\<rparr>))"
    unfolding async_entries_def using AB by simp
qed

definition fresh_malloc :: "'w fs_async_env \<Rightarrow> bool" where
  "fresh_malloc env \<longleftrightarrow> (\<forall>live w a w'. ae_malloc env live w = (Some a, w') \<longrightarrow> a \<noteq> 0 \<and> a \<notin> live)"

text \<open>The outcome of a call: it is refused and leaves no trace, or it is accepted and adds one entry.\<close>

definition call_outcome :: "'w fs_async \<Rightarrow> fs_async_context \<Rightarrow> int \<Rightarrow> 'w fs_async \<Rightarrow> bool" where
  "call_outcome st x ret st' \<longleftrightarrow> async_ok st' \<and> (\<exists>more. as_runs st' = as_runs st @ more) \<and>
     (ret < 0 \<and> async_entries st' = async_entries st \<or>
      (\<exists>rid. ret = sint rid \<and> async_entries st' = add_mset (x, rid) (async_entries st)))"

lemma outcome_world:
  assumes "async_ok st" "cl r = cl (as_rpc st)"
  shows "async_ok (st\<lparr>as_rpc := r\<rparr>)" "async_entries (st\<lparr>as_rpc := r\<rparr>) = async_entries st"
  using assms by (simp_all add: async_ok_def async_entries_def Let_def)

text \<open>The call of the RPC client with its dispatches, once the context is allocated.\<close>

lemma call_async_outcome:
  assumes ok: "async_ok st" and os: "honest_transport os" and len: "length payload + 24 < 2 ^ 32"
    and a: "a \<noteq> 0" "a \<notin> dom (as_ctx st)" and r1: "cl r1 = cl (as_rpc st)"
  shows "\<exists>ret q r2 st2.
    px4_openamp_rpc_call_async os cat op (Some payload) (length payload) None 0 (Some fs_dispatch_callback) a r1 = Ret (ret, q, r2) \<and>
    run_dispatches (call_async_dispatches os cat op (Some payload) (length payload) fs_dispatch_callback a r1)
      (st\<lparr>as_ctx := (as_ctx st)(a := Some x), as_rpc := r2\<rparr>) = Ret st2 \<and> (\<exists>more. as_runs st2 = as_runs st @ more) \<and>
    (ret < 0 \<and> 0 < err r2 \<and> as_ctx st2 a \<noteq> None \<and> async_ok (st2\<lparr>as_ctx := (as_ctx st2)(a := None)\<rparr>) \<and>
       async_entries (st2\<lparr>as_ctx := (as_ctx st2)(a := None)\<rparr>) = async_entries st \<or>
     ret = 0 \<and> (\<exists>rid. q = Some rid \<and> async_ok st2 \<and> async_entries st2 = add_mset (x, rid) (async_entries st)))"
proof -
  let ?n = "length payload"
  let ?ctx = "(as_ctx st)(a := Some x)"
  let ?call = "px4_openamp_rpc_call_async os cat op (Some payload) ?n None 0 (Some fs_dispatch_callback) a r1"
  let ?disp = "call_async_dispatches os cat op (Some payload) ?n fs_dispatch_callback a r1"
  have undo: "?ctx(a := None) = as_ctx st" using a(2) by (simp add: fun_upd_idem domIff)
  have plain: ?thesis
    if "?call = Ret (- 1, None, r2)" "?disp = []" "async_slots (cl r2) = async_slots (cl (as_rpc st))"
      "length (g_rpc_pending (cl r2)) = length (g_rpc_pending (cl (as_rpc st)))" "0 < err r2" for r2
  proof -
    have "async_ok (st\<lparr>as_rpc := r2\<rparr>)" "async_entries (st\<lparr>as_rpc := r2\<rparr>) = async_entries st"
      using ok that(3,4) by (simp_all add: async_ok_def async_entries_def Let_def)
    then show ?thesis using that undo
      by (intro exI[of _ "- 1"] exI[of _ None] exI[of _ r2] exI[of _ "st\<lparr>as_ctx := ?ctx, as_rpc := r2\<rparr>"]) simp
  qed
  show ?thesis
  proof (cases "px4_openamp_rpc_endpoint_ready os (world r1)")
    case False
    then show ?thesis using r1
      by (intro plain[of "r1\<lparr>err := ENOTCONN\<rparr>"]) (simp_all add: px4_openamp_rpc_call_async_def call_async_dispatches_def)
  next
    case ready: True
    obtain al c where al: "alloc_pending None 0 None (Some fs_dispatch_callback) a (cl r1) = (al, c)" by (metis surj_pair)
    show ?thesis
    proof (cases al)
      case None
      from alloc_pending_None[OF al[unfolded None]] have "g_rpc_pending c = g_rpc_pending (cl (as_rpc st))" using r1 by simp
      then show ?thesis using ready al None len
        by (intro plain[of "r1\<lparr>cl := c, err := EBUSY\<rparr>"]) (simp_all add: px4_openamp_rpc_call_async_def call_async_dispatches_def async_slots_def Let_def)
    next
      case (Some ir)
      obtain i rid where ir: "ir = (i, rid)" by (metis surj_pair)
      note al' = al[unfolded Some ir]
      note aS = alloc_pending_Some[OF al']
      have i: "i < length (g_rpc_pending (cl r1))" "\<not> in_use (g_rpc_pending (cl r1) ! i)" using find_index_SomeD[OF aS(1)] by auto
      let ?s = "claim_slot (None, 0, None, Some fs_dispatch_callback, a, rid) (g_rpc_pending (cl r1) ! i)"
      obtain mr w where mal: "os_malloc os (rpc_total_len ?n) (world r1) = (mr, w)" by (metis surj_pair)
      show ?thesis
      proof (cases mr)
        case None
        obtain A B where "filter is_async (g_rpc_pending (cl r1)) = A @ filter is_async [g_rpc_pending (cl r1) ! i] @ B"
          "filter is_async ((g_rpc_pending (cl r1))[i := release_slot ?s]) = A @ filter is_async [release_slot ?s] @ B"
          using filter_update[OF i(1)] by metis
        then have "async_slots (release_slot_locked i c) = async_slots (cl (as_rpc st))"
          using i aS(2) r1 by (simp add: async_slots_def release_slot_locked_def set_slot_def is_async_def slot_simps)
        then show ?thesis using ready al' mal None len aS(2) r1
          by (intro plain[of "\<lparr>cl = release_slot_locked i c, err = ENOMEM, world = w\<rparr>"])
            (simp_all add: px4_openamp_rpc_call_async_def call_async_dispatches_def Let_def)
      next
        case mem: (Some g)
        let ?h = "rpc_request_header cat op rid ?n"
        let ?b = "header_bytes ?h @ payload"
        have fill: "rpc_fill_message g ?h (Some payload) ?n = Ret ?b"
          using fill_message_Ret[of ?n payload g ?h] len by simp
        have id: "hdr_request_id (bytes_header ?b) = rid"
          using bytes_header_of_bytes[of ?h payload] by (simp add: rpc_request_header_def)
        let ?evs = "send_events os ?b w" and ?res = "send_result os ?b w"
        let ?c1 = "rpc_run_events i ?evs c"
        obtain w' where send: "rpc_send_async os i ?b c w = (?res, ?c1, w')"
          by (rule exE[OF send_async_eq[of os i ?b c w]])
        have calm: "list_all calm_event ?evs" using os by (auto simp: honest_transport_def)
        let ?rc = "r1\<lparr>cl := c\<rparr>"
        let ?st1 = "st\<lparr>as_rpc := ?rc, as_ctx := ?ctx\<rparr>"
        note claim = claim_async[OF ok a al'[unfolded r1], of ?rc x, simplified]
        have disp: "?disp = event_dispatches i ?evs c"
          using ready al' mal mem fill by (simp add: call_async_dispatches_def)
        let ?r' = "\<lparr>cl = ?c1, err = err r1, world = os_free os w'\<rparr>"
        from events_finish[OF claim(1) calm, of ?r' i] obtain s2 where s2:
          "run_dispatches (event_dispatches i ?evs c) (st\<lparr>as_ctx := ?ctx, as_rpc := ?r'\<rparr>) = Ret s2"
          "as_rpc s2 = ?r'" "finishes ?st1 s2" by auto
        obtain more where more: "as_runs s2 = as_runs st @ more" using s2(3) by (auto simp: finishes_def)
        show ?thesis
        proof (cases "?res < 0")
          case False
          have "?call = Ret (0, Some rid, ?r')"
            using ready len al' mal mem fill send False by (simp add: px4_openamp_rpc_call_async_def Let_def)
          moreover have "async_ok s2" "async_entries s2 = add_mset (x, rid) (async_entries st)"
            using s2(3) claim(2) by (simp_all add: finishes_def)
          ultimately show ?thesis using disp s2(1) more
            by (intro exI[of _ 0] exI[of _ "Some rid"] exI[of _ ?r'] exI[of _ s2]) simp
        next
          case True
          let ?r2 = "\<lparr>cl = release_slot_locked i ?c1, err = EIO, world = os_free os w'\<rparr>"
          have call: "?call = Ret (- 1, None, ?r2)"
            using ready len al' mal mem fill send True by (simp add: px4_openamp_rpc_call_async_def Let_def)
          have run: "run_dispatches ?disp (st\<lparr>as_ctx := ?ctx, as_rpc := ?r2\<rparr>) = Ret (s2\<lparr>as_rpc := ?r2\<rparr>)"
            using run_dispatches_rpc[OF s2(1), of ?r2] disp by simp
          have quiet: "\<forall>d. Ev_message d \<in> set ?evs \<longrightarrow> hdr_request_id (bytes_header d) \<noteq> request_id ?s"
          proof -
            have "\<forall>d. Ev_message d \<in> set ?evs \<longrightarrow> hdr_request_id (bytes_header d) \<noteq> hdr_request_id (bytes_header ?b)"
              using os True unfolding honest_transport_def by blast
            moreover have "request_id ?s = rid" by (simp add: claim_slot_def)
            ultimately show ?thesis by (simp only: id)
          qed
          have at: "g_rpc_pending ?c1 ! i = ?s"
            by (rule unanswered_slot[OF calm quiet]) (use aS(2) i in \<open>auto simp: claim_slot_def\<close>)
          have il: "i < length (g_rpc_pending ?c1)" using i aS(2) by simp
          have ok2: "async_ok s2" using s2(3) by (simp add: finishes_def)
          have slot: "is_async ?s" "user_data ?s = a" "request_id ?s = rid" by (simp_all add: is_async_def claim_slot_def)
          have "?s \<in> set (async_slots ?c1)" using at il slot(1) nth_mem[OF il] by (simp add: async_slots_def)
          then have "a \<in> dom (as_ctx s2)" using ok2 s2(2) slot(2) by (force simp: async_ok_def Let_def)
          then have cx: "as_ctx s2 a = Some x"
            using s2(3) by (auto simp: finishes_def map_le_def)
          note wd = withdraw_async[OF ok2, of i a rid x ?r2] at il slot cx s2(2)
          have "async_ok (s2\<lparr>as_rpc := ?r2, as_ctx := (as_ctx s2)(a := None)\<rparr>)" using wd by simp
          moreover have "async_entries (s2\<lparr>as_rpc := ?r2, as_ctx := (as_ctx s2)(a := None)\<rparr>) = async_entries st"
            using wd s2(3) claim(2) by (simp add: finishes_def)
          ultimately show ?thesis using call run cx more
            by (intro exI[of _ "- 1"] exI[of _ None] exI[of _ ?r2] exI[of _ "s2\<lparr>as_rpc := ?r2\<rparr>"]) simp
        qed
      qed
    qed
  qed
qed

lemma rpc_async_outcome:
  assumes ok: "async_ok st" and env: "honest_transport (ae_os env)" "fresh_malloc env"
    and len: "length payload + 24 < 2 ^ 32"
  shows "\<exists>ret st'. fs_rpc_async env opcode payload cb ud st = Ret (ret, st') \<and>
    call_outcome st \<lparr>ctx_callback = cb, ctx_user_data = ud\<rparr> ret st'"
proof -
  let ?os = "ae_os env" and ?n = "length payload" and ?x = "\<lparr>ctx_callback = cb, ctx_user_data = ud\<rparr>"
  let ?cat = "rpc_category_code PX4_RPC_CATEGORY_FS" and ?op = "rpc_fs_code opcode"
  have same: "call_outcome st ?x ret (st\<lparr>as_rpc := r\<rparr>)" if "cl r = cl (as_rpc st)" "ret < 0" for r ret
    using outcome_world[OF ok that(1)] that(2) by (simp add: call_outcome_def)
  show ?thesis
  proof (cases "px4_openamp_rpc_endpoint_ready ?os (world (as_rpc st))")
    case False
    then show ?thesis using same[of "as_rpc st" "- ENOTCONN"] by (simp add: fs_rpc_async_def Let_def)
  next
    case ready: True
    obtain am w1 where m: "ae_malloc env (dom (as_ctx st)) (world (as_rpc st)) = (am, w1)" by (metis surj_pair)
    show ?thesis
    proof (cases am)
      case None
      then show ?thesis using same[of "(as_rpc st)\<lparr>world := w1\<rparr>" "- ENOMEM"] ready m len
        by (simp add: fs_rpc_async_def Let_def)
    next
      case (Some a)
      have a: "a \<noteq> 0" "a \<notin> dom (as_ctx st)" using env(2) m Some by (auto simp: fresh_malloc_def)
      let ?r1 = "(as_rpc st)\<lparr>world := w1\<rparr>"
      from call_async_outcome[OF ok env(1) len a, of ?r1 ?cat ?op ?x] obtain ret q r2 st2 more where c:
        "px4_openamp_rpc_call_async ?os ?cat ?op (Some payload) ?n None 0 (Some fs_dispatch_callback) a ?r1 = Ret (ret, q, r2)"
        "run_dispatches (call_async_dispatches ?os ?cat ?op (Some payload) ?n fs_dispatch_callback a ?r1)
          (st\<lparr>as_ctx := (as_ctx st)(a := Some ?x), as_rpc := r2\<rparr>) = Ret st2" "as_runs st2 = as_runs st @ more"
        "ret < 0 \<and> 0 < err r2 \<and> as_ctx st2 a \<noteq> None \<and> async_ok (st2\<lparr>as_ctx := (as_ctx st2)(a := None)\<rparr>) \<and>
           async_entries (st2\<lparr>as_ctx := (as_ctx st2)(a := None)\<rparr>) = async_entries st \<or>
         ret = 0 \<and> (\<exists>rid. q = Some rid \<and> async_ok st2 \<and> async_entries st2 = add_mset (?x, rid) (async_entries st))"
        by auto
      from c(4) show ?thesis
      proof (elim disjE conjE exE)
        assume f: "ret < 0" "0 < err r2" "as_ctx st2 a \<noteq> None" "async_ok (st2\<lparr>as_ctx := (as_ctx st2)(a := None)\<rparr>)"
          "async_entries (st2\<lparr>as_ctx := (as_ctx st2)(a := None)\<rparr>) = async_entries st"
        then have "fs_rpc_async env opcode payload cb ud st = Ret (- err r2, st2\<lparr>as_ctx := (as_ctx st2)(a := None)\<rparr>)"
          using ready m Some len c by (auto simp: fs_rpc_async_def Let_def ctx_free_def)
        then show ?thesis using f c(3) by (simp add: call_outcome_def)
      next
        fix rid assume "ret = 0" "q = Some rid" "async_ok st2" "async_entries st2 = add_mset (?x, rid) (async_entries st)"
        then show ?thesis using ready m Some len c by (auto simp: fs_rpc_async_def Let_def call_outcome_def)
      qed
    qed
  qed
qed

lemma async_request_outcome:
  assumes ok: "async_ok st" and env: "honest_transport (ae_os env)" "fresh_malloc env"
    and len: "length payload + 24 < 2 ^ 32"
  shows "\<exists>ret st'. fs_async_request env opcode payload cb ud st = Ret (ret, st') \<and>
    call_outcome st \<lparr>ctx_callback = cb, ctx_user_data = ud\<rparr> ret st'"
proof (cases "length payload > 256")
  case False
  then show ?thesis using rpc_async_outcome[OF assms] by (simp add: fs_async_request_def)
next
  case True
  obtain mr w where m: "os_malloc (ae_os env) (length payload) (world (as_rpc st)) = (mr, w)" by (metis surj_pair)
  let ?st = "st\<lparr>as_rpc := (as_rpc st)\<lparr>world := w\<rparr>\<rparr>"
  have st: "async_ok ?st" "async_entries ?st = async_entries st" using outcome_world[OF ok] by simp_all
  show ?thesis
  proof (cases mr)
    case None
    then show ?thesis using True m st by (simp add: fs_async_request_def call_outcome_def)
  next
    case (Some g)
    from rpc_async_outcome[OF st(1) env len, of opcode cb ud] obtain ret s1 where s1:
      "fs_rpc_async env opcode payload cb ud ?st = Ret (ret, s1)"
      "call_outcome ?st \<lparr>ctx_callback = cb, ctx_user_data = ud\<rparr> ret s1" by blast
    let ?s = "s1\<lparr>as_rpc := (as_rpc s1)\<lparr>world := os_free (ae_os env) (world (as_rpc s1))\<rparr>\<rparr>"
    have "async_ok ?s" "async_entries ?s = async_entries s1"
      using outcome_world[of s1] s1(2) by (simp_all add: call_outcome_def)
    then have "call_outcome st \<lparr>ctx_callback = cb, ctx_user_data = ud\<rparr> ret ?s"
      using s1(2) st(2) by (simp add: call_outcome_def)
    then show ?thesis using True m Some s1(1) by (simp add: fs_async_request_def)
  qed
qed

text \<open>The arguments of a call are addressable: the path and the buffer fit into 32 bits with the headers,
  and the buffer has the bytes that are claimed.\<close>

fun async_args_ok :: "async_step \<Rightarrow> bool" where
  "async_args_ok (Do_open path flags mode cb ud) \<longleftrightarrow> (case path of None \<Rightarrow> True | Some p \<Rightarrow> length p + 64 < 2 ^ 32)"
| "async_args_ok (Do_write fd buffer n cb ud) \<longleftrightarrow>
     n + 64 < 2 ^ 32 \<and> (case buffer of None \<Rightarrow> True | Some b \<Rightarrow> n \<le> length b)"
| "async_args_ok (Do_close fd cb ud) \<longleftrightarrow> True"
| "async_args_ok (Do_event ev) \<longleftrightarrow> True"

fun step_context :: "async_step \<Rightarrow> fs_async_context" where
  "step_context (Do_open path flags mode cb ud) = \<lparr>ctx_callback = cb, ctx_user_data = ud\<rparr>"
| "step_context (Do_write fd buffer n cb ud) = \<lparr>ctx_callback = cb, ctx_user_data = ud\<rparr>"
| "step_context (Do_close fd cb ud) = \<lparr>ctx_callback = cb, ctx_user_data = ud\<rparr>"
| "step_context (Do_event ev) = \<lparr>ctx_callback = None, ctx_user_data = 0\<rparr>"

fun is_event :: "async_step \<Rightarrow> bool" where
  "is_event (Do_event ev) = True"
| "is_event _ = False"

lemma async_step_outcome:
  assumes ok: "async_ok st" and env: "honest_transport (ae_os env)" "fresh_malloc env" and args: "async_args_ok step"
  shows "\<exists>ret st'. async_call env step st = Ret (ret, st') \<and>
    (if is_event step then finishes st st' else call_outcome st (step_context step) ret st')"
proof (cases step)
  case (Do_open path flags mode cb ud)
  show ?thesis
  proof (cases path)
    case None
    then show ?thesis using Do_open ok by (simp add: rzv_remote_fs_open_async_def call_outcome_def)
  next
    case (Some p)
    have len: "length (fs_open_request flags mode p) + 24 < 2 ^ 32"
      using args Do_open Some
      by (simp add: fs_open_request_def path_len32_def c_string_def int32_def u32.enc_length)
    then show ?thesis
      using async_request_outcome[OF ok env len, of PX4_RPC_FS_OPEN cb ud] Do_open Some ok
      by (auto simp: rzv_remote_fs_open_async_def call_outcome_def)
  qed
next
  case (Do_write fd buffer n cb ud)
  show ?thesis
  proof (cases "n > 0 \<and> buffer = None")
    case True
    then show ?thesis using Do_write ok by (simp add: rzv_remote_fs_write_async_def call_outcome_def)
  next
    case False
    let ?data = "if n > 0 then the buffer else []"
    have data: "\<not> length ?data < n" using args Do_write False by (cases buffer) auto
    have len: "length (int32 fd @ le32 (of_nat n) @ take n ?data) + 24 < 2 ^ 32"
      using args Do_write by (auto simp: int32_def u32.enc_length min_def)
    have n: "\<not> n > 4294967295" using args Do_write by simp
    show ?thesis
      using async_request_outcome[OF ok env len, of PX4_RPC_FS_WRITE cb ud] Do_write data n
      by (simp only: async_call.simps rzv_remote_fs_write_async_def Let_def False if_False simp_thms
          is_event.simps step_context.simps)
  qed
next
  case (Do_close fd cb ud)
  have len: "length (int32 fd) + 24 < 2 ^ 32" by (simp add: int32_def u32.enc_length)
  then show ?thesis
    using rpc_async_outcome[OF ok env len, of PX4_RPC_FS_CLOSE cb ud] Do_close
    by (simp add: rzv_remote_fs_close_async_def)
next
  case (Do_event ev)
  show ?thesis
  proof (cases "event_allowed ev (cl (as_rpc st))")
    case True
    from event_finishes[OF ok True, of "(as_rpc st)\<lparr>cl := rpc_event_step MAX_PENDING_RPC ev (cl (as_rpc st))\<rparr>" MAX_PENDING_RPC]
    show ?thesis using Do_event True by (auto simp: async_event_def Let_def)
  next
    case False
    then show ?thesis using Do_event finishes_refl[OF ok] by (simp add: async_event_def Let_def)
  qed
qed

lemma run_outcome:
  assumes "async_ok st" "honest_transport (ae_os env)" "fresh_malloc env" "list_all async_args_ok steps"
  shows "\<exists>st'. async_run env steps st = Ret st' \<and> async_ok st'"
  using assms(1,4)
proof (induction steps arbitrary: st)
  case (Cons a steps)
  from async_step_outcome[OF Cons.prems(1) assms(2,3), of a] Cons.prems(2) obtain ret s1 where
    s1: "async_call env a st = Ret (ret, s1)" "async_ok s1"
    by (auto simp: finishes_def call_outcome_def split: if_splits)
  from Cons.IH[OF s1(2)] Cons.prems(2) s1(1) show ?case by simp
qed simp

lemma boot_ok: "async_ok (async_boot m z e w)"
  by (simp add: async_ok_def async_boot_def async_slots_def rpc_boot_def is_async_def blank_slot_def Let_def)

section \<open>The properties\<close>

lemma async_slot_context:
  assumes "async_ok st"
  shows "card (dom (as_ctx st)) = length (async_slots (cl (as_rpc st)))" "card (dom (as_ctx st)) \<le> MAX_PENDING_RPC"
proof -
  let ?S = "async_slots (cl (as_rpc st))"
  have "dom (as_ctx st) = set (map user_data ?S)" "distinct (map user_data ?S)"
    using assms by (simp_all add: async_ok_def Let_def)
  then show card: "card (dom (as_ctx st)) = length ?S" using distinct_card[of "map user_data ?S"] by simp
  have "length ?S \<le> length (g_rpc_pending (cl (as_rpc st)))" unfolding async_slots_def by (rule length_filter_le)
  then show "card (dom (as_ctx st)) \<le> MAX_PENDING_RPC" using assms card by (simp add: async_ok_def Let_def)
qed


text \<open>Each accepted call is answered once: a call either is refused with a negative result and leaves
  no trace, or adds one entry with its context and the id it returns; an entry stays pending until
  the callback of the context runs with that id, and nothing else adds or removes one.\<close>

theorem async_calls_tracked:
  assumes "honest_transport (ae_os env)" "fresh_malloc env" "list_all async_args_ok (steps @ [step])"
    and run: "async_run env steps (async_boot m z e w) = Ret st"
  shows "\<exists>ret st'. async_call env step st = Ret (ret, st') \<and> (\<exists>more. as_runs st' = as_runs st @ more) \<and>
    ((is_event step \<or> ret < 0) \<and> async_entries st' = async_entries st \<or>
     \<not> is_event step \<and> (\<exists>rid. ret = sint rid \<and> async_entries st' = add_mset (step_context step, rid) (async_entries st)))"
proof -
  have args: "list_all async_args_ok steps" "async_args_ok step" using assms(3) by simp_all
  have "async_ok st" using run_outcome[OF boot_ok assms(1,2) args(1), of m z e w] run by auto
  from async_step_outcome[OF this assms(1,2) args(2)] show ?thesis
    by (auto simp: finishes_def call_outcome_def split: if_splits)
qed

text \<open>A transport that takes every message, and objects at increasing addresses, to evaluate the
  properties on.\<close>

definition async_demo_os :: "nat rpc_os" where
  "async_demo_os = \<lparr>os_ept_rdev = (\<lambda>_. True), os_ept_dest = (\<lambda>_. 1024), os_ept_is_ready = (\<lambda>_. True),
     os_vdev = (\<lambda>_. True), os_rproc = (\<lambda>_. True), os_get_notification = (\<lambda>w. ([], w)),
     os_malloc = (\<lambda>n w. (Some (\<lambda>_. 0), w)), os_free = (\<lambda>w. w), os_trysend = (\<lambda>b w. (int (length b), [], w)),
     os_clock = (\<lambda>w. ((0, 0, 0), w)), os_cond_wait = (\<lambda>_ w. ([], w)), os_cond_timedwait = (\<lambda>_ _ w. (0, [], w)),
     os_usleep = (\<lambda>_ w. ([], w))\<rparr>"

definition async_demo :: "nat fs_async_env" where
  "async_demo = \<lparr>ae_os = async_demo_os,
     ae_malloc = (\<lambda>live w. if live = {} then (Some 4096, w) else (None, w))\<rparr>"

lemma async_demo_ok: "honest_transport (ae_os async_demo)" "fresh_malloc async_demo"
  by (simp_all add: honest_transport_def fresh_malloc_def async_demo_def async_demo_os_def send_events_def)


theorem async_calls_tracked_witness:
  "\<exists>ret st'. async_call async_demo (Do_close 5 (Some 1) 7) (async_boot (\<lambda>_. []) (\<lambda>_. 0) 0 0) = Ret (ret, st') \<and>
    (ret < 0 \<and> async_entries st' = {#} \<or>
     (\<exists>rid. ret = sint rid \<and> async_entries st' = {#(\<lparr>ctx_callback = Some 1, ctx_user_data = 7\<rparr>, rid)#}))"
proof -
  have e: "async_entries (async_boot (\<lambda>_. []) (\<lambda>_. 0) 0 0) = {#}"
    by (simp add: async_entries_def async_boot_def async_slots_def rpc_boot_def is_async_def blank_slot_def)
  from async_calls_tracked[OF async_demo_ok, of "[]" "Do_close 5 (Some 1) 7" "\<lambda>_. []" "\<lambda>_. 0" 0 0 "async_boot (\<lambda>_. []) (\<lambda>_. 0) 0 0"]
  show ?thesis using e by (auto simp del: async_call.simps)
qed

end
