(* ===== verification/Heap_Glue.thy ===== *)
theory Heap_Glue
  imports Prelude
begin

text \<open>
  The C allocation functions of src/runtime/syscalls.c on top of the FreeRTOS heap:
  \<open>realloc\<close>, \<open>calloc\<close> and their reentrant forms.  The heap itself
  (\<open>pvPortMalloc\<close>, \<open>vPortFree\<close>) is a parameter over an opaque allocator state; memory
  is a map from addresses to bytes, address 0 is the NULL pointer, and a block's
  header \<open>BlockLink\<open>_\<close>t\<close> (a 32-bit pointer and the 32-bit size) stands right before it.
\<close>

section \<open>Memory and the heap below\<close>

unbundle bit_operations_syntax

record 'h heap =
  h_mem :: "nat \<Rightarrow> byte"
  h_alloc :: 'h

record 'h allocator =
  pvPortMalloc :: "nat \<Rightarrow> 'h heap \<Rightarrow> nat \<times> 'h heap"
  vPortFree :: "nat \<Rightarrow> 'h heap \<Rightarrow> 'h heap"
  portBYTE_ALIGNMENT :: "32 word"
  configTOTAL_HEAP_SIZE :: "32 word"

definition mem_copy :: "nat \<Rightarrow> nat \<Rightarrow> nat \<Rightarrow> (nat \<Rightarrow> byte) \<Rightarrow> nat \<Rightarrow> byte" where
  "mem_copy dst src n m = (\<lambda>a. if dst \<le> a \<and> a < dst + n then m (src + (a - dst)) else m a)"

definition mem_zero :: "nat \<Rightarrow> nat \<Rightarrow> (nat \<Rightarrow> byte) \<Rightarrow> nat \<Rightarrow> byte" where
  "mem_zero dst n m = (\<lambda>a. if dst \<le> a \<and> a < dst + n then 0 else m a)"

definition load32 :: "nat \<Rightarrow> (nat \<Rightarrow> byte) \<Rightarrow> 32 word" where
  "load32 a m = get32 (map m [a..<a + 4])"

section \<open>Block headers\<close>

definition xHeapStructSize :: "'h allocator \<Rightarrow> 32 word" where
  "xHeapStructSize al = (8 + (portBYTE_ALIGNMENT al - 1)) AND NOT (portBYTE_ALIGNMENT al - 1)"

definition xBlockAllocatedBit :: "32 word" where "xBlockAllocatedBit = push_bit 31 1"

text \<open>The header is given by its \<open>xBlockSize\<close>; the result is \<open>usable\<open>_\<close>size\<open>_\<close>out\<close> of a
  valid block.\<close>

definition prvHeapBlockIsValid :: "'h allocator \<Rightarrow> 32 word \<Rightarrow> 32 word option" where
  "prvHeapBlockIsValid al raw_size =
     (if raw_size AND xBlockAllocatedBit = 0 then None
      else let block_size = raw_size AND NOT xBlockAllocatedBit in
      if block_size \<le> xHeapStructSize al then None
      else if block_size > configTOTAL_HEAP_SIZE al then None
      else Some (block_size - xHeapStructSize al))"

definition header_check :: "'h allocator \<Rightarrow> nat \<Rightarrow> (nat \<Rightarrow> byte) \<Rightarrow> 32 word option" where
  "header_check al p m =
     (if unat (xHeapStructSize al) \<le> p
      then prvHeapBlockIsValid al (load32 (p - unat (xHeapStructSize al) + 4) m) else None)"

section \<open>The functions\<close>

definition pvPortRealloc :: "'h allocator \<Rightarrow> nat \<Rightarrow> nat \<Rightarrow> 'h heap \<Rightarrow> nat \<times> 'h heap" where
  "pvPortRealloc al p want h =
    (if want = 0 then (0, vPortFree al p h)
     else case pvPortMalloc al want h of (r, h1) \<Rightarrow>
       if r \<noteq> 0 \<and> p \<noteq> 0 then
         (case header_check al p (h_mem h1) of
            Some usable \<Rightarrow>
              if 0 < usable then
                (let copy_bytes = (if want < unat usable then want else unat usable)
                 in (r, vPortFree al p (h1\<lparr>h_mem := mem_copy r p copy_bytes (h_mem h1)\<rparr>)))
              else (r, h1)
          | None \<Rightarrow> (r, h1))
       else (r, h1))"

text \<open>Each returns the pointer, \<open>errno\<close> and the heap.\<close>

definition calloc :: "'h allocator \<Rightarrow> 32 word \<Rightarrow> 32 word \<Rightarrow> int \<Rightarrow> 'h heap \<Rightarrow> nat \<times> int \<times> 'h heap" where
  "calloc al xNum xSize errno h =
    (if xNum \<noteq> 0 \<and> xSize > - 1 div xNum then (0, ENOMEM, h)
     else let amount = xNum * xSize in
     if amount = 0 then (0, errno, h)
     else case pvPortMalloc al (unat amount) h of (pv, h1) \<Rightarrow>
       if pv \<noteq> 0 then (pv, errno, h1\<lparr>h_mem := mem_zero pv (unat amount) (h_mem h1)\<rparr>)
       else (0, ENOMEM, h1))"

definition realloc :: "'h allocator \<Rightarrow> nat \<Rightarrow> nat \<Rightarrow> int \<Rightarrow> 'h heap \<Rightarrow> nat \<times> int \<times> 'h heap" where
  "realloc al pv xSize errno h =
    (case pvPortRealloc al pv xSize h of (r, h1) \<Rightarrow>
       (r, if r = 0 \<and> xSize \<noteq> 0 then ENOMEM else errno, h1))"

text \<open>The reentrant forms; the last component is the \<open>_errno\<close> field of the reentrancy
  structure, \<open>None\<close> when there is none.\<close>

definition calloc_r ::
  "'h allocator \<Rightarrow> int option \<Rightarrow> 32 word \<Rightarrow> 32 word \<Rightarrow> 'h heap \<Rightarrow> nat \<times> int \<times> 'h heap \<times> int option"
where
  "calloc_r al r num sz h = (case calloc al num sz 0 h of (p, e, h1) \<Rightarrow>
     (p, e, h1, if p = 0 then map_option (\<lambda>_. e) r else r))"

definition realloc_r ::
  "'h allocator \<Rightarrow> int option \<Rightarrow> nat \<Rightarrow> nat \<Rightarrow> 'h heap \<Rightarrow> nat \<times> int \<times> 'h heap \<times> int option"
where
  "realloc_r al r p sz h = (case realloc al p sz 0 h of (q, e, h1) \<Rightarrow>
     (q, e, h1, if q = 0 \<and> sz \<noteq> 0 then map_option (\<lambda>_. e) r else r))"

section \<open>Properties\<close>

lemma mem_copy_dst: "k < n \<Longrightarrow> mem_copy dst src n m (dst + k) = m (src + k)"
  by (simp add: mem_copy_def)

lemma mem_copy_outside: "a < dst \<or> dst + n \<le> a \<Longrightarrow> mem_copy dst src n m a = m a"
  by (auto simp: mem_copy_def)

lemma word_mult_no_overflow:
  fixes x y :: "'a::len word"
  assumes "x \<noteq> 0" "y \<le> - 1 div x"
  shows "unat (x * y) = unat x * unat y"
proof -
  have "unat y \<le> unat (- 1 :: 'a word) div unat x"
    using assms(2) by (simp add: word_le_nat_alt unat_div_distrib)
  moreover have "unat x > 0" using assms(1) by (simp add: unat_gt_0)
  ultimately have "unat x * unat y \<le> unat (- 1 :: 'a word)"
    by (metis less_eq_div_iff_mult_less_eq mult.commute)
  then have "unat x * unat y < 2 ^ LENGTH('a)"
    using unsigned_less[of "- 1 :: 'a word"] by (rule le_less_trans)
  then show ?thesis by (simp add: unat_mult_lem)
qed

text \<open>When the product overflows.\<close>

lemma word_mult_overflow:
  fixes x y :: "'a::len word"
  assumes "x \<noteq> 0" "\<not> y \<le> - 1 div x"
  shows "2 ^ LENGTH('a) \<le> unat x * unat y"
proof -
  have "unat (- 1 :: 'a word) div unat x < unat y"
    using assms(2) by (simp add: word_le_nat_alt unat_div_distrib not_le)
  moreover have "unat x > 0" using assms(1) by (simp add: unat_gt_0)
  ultimately have "unat (- 1 :: 'a word) < unat y * unat x"
    by (simp add: div_less_iff_less_mult)
  moreover have "Suc (unat (- 1 :: 'a word)) = 2 ^ LENGTH('a)"
    by (simp add: unsigned_minus_1_eq_mask mask_eq_exp_minus_1)
  ultimately show ?thesis by (simp add: mult.commute Suc_le_eq)
qed

text \<open>A product that does not fit in \<open>size\<open>_\<close>t\<close> makes \<open>calloc\<close> fail with ENOMEM and
  allocate nothing; otherwise the block that it returns was requested with the
  full product and is zero throughout, and the rest of memory is as the heap left it.\<close>

theorem calloc_zeroed:
  shows "(2 ^ 32 \<le> unat num * unat sz \<longrightarrow> calloc al num sz e h = (0, ENOMEM, h)) \<and>
    (unat num * unat sz < 2 ^ 32 \<longrightarrow> num \<noteq> 0 \<longrightarrow> sz \<noteq> 0 \<longrightarrow>
      (\<forall>r h1. pvPortMalloc al (unat num * unat sz) h = (r, h1) \<longrightarrow>
        (r = 0 \<longrightarrow> calloc al num sz e h = (0, ENOMEM, h1)) \<and>
        (r \<noteq> 0 \<longrightarrow> (\<exists>h2. calloc al num sz e h = (r, e, h2) \<and> h_alloc h2 = h_alloc h1 \<and>
          (\<forall>a. h_mem h2 a = (if r \<le> a \<and> a < r + unat num * unat sz then 0 else h_mem h1 a))))))"
proof (intro conjI impI allI)
  assume *: "2 ^ 32 \<le> unat num * unat sz"
  then have "num \<noteq> 0" by (intro notI) simp
  moreover have "\<not> sz \<le> - 1 div num"
    using word_mult_no_overflow[OF \<open>num \<noteq> 0\<close>, of sz] unsigned_less[of "num * sz", where ?'a = nat] * by auto
  ultimately show "calloc al num sz e h = (0, ENOMEM, h)" by (simp add: calloc_def not_le)
next
  fix r h1
  assume *: "unat num * unat sz < 2 ^ 32" "num \<noteq> 0" "sz \<noteq> 0"
    and m: "pvPortMalloc al (unat num * unat sz) h = (r, h1)"
  have le: "sz \<le> - 1 div num" using word_mult_overflow[OF *(2), of sz] * by fastforce
  note u = word_mult_no_overflow[OF *(2) le]
  from u *(2,3) have nz: "num * sz \<noteq> 0" by (metis mult_eq_0_iff unat_eq_0 unsigned_0)
  have c: "calloc al num sz e h = (if r \<noteq> 0
      then (r, e, h1\<lparr>h_mem := mem_zero r (unat num * unat sz) (h_mem h1)\<rparr>) else (0, ENOMEM, h1))"
    using leD[OF le] nz m by (simp add: calloc_def u Let_def)
  { assume "r = 0" with c show "calloc al num sz e h = (0, ENOMEM, h1)" by simp }
  { assume "r \<noteq> 0" with c show "\<exists>h2. calloc al num sz e h = (r, e, h2) \<and> h_alloc h2 = h_alloc h1 \<and>
      (\<forall>a. h_mem h2 a = (if r \<le> a \<and> a < r + unat num * unat sz then 0 else h_mem h1 a))"
      by (simp add: mem_zero_def) }
qed

text \<open>A heap that never reuses memory, to evaluate the functions on.\<close>

definition store_bytes :: "nat \<Rightarrow> bytes \<Rightarrow> (nat \<Rightarrow> byte) \<Rightarrow> nat \<Rightarrow> byte" where
  "store_bytes p bs m = (\<lambda>a. if p \<le> a \<and> a < p + length bs then bs ! (a - p) else m a)"

definition bump_heap :: "nat allocator" where
  "bump_heap = \<lparr>pvPortMalloc = (\<lambda>n h. (h_alloc h + 8,
       h\<lparr>h_mem := store_bytes (h_alloc h + 4) (le32 (of_nat (n + 8) OR xBlockAllocatedBit)) (h_mem h),
         h_alloc := h_alloc h + 8 + n\<rparr>)),
     vPortFree = (\<lambda>p h. h), portBYTE_ALIGNMENT = 8, configTOTAL_HEAP_SIZE = 65536\<rparr>"

definition bump_start :: "nat heap" where
  "bump_start = \<lparr>h_mem = (\<lambda>a. of_nat a), h_alloc = 8\<rparr>"

definition bump_grown :: "nat \<Rightarrow> nat heap \<Rightarrow> nat heap" where
  "bump_grown n h = snd (pvPortMalloc bump_heap n h)"

lemma bump_malloc: "pvPortMalloc bump_heap n h = (h_alloc h + 8, bump_grown n h)"
  by (simp add: bump_heap_def bump_grown_def)

lemma bump_free: "vPortFree bump_heap p h = h"
  by (simp add: bump_heap_def)

lemma bump_next: "h_alloc (bump_grown n h) = h_alloc h + 8 + n"
  by (simp add: bump_heap_def bump_grown_def)

lemma bump_mem: "a < h_alloc h + 4 \<or> h_alloc h + 8 \<le> a \<Longrightarrow> h_mem (bump_grown n h) a = h_mem h a"
  by (auto simp: bump_heap_def bump_grown_def store_bytes_def le32_def)

lemma bump_start_simps [simp]: "h_mem bump_start a = of_nat a" "h_alloc bump_start = 8"
  by (simp_all add: bump_start_def)

theorem calloc_zeroed_witness:
  "calloc bump_heap 65536 65536 0 bump_start = (0, ENOMEM, bump_start) \<and>
   (\<exists>h2. calloc bump_heap 3 4 0 bump_start = (16, 0, h2) \<and> h_mem h2 27 = 0 \<and> h_mem h2 28 = 28)"
  using calloc_zeroed[of 65536 65536 bump_heap 0 bump_start] calloc_zeroed[of 3 4 bump_heap 0 bump_start]
  by (auto simp: bump_malloc bump_mem)

text \<open>\<open>realloc\<close>: size 0 frees the block and returns NULL; when the heap has no room the
  block is left alone; a block with a valid header is replaced by one whose first
  bytes, up to the smaller of the two sizes, are the old ones, and is freed once; a
  block whose header is not recognised is neither copied nor freed, and yet the new
  pointer is returned.\<close>

theorem realloc_contract:
  assumes p: "p \<noteq> 0" and m: "pvPortMalloc al n h = (r, h1)"
    and keep: "\<forall>k<unat usable. h_mem h1 (p + k) = h_mem h (p + k)"
    and free: "\<forall>h'. \<forall>k<n. h_mem (vPortFree al p h') (r + k) = h_mem h' (r + k)"
  shows "realloc al p 0 e h = (0, e, vPortFree al p h) \<and>
    (0 < n \<longrightarrow> r = 0 \<longrightarrow> realloc al p n e h = (0, ENOMEM, h1)) \<and>
    (0 < n \<longrightarrow> r \<noteq> 0 \<longrightarrow> header_check al p (h_mem h1) = None \<longrightarrow> realloc al p n e h = (r, e, h1)) \<and>
    (0 < n \<longrightarrow> r \<noteq> 0 \<longrightarrow> header_check al p (h_mem h1) = Some usable \<longrightarrow> 0 < usable \<longrightarrow>
      (\<exists>h2. realloc al p n e h = (r, e, vPortFree al p h2) \<and>
        (\<forall>k<min n (unat usable). h_mem (vPortFree al p h2) (r + k) = h_mem h (p + k)) \<and>
        (\<forall>a. a < r \<or> r + n \<le> a \<longrightarrow> h_mem h2 a = h_mem h1 a)))"
proof -
  have z: "realloc al p 0 e h = (0, e, vPortFree al p h)" by (simp add: realloc_def pvPortRealloc_def)
  moreover have "realloc al p n e h = (0, ENOMEM, h1)" if "0 < n" "r = 0"
    using that m by (simp add: realloc_def pvPortRealloc_def)
  moreover have "realloc al p n e h = (r, e, h1)"
    if "0 < n" "r \<noteq> 0" "header_check al p (h_mem h1) = None"
    using that m by (simp add: realloc_def pvPortRealloc_def)
  moreover have "\<exists>h2. realloc al p n e h = (r, e, vPortFree al p h2) \<and>
        (\<forall>k<min n (unat usable). h_mem (vPortFree al p h2) (r + k) = h_mem h (p + k)) \<and>
        (\<forall>a. a < r \<or> r + n \<le> a \<longrightarrow> h_mem h2 a = h_mem h1 a)"
    if *: "0 < n" "r \<noteq> 0" "header_check al p (h_mem h1) = Some usable" "0 < usable"
  proof -
    let ?h2 = "h1\<lparr>h_mem := mem_copy r p (min n (unat usable)) (h_mem h1)\<rparr>"
    have "realloc al p n e h = (r, e, vPortFree al p ?h2)"
      using * p m by (simp add: realloc_def pvPortRealloc_def min_def Let_def)
    moreover have "h_mem (vPortFree al p ?h2) (r + k) = h_mem h (p + k)" if "k < min n (unat usable)" for k
      using that keep free by (simp add: mem_copy_dst)
    moreover have "h_mem ?h2 a = h_mem h1 a" if "a < r \<or> r + n \<le> a" for a
      using that by (auto intro: mem_copy_outside)
    ultimately show ?thesis by blast
  qed
  ultimately show ?thesis by blast
qed

definition bump_one :: "nat heap" where
  "bump_one = bump_grown 4 bump_start"

lemma bump_load:
  "load32 (h_alloc h + 4) (h_mem (bump_grown n h)) = of_nat (n + 8) OR xBlockAllocatedBit"
proof -
  have "map (h_mem (bump_grown n h)) [h_alloc h + 4..<h_alloc h + 4 + 4] = le32 (of_nat (n + 8) OR xBlockAllocatedBit)"
    by (rule nth_equalityI) (simp_all add: bump_heap_def bump_grown_def store_bytes_def u32.enc_length)
  then show ?thesis by (simp only: load32_def u32.dec_enc_only)
qed

lemma load32_cong: "(\<And>k. k < 4 \<Longrightarrow> m (a + k) = m' (a + k)) \<Longrightarrow> load32 a m = load32 a m'"
proof -
  assume *: "\<And>k. k < 4 \<Longrightarrow> m (a + k) = m' (a + k)"
  have "map m [a..<a + 4] = map m' [a..<a + 4]" by (rule nth_equalityI) (simp_all add: *)
  then show ?thesis unfolding load32_def by (rule arg_cong)
qed

lemma bump_valid: "prvHeapBlockIsValid bump_heap (12 OR xBlockAllocatedBit) = Some 4" "unat (xHeapStructSize bump_heap) = 8"
  by code_simp+

lemma bump_one_header: "header_check bump_heap 16 (h_mem (bump_grown 6 bump_one)) = Some 4"
proof -
  have "load32 12 (h_mem (bump_grown 6 bump_one)) = load32 12 (h_mem bump_one)"
    by (rule load32_cong) (simp add: bump_mem bump_one_def bump_next)
  also have "\<dots> = 12 OR xBlockAllocatedBit"
    using bump_load[of bump_start 4] by (simp add: bump_one_def)
  finally show ?thesis by (simp add: header_check_def bump_valid)
qed

theorem realloc_contract_witness:
  "\<exists>h2. realloc bump_heap 16 6 0 bump_one = (28, 0, h2) \<and> (\<forall>k<4. h_mem h2 (28 + k) = of_nat (16 + k))"
proof -
  have m: "pvPortMalloc bump_heap 6 bump_one = (28, bump_grown 6 bump_one)"
    by (simp add: bump_malloc bump_one_def bump_next)
  have keep: "\<forall>k<unat (4 :: 32 word). h_mem (bump_grown 6 bump_one) (16 + k) = h_mem bump_one (16 + k)"
    by (simp add: bump_mem bump_one_def bump_next)
  have old: "\<forall>k<4. h_mem bump_one (16 + k) = of_nat (16 + k)"
    by (simp add: bump_one_def bump_mem)
  have "\<forall>h'. \<forall>k<6. h_mem (vPortFree bump_heap 16 h') (28 + k) = h_mem h' (28 + k)"
    by (simp add: bump_free)
  from realloc_contract[OF _ m keep this, of 0] old bump_one_header show ?thesis
    by (auto simp: bump_free)
qed

end
