(* ===== verification/Heap4.thy ===== *)
theory Heap4
  imports Heap_Glue
begin

text \<open>
  The FreeRTOS heap (rzv/aws/FreeRTOS/FreeRTOS/Source/portable/MemMang/heap\<open>_\<close>4.c) that the C
  allocation functions of \<open>Heap_Glue\<close> sit on.  The headers \<open>BlockLink\<open>_\<close>t\<close> are in the same byte
  memory as the blocks: the 32-bit pointer \<open>pxNextFreeBlock\<close> and the 32-bit \<open>xBlockSize\<close>.
  \<open>size\<open>_\<close>t\<close> is a natural number below \<open>2\<^sup>3\<^sup>2\<close> with its wrap-around written out.  The scheduler is
  suspended while the free list is changed, so each call is one step.  Whether \<open>configASSERT\<close>
  stops the program and whether the hook for a failed allocation is called (it never returns) is set
  in a file outside the repository and is part of the configuration.
\<close>

section \<open>Configuration, state and headers\<close>

record heap_cfg =
  ucHeap :: nat
  hc_total :: nat
  hc_alignment :: nat
  xStart :: nat
  hc_assert :: bool
  hc_failed_hook :: bool

record heap4 =
  pxEnd :: nat
  pucHeapStart :: nat
  xFreeBytesRemaining :: nat
  xMinimumEverFreeBytesRemaining :: nat
  xNumberOfSuccessfulAllocations :: nat
  xNumberOfSuccessfulFrees :: nat

abbreviation (input) heapSIZE_MAX :: nat where "heapSIZE_MAX \<equiv> 4294967295"

definition size_add :: "nat \<Rightarrow> nat \<Rightarrow> nat" where
  "size_add a b = (a + b) mod 2 ^ 32"

definition size_sub :: "nat \<Rightarrow> nat \<Rightarrow> nat" where
  "size_sub a b = (a + 2 ^ 32 - b) mod 2 ^ 32"

definition heapADD_WILL_OVERFLOW :: "nat \<Rightarrow> nat \<Rightarrow> bool" where
  "heapADD_WILL_OVERFLOW a b \<longleftrightarrow> a > heapSIZE_MAX - b"

definition heapMULTIPLY_WILL_OVERFLOW :: "nat \<Rightarrow> nat \<Rightarrow> bool" where
  "heapMULTIPLY_WILL_OVERFLOW a b \<longleftrightarrow> a > 0 \<and> b > heapSIZE_MAX div a"

text \<open>\<open>x & portBYTE\<open>_\<close>ALIGNMENT\<open>_\<close>MASK\<close> and \<open>x & ~portBYTE\<open>_\<close>ALIGNMENT\<open>_\<close>MASK\<close>.\<close>

definition misaligned :: "heap_cfg \<Rightarrow> nat \<Rightarrow> nat" where
  "misaligned cfg x = x AND (hc_alignment cfg - 1)"

definition align_down :: "heap_cfg \<Rightarrow> nat \<Rightarrow> nat" where
  "align_down cfg x = x - misaligned cfg x"

definition heap_struct :: "heap_cfg \<Rightarrow> nat" where
  "heap_struct cfg = align_down cfg (8 + (hc_alignment cfg - 1))"

type_synonym memory = "nat \<Rightarrow> byte"

definition get_next :: "memory \<Rightarrow> nat \<Rightarrow> nat" where
  "get_next m p = unat (load32 p m)"

definition get_size :: "memory \<Rightarrow> nat \<Rightarrow> nat" where
  "get_size m p = unat (load32 (p + 4) m)"

definition set_next :: "nat \<Rightarrow> nat \<Rightarrow> memory \<Rightarrow> memory" where
  "set_next p v m = store_bytes p (le32 (of_nat v)) m"

definition set_size :: "nat \<Rightarrow> nat \<Rightarrow> memory \<Rightarrow> memory" where
  "set_size p v m = store_bytes (p + 4) (le32 (of_nat v)) m"

section \<open>Initialisation and the free list\<close>

definition prvHeapInit :: "heap_cfg \<Rightarrow> heap4 heap \<Rightarrow> heap4 heap" where
  "prvHeapInit cfg h =
     (let start = (if misaligned cfg (ucHeap cfg) \<noteq> 0
                   then align_down cfg (ucHeap cfg + (hc_alignment cfg - 1)) else ucHeap cfg);
          total = (if misaligned cfg (ucHeap cfg) \<noteq> 0
                   then size_sub (hc_total cfg) (start - ucHeap cfg) else hc_total cfg);
          fin = align_down cfg (start + total - heap_struct cfg);
          m = set_size (xStart cfg) 0 (set_next (xStart cfg) start (h_mem h));
          m = set_next fin 0 (set_size fin 0 m);
          m = set_next start fin (set_size start (size_sub fin start) m)
      in \<lparr>h_mem = m,
          h_alloc = (h_alloc h)\<lparr>pucHeapStart := start, pxEnd := fin,
            xMinimumEverFreeBytesRemaining := get_size m start,
            xFreeBytesRemaining := get_size m start\<rparr>\<rparr>)"

text \<open>The loop that looks for the block behind which \<open>b\<close> belongs.\<close>

partial_function (option) insert_position :: "memory \<Rightarrow> nat \<Rightarrow> nat \<Rightarrow> nat option" where
  "insert_position m b it =
     (if get_next m it < b then insert_position m b (get_next m it) else Some it)"

text \<open>The second half of \<open>prvInsertBlockIntoFreeList\<close>, for the block \<open>b\<close> behind \<open>it\<close>.\<close>

definition link_block :: "nat \<Rightarrow> nat \<Rightarrow> nat \<Rightarrow> memory \<Rightarrow> memory" where
  "link_block fin it b m0 =
     (let m = (if b + get_size m0 b = get_next m0 it then
                 if get_next m0 it \<noteq> fin then
                   (let m1 = set_size b (size_add (get_size m0 b) (get_size m0 (get_next m0 it))) m0
                    in set_next b (get_next m1 (get_next m1 it)) m1)
                 else set_next b fin m0
               else set_next b (get_next m0 it) m0)
      in if it \<noteq> b then set_next it b m else m)"

definition insert_behind :: "nat \<Rightarrow> nat \<Rightarrow> nat \<Rightarrow> memory \<Rightarrow> memory" where
  "insert_behind fin it b m =
     (if it + get_size m it = b
      then link_block fin it it (set_size it (size_add (get_size m it) (get_size m b)) m)
      else link_block fin it b m)"

definition prvInsertBlockIntoFreeList :: "heap_cfg \<Rightarrow> nat \<Rightarrow> nat \<Rightarrow> memory \<Rightarrow> memory option" where
  "prvInsertBlockIntoFreeList cfg fin b m =
     map_option (\<lambda>it. insert_behind fin it b m) (insert_position m b (xStart cfg))"

section \<open>Allocation\<close>

definition wanted_size :: "heap_cfg \<Rightarrow> nat \<Rightarrow> nat" where
  "wanted_size cfg want =
     (if want > 0 then
        if \<not> heapADD_WILL_OVERFLOW want (heap_struct cfg) then
          (let w = size_add want (heap_struct cfg) in
           if misaligned cfg w \<noteq> 0 then
             (let additional = hc_alignment cfg - misaligned cfg w in
              if \<not> heapADD_WILL_OVERFLOW w additional then size_add w additional else 0)
           else w)
        else 0
      else want)"

partial_function (option) find_fit :: "memory \<Rightarrow> nat \<Rightarrow> nat \<Rightarrow> nat \<Rightarrow> (nat \<times> nat) option" where
  "find_fit m want prev blk =
     (if get_size m blk < want \<and> get_next m blk \<noteq> 0 then find_fit m want blk (get_next m blk)
      else Some (prev, blk))"

text \<open>The split of a block that is larger than required.\<close>

definition split_block :: "heap_cfg \<Rightarrow> nat \<Rightarrow> nat \<Rightarrow> nat \<Rightarrow> memory \<Rightarrow> memory exec" where
  "split_block cfg fin want blk m =
     (if size_sub (get_size m blk) want > 2 * heap_struct cfg then
        (let new = blk + want in
         if hc_assert cfg \<and> misaligned cfg new \<noteq> 0 then Faults
         else let m1 = set_size new (size_sub (get_size m blk) want) m;
                  m2 = set_size blk want m1
         in case prvInsertBlockIntoFreeList cfg fin new m2 of None \<Rightarrow> Diverges | Some m3 \<Rightarrow> Ret m3)
      else Ret m)"

text \<open>The block \<open>blk\<close> behind \<open>prev\<close> is handed out.\<close>

definition take_block ::
  "heap_cfg \<Rightarrow> nat \<Rightarrow> nat \<Rightarrow> nat \<Rightarrow> heap4 heap \<Rightarrow> (nat \<times> heap4 heap) exec"
where
  "take_block cfg want prev blk h =
     (let st = h_alloc h;
          ret = get_next (h_mem h) prev + heap_struct cfg;
          m = set_next prev (get_next (h_mem h) blk) (h_mem h)
      in exec_bind (split_block cfg (pxEnd st) want blk m)
          (\<lambda>m. let left = size_sub (xFreeBytesRemaining st) (get_size m blk);
                   st1 = st\<lparr>xFreeBytesRemaining := left,
                     xMinimumEverFreeBytesRemaining :=
                       (if left < xMinimumEverFreeBytesRemaining st then left
                        else xMinimumEverFreeBytesRemaining st),
                     xNumberOfSuccessfulAllocations := size_add (xNumberOfSuccessfulAllocations st) 1\<rparr>;
                   m1 = set_next blk 0 (set_size blk (set_bit 31 (get_size m blk)) m)
               in Ret (ret, \<lparr>h_mem = m1, h_alloc = st1\<rparr>)))"

definition heap4_malloc :: "heap_cfg \<Rightarrow> nat \<Rightarrow> heap4 heap \<Rightarrow> (nat \<times> heap4 heap) exec" where
  "heap4_malloc cfg xWantedSize h0 =
     (let h = (if pxEnd (h_alloc h0) = 0 then prvHeapInit cfg h0 else h0);
          want = wanted_size cfg xWantedSize;
          st = h_alloc h
      in exec_bind
          (if \<not> bit want 31 then
             if want > 0 \<and> want \<le> xFreeBytesRemaining st then
               (case find_fit (h_mem h) want (xStart cfg) (get_next (h_mem h) (xStart cfg)) of
                  None \<Rightarrow> Diverges
                | Some (prev, blk) \<Rightarrow>
                    if blk \<noteq> pxEnd st then take_block cfg want prev blk h else Ret (0, h))
             else Ret (0, h)
           else Ret (0, h))
          (\<lambda>(r, h1). if hc_failed_hook cfg \<and> r = 0 then Diverges
                     else if hc_assert cfg \<and> misaligned cfg r \<noteq> 0 then Faults else Ret (r, h1)))"

definition pvPortCalloc :: "heap_cfg \<Rightarrow> nat \<Rightarrow> nat \<Rightarrow> heap4 heap \<Rightarrow> (nat \<times> heap4 heap) exec" where
  "pvPortCalloc cfg xNum xSize h =
     (if \<not> heapMULTIPLY_WILL_OVERFLOW xNum xSize then
        exec_bind (heap4_malloc cfg (xNum * xSize) h)
          (\<lambda>(pv, h1). Ret (if pv \<noteq> 0 then (pv, h1\<lparr>h_mem := mem_zero pv (xNum * xSize) (h_mem h1)\<rparr>)
                           else (pv, h1)))
      else Ret (0, h))"

section \<open>Release and statistics\<close>

definition heap4_free :: "heap_cfg \<Rightarrow> nat \<Rightarrow> heap4 heap \<Rightarrow> heap4 heap exec" where
  "heap4_free cfg pv h =
     (if pv \<noteq> 0 then
        (let link = pv - heap_struct cfg; m = h_mem h; st = h_alloc h in
         if hc_assert cfg \<and> \<not> bit (get_size m link) 31 then Faults
         else if hc_assert cfg \<and> get_next m link \<noteq> 0 then Faults
         else if bit (get_size m link) 31 then
           if get_next m link = 0 then
             (let m1 = set_size link (unset_bit 31 (get_size m link)) m;
                  st1 = st\<lparr>xFreeBytesRemaining := size_add (xFreeBytesRemaining st) (get_size m1 link)\<rparr>
              in case prvInsertBlockIntoFreeList cfg (pxEnd st) link m1 of
                   None \<Rightarrow> Diverges
                 | Some m2 \<Rightarrow> Ret \<lparr>h_mem = m2,
                     h_alloc = st1\<lparr>xNumberOfSuccessfulFrees := size_add (xNumberOfSuccessfulFrees st) 1\<rparr>\<rparr>)
           else Ret h
         else Ret h)
      else Ret h)"

definition xPortGetFreeHeapSize :: "heap4 \<Rightarrow> nat" where
  "xPortGetFreeHeapSize st = xFreeBytesRemaining st"

definition xPortGetMinimumEverFreeHeapSize :: "heap4 \<Rightarrow> nat" where
  "xPortGetMinimumEverFreeHeapSize st = xMinimumEverFreeBytesRemaining st"

text \<open>The walk over the free list: number of blocks, largest and smallest size.\<close>

partial_function (option) stats_walk ::
  "memory \<Rightarrow> nat \<Rightarrow> nat \<Rightarrow> nat \<times> nat \<times> nat \<Rightarrow> (nat \<times> nat \<times> nat) option"
where
  "stats_walk m fin blk acc =
     (if blk \<noteq> fin then
        (case acc of (n, mx, mn) \<Rightarrow>
         let s = get_size m blk in
         stats_walk m fin (get_next m blk)
           (size_add n 1, if s > mx then s else mx, if s < mn then s else mn))
      else Some acc)"

record heap_stats =
  xAvailableHeapSpaceInBytes :: nat
  xSizeOfLargestFreeBlockInBytes :: nat
  xSizeOfSmallestFreeBlockInBytes :: nat
  xNumberOfFreeBlocks :: nat
  hs_minimum_ever :: nat
  hs_allocations :: nat
  hs_frees :: nat

definition vPortGetHeapStats :: "heap_cfg \<Rightarrow> heap4 heap \<Rightarrow> heap_stats exec" where
  "vPortGetHeapStats cfg h =
     (let m = h_mem h; st = h_alloc h; first = get_next m (xStart cfg);
          init = (0, 0, heapSIZE_MAX)
      in case (if first \<noteq> 0 then stats_walk m (pxEnd st) first init else Some init) of
           None \<Rightarrow> Diverges
         | Some (n, mx, mn) \<Rightarrow>
             Ret \<lparr>xAvailableHeapSpaceInBytes = xFreeBytesRemaining st,
               xSizeOfLargestFreeBlockInBytes = mx, xSizeOfSmallestFreeBlockInBytes = mn,
               xNumberOfFreeBlocks = n, hs_minimum_ever = xMinimumEverFreeBytesRemaining st,
               hs_allocations = xNumberOfSuccessfulAllocations st,
               hs_frees = xNumberOfSuccessfulFrees st\<rparr>)"

end
