(* ===== verification/Heap4_Free.thy ===== *)
theory Heap4_Free
  imports Heap4
begin

text \<open>
  The free list of the FreeRTOS heap: headers in byte memory, the list of all blocks in address
  order, and what inserting and removing a block does to both.  \<open>free_ok\<close> relates the linked list
  in memory to the list of blocks; \<open>merge\<close> is what inserting a block means for the latter.
\<close>

section \<open>Headers in byte memory\<close>

lemma store_bytes_at: "length bs = n \<Longrightarrow> map (store_bytes p bs m) [p..<p + n] = bs"
  by (rule nth_equalityI) (auto simp: store_bytes_def)

lemma store_bytes_else: "a < p \<or> p + length bs \<le> a \<Longrightarrow> store_bytes p bs m a = m a"
  by (auto simp: store_bytes_def)

lemma length_le32 [simp]: "length (le32 w) = 4"
  by (simp add: u32.enc_length)

lemma load32_store: "load32 p (store_bytes p (le32 w) m) = w"
  by (simp only: load32_def store_bytes_at[OF length_le32] u32.dec_enc_only)

lemma load32_store_else: "p + 4 \<le> q \<or> q + 4 \<le> p \<Longrightarrow> load32 q (store_bytes p (le32 w) m) = load32 q m"
  by (rule load32_cong) (auto intro: store_bytes_else)

definition apart :: "nat \<Rightarrow> nat \<Rightarrow> bool" where
  "apart p q \<longleftrightarrow> p + 8 \<le> q \<or> q + 8 \<le> p"

lemma apart_sym: "apart p q = apart q p"
  by (auto simp: apart_def)

lemma apart_neq: "apart p q \<Longrightarrow> p \<noteq> q"
  by (auto simp: apart_def)

named_theorems header_simps "reading a header field after writing one"

lemma header_same [header_simps]:
  "v < 2 ^ 32 \<Longrightarrow> get_next (set_next p v m) p = v"
  "v < 2 ^ 32 \<Longrightarrow> get_size (set_size p v m) p = v"
  "get_size (set_next p v m) p = get_size m p"
  "get_next (set_size p v m) p = get_next m p"
  by (simp_all add: get_next_def set_next_def get_size_def set_size_def load32_store load32_store_else unat_of_nat)

lemma header_apart [header_simps]:
  "apart p q \<Longrightarrow> get_next (set_next p v m) q = get_next m q"
  "apart p q \<Longrightarrow> get_size (set_size p v m) q = get_size m q"
  "apart p q \<Longrightarrow> get_size (set_next p v m) q = get_size m q"
  "apart p q \<Longrightarrow> get_next (set_size p v m) q = get_next m q"
  by (auto simp: apart_def get_next_def set_next_def get_size_def set_size_def load32_store_else)

lemma header_frame:
  "a < p \<or> p + 8 \<le> a \<Longrightarrow> set_next p v m a = m a"
  "a < p \<or> p + 8 \<le> a \<Longrightarrow> set_size p v m a = m a"
  by (auto simp: set_next_def set_size_def intro: store_bytes_else)

lemma header_cong:
  assumes "\<And>a. p \<le> a \<Longrightarrow> a < p + 8 \<Longrightarrow> m' a = m a"
  shows "get_next m' p = get_next m p" "get_size m' p = get_size m p"
  using load32_cong[of m' p m] load32_cong[of m' "p + 4" m] assms
  by (simp_all add: get_next_def get_size_def)

lemma get_bounds [simp]: "get_next m p < 4294967296" "get_size m p < 4294967296"
  using unsigned_less[of "load32 p m", where ?'a = nat] unsigned_less[of "load32 (p + 4) m", where ?'a = nat]
  by (simp_all add: get_next_def get_size_def)

lemma size_add_id: "a + b < 2 ^ 32 \<Longrightarrow> size_add a b = a + b"
  by (simp add: size_add_def)

lemma size_sub_id: "b \<le> a \<Longrightarrow> a < 2 ^ 32 \<Longrightarrow> size_sub a b = a - b"
  using mod_add_self2[of "a - b" "2 ^ 32"] by (simp add: size_sub_def)

section \<open>Blocks in address order\<close>

text \<open>Address, size with header, and whether the block is handed out.\<close>

type_synonym block = "nat \<times> nat \<times> bool"

fun laid_out :: "nat \<Rightarrow> block list \<Rightarrow> nat \<Rightarrow> bool" where
  "laid_out a [] e \<longleftrightarrow> a = e"
| "laid_out a ((p, s, u) # bs) e \<longleftrightarrow> p = a \<and> 8 \<le> s \<and> laid_out (a + s) bs e"

fun frees :: "block list \<Rightarrow> nat list" where
  "frees [] = []"
| "frees ((p, s, u) # bs) = (if u then frees bs else p # frees bs)"

fun free_bytes :: "block list \<Rightarrow> nat" where
  "free_bytes [] = 0"
| "free_bytes ((p, s, u) # bs) = (if u then 0 else s) + free_bytes bs"

fun free_chain :: "memory \<Rightarrow> nat \<Rightarrow> nat list \<Rightarrow> nat \<Rightarrow> bool" where
  "free_chain m a [] e \<longleftrightarrow> get_next m a = e"
| "free_chain m a (x # xs) e \<longleftrightarrow> get_next m a = x \<and> free_chain m x xs e"

lemma laid_out_append: "laid_out a (xs @ ys) e \<longleftrightarrow> (\<exists>b. laid_out a xs b \<and> laid_out b ys e)"
  by (induction xs arbitrary: a) auto

lemma laid_out_le: "laid_out a bs e \<Longrightarrow> a \<le> e"
  by (induction a bs e rule: laid_out.induct) auto

lemma laid_out_block: "laid_out a bs e \<Longrightarrow> (p, s, u) \<in> set bs \<Longrightarrow> a \<le> p \<and> p + s \<le> e \<and> 8 \<le> s"
  by (induction a bs e rule: laid_out.induct) (auto dest: laid_out_le)

lemma frees_append [simp]: "frees (xs @ ys) = frees xs @ frees ys"
  by (induction xs rule: frees.induct) auto

lemma free_bytes_append [simp]: "free_bytes (xs @ ys) = free_bytes xs + free_bytes ys"
  by (induction xs rule: free_bytes.induct) auto

lemma in_frees: "x \<in> set (frees bs) \<longleftrightarrow> (\<exists>s. (x, s, False) \<in> set bs)"
  by (induction bs rule: frees.induct) auto

lemma frees_block: "laid_out a bs e \<Longrightarrow> x \<in> set (frees bs) \<Longrightarrow> a \<le> x \<and> x + 8 \<le> e"
  by (fastforce simp: in_frees dest: laid_out_block)

lemma free_bytes_le: "laid_out a bs e \<Longrightarrow> free_bytes bs \<le> e - a"
proof (induction a bs e rule: laid_out.induct)
  case (2 a p s u bs e)
  then show ?case using laid_out_le[of "a + s" bs e] by auto
qed simp

lemma free_chain_append:
  "free_chain m a (xs @ y # ys) e \<longleftrightarrow> free_chain m a xs y \<and> free_chain m y ys e"
  by (induction xs arbitrary: a) auto

lemma free_chain_last: "free_chain m a xs e \<Longrightarrow> get_next m (last (a # xs)) = e"
  by (induction xs arbitrary: a) auto

lemma free_chain_cong:
  "(\<And>x. x \<in> set (a # xs) \<Longrightarrow> get_next m' x = get_next m x) \<Longrightarrow> free_chain m' a xs e = free_chain m a xs e"
  by (induction xs arbitrary: a) auto

lemma free_chain_relink:
  "free_chain m a xs y \<Longrightarrow> (\<And>x. x \<in> set (butlast (a # xs)) \<Longrightarrow> get_next m' x = get_next m x) \<Longrightarrow>
   get_next m' (last (a # xs)) = z \<Longrightarrow> free_chain m' a xs z"
  by (induction xs arbitrary: a) auto

section \<open>The loops\<close>

lemma insert_position_finds:
  "free_chain m a (A @ B) e \<Longrightarrow> \<forall>x\<in>set A. x < b \<Longrightarrow> \<forall>x\<in>set B. b \<le> x \<Longrightarrow> b \<le> e \<Longrightarrow>
   insert_position m b a = Some (last (a # A))"
proof (induction A arbitrary: a)
  case Nil
  then show ?case by (cases B) (simp_all add: insert_position.simps)
next
  case (Cons x A)
  then show ?case by (simp add: insert_position.simps[of m b a])
qed

section \<open>Relinking the free list\<close>

definition free_ok :: "heap_cfg \<Rightarrow> memory \<Rightarrow> nat \<Rightarrow> nat \<Rightarrow> block list \<Rightarrow> bool" where
  "free_ok cfg m a e bs \<longleftrightarrow>
     laid_out a bs e \<and> (\<forall>p s. (p, s, False) \<in> set bs \<longrightarrow> get_size m p = s) \<and>
     free_chain m (xStart cfg) (frees bs) e \<and> get_size m (xStart cfg) = 0 \<and>
     get_size m e = 0 \<and> get_next m e = 0 \<and> (xStart cfg + 8 \<le> a \<or> e + 8 \<le> xStart cfg) \<and>
     0 < a \<and> e + 8 \<le> 2 ^ 32 \<and> e - a < 2 ^ 31"

lemma frees_sorted: "laid_out a bs e \<Longrightarrow> sorted_wrt (\<lambda>x y. x + 8 \<le> y) (frees bs)"
proof (induction a bs e rule: laid_out.induct)
  case (2 a p s u bs e)
  then show ?case using frees_block[of "a + s" bs e] by fastforce
qed simp

lemma sorted_wrt_butlast_last:
  "sorted_wrt R xs \<Longrightarrow> x \<in> set (butlast xs) \<Longrightarrow> R x (last xs)"
  by (induction xs) auto

lemma nodes_apart:
  assumes "laid_out a bs e" "x0 + 8 \<le> a \<or> e + 8 \<le> x0"
  shows "sorted_wrt apart (x0 # frees bs)"
proof -
  have "sorted_wrt apart (frees bs)"
    using frees_sorted[OF assms(1)] by (rule sorted_wrt_mono_rel[rotated]) (simp add: apart_def)
  moreover have "\<forall>x\<in>set (frees bs). apart x0 x"
    using frees_block[OF assms(1)] assms(2) by (fastforce simp: apart_def)
  ultimately show ?thesis by simp
qed

lemma relink:
  assumes lay: "laid_out a (X @ (b, s, False) # Y) e"
    and old: "\<forall>p s. (p, s, False) \<in> set X \<union> set Y \<longrightarrow> get_size m p = s"
    and pre: "free_chain m (xStart cfg) (frees X) z" and post: "free_chain m y (frees Y) e"
    and ends: "get_size m (xStart cfg) = 0" "get_size m e = 0" "get_next m e = 0"
      "xStart cfg + 8 \<le> a \<or> e + 8 \<le> xStart cfg" "0 < a" "e + 8 \<le> 2 ^ 32" "e - a < 2 ^ 31"
    and it: "it = last (xStart cfg # frees X)"
    and new: "get_size m' b = s" "get_next m' b = hd (frees Y @ [e])" "get_next m' it = b"
      "get_size m' it = get_size m it"
    and frame: "\<And>x. apart x b \<Longrightarrow> apart x it \<Longrightarrow> get_size m' x = get_size m x \<and> get_next m' x = get_next m x"
  shows "free_ok cfg m' a e (X @ (b, s, False) # Y)"
proof -
  let ?x0 = "xStart cfg"
  have nodes: "sorted_wrt apart (?x0 # frees X @ b # frees Y)"
    using nodes_apart[OF lay ends(4)] by simp
  have it_in: "it \<in> set (?x0 # frees X)" by (simp add: it)
  have b_apart: "\<And>x. x \<in> set (?x0 # frees X @ frees Y) \<Longrightarrow> apart x b"
    using nodes by (auto simp: sorted_wrt_append apart_sym)
  have it_apart: "\<And>x. x \<in> set (frees Y) \<Longrightarrow> apart x it"
    using nodes it_in by (auto simp: sorted_wrt_append apart_sym)
  have before: "\<And>x. x \<in> set (butlast (?x0 # frees X)) \<Longrightarrow> apart x it"
    using sorted_wrt_butlast_last[of apart "?x0 # frees X"] nodes
    by (simp add: it sorted_wrt_append)
  have early: "get_size m' x = get_size m x" if "x \<in> set (?x0 # frees X)" for x
  proof (cases "x = it")
    case False
    with that have "x \<in> set (butlast (?x0 # frees X))"
      by (metis append_butlast_last_id in_set_conv_decomp it list.distinct(1) rotate1.simps(2) set_ConsD set_rotate1)
    then have "apart x it" by (rule before)
    moreover have "apart x b" using b_apart that by auto
    ultimately show ?thesis using frame by blast
  qed (simp add: new)
  have late: "get_size m' x = get_size m x \<and> get_next m' x = get_next m x" if "x \<in> set (frees Y)" for x
    using that b_apart it_apart frame by simp
  have e_out: "apart e b" "apart e it"
  proof -
    have in_all: "x \<in> set (?x0 # frees (X @ (b, s, False) # Y)) \<Longrightarrow> apart e x" for x
      using frees_block[OF lay, of x] ends(4) laid_out_le[OF lay] by (auto simp: apart_def)
    show "apart e b" "apart e it" using in_all[of b] in_all[of it] it_in by auto
  qed
  have "free_chain m' ?x0 (frees X) b"
  proof (rule free_chain_relink[OF pre])
    show "get_next m' (last (?x0 # frees X)) = b" using new(3) it by simp
    fix x assume x: "x \<in> set (butlast (?x0 # frees X))"
    then have "x \<in> set (?x0 # frees X)" by (rule in_set_butlastD)
    then have "apart x b" using b_apart by auto
    with before[OF x] frame show "get_next m' x = get_next m x" by blast
  qed
  moreover have "free_chain m' b (frees Y) e"
  proof (cases "frees Y")
    case (Cons y1 ys)
    have "free_chain m' y1 ys e = free_chain m y1 ys e"
      by (rule free_chain_cong) (use late Cons in auto)
    then show ?thesis using new(2) post Cons by simp
  qed (use new(2) in simp)
  ultimately have chain: "free_chain m' ?x0 (frees (X @ (b, s, False) # Y)) e"
    by (simp add: free_chain_append)
  have sizes: "get_size m' p = n" if "(p, n, False) \<in> set (X @ (b, s, False) # Y)" for p n
  proof -
    from that consider "(p, n) = (b, s)" | "(p, n, False) \<in> set X" | "(p, n, False) \<in> set Y" by auto
    then show ?thesis
    proof cases
      case 2
      then have "p \<in> set (frees X)" by (auto simp: in_frees)
      then show ?thesis using early[of p] old 2 by auto
    next
      case 3
      then have "p \<in> set (frees Y)" by (auto simp: in_frees)
      then show ?thesis using late[of p] old 3 by auto
    qed (use new in simp)
  qed
  show ?thesis
    unfolding free_ok_def
    using lay chain sizes early[of ?x0] ends frame[of e] e_out by auto
qed

definition merge_back :: "nat \<Rightarrow> nat \<Rightarrow> block list \<Rightarrow> block list" where
  "merge_back p s R =
     (case R of (q, n, False) # R' \<Rightarrow> (p, s + n, False) # R' | _ \<Rightarrow> (p, s, False) # R)"

definition merge :: "block list \<Rightarrow> nat \<Rightarrow> nat \<Rightarrow> block list \<Rightarrow> block list" where
  "merge L p s R =
     (case rev L of (q, n, False) # L' \<Rightarrow> rev L' @ merge_back q (n + s) R | _ \<Rightarrow> L @ merge_back p s R)"

lemma free_chain_hd: "free_chain m a xs e \<Longrightarrow> get_next m a = hd (xs @ [e])"
  by (cases xs) auto

lemma free_chain_skip: "free_chain m a (x # xs) e \<Longrightarrow> free_chain m x xs e"
  by simp

lemma link_block_ok:
  assumes lay: "laid_out a (X @ (b, s, False) # R) e"
    and old: "\<forall>p s. (p, s, False) \<in> set X \<union> set R \<longrightarrow> get_size m p = s"
    and pre: "free_chain m (xStart cfg) (frees X) z" and post: "free_chain m it (frees R) e"
    and ends: "get_size m (xStart cfg) = 0" "get_size m e = 0" "get_next m e = 0"
      "xStart cfg + 8 \<le> a \<or> e + 8 \<le> xStart cfg" "0 < a" "e + 8 \<le> 2 ^ 32" "e - a < 2 ^ 31"
    and size: "get_size m b = s"
    and it: "it = last (xStart cfg # frees X) \<and> apart it b \<or> it = b \<and> z = b"
  shows "free_ok cfg (link_block e it b m) a e (X @ merge_back b s R)"
    and "link_block e it b m x \<noteq> m x \<Longrightarrow> (b \<le> x \<and> x < b + 8) \<or> (it \<le> x \<and> x < it + 8)"
proof -
  obtain l where l: "l = last (xStart cfg # frees X)" by simp
  have C: "get_next m it = hd (frees R @ [e])" by (rule free_chain_hd[OF post])
  have lst_apart: "apart l b" "l \<noteq> b"
  proof -
    have "sorted_wrt apart (xStart cfg # frees X @ b # frees R)"
      using nodes_apart[OF lay ends(4)] by simp
    then have "\<forall>x\<in>set (xStart cfg # frees X). apart x b" by (simp add: sorted_wrt_append)
    then show "apart l b" using last_in_set[of "xStart cfg # frees X"] unfolding l by blast
    then show "l \<noteq> b" by (rule apart_neq)
  qed
  have z: "it = b \<Longrightarrow> get_next m l = b" using free_chain_last[OF pre] it by (auto simp: apart_def l)
  have it': "it = l \<and> apart it b \<or> it = b" using it l by blast
  have b32: "b < 2 ^ 32" "b + s \<le> e"
    using laid_out_block[OF lay, of b s False] ends(6) by auto
  have frame: "m1 x \<noteq> m x \<Longrightarrow> (b \<le> x \<and> x < b + 8) \<or> (it \<le> x \<and> x < it + 8)"
    if "m1 = (if it \<noteq> b then set_next it b (set_next b v (set_size b w m)) else set_next b v (set_size b w m)) \<or>
        m1 = (if it \<noteq> b then set_next it b (set_next b v m) else set_next b v m)" for m1 v w
    using that by (auto simp: header_frame not_le not_less split: if_splits; metis header_frame not_le)
  consider (join) n R' where "R = (b + s, n, False) # R'"
    | (alone) "merge_back b s R = (b, s, False) # R" "b + s = hd (frees R @ [e]) \<longrightarrow> hd (frees R @ [e]) = e"
  proof (cases R)
    case Nil
    then show ?thesis by (intro alone) (simp_all add: merge_back_def)
  next
    case (Cons r R')
    obtain q n u where r: "r = (q, n, u)" by (metis surj_pair)
    from lay Cons r have q: "q = b + s" "8 \<le> n" "laid_out (b + s + n) R' e" by (auto simp: laid_out_append)
    show ?thesis
    proof (cases u)
      case True
      have "hd (frees R' @ [e]) \<noteq> b + s"
        using frees_block[OF q(3)] laid_out_le[OF q(3)] q(2) by (cases "frees R'") fastforce+
      then show ?thesis using Cons r True by (intro alone) (auto simp: merge_back_def)
    qed (use Cons r q join in auto)
  qed
  then have "\<exists>v w. (link_block e it b m =
        (if it \<noteq> b then set_next it b (set_next b v (set_size b w m)) else set_next b v (set_size b w m)) \<or>
      link_block e it b m = (if it \<noteq> b then set_next it b (set_next b v m) else set_next b v m)) \<and>
      free_ok cfg (link_block e it b m) a e (X @ merge_back b s R)"
  proof cases
    case (join n R')
    let ?q = "b + s" and ?v = "get_next m (b + s)"
    let ?m = "set_next b ?v (set_size b (s + n) m)"
    let ?m' = "if it \<noteq> b then set_next it b ?m else ?m"
    have q: "?q + n \<le> e" "8 \<le> n" "8 \<le> s" using lay join laid_out_le[of "b + s + n" R' e] by (auto simp: laid_out_append)
    then have bq: "apart b ?q" by (simp add: apart_def)
    have sum: "s + n < 2 ^ 32" using q ends(6) by simp
    have nq: "get_next m it = ?q" "get_size m ?q = n" using C join old by simp_all
    have n1: "get_next (set_size b (s + n) m) it = ?q" using it' nq by (auto simp: header_simps apart_sym)
    have eq: "link_block e it b m = ?m'"
      using q bq by (simp add: link_block_def nq size n1 size_add_id[OF sum] Let_def header_simps)
    have "free_ok cfg ?m' a e (X @ (b, s + n, False) # R')"
    proof (rule relink[OF _ _ pre _ ends l])
      show "laid_out a (X @ (b, s + n, False) # R') e" using lay join by (auto simp: laid_out_append add.assoc)
      show "\<forall>p s. (p, s, False) \<in> set X \<union> set R' \<longrightarrow> get_size m p = s" using old join by auto
      have "free_chain m it (?q # frees R') e" using post join by simp
      then show tail: "free_chain m ?q (frees R') e" by (rule free_chain_skip)
      have bit: "it \<noteq> b \<Longrightarrow> apart it b" using it' by auto
      show "get_size ?m' b = s + n" using bit sum by (simp add: header_simps)
      show "get_next ?m' b = hd (frees R' @ [e])"
        using bit free_chain_hd[OF tail, symmetric] by (simp add: header_simps)
      show "get_next ?m' l = b"
        using it' z b32 lst_apart by (auto simp: header_simps apart_sym)
      show "get_size ?m' l = get_size m l"
        using it' lst_apart by (auto simp: header_simps apart_sym)
      show "get_size ?m' x = get_size m x \<and> get_next ?m' x = get_next m x" if "apart x b" "apart x l" for x
        using that it' by (auto simp: header_simps apart_sym)
    qed
    then show ?thesis using eq join by (auto simp: merge_back_def)
  next
    case alone
    let ?m = "set_next b (hd (frees R @ [e])) m"
    let ?m' = "if it \<noteq> b then set_next it b ?m else ?m"
    have C32: "hd (frees R @ [e]) < 2 ^ 32" using C get_bounds(1)[of m it] by simp
    have eq: "link_block e it b m = ?m'"
    proof -
      have "b + s = get_next m it \<longrightarrow> get_next m it = e" using alone(2) C by simp
      then show ?thesis unfolding link_block_def size Let_def C[symmetric] by (cases "it = b"; cases "b + s = get_next m it") auto
    qed
    have "free_ok cfg ?m' a e (X @ (b, s, False) # R)"
    proof (rule relink[OF lay old pre post ends l])
      have bit: "it \<noteq> b \<Longrightarrow> apart it b" using it' by auto
      show "get_size ?m' b = s" using bit size by (simp add: header_simps)
      show "get_next ?m' b = hd (frees R @ [e])" using bit C32 by (simp add: header_simps)
      show "get_next ?m' l = b"
        using it' z b32 lst_apart by (auto simp: header_simps apart_sym)
      show "get_size ?m' l = get_size m l"
        using it' lst_apart by (auto simp: header_simps apart_sym)
      show "get_size ?m' x = get_size m x \<and> get_next ?m' x = get_next m x" if "apart x b" "apart x l" for x
        using that it' by (auto simp: header_simps apart_sym)
    qed
    then show ?thesis using eq alone(1) by auto
  qed
  then show "free_ok cfg (link_block e it b m) a e (X @ merge_back b s R)"
    and "link_block e it b m x \<noteq> m x \<Longrightarrow> (b \<le> x \<and> x < b + 8) \<or> (it \<le> x \<and> x < it + 8)"
    using frame by blast+
qed

lemma merge_snoc_free: "merge (L @ [(q, n, False)]) p s R = L @ merge_back q (n + s) R"
  by (simp add: merge_def)

lemma merge_other: "L = [] \<or> L = L' @ [(q, n, True)] \<Longrightarrow> merge L p s R = L @ merge_back p s R"
  by (auto simp: merge_def)

text \<open>What precedes a block: nothing, a free block that ends there, or a block in use.\<close>

lemma laid_out_snoc:
  assumes "laid_out a L p"
  obtains (none) "L = []" "a = p"
    | (free) L' q n where "L = L' @ [(q, n, False)]" "q + n = p" "8 \<le> n" "laid_out a L' q"
    | (used) L' q n where "L = L' @ [(q, n, True)]" "q + n = p" "8 \<le> n" "laid_out a L' q"
proof (cases L rule: rev_cases)
  case Nil
  then show ?thesis using assms none by simp
next
  case (snoc L' r)
  obtain q n u where r: "r = (q, n, u)" by (metis surj_pair)
  from assms snoc r have "q + n = p" "8 \<le> n" "laid_out a L' q" by (auto simp: laid_out_append)
  then show ?thesis using snoc r free used by (cases u) auto
qed

text \<open>A block that is in no list of the heap goes back to the free ones.\<close>

lemma insert_ok:
  assumes ok: "free_ok cfg m a e (L @ (p, s, True) # R)" and size: "get_size m p = s"
  shows "\<exists>m'. prvInsertBlockIntoFreeList cfg e p m = Some m' \<and> free_ok cfg m' a e (merge L p s R) \<and>
    (\<forall>x. m' x \<noteq> m x \<longrightarrow> (\<exists>y\<in>insert (xStart cfg) (insert p (set (frees L))). y \<le> x \<and> x < y + 8))"
proof -
  obtain it where last: "it = last (xStart cfg # frees L)" by simp
  from ok have lay: "laid_out a (L @ (p, s, True) # R) e"
    and old: "\<forall>p s. (p, s, False) \<in> set L \<union> set R \<longrightarrow> get_size m p = s"
    and chain: "free_chain m (xStart cfg) (frees L @ frees R) e"
    and ends: "get_size m (xStart cfg) = 0" "get_size m e = 0" "get_next m e = 0"
      "xStart cfg + 8 \<le> a \<or> e + 8 \<le> xStart cfg" "0 < a" "e + 8 \<le> 2 ^ 32" "e - a < 2 ^ 31"
    by (auto simp: free_ok_def)
  from lay have left: "laid_out a L p" and right: "laid_out (p + s) R e" and s: "8 \<le> s" "p + s \<le> e"
    by (auto simp: laid_out_append dest: laid_out_le)
  have below: "\<forall>x\<in>set (frees L). x < p" using frees_block[OF left] by fastforce
  have above: "\<forall>x\<in>set (frees R). p + s \<le> x" using frees_block[OF right] by fastforce
  have pos: "insert_position m p (xStart cfg) = Some it"
    unfolding last using insert_position_finds[OF chain below] above s by fastforce
  then have ins: "prvInsertBlockIntoFreeList cfg e p m = Some (insert_behind e it p m)"
    by (simp add: prvInsertBlockIntoFreeList_def)
  have parts: "free_chain m (xStart cfg) (frees L) (hd (frees R @ [e]))" "free_chain m it (frees R) e"
    using chain by (cases "frees R"; auto simp: free_chain_append simp: last dest: free_chain_last)+
  have x0: "apart (xStart cfg) p" using ends(4) s left laid_out_le[OF left] by (auto simp: apart_def)
  show ?thesis
  proof (cases "\<exists>L' q n. L = L' @ [(q, n, False)]")
    case True
    then obtain L' q n where L: "L = L' @ [(q, n, False)]" by blast
    from left L have q: "q + n = p" "8 \<le> n" "laid_out a L' q" by (auto simp: laid_out_append)
    have it: "it = q" using L last by simp
    have n: "get_size m q = n" using old L by simp
    have pq: "apart q p" using q by (simp add: apart_def)
    let ?m = "set_size q (n + s) m"
    have sum: "n + s < 2 ^ 32" using q s ends(6) by simp
    have eq: "insert_behind e it p m = link_block e q q ?m"
      by (simp add: insert_behind_def it n q(1) size size_add_id[OF sum])
    have nodes: "sorted_wrt apart (xStart cfg # frees L' @ q # frees R)"
      using nodes_apart[OF lay ends(4)] L by simp
    have far: "\<And>x. x \<in> set (xStart cfg # frees L' @ frees R) \<Longrightarrow> apart q x"
      using nodes by (auto simp: sorted_wrt_append apart_sym)
    have eq_far: "apart q e" using q s by (simp add: apart_def)
    have lay': "laid_out a (L' @ (q, n + s, False) # R) e"
      using lay L q by (auto simp: laid_out_append add.assoc)
    have old': "\<forall>p s. (p, s, False) \<in> set L' \<union> set R \<longrightarrow> get_size ?m p = s"
    proof (intro allI impI)
      fix p' s' assume *: "(p', s', False) \<in> set L' \<union> set R"
      then have "p' \<in> set (frees L') \<union> set (frees R)" by (auto simp: in_frees)
      then have "apart q p'" using far by auto
      then show "get_size ?m p' = s'" using * old L by (auto simp: header_simps)
    qed
    have pre': "free_chain ?m (xStart cfg) (frees L') q"
    proof -
      have "free_chain m (xStart cfg) (frees L') q" using parts(1) L by (simp add: free_chain_append)
      moreover have "get_next ?m x = get_next m x" if "x \<in> set (xStart cfg # frees L')" for x
        using far[of x] that by (auto simp: header_simps)
      ultimately show ?thesis using free_chain_cong by blast
    qed
    have post': "free_chain ?m q (frees R) e"
    proof -
      have "get_next ?m x = get_next m x" if "x \<in> set (q # frees R)" for x
        using far[of x] that by (auto simp: header_simps)
      then show ?thesis using parts(2) it free_chain_cong[of q "frees R" ?m m e] by simp
    qed
    have ends': "get_size ?m (xStart cfg) = 0" "get_size ?m e = 0" "get_next ?m e = 0"
      using ends far[of "xStart cfg"] eq_far by (simp_all add: header_simps)
    have sz: "get_size ?m q = n + s" using sum by (simp add: header_simps)
    note res = link_block_ok[OF lay' old' pre' post' ends' ends(4-7) sz]
    have "free_ok cfg (link_block e q q ?m) a e (merge L p s R)"
      using res(1) L by (simp add: merge_snoc_free)
    moreover have "q \<le> x \<and> x < q + 8" if "link_block e q q ?m x \<noteq> m x" for x
      using res(2)[of x] that header_frame(2)[of x q "n + s" m] by (metis not_le)
    ultimately show ?thesis using ins eq L by auto
  next
    case False
    then have mrg: "merge L p s R = L @ merge_back p s R"
      using laid_out_snoc[OF left] by (metis merge_other)
    have it_in: "it \<in> set (xStart cfg # frees L)" unfolding last by (rule last_in_set) simp
    have nofront: "it + get_size m it \<noteq> p"
    proof
      assume *: "it + get_size m it = p"
      show False
      proof (cases "frees L = []")
        case True
        then show False using * last ends(1) x0 by (simp add: apart_def)
      next
        case ne: False
        then have "it \<in> set (frees L)" using last by simp
        then obtain n where n: "(it, n, False) \<in> set L" by (auto simp: in_frees)
        then obtain L1 L2 where L: "L = L1 @ (it, n, False) # L2" by (meson split_list)
        have "it + n = p" using * n old by auto
        with left L have "laid_out p L2 p" by (auto simp: laid_out_append)
        then have "L2 = []" by (cases L2) (use laid_out_le in fastforce)+
        with L False show False by metis
      qed
    qed
    have eq: "insert_behind e it p m = link_block e it p m"
      using nofront by (simp add: insert_behind_def)
    have ap: "apart it p"
      using it_in x0 frees_block[OF left, of it] by (auto simp: apart_def)
    have lay': "laid_out a (L @ (p, s, False) # R) e" using lay by (simp add: laid_out_append)
    note res = link_block_ok[OF lay' old parts ends size]
    have "free_ok cfg (link_block e it p m) a e (merge L p s R)" using res(1) ap mrg last by simp
    moreover have "\<exists>y\<in>insert (xStart cfg) (insert p (set (frees L))). y \<le> x \<and> x < y + 8"
      if "link_block e it p m x \<noteq> m x" for x
      using res(2)[of x] that ap it_in last by auto
    ultimately show ?thesis using ins eq by auto
  qed
qed

lemma free_ok_cong:
  assumes "free_ok cfg m a e bs"
    and "\<And>x. x \<in> insert (xStart cfg) (insert e (set (frees bs))) \<Longrightarrow>
      get_size m' x = get_size m x \<and> get_next m' x = get_next m x"
  shows "free_ok cfg m' a e bs"
proof -
  have "free_chain m' (xStart cfg) (frees bs) e = free_chain m (xStart cfg) (frees bs) e"
    by (rule free_chain_cong) (use assms(2) in auto)
  moreover have "get_size m' p = get_size m p" if "(p, s, False) \<in> set bs" for p s
    using that assms(2)[of p] by (auto simp: in_frees)
  ultimately show ?thesis using assms(1) assms(2)[of "xStart cfg"] assms(2)[of e]
    by (auto simp: free_ok_def)
qed

text \<open>Writing into a block that is not free leaves the free list alone.\<close>

lemma inside_apart:
  assumes ok: "free_ok cfg m a e (L @ (p, s, True) # R)"
    and x: "x \<in> insert (xStart cfg) (insert e (set (frees (L @ R))))"
    and y: "p \<le> y" "y + 8 \<le> p + s"
  shows "apart y x"
proof -
  from ok have left: "laid_out a L p" and right: "laid_out (p + s) R e"
    and x0: "xStart cfg + 8 \<le> a \<or> e + 8 \<le> xStart cfg"
    by (auto simp: free_ok_def laid_out_append)
  show ?thesis using x y x0 laid_out_le[OF left] laid_out_le[OF right]
      frees_block[OF left, of x] frees_block[OF right, of x]
    by (auto simp: apart_def)
qed

lemma free_ok_write:
  assumes ok: "free_ok cfg m a e (L @ (p, s, True) # R)"
    and frame: "\<And>x. x < p \<or> p + s \<le> x \<Longrightarrow> m' x = m x"
  shows "free_ok cfg m' a e (L @ (p, s, True) # R)"
proof (rule free_ok_cong[OF ok])
  from ok have lay: "laid_out a (L @ (p, s, True) # R) e" by (simp add: free_ok_def)
  have s8: "8 \<le> s" using laid_out_block[OF lay, of p s True] by simp
  fix x assume "x \<in> insert (xStart cfg) (insert e (set (frees (L @ (p, s, True) # R))))"
  then have x: "x \<in> insert (xStart cfg) (insert e (set (frees (L @ R))))" by simp
  have "m' y = m y" if "x \<le> y" "y < x + 8" for y
  proof (rule frame, rule ccontr)
    assume *: "\<not> (y < p \<or> p + s \<le> y)"
    have "apart p x" "apart (p + s - 8) x"
      using inside_apart[OF ok x, of p] inside_apart[OF ok x, of "p + s - 8"] s8 by simp_all
    moreover have "x < p + s" "p < x + 8" using * that by auto
    ultimately have "p + 8 \<le> x" "x + 8 \<le> p + s - 8" using s8 by (auto simp: apart_def)
    moreover from this have "x + 8 \<le> p + s" by linarith
    ultimately show False using inside_apart[OF ok x, of x] by (simp add: apart_def)
  qed
  then show "get_size m' x = get_size m x \<and> get_next m' x = get_next m x" using header_cong[of x m' m] by blast
qed

lemma unlink_ok:
  assumes ok: "free_ok cfg m a e (L @ (p, s, False) # R)"
  shows "free_ok cfg (set_next (last (xStart cfg # frees L)) (get_next m p) m) a e (L @ (p, s, True) # R)"
proof -
  obtain it where it: "it = last (xStart cfg # frees L)" by simp
  let ?m = "set_next it (get_next m p) m"
  from ok have lay: "laid_out a (L @ (p, s, False) # R) e"
    and chain: "free_chain m (xStart cfg) (frees L) p" "free_chain m p (frees R) e"
    and x0: "xStart cfg + 8 \<le> a \<or> e + 8 \<le> xStart cfg"
    by (auto simp: free_ok_def free_chain_append)
  have nodes: "sorted_wrt apart (xStart cfg # frees L @ p # frees R)"
    using nodes_apart[OF lay x0] by simp
  have it_in: "it \<in> set (xStart cfg # frees L)" unfolding it by (rule last_in_set) simp
  have far: "x \<in> set (frees R) \<Longrightarrow> apart it x" for x
    using nodes it_in by (auto simp: sorted_wrt_append)
  have near: "x \<in> set (butlast (xStart cfg # frees L)) \<Longrightarrow> apart it x" for x
    using sorted_wrt_butlast_last[of apart "xStart cfg # frees L"] nodes
    by (simp add: it sorted_wrt_append apart_sym)
  have it_e: "apart it e"
    using it_in frees_block[OF lay, of it] x0 laid_out_le[OF lay] by (auto simp: apart_def)
  have itn: "get_next ?m it = get_next m p" by (simp add: header_simps)
  have size: "get_size ?m x = get_size m x" if "x = it \<or> apart it x" for x
    using that by (auto simp: header_simps)
  have same: "x = it \<or> apart it x" if "x \<in> set (xStart cfg # frees L @ frees R)" for x
  proof -
    from that consider "x \<in> set (xStart cfg # frees L)" | "x \<in> set (frees R)" by auto
    then show ?thesis
    proof cases
      case 1
      then have "x \<in> set (butlast (xStart cfg # frees L)) \<or> x = it"
        unfolding it by (metis Un_iff append_butlast_last_id empty_iff insert_iff list.distinct(1) list.set(1) list.simps(15) set_append)
      then show ?thesis using near by blast
    qed (use far in blast)
  qed
  have "free_chain ?m (xStart cfg) (frees (L @ (p, s, True) # R)) e"
  proof (cases "frees R")
    case Nil
    then have "get_next m p = e" using chain(2) by simp
    moreover have "free_chain ?m (xStart cfg) (frees L) (get_next m p)"
      by (rule free_chain_relink[OF chain(1)]) (use near itn it in \<open>auto simp: header_simps\<close>)
    ultimately show ?thesis using Nil by simp
  next
    case (Cons y ys)
    then have y: "get_next m p = y" "free_chain m y ys e" using chain(2) by auto
    have "free_chain ?m (xStart cfg) (frees L) (get_next m p)"
      by (rule free_chain_relink[OF chain(1)]) (use near itn it in \<open>auto simp: header_simps\<close>)
    moreover have "free_chain ?m y ys e = free_chain m y ys e"
      by (rule free_chain_cong) (use far Cons in \<open>auto simp: header_simps\<close>)
    ultimately show ?thesis using y Cons by (simp add: free_chain_append)
  qed
  moreover have "get_size ?m q = n" if "(q, n, False) \<in> set (L @ (p, s, True) # R)" for q n
  proof -
    from that have "q \<in> set (xStart cfg # frees L @ frees R)" by (auto simp: in_frees)
    then show ?thesis using size[OF same] that ok by (auto simp: free_ok_def)
  qed
  ultimately have "free_ok cfg ?m a e (L @ (p, s, True) # R)"
    using ok it_e size[of "xStart cfg"] same[of "xStart cfg"]
    by (auto simp: free_ok_def laid_out_append header_simps)
  then show ?thesis by (simp only: it)
qed

end
