(* ===== verification/Heap4_Blocks.thy ===== *)
theory Heap4_Blocks
  imports Heap4_Free
begin

text \<open>
  Allocation and release in the FreeRTOS heap as operations on the list of all blocks: \<open>heap_ok\<close>
  relates a heap to its blocks, \<open>malloc_hit\<close>, \<open>malloc_none\<close> and \<open>free_used\<close> say what the two functions
  do to them and which bytes of memory they leave alone.
\<close>

section \<open>Configuration and sizes\<close>

definition cfg_ok :: "heap_cfg \<Rightarrow> bool" where
  "cfg_ok cfg \<longleftrightarrow> (\<exists>k. 3 \<le> k \<and> k \<le> 12 \<and> hc_alignment cfg = 2 ^ k) \<and>
     0 < ucHeap cfg \<and> ucHeap cfg + hc_total cfg + 8 \<le> 2 ^ 32 \<and>
     4 * hc_alignment cfg \<le> hc_total cfg \<and> hc_total cfg < 2 ^ 31 \<and>
     (xStart cfg + 8 \<le> ucHeap cfg \<or> ucHeap cfg + hc_total cfg \<le> xStart cfg)"

definition heap_ok :: "heap_cfg \<Rightarrow> heap4 heap \<Rightarrow> block list \<Rightarrow> bool" where
  "heap_ok cfg h bs \<longleftrightarrow>
     (let m = h_mem h; st = h_alloc h; al = hc_alignment cfg in
      free_ok cfg m (pucHeapStart st) (pxEnd st) bs \<and>
      (\<forall>p s. (p, s, True) \<in> set bs \<longrightarrow> get_size m p = set_bit 31 s \<and> get_next m p = 0) \<and>
      successively (\<lambda>b c. snd (snd b) \<or> snd (snd c)) bs \<and>
      (\<forall>p s u. (p, s, u) \<in> set bs \<longrightarrow> al dvd s) \<and> al dvd pucHeapStart st \<and>
      xFreeBytesRemaining st = free_bytes bs)"

lemma misaligned_mod: "cfg_ok cfg \<Longrightarrow> misaligned cfg x = x mod hc_alignment cfg"
proof -
  assume "cfg_ok cfg"
  then obtain k where "hc_alignment cfg = 2 ^ k" by (auto simp: cfg_ok_def)
  then show ?thesis
    by (simp only: misaligned_def take_bit_eq_mod[symmetric] take_bit_eq_mask mask_eq_exp_minus_1)
qed

lemma align_down_eq: "cfg_ok cfg \<Longrightarrow> align_down cfg x = x div hc_alignment cfg * hc_alignment cfg"
  by (simp add: align_down_def misaligned_mod minus_mod_eq_div_mult)

lemma cfg_alignment:
  assumes "cfg_ok cfg"
  shows "8 \<le> hc_alignment cfg" "hc_alignment cfg \<le> 4096"
proof -
  obtain k where k: "3 \<le> k" "k \<le> 12" "hc_alignment cfg = 2 ^ k" using assms by (auto simp: cfg_ok_def)
  show "8 \<le> hc_alignment cfg" using power_increasing[of 3 k "2 :: nat"] k by simp
  show "hc_alignment cfg \<le> 4096" using power_increasing[of k 12 "2 :: nat"] k by simp
qed

lemma heap_struct_eq: "cfg_ok cfg \<Longrightarrow> heap_struct cfg = hc_alignment cfg"
proof -
  assume ok: "cfg_ok cfg"
  let ?a = "hc_alignment cfg"
  note a = cfg_alignment[OF ok]
  have "(8 + (?a - 1)) div ?a = 1"
    using a(1) by (intro div_nat_eqI) auto
  then show ?thesis by (simp add: heap_struct_def align_down_eq[OF ok])
qed

text \<open>What a request needs: the bytes asked for and a header, rounded up.\<close>

definition needed :: "heap_cfg \<Rightarrow> nat \<Rightarrow> nat" where
  "needed cfg n = (n + heap_struct cfg + (hc_alignment cfg - 1)) div hc_alignment cfg * hc_alignment cfg"

lemma round_up:
  fixes a x :: nat
  assumes "0 < a"
  shows "(x + (a - 1)) div a * a = (if x mod a = 0 then x else x + (a - x mod a))"
proof -
  obtain q r where x: "x = q * a + r" and r: "r < a" using assms by (metis div_mult_mod_eq mod_less_divisor)
  have m: "x mod a = r" using x r by simp
  show ?thesis
  proof (cases "r = 0")
    case True
    then have "(x + (a - 1)) div a = q" using x r by (intro div_nat_eqI) (auto simp: algebra_simps)
    then show ?thesis using True x by simp
  next
    case False
    then have "(x + (a - 1)) div a = Suc q" using x r by (intro div_nat_eqI) (auto simp: algebra_simps)
    then show ?thesis using False x r by simp
  qed
qed

lemma round_up_bounds:
  fixes a x :: nat
  assumes "0 < a"
  shows "x \<le> (x + (a - 1)) div a * a" "(x + (a - 1)) div a * a < x + a"
proof -
  obtain r where r: "x mod a = r" "r < a" using assms by simp
  show "x \<le> (x + (a - 1)) div a * a" "(x + (a - 1)) div a * a < x + a"
    unfolding round_up[OF assms] r(1) using r(2) by auto
qed

lemma wanted_size_eq:
  assumes ok: "cfg_ok cfg" and n: "0 < n" "n < 2 ^ 32"
  shows "wanted_size cfg n = (if needed cfg n < 2 ^ 32 then needed cfg n else 0)"
proof -
  let ?a = "hc_alignment cfg"
  note a = cfg_alignment[OF ok]
  have nd: "needed cfg n = (if (n + ?a) mod ?a = 0 then n + ?a else n + ?a + (?a - (n + ?a) mod ?a))"
    using round_up[of ?a "n + ?a"] a by (simp add: needed_def heap_struct_eq[OF ok] add.assoc)
  show ?thesis
  proof (cases "n + ?a < 2 ^ 32")
    case True
    then have "size_add n ?a = n + ?a" by (rule size_add_id)
    moreover have "\<not> heapADD_WILL_OVERFLOW n ?a" using True a by (simp add: heapADD_WILL_OVERFLOW_def)
    ultimately show ?thesis using n True
      by (auto simp: wanted_size_def heap_struct_eq[OF ok] misaligned_mod[OF ok] nd Let_def
          heapADD_WILL_OVERFLOW_def size_add_id)
  next
    case False
    then have "heapADD_WILL_OVERFLOW n ?a" using a by (auto simp: heapADD_WILL_OVERFLOW_def)
    moreover have "\<not> needed cfg n < 2 ^ 32" using False nd by auto
    ultimately show ?thesis using n by (simp add: wanted_size_def heap_struct_eq[OF ok])
  qed
qed

lemma needed_bounds:
  assumes "cfg_ok cfg"
  shows "n + hc_alignment cfg \<le> needed cfg n" "needed cfg n < n + 2 * hc_alignment cfg"
    "needed cfg n mod hc_alignment cfg = 0"
  using round_up_bounds[of "hc_alignment cfg" "n + hc_alignment cfg"] cfg_alignment[OF assms]
  by (simp_all add: needed_def heap_struct_eq[OF assms])

section \<open>Allocation\<close>

text \<open>The first free block of at least the given size.\<close>

lemma find_fit_hit:
  assumes "free_chain m a (A @ y # B) e"
    and "\<forall>x\<in>set A. get_size m x < w \<and> 0 < x" "w \<le> get_size m y" "0 < y"
  shows "find_fit m w a (hd (A @ [y])) = Some (last (a # A), y)"
  using assms
proof (induction A arbitrary: a)
  case Nil
  then show ?case by (simp add: find_fit.simps)
next
  case (Cons x A)
  have "get_next m x = hd (A @ [y])" using Cons.prems(1) by (cases A) auto
  moreover have "0 < hd (A @ [y])" using Cons.prems by (cases A) auto
  ultimately show ?case using Cons by (simp add: find_fit.simps[of m w a x])
qed

lemma find_fit_miss:
  assumes "free_chain m a A e"
    and "\<forall>x\<in>set A. get_size m x < w \<and> 0 < x" "get_next m e = 0" "0 < e"
  shows "find_fit m w a (hd (A @ [e])) = Some (last (a # A), e)"
  using assms
proof (induction A arbitrary: a)
  case Nil
  then show ?case by (simp add: find_fit.simps)
next
  case (Cons x A)
  have "get_next m x = hd (A @ [e])" using Cons.prems(1) by (cases A) auto
  moreover have "0 < hd (A @ [e])" using Cons.prems by (cases A) auto
  ultimately show ?case using Cons by (simp add: find_fit.simps[of m w a x])
qed

lemma heap_okD:
  assumes "heap_ok cfg h bs"
  shows "free_ok cfg (h_mem h) (pucHeapStart (h_alloc h)) (pxEnd (h_alloc h)) bs"
    "\<And>p s. (p, s, True) \<in> set bs \<Longrightarrow> get_size (h_mem h) p = set_bit 31 s \<and> get_next (h_mem h) p = 0"
    "successively (\<lambda>b c. snd (snd b) \<or> snd (snd c)) bs"
    "\<And>p s u. (p, s, u) \<in> set bs \<Longrightarrow> hc_alignment cfg dvd s"
    "hc_alignment cfg dvd pucHeapStart (h_alloc h)"
    "xFreeBytesRemaining (h_alloc h) = free_bytes bs"
    "laid_out (pucHeapStart (h_alloc h)) bs (pxEnd (h_alloc h))"
    "0 < pucHeapStart (h_alloc h)" "pxEnd (h_alloc h) + 8 \<le> 2 ^ 32"
    "pxEnd (h_alloc h) - pucHeapStart (h_alloc h) < 2 ^ 31"
  using assms unfolding heap_ok_def free_ok_def Let_def by blast+

lemma block_aligned:
  "laid_out a bs e \<Longrightarrow> (k :: nat) dvd a \<Longrightarrow> (\<And>p s u. (p, s, u) \<in> set bs \<Longrightarrow> k dvd s) \<Longrightarrow>
   (p, s, u) \<in> set bs \<Longrightarrow> k dvd p"
proof (induction a bs e rule: laid_out.induct)
  case (2 a q n v bs e)
  have "k dvd n" by (rule 2(4)[of q n v]) simp
  then have "k dvd a + n" using 2(3) by (rule dvd_add[rotated])
  moreover have "\<And>p s u. (p, s, u) \<in> set bs \<Longrightarrow> k dvd s" using 2(4) by (meson list.set_intros(2))
  ultimately show ?case using 2(1,2,3,5) by auto
qed simp

lemma free_bytes_in: "(p, s, False) \<in> set bs \<Longrightarrow> s \<le> free_bytes bs"
  by (induction bs rule: free_bytes.induct) auto

lemma chain_of:
  assumes "free_ok cfg m a e bs"
  shows "free_chain m (xStart cfg) (frees bs) e" "get_next m (xStart cfg) = hd (frees bs @ [e])" "get_next m e = 0"
    "\<And>x. x \<in> set (frees bs) \<Longrightarrow> 0 < x" "0 < e"
  using assms free_chain_hd[of m "xStart cfg" "frees bs" e] laid_out_le[of a bs e]
  by (auto simp: free_ok_def dest: frees_block)

definition fits :: "nat \<Rightarrow> block \<Rightarrow> bool" where
  "fits w b \<longleftrightarrow> \<not> snd (snd b) \<and> w \<le> fst (snd b)"

text \<open>No free block is large enough.\<close>

lemma malloc_none:
  assumes cfg: "cfg_ok cfg" and ok: "heap_ok cfg h bs" and n: "n < 2 ^ 32"
    and none: "n = 0 \<or> (\<forall>b\<in>set bs. \<not> fits (needed cfg n) b)"
  shows "heap4_malloc cfg n h = (if hc_failed_hook cfg then Diverges else Ret (0, h))"
proof -
  note f = heap_okD(1)[OF ok]
  note ch = chain_of[OF f]
  have init: "pxEnd (h_alloc h) \<noteq> 0" using ch(5) by simp
  let ?w = "wanted_size cfg n"
  have zero: "misaligned cfg 0 = 0" by (simp add: misaligned_mod[OF cfg])
  have small: "get_size (h_mem h) x < ?w" if "x \<in> set (frees bs)" "0 < ?w" for x
  proof -
    obtain s where s: "(x, s, False) \<in> set bs" using \<open>x \<in> set (frees bs)\<close> by (auto simp: in_frees)
    have n0: "0 < n" using that(2) by (cases n) (auto simp: wanted_size_def)
    then have "?w = needed cfg n" using that(2) wanted_size_eq[OF cfg _ n] by (auto split: if_splits)
    then show ?thesis using s none n0 f by (fastforce simp: fits_def free_ok_def)
  qed
  have "find_fit (h_mem h) ?w (xStart cfg) (get_next (h_mem h) (xStart cfg)) =
      Some (last (xStart cfg # frees bs), pxEnd (h_alloc h))" if "0 < ?w"
    using find_fit_miss[OF ch(1) _ ch(3,5), of ?w] small ch that by simp
  then show ?thesis using init by (simp add: heap4_malloc_def Let_def zero)
qed

lemma blocks_disjoint:
  "laid_out a bs e \<Longrightarrow> (p, s, u) \<in> set bs \<Longrightarrow> (q, n, v) \<in> set bs \<Longrightarrow> (p, s, u) \<noteq> (q, n, v) \<Longrightarrow>
   p + s \<le> q \<or> q + n \<le> p"
proof (induction a bs e rule: laid_out.induct)
  case (2 a r k w bs e)
  from 2(2) have r: "r = a" "laid_out (a + k) bs e" by simp_all
  then show ?case using 2 laid_out_block[OF r(2), of p s u] laid_out_block[OF r(2), of q n v] by auto
qed simp

text \<open>A change that stays inside one block and the headers of free blocks does not reach a block
  in use.\<close>

definition local_change :: "heap_cfg \<Rightarrow> block list \<Rightarrow> nat \<Rightarrow> nat \<Rightarrow> memory \<Rightarrow> memory \<Rightarrow> bool" where
  "local_change cfg L p s m m' \<longleftrightarrow>
     (\<forall>x. m' x \<noteq> m x \<longrightarrow> (p \<le> x \<and> x < p + s) \<or> (\<exists>y\<in>insert (xStart cfg) (set (frees L)). y \<le> x \<and> x < y + 8))"

lemma used_kept:
  assumes ok: "free_ok cfg m a e (L @ (p, s, u) # R)" and used: "(q, n, True) \<in> set (L @ R)"
    and change: "local_change cfg L p s m m'" and x: "q \<le> x" "x < q + n"
  shows "m' x = m x"
proof (rule ccontr)
  assume "m' x \<noteq> m x"
  then consider "p \<le> x" "x < p + s" | y where "y = xStart cfg \<or> y \<in> set (frees L)" "y \<le> x" "x < y + 8"
    using change by (auto simp: local_change_def)
  then show False
  proof cases
    case 1
    from ok have "laid_out a L p" "laid_out (p + s) R e" by (auto simp: free_ok_def laid_out_append)
    then have "q + n \<le> p \<or> p + s \<le> q" using used laid_out_block by fastforce
    with 1 x show False by auto
  next
    case 2
    have lay: "laid_out a (L @ (p, s, u) # R) e" and x0: "xStart cfg + 8 \<le> a \<or> e + 8 \<le> xStart cfg"
      using ok by (auto simp: free_ok_def)
    have qb: "(q, n, True) \<in> set (L @ (p, s, u) # R)" using used by auto
    note q = laid_out_block[OF lay qb]
    from 2(1) show False
    proof
      assume "y = xStart cfg"
      then show False using x0 q x 2 by auto
    next
      assume "y \<in> set (frees L)"
      then obtain k where k: "(y, k, False) \<in> set (L @ (p, s, u) # R)" by (auto simp: in_frees)
      show False
        using blocks_disjoint[OF lay qb k] laid_out_block[OF lay k] x 2 by auto
    qed
  qed
qed

lemma used_headers:
  assumes ok: "free_ok cfg m a e (L @ (p, s, u) # R)" and used: "(q, n, True) \<in> set (L @ R)"
    and change: "local_change cfg L p s m m'"
  shows "get_size m' q = get_size m q" "get_next m' q = get_next m q"
proof -
  have "laid_out a (L @ (p, s, u) # R) e" using ok by (simp add: free_ok_def)
  from laid_out_block[OF this, of q n True] used have "8 \<le> n" by auto
  then have "m' x = m x" if "q \<le> x" "x < q + 8" for x
    using used_kept[OF ok used change, of x] that by simp
  then show "get_size m' q = get_size m q" "get_next m' q = get_next m q"
    using header_cong[of q m' m] by blast+
qed

section \<open>Merged blocks\<close>

lemma merge_cases:
  obtains (alone) "merge L p s R = L @ (p, s, False) # R"
      "L = [] \<or> snd (snd (last L))" "R = [] \<or> snd (snd (hd R))"
    | (behind) q n R' where "R = (q, n, False) # R'" "merge L p s R = L @ (p, s + n, False) # R'"
      "L = [] \<or> snd (snd (last L))"
    | (front) q n L' where "L = L' @ [(q, n, False)]" "merge L p s R = L' @ (q, n + s, False) # R"
      "R = [] \<or> snd (snd (hd R))"
    | (both) q n L' r k R' where "L = L' @ [(q, n, False)]" "R = (r, k, False) # R'"
      "merge L p s R = L' @ (q, n + s + k, False) # R'"
proof -
  note simps = merge_snoc_free merge_other merge_back_def
  have L: "(\<exists>L' q n. L = L' @ [(q, n, False)]) \<or> (L = [] \<or> (\<exists>L' q n. L = L' @ [(q, n, True)]))"
    by (cases L rule: rev_cases) (simp, metis (full_types) prod.collapse)
  show ?thesis
  proof (cases "\<exists>r k R'. R = (r, k, False) # R'")
    case True
    then obtain r k R' where R: "R = (r, k, False) # R'" by blast
    from L show ?thesis
    proof (elim disjE exE)
      fix L' q n assume "L = L' @ [(q, n, False)]"
      then show ?thesis using R by (intro both) (auto simp: simps)
    qed (use R in \<open>auto intro!: behind simp: simps\<close>)
  next
    case False
    then have R: "R = [] \<or> snd (snd (hd R))" by (cases R) (simp, metis (full_types) list.sel(1) prod.collapse)
    have nob: "merge_back b t R = (b, t, False) # R" for b t
      using False by (auto simp: merge_back_def split: list.splits bool.splits)
    from L show ?thesis
    proof (elim disjE exE)
      fix L' q n assume "L = L' @ [(q, n, False)]"
      then show ?thesis using R by (intro front) (auto simp: merge_snoc_free nob)
    next
      assume "L = []"
      then show ?thesis using R by (intro alone) (auto simp: merge_other nob)
    next
      fix L' q n assume "L = L' @ [(q, n, True)]"
      then show ?thesis using R by (intro alone) (auto simp: merge_other nob)
    qed
  qed
qed

lemma merge_used: "(q, n, True) \<in> set (merge L p s R) \<longleftrightarrow> (q, n, True) \<in> set (L @ R)"
  by (rule merge_cases[of L p s R]) auto

lemma merge_free_bytes: "free_bytes (merge L p s R) = free_bytes (L @ R) + s"
  by (rule merge_cases[of L p s R]) auto

lemma merge_aligned:
  assumes "\<And>q n u. (q, n, u) \<in> set (L @ (p, s, v) # R) \<Longrightarrow> (k :: nat) dvd n" "(q, n, u) \<in> set (merge L p s R)"
  shows "k dvd n"
proof (rule merge_cases[of L p s R], goal_cases)
  case 1 then show ?case using assms by auto
next
  case (2 r m R')
  have "k dvd s" "k dvd m" using assms(1)[of p s v] assms(1)[of r m False] 2 by auto
  then show ?case using assms 2 by auto
next
  case (3 r m L')
  have "k dvd s" "k dvd m" using assms(1)[of p s v] assms(1)[of r m False] 3 by auto
  then show ?case using assms 3 by auto
next
  case (4 r m L' t l R')
  have "k dvd s" "k dvd m" "k dvd l" using assms(1)[of p s v] assms(1)[of r m False] assms(1)[of t l False] 4 by auto
  then show ?case using assms 4 by auto
qed

abbreviation coalesced :: "block list \<Rightarrow> bool" where
  "coalesced \<equiv> successively (\<lambda>b c. snd (snd b) \<or> snd (snd c))"

lemma merge_coalesced:
  assumes "coalesced (L @ (p, s, True) # R)"
  shows "coalesced (merge L p s R)"
proof (rule merge_cases[of L p s R], goal_cases)
  case 1 then show ?case using assms by (cases R) (auto simp: successively_append_iff)
next
  case (2 r m R') then show ?case using assms
    by (cases R') (auto simp: successively_append_iff)
next
  case (3 r m L') then show ?case using assms
    by (cases R) (auto simp: successively_append_iff)
next
  case (4 r m L' t l R') then show ?case using assms
    by (cases R') (auto simp: successively_append_iff)
qed

section \<open>Release of a block\<close>

lemma bit_marks:
  assumes "s < 2 ^ 31"
  shows "\<not> bit (s :: nat) 31" "bit (set_bit 31 s) 31" "unset_bit 31 (set_bit 31 s) = s" "set_bit 31 s < 2 ^ 32"
proof -
  show nb: "\<not> bit s 31" using assms by (simp add: bit_iff_odd)
  show "bit (set_bit 31 s) 31" by (simp add: bit_simps)
  show "unset_bit 31 (set_bit 31 s) = s" using nb by (auto intro!: bit_eqI simp: bit_simps)
  have "set_bit 31 s = s + 2 ^ 31" using nb by (simp add: set_bit_eq)
  then show "set_bit 31 s < 2 ^ 32" using assms by simp
qed

lemma block_facts:
  assumes "heap_ok cfg h bs" "(p, s, u) \<in> set bs"
  shows "pucHeapStart (h_alloc h) \<le> p" "p + s \<le> pxEnd (h_alloc h)" "8 \<le> s" "0 < p" "s < 2 ^ 31"
    "p + s + 8 \<le> 2 ^ 32" "hc_alignment cfg dvd p"
  using laid_out_block[OF heap_okD(7)[OF assms(1)] assms(2)] heap_okD(8,9,10)[OF assms(1)]
    block_aligned[OF heap_okD(7)[OF assms(1)] heap_okD(5)[OF assms(1)] heap_okD(4)[OF assms(1)] assms(2)]
  by auto

text \<open>From the free list and the blocks in use back to the whole invariant.\<close>

lemma heap_okI:
  assumes "free_ok cfg (h_mem h) (pucHeapStart (h_alloc h)) (pxEnd (h_alloc h)) bs"
    "\<And>p s. (p, s, True) \<in> set bs \<Longrightarrow> get_size (h_mem h) p = set_bit 31 s \<and> get_next (h_mem h) p = 0"
    "coalesced bs" "\<And>p s u. (p, s, u) \<in> set bs \<Longrightarrow> hc_alignment cfg dvd s"
    "hc_alignment cfg dvd pucHeapStart (h_alloc h)" "xFreeBytesRemaining (h_alloc h) = free_bytes bs"
  shows "heap_ok cfg h bs"
  using assms unfolding heap_ok_def Let_def by blast

lemma free_used:
  assumes cfg: "cfg_ok cfg" and ok: "heap_ok cfg h (L @ (p, s, True) # R)"
  shows "\<exists>h'. heap4_free cfg (p + heap_struct cfg) h = Ret h' \<and> heap_ok cfg h' (merge L p s R) \<and>
    local_change cfg L p s (h_mem h) (h_mem h') \<and> pucHeapStart (h_alloc h') = pucHeapStart (h_alloc h) \<and>
    pxEnd (h_alloc h') = pxEnd (h_alloc h)"
proof -
  let ?m = "h_mem h" and ?st = "h_alloc h"
  note f = heap_okD(1)[OF ok]
  have b: "get_size ?m p = set_bit 31 s" "get_next ?m p = 0" using heap_okD(2)[OF ok, of p s] by auto
  have here: "(p, s, True) \<in> set (L @ (p, s, True) # R)" by simp
  note p = block_facts[OF ok here]
  note bits = bit_marks[OF p(5)]
  let ?m1 = "set_size p s ?m"
  have m1: "get_size ?m1 p = s" using p(5) by (simp add: header_simps)
  have f1: "free_ok cfg ?m1 (pucHeapStart ?st) (pxEnd ?st) (L @ (p, s, True) # R)"
    by (rule free_ok_write[OF f]) (use p(3) in \<open>auto intro!: header_frame\<close>)
  from insert_ok[OF f1 m1] obtain m2 where m2: "prvInsertBlockIntoFreeList cfg (pxEnd ?st) p ?m1 = Some m2"
    "free_ok cfg m2 (pucHeapStart ?st) (pxEnd ?st) (merge L p s R)"
    "\<forall>x. m2 x \<noteq> ?m1 x \<longrightarrow> (\<exists>y\<in>insert (xStart cfg) (insert p (set (frees L))). y \<le> x \<and> x < y + 8)"
    by blast
  let ?h = "\<lparr>h_mem = m2, h_alloc = ?st\<lparr>xFreeBytesRemaining := size_add (xFreeBytesRemaining ?st) s,
    xNumberOfSuccessfulFrees := size_add (xNumberOfSuccessfulFrees ?st) 1\<rparr>\<rparr>"
  have run: "heap4_free cfg (p + heap_struct cfg) h = Ret ?h"
    using b bits m1 m2(1) p(4) by (simp add: heap4_free_def Let_def)
  have change: "local_change cfg L p s ?m m2"
    unfolding local_change_def
  proof (intro allI impI)
    fix x assume ne: "m2 x \<noteq> ?m x"
    show "p \<le> x \<and> x < p + s \<or> (\<exists>y\<in>insert (xStart cfg) (set (frees L)). y \<le> x \<and> x < y + 8)"
    proof (cases "m2 x = ?m1 x")
      case True
      then have "\<not> (x < p \<or> p + 8 \<le> x)" using ne header_frame(2)[of x p s ?m] by metis
      then show ?thesis using p(3) by auto
    next
      case False
      then show ?thesis using m2(3) p(3) by fastforce
    qed
  qed
  have total: "size_add (xFreeBytesRemaining ?st) s = free_bytes (merge L p s R)"
  proof -
    have "laid_out (pucHeapStart ?st) (merge L p s R) (pxEnd ?st)" using m2(2) by (simp add: free_ok_def)
    from free_bytes_le[OF this] have "free_bytes (L @ R) + s < 2 ^ 32"
      using heap_okD(10)[OF ok] by (simp add: merge_free_bytes)
    then show ?thesis using heap_okD(6)[OF ok] by (simp add: merge_free_bytes size_add_id)
  qed
  have "heap_ok cfg ?h (merge L p s R)"
  proof (rule heap_okI)
    fix q n assume "(q, n, True) \<in> set (merge L p s R)"
    then have q: "(q, n, True) \<in> set (L @ R)" by (simp only: merge_used)
    then have "(q, n, True) \<in> set (L @ (p, s, True) # R)" by auto
    then show "get_size (h_mem ?h) q = set_bit 31 n \<and> get_next (h_mem ?h) q = 0"
      using heap_okD(2)[OF ok] used_headers[OF f q change] by simp
  next
    fix q n u assume "(q, n, u) \<in> set (merge L p s R)"
    with heap_okD(4)[OF ok] show "hc_alignment cfg dvd n" by (rule merge_aligned)
  qed (use m2(2) heap_okD(3,5)[OF ok] merge_coalesced total in auto)
  then show ?thesis using run change by simp
qed

text \<open>The blocks that a free block is turned into when it is handed out.\<close>

definition handed_out :: "heap_cfg \<Rightarrow> nat \<Rightarrow> nat \<Rightarrow> nat \<Rightarrow> block list" where
  "handed_out cfg w p s =
     (if s - w > 2 * heap_struct cfg then [(p, w, True), (p + w, s - w, False)] else [(p, s, True)])"

lemma split_block_ok:
  assumes cfg: "cfg_ok cfg" and f: "free_ok cfg m a e (L @ (p, s, True) # R)" and size: "get_size m p = s"
    and w: "w \<le> s" "8 \<le> w" "hc_alignment cfg dvd p" "hc_alignment cfg dvd w"
    and R: "R = [] \<or> snd (snd (hd R))"
  shows "\<exists>m' t. split_block cfg e w p m = Ret m' \<and> free_ok cfg m' a e (L @ handed_out cfg w p s @ R) \<and>
    get_size m' p = t \<and> hd (handed_out cfg w p s) = (p, t, True) \<and> local_change cfg L p s m m'"
proof (cases "s - w > 2 * heap_struct cfg")
  case False
  moreover from f have "s < 2 ^ 32" by (auto simp: free_ok_def laid_out_append dest!: laid_out_le)
  ultimately show ?thesis using f size w(1)
    by (simp add: split_block_def handed_out_def size_sub_id local_change_def)
next
  case True
  have hs: "heap_struct cfg = hc_alignment cfg" by (rule heap_struct_eq[OF cfg])
  have al: "8 \<le> hc_alignment cfg" by (rule cfg_alignment[OF cfg])
  let ?new = "p + w"
  from f have pe: "p + s \<le> e" "e + 8 \<le> 2 ^ 32" by (auto simp: free_ok_def laid_out_append dest!: laid_out_le)
  have s32: "s < 2 ^ 32" using pe by simp
  have sub: "size_sub s w = s - w" using w(1) s32 by (rule size_sub_id)
  have "misaligned cfg ?new = 0" using w(3,4) by (simp add: misaligned_mod[OF cfg] mod_eq_0_iff_dvd)
  then have run: "split_block cfg e w p m =
      (case prvInsertBlockIntoFreeList cfg e ?new (set_size p w (set_size ?new (s - w) m)) of
         None \<Rightarrow> Diverges | Some m3 \<Rightarrow> Ret m3)"
    using True by (simp add: split_block_def size sub Let_def)
  let ?m = "set_size p w (set_size ?new (s - w) m)"
  have ap: "apart p ?new" using w(2) by (simp add: apart_def)
  have room: "8 \<le> s - w" using True hs al by simp
  have fr: "?m x = m x" if "x < p \<or> p + s \<le> x" for x
  proof -
    have "?m x = set_size ?new (s - w) m x" by (rule header_frame) (use that room w in auto)
    also have "\<dots> = m x" by (rule header_frame) (use that room w in auto)
    finally show ?thesis .
  qed
  have f1: "free_ok cfg ?m a e ((L @ [(p, w, True)]) @ (?new, s - w, True) # R)"
    using free_ok_write[OF f fr] room w by (auto simp: free_ok_def laid_out_append)
  have sz: "get_size ?m ?new = s - w" using ap s32 by (simp add: header_simps)
  from insert_ok[OF f1 sz] obtain m' where m': "prvInsertBlockIntoFreeList cfg e ?new ?m = Some m'"
    "free_ok cfg m' a e (merge (L @ [(p, w, True)]) ?new (s - w) R)"
    "\<forall>x. m' x \<noteq> ?m x \<longrightarrow> (\<exists>y\<in>insert (xStart cfg) (insert ?new (set (frees L))). y \<le> x \<and> x < y + 8)"
    by auto
  have "merge (L @ [(p, w, True)]) ?new (s - w) R = L @ handed_out cfg w p s @ R"
    using R True by (cases R) (auto simp: merge_other merge_back_def handed_out_def split: bool.splits)
  moreover have "local_change cfg L p s m m'"
    unfolding local_change_def
  proof (intro allI impI)
    fix x assume ne: "m' x \<noteq> m x"
    show "p \<le> x \<and> x < p + s \<or> (\<exists>y\<in>insert (xStart cfg) (set (frees L)). y \<le> x \<and> x < y + 8)"
    proof (cases "m' x = ?m x")
      case True
      then show ?thesis using ne fr[of x] by (auto simp: not_le not_less)
    next
      case False
      then show ?thesis using m'(3) room w by fastforce
    qed
  qed
  moreover have "get_size m' p = w"
  proof -
    from f have left: "laid_out a L p" and x0: "xStart cfg + 8 \<le> a \<or> e + 8 \<le> xStart cfg"
      by (auto simp: free_ok_def laid_out_append)
    have "m' x = ?m x" if "p \<le> x" "x < p + 8" for x
    proof (rule ccontr)
      assume "m' x \<noteq> ?m x"
      with m'(3) obtain y where "y = xStart cfg \<or> y = ?new \<or> y \<in> set (frees L)" "y \<le> x" "x < y + 8" by auto
      then show False using frees_block[OF left, of y] x0 laid_out_le[OF left] that w pe room by auto
    qed
    then have "get_size m' p = get_size ?m p" using header_cong[of p m' ?m] by blast
    then show ?thesis using w s32 by (simp add: header_simps)
  qed
  ultimately show ?thesis using run m' True by (simp add: handed_out_def)
qed

lemma free_bytes_handed_out:
  "w \<le> s \<Longrightarrow> hd (handed_out cfg w p s) = (p, t, True) \<Longrightarrow> free_bytes (handed_out cfg w p s) + t = s"
  by (auto simp: handed_out_def split: if_splits)

lemma handed_out_used: "(q, n, True) \<in> set (handed_out cfg w p s) \<longleftrightarrow> (q, n, True) = hd (handed_out cfg w p s)"
  by (auto simp: handed_out_def)

lemma malloc_hit:
  assumes cfg: "cfg_ok cfg" and ok: "heap_ok cfg h (L @ (p, s, False) # R)" and n: "0 < n" "n < 2 ^ 32"
    and fit: "needed cfg n \<le> s" and first: "\<forall>b\<in>set L. \<not> fits (needed cfg n) b"
  shows "\<exists>h'. heap4_malloc cfg n h = Ret (p + heap_struct cfg, h') \<and>
    heap_ok cfg h' (L @ handed_out cfg (needed cfg n) p s @ R) \<and>
    local_change cfg L p s (h_mem h) (h_mem h') \<and> pucHeapStart (h_alloc h') = pucHeapStart (h_alloc h) \<and>
    pxEnd (h_alloc h') = pxEnd (h_alloc h)"
proof -
  let ?m = "h_mem h" and ?st = "h_alloc h"
  let ?e = "pxEnd ?st"
  define w where "w = needed cfg n"
  have hs: "heap_struct cfg = hc_alignment cfg" by (rule heap_struct_eq[OF cfg])
  have al: "8 \<le> hc_alignment cfg" by (rule cfg_alignment[OF cfg])
  have w: "w \<le> s" "8 \<le> w" "hc_alignment cfg dvd w"
    using fit needed_bounds[OF cfg, of n] al by (auto simp: w_def)
  note f = heap_okD(1)[OF ok]
  note ch = chain_of[OF f]
  have here: "(p, s, False) \<in> set (L @ (p, s, False) # R)" by simp
  note p = block_facts[OF ok here]
  have ws: "wanted_size cfg n = w" using wanted_size_eq[OF cfg n] w(1) p(5) by (simp add: w_def)
  have init: "?e \<noteq> 0" using ch(5) by simp
  have avail: "\<not> bit w 31" "w \<le> xFreeBytesRemaining ?st"
    using bit_marks(1)[of w] w p(5) free_bytes_in[OF here] heap_okD(6)[OF ok] by auto
  let ?prev = "last (xStart cfg # frees L)"
  have size: "get_size ?m p = s" using f by (auto simp: free_ok_def)
  have find: "find_fit ?m w (xStart cfg) (get_next ?m (xStart cfg)) = Some (?prev, p)"
  proof -
    have "get_next ?m (xStart cfg) = hd (frees L @ [p])" using ch(1) by (cases "frees L") auto
    moreover have "get_size ?m x < w \<and> 0 < x" if "x \<in> set (frees L)" for x
    proof -
      from that obtain k where k: "(x, k, False) \<in> set L" by (auto simp: in_frees)
      then have "get_size ?m x = k" using f by (auto simp: free_ok_def)
      moreover have "k < w" using first k by (fastforce simp: fits_def w_def)
      ultimately show ?thesis using ch(4)[of x] that by simp
    qed
    ultimately show ?thesis using find_fit_hit[of ?m "xStart cfg" "frees L" p "frees R" ?e w] ch(1) size w p by simp
  qed
  have prev: "get_next ?m ?prev = p" using ch(1) by (auto simp: free_chain_append dest: free_chain_last)
  have p_end: "p \<noteq> ?e" using p by simp
  let ?m1 = "set_next ?prev (get_next ?m p) ?m"
  have f1: "free_ok cfg ?m1 (pucHeapStart ?st) ?e (L @ (p, s, True) # R)" by (rule unlink_ok[OF f])
  have prev_in: "?prev \<in> insert (xStart cfg) (set (frees L))"
    using last_in_set[of "xStart cfg # frees L"] by simp
  have "apart p ?prev"
    using inside_apart[OF f1, of ?prev p] prev_in p(3) by auto
  then have size1: "get_size ?m1 p = s" using size by (simp add: header_simps apart_sym)
  have R: "R = [] \<or> snd (snd (hd R))"
    using heap_okD(3)[OF ok] by (cases R) (auto simp: successively_append_iff)
  from split_block_ok[OF cfg f1 size1 w(1,2) p(7) w(3) R] obtain m2 t where m2:
    "split_block cfg ?e w p ?m1 = Ret m2" "free_ok cfg m2 (pucHeapStart ?st) ?e (L @ handed_out cfg w p s @ R)"
    "get_size m2 p = t" "hd (handed_out cfg w p s) = (p, t, True)" "local_change cfg L p s ?m1 m2" by blast
  have t: "t \<le> s" "8 \<le> t" using m2(4) w p(3) by (auto simp: handed_out_def split: if_splits)
  have t31: "t < 2 ^ 31" using t p(5) by simp
  obtain T where T: "handed_out cfg w p s = (p, t, True) # T" using m2(4) by (auto simp: handed_out_def split: if_splits)
  let ?m3 = "set_next p 0 (set_size p (set_bit 31 t) m2)"
  let ?left = "size_sub (xFreeBytesRemaining ?st) t"
  let ?h = "\<lparr>h_mem = ?m3, h_alloc = ?st\<lparr>xFreeBytesRemaining := ?left,
    xMinimumEverFreeBytesRemaining :=
      (if ?left < xMinimumEverFreeBytesRemaining ?st then ?left else xMinimumEverFreeBytesRemaining ?st),
    xNumberOfSuccessfulAllocations := size_add (xNumberOfSuccessfulAllocations ?st) 1\<rparr>\<rparr>"
  have ret: "misaligned cfg (p + heap_struct cfg) = 0" "p + heap_struct cfg \<noteq> 0"
    using p(4,7) by (simp_all add: hs misaligned_mod[OF cfg] mod_eq_0_iff_dvd)
  have run: "heap4_malloc cfg n h = Ret (p + heap_struct cfg, ?h)"
    using init avail w(2) find p_end prev m2(1,3) ret
    by (simp add: heap4_malloc_def ws Let_def take_block_def)
  have fr3: "?m3 x = m2 x" if "x < p \<or> p + t \<le> x" for x
  proof -
    have "?m3 x = set_size p (set_bit 31 t) m2 x" by (rule header_frame) (use that t in auto)
    also have "\<dots> = m2 x" by (rule header_frame) (use that t in auto)
    finally show ?thesis .
  qed
  have f3: "free_ok cfg ?m3 (pucHeapStart ?st) ?e (L @ handed_out cfg w p s @ R)"
    using free_ok_write[of cfg m2 _ _ L p t "T @ R" ?m3] m2(2) fr3 T by simp
  have change: "local_change cfg L p s ?m ?m3"
    unfolding local_change_def
  proof (intro allI impI)
    fix x assume ne: "?m3 x \<noteq> ?m x"
    show "p \<le> x \<and> x < p + s \<or> (\<exists>y\<in>insert (xStart cfg) (set (frees L)). y \<le> x \<and> x < y + 8)"
    proof (cases "?m3 x = m2 x")
      case False
      then have "\<not> (x < p \<or> p + t \<le> x)" using fr3[of x] by metis
      then show ?thesis using t by auto
    next
      case same: True
      show ?thesis
      proof (cases "m2 x = ?m1 x")
        case True
        then have "\<not> (x < ?prev \<or> ?prev + 8 \<le> x)"
          using ne same header_frame(1)[of x ?prev "get_next ?m p" ?m] by metis
        then show ?thesis using prev_in by (auto simp: not_less not_le)
      qed (use m2(5) in \<open>auto simp: local_change_def\<close>)
    qed
  qed
  have left: "?left = free_bytes (L @ handed_out cfg w p s @ R)"
    using free_bytes_handed_out[OF w(1) m2(4)] heap_okD(6)[OF ok] free_bytes_le[OF heap_okD(7)[OF ok]]
      heap_okD(10)[OF ok]
    by (simp add: size_sub_id)
  have "heap_ok cfg ?h (L @ handed_out cfg w p s @ R)"
  proof (rule heap_okI)
    fix q k assume "(q, k, True) \<in> set (L @ handed_out cfg w p s @ R)"
    then consider "(q, k, True) = (p, t, True)" | "(q, k, True) \<in> set (L @ R)"
      using handed_out_used[of q k cfg w p s] m2(4) by auto
    then show "get_size (h_mem ?h) q = set_bit 31 k \<and> get_next (h_mem ?h) q = 0"
    proof cases
      case 1
      then show ?thesis using bit_marks(4)[OF t31] by (simp add: header_simps)
    next
      case 2
      then have "(q, k, True) \<in> set (L @ (p, s, False) # R)" by auto
      then show ?thesis using heap_okD(2)[OF ok] used_headers[OF f 2 change] by simp
    qed
  next
    fix q k u assume "(q, k, u) \<in> set (L @ handed_out cfg w p s @ R)"
    moreover have "hc_alignment cfg dvd s" using heap_okD(4)[OF ok here] .
    ultimately show "hc_alignment cfg dvd k"
      using heap_okD(4)[OF ok, of q k u] w by (auto simp: handed_out_def split: if_splits)
  next
    show "coalesced (L @ handed_out cfg w p s @ R)"
      using heap_okD(3)[OF ok] R by (cases R) (auto simp: handed_out_def successively_append_iff)
  qed (use f3 heap_okD(5)[OF ok] left in auto)
  then show ?thesis using run change by (simp add: w_def)
qed

end
