(* ===== verification/Heap4_Props.thy ===== *)
theory Heap4_Props
  imports Heap4_Blocks
begin

text \<open>
  Properties of the FreeRTOS heap under its clients: the contract \<open>c_heap\<close> between the heap and the C
  allocation functions of \<open>Heap_Glue\<close>, the proof that heap\<open>_\<close>4 satisfies it, and what holds after any
  sequence of allocations, releases and writes into live allocations.
\<close>

section \<open>The contract of a heap\<close>

text \<open>\<open>live\<close> lists the allocations that the client holds, with the number of bytes asked for.\<close>

type_synonym allocations = "(nat \<times> nat) list"

definition kept :: "allocations \<Rightarrow> memory \<Rightarrow> memory \<Rightarrow> bool" where
  "kept live m m' \<longleftrightarrow> (\<forall>(p, n)\<in>set live. \<forall>x. p \<le> x \<and> x < p + n \<longrightarrow> m' x = m x)"

definition released :: "nat \<Rightarrow> allocations \<Rightarrow> allocations" where
  "released p live = filter (\<lambda>a. fst a \<noteq> p) live"

lemma kept_trans: "kept live m m' \<Longrightarrow> kept live m' m'' \<Longrightarrow> kept live m m''"
  by (fastforce simp: kept_def)

lemma kept_subset: "kept live m m' \<Longrightarrow> set live' \<subseteq> set live \<Longrightarrow> kept live' m m'"
  by (fastforce simp: kept_def)

lemma keptD: "kept live m m' \<Longrightarrow> (p, n) \<in> set live \<Longrightarrow> p \<le> x \<Longrightarrow> x < p + n \<Longrightarrow> m' x = m x"
  by (fastforce simp: kept_def)

locale c_heap =
  fixes al :: "'h allocator" and valid :: "'h heap \<Rightarrow> allocations \<Rightarrow> bool"
  assumes malloc_law: "valid h live \<Longrightarrow> n < 2 ^ 32 \<Longrightarrow> pvPortMalloc al n h = (r, h') \<Longrightarrow>
      valid h' (if r = 0 then live else (r, n) # live) \<and> kept live (h_mem h) (h_mem h')"
    and free_law: "valid h live \<Longrightarrow> p \<in> fst ` set live \<Longrightarrow>
      valid (vPortFree al p h) (released p live) \<and> kept (released p live) (h_mem h) (h_mem (vPortFree al p h))"
    and write_law: "valid h live \<Longrightarrow> (p, n) \<in> set live \<Longrightarrow> (\<And>x. x < p \<or> p + n \<le> x \<Longrightarrow> m x = h_mem h x) \<Longrightarrow>
      valid (h\<lparr>h_mem := m\<rparr>) live"
    and disjoint_law: "valid h live \<Longrightarrow> (p, n) \<in> set live \<Longrightarrow> (q, k) \<in> set live \<Longrightarrow> p \<noteq> q \<Longrightarrow>
      p + n \<le> q \<or> q + k \<le> p"
    and distinct_law: "valid h live \<Longrightarrow> distinct (map fst live)"
    and header_law: "valid h live \<Longrightarrow> (p, n) \<in> set live \<Longrightarrow>
      0 < n \<and> p \<noteq> 0 \<and> (\<exists>u. header_check al p (h_mem h) = Some u \<and> n \<le> unat u)"
begin

lemma write_kept:
  assumes v: "valid h live" and p: "(p, n) \<in> set live" and m: "\<And>x. x < p \<or> p + n \<le> x \<Longrightarrow> m x = h_mem h x"
  shows "kept (released p live) (h_mem h) m"
proof -
  have "m x = h_mem h x" if "(q, k) \<in> set live" "q \<noteq> p" "q \<le> x" "x < q + k" for q k x
    by (rule m) (use disjoint_law[OF v p that(1)] that in auto)
  then show ?thesis by (auto simp: kept_def released_def)
qed

lemma realloc_zero:
  assumes "valid h live" "p \<in> fst ` set live"
  shows "realloc al p 0 e h = (0, e, vPortFree al p h)"
    "valid (vPortFree al p h) (released p live)" "kept (released p live) (h_mem h) (h_mem (vPortFree al p h))"
  using free_law[OF assms] by (simp_all add: realloc_def pvPortRealloc_def)

lemma realloc_moves:
  assumes v: "valid h live" and p: "(p, k) \<in> set live" and n: "0 < n" "n < 2 ^ 32"
    and run: "realloc al p n e h = (r, e', h')" and r: "r \<noteq> 0"
  shows "e' = e" "valid h' ((r, n) # released p live)" "kept (released p live) (h_mem h) (h_mem h')"
    "\<forall>i<min n k. h_mem h' (r + i) = h_mem h (p + i)"
proof -
  obtain r1 h1 where m: "pvPortMalloc al n h = (r1, h1)" by (metis surj_pair)
  have r1: "r1 = r" using run m n by (auto simp: realloc_def pvPortRealloc_def Let_def split: if_splits option.splits)
  from malloc_law[OF v n(2) m] r r1 have v1: "valid h1 ((r, n) # live)" and k1: "kept live (h_mem h) (h_mem h1)" by auto
  have p1: "(p, k) \<in> set ((r, n) # live)" and r_in: "(r, n) \<in> set ((r, n) # live)" using p by auto
  from header_law[OF v1 p1] obtain u where u: "header_check al p (h_mem h1) = Some u" "k \<le> unat u" "0 < k" "p \<noteq> 0" by blast
  have u0: "0 < u" using u by (auto simp: word_less_nat_alt)
  let ?m = "mem_copy r p (min n (unat u)) (h_mem h1)"
  let ?h2 = "h1\<lparr>h_mem := ?m\<rparr>"
  have step: "realloc al p n e h = (r, e, vPortFree al p ?h2)"
    using m r1 r u u0 n by (simp add: realloc_def pvPortRealloc_def min_def Let_def)
  have out: "\<And>x. x < r \<or> r + n \<le> x \<Longrightarrow> ?m x = h_mem h1 x" by (auto intro!: mem_copy_outside)
  have v2: "valid ?h2 ((r, n) # live)" by (rule write_law[OF v1 r_in out])
  have k2: "kept (released r ((r, n) # live)) (h_mem h1) ?m" by (rule write_kept[OF v1 r_in out])
  have rp: "r \<noteq> p" using distinct_law[OF v1] p by force
  from free_law[OF v2, of p] p have v3: "valid (vPortFree al p ?h2) (released p ((r, n) # live))"
    and k3: "kept (released p ((r, n) # live)) ?m (h_mem (vPortFree al p ?h2))" by force+
  have res: "e' = e" "h' = vPortFree al p ?h2" using run step by auto
  have rel: "released p ((r, n) # live) = (r, n) # released p live" using rp by (simp add: released_def)
  have r_out: "r \<notin> fst ` set live" using distinct_law[OF v1] by auto
  then have sub: "set (released p live) \<subseteq> set (released r ((r, n) # live))" by (auto simp: released_def)
  show "e' = e" "valid h' ((r, n) # released p live)" using res v3 rel by simp_all
  have "kept (released p live) (h_mem h) (h_mem h1)" by (rule kept_subset[OF k1]) (auto simp: released_def)
  moreover have "kept (released p live) (h_mem h1) ?m" by (rule kept_subset[OF k2 sub])
  moreover have "kept (released p live) ?m (h_mem h')" using k3 res rel by (auto intro: kept_subset)
  ultimately show "kept (released p live) (h_mem h) (h_mem h')" by (blast intro: kept_trans)
  show "\<forall>i<min n k. h_mem h' (r + i) = h_mem h (p + i)"
  proof (intro allI impI)
    fix i assume i: "i < min n k"
    have "h_mem h' (r + i) = ?m (r + i)" using keptD[OF k3, of r n "r + i"] rel res i by simp
    also have "\<dots> = h_mem h1 (p + i)" using i u(2) by (intro mem_copy_dst) auto
    also have "\<dots> = h_mem h (p + i)" using keptD[OF k1 p, of "p + i"] i by simp
    finally show "h_mem h' (r + i) = h_mem h (p + i)" .
  qed
qed

lemma realloc_fails:
  assumes v: "valid h live" and n: "0 < n" "n < 2 ^ 32" and run: "realloc al p n e h = (0, e', h')"
  shows "e' = ENOMEM" "valid h' live" "kept live (h_mem h) (h_mem h')"
proof -
  obtain r1 h1 where m: "pvPortMalloc al n h = (r1, h1)" by (metis surj_pair)
  have "r1 = 0" "e' = ENOMEM" "h' = h1"
    using run m n by (auto simp: realloc_def pvPortRealloc_def Let_def split: if_splits option.splits)
  then show "e' = ENOMEM" "valid h' live" "kept live (h_mem h) (h_mem h')"
    using malloc_law[OF v n(2) m] by simp_all
qed

lemma calloc_allocates:
  assumes v: "valid h live" and run: "calloc al xn xs e h = (r, e', h')" and r: "r \<noteq> 0"
  shows "valid h' ((r, unat xn * unat xs) # live)" "kept live (h_mem h) (h_mem h')"
    "\<forall>i<unat xn * unat xs. h_mem h' (r + i) = 0"
proof -
  from run r have le: "\<not> (xn \<noteq> 0 \<and> xs > - 1 div xn)" and nz: "xn * xs \<noteq> 0"
    by (auto simp: calloc_def Let_def split: if_splits)
  then have "xn \<noteq> 0" by auto
  with le have u: "unat (xn * xs) = unat xn * unat xs" by (auto intro: word_mult_no_overflow simp: not_less)
  obtain r1 h1 where m: "pvPortMalloc al (unat (xn * xs)) h = (r1, h1)" by (metis surj_pair)
  let ?n = "unat xn * unat xs"
  have res: "r1 = r" "h' = h1\<lparr>h_mem := mem_zero r ?n (h_mem h1)\<rparr>"
    using run r le nz m by (auto simp: calloc_def Let_def u[symmetric] split: if_splits)
  have lt: "unat (xn * xs) < 2 ^ 32" using unsigned_less[of "xn * xs", where ?'a = nat] by simp
  from malloc_law[OF v lt m] res r have v1: "valid h1 ((r, ?n) # live)" and k1: "kept live (h_mem h) (h_mem h1)"
    by (auto simp: u)
  have r_in: "(r, ?n) \<in> set ((r, ?n) # live)" by simp
  have out: "\<And>x. x < r \<or> r + ?n \<le> x \<Longrightarrow> mem_zero r ?n (h_mem h1) x = h_mem h1 x" by (auto simp: mem_zero_def)
  show "valid h' ((r, ?n) # live)" unfolding res by (rule write_law[OF v1 r_in out])
  have "r \<notin> fst ` set live" using distinct_law[OF v1] by auto
  then have "set live \<subseteq> set (released r ((r, ?n) # live))" by (auto simp: released_def)
  from kept_trans[OF k1 kept_subset[OF write_kept[OF v1 r_in out] this]]
  show "kept live (h_mem h) (h_mem h')" by (simp add: res)
  show "\<forall>i<?n. h_mem h' (r + i) = 0" by (simp add: res mem_zero_def)
qed

end

section \<open>The heap under its clients\<close>

text \<open>Where the usable part of the array begins and where its end marker is.\<close>

definition heap_first :: "heap_cfg \<Rightarrow> nat" where
  "heap_first cfg = (ucHeap cfg + (hc_alignment cfg - 1)) div hc_alignment cfg * hc_alignment cfg"

definition heap_last :: "heap_cfg \<Rightarrow> nat" where
  "heap_last cfg = (ucHeap cfg + hc_total cfg - hc_alignment cfg) div hc_alignment cfg * hc_alignment cfg"

definition heap_capacity :: "heap_cfg \<Rightarrow> nat" where
  "heap_capacity cfg = heap_last cfg - heap_first cfg"

lemma heap_area:
  assumes cfg: "cfg_ok cfg"
  shows "ucHeap cfg \<le> heap_first cfg" "heap_first cfg + hc_alignment cfg \<le> heap_last cfg"
    "heap_last cfg + hc_alignment cfg \<le> ucHeap cfg + hc_total cfg"
    "hc_alignment cfg dvd heap_first cfg" "hc_alignment cfg dvd heap_last cfg"
    "heap_first cfg < ucHeap cfg + hc_alignment cfg"
proof -
  let ?a = "hc_alignment cfg"
  have al: "0 < ?a" using cfg_alignment[OF cfg] by simp
  have tot: "4 * ?a \<le> hc_total cfg" using cfg by (simp add: cfg_ok_def)
  show first: "ucHeap cfg \<le> heap_first cfg" "heap_first cfg < ucHeap cfg + ?a"
    unfolding heap_first_def by (rule round_up_bounds[OF al])+
  let ?x = "ucHeap cfg + hc_total cfg - ?a"
  have "?x div ?a * ?a \<le> ?x" by simp
  then show "heap_last cfg + ?a \<le> ucHeap cfg + hc_total cfg" using tot unfolding heap_last_def by linarith
  have "?x < ?x div ?a * ?a + ?a" using al by (metis add.commute dividend_less_div_times)
  then show "heap_first cfg + ?a \<le> heap_last cfg" using first tot unfolding heap_last_def by linarith
qed (simp_all add: heap_first_def heap_last_def)

lemma prvHeapInit_ok:
  assumes cfg: "cfg_ok cfg"
  shows "heap_ok cfg (prvHeapInit cfg h) [(heap_first cfg, heap_capacity cfg, False)]"
    "pucHeapStart (h_alloc (prvHeapInit cfg h)) = heap_first cfg" "pxEnd (h_alloc (prvHeapInit cfg h)) = heap_last cfg"
proof -
  let ?a = "hc_alignment cfg" and ?u = "ucHeap cfg"
  note al = cfg_alignment[OF cfg] and ar = heap_area[OF cfg]
  from cfg have b: "0 < ?u" "?u + hc_total cfg + 8 \<le> 2 ^ 32" "hc_total cfg < 2 ^ 31"
    "xStart cfg + 8 \<le> ?u \<or> ?u + hc_total cfg \<le> xStart cfg" by (auto simp: cfg_ok_def)
  have start: "(if misaligned cfg ?u \<noteq> 0 then align_down cfg (?u + (?a - 1)) else ?u) = heap_first cfg"
    using al round_up[of ?a ?u] by (auto simp: misaligned_mod[OF cfg] align_down_eq[OF cfg] heap_first_def)
  have total: "(if misaligned cfg ?u \<noteq> 0 then size_sub (hc_total cfg) (heap_first cfg - ?u) else hc_total cfg)
      = hc_total cfg - (heap_first cfg - ?u)"
    using al round_up[of ?a ?u] ar b(3) size_sub_id[of "heap_first cfg - ?u" "hc_total cfg"]
    by (auto simp: misaligned_mod[OF cfg] heap_first_def)
  have fin: "align_down cfg (heap_first cfg + (hc_total cfg - (heap_first cfg - ?u)) - heap_struct cfg) = heap_last cfg"
  proof -
    have "?u \<le> heap_first cfg \<and> heap_first cfg - ?u \<le> hc_total cfg" using ar al by simp
    then have "heap_first cfg + (hc_total cfg - (heap_first cfg - ?u)) = ?u + hc_total cfg" by arith
    then show ?thesis unfolding heap_last_def by (simp only: align_down_eq[OF cfg] heap_struct_eq[OF cfg])
  qed
  have cap: "size_sub (heap_last cfg) (heap_first cfg) = heap_capacity cfg" "heap_capacity cfg < 2 ^ 31" "8 \<le> heap_capacity cfg"
    using ar al b by (simp_all add: size_sub_id heap_capacity_def)
  let ?s = "heap_first cfg" and ?e = "heap_last cfg" and ?x = "xStart cfg"
  let ?m = "set_next ?s ?e (set_size ?s (heap_capacity cfg) (set_next ?e 0 (set_size ?e 0 (set_size ?x 0 (set_next ?x ?s (h_mem h))))))"
  have ap: "apart ?s ?e" "apart ?e ?s" "apart ?x ?s" "apart ?s ?x" "apart ?x ?e" "apart ?e ?x"
    using ar al b by (auto simp: apart_def)
  have small: "?s < 2 ^ 32" "?e < 2 ^ 32" "heap_capacity cfg < 2 ^ 32" using ar al b cap(2) by simp_all
  have eq: "prvHeapInit cfg h = \<lparr>h_mem = ?m, h_alloc = (h_alloc h)\<lparr>pucHeapStart := ?s, pxEnd := ?e,
      xMinimumEverFreeBytesRemaining := heap_capacity cfg, xFreeBytesRemaining := heap_capacity cfg\<rparr>\<rparr>"
    unfolding prvHeapInit_def Let_def start total fin cap(1) using ap small by (simp add: header_simps)
  have m: "get_size ?m ?s = heap_capacity cfg" "get_next ?m ?s = ?e" "get_next ?m ?x = ?s" "get_size ?m ?x = 0"
    "get_size ?m ?e = 0" "get_next ?m ?e = 0"
    using ap small by (simp_all add: header_simps)
  have lay: "laid_out ?s [(?s, heap_capacity cfg, False)] ?e"
    using ar cap(3) by (simp add: heap_capacity_def)
  have "free_ok cfg ?m ?s ?e [(?s, heap_capacity cfg, False)]"
    unfolding free_ok_def using lay m ar al b cap(2) by (auto simp: heap_capacity_def)
  then show "heap_ok cfg (prvHeapInit cfg h) [(heap_first cfg, heap_capacity cfg, False)]"
    unfolding eq using ar by (intro heap_okI) (auto simp: heap_capacity_def)
  show "pucHeapStart (h_alloc (prvHeapInit cfg h)) = heap_first cfg" "pxEnd (h_alloc (prvHeapInit cfg h)) = heap_last cfg"
    by (simp_all add: eq)
qed

text \<open>The allocations that clients hold, against the blocks in use.\<close>

definition live_ok :: "heap_cfg \<Rightarrow> block list \<Rightarrow> allocations \<Rightarrow> bool" where
  "live_ok cfg bs live \<longleftrightarrow> distinct (map fst live) \<and>
     (\<forall>p s. (p, s, True) \<in> set bs \<longrightarrow> p + heap_struct cfg \<in> fst ` set live) \<and>
     (\<forall>q n. (q, n) \<in> set live \<longrightarrow> 0 < n \<and>
        (\<exists>p s. q = p + heap_struct cfg \<and> (p, s, True) \<in> set bs \<and> n + heap_struct cfg \<le> s))"

definition heap_holds :: "heap_cfg \<Rightarrow> heap4 heap \<Rightarrow> block list \<Rightarrow> allocations \<Rightarrow> bool" where
  "heap_holds cfg h bs live \<longleftrightarrow> heap_ok cfg h bs \<and> pucHeapStart (h_alloc h) = heap_first cfg \<and>
     pxEnd (h_alloc h) = heap_last cfg \<and> live_ok cfg bs live"

definition heap_valid :: "heap_cfg \<Rightarrow> heap4 heap \<Rightarrow> allocations \<Rightarrow> bool" where
  "heap_valid cfg h live \<longleftrightarrow> cfg_ok cfg \<and>
     (pxEnd (h_alloc h) = 0 \<and> live = [] \<or> (\<exists>bs. heap_holds cfg h bs live))"

lemma live_okD:
  assumes "live_ok cfg bs live" "(q, n) \<in> set live"
  obtains p s where "q = p + heap_struct cfg" "(p, s, True) \<in> set bs" "n + heap_struct cfg \<le> s" "0 < n"
  using assms unfolding live_ok_def by blast

lemma local_change_kept:
  assumes f: "free_ok cfg m a e (L @ (p, s, u) # R)" and change: "local_change cfg L p s m m'"
    and live: "\<And>q n. (q, n) \<in> set live \<Longrightarrow>
      \<exists>b t. q = b + heap_struct cfg \<and> (b, t, True) \<in> set (L @ R) \<and> n + heap_struct cfg \<le> t"
  shows "kept live m m'"
  unfolding kept_def
proof (intro ballI, clarify)
  fix q n x assume "(q, n) \<in> set live" and x: "q \<le> x" "x < q + n"
  from live[OF this(1)] obtain b t where b: "q = b + heap_struct cfg" "(b, t, True) \<in> set (L @ R)"
    "n + heap_struct cfg \<le> t" by blast
  show "m' x = m x" by (rule used_kept[OF f b(2) change]) (use b x in auto)
qed

lemma holds_malloc:
  assumes cfg: "cfg_ok cfg" and hold: "heap_holds cfg h bs live" and n: "n < 2 ^ 32"
  shows "heap4_malloc cfg n h = (if hc_failed_hook cfg then Diverges else Ret (0, h)) \<and>
      (n = 0 \<or> (\<forall>b\<in>set bs. \<not> fits (needed cfg n) b)) \<or>
    (\<exists>r h' bs'. heap4_malloc cfg n h = Ret (r, h') \<and> r \<noteq> 0 \<and> heap_holds cfg h' bs' ((r, n) # live) \<and>
      kept live (h_mem h) (h_mem h'))"
proof (cases "n = 0 \<or> (\<forall>b\<in>set bs. \<not> fits (needed cfg n) b)")
  case True
  then show ?thesis using malloc_none[OF cfg _ n] hold by (auto simp: heap_holds_def)
next
  case False
  then have n0: "0 < n" and "\<exists>b\<in>set bs. fits (needed cfg n) b" by auto
  then obtain L b R where bs: "bs = L @ b # R" "fits (needed cfg n) b" "\<forall>c\<in>set L. \<not> fits (needed cfg n) c"
    by (metis split_list_first_prop)
  obtain p s u where "b = (p, s, u)" by (metis surj_pair)
  with bs have b: "b = (p, s, False)" "needed cfg n \<le> s" by (auto simp: fits_def)
  from hold bs b have ok: "heap_ok cfg h (L @ (p, s, False) # R)" and live: "live_ok cfg (L @ (p, s, False) # R) live"
    and ends: "pucHeapStart (h_alloc h) = heap_first cfg" "pxEnd (h_alloc h) = heap_last cfg"
    by (auto simp: heap_holds_def)
  let ?hs = "heap_struct cfg" and ?w = "needed cfg n"
  from malloc_hit[OF cfg ok n0 n b(2) bs(3)] obtain h' where h':
    "heap4_malloc cfg n h = Ret (p + ?hs, h')" "heap_ok cfg h' (L @ handed_out cfg ?w p s @ R)"
    "local_change cfg L p s (h_mem h) (h_mem h')" "pucHeapStart (h_alloc h') = pucHeapStart (h_alloc h)"
    "pxEnd (h_alloc h') = pxEnd (h_alloc h)" by blast
  have "\<exists>t. hd (handed_out cfg ?w p s) = (p, t, True) \<and> ?w \<le> t"
    using b(2) by (cases "s - ?w > 2 * ?hs") (simp_all add: handed_out_def)
  then obtain t where t: "hd (handed_out cfg ?w p s) = (p, t, True)" "?w \<le> t" by blast
  have used: "(q, k, True) \<in> set (L @ handed_out cfg ?w p s @ R) \<longleftrightarrow> (q, k) = (p, t) \<or> (q, k, True) \<in> set (L @ R)" for q k
    using handed_out_used[of q k cfg ?w p s] t by auto
  have used': "(q, k, True) \<in> set (L @ (p, s, False) # R) \<longleftrightarrow> (q, k, True) \<in> set (L @ R)" for q k by auto
  have old: "\<exists>c k. q = c + ?hs \<and> (c, k, True) \<in> set (L @ R) \<and> i + ?hs \<le> k \<and> 0 < i" if "(q, i) \<in> set live" for q i
    using live_okD[OF live that] used' by metis
  have fresh: "p + ?hs \<notin> fst ` set live"
  proof
    assume "p + ?hs \<in> fst ` set live"
    then obtain i where "(p + ?hs, i) \<in> set live" by auto
    from old[OF this] obtain k where k: "(p, k, True) \<in> set (L @ R)" by auto
    have lay: "laid_out (pucHeapStart (h_alloc h)) (L @ (p, s, False) # R) (pxEnd (h_alloc h))" by (rule heap_okD(7)[OF ok])
    from blocks_disjoint[OF lay, of p k True p s False] k laid_out_block[OF lay, of p k True]
      laid_out_block[OF lay, of p s False] show False by auto
  qed
  have hs: "?hs = hc_alignment cfg" by (rule heap_struct_eq[OF cfg])
  have "live_ok cfg (L @ handed_out cfg ?w p s @ R) ((p + ?hs, n) # live)"
    unfolding live_ok_def
  proof (intro conjI allI impI)
    show "distinct (map fst ((p + ?hs, n) # live))" using live fresh by (simp add: live_ok_def)
    fix q k assume "(q, k, True) \<in> set (L @ handed_out cfg ?w p s @ R)"
    then have "(q, k) = (p, t) \<or> (q, k, True) \<in> set (L @ (p, s, False) # R)" using used used' by metis
    then show "q + ?hs \<in> fst ` set ((p + ?hs, n) # live)" using live by (auto simp: live_ok_def)
  next
    fix q i assume q: "(q, i) \<in> set ((p + ?hs, n) # live)"
    show "0 < i" using q old n0 by auto
    show "\<exists>p' k. q = p' + ?hs \<and> (p', k, True) \<in> set (L @ handed_out cfg ?w p s @ R) \<and> i + ?hs \<le> k"
    proof (cases "(q, i) = (p + ?hs, n)")
      case True
      then show ?thesis using used t(2) needed_bounds(1)[OF cfg, of n] hs by fastforce
    next
      case False
      then show ?thesis using old[of q i] q used by fastforce
    qed
  qed
  moreover have "kept live (h_mem h) (h_mem h')"
    by (rule local_change_kept[OF heap_okD(1)[OF ok] h'(3)]) (use old in blast)
  moreover have "p + ?hs \<noteq> 0" using block_facts(4)[OF ok, of p s False] by simp
  ultimately show ?thesis using h' ends by (auto simp: heap_holds_def)
qed

lemma holds_free:
  assumes cfg: "cfg_ok cfg" and hold: "heap_holds cfg h bs live" and q: "q \<in> fst ` set live"
  shows "\<exists>h' bs'. heap4_free cfg q h = Ret h' \<and> heap_holds cfg h' bs' (released q live) \<and>
    kept (released q live) (h_mem h) (h_mem h')"
proof -
  let ?hs = "heap_struct cfg"
  from hold have ok: "heap_ok cfg h bs" and live: "live_ok cfg bs live" by (auto simp: heap_holds_def)
  from q obtain n where "(q, n) \<in> set live" by auto
  with live obtain p s where q: "q = p + ?hs" "(p, s, True) \<in> set bs" by (rule live_okD)
  then obtain L R where bs: "bs = L @ (p, s, True) # R" by (meson split_list)
  note ok' = ok[unfolded bs]
  from free_used[OF cfg ok'] obtain h' where h': "heap4_free cfg (p + ?hs) h = Ret h'"
    "heap_ok cfg h' (merge L p s R)" "local_change cfg L p s (h_mem h) (h_mem h')"
    "pucHeapStart (h_alloc h') = pucHeapStart (h_alloc h)" "pxEnd (h_alloc h') = pxEnd (h_alloc h)" by blast
  have lay: "laid_out (pucHeapStart (h_alloc h)) (L @ (p, s, True) # R) (pxEnd (h_alloc h))" by (rule heap_okD(7)[OF ok'])
  have other: "c \<noteq> p" if c: "(c, k, True) \<in> set (L @ R)" for c k
  proof
    assume [simp]: "c = p"
    have left: "laid_out (pucHeapStart (h_alloc h)) L p" and right: "laid_out (p + s) R (pxEnd (h_alloc h))" "8 \<le> s"
      using lay by (auto simp: laid_out_append)
    show False using c laid_out_block[OF left, of p k True] laid_out_block[OF right(1), of p k True] right(2) by auto
  qed
  have rest: "\<exists>c k. r = c + ?hs \<and> (c, k, True) \<in> set (L @ R) \<and> i + ?hs \<le> k" if "(r, i) \<in> set (released q live)" for r i
  proof -
    from that have r: "(r, i) \<in> set live" "r \<noteq> q" by (auto simp: released_def)
    from live_okD[OF live r(1)] obtain c k where "r = c + ?hs" "(c, k, True) \<in> set bs" "i + ?hs \<le> k" by metis
    then show ?thesis using r(2) q(1) bs by auto
  qed
  have "live_ok cfg (merge L p s R) (released q live)"
    unfolding live_ok_def
  proof (intro conjI allI impI)
    show "distinct (map fst (released q live))" using live by (auto simp: live_ok_def released_def distinct_map_filter)
    fix c k assume "(c, k, True) \<in> set (merge L p s R)"
    then have c: "(c, k, True) \<in> set (L @ R)" by (simp only: merge_used)
    then have "c + ?hs \<in> fst ` set live" using live bs by (auto simp: live_ok_def)
    then show "c + ?hs \<in> fst ` set (released q live)" using other[OF c] q(1) by (force simp: released_def)
  next
    fix r i assume r: "(r, i) \<in> set (released q live)"
    then show "0 < i" using live by (auto simp: live_ok_def released_def)
    show "\<exists>c k. r = c + ?hs \<and> (c, k, True) \<in> set (merge L p s R) \<and> i + ?hs \<le> k"
      using rest[OF r] by (simp only: merge_used)
  qed
  moreover have "kept (released q live) (h_mem h) (h_mem h')"
    by (rule local_change_kept[OF heap_okD(1)[OF ok'] h'(3)]) (use rest in blast)
  ultimately show ?thesis using h' hold q(1) by (auto simp: heap_holds_def)
qed

lemma holds_write:
  assumes hold: "heap_holds cfg h bs live" and q: "(q, n) \<in> set live"
    and m: "\<And>x. x < q \<or> q + n \<le> x \<Longrightarrow> m x = h_mem h x" and cfg: "cfg_ok cfg"
  shows "heap_holds cfg (h\<lparr>h_mem := m\<rparr>) bs live"
proof -
  let ?hs = "heap_struct cfg"
  have hs: "8 \<le> ?hs" using cfg_alignment[OF cfg] heap_struct_eq[OF cfg] by simp
  from hold have ok: "heap_ok cfg h bs" and live: "live_ok cfg bs live" by (auto simp: heap_holds_def)
  from live q obtain p s where p: "q = p + ?hs" "(p, s, True) \<in> set bs" "n + ?hs \<le> s" by (rule live_okD)
  then obtain L R where bs: "bs = L @ (p, s, True) # R" by (meson split_list)
  note ok' = ok[unfolded bs]
  have m': "m x = h_mem h x" if "x < p \<or> p + s \<le> x" for x by (rule m) (use that p in auto)
  have f: "free_ok cfg m (pucHeapStart (h_alloc h)) (pxEnd (h_alloc h)) bs"
    using free_ok_write[OF heap_okD(1)[OF ok'] m'] bs by simp
  have change: "local_change cfg L p s (h_mem h) m"
    unfolding local_change_def using m' by (metis not_le)
  have "get_size m c = get_size (h_mem h) c \<and> get_next m c = get_next (h_mem h) c" if "(c, k, True) \<in> set bs" for c k
  proof (cases "(c, k, True) \<in> set (L @ R)")
    case True
    then show ?thesis using used_headers[OF heap_okD(1)[OF ok'] True change] by simp
  next
    case False
    then have "c = p" using that bs by auto
    moreover have "m x = h_mem h x" if "p \<le> x" "x < p + 8" for x by (rule m) (use that p hs in auto)
    ultimately show ?thesis using header_cong[of p m "h_mem h"] by blast
  qed
  then have "heap_ok cfg (h\<lparr>h_mem := m\<rparr>) bs"
    using f heap_okD(2-6)[OF ok] by (intro heap_okI) auto
  then show ?thesis using hold by (simp add: heap_holds_def)
qed

section \<open>The heap satisfies the contract\<close>

text \<open>\<open>malloc\<close> and \<open>free\<close> of src/runtime/syscalls.c are the two functions of the heap.  A run that does not
  return stands for no allocation and no effect; \<open>heap_client_runs\<close> below shows when that does not happen.\<close>

definition heap4_allocator :: "heap_cfg \<Rightarrow> heap4 allocator" where
  "heap4_allocator cfg =
     \<lparr>pvPortMalloc = (\<lambda>n h. case heap4_malloc cfg n h of Ret x \<Rightarrow> x | _ \<Rightarrow> (0, h)),
      vPortFree = (\<lambda>p h. case heap4_free cfg p h of Ret x \<Rightarrow> x | _ \<Rightarrow> h),
      portBYTE_ALIGNMENT = of_nat (hc_alignment cfg), configTOTAL_HEAP_SIZE = of_nat (hc_total cfg)\<rparr>"

lemma malloc_first_call:
  assumes cfg: "cfg_ok cfg" and h: "pxEnd (h_alloc h) = 0"
  shows "heap4_malloc cfg n h = heap4_malloc cfg n (prvHeapInit cfg h)"
    "heap_holds cfg (prvHeapInit cfg h) [(heap_first cfg, heap_capacity cfg, False)] []"
proof -
  have "heap_last cfg \<noteq> 0" using heap_area[OF cfg] cfg_alignment[OF cfg] by simp
  then show "heap4_malloc cfg n h = heap4_malloc cfg n (prvHeapInit cfg h)"
    using h prvHeapInit_ok(3)[OF cfg, of h] by (simp add: heap4_malloc_def Let_def)
  show "heap_holds cfg (prvHeapInit cfg h) [(heap_first cfg, heap_capacity cfg, False)] []"
    using prvHeapInit_ok[OF cfg] by (simp add: heap_holds_def live_ok_def)
qed

lemma valid_malloc:
  assumes v: "heap_valid cfg h live" and n: "n < 2 ^ 32"
  shows "heap4_malloc cfg n h = Diverges \<and> hc_failed_hook cfg \<or>
    (\<exists>r h'. heap4_malloc cfg n h = Ret (r, h') \<and> heap_valid cfg h' (if r = 0 then live else (r, n) # live) \<and>
      kept live (h_mem h) (h_mem h'))"
proof -
  from v have cfg: "cfg_ok cfg" by (simp add: heap_valid_def)
  obtain h1 bs where h1: "heap4_malloc cfg n h = heap4_malloc cfg n h1" "heap_holds cfg h1 bs live"
    "kept live (h_mem h) (h_mem h1)"
  proof (cases "pxEnd (h_alloc h) = 0 \<and> live = []")
    case True
    then have "kept live (h_mem h) (h_mem (prvHeapInit cfg h))" by (simp add: kept_def)
    then show ?thesis using malloc_first_call[OF cfg] True by (intro that) auto
  next
    case False
    then show ?thesis using v that by (auto simp: heap_valid_def kept_def)
  qed
  have v1: "heap_valid cfg h1 live" using h1(2) cfg by (auto simp: heap_valid_def)
  from holds_malloc[OF cfg h1(2) n] consider
      "heap4_malloc cfg n h1 = (if hc_failed_hook cfg then Diverges else Ret (0, h1))"
    | r h' bs' where "heap4_malloc cfg n h1 = Ret (r, h')" "r \<noteq> 0" "heap_holds cfg h' bs' ((r, n) # live)"
      "kept live (h_mem h1) (h_mem h')" by blast
  then show ?thesis
  proof cases
    assume "heap4_malloc cfg n h1 = (if hc_failed_hook cfg then Diverges else Ret (0, h1))"
    then show ?thesis using h1(1,3) v1 by simp
  next
    case (2 r h' bs')
    then show ?thesis using h1(1,3) cfg by (auto simp: heap_valid_def intro: kept_trans)
  qed
qed

lemma valid_free:
  assumes v: "heap_valid cfg h live" and p: "p \<in> fst ` set live"
  shows "\<exists>h'. heap4_free cfg p h = Ret h' \<and> heap_valid cfg h' (released p live) \<and>
    kept (released p live) (h_mem h) (h_mem h')"
proof -
  from v p obtain bs where "cfg_ok cfg" "heap_holds cfg h bs live" by (auto simp: heap_valid_def)
  from holds_free[OF this p] this(1) show ?thesis by (auto simp: heap_valid_def)
qed

lemma valid_live:
  assumes v: "heap_valid cfg h live" and q: "(q, n) \<in> set live"
  obtains bs p s where "cfg_ok cfg" "heap_holds cfg h bs live" "heap_ok cfg h bs" "live_ok cfg bs live"
    "q = p + heap_struct cfg" "(p, s, True) \<in> set bs" "n + heap_struct cfg \<le> s" "0 < n"
proof -
  from v q obtain bs where "cfg_ok cfg" "heap_holds cfg h bs live" by (auto simp: heap_valid_def)
  moreover from this(2) have "heap_ok cfg h bs" "live_ok cfg bs live" by (simp_all add: heap_holds_def)
  ultimately show ?thesis using live_okD[OF _ q] that by metis
qed

lemma valid_disjoint:
  assumes v: "heap_valid cfg h live" and p: "(p, n) \<in> set live" "(q, k) \<in> set live" "p \<noteq> q"
  shows "p + n \<le> q \<or> q + k \<le> p"
proof -
  from v p(1) obtain bs b s where b: "heap_ok cfg h bs" "live_ok cfg bs live" "p = b + heap_struct cfg"
    "(b, s, True) \<in> set bs" "n + heap_struct cfg \<le> s" by (rule valid_live)
  from live_okD[OF b(2) p(2)] obtain c t where c: "q = c + heap_struct cfg" "(c, t, True) \<in> set bs"
    "k + heap_struct cfg \<le> t" by metis
  have "b \<noteq> c" using p(3) b(3) c(1) by simp
  then show ?thesis using blocks_disjoint[OF heap_okD(7)[OF b(1)] b(4) c(2)] b(3,5) c(1,3) by auto
qed

lemma alignment_mask: 
  assumes "3 \<le> k" "k \<le> 12" 
  shows "((8 + (of_nat (2^k) - 1)) AND NOT (of_nat (2^k) - 1) :: 32 word) = of_nat (2^k)"
proof -
  from assms have "k = 3 \<or> k = 4 \<or> k = 5 \<or> k = 6 \<or> k = 7 \<or> k = 8 \<or> k = 9 \<or> k = 10 \<or> k = 11 \<or> k = 12" by arith
  then show ?thesis by (elim disjE) simp_all
qed
lemma allocated_mark:
  assumes "s < 2 ^ 31" 
  shows "(of_nat (set_bit 31 s) :: 32 word) AND xBlockAllocatedBit \<noteq> 0" "(of_nat (set_bit 31 s) :: 32 word) AND NOT xBlockAllocatedBit = of_nat s"
proof -
  have hi: "\<not> bit s i" if "31 \<le> i" for i
    using assms that by (metis bit_take_bit_iff leD take_bit_nat_eq_self)
  have c: "bit xBlockAllocatedBit i \<longleftrightarrow> i = 31" for i
    by (auto simp: xBlockAllocatedBit_def bit_push_bit_iff bit_1_iff simp del: push_bit_of_1)
  have top: "bit ((of_nat (set_bit 31 s) :: 32 word) AND xBlockAllocatedBit) 31"
    by (simp add: bit_and_iff c bit_of_nat_iff bit_set_bit_iff)
  show "(of_nat (set_bit 31 s) :: 32 word) AND xBlockAllocatedBit \<noteq> 0"
    using top by (metis bit_0_eq bot_apply bot_bool_def)
  show "(of_nat (set_bit 31 s) :: 32 word) AND NOT xBlockAllocatedBit = of_nat s"
    by (rule bit_word_eqI) (use hi in \<open>auto simp: bit_and_iff bit_not_iff c bit_of_nat_iff bit_set_bit_iff\<close>)
qed
lemma heap4_struct_size:
  assumes cfg: "cfg_ok cfg"
  shows "unat (xHeapStructSize (heap4_allocator cfg)) = heap_struct cfg"
proof -
  from cfg obtain k where k: "3 \<le> k" "k \<le> 12" "hc_alignment cfg = 2 ^ k" by (auto simp: cfg_ok_def)
  have "xHeapStructSize (heap4_allocator cfg) = of_nat (hc_alignment cfg)"
    using alignment_mask[OF k(1,2)] by (simp add: xHeapStructSize_def heap4_allocator_def k(3))
  then show ?thesis using cfg_alignment[OF cfg] by (simp add: heap_struct_eq[OF cfg] unat_of_nat)
qed

lemma valid_header:
  assumes v: "heap_valid cfg h live" and q: "(q, n) \<in> set live"
  shows "\<exists>u. header_check (heap4_allocator cfg) q (h_mem h) = Some u \<and> n \<le> unat u"
proof -
  let ?al = "heap4_allocator cfg"
  from v q obtain bs p s where b: "cfg_ok cfg" "heap_holds cfg h bs live" "heap_ok cfg h bs" "q = p + heap_struct cfg"
    "(p, s, True) \<in> set bs" "n + heap_struct cfg \<le> s" "0 < n" by (rule valid_live)
  note p = block_facts[OF b(3,5)] and hs = heap4_struct_size[OF b(1)]
  have "load32 (p + 4) (h_mem h) = of_nat (get_size (h_mem h) p)" by (simp add: get_size_def)
  also have "\<dots> = of_nat (set_bit 31 s)" using heap_okD(2)[OF b(3,5)] by simp
  finally have raw: "load32 (p + 4) (h_mem h) = of_nat (set_bit 31 s)" .
  have us: "unat (of_nat s :: 32 word) = s" using p(5) by (simp add: unat_of_nat)
  have area: "heap_first cfg \<le> p" "p + s \<le> heap_last cfg" using p(1,2) b(2) by (auto simp: heap_holds_def)
  have tot: "hc_total cfg < 2 ^ 31" using b(1) by (simp add: cfg_ok_def)
  have le: "s \<le> hc_total cfg" using area heap_area[OF b(1)] by linarith
  have ut: "unat (configTOTAL_HEAP_SIZE ?al) = hc_total cfg"
    using tot by (simp add: heap4_allocator_def unat_of_nat)
  have "\<not> of_nat s \<le> xHeapStructSize ?al" using b(6,7) us hs by (simp add: word_le_nat_alt)
  moreover have "\<not> of_nat s > configTOTAL_HEAP_SIZE ?al" using us ut le by (simp add: word_less_nat_alt)
  ultimately have "prvHeapBlockIsValid ?al (of_nat (set_bit 31 s)) = Some (of_nat s - xHeapStructSize ?al)"
    using allocated_mark[OF p(5)] by (simp add: prvHeapBlockIsValid_def)
  moreover have "unat (of_nat s - xHeapStructSize ?al) = s - heap_struct cfg"
    using b(6) us hs by (simp add: unat_sub word_le_nat_alt)
  ultimately show ?thesis using b(4,6) hs raw by (simp add: header_check_def)
qed

interpretation heap4: c_heap "heap4_allocator cfg" "heap_valid cfg" for cfg
proof (unfold_locales, goal_cases)
  case (1 h live n r h')
  from valid_malloc[OF 1(1,2)] 1 show ?case
    by (auto simp: heap4_allocator_def kept_def)
next
  case (2 h live p)
  from valid_free[OF 2] show ?case by (auto simp: heap4_allocator_def)
next
  case (3 h live p n m)
  then obtain bs where "cfg_ok cfg" "heap_holds cfg h bs live" by (auto simp: heap_valid_def)
  from holds_write[OF this(2) 3(2,3) this(1)] this(1) show ?case by (auto simp: heap_valid_def)
next
  case (4 h live p n q k)
  then show ?case by (rule valid_disjoint)
next
  case (5 h live)
  then show ?case by (auto simp: heap_valid_def heap_holds_def live_ok_def)
next
  case (6 h live p n)
  from valid_live[OF 6] obtain b where "p = b + heap_struct cfg" "cfg_ok cfg" "0 < n" by metis
  then show ?case using valid_header[OF 6] heap_struct_eq[of cfg] cfg_alignment[of cfg] by auto
qed

section \<open>Any use of the heap\<close>

text \<open>A client allocates, releases what it holds, and writes into what it holds.\<close>

datatype heap_op = Op_malloc "32 word" | Op_calloc "32 word" "32 word" | Op_realloc nat "32 word"
  | Op_free nat | Op_store nat byte

definition holds_address :: "allocations \<Rightarrow> nat \<Rightarrow> bool" where
  "holds_address live a \<longleftrightarrow> (\<exists>(p, n)\<in>set live. p \<le> a \<and> a < p + n)"

fun heap_client :: "heap_cfg \<Rightarrow> heap_op \<Rightarrow> heap4 heap \<times> allocations \<Rightarrow> heap4 heap \<times> allocations" where
  "heap_client cfg (Op_malloc n) (h, live) =
     (case pvPortMalloc (heap4_allocator cfg) (unat n) h of (r, h') \<Rightarrow>
        (h', if r = 0 then live else (r, unat n) # live))"
| "heap_client cfg (Op_calloc k n) (h, live) =
     (case calloc (heap4_allocator cfg) k n 0 h of (r, _, h') \<Rightarrow>
        (h', if r = 0 then live else (r, unat k * unat n) # live))"
| "heap_client cfg (Op_realloc p n) (h, live) =
     (if p \<in> fst ` set live then
        (case realloc (heap4_allocator cfg) p (unat n) 0 h of (r, _, h') \<Rightarrow>
           (h', if r \<noteq> 0 then (r, unat n) # released p live else if n = 0 then released p live else live))
      else (h, live))"
| "heap_client cfg (Op_free p) (h, live) =
     (if p \<in> fst ` set live then (vPortFree (heap4_allocator cfg) p h, released p live) else (h, live))"
| "heap_client cfg (Op_store a b) (h, live) =
     (if holds_address live a then (h\<lparr>h_mem := (h_mem h)(a := b)\<rparr>, live) else (h, live))"

text \<open>The heap before its first use: \<open>pxEnd\<close> is NULL, memory is arbitrary.\<close>

definition heap_boot :: "memory \<Rightarrow> heap4 heap" where
  "heap_boot m = \<lparr>h_mem = m, h_alloc = \<lparr>pxEnd = 0, pucHeapStart = 0, xFreeBytesRemaining = 0,
     xMinimumEverFreeBytesRemaining = 0, xNumberOfSuccessfulAllocations = 0, xNumberOfSuccessfulFrees = 0\<rparr>\<rparr>"

definition heap_clients :: "heap_cfg \<Rightarrow> heap_op list \<Rightarrow> memory \<Rightarrow> heap4 heap \<times> allocations" where
  "heap_clients cfg ops m = fold (heap_client cfg) ops (heap_boot m, [])"

lemma client_malloc_zero:
  assumes "heap_valid cfg h live" "calloc (heap4_allocator cfg) k n e h = (0, e', h')"
  shows "heap_valid cfg h' live \<and> kept live (h_mem h) (h_mem h')"
proof -
  obtain r h1 where m: "pvPortMalloc (heap4_allocator cfg) (unat (k * n)) h = (r, h1)" by (metis surj_pair)
  have lt: "unat (k * n) < 2 ^ 32" using unsigned_less[of "k * n", where ?'a = nat] by simp
  have "h' = h \<or> r = 0 \<and> h' = h1"
    using assms(2) m by (auto simp: calloc_def Let_def split: if_splits)
  then show ?thesis using heap4.malloc_law[OF assms(1) lt m] assms(1) by (auto simp: kept_def)
qed

lemma unat32: "unat (n :: 32 word) < 2 ^ 32"
  using unsigned_less[of n, where ?'a = nat] by simp

text \<open>What an operation leaves of the allocations held before.\<close>

fun still_held :: "heap_op \<Rightarrow> allocations \<Rightarrow> allocations" where
  "still_held (Op_realloc p n) live = released p live"
| "still_held (Op_free p) live = released p live"
| "still_held (Op_store a b) live = filter (\<lambda>(p, n). a < p \<or> p + n \<le> a) live"
| "still_held op live = live"

lemma client_step:
  assumes v: "heap_valid cfg h live" and run: "heap_client cfg op (h, live) = (h', live')"
  shows "heap_valid cfg h' live' \<and> kept (still_held op live) (h_mem h) (h_mem h')"
proof (cases op)
  case (Op_malloc n)
  obtain r h1 where m: "pvPortMalloc (heap4_allocator cfg) (unat n) h = (r, h1)" by (metis surj_pair)
  from heap4.malloc_law[OF v unat32 m] run Op_malloc m show ?thesis by auto
next
  case (Op_calloc k n)
  obtain r e h1 where m: "calloc (heap4_allocator cfg) k n 0 h = (r, e, h1)" by (metis surj_pair)
  then show ?thesis
    using client_malloc_zero[OF v, of k n 0 e h1] heap4.calloc_allocates[OF v m] run Op_calloc by (cases "r = 0") auto
next
  case (Op_realloc p n)
  show ?thesis
  proof (cases "p \<in> fst ` set live")
    case True
    then obtain k where p: "(p, k) \<in> set live" by auto
    obtain r e h1 where m: "realloc (heap4_allocator cfg) p (unat n) 0 h = (r, e, h1)" by (metis surj_pair)
    have res: "h' = h1" "live' = (if r \<noteq> 0 then (r, unat n) # released p live else if n = 0 then released p live else live)"
      using run Op_realloc True m by auto
    show ?thesis
    proof (cases "n = 0")
      case True
      then show ?thesis using heap4.realloc_zero[OF v \<open>p \<in> fst ` set live\<close>] res m Op_realloc by simp
    next
      case False
      then have n: "0 < unat n" by (simp add: unat_gt_0)
      show ?thesis
      proof (cases "r = 0")
        case True
        then have "kept (released p live) (h_mem h) (h_mem h1)"
          using heap4.realloc_fails(3)[OF v n unat32 m[unfolded True]] by (rule_tac kept_subset) (auto simp: released_def)
        then show ?thesis using heap4.realloc_fails(2)[OF v n unat32 m[unfolded True]] res True False Op_realloc by simp
      next
        case ne: False
        then show ?thesis using heap4.realloc_moves[OF v p n unat32 m ne] res Op_realloc by simp
      qed
    qed
  next
    case False
    then show ?thesis using run v Op_realloc by (simp add: kept_def)
  qed
next
  case (Op_free p)
  then show ?thesis using run v heap4.free_law[OF v, of p] by (cases "p \<in> fst ` set live") (auto simp: kept_def)
next
  case (Op_store a b)
  show ?thesis
  proof (cases "holds_address live a")
    case True
    then obtain p n where p: "(p, n) \<in> set live" "p \<le> a" "a < p + n" by (auto simp: holds_address_def)
    have "heap_valid cfg (h\<lparr>h_mem := (h_mem h)(a := b)\<rparr>) live"
      by (rule heap4.write_law[OF v p(1)]) (use p in auto)
    then show ?thesis using run True Op_store by (auto simp: kept_def)
  next
    case False
    then show ?thesis using run v Op_store by (simp add: kept_def)
  qed
qed

lemma clients_valid:
  assumes "cfg_ok cfg"
  shows "heap_valid cfg (fst (heap_clients cfg ops m)) (snd (heap_clients cfg ops m))"
proof -
  have "heap_valid cfg (fst s) (snd s) \<Longrightarrow>
      heap_valid cfg (fst (fold (heap_client cfg) ops s)) (snd (fold (heap_client cfg) ops s))" for s
  proof (induction ops arbitrary: s)
    case (Cons op ops)
    obtain h l where s: "s = (h, l)" by (metis surj_pair)
    obtain h1 l1 where s1: "heap_client cfg op (h, l) = (h1, l1)" by (metis surj_pair)
    from Cons.IH[of "(h1, l1)"] client_step[OF _ s1] Cons.prems s s1 show ?case by simp
  qed simp
  moreover have "heap_valid cfg (heap_boot m) []" using assms by (simp add: heap_valid_def heap_boot_def)
  ultimately show ?thesis by (simp add: heap_clients_def)
qed

section \<open>Statistics\<close>

lemma stats_walk_chain:
  "free_chain m a xs e \<Longrightarrow> e \<notin> set xs \<Longrightarrow>
   stats_walk m e (hd (xs @ [e])) (n, mx, mn) =
     Some (fold (\<lambda>x k. size_add k 1) xs n, fold max (map (get_size m) xs) mx, fold min (map (get_size m) xs) mn)"
proof (induction xs arbitrary: a n mx mn)
  case Nil
  then show ?case by (simp add: stats_walk.simps)
next
  case (Cons x xs)
  have tail: "free_chain m x xs e" "e \<notin> set xs" "x \<noteq> e" using Cons.prems by auto
  have "get_next m x = hd (xs @ [e])" by (rule free_chain_hd[OF tail(1)])
  moreover have "(if get_size m x > mx then get_size m x else mx) = max (get_size m x) mx"
    "(if get_size m x < mn then get_size m x else mn) = min (get_size m x) mn" by auto
  ultimately show ?case using Cons.IH[OF tail(1,2)] tail(3)
    by (simp add: stats_walk.simps[of m e x] Let_def)
qed

lemma le_fold_max: "w \<le> fold max ys (a :: nat) \<longleftrightarrow> w \<le> a \<or> (\<exists>y\<in>set ys. w \<le> y)"
  by (induction ys arbitrary: a) (auto simp: le_max_iff_disj)

lemma heap_stats:
  assumes ok: "heap_ok cfg h bs"
  shows "\<exists>st. vPortGetHeapStats cfg h = Ret st \<and> xAvailableHeapSpaceInBytes st = free_bytes bs \<and>
    xNumberOfFreeBlocks st = fold (\<lambda>x k. size_add k 1) (frees bs) 0 \<and>
    (\<forall>w>0. w \<le> xSizeOfLargestFreeBlockInBytes st \<longleftrightarrow> (\<exists>b\<in>set bs. fits w b))"
proof -
  let ?m = "h_mem h" and ?e = "pxEnd (h_alloc h)"
  note f = heap_okD(1)[OF ok]
  note ch = chain_of[OF f]
  have e: "?e \<notin> set (frees bs)" using frees_block[OF heap_okD(7)[OF ok], of ?e] by auto
  have "0 < hd (frees bs @ [?e])" using ch(4,5) by (cases "frees bs") auto
  then have run: "vPortGetHeapStats cfg h = Ret \<lparr>xAvailableHeapSpaceInBytes = xFreeBytesRemaining (h_alloc h),
      xSizeOfLargestFreeBlockInBytes = fold max (map (get_size ?m) (frees bs)) 0,
      xSizeOfSmallestFreeBlockInBytes = fold min (map (get_size ?m) (frees bs)) heapSIZE_MAX,
      xNumberOfFreeBlocks = fold (\<lambda>x k. size_add k 1) (frees bs) 0,
      hs_minimum_ever = xMinimumEverFreeBytesRemaining (h_alloc h),
      hs_allocations = xNumberOfSuccessfulAllocations (h_alloc h),
      hs_frees = xNumberOfSuccessfulFrees (h_alloc h)\<rparr>"
    using stats_walk_chain[OF ch(1) e, of 0 0 heapSIZE_MAX] ch(2)
    by (simp add: vPortGetHeapStats_def Let_def)
  have "(\<exists>y\<in>set (map (get_size ?m) (frees bs)). w \<le> y) \<longleftrightarrow> (\<exists>b\<in>set bs. fits w b)" for w
  proof
    assume "\<exists>y\<in>set (map (get_size ?m) (frees bs)). w \<le> y"
    then obtain x where x: "x \<in> set (frees bs)" "w \<le> get_size ?m x" by auto
    then obtain s where "(x, s, False) \<in> set bs" by (auto simp: in_frees)
    moreover from this f have "get_size ?m x = s" by (auto simp: free_ok_def)
    ultimately show "\<exists>b\<in>set bs. fits w b" using x(2) by (intro bexI[of _ "(x, s, False)"]) (auto simp: fits_def)
  next
    assume "\<exists>b\<in>set bs. fits w b"
    then obtain x s where b: "(x, s, False) \<in> set bs" "w \<le> s" by (auto simp: fits_def)
    then have "get_size ?m x = s" "x \<in> set (frees bs)" using f by (auto simp: free_ok_def in_frees)
    then show "\<exists>y\<in>set (map (get_size ?m) (frees bs)). w \<le> y" using b(2) by auto
  qed
  then show ?thesis using run heap_okD(6)[OF ok] by (simp add: le_fold_max)
qed

lemma all_released:
  assumes hold: "heap_holds cfg h bs []" and cfg: "cfg_ok cfg"
  shows "bs = [(heap_first cfg, heap_capacity cfg, False)]"
proof -
  from hold have ok: "heap_ok cfg h bs" and lay: "laid_out (heap_first cfg) bs (heap_last cfg)"
    and none: "\<And>p s. (p, s, True) \<notin> set bs"
    using heap_okD(7)[of cfg h bs] by (auto simp: heap_holds_def live_ok_def)
  have area: "heap_first cfg < heap_last cfg" using heap_area(2)[OF cfg] cfg_alignment[OF cfg] by simp
  then obtain b bs' where bs: "bs = b # bs'" using lay by (cases bs) auto
  obtain p s u where b: "b = (p, s, u)" by (metis surj_pair)
  have u: "\<not> u" using none[of p s] bs b by (cases u) auto
  have "bs' = []"
  proof (cases bs')
    case (Cons c bs2)
    obtain q n v where c: "c = (q, n, v)" by (metis surj_pair)
    have "\<not> v" using none[of q n] bs Cons c by (cases v) auto
    then show ?thesis using heap_okD(3)[OF ok] u bs Cons b c by simp
  qed
  then show ?thesis using lay bs b u by (auto simp: heap_capacity_def)
qed

text \<open>A small heap at an address that is not aligned, to evaluate the properties on.\<close>

definition heap_demo :: heap_cfg where
  "heap_demo = \<lparr>ucHeap = 1001, hc_total = 4096, hc_alignment = 8, xStart = 64, hc_assert = True,
     hc_failed_hook = False\<rparr>"

lemma heap_demo_ok: "cfg_ok heap_demo"
  by (auto simp: cfg_ok_def heap_demo_def intro!: exI[of _ 3])

lemma heap_demo_simps:
  "heap_struct heap_demo = 8" "heap_first heap_demo = 1008" "heap_last heap_demo = 5088"
  "heap_capacity heap_demo = 4080" "hc_failed_hook heap_demo = False" "needed heap_demo 100 = 112"
  using heap_struct_eq[OF heap_demo_ok]
  by (simp_all add: heap_first_def heap_last_def heap_capacity_def needed_def) (simp_all add: heap_demo_def)

lemma heap_demo_malloc:
  "\<exists>h bs. heap_clients heap_demo [Op_malloc 100] m = (h, [(1016, 100)]) \<and> heap_holds heap_demo h bs [(1016, 100)]"
proof -
  let ?h = "prvHeapInit heap_demo (heap_boot m)"
  have first: "heap4_malloc heap_demo 100 (heap_boot m) = heap4_malloc heap_demo 100 ?h"
    and hold: "heap_holds heap_demo ?h [(1008, 4080, False)] []"
    using malloc_first_call[OF heap_demo_ok, of "heap_boot m"] by (simp_all add: heap_boot_def heap_demo_simps)
  have ok: "heap_ok heap_demo ?h ([] @ (1008, 4080, False) # [])" using hold by (simp add: heap_holds_def)
  have "\<exists>h'. heap4_malloc heap_demo 100 ?h = Ret (1016, h')"
    using malloc_hit[OF heap_demo_ok ok, of 100] by (auto simp: heap_demo_simps)
  then obtain h' where h': "heap4_malloc heap_demo 100 ?h = Ret (1016, h')" by blast
  have "\<exists>bs. heap_holds heap_demo h' bs [(1016, 100)]"
    using holds_malloc[OF heap_demo_ok hold, of 100] h' by (auto simp: heap_demo_simps)
  then show ?thesis using h' first by (auto simp: heap_clients_def heap4_allocator_def)
qed

lemma heap_demo_end: "heap_holds heap_demo h bs live \<Longrightarrow> pxEnd (h_alloc h) \<noteq> 0"
  by (simp add: heap_holds_def heap_demo_simps)

lemma heap_demo_release:
  "\<exists>h. heap_clients heap_demo [Op_malloc 100, Op_free 1016] m = (h, []) \<and> pxEnd (h_alloc h) \<noteq> 0"
proof -
  obtain h bs where h: "heap_clients heap_demo [Op_malloc 100] m = (h, [(1016, 100)])"
    "heap_holds heap_demo h bs [(1016, 100)]" using heap_demo_malloc by blast
  from holds_free[OF heap_demo_ok h(2), of 1016] obtain h' bs' where
    "heap4_free heap_demo 1016 h = Ret h'" "heap_holds heap_demo h' bs' []" by (auto simp: released_def)
  then show ?thesis using h(1) heap_demo_end
    by (auto simp: heap_clients_def heap4_allocator_def released_def)
qed

section \<open>What clients can rely on\<close>

text \<open>C4: C1. After any sequence of allocations, releases and writes into allocations, by the C functions on
  this heap, the allocations that are held lie inside the array \<open>ucHeap\<close>, are aligned, and do not
  overlap.\<close>

theorem heap_allocations:
  assumes "cfg_ok cfg" and run: "heap_clients cfg ops m = (h, live)"
  shows "(\<forall>(p, n)\<in>set live. hc_alignment cfg dvd p \<and> ucHeap cfg < p \<and> p + n \<le> ucHeap cfg + hc_total cfg) \<and>
    (\<forall>(p, n)\<in>set live. \<forall>(q, k)\<in>set live. p \<noteq> q \<longrightarrow> p + n \<le> q \<or> q + k \<le> p) \<and> distinct (map fst live)"
proof (intro conjI)
  have v: "heap_valid cfg h live" using clients_valid[OF assms(1), of ops m] run by simp
  show "\<forall>(p, n)\<in>set live. \<forall>(q, k)\<in>set live. p \<noteq> q \<longrightarrow> p + n \<le> q \<or> q + k \<le> p"
    using heap4.disjoint_law[OF v] by blast
  show "distinct (map fst live)" by (rule heap4.distinct_law[OF v])
  show "\<forall>(p, n)\<in>set live. hc_alignment cfg dvd p \<and> ucHeap cfg < p \<and> p + n \<le> ucHeap cfg + hc_total cfg"
  proof clarify
    fix p n assume "(p, n) \<in> set live"
    from valid_live[OF v this] obtain bs b s where b: "heap_holds cfg h bs live" "heap_ok cfg h bs"
      "p = b + heap_struct cfg" "(b, s, True) \<in> set bs" "n + heap_struct cfg \<le> s" by metis
    note facts = block_facts[OF b(2,4)] and area = heap_area[OF assms(1)]
    have "heap_first cfg \<le> b" "b + s \<le> heap_last cfg" using facts(1,2) b(1) by (auto simp: heap_holds_def)
    then show "hc_alignment cfg dvd p \<and> ucHeap cfg < p \<and> p + n \<le> ucHeap cfg + hc_total cfg"
      using b(3,5) facts(7) area heap_struct_eq[OF assms(1)] cfg_alignment[OF assms(1)] by auto
  qed
qed

theorem heap_allocations_witness:
  "\<exists>h live. heap_clients heap_demo [Op_malloc 100] (\<lambda>_. 0) = (h, live) \<and> (1016, 100) \<in> set live \<and>
    hc_alignment heap_demo dvd 1016 \<and> 1016 + 100 \<le> ucHeap heap_demo + hc_total heap_demo"
proof -
  obtain h where h: "heap_clients heap_demo [Op_malloc 100] (\<lambda>_. 0) = (h, [(1016, 100)])"
    using heap_demo_malloc by blast
  from heap_allocations[OF heap_demo_ok h] h show ?thesis by auto
qed

text \<open>C32: C1. Whatever a client does next, the allocations that it neither releases nor writes to keep all
  their bytes, and a byte written into an allocation is there afterwards: the heap never touches live
  memory.\<close>

theorem heap_contents_kept:
  assumes "cfg_ok cfg" and run: "heap_clients cfg ops m = (h, live)"
    and step: "heap_client cfg op (h, live) = (h', live')"
  shows "(\<forall>(p, n)\<in>set (still_held op live). (p, n) \<in> set live' \<and> (\<forall>x. p \<le> x \<and> x < p + n \<longrightarrow> h_mem h' x = h_mem h x)) \<and>
    (\<forall>a b. op = Op_store a b \<longrightarrow> holds_address live a \<longrightarrow> h_mem h' = (h_mem h)(a := b))"
proof (intro conjI)
  have v: "heap_valid cfg h live" using clients_valid[OF assms(1), of ops m] run by simp
  have "set (still_held op live) \<subseteq> set live'"
    using step by (cases op) (auto simp: released_def split: prod.splits if_splits)
  then show "\<forall>(p, n)\<in>set (still_held op live). (p, n) \<in> set live' \<and> (\<forall>x. p \<le> x \<and> x < p + n \<longrightarrow> h_mem h' x = h_mem h x)"
    using client_step[OF v step] by (auto simp: kept_def)
  show "\<forall>a b. op = Op_store a b \<longrightarrow> holds_address live a \<longrightarrow> h_mem h' = (h_mem h)(a := b)"
    using step by auto
qed

theorem heap_contents_kept_witness:
  "\<exists>h live. heap_clients heap_demo [Op_malloc 100] (\<lambda>_. 0) = (h, live) \<and> (1016, 100) \<in> set live \<and>
    h_mem (fst (heap_client heap_demo (Op_malloc 7) (h, live))) 1115 = h_mem h 1115"
proof -
  obtain h where h: "heap_clients heap_demo [Op_malloc 100] (\<lambda>_. 0) = (h, [(1016, 100)])"
    using heap_demo_malloc by blast
  obtain h' live' where s: "heap_client heap_demo (Op_malloc 7) (h, [(1016, 100)]) = (h', live')" by (metis surj_pair)
  from heap_contents_kept[OF heap_demo_ok h s] have "h_mem h' 1115 = h_mem h 1115" by simp
  then show ?thesis using h s by (metis fst_conv list.set_intros(1))
qed

text \<open>C13: C1. Neither leaks nor fragments remain: when every allocation has been released, the free list is
  again one block with the whole capacity of the heap.\<close>

theorem heap_coalesces:
  assumes "cfg_ok cfg" and run: "heap_clients cfg ops m = (h, [])" and used: "pxEnd (h_alloc h) \<noteq> 0"
  shows "xPortGetFreeHeapSize (h_alloc h) = heap_capacity cfg \<and>
    (\<exists>st. vPortGetHeapStats cfg h = Ret st \<and> xNumberOfFreeBlocks st = 1 \<and>
       xSizeOfLargestFreeBlockInBytes st = heap_capacity cfg)"
proof -
  have "heap_valid cfg h []" using clients_valid[OF assms(1), of ops m] run by simp
  with used obtain bs where hold: "heap_holds cfg h bs []" by (auto simp: heap_valid_def)
  note bs = all_released[OF hold assms(1)]
  from hold have ok: "heap_ok cfg h bs" by (simp add: heap_holds_def)
  have cap: "0 < heap_capacity cfg"
    using heap_area(2)[OF assms(1)] cfg_alignment[OF assms(1)] by (simp add: heap_capacity_def)
  from heap_stats[OF ok] obtain st where st: "vPortGetHeapStats cfg h = Ret st"
    "xNumberOfFreeBlocks st = fold (\<lambda>x k. size_add k 1) (frees bs) 0"
    "\<And>w. 0 < w \<Longrightarrow> w \<le> xSizeOfLargestFreeBlockInBytes st \<longleftrightarrow> (\<exists>b\<in>set bs. fits w b)" by blast
  have "w \<le> xSizeOfLargestFreeBlockInBytes st \<longleftrightarrow> w \<le> heap_capacity cfg" for w
    using st(3)[of w] by (cases "w = 0") (auto simp: bs fits_def)
  then have "xSizeOfLargestFreeBlockInBytes st = heap_capacity cfg" by (meson order_refl antisym)
  then show ?thesis
    using st(1,2) heap_okD(6)[OF ok] by (simp add: bs xPortGetFreeHeapSize_def size_add_def)
qed

theorem heap_coalesces_witness:
  "\<exists>h. heap_clients heap_demo [Op_malloc 100, Op_free 1016] (\<lambda>_. 0) = (h, []) \<and>
    xPortGetFreeHeapSize (h_alloc h) = 4080"
proof -
  obtain h where h: "heap_clients heap_demo [Op_malloc 100, Op_free 1016] (\<lambda>_. 0) = (h, [])"
    "pxEnd (h_alloc h) \<noteq> 0" using heap_demo_release by blast
  from heap_coalesces[OF heap_demo_ok h] h(1) show ?thesis by (auto simp: heap_demo_simps)
qed

text \<open>C1. The heap always answers: releasing an allocation returns, and so does an allocation, unless
  it fails while the hook that stops the system is configured; it fails exactly when nothing is asked
  for or the request with its header is larger than the largest free block.\<close>

theorem heap_answers:
  assumes cfg: "cfg_ok cfg" and run: "heap_clients cfg ops m = (h, live)" and used: "pxEnd (h_alloc h) \<noteq> 0"
  shows "(\<forall>p\<in>fst ` set live. \<exists>h'. heap4_free cfg p h = Ret h') \<and>
    (\<exists>st. vPortGetHeapStats cfg h = Ret st \<and>
      (\<forall>n :: 32 word. if n = 0 \<or> xSizeOfLargestFreeBlockInBytes st < needed cfg (unat n)
        then heap4_malloc cfg (unat n) h = (if hc_failed_hook cfg then Diverges else Ret (0, h))
        else \<exists>r h'. heap4_malloc cfg (unat n) h = Ret (r, h') \<and> r \<noteq> 0))"
proof -
  have v: "heap_valid cfg h live" using clients_valid[OF cfg, of ops m] run by simp
  with used obtain bs where hold: "heap_holds cfg h bs live" by (auto simp: heap_valid_def)
  then have ok: "heap_ok cfg h bs" by (simp add: heap_holds_def)
  from heap_stats[OF ok] obtain st where st: "vPortGetHeapStats cfg h = Ret st"
    "\<And>w. 0 < w \<Longrightarrow> w \<le> xSizeOfLargestFreeBlockInBytes st \<longleftrightarrow> (\<exists>b\<in>set bs. fits w b)" by blast
  have "if n = 0 \<or> xSizeOfLargestFreeBlockInBytes st < needed cfg (unat n)
        then heap4_malloc cfg (unat n) h = (if hc_failed_hook cfg then Diverges else Ret (0, h))
        else \<exists>r h'. heap4_malloc cfg (unat n) h = Ret (r, h') \<and> r \<noteq> 0" for n :: "32 word"
  proof -
    have "0 < needed cfg (unat n)"
      using needed_bounds(1)[OF cfg, of "unat n"] cfg_alignment[OF cfg] by simp
    from st(2)[OF this] have "xSizeOfLargestFreeBlockInBytes st < needed cfg (unat n) \<longleftrightarrow>
        (\<forall>b\<in>set bs. \<not> fits (needed cfg (unat n)) b)" by (auto simp: not_le[symmetric])
    moreover have "n = 0 \<longleftrightarrow> unat n = 0" by (simp add: unat_eq_0)
    ultimately show ?thesis
      using malloc_none[OF cfg ok unat32, of n] holds_malloc[OF cfg hold unat32, of n] by auto
  qed
  moreover have "\<exists>h'. heap4_free cfg p h = Ret h'" if "p \<in> fst ` set live" for p
    using valid_free[OF v that] by blast
  ultimately show ?thesis using st(1) by blast
qed

theorem heap_answers_witness:
  "\<exists>h live. heap_clients heap_demo [Op_malloc 100] (\<lambda>_. 0) = (h, live) \<and>
    heap4_malloc heap_demo 0 h = Ret (0, h) \<and> (\<exists>h'. heap4_free heap_demo 1016 h = Ret h')"
proof -
  obtain h bs where h: "heap_clients heap_demo [Op_malloc 100] (\<lambda>_. 0) = (h, [(1016, 100)])"
    "heap_holds heap_demo h bs [(1016, 100)]" using heap_demo_malloc by blast
  note c = heap_answers[OF heap_demo_ok h(1) heap_demo_end[OF h(2)]]
  have "\<exists>h'. heap4_free heap_demo 1016 h = Ret h'" using c by simp
  moreover have "heap4_malloc heap_demo (unat (0 :: 32 word)) h = Ret (0, h)"
    using conjunct2[OF c] by (elim exE conjE allE[of _ 0]) (simp add: heap_demo_simps)
  ultimately show ?thesis using h(1) by simp
qed

text \<open>C1. \<open>realloc\<close> of a live allocation moves it whole: the new block is disjoint from everything else that
  is held, holds the old bytes up to the smaller size, and the old block is released; when there is no
  room, nothing changes and \<open>errno\<close> is ENOMEM.\<close>

theorem realloc_keeps_contents:
  assumes "cfg_ok cfg" and run: "heap_clients cfg ops m = (h, live)" and p: "(p, k) \<in> set live"
    and n: "0 < n" and call: "realloc (heap4_allocator cfg) p (unat (n :: 32 word)) e h = (r, e', h')"
  shows "if r = 0 then e' = ENOMEM \<and> heap_valid cfg h' live \<and> kept live (h_mem h) (h_mem h')
    else e' = e \<and> heap_valid cfg h' ((r, unat n) # released p live) \<and>
      kept (released p live) (h_mem h) (h_mem h') \<and> (\<forall>i<min (unat n) k. h_mem h' (r + i) = h_mem h (p + i))"
proof -
  have v: "heap_valid cfg h live" using clients_valid[OF assms(1), of ops m] run by simp
  have n0: "0 < unat n" using n by (simp add: word_less_nat_alt)
  show ?thesis
    using heap4.realloc_moves[OF v p n0 unat32 call] heap4.realloc_fails[OF v n0 unat32, of p e e' h'] call by auto
qed

theorem realloc_keeps_contents_witness:
  "\<exists>h live. heap_clients heap_demo [Op_malloc 100] (\<lambda>_. 0) = (h, live) \<and>
    (\<forall>r e' h'. realloc (heap4_allocator heap_demo) 1016 200 0 h = (r, e', h') \<and> r \<noteq> 0 \<longrightarrow>
      h_mem h' (r + 99) = h_mem h 1115)"
proof -
  obtain h where h: "heap_clients heap_demo [Op_malloc 100] (\<lambda>_. 0) = (h, [(1016, 100)])"
    using heap_demo_malloc by blast
  have "h_mem h' (r + 99) = h_mem h 1115"
    if "realloc (heap4_allocator heap_demo) 1016 200 0 h = (r, e', h')" "r \<noteq> 0" for r e' h'
    using realloc_keeps_contents[OF heap_demo_ok h, of 1016 100 200 0 r e' h'] that by (simp split: if_splits)
  then show ?thesis using h by blast
qed

end
