(* ===== verification/Syscalls.thy ===== *)
theory Syscalls
  imports Fs_Ops
begin

text \<open>
  The system calls that newlib needs (src/runtime/syscalls.c): descriptors are
  dispatched to the remote file system (through the PX4 layer), to one of four
  UART channels with a reference count, or to the console.  The PX4 layer, the UART
  driver, the RTT console and the embedded metadata table are parameters; the
  remote file system is that of \<open>Fs\<open>_\<close>Ops\<close>, and \<open>errno\<close> is the one of its state.
\<close>

section \<open>State and environment\<close>

abbreviation (input) UART_FD_BASE :: int where "UART_FD_BASE \<equiv> 200"
abbreviation (input) UART_MAX_CHANNELS :: int where "UART_MAX_CHANNELS \<equiv> 4"
abbreviation (input) UART_SUPPORTED_CHANNELS :: nat where "UART_SUPPORTED_CHANNELS \<equiv> 4"
abbreviation (input) REMOTE_FD_BASE :: int where "REMOTE_FD_BASE \<equiv> 4000"
abbreviation (input) EROFS :: int where "EROFS \<equiv> 30"
abbreviation (input) S_IFREG :: "32 word" where "S_IFREG \<equiv> 32768"
abbreviation (input) S_IFCHR :: "32 word" where "S_IFCHR \<equiv> 8192"

record uart_channel_state =
  uc_fd :: int
  refcount :: "16 word"
  mode_8n1 :: bool
  baudrate :: "32 word"

definition uart_closed :: uart_channel_state where
  "uart_closed = \<lparr>uc_fd = - 1, refcount = 0, mode_8n1 = True, baudrate = 0\<rparr>"

record 'w sys_state =
  s_uart_channels :: "uart_channel_state list"
  sys_fs :: "'w fs_state"

definition sys_boot :: "'w fs_state \<Rightarrow> 'w sys_state" where
  "sys_boot f = \<lparr>s_uart_channels = replicate 4 uart_closed, sys_fs = f\<rparr>"

text \<open>An entry of the table of UART devices.\<close>

record uart_channel_info =
  ui_channel :: nat
  ui_mode_8n1 :: bool
  ui_default_baud :: "32 word"

text \<open>The functions outside the repository; each runs on the file system state, whose
  \<open>errno\<close> it may set.\<close>

record 'w sys_env =
  se_fs :: "'w fs_env"
  px4_open :: "bytes option \<Rightarrow> int \<Rightarrow> int \<Rightarrow> 'w fs_state \<Rightarrow> int \<times> 'w fs_state"
  px4_close :: "int \<Rightarrow> 'w fs_state \<Rightarrow> int \<times> 'w fs_state"
  px4_read :: "int \<Rightarrow> nat \<Rightarrow> 'w fs_state \<Rightarrow> int \<times> bytes \<times> 'w fs_state"
  px4_write :: "int \<Rightarrow> bytes \<Rightarrow> 'w fs_state \<Rightarrow> int \<times> 'w fs_state"
  px4_lseek :: "int \<Rightarrow> int \<Rightarrow> int \<Rightarrow> 'w fs_state \<Rightarrow> int \<times> 'w fs_state"
  uart_get_info :: "bytes \<Rightarrow> uart_channel_info option"
  uart_open_channel :: "nat \<Rightarrow> 32 word \<Rightarrow> bool \<Rightarrow> 'w fs_state \<Rightarrow> int \<times> 'w fs_state"
  uart_close_channel :: "nat \<Rightarrow> 'w fs_state \<Rightarrow> int \<times> 'w fs_state"
  uart_set_baudrate_channel :: "nat \<Rightarrow> 32 word \<Rightarrow> 'w fs_state \<Rightarrow> int \<times> 'w fs_state"
  uart_set_serial_mode_channel :: "nat \<Rightarrow> bool \<Rightarrow> 'w fs_state \<Rightarrow> int \<times> 'w fs_state"
  uart_read :: "nat \<Rightarrow> nat \<Rightarrow> 'w fs_state \<Rightarrow> int \<times> bytes \<times> 'w fs_state"
  uart_write :: "nat \<Rightarrow> bytes \<Rightarrow> 'w fs_state \<Rightarrow> int \<times> 'w fs_state"
  rtt_write :: "bytes \<Rightarrow> 'w fs_state \<Rightarrow> int \<times> 'w fs_state"
  stdout_hook :: "(bytes \<Rightarrow> 'w fs_state \<Rightarrow> 'w fs_state) option"
  stdout_active :: "('w fs_state \<Rightarrow> bool) option"
  metadata_is_fd :: "int \<Rightarrow> bool"
  metadata_size :: "int \<Rightarrow> int"

definition fails_with :: "int \<Rightarrow> 'w sys_state \<Rightarrow> int \<times> 'w sys_state" where
  "fails_with e st = (- 1, st\<lparr>sys_fs := set_errno e (sys_fs st)\<rparr>)"

definition external :: "('w fs_state \<Rightarrow> int \<times> 'w fs_state) \<Rightarrow> 'w sys_state \<Rightarrow> int \<times> 'w sys_state" where
  "external f st = (case f (sys_fs st) of (r, f') \<Rightarrow> (r, st\<lparr>sys_fs := f'\<rparr>))"

section \<open>Descriptors and channels\<close>

definition is_px4_file_fd :: "int \<Rightarrow> bool" where
  "is_px4_file_fd fd \<longleftrightarrow> fd \<ge> 3 \<and> fd < UART_FD_BASE \<or> fd \<ge> REMOTE_FD_BASE"

definition uart_fd_to_channel :: "int \<Rightarrow> int" where
  "uart_fd_to_channel fd = fd - UART_FD_BASE"

definition uart_fd_is_valid :: "uart_channel_state list \<Rightarrow> int \<Rightarrow> bool" where
  "uart_fd_is_valid chans fd =
     (let channel = fd - UART_FD_BASE in
      if channel < 0 \<or> channel \<ge> UART_MAX_CHANNELS then False
      else refcount (chans ! nat channel) > 0)"

definition uart_channel_supported :: "nat \<Rightarrow> bool" where
  "uart_channel_supported channel \<longleftrightarrow> channel < UART_SUPPORTED_CHANNELS"

text \<open>\<open>None\<close> is the return value -1; otherwise the channel, its mode and its default
  baud rate.\<close>

definition uart_path_to_channel :: "'w sys_env \<Rightarrow> bytes option \<Rightarrow> (nat \<times> bool \<times> 32 word) option" where
  "uart_path_to_channel env name =
    (case name of None \<Rightarrow> None | Some p \<Rightarrow>
     (case uart_get_info env p of None \<Rightarrow> None | Some info \<Rightarrow>
        if uart_channel_supported (ui_channel info)
        then Some (ui_channel info, ui_mode_8n1 info, ui_default_baud info) else None))"

definition set_channel :: "nat \<Rightarrow> uart_channel_state \<Rightarrow> 'w sys_state \<Rightarrow> 'w sys_state" where
  "set_channel ch s st = st\<lparr>s_uart_channels := (s_uart_channels st)[ch := s]\<rparr>"

section \<open>Opening and closing\<close>

definition sys_close :: "'w sys_env \<Rightarrow> int \<Rightarrow> 'w sys_state \<Rightarrow> int \<times> 'w sys_state" where
  "sys_close env file st =
    (if is_px4_file_fd file then external (px4_close env file) st
     else if \<not> uart_fd_is_valid (s_uart_channels st) file then fails_with EBADF st
     else let channel = nat (uart_fd_to_channel file); s = s_uart_channels st ! channel in
     if refcount s > 0 then
       (let s1 = s\<lparr>refcount := refcount s - 1\<rparr> in
        if refcount s1 = 0 then
          (let st1 = snd (external (uart_close_channel env channel) st)
           in (0, set_channel channel (s1\<lparr>uc_fd := - 1, baudrate := 0, mode_8n1 := True\<rparr>) st1))
        else (0, set_channel channel s1 st))
     else (0, st))"

definition uart_set_rc_serial_mode :: "'w sys_env \<Rightarrow> bool \<Rightarrow> 'w sys_state \<Rightarrow> 'w sys_state" where
  "uart_set_rc_serial_mode env m st = snd (external (uart_set_serial_mode_channel env 0 m) st)"

text \<open>The branch of \<open>_open\<close> for a channel that is open already: the mode and the baud
  rate are changed to the requested ones, then the reference is counted.\<close>

definition uart_reconfigure ::
  "'w sys_env \<Rightarrow> nat \<Rightarrow> bool \<Rightarrow> 32 word \<Rightarrow> 'w sys_state \<Rightarrow> uart_channel_state \<times> 'w sys_state"
where
  "uart_reconfigure env channel m baud st =
    (let s = s_uart_channels st ! channel;
         st1 = (if channel = 0 \<and> m \<noteq> mode_8n1 s then uart_set_rc_serial_mode env m st else st);
         (s2, st2) = (if m \<noteq> mode_8n1 s
                      then (s\<lparr>mode_8n1 := m\<rparr>, snd (external (uart_set_serial_mode_channel env channel m) st1))
                      else (s, st1))
     in if baud \<noteq> 0 \<and> baud \<noteq> baudrate s2
        then (case external (uart_set_baudrate_channel env channel baud) st2 of
                (r, st3) \<Rightarrow> (if r = 0 then s2\<lparr>baudrate := baud\<rparr> else s2, st3))
        else (s2, st2))"

definition uart_reopen :: "'w sys_env \<Rightarrow> nat \<Rightarrow> bool \<Rightarrow> 32 word \<Rightarrow> 'w sys_state \<Rightarrow> int \<times> 'w sys_state" where
  "uart_reopen env channel m baud st =
    (case uart_reconfigure env channel m baud st of (s, st') \<Rightarrow>
       (uc_fd s, set_channel channel (s\<lparr>refcount := refcount s + 1\<rparr>) st'))"

definition uart_first_open :: "'w sys_env \<Rightarrow> nat \<Rightarrow> bool \<Rightarrow> 32 word \<Rightarrow> 'w sys_state \<Rightarrow> int \<times> 'w sys_state" where
  "uart_first_open env channel m baud st =
    (let st1 = (if channel = 0 then uart_set_rc_serial_mode env m st else st) in
     case external (uart_open_channel env channel baud m) st1 of (r, st2) \<Rightarrow>
       if r \<noteq> 0 then fails_with EIO st2
       else (UART_FD_BASE + int channel,
             set_channel channel \<lparr>uc_fd = UART_FD_BASE + int channel, refcount = 1, mode_8n1 = m, baudrate = baud\<rparr> st2))"

definition sys_open :: "'w sys_env \<Rightarrow> bytes option \<Rightarrow> int \<Rightarrow> int \<Rightarrow> 'w sys_state \<Rightarrow> int \<times> 'w sys_state" where
  "sys_open env name flags mode st =
    (case uart_path_to_channel env name of
       None \<Rightarrow> external (px4_open env name flags mode) st
     | Some (channel, m, baud) \<Rightarrow>
         if \<not> uart_channel_supported channel then fails_with ENODEV st
         else if refcount (s_uart_channels st ! channel) > 0 then uart_reopen env channel m baud st
         else uart_first_open env channel m baud st)"

definition sys_access :: "'w sys_env \<Rightarrow> bytes option \<Rightarrow> 'w sys_state \<Rightarrow> int \<times> 'w sys_state" where
  "sys_access env name st =
    (if name = None then fails_with EINVAL st
     else if uart_path_to_channel env name \<noteq> None then (0, st)
     else fails_with ENOENT st)"

definition uart_reopen_rc_channel :: "'w sys_env \<Rightarrow> 32 word \<Rightarrow> 'w sys_state \<Rightarrow> int \<times> 'w sys_state" where
  "uart_reopen_rc_channel env baud st =
    (case external (uart_set_baudrate_channel env 0 (if baud \<noteq> 0 then baud else 100000)) st of
       (r, st') \<Rightarrow> (if r \<noteq> 0 then - 1 else 0, st'))"

section \<open>Reading and writing\<close>

text \<open>The loop of \<open>_read\<close>: \<open>buf\<close> is the caller's buffer; the bytes of one \<open>px4\<open>_\<close>read\<close> are
  stored behind the \<open>ret\<open>_\<close>total\<close> bytes that are there.\<close>

function read_loop ::
  "'w sys_env \<Rightarrow> int \<Rightarrow> int \<Rightarrow> int \<Rightarrow> bytes \<Rightarrow> 'w sys_state \<Rightarrow> (int \<times> bytes \<times> 'w sys_state) exec"
where
  "read_loop env file len ret_total buf st =
    (if ret_total < len then
       (case px4_read env file (nat (len - ret_total)) (sys_fs st) of (ret, data, f') \<Rightarrow>
          if nat ret_total + length data > length buf then Faults
          else let buf' = overwrite (nat ret_total) data buf; st' = st\<lparr>sys_fs := f'\<rparr> in
          if ret < 0 then Ret (if ret_total > 0 then ret_total else - 1, buf', st')
          else if ret = 0 then Ret (ret_total, buf', st')
          else read_loop env file len (ret_total + ret) buf' st')
     else Ret (ret_total, buf, st))"
  by pat_completeness auto

termination
  by (relation "measure (\<lambda>(env, file, len, ret_total, buf, st). nat (len - ret_total))") auto

declare read_loop.simps [simp del]

text \<open>A buffer argument of \<open>None\<close> is NULL.\<close>

definition sys_read ::
  "'w sys_env \<Rightarrow> int \<Rightarrow> bytes option \<Rightarrow> int \<Rightarrow> 'w sys_state \<Rightarrow> (int \<times> bytes \<times> 'w sys_state) exec"
where
  "sys_read env file ptr len st =
    (let fail = (\<lambda>e b. case fails_with e st of (r, st') \<Rightarrow> Ret (r, b, st')) in
     case ptr of
       None \<Rightarrow> fail (if is_px4_file_fd file then EINVAL else EBADF) []
     | Some buf \<Rightarrow>
       if is_px4_file_fd file then (if len \<le> 0 then fail EINVAL buf else read_loop env file len 0 buf st)
       else if \<not> uart_fd_is_valid (s_uart_channels st) file \<or> len \<le> 0 then fail EBADF buf
       else let channel = nat (uart_fd_to_channel file) in
       if \<not> uart_channel_supported channel then fail EBADF buf
       else case uart_read env channel (nat len) (sys_fs st) of (ret, data, f') \<Rightarrow>
         if length data > length buf then Faults
         else let buf' = overwrite 0 data buf; st' = st\<lparr>sys_fs := f'\<rparr> in
         if ret < 0 then (case fails_with EIO st' of (r, st'') \<Rightarrow> Ret (r, buf', st''))
         else Ret (ret, buf', st'))"

text \<open>Descriptors 1 and 2: the RTT console, and the MAVLink shell when it listens.\<close>

definition console_write :: "'w sys_env \<Rightarrow> bytes \<Rightarrow> 'w sys_state \<Rightarrow> int \<times> 'w sys_state" where
  "console_write env data st =
    (let (written, st1) = (if data \<noteq> [] then external (rtt_write env data) st else (0, st)) in
     case stdout_hook env of
       Some hook \<Rightarrow>
         if data \<noteq> [] \<and> (case stdout_active env of Some act \<Rightarrow> act (sys_fs st1) | None \<Rightarrow> False)
         then (int (length data), st1\<lparr>sys_fs := hook data (sys_fs st1)\<rparr>)
         else if written < 0 then fails_with EIO st1 else (written, st1)
     | None \<Rightarrow> if written < 0 then fails_with EIO st1 else (written, st1))"

definition sys_write ::
  "'w sys_env \<Rightarrow> int \<Rightarrow> bytes option \<Rightarrow> int \<Rightarrow> 'w sys_state \<Rightarrow> (int \<times> 'w sys_state) exec"
where
  "sys_write env file ptr len st =
    (case ptr of None \<Rightarrow> Ret (fails_with EBADF st) | Some buf \<Rightarrow>
     if len < 0 then Ret (fails_with EBADF st)
     else if length buf < nat len then Faults
     else let data = take (nat len) buf in
     if file = 1 \<or> file = 2 then Ret (console_write env data st)
     else if is_px4_file_fd file then
       (if len \<le> 0 then Ret (fails_with EINVAL st) else Ret (external (px4_write env file data) st))
     else if \<not> uart_fd_is_valid (s_uart_channels st) file then Ret (fails_with EBADF st)
     else (case external (uart_write env (nat (uart_fd_to_channel file)) data) st of (ret, st') \<Rightarrow>
             if ret < 0 then Ret (fails_with EIO st') else Ret (ret, st')))"

definition sys_lseek :: "'w sys_env \<Rightarrow> int \<Rightarrow> int \<Rightarrow> int \<Rightarrow> 'w sys_state \<Rightarrow> int \<times> 'w sys_state" where
  "sys_lseek env file ptr dir st =
     (if is_px4_file_fd file then external (px4_lseek env file ptr dir) st else (0, st))"

definition sys_isatty :: "int \<Rightarrow> int" where "sys_isatty file = 1"

definition sys_kill :: "'w sys_state \<Rightarrow> int \<times> 'w sys_state" where "sys_kill st = fails_with EINVAL st"

definition sys_getpid :: int where "sys_getpid = 1"

definition sys_link :: "'w sys_state \<Rightarrow> int \<times> 'w sys_state" where "sys_link st = fails_with ENOSYS st"

definition sys_link_r :: "int option \<Rightarrow> int \<times> int option" where
  "sys_link_r r = (- 1, map_option (\<lambda>_. ENOSYS) r)"

section \<open>Status of files\<close>

abbreviation (input) SEEK_SET :: int where "SEEK_SET \<equiv> 0"
abbreviation (input) SEEK_CUR :: int where "SEEK_CUR \<equiv> 1"
abbreviation (input) SEEK_END :: int where "SEEK_END \<equiv> 2"

record file_stat =
  st_mode :: "32 word"
  st_size :: int
  st_mtime :: int

definition stat_zero :: file_stat where "stat_zero = \<lparr>st_mode = 0, st_size = 0, st_mtime = 0\<rparr>"

text \<open>\<open>st\<close> is NULL for \<open>None\<close>; the new contents of the structure are returned.\<close>

definition sys_fstat ::
  "'w sys_env \<Rightarrow> int \<Rightarrow> file_stat option \<Rightarrow> 'w sys_state \<Rightarrow> int \<times> file_stat option \<times> 'w sys_state"
where
  "sys_fstat env file stp st =
    (case stp of None \<Rightarrow> (case fails_with EINVAL st of (r, st') \<Rightarrow> (r, None, st')) | Some s0 \<Rightarrow>
     if metadata_is_fd env file then
       (if metadata_size env file \<ge> 0
        then (0, Some (stat_zero\<lparr>st_mode := S_IFREG + 292, st_size := metadata_size env file\<rparr>), st)
        else (case fails_with EBADF st of (r, st') \<Rightarrow> (r, Some stat_zero, st')))
     else if is_px4_file_fd file then
       (case external (px4_lseek env file 0 SEEK_CUR) st of (cur, st1) \<Rightarrow>
        if cur \<ge> 0 then
          (case external (px4_lseek env file 0 SEEK_END) st1 of (en, st2) \<Rightarrow>
           (case external (px4_lseek env file cur SEEK_SET) st2 of (_, st3) \<Rightarrow>
            if en \<ge> 0 then (0, Some (stat_zero\<lparr>st_mode := S_IFREG + 438, st_size := en\<rparr>), st3)
            else (0, Some (stat_zero\<lparr>st_mode := S_IFCHR\<rparr>), st3)))
        else (0, Some (stat_zero\<lparr>st_mode := S_IFCHR\<rparr>), st1))
     else (0, Some (stat_zero\<lparr>st_mode := S_IFCHR\<rparr>), st))"

text \<open>The path prefixes, as bytes.\<close>

definition dev_tty :: bytes where "dev_tty = [0x2F, 0x64, 0x65, 0x76, 0x2F, 0x74, 0x74, 0x79, 0x53]"
definition dev_dir :: bytes where "dev_dir = [0x2F, 0x64, 0x65, 0x76, 0x2F]"
definition fs_dir :: bytes where "fs_dir = [0x2F, 0x66, 0x73, 0x2F]"

definition starts_with :: "bytes \<Rightarrow> bytes \<Rightarrow> bool" where
  "starts_with pre p \<longleftrightarrow> take (length pre) p = pre"

definition sys_stat ::
  "'w sys_env \<Rightarrow> nat \<Rightarrow> nat \<Rightarrow> nat \<Rightarrow> bytes option \<Rightarrow> file_stat option \<Rightarrow> 'w sys_state
   \<Rightarrow> (int \<times> file_stat option \<times> 'w sys_state) exec"
where
  "sys_stat env fuel resp lv file stp st =
    (case (file, stp) of
       (Some p, Some s0) \<Rightarrow>
         if starts_with dev_tty p then Ret (0, Some (s0\<lparr>st_mode := S_IFCHR\<rparr>), st)
         else if starts_with fs_dir p then
           exec_bind (rzv_remote_fs_stat_impl (se_fs env) fuel resp lv (Some p) True (sys_fs st))
            (\<lambda>(ret, outs, f').
               let st' = st\<lparr>sys_fs := f'\<rparr> in
               if ret < 0 then (case fails_with ENOENT st' of (r, st'') \<Rightarrow> Ret (r, Some s0, st''))
               else (case outs of
                       Some (m, sz, mt) \<Rightarrow>
                         Ret (0, Some (s0\<lparr>st_mode := m, st_size := sint sz, st_mtime := sint mt\<rparr>), st')
                     | None \<Rightarrow> Ret (0, Some (s0\<lparr>st_mode := 0, st_size := 0, st_mtime := 0\<rparr>), st')))
         else Ret (0, Some (s0\<lparr>st_mode := S_IFREG, st_size := 0\<rparr>), st)
     | _ \<Rightarrow> (case fails_with EINVAL st of (r, st') \<Rightarrow> Ret (r, stp, st')))"

definition sys_unlink :: "bytes option \<Rightarrow> 'w sys_state \<Rightarrow> int \<times> 'w sys_state" where
  "sys_unlink name st =
    (case name of
       None \<Rightarrow> fails_with EINVAL st
     | Some p \<Rightarrow> if starts_with dev_dir p then fails_with ENOENT st else fails_with EROFS st)"

definition sys_rename ::
  "'w sys_env \<Rightarrow> nat \<Rightarrow> bytes option \<Rightarrow> bytes option \<Rightarrow> 'w sys_state \<Rightarrow> (int \<times> 'w sys_state) exec"
where
  "sys_rename env fuel old_path new_path st =
    (case (old_path, new_path) of
       (Some p, Some q) \<Rightarrow>
         if starts_with fs_dir p \<or> starts_with fs_dir q then
           exec_bind (rzv_remote_fs_rename_impl (se_fs env) fuel (Some p) (Some q) (sys_fs st))
            (\<lambda>(ret, f'). let st' = st\<lparr>sys_fs := f'\<rparr> in
               if ret < 0 then Ret (fails_with (- ret) st') else Ret (0, st'))
         else Ret (fails_with EROFS st)
     | _ \<Rightarrow> Ret (fails_with EINVAL st))"

text \<open>The reentrant forms store \<open>errno\<close> into the reentrancy structure, if there is one.\<close>

definition reent_errno :: "int option \<Rightarrow> int \<Rightarrow> 'w sys_state \<Rightarrow> int option" where
  "reent_errno r ret st = map_option (\<lambda>_. if ret < 0 then fs_errno (sys_fs st) else 0) r"

definition sys_unlink_r :: "int option \<Rightarrow> bytes option \<Rightarrow> 'w sys_state \<Rightarrow> int \<times> int option \<times> 'w sys_state" where
  "sys_unlink_r r name st = (case sys_unlink name st of (ret, st') \<Rightarrow> (ret, reent_errno r ret st', st'))"

definition sys_rename_r ::
  "'w sys_env \<Rightarrow> nat \<Rightarrow> int option \<Rightarrow> bytes option \<Rightarrow> bytes option \<Rightarrow> 'w sys_state
   \<Rightarrow> (int \<times> int option \<times> 'w sys_state) exec"
where
  "sys_rename_r env fuel r p q st =
     exec_bind (sys_rename env fuel p q st) (\<lambda>(ret, st'). Ret (ret, reent_errno r ret st', st'))"

definition sys_stat_r ::
  "'w sys_env \<Rightarrow> nat \<Rightarrow> nat \<Rightarrow> nat \<Rightarrow> int option \<Rightarrow> bytes option \<Rightarrow> file_stat option \<Rightarrow> 'w sys_state
   \<Rightarrow> (int \<times> int option \<times> file_stat option \<times> 'w sys_state) exec"
where
  "sys_stat_r env fuel resp lv r file stp st =
     exec_bind (sys_stat env fuel resp lv file stp st)
      (\<lambda>(ret, s, st'). Ret (ret, reent_errno r ret st', s, st'))"

end
