(* ===== verification/Syscalls_Props.thy ===== *)
theory Syscalls_Props
  imports Syscalls Fs_Props
begin

text \<open>
  Properties of the system calls: rejected descriptors, complete reads over a
  transport that delivers short pieces, the file offset across \<open>fstat\<close>, and the
  reference counts of the UART channels.
\<close>

section \<open>Descriptors\<close>

lemma external_channels [simp]: "s_uart_channels (snd (external f st)) = s_uart_channels st"
  by (simp add: external_def split: prod.splits)

lemma external_fst: "fst (external f st) = fst (f (sys_fs st))"
  by (simp add: external_def split: prod.splits)

lemma external_fs [simp]: "sys_fs (snd (external f st)) = snd (f (sys_fs st))"
  by (simp add: external_def split: prod.splits)

lemma external_pair: "external f st = (fst (f (sys_fs st)), snd (external f st))"
  by (simp add: external_def split: prod.splits)

lemma fails_with_simps [simp]:
  "fst (fails_with e st) = - 1" "s_uart_channels (snd (fails_with e st)) = s_uart_channels st"
  "sys_fs (snd (fails_with e st)) = set_errno e (sys_fs st)"
  by (simp_all add: fails_with_def)

text \<open>A descriptor that is neither a file, nor the console, nor an open UART channel is
  refused with EBADF by close, read and write, and nothing but errno changes; file and
  UART descriptors never overlap.\<close>

theorem bad_fd_rejected:
  assumes "\<not> is_px4_file_fd fd" "\<not> uart_fd_is_valid (s_uart_channels st) fd"
  shows "sys_close env fd st = fails_with EBADF st \<and>
    (\<forall>buf len. sys_read env fd (Some buf) len st = Ret (- 1, buf, snd (fails_with EBADF st))) \<and>
    (\<forall>buf len. fd \<noteq> 1 \<longrightarrow> fd \<noteq> 2 \<longrightarrow> len \<le> int (length buf) \<longrightarrow>
       sys_write env fd (Some buf) len st = Ret (fails_with EBADF st)) \<and>
    (\<forall>fd'. uart_fd_is_valid (s_uart_channels st) fd' \<longrightarrow> \<not> is_px4_file_fd fd')"
  using assms
  by (auto simp: sys_close_def sys_read_def sys_write_def Let_def fails_with_def
      uart_fd_is_valid_def is_px4_file_fd_def split: if_splits)

text \<open>An environment for the examples: the world is the position in a file of ten
  bytes, read two bytes at a time.\<close>

definition demo_file :: bytes where "demo_file = [10, 11, 12, 13, 14, 15, 16, 17, 18, 19]"

definition demo_sys :: "nat sys_env" where
  "demo_sys = \<lparr>se_fs = down_env, px4_open = (\<lambda>p fl m f. (3, f)), px4_close = (\<lambda>fd f. (0, f)),
     px4_read = (\<lambda>fd n f. let k = min (min 2 n) (length (drop (fs_world f) demo_file))
                   in (int k, take k (drop (fs_world f) demo_file), set_world (fs_world f + k) f)),
     px4_write = (\<lambda>fd d f. (int (length d), f)),
     px4_lseek = (\<lambda>fd off wh f. let p = (if wh = SEEK_SET then off else if wh = SEEK_CUR then int (fs_world f) + off
                                          else 10 + off) in (p, set_world (nat p) f)),
     uart_get_info = (\<lambda>p. if p = dev_tty @ [0x31] then Some \<lparr>ui_channel = 1, ui_mode_8n1 = True, ui_default_baud = 57600\<rparr>
                         else None),
     uart_open_channel = (\<lambda>ch b m f. (0, set_world (set_bit ch (fs_world f)) f)),
     uart_close_channel = (\<lambda>ch f. (0, set_world (unset_bit ch (fs_world f)) f)),
     uart_set_baudrate_channel = (\<lambda>ch b f. (0, f)), uart_set_serial_mode_channel = (\<lambda>ch m f. (0, f)),
     uart_read = (\<lambda>ch n f. (0, [], f)), uart_write = (\<lambda>ch d f. (int (length d), f)),
     rtt_write = (\<lambda>d f. (int (length d), f)), stdout_hook = None, stdout_active = None,
     metadata_is_fd = (\<lambda>fd. fd \<ge> 5000 \<and> fd \<le> 5015), metadata_size = (\<lambda>fd. 88)\<rparr>"

definition demo_sys_state :: "nat sys_state" where "demo_sys_state = sys_boot (demo_fs 0)"

lemma world_set [simp]: "fs_world (set_world w f) = w"
  by (simp add: set_world_def)

lemma world_demo [simp]: "fs_world (demo_fs e) = 0"
  by (simp add: demo_fs_def)

theorem bad_fd_rejected_witness:
  "sys_close demo_sys 201 demo_sys_state = fails_with EBADF demo_sys_state"
  using bad_fd_rejected[of 201 demo_sys_state demo_sys]
  by (simp add: is_px4_file_fd_def uart_fd_is_valid_def demo_sys_state_def sys_boot_def uart_closed_def
      Let_def)

section \<open>Reading a file\<close>

text \<open>Each \<open>px4\<open>_\<close>read\<close> delivers some next bytes of the file, and none only at its end.\<close>

definition short_reads :: "'w sys_env \<Rightarrow> int \<Rightarrow> ('w fs_state \<Rightarrow> bytes) \<Rightarrow> bool" where
  "short_reads env fd rest \<longleftrightarrow> (\<forall>n f. 0 < n \<longrightarrow> (\<exists>k f'.
     px4_read env fd n f = (int k, take k (rest f), f') \<and> k \<le> n \<and> k \<le> length (rest f) \<and>
     rest f' = drop k (rest f) \<and> (k = 0 \<longrightarrow> rest f = [])))"

lemma overwrite_overwrite:
  "off + length d + length e \<le> length buf \<Longrightarrow>
   overwrite (off + length d) e (overwrite off d buf) = overwrite off (d @ e) buf"
  by (simp add: overwrite_def min_absorb2 ac_simps)

lemma read_loop_complete:
  assumes r: "short_reads env fd rest"
  shows "0 \<le> got \<Longrightarrow> got \<le> len \<Longrightarrow> len \<le> int (length buf) \<Longrightarrow>
    \<exists>st'. read_loop env fd len got buf st =
      Ret (got + int (min (nat (len - got)) (length (rest (sys_fs st)))),
           overwrite (nat got) (take (nat (len - got)) (rest (sys_fs st))) buf, st') \<and>
      rest (sys_fs st') = drop (nat (len - got)) (rest (sys_fs st)) \<and>
      s_uart_channels st' = s_uart_channels st"
proof (induction "nat (len - got)" arbitrary: got buf st rule: less_induct)
  case less
  show ?case
  proof (cases "got < len")
    case False
    then show ?thesis using less.prems by (simp add: read_loop.simps)
  next
    case True
    define n where "n = nat (len - got)"
    define R where "R = rest (sys_fs st)"
    have n: "0 < n" "int n = len - got" using True by (simp_all add: n_def)
    obtain k f' where k: "px4_read env fd n (sys_fs st) = (int k, take k R, f')" "k \<le> n" "k \<le> length R"
        "rest f' = drop k R" "k = 0 \<longrightarrow> R = []"
      using r n(1) unfolding short_reads_def R_def by blast
    have fit: "nat got + length (take k R) \<le> length buf" using k n less.prems by simp
    then have step: "read_loop env fd len got buf st =
        (if k = 0 then Ret (got, overwrite (nat got) (take k R) buf, st\<lparr>sys_fs := f'\<rparr>)
         else read_loop env fd len (got + int k) (overwrite (nat got) (take k R) buf) (st\<lparr>sys_fs := f'\<rparr>))"
      using True k(1) by (subst read_loop.simps) (simp add: n_def[symmetric] Let_def)
    show ?thesis
    proof (cases "k = 0")
      case True
      then show ?thesis using step k(4,5) by (simp add: R_def[symmetric])
    next
      case False
      let ?buf = "overwrite (nat got) (take k R) buf" and ?st = "st\<lparr>sys_fs := f'\<rparr>"
      have m: "nat (len - (got + int k)) = n - k" using n k(2) by simp
      have "nat (len - (got + int k)) < nat (len - got)" "0 \<le> got + int k" "got + int k \<le> len"
        "len \<le> int (length ?buf)" using False n k(2) less.prems fit by (auto simp: n_def)
      from less.hyps[OF this, of ?st] obtain st' where
        "read_loop env fd len (got + int k) ?buf ?st =
           Ret (got + int k + int (min (n - k) (length (drop k R))),
                overwrite (nat (got + int k)) (take (n - k) (drop k R)) ?buf, st')"
        "rest (sys_fs st') = drop (n - k) (drop k R)" "s_uart_channels st' = s_uart_channels st"
        by (auto simp: m k(4))
      moreover have "overwrite (nat (got + int k)) (take (n - k) (drop k R)) ?buf = overwrite (nat got) (take n R) buf"
      proof -
        have "take k R @ take (n - k) (drop k R) = take n R" using k(2) by (metis take_add le_add_diff_inverse)
        moreover have "nat (got + int k) = nat got + length (take k R)" using k(3) less.prems by simp
        moreover have "nat got + length (take k R) + length (take (n - k) (drop k R)) \<le> length buf"
          using n less.prems k by simp
        ultimately show ?thesis by (metis overwrite_overwrite)
      qed
      ultimately show ?thesis using False step k(2,3) n
        by (auto simp: R_def[symmetric] n_def[symmetric] min_def)
    qed
  qed
qed

text \<open>A read from a file descriptor returns all the bytes asked for, or all that are
  left, however short the pieces are that the remote file system delivers, and
  stores exactly those bytes at the start of the caller's buffer.\<close>

theorem read_completes:
  assumes "short_reads env fd rest" "is_px4_file_fd fd" "0 < len" "len \<le> int (length buf)"
  shows "\<exists>st'. sys_read env fd (Some buf) len st =
      Ret (int (min (nat len) (length (rest (sys_fs st)))),
           overwrite 0 (take (nat len) (rest (sys_fs st))) buf, st') \<and>
      rest (sys_fs st') = drop (nat len) (rest (sys_fs st))"
  using read_loop_complete[OF assms(1), of 0 len buf st] assms(2-4) by (auto simp: sys_read_def)

theorem read_completes_witness:
  "\<exists>st'. sys_read demo_sys 7 (Some (replicate 8 0)) 5 demo_sys_state = Ret (5, [10, 11, 12, 13, 14, 0, 0, 0], st')"
proof -
  have "short_reads demo_sys 7 (\<lambda>f. drop (fs_world f) demo_file)"
    unfolding short_reads_def
  proof (intro allI impI)
    fix n :: nat and f :: "nat fs_state"
    assume "0 < n"
    then show "\<exists>k f'. px4_read demo_sys 7 n f = (int k, take k (drop (fs_world f) demo_file), f') \<and> k \<le> n \<and>
        k \<le> length (drop (fs_world f) demo_file) \<and>
        drop (fs_world f') demo_file = drop k (drop (fs_world f) demo_file) \<and>
        (k = 0 \<longrightarrow> drop (fs_world f) demo_file = [])"
      by (intro exI[of _ "min (min 2 n) (length (drop (fs_world f) demo_file))"])
         (auto simp: demo_sys_def Let_def add.commute)
  qed
  from read_completes[OF this, of 5 "replicate 8 0" demo_sys_state] show ?thesis
    by (auto simp: is_px4_file_fd_def demo_sys_state_def sys_boot_def demo_file_def overwrite_def
        numeral_eq_Suc)
qed

section \<open>The size of an open file\<close>

text \<open>A descriptor with an offset: \<open>lseek\<close> moves it as its \<open>whence\<close> argument says.\<close>

definition seekable :: "'w sys_env \<Rightarrow> int \<Rightarrow> ('w fs_state \<Rightarrow> int) \<Rightarrow> int \<Rightarrow> bool" where
  "seekable env fd offset fsize \<longleftrightarrow> 0 \<le> fsize \<and> (\<forall>off f.
     (0 \<le> off \<longrightarrow> fst (px4_lseek env fd off SEEK_SET f) = off \<and> offset (snd (px4_lseek env fd off SEEK_SET f)) = off) \<and>
     fst (px4_lseek env fd 0 SEEK_CUR f) = offset f \<and> offset (snd (px4_lseek env fd 0 SEEK_CUR f)) = offset f \<and>
     fst (px4_lseek env fd 0 SEEK_END f) = fsize)"

text \<open>\<open>fstat\<close> on a remote file reports a regular file of the file's size, and leaves the
  offset of the descriptor where it was, although it seeks to the end to find the size.\<close>

theorem fstat_keeps_offset:
  assumes "seekable env fd offset fsize" "is_px4_file_fd fd" "\<not> metadata_is_fd env fd" "0 \<le> offset (sys_fs st)"
  shows "\<exists>st'. sys_fstat env fd (Some s0) st = (0, Some \<lparr>st_mode = 33206, st_size = fsize, st_mtime = 0\<rparr>, st') \<and>
    offset (sys_fs st') = offset (sys_fs st) \<and> s_uart_channels st' = s_uart_channels st"
  using assms unfolding seekable_def sys_fstat_def
  by (subst external_pair, subst external_pair, subst external_pair) (simp add: stat_zero_def)

theorem fstat_keeps_offset_witness:
  "\<exists>st'. sys_fstat demo_sys 4001 (Some stat_zero) demo_sys_state =
      (0, Some \<lparr>st_mode = 33206, st_size = 10, st_mtime = 0\<rparr>, st') \<and> fs_world (sys_fs st') = 0"
proof -
  have "seekable demo_sys 4001 (\<lambda>f. int (fs_world f)) 10"
    by (simp add: seekable_def demo_sys_def Let_def)
  moreover have "is_px4_file_fd 4001" "\<not> metadata_is_fd demo_sys 4001" by (simp_all add: is_px4_file_fd_def demo_sys_def)
  moreover have "fs_world (sys_fs demo_sys_state) = 0" by (simp add: demo_sys_state_def sys_boot_def)
  ultimately show ?thesis using fstat_keeps_offset[of demo_sys 4001 "\<lambda>f. int (fs_world f)" 10 demo_sys_state stat_zero] by auto
qed

section \<open>Reference counts of the UART channels\<close>

text \<open>The driver: \<open>up ch\<close> says whether the hardware channel is open.\<close>

definition uart_backend :: "'w sys_env \<Rightarrow> (nat \<Rightarrow> 'w fs_state \<Rightarrow> bool) \<Rightarrow> bool" where
  "uart_backend env up \<longleftrightarrow> (\<forall>f c ch.
     (\<forall>b m. up c (snd (uart_open_channel env ch b m f)) =
        (if fst (uart_open_channel env ch b m f) = 0 then c = ch \<or> up c f else up c f)) \<and>
     up c (snd (uart_close_channel env ch f)) = (c \<noteq> ch \<and> up c f) \<and>
     (\<forall>b. up c (snd (uart_set_baudrate_channel env ch b f)) = up c f) \<and>
     (\<forall>m. up c (snd (uart_set_serial_mode_channel env ch m f)) = up c f) \<and>
     (\<forall>n fl m. up c (snd (px4_open env n fl m f)) = up c f) \<and>
     (\<forall>fd. up c (snd (px4_close env fd f)) = up c f) \<and> (\<forall>e. up c (set_errno e f) = up c f))"

lemma uart_backendD:
  assumes "uart_backend env up"
  shows "up c (snd (uart_open_channel env ch b m f)) =
        (if fst (uart_open_channel env ch b m f) = 0 then c = ch \<or> up c f else up c f)"
    "up c (snd (uart_close_channel env ch f)) = (c \<noteq> ch \<and> up c f)"
    "up c (snd (uart_set_baudrate_channel env ch b f)) = up c f"
    "up c (snd (uart_set_serial_mode_channel env ch m f)) = up c f"
    "up c (snd (px4_open env nm fl md f)) = up c f"
    "up c (snd (px4_close env fd f)) = up c f" "up c (set_errno e f) = up c f"
  using assms unfolding uart_backend_def by blast+

datatype sys_op = Op_open "bytes option" int int | Op_close int

fun sys_step :: "'w sys_env \<Rightarrow> sys_op \<Rightarrow> 'w sys_state \<Rightarrow> int \<times> 'w sys_state" where
  "sys_step env (Op_open n fl m) st = sys_open env n fl m st"
| "sys_step env (Op_close fd) st = sys_close env fd st"

text \<open>The specification: how many handles of each channel the callers hold.\<close>

fun handle_step :: "'w sys_env \<Rightarrow> sys_op \<Rightarrow> int \<Rightarrow> (nat \<Rightarrow> nat) \<Rightarrow> nat \<Rightarrow> nat" where
  "handle_step env (Op_open n fl m) r h =
     (case uart_path_to_channel env n of
        Some (ch, _, _) \<Rightarrow> if r = UART_FD_BASE + int ch then h(ch := h ch + 1) else h
      | None \<Rightarrow> h)"
| "handle_step env (Op_close fd) r h =
     (if 200 \<le> fd \<and> fd < 204 then h(nat (fd - 200) := h (nat (fd - 200)) - 1) else h)"

fun sys_history :: "'w sys_env \<Rightarrow> sys_op list \<Rightarrow> (nat \<Rightarrow> nat) \<times> 'w sys_state \<Rightarrow> (nat \<Rightarrow> nat) \<times> 'w sys_state" where
  "sys_history env [] x = x"
| "sys_history env (op # ops) x =
     (case sys_step env op (snd x) of (r, st') \<Rightarrow> sys_history env ops (handle_step env op r (fst x), st'))"

definition uart_ok :: "(nat \<Rightarrow> 'w fs_state \<Rightarrow> bool) \<Rightarrow> (nat \<Rightarrow> nat) \<Rightarrow> 'w sys_state \<Rightarrow> bool" where
  "uart_ok up h st \<longleftrightarrow> length (s_uart_channels st) = 4 \<and>
     (\<forall>ch<4. unat (refcount (s_uart_channels st ! ch)) = h ch \<and> (up ch (sys_fs st) \<longleftrightarrow> 0 < h ch) \<and>
        uc_fd (s_uart_channels st ! ch) = (if 0 < h ch then UART_FD_BASE + int ch else - 1))"

lemma set_channel_simps [simp]:
  "s_uart_channels (set_channel ch s st) = (s_uart_channels st)[ch := s]" "sys_fs (set_channel ch s st) = sys_fs st"
  by (simp_all add: set_channel_def)

lemma reconfigure_spec:
  assumes "uart_reconfigure env ch m baud st = (s', st')"
  shows "uc_fd s' = uc_fd (s_uart_channels st ! ch)" "refcount s' = refcount (s_uart_channels st ! ch)"
    "s_uart_channels st' = s_uart_channels st"
proof -
  have "uc_fd (fst (uart_reconfigure env ch m baud st)) = uc_fd (s_uart_channels st ! ch)"
    "refcount (fst (uart_reconfigure env ch m baud st)) = refcount (s_uart_channels st ! ch)"
    "s_uart_channels (snd (uart_reconfigure env ch m baud st)) = s_uart_channels st"
    by (simp_all add: uart_reconfigure_def Let_def split_beta uart_set_rc_serial_mode_def)
  with assms show "uc_fd s' = uc_fd (s_uart_channels st ! ch)" "refcount s' = refcount (s_uart_channels st ! ch)"
    "s_uart_channels st' = s_uart_channels st" by simp_all
qed

lemma reconfigure_up:
  assumes "uart_backend env up" "uart_reconfigure env ch m baud st = (s', st')"
  shows "up c (sys_fs st') = up c (sys_fs st)"
proof -
  have "up c (sys_fs (snd (uart_reconfigure env ch m baud st))) = up c (sys_fs st)"
    by (simp add: uart_reconfigure_def Let_def split_beta uart_set_rc_serial_mode_def uart_backendD[OF assms(1)])
  with assms(2) show ?thesis by simp
qed

lemma first_open_spec:
  assumes "uart_backend env up" and e: "uart_first_open env ch m baud st = (r, st')"
  shows "(r = - 1 \<and> s_uart_channels st' = s_uart_channels st \<and>
      (\<forall>c. up c (sys_fs st') = up c (sys_fs st))) \<or>
    (r = UART_FD_BASE + int ch \<and> s_uart_channels st' = (s_uart_channels st)[ch :=
        \<lparr>uc_fd = UART_FD_BASE + int ch, refcount = 1, mode_8n1 = m, baudrate = baud\<rparr>] \<and>
      (\<forall>c. up c (sys_fs st') = (c = ch \<or> up c (sys_fs st))))"
proof -
  define st1 where "st1 = (if ch = 0 then uart_set_rc_serial_mode env m st else st)"
  have 1: "s_uart_channels st1 = s_uart_channels st" "up c (sys_fs st1) = up c (sys_fs st)" for c
    by (simp_all add: st1_def uart_set_rc_serial_mode_def uart_backendD[OF assms(1)])
  define st2 where "st2 = snd (external (uart_open_channel env ch baud m) st1)"
  let ?r = "fst (uart_open_channel env ch baud m (sys_fs st1))"
  have 2: "s_uart_channels st2 = s_uart_channels st"
    "up c (sys_fs st2) = (if ?r = 0 then c = ch \<or> up c (sys_fs st) else up c (sys_fs st))" for c
    by (simp_all add: st2_def 1 uart_backendD[OF assms(1)])
  have def: "uart_first_open env ch m baud st = (if ?r \<noteq> 0 then fails_with EIO st2
       else (UART_FD_BASE + int ch,
             set_channel ch \<lparr>uc_fd = UART_FD_BASE + int ch, refcount = 1, mode_8n1 = m, baudrate = baud\<rparr> st2))"
    unfolding uart_first_open_def Let_def st1_def[symmetric]
    by (simp add: external_fst st2_def split_beta)
  show ?thesis
  proof (cases "?r = 0")
    case True
    then have "r = UART_FD_BASE + int ch" "st' =
        set_channel ch \<lparr>uc_fd = UART_FD_BASE + int ch, refcount = 1, mode_8n1 = m, baudrate = baud\<rparr> st2"
      using e def by auto
    then show ?thesis using True by (simp add: 2)
  next
    case False
    then have "r = - 1" "st' = snd (fails_with EIO st2)" using e def by (simp_all add: fails_with_def)
    then show ?thesis using False by (simp add: 2 uart_backendD[OF assms(1)])
  qed
qed

text \<open>One system call keeps the table in step with the handles.\<close>

lemma uart_ok_update:
  assumes ok: "uart_ok up h st" and ch: "ch < 4"
    and chans: "s_uart_channels st' = (s_uart_channels st)[ch := s]"
    and s: "unat (refcount s) = n" "uc_fd s = (if 0 < n then UART_FD_BASE + int ch else - 1)"
    and up: "\<And>c. c < 4 \<Longrightarrow> up c (sys_fs st') = (if c = ch then 0 < n else up c (sys_fs st))"
  shows "uart_ok up (h(ch := n)) st'"
  using ok ch s by (auto simp: uart_ok_def chans up nth_update_if)

lemma uart_ok_same:
  assumes "uart_ok up h st" "s_uart_channels st' = s_uart_channels st"
    "\<And>c. up c (sys_fs st') = up c (sys_fs st)"
  shows "uart_ok up h st'"
  using assms by (simp add: uart_ok_def)

lemma path_channel: "uart_path_to_channel env n = Some (ch, m, baud) \<Longrightarrow> ch < 4"
  by (auto simp: uart_path_to_channel_def uart_channel_supported_def split: option.splits if_splits)

lemma unat_Suc16: "unat (w :: 16 word) < 65535 \<Longrightarrow> unat (w + 1) = unat w + 1"
  using unat_add_lem[of w 1] by simp

lemma open_ok:
  assumes b: "uart_backend env up" and ok: "uart_ok up h st" and lim: "\<And>ch. h ch < 65535"
    and e: "sys_open env n fl m st = (r, st')"
  shows "uart_ok up (handle_step env (Op_open n fl m) r h) st'"
proof (cases "uart_path_to_channel env n")
  case None
  then have "(r, st') = external (px4_open env n fl m) st" using e by (simp add: sys_open_def)
  then have "st' = snd (external (px4_open env n fl m) st)" by (metis snd_conv)
  then show ?thesis using None ok by (simp add: uart_ok_same uart_backendD[OF b])
next
  case (Some p)
  obtain ch md baud where p: "p = (ch, md, baud)" by (cases p)
  note path = Some[unfolded p] and ch = path_channel[OF Some[unfolded p]]
  from ok ch have at: "unat (refcount (s_uart_channels st ! ch)) = h ch" "up ch (sys_fs st) \<longleftrightarrow> 0 < h ch"
    "uc_fd (s_uart_channels st ! ch) = (if 0 < h ch then UART_FD_BASE + int ch else - 1)"
    by (auto simp: uart_ok_def)
  show ?thesis
  proof (cases "refcount (s_uart_channels st ! ch) > 0")
    case True
    then have pos: "0 < h ch" using at(1) by (metis word_greater_zero_iff unat_gt_0)
    obtain s1 st1 where s1: "uart_reconfigure env ch md baud st = (s1, st1)" by fastforce
    have r: "r = uc_fd s1" "st' = set_channel ch (s1\<lparr>refcount := refcount s1 + 1\<rparr>) st1"
      using e path ch True s1 by (simp_all add: sys_open_def uart_channel_supported_def uart_reopen_def)
    note sp = reconfigure_spec[OF s1]
    have "uart_ok up (h(ch := h ch + 1)) st'"
    proof (rule uart_ok_update[OF ok ch])
      show "s_uart_channels st' = (s_uart_channels st)[ch := s1\<lparr>refcount := refcount s1 + 1\<rparr>]"
        by (simp add: r sp)
      show "unat (refcount (s1\<lparr>refcount := refcount s1 + 1\<rparr>)) = h ch + 1"
        using lim[of ch] at(1) by (simp add: sp unat_Suc16)
      show "uc_fd (s1\<lparr>refcount := refcount s1 + 1\<rparr>) = (if 0 < h ch + 1 then UART_FD_BASE + int ch else - 1)"
        using at(3) pos by (simp add: sp)
      show "up c (sys_fs st') = (if c = ch then 0 < h ch + 1 else up c (sys_fs st))" if "c < 4" for c
        using reconfigure_up[OF b s1] at(2) pos by (simp add: r)
    qed
    then show ?thesis using path r sp at(3) pos by simp
  next
    case False
    then have e': "uart_first_open env ch md baud st = (r, st')"
      using e path ch by (simp add: sys_open_def uart_channel_supported_def)
    from False at(1) have h0: "h ch = 0" by (simp add: word_greater_zero_iff)
    from first_open_spec[OF b e'] show ?thesis
    proof
      assume *: "r = - 1 \<and> s_uart_channels st' = s_uart_channels st \<and> (\<forall>c. up c (sys_fs st') = up c (sys_fs st))"
      then show ?thesis using ok path by (simp add: uart_ok_same)
    next
      assume *: "r = UART_FD_BASE + int ch \<and> s_uart_channels st' = (s_uart_channels st)[ch :=
        \<lparr>uc_fd = UART_FD_BASE + int ch, refcount = 1, mode_8n1 = md, baudrate = baud\<rparr>] \<and>
        (\<forall>c. up c (sys_fs st') = (c = ch \<or> up c (sys_fs st)))"
      then have "uart_ok up (h(ch := 1)) st'"
        by (intro uart_ok_update[OF ok ch]) auto
      then show ?thesis using * path h0 by simp
    qed
  qed
qed

lemma close_ok:
  assumes b: "uart_backend env up" and ok: "uart_ok up h st" and e: "sys_close env fd st = (r, st')"
  shows "uart_ok up (handle_step env (Op_close fd) r h) st'"
proof (cases "is_px4_file_fd fd")
  case True
  then have "st' = snd (external (px4_close env fd) st)" using e by (metis sys_close_def snd_conv)
  moreover have "\<not> (200 \<le> fd \<and> fd < 204)" using True by (auto simp: is_px4_file_fd_def)
  ultimately show ?thesis using ok by (auto simp: uart_ok_same uart_backendD[OF b])
next
  case nofile: False
  show ?thesis
  proof (cases "uart_fd_is_valid (s_uart_channels st) fd")
    case False
    then have st': "st' = snd (fails_with EBADF st)" using e nofile by (simp add: sys_close_def)
    have "h (nat (fd - 200)) = 0" if "200 \<le> fd" "fd < 204"
    proof -
      have "nat (fd - 200) < 4" using that by simp
      moreover have "\<not> refcount (s_uart_channels st ! nat (fd - 200)) > 0"
        using False that by (simp add: uart_fd_is_valid_def Let_def)
      ultimately show ?thesis using ok by (auto simp: uart_ok_def word_greater_zero_iff)
    qed
    then have "handle_step env (Op_close fd) r h = h" by auto
    then show ?thesis using st' ok by (simp add: uart_ok_same uart_backendD[OF b])
  next
    case True
    define ch where "ch = nat (fd - 200)"
    define s where "s = s_uart_channels st ! ch"
    from True have fd: "200 \<le> fd" "fd < 204" and pos: "refcount s > 0"
      by (auto simp: uart_fd_is_valid_def Let_def ch_def s_def split: if_splits)
    then have ch: "ch < 4" by (simp add: ch_def)
    have at: "unat (refcount s) = h ch" "up ch (sys_fs st) \<longleftrightarrow> 0 < h ch"
      "uc_fd s = (if 0 < h ch then UART_FD_BASE + int ch else - 1)" using ok ch by (auto simp: uart_ok_def s_def)
    have h: "0 < h ch" using pos at(1) by (metis word_greater_zero_iff unat_gt_0)
    have dec: "unat (refcount s - 1) = h ch - 1"
      using pos at(1) by (simp add: unat_minus_one word_greater_zero_iff)
    have step: "handle_step env (Op_close fd) r h = h(ch := h ch - 1)" using fd by (simp add: ch_def)
    have e': "(r, st') = (if refcount s - 1 = 0 then
        (0, set_channel ch (s\<lparr>refcount := refcount s - 1, uc_fd := - 1, baudrate := 0, mode_8n1 := True\<rparr>)
              (snd (external (uart_close_channel env ch) st)))
        else (0, set_channel ch (s\<lparr>refcount := refcount s - 1\<rparr>) st))"
      using nofile True pos
      by (simp only: e[symmetric] sys_close_def uart_fd_to_channel_def ch_def[symmetric] s_def[symmetric] Let_def
          if_False if_True not_True_eq_False snd_conv simp_thms) simp
    show ?thesis unfolding step
    proof (cases "refcount s - 1 = 0")
      case True
      then have st': "st' = set_channel ch (s\<lparr>refcount := 0, uc_fd := - 1, baudrate := 0, mode_8n1 := True\<rparr>)
              (snd (external (uart_close_channel env ch) st))" using e' by simp
      have "h ch - 1 = 0" using True dec by simp
      then show "uart_ok up (h(ch := h ch - 1)) st'"
        by (intro uart_ok_update[OF ok ch, where s = "s\<lparr>refcount := 0, uc_fd := - 1, baudrate := 0, mode_8n1 := True\<rparr>"])
           (simp_all add: st' uart_backendD[OF b])
    next
      case False
      then have st': "st' = set_channel ch (s\<lparr>refcount := refcount s - 1\<rparr>) st" using e' by simp
      have "0 < h ch - 1" using False dec by (metis unat_gt_0)
      then show "uart_ok up (h(ch := h ch - 1)) st'"
        using at(2,3) dec by (intro uart_ok_update[OF ok ch, where s = "s\<lparr>refcount := refcount s - 1\<rparr>"]) (simp_all add: st')
    qed
  qed
qed

lemma handle_step_le: "handle_step env op r h c \<le> h c + 1"
  by (cases op) (auto split: option.splits)

lemma step_ok:
  assumes "uart_backend env up" "uart_ok up h st" "\<And>ch. h ch < 65535" "sys_step env op st = (r, st')"
  shows "uart_ok up (handle_step env op r h) st'"
  using assms(4) open_ok[OF assms(1-3)] close_ok[OF assms(1,2)] by (cases op) simp_all

lemma history_ok:
  assumes "uart_backend env up"
  shows "uart_ok up h st \<Longrightarrow> (\<And>ch. h ch + length ops \<le> 65535) \<Longrightarrow>
    uart_ok up (fst (sys_history env ops (h, st))) (snd (sys_history env ops (h, st)))"
proof (induction ops arbitrary: h st)
  case (Cons op ops)
  obtain r st' where st': "sys_step env op st = (r, st')" by fastforce
  have lim: "h ch < 65535" for ch using Cons.prems(2)[of ch] by simp
  have "handle_step env op r h ch + length ops \<le> 65535" for ch
    using Cons.prems(2)[of ch] handle_step_le[of env op r h ch] by simp
  from Cons.IH[OF step_ok[OF assms Cons.prems(1) lim st'] this] show ?case by (simp add: st')
qed simp


lemma demo_backend: "uart_backend demo_sys (\<lambda>ch f. bit (fs_world f) ch)"
  by (auto simp: uart_backend_def demo_sys_def set_errno_def bit_set_bit_iff bit_unset_bit_iff)

lemma demo_path: "uart_path_to_channel demo_sys (Some (dev_tty @ [0x31])) = Some (1, True, 57600)"
  by (simp add: uart_path_to_channel_def demo_sys_def uart_channel_supported_def)

lemma demo_open: "uart_open_channel demo_sys ch b m f = (0, set_world (set_bit ch (fs_world f)) f)"
  by (simp add: demo_sys_def)


text \<open>The count is a 16-bit integer: one more open of a channel that is open 65535 times
  sets it to zero. The open succeeds, but the descriptor it returns, which is the one
  that all the callers share, is invalid from then on, and the hardware channel is
  never closed by them.\<close>

theorem uart_refcount_wraps:
  assumes "uart_path_to_channel env n = Some (ch, m, baud)" "length (s_uart_channels st) = 4"
    "refcount (s_uart_channels st ! ch) = 65535" "uc_fd (s_uart_channels st ! ch) = UART_FD_BASE + int ch"
    "uart_backend env up" "sys_open env n fl md st = (r, st')"
  shows "r = UART_FD_BASE + int ch \<and> refcount (s_uart_channels st' ! ch) = 0 \<and>
    \<not> uart_fd_is_valid (s_uart_channels st') r \<and> sys_close env r st' = fails_with EBADF st' \<and>
    up ch (sys_fs st') = up ch (sys_fs st)"
proof -
  have ch: "ch < 4" by (rule path_channel[OF assms(1)])
  obtain s1 st1 where s1: "uart_reconfigure env ch m baud st = (s1, st1)" by fastforce
  note sp = reconfigure_spec[OF s1]
  have z: "(65536 :: 16 word) = 0" by code_simp
  have r: "r = UART_FD_BASE + int ch" "st' = set_channel ch (s1\<lparr>refcount := 0\<rparr>) st1"
    using assms(1,3,4,6) ch s1 by (auto simp: sys_open_def uart_channel_supported_def uart_reopen_def sp z)
  have "refcount (s_uart_channels st' ! ch) = 0" using r ch assms(2) by (simp add: sp)
  moreover from this have "\<not> uart_fd_is_valid (s_uart_channels st') r"
    by (simp add: uart_fd_is_valid_def r)
  moreover from this have "sys_close env r st' = fails_with EBADF st'"
    using r ch by (simp add: sys_close_def is_px4_file_fd_def)
  ultimately show ?thesis using r reconfigure_up[OF assms(5) s1] by simp
qed

definition full_channels :: "nat sys_state" where
  "full_channels = \<lparr>s_uart_channels = (replicate 4 uart_closed)[1 :=
     \<lparr>uc_fd = 201, refcount = 65535, mode_8n1 = True, baudrate = 57600\<rparr>], sys_fs = demo_fs 0\<rparr>"

theorem uart_refcount_wraps_witness:
  "\<exists>st'. snd (sys_open demo_sys (Some (dev_tty @ [0x31])) 2 0 full_channels) = st' \<and>
     refcount (s_uart_channels st' ! 1) = 0 \<and> sys_close demo_sys 201 st' = fails_with EBADF st'"
proof -
  obtain r st' where o: "sys_open demo_sys (Some (dev_tty @ [0x31])) 2 0 full_channels = (r, st')" by fastforce
  from uart_refcount_wraps[OF demo_path _ _ _ demo_backend o] o show ?thesis
    by (auto simp: full_channels_def)
qed

end
