(* ===== verification/Posix_Time.thy ===== *)
theory Posix_Time
  imports Prelude "HOL-Library.Signed_Division"
begin

text \<open>
  Time values of the FreeRTOS+POSIX layer (FreeRTOS\<open>_\<close>POSIX\<open>_\<close>utils.c and \<open>_\<close>clock.c under
  src/freertos\<open>_\<close>posix/source): comparison, addition and subtraction of timespecs, the
  conversion of an absolute deadline to a number of ticks, and the sleeping functions.
  The tick rate \<open>hz\<close> (\<open>configTICK\<open>_\<close>RATE\<open>_\<close>HZ\<close>, set in a file outside the repository) is a
  parameter; \<open>long\<close> and \<open>TickType\<open>_\<close>t\<close> have 32 bits, \<open>time\<open>_\<close>t\<close> and \<open>int64\<open>_\<close>t\<close> 64.
\<close>

section \<open>Machine arithmetic and the type\<close>

abbreviation (input) NANOSECONDS_PER_SECOND :: int where "NANOSECONDS_PER_SECOND \<equiv> 1000000000"

definition s32 :: "int \<Rightarrow> int" where "s32 x = signed_take_bit 31 x"
definition s64 :: "int \<Rightarrow> int" where "s64 x = signed_take_bit 63 x"

datatype timespec = Timespec (tv_sec: int) (tv_nsec: int)

text \<open>Timespecs are ordered by seconds, then by nanoseconds.\<close>

instantiation timespec :: linorder
begin

definition less_eq_timespec :: "timespec \<Rightarrow> timespec \<Rightarrow> bool" where
  "x \<le> y \<longleftrightarrow> tv_sec x < tv_sec y \<or> tv_sec x = tv_sec y \<and> tv_nsec x \<le> tv_nsec y"

definition less_timespec :: "timespec \<Rightarrow> timespec \<Rightarrow> bool" where
  "x < y \<longleftrightarrow> tv_sec x < tv_sec y \<or> tv_sec x = tv_sec y \<and> tv_nsec x < tv_nsec y"

instance
  by intro_classes (auto simp: less_eq_timespec_def less_timespec_def intro: timespec.expand)

end

section \<open>The utilities\<close>

text \<open>A NULL pointer is \<open>None\<close>; functions that write a result return its new contents.\<close>

definition UTILS_strnlen :: "bytes option \<Rightarrow> nat \<Rightarrow> nat" where
  "UTILS_strnlen s xMaxLength =
     (case s of None \<Rightarrow> 0 | Some bs \<Rightarrow> length (takeWhile (\<lambda>b. b \<noteq> 0) (take xMaxLength bs)))"

definition UTILS_ValidateTimespec :: "timespec option \<Rightarrow> bool" where
  "UTILS_ValidateTimespec t =
     (case t of None \<Rightarrow> False | Some x \<Rightarrow> 0 \<le> tv_nsec x \<and> tv_nsec x < NANOSECONDS_PER_SECOND)"

definition UTILS_TimespecCompare :: "timespec option \<Rightarrow> timespec option \<Rightarrow> int" where
  "UTILS_TimespecCompare x y =
    (case (x, y) of
       (None, None) \<Rightarrow> 0
     | (_, None) \<Rightarrow> 1
     | (None, _) \<Rightarrow> - 1
     | (Some a, Some b) \<Rightarrow>
         if tv_sec a > tv_sec b then 1
         else if tv_sec a < tv_sec b then - 1
         else if tv_nsec a > tv_nsec b then 1
         else if tv_nsec a < tv_nsec b then - 1 else 0)"

definition UTILS_TimespecAdd ::
  "timespec option \<Rightarrow> timespec option \<Rightarrow> timespec option \<Rightarrow> int \<times> timespec option"
where
  "UTILS_TimespecAdd x y result =
    (case (x, y, result) of
       (Some a, Some b, Some r) \<Rightarrow>
         let nsec = s32 (tv_nsec a + tv_nsec b) in
         if nsec < 0 then (1, Some (Timespec (tv_sec r) nsec))
         else let sec = s64 (tv_sec a + tv_sec b + nsec div NANOSECONDS_PER_SECOND) in
              (if sec < 0 then 1 else 0, Some (Timespec sec (nsec mod NANOSECONDS_PER_SECOND)))
     | _ \<Rightarrow> (- 1, result))"

definition UTILS_TimespecAddNanoseconds ::
  "timespec option \<Rightarrow> int \<Rightarrow> timespec option \<Rightarrow> int \<times> timespec option"
where
  "UTILS_TimespecAddNanoseconds x llNanoseconds result =
    (case (x, result) of
       (Some a, Some r) \<Rightarrow>
         let t = s64 (tv_nsec a + llNanoseconds) in
         if t < 0 then (1, Some r)
         else let sec = s64 (tv_sec a + t div NANOSECONDS_PER_SECOND) in
              (if sec < 0 then 1 else 0, Some (Timespec sec (t mod NANOSECONDS_PER_SECOND)))
     | _ \<Rightarrow> (- 1, result))"

definition UTILS_TimespecSubtract ::
  "timespec option \<Rightarrow> timespec option \<Rightarrow> timespec option \<Rightarrow> int \<times> timespec option"
where
  "UTILS_TimespecSubtract x y result =
    (case (x, y, result) of
       (Some a, Some b, Some r) \<Rightarrow>
         let c = UTILS_TimespecCompare x y in
         if c = - 1 then (1, result)
         else if c = 0 then (0, Some (Timespec 0 0))
         else let sec = s64 (tv_sec a - tv_sec b);
                  nsec = s32 (tv_nsec a - tv_nsec b);
                  (sec', nsec') = (if nsec < 0 then (sec - 1, nsec + NANOSECONDS_PER_SECOND) else (sec, nsec))
              in (if nsec' < 0 then - 1 else 0, Some (Timespec sec' nsec'))
     | _ \<Rightarrow> (- 1, result))"

text \<open>C division truncates towards zero.\<close>

definition UTILS_NanosecondsToTimespec :: "int \<Rightarrow> timespec" where
  "UTILS_NanosecondsToTimespec llSource =
    (let sec = llSource sdiv NANOSECONDS_PER_SECOND;
         nsec = llSource smod NANOSECONDS_PER_SECOND
     in if nsec < 0 then
          (let carry = nsec sdiv NANOSECONDS_PER_SECOND + 1
           in Timespec (sec - carry) (nsec + carry * NANOSECONDS_PER_SECOND))
        else Timespec sec nsec)"

definition NANOSECONDS_PER_TICK :: "int \<Rightarrow> int" where
  "NANOSECONDS_PER_TICK hz = NANOSECONDS_PER_SECOND div hz"

text \<open>The result pointers of the next two are given; \<open>old\<close> is what they point to.\<close>

definition UTILS_TimespecToTicks :: "int \<Rightarrow> timespec option \<Rightarrow> int \<Rightarrow> int \<times> int" where
  "UTILS_TimespecToTicks hz t old =
    (case t of None \<Rightarrow> (EINVAL, old) | Some x \<Rightarrow>
     if \<not> UTILS_ValidateTimespec t then (EINVAL, old)
     else let sec_ticks = s64 (hz * tv_sec x);
              nsec_ticks = tv_nsec x div NANOSECONDS_PER_TICK hz
                         + (if tv_nsec x mod NANOSECONDS_PER_TICK hz \<noteq> 0 then 1 else 0);
              ticks = s64 (sec_ticks + nsec_ticks)
          in (if ticks < 0 \<or> ticks > 4294967295 then EINVAL else 0, ticks mod 4294967296))"

definition UTILS_AbsoluteTimespecToDeltaTicks ::
  "int \<Rightarrow> timespec option \<Rightarrow> timespec option \<Rightarrow> int \<Rightarrow> int \<times> int"
where
  "UTILS_AbsoluteTimespecToDeltaTicks hz abstime now old =
    (case (abstime, now) of
       (Some a, Some n) \<Rightarrow>
         (case UTILS_TimespecSubtract (Some a) (Some n) (Some (Timespec 0 0)) of (st, diff) \<Rightarrow>
            if st = 1 then (ETIMEDOUT, old)
            else if st = - 1 then (EINVAL, old)
            else UTILS_TimespecToTicks hz diff old)
     | _ \<Rightarrow> (EINVAL, old))"

section \<open>Sleeping\<close>

text \<open>What the functions ask the kernel to do; the clock is a parameter, given by its
  answer (status and time).\<close>

datatype sleep_call = Task_delay int | Task_delay_until int

definition clock_getres :: "int \<Rightarrow> timespec" where
  "clock_getres hz = Timespec 0 (NANOSECONDS_PER_TICK hz)"

definition clock_nanosleep ::
  "int \<Rightarrow> bool \<Rightarrow> (int \<times> timespec) \<Rightarrow> (int \<times> timespec) \<Rightarrow> bool \<Rightarrow> timespec option \<Rightarrow> int \<times> sleep_call list"
where
  "clock_nanosleep hz delay_until_available clock1 clock2 absolute rqtp =
    (if \<not> UTILS_ValidateTimespec rqtp then (EINVAL, [])
     else if fst clock1 \<noteq> 0 then (EINVAL, [])
     else if absolute then
       (if fst clock2 \<noteq> 0 then (EINVAL, [])
        else case UTILS_AbsoluteTimespecToDeltaTicks hz rqtp (Some (snd clock2)) 0 of (st, ticks) \<Rightarrow>
          (0, if st \<noteq> 0 then [] else if delay_until_available then [Task_delay_until ticks] else [Task_delay ticks]))
     else case UTILS_TimespecToTicks hz rqtp 0 of (st, ticks) \<Rightarrow>
          (0, if st \<noteq> 0 then [] else [Task_delay ticks]))"

text \<open>The status, \<open>errno\<close> and the calls.\<close>

definition nanosleep :: "int \<Rightarrow> timespec option \<Rightarrow> int \<Rightarrow> int \<times> int \<times> sleep_call list" where
  "nanosleep hz rqtp errno =
    (if \<not> UTILS_ValidateTimespec rqtp then (- 1, EINVAL, [])
     else case UTILS_TimespecToTicks hz rqtp 0 of (st, ticks) \<Rightarrow>
          (0, errno, if st = 0 then [Task_delay ticks] else []))"

section \<open>Nanoseconds\<close>

text \<open>The length of time that a timespec stands for.\<close>

definition ns :: "timespec \<Rightarrow> int" where "ns t = tv_sec t * NANOSECONDS_PER_SECOND + tv_nsec t"

abbreviation valid_ts :: "timespec \<Rightarrow> bool" where "valid_ts t \<equiv> UTILS_ValidateTimespec (Some t)"

lemma valid_tsD: "valid_ts t \<Longrightarrow> 0 \<le> tv_nsec t" "valid_ts t \<Longrightarrow> tv_nsec t < NANOSECONDS_PER_SECOND"
  by (simp_all add: UTILS_ValidateTimespec_def)

lemma s32_id: "- 2147483648 \<le> x \<Longrightarrow> x < 2147483648 \<Longrightarrow> s32 x = x"
  by (simp add: s32_def signed_take_bit_int_eq_self)

lemma s64_id: "- 9223372036854775808 \<le> x \<Longrightarrow> x < 9223372036854775808 \<Longrightarrow> s64 x = x"
  by (simp add: s64_def signed_take_bit_int_eq_self)

lemma ns_le_iff: "valid_ts x \<Longrightarrow> valid_ts y \<Longrightarrow> ns x \<le> ns y \<longleftrightarrow> x \<le> y"
  by (auto simp: ns_def less_eq_timespec_def UTILS_ValidateTimespec_def)

lemma ns_eq_iff: "valid_ts x \<Longrightarrow> valid_ts y \<Longrightarrow> ns x = ns y \<longleftrightarrow> x = y"
  by (metis eq_iff ns_le_iff)

lemma ns_inj_sec: "valid_ts t \<Longrightarrow> tv_sec t = ns t div NANOSECONDS_PER_SECOND \<and> tv_nsec t = ns t mod NANOSECONDS_PER_SECOND"
  by (simp add: ns_def UTILS_ValidateTimespec_def)

section \<open>Arithmetic\<close>

lemma compare_order:
  "UTILS_TimespecCompare (Some a) (Some b) = (if a < b then - 1 else if a = b then 0 else 1)"
  by (cases a; cases b) (auto simp: UTILS_TimespecCompare_def less_timespec_def)

text \<open>Seconds far from the limits of \<open>time\<open>_\<close>t\<close>.\<close>

definition sec_ok :: "timespec \<Rightarrow> bool" where
  "sec_ok t \<longleftrightarrow> 0 \<le> tv_sec t \<and> tv_sec t < 4611686018427387904"

lemma add_ns:
  assumes "valid_ts a" "valid_ts b" "sec_ok a" "sec_ok b"
  shows "\<exists>r. UTILS_TimespecAdd (Some a) (Some b) (Some r0) = (0, Some r) \<and> valid_ts r \<and> ns r = ns a + ns b"
proof -
  let ?n = "tv_nsec a + tv_nsec b"
  have n: "0 \<le> ?n" "?n < 2000000000" using valid_tsD[OF assms(1)] valid_tsD[OF assms(2)] by auto
  have s: "s64 (tv_sec a + tv_sec b + ?n div NANOSECONDS_PER_SECOND) = tv_sec a + tv_sec b + ?n div NANOSECONDS_PER_SECOND"
    using assms(3,4) n by (intro s64_id) (auto simp: sec_ok_def)
  have "0 \<le> tv_sec a + tv_sec b + ?n div NANOSECONDS_PER_SECOND"
    using assms(3,4) n by (simp add: sec_ok_def pos_imp_zdiv_nonneg_iff)
  then have "UTILS_TimespecAdd (Some a) (Some b) (Some r0) = (0, Some (Timespec
      (tv_sec a + tv_sec b + ?n div NANOSECONDS_PER_SECOND) (?n mod NANOSECONDS_PER_SECOND)))"
    using n by (simp add: UTILS_TimespecAdd_def Let_def s32_id s)
  moreover have "ns (Timespec (tv_sec a + tv_sec b + ?n div NANOSECONDS_PER_SECOND) (?n mod NANOSECONDS_PER_SECOND)) = ns a + ns b"
    by (simp add: ns_def algebra_simps)
  ultimately show ?thesis by (auto simp: UTILS_ValidateTimespec_def)
qed

lemma div_mod_ns:
  fixes q r :: int
  assumes "x = q * NANOSECONDS_PER_SECOND + r" "0 \<le> r" "r < NANOSECONDS_PER_SECOND"
  shows "x div NANOSECONDS_PER_SECOND = q" "x mod NANOSECONDS_PER_SECOND = r"
  using assms by simp_all

lemma subtract_ns:
  assumes "valid_ts a" "valid_ts b" "sec_ok a" "sec_ok b"
  shows "UTILS_TimespecSubtract (Some a) (Some b) (Some r0) =
    (if a < b then (1, Some r0) else (0, Some (Timespec ((ns a - ns b) div NANOSECONDS_PER_SECOND)
       ((ns a - ns b) mod NANOSECONDS_PER_SECOND))))"
proof (cases "a \<le> b")
  case True
  then show ?thesis by (cases "a = b") (auto simp: UTILS_TimespecSubtract_def compare_order Let_def)
next
  case False
  let ?s = "tv_sec a - tv_sec b" and ?n = "tv_nsec a - tv_nsec b"
  note v = valid_tsD[OF assms(1)] valid_tsD[OF assms(2)]
  have e: "s64 ?s = ?s" "s32 ?n = ?n"
    using assms(3,4) v by (auto simp: sec_ok_def intro!: s64_id s32_id)
  have d: "ns a - ns b = ?s * NANOSECONDS_PER_SECOND + ?n" by (simp add: ns_def algebra_simps)
  show ?thesis
  proof (cases "?n < 0")
    case True
    have d': "ns a - ns b = (?s - 1) * NANOSECONDS_PER_SECOND + (?n + NANOSECONDS_PER_SECOND)" using d by simp
    have "(ns a - ns b) div NANOSECONDS_PER_SECOND = ?s - 1"
      "(ns a - ns b) mod NANOSECONDS_PER_SECOND = ?n + NANOSECONDS_PER_SECOND"
      using div_mod_ns[OF d'] True v by simp_all
    then show ?thesis using True False v e
      by (simp add: UTILS_TimespecSubtract_def compare_order Let_def not_le)
  next
    case nn: False
    then have "(ns a - ns b) div NANOSECONDS_PER_SECOND = ?s"
      "(ns a - ns b) mod NANOSECONDS_PER_SECOND = ?n"
      using div_mod_ns[OF d] v by simp_all
    then show ?thesis using nn False e
      by (simp add: UTILS_TimespecSubtract_def compare_order Let_def not_le)
  qed
qed

lemma split_ns: "valid_ts (Timespec (x div NANOSECONDS_PER_SECOND) (x mod NANOSECONDS_PER_SECOND))"
  "ns (Timespec (x div NANOSECONDS_PER_SECOND) (x mod NANOSECONDS_PER_SECOND)) = x"
  by (simp_all add: UTILS_ValidateTimespec_def ns_def)

lemma nanoseconds_ns: "valid_ts (UTILS_NanosecondsToTimespec x)" "ns (UTILS_NanosecondsToTimespec x) = x"
proof -
  have d: "x = x sdiv NANOSECONDS_PER_SECOND * NANOSECONDS_PER_SECOND + x smod NANOSECONDS_PER_SECOND"
    by (rule sdiv_mult_smod_eq[symmetric])
  have r: "\<bar>x smod NANOSECONDS_PER_SECOND\<bar> < NANOSECONDS_PER_SECOND"
    by (cases "0 \<le> x") (auto simp: signed_modulo_int_def signed_divide_int_def sgn_if minus_div_mult_eq_mod)
  define q where "q = x sdiv NANOSECONDS_PER_SECOND"
  define m where "m = x smod NANOSECONDS_PER_SECOND"
  have z: "m sdiv NANOSECONDS_PER_SECOND = 0" if "m < 0" "- NANOSECONDS_PER_SECOND < m"
    using that by (simp add: signed_divide_int_def sgn_if)
  have "UTILS_NanosecondsToTimespec x = (if m < 0 then Timespec (q - 1) (m + NANOSECONDS_PER_SECOND) else Timespec q m)"
    using r z by (simp add: UTILS_NanosecondsToTimespec_def Let_def m_def[symmetric] q_def[symmetric] abs_less_iff)
  moreover have "m < NANOSECONDS_PER_SECOND" "- NANOSECONDS_PER_SECOND < m" "x = q * NANOSECONDS_PER_SECOND + m"
    using d r unfolding m_def[symmetric] q_def[symmetric] by simp_all
  ultimately show "valid_ts (UTILS_NanosecondsToTimespec x)" "ns (UTILS_NanosecondsToTimespec x) = x"
    by (auto simp: UTILS_ValidateTimespec_def ns_def)
qed

text \<open>On valid time values whose seconds are far from the limits, comparison is the
  order of the lengths, a sum and a difference are the timespecs of the sum and the
  difference of the lengths (a difference that would be negative is refused), a sum
  can be subtracted again, and every number of nanoseconds, also a negative one, has a
  valid timespec.\<close>

theorem timespec_arithmetic:
  assumes "valid_ts a" "valid_ts b" "sec_ok a" "sec_ok b"
  shows "UTILS_TimespecCompare (Some a) (Some b) = sgn (ns a - ns b) \<and>
    (\<exists>r. UTILS_TimespecAdd (Some a) (Some b) (Some r0) = (0, Some r) \<and> valid_ts r \<and> ns r = ns a + ns b \<and>
      (sec_ok r \<longrightarrow> UTILS_TimespecSubtract (Some r) (Some b) (Some r0) = (0, Some a))) \<and>
    (ns b \<le> ns a \<longrightarrow> (\<exists>r. UTILS_TimespecSubtract (Some a) (Some b) (Some r0) = (0, Some r) \<and>
      valid_ts r \<and> ns r = ns a - ns b)) \<and>
    (ns a < ns b \<longrightarrow> UTILS_TimespecSubtract (Some a) (Some b) (Some r0) = (1, Some r0)) \<and>
    valid_ts (UTILS_NanosecondsToTimespec x) \<and> ns (UTILS_NanosecondsToTimespec x) = x"
proof -
  note le = ns_le_iff[OF assms(1,2)] and eq = ns_eq_iff[OF assms(1,2)]
  have cmp: "UTILS_TimespecCompare (Some a) (Some b) = sgn (ns a - ns b)"
    using le eq by (auto simp: compare_order sgn_if not_le)
  obtain r where r: "UTILS_TimespecAdd (Some a) (Some b) (Some r0) = (0, Some r)" "valid_ts r" "ns r = ns a + ns b"
    using add_ns[OF assms] by blast
  have inverse: "UTILS_TimespecSubtract (Some r) (Some b) (Some r0) = (0, Some a)" if "sec_ok r"
  proof -
    have "0 \<le> ns a" using assms(1,3) by (simp add: ns_def sec_ok_def valid_tsD)
    then have "\<not> r < b" using ns_le_iff[OF assms(2) r(2)] r(3) by (simp add: not_less)
    moreover have "Timespec (ns a div NANOSECONDS_PER_SECOND) (ns a mod NANOSECONDS_PER_SECOND) = a"
      using ns_inj_sec[OF assms(1)] by (cases a) simp
    ultimately show ?thesis using subtract_ns[OF r(2) assms(2) that assms(4)] r(3) by simp
  qed
  have sub: "UTILS_TimespecSubtract (Some a) (Some b) (Some r0) = (if ns a < ns b then (1, Some r0)
      else (0, Some (Timespec ((ns a - ns b) div NANOSECONDS_PER_SECOND) ((ns a - ns b) mod NANOSECONDS_PER_SECOND))))"
    using subtract_ns[OF assms] ns_le_iff[OF assms(2,1)] by (simp add: not_le[symmetric])
  show ?thesis using cmp r inverse sub split_ns nanoseconds_ns by auto
qed

theorem timespec_arithmetic_witness:
  "UTILS_TimespecCompare (Some (Timespec 5 1)) (Some (Timespec 4 999999999)) = 1 \<and>
   ns (UTILS_NanosecondsToTimespec (- 1)) = - 1"
  using timespec_arithmetic[of "Timespec 5 1" "Timespec 4 999999999" "Timespec 0 0" "- 1"]
  by (simp add: UTILS_ValidateTimespec_def sec_ok_def ns_def)

section \<open>Deadlines in ticks\<close>

definition ticks_of :: "int \<Rightarrow> int \<Rightarrow> int" where
  "ticks_of hz d = hz * (d div NANOSECONDS_PER_SECOND) +
     (d mod NANOSECONDS_PER_SECOND + NANOSECONDS_PER_TICK hz - 1) div NANOSECONDS_PER_TICK hz"

lemma tick_pos: "0 < hz \<Longrightarrow> hz \<le> NANOSECONDS_PER_SECOND \<Longrightarrow> 0 < NANOSECONDS_PER_TICK hz"
  by (simp add: NANOSECONDS_PER_TICK_def pos_imp_zdiv_pos_iff)

lemma ceil_div:
  fixes n p :: int
  assumes "0 < p"
  shows "n div p + (if n mod p \<noteq> 0 then 1 else 0) = (n + p - 1) div p"
proof (cases "n mod p = 0")
  case True
  then have "n + p - 1 = n div p * p + (p - 1)" using mult_div_mod_eq[of p n] by (simp add: mult.commute)
  then have "(n + p - 1) div p = n div p" using assms by (simp only: div_mult_self3) simp
  then show ?thesis using True by simp
next
  case False
  have "0 \<le> n mod p" "n mod p < p" using assms by simp_all
  then have m: "0 < n mod p" "n mod p < p" using False by linarith+
  have "n + p - 1 = (n div p + 1) * p + (n mod p - 1)"
    using mult_div_mod_eq[of p n] by (simp add: algebra_simps)
  then have "(n + p - 1) div p = n div p + 1 + (n mod p - 1) div p"
    using assms by (simp only: div_mult_self3)
  then show ?thesis using False m by simp
qed

lemma ceil_bounds:
  fixes r p :: int
  assumes "0 < p" "0 \<le> r"
  shows "r \<le> (r + p - 1) div p * p" "((r + p - 1) div p - 1) * p < r" "0 \<le> (r + p - 1) div p"
proof -
  have e: "(r + p - 1) div p * p + (r + p - 1) mod p = r + p - 1" by (rule div_mult_mod_eq)
  have m: "0 \<le> (r + p - 1) mod p" "(r + p - 1) mod p < p" using assms by simp_all
  from e m show "r \<le> (r + p - 1) div p * p" by linarith
  from e m show "((r + p - 1) div p - 1) * p < r" unfolding left_diff_distrib mult_1 by linarith
  show "0 \<le> (r + p - 1) div p" using assms by (simp add: pos_imp_zdiv_nonneg_iff)
qed

text \<open>\<open>ticks_of\<close> ticks are never shorter than the time, and less than a tick longer when
  a tick is a whole number of nanoseconds.\<close>

lemma ticks_of_bounds:
  assumes "0 < hz" "hz \<le> NANOSECONDS_PER_SECOND" "0 \<le> d"
  shows "d * hz \<le> ticks_of hz d * NANOSECONDS_PER_SECOND"
    "hz dvd NANOSECONDS_PER_SECOND \<Longrightarrow> (ticks_of hz d - 1) * NANOSECONDS_PER_SECOND < d * hz"
    "0 \<le> ticks_of hz d"
proof -
  let ?p = "NANOSECONDS_PER_TICK hz" and ?q = "d div NANOSECONDS_PER_SECOND" and ?r = "d mod NANOSECONDS_PER_SECOND"
  define c where "c = (?r + ?p - 1) div ?p"
  note p = tick_pos[OF assms(1,2)]
  have cb: "?r \<le> c * ?p" "(c - 1) * ?p < ?r" "0 \<le> c"
    using ceil_bounds[OF p, of ?r] by (simp_all add: c_def)
  have t: "ticks_of hz d = hz * ?q + c" by (simp add: ticks_of_def c_def)
  have d: "d = ?q * NANOSECONDS_PER_SECOND + ?r" by simp
  have hp: "hz * ?p \<le> NANOSECONDS_PER_SECOND"
    unfolding NANOSECONDS_PER_TICK_def
    using mult_div_mod_eq[of hz NANOSECONDS_PER_SECOND] pos_mod_sign[OF assms(1), of NANOSECONDS_PER_SECOND] by linarith
  have "hz * ?r \<le> hz * (c * ?p)" using cb(1) assms(1) by simp
  also have "\<dots> = c * (hz * ?p)" by (simp add: ac_simps)
  also have "\<dots> \<le> c * NANOSECONDS_PER_SECOND" using hp cb(3) by (intro mult_left_mono) simp_all
  finally have "hz * ?r \<le> c * NANOSECONDS_PER_SECOND" .
  moreover have dh: "d * hz = hz * ?q * NANOSECONDS_PER_SECOND + hz * ?r"
    by (subst (1) d) (simp only: algebra_simps)
  ultimately show "d * hz \<le> ticks_of hz d * NANOSECONDS_PER_SECOND"
    unfolding t distrib_right by linarith
  show "(ticks_of hz d - 1) * NANOSECONDS_PER_SECOND < d * hz" if dv: "hz dvd NANOSECONDS_PER_SECOND"
  proof -
    have "hz * ?p = NANOSECONDS_PER_SECOND" using dv by (simp add: NANOSECONDS_PER_TICK_def)
    moreover have "hz * ((c - 1) * ?p) < hz * ?r" using cb(2) assms(1) by simp
    ultimately have "(c - 1) * NANOSECONDS_PER_SECOND < hz * ?r"
      by (metis mult.assoc mult.commute)
    then show ?thesis unfolding t dh by (simp add: algebra_simps)
  qed
  show "0 \<le> ticks_of hz d" unfolding t using assms cb(3)
    by (simp add: pos_imp_zdiv_nonneg_iff)
qed

lemma to_ticks:
  assumes hz: "0 < hz" "hz \<le> NANOSECONDS_PER_SECOND" and v: "valid_ts t"
    and s: "0 \<le> tv_sec t" "tv_sec t < 4294967296"
  shows "UTILS_TimespecToTicks hz (Some t) old =
    (if ticks_of hz (ns t) < 4294967296 then 0 else EINVAL, ticks_of hz (ns t) mod 4294967296)"
proof -
  define c where "c = (tv_nsec t + NANOSECONDS_PER_TICK hz - 1) div NANOSECONDS_PER_TICK hz"
  note p = tick_pos[OF hz] and vd = valid_tsD[OF v]
  have sn: "ns t div NANOSECONDS_PER_SECOND = tv_sec t" "ns t mod NANOSECONDS_PER_SECOND = tv_nsec t"
    using ns_inj_sec[OF v] by simp_all
  have t: "ticks_of hz (ns t) = hz * tv_sec t + c" by (simp add: ticks_of_def sn c_def)
  have cb: "0 \<le> c" "c \<le> 1000000000"
  proof -
    have "(c - 1) * NANOSECONDS_PER_TICK hz < tv_nsec t" "0 \<le> c"
      using ceil_bounds[OF p vd(1)] by (simp_all add: c_def)
    moreover have "c - 1 \<le> (c - 1) * NANOSECONDS_PER_TICK hz \<or> c = 0" using p \<open>0 \<le> c\<close> mult_left_mono[of 1 "NANOSECONDS_PER_TICK hz" "c - 1"] by (cases "c = 0") auto
    ultimately show "0 \<le> c" "c \<le> 1000000000" using vd by auto
  qed
  have h: "0 \<le> hz * tv_sec t" "hz * tv_sec t \<le> 1000000000 * 4294967296"
    using hz s mult_mono[of hz 1000000000 "tv_sec t" 4294967296] by simp_all
  then have "s64 (hz * tv_sec t) = hz * tv_sec t" "s64 (hz * tv_sec t + c) = hz * tv_sec t + c"
    using cb by (auto intro!: s64_id)
  then show ?thesis using v h cb
    by (auto simp: UTILS_TimespecToTicks_def Let_def ceil_div[OF p] t c_def[symmetric])
qed

lemma abs_ticks:
  assumes "0 < hz" "hz \<le> NANOSECONDS_PER_SECOND" "valid_ts a" "valid_ts n"
    "0 \<le> tv_sec a" "tv_sec a < 4294967296" "0 \<le> tv_sec n" "tv_sec n < 4294967296"
  shows "UTILS_AbsoluteTimespecToDeltaTicks hz (Some a) (Some n) old =
    (if ns a < ns n then (ETIMEDOUT, old)
     else if ticks_of hz (ns a - ns n) < 4294967296 then (0, ticks_of hz (ns a - ns n))
     else (EINVAL, ticks_of hz (ns a - ns n) mod 4294967296))"
proof -
  let ?d = "ns a - ns n"
  have ok: "sec_ok a" "sec_ok n" using assms by (simp_all add: sec_ok_def)
  have sub: "UTILS_TimespecSubtract (Some a) (Some n) (Some (Timespec 0 0)) = (if ns a < ns n then (1, Some (Timespec 0 0))
      else (0, Some (Timespec (?d div NANOSECONDS_PER_SECOND) (?d mod NANOSECONDS_PER_SECOND))))"
    using subtract_ns[OF assms(3,4) ok] ns_le_iff[OF assms(4,3)] by (simp add: not_le[symmetric])
  show ?thesis
  proof (cases "ns a < ns n")
    case True
    then show ?thesis using sub by (simp add: UTILS_AbsoluteTimespecToDeltaTicks_def)
  next
    case False
    let ?t = "Timespec (?d div NANOSECONDS_PER_SECOND) (?d mod NANOSECONDS_PER_SECOND)"
    have "ns a < 4294967296 * NANOSECONDS_PER_SECOND" "0 \<le> ns n"
      using assms valid_tsD[OF assms(3)] valid_tsD[OF assms(4)] by (simp_all add: ns_def)
    moreover have "?d div NANOSECONDS_PER_SECOND * NANOSECONDS_PER_SECOND + ?d mod NANOSECONDS_PER_SECOND = ?d" "0 \<le> ?d mod NANOSECONDS_PER_SECOND"
      by simp_all
    ultimately have "tv_sec ?t < 4294967296" "0 \<le> tv_sec ?t" using False
      by (simp_all add: pos_imp_zdiv_nonneg_iff)
    then have tt: "UTILS_TimespecToTicks hz (Some ?t) old =
        (if ticks_of hz ?d < 4294967296 then 0 else EINVAL, ticks_of hz ?d mod 4294967296)"
      using to_ticks[OF assms(1,2) split_ns(1)] by (simp add: split_ns(2))
    have "UTILS_AbsoluteTimespecToDeltaTicks hz (Some a) (Some n) old =
        (if ticks_of hz ?d < 4294967296 then (0, ticks_of hz ?d) else (EINVAL, ticks_of hz ?d mod 4294967296))"
      using sub False tt ticks_of_bounds(3)[OF assms(1,2), of ?d]
      by (simp add: UTILS_AbsoluteTimespecToDeltaTicks_def)
    then show ?thesis using False by simp
  qed
qed

text \<open>A deadline that lies ahead is converted to a number of ticks that is never too
  small, so a wait cannot time out early, and less than one tick too large when the
  tick rate divides a second; a deadline in the past gives ETIMEDOUT and one that is
  more than 2^32 - 1 ticks ahead EINVAL.\<close>

theorem deadline_ticks:
  assumes "0 < hz" "hz \<le> NANOSECONDS_PER_SECOND" "valid_ts a" "valid_ts n"
    "0 \<le> tv_sec a" "tv_sec a < 4294967296" "0 \<le> tv_sec n" "tv_sec n < 4294967296"
  shows "if ns a < ns n then UTILS_AbsoluteTimespecToDeltaTicks hz (Some a) (Some n) old = (ETIMEDOUT, old)
    else \<exists>t. (ns a - ns n) * hz \<le> t * NANOSECONDS_PER_SECOND \<and>
      (hz dvd NANOSECONDS_PER_SECOND \<longrightarrow> (t - 1) * NANOSECONDS_PER_SECOND < (ns a - ns n) * hz) \<and>
      UTILS_AbsoluteTimespecToDeltaTicks hz (Some a) (Some n) old =
        (if t < 4294967296 then (0, t) else (EINVAL, t mod 4294967296))"
proof (cases "ns a < ns n")
  case False
  then show ?thesis using abs_ticks[OF assms, of old] ticks_of_bounds[OF assms(1,2), of "ns a - ns n"] by auto
qed (use abs_ticks[OF assms, of old] in simp)

theorem deadline_ticks_witness:
  "UTILS_AbsoluteTimespecToDeltaTicks 1000 (Some (Timespec 3 500001)) (Some (Timespec 2 0)) 0 = (0, 1001)"
proof -
  obtain t where t: "1000500001 * 1000 \<le> t * 1000000000" "(t - 1) * 1000000000 < 1000500001 * 1000"
    "UTILS_AbsoluteTimespecToDeltaTicks 1000 (Some (Timespec 3 500001)) (Some (Timespec 2 0)) 0 =
       (if t < 4294967296 then (0, t) else (EINVAL, t mod 4294967296))"
    using deadline_ticks[of 1000 "Timespec 3 500001" "Timespec 2 0" 0]
    by (auto simp: UTILS_ValidateTimespec_def ns_def)
  have "\<not> t \<le> 1000" using t(1) by linarith
  moreover have "\<not> 1002 \<le> t" using t(2) unfolding left_diff_distrib by linarith
  ultimately have "t = 1001" by linarith
  with t(3) show ?thesis by simp
qed

text \<open>\<open>nanosleep\<close> refuses invalid times with EINVAL and otherwise delays for at least the
  time asked for; but a time of 2^32 ticks or more is reported as slept although the
  kernel is not asked to delay at all.\<close>

theorem nanosleep_contract:
  assumes "0 < hz" "hz \<le> NANOSECONDS_PER_SECOND"
  shows "(\<not> valid_ts t \<longrightarrow> nanosleep hz (Some t) e = (- 1, EINVAL, [])) \<and>
    (valid_ts t \<longrightarrow> 0 \<le> tv_sec t \<longrightarrow> tv_sec t < 4294967296 \<longrightarrow>
      (\<exists>d. ns t * hz \<le> d * NANOSECONDS_PER_SECOND \<and>
        (hz dvd NANOSECONDS_PER_SECOND \<longrightarrow> (d - 1) * NANOSECONDS_PER_SECOND < ns t * hz) \<and>
        nanosleep hz (Some t) e = (0, e, if d < 4294967296 then [Task_delay d] else [])))"
proof (intro conjI impI)
  assume t: "valid_ts t" "0 \<le> tv_sec t" "tv_sec t < 4294967296"
  have d: "0 \<le> ns t" using t valid_tsD[OF t(1)] by (simp add: ns_def)
  note b = ticks_of_bounds[OF assms d]
  have "nanosleep hz (Some t) e = (0, e, if ticks_of hz (ns t) < 4294967296 then [Task_delay (ticks_of hz (ns t))] else [])"
    using t b(3) to_ticks[OF assms t] by (simp add: nanosleep_def)
  then show "\<exists>d. ns t * hz \<le> d * NANOSECONDS_PER_SECOND \<and>
        (hz dvd NANOSECONDS_PER_SECOND \<longrightarrow> (d - 1) * NANOSECONDS_PER_SECOND < ns t * hz) \<and>
        nanosleep hz (Some t) e = (0, e, if d < 4294967296 then [Task_delay d] else [])"
    using b by blast
qed (simp add: nanosleep_def)

theorem nanosleep_contract_witness:
  "nanosleep 1000 (Some (Timespec 4294968 0)) 7 = (0, 7, [])"
proof -
  obtain d where d: "4294968000000000 * 1000 \<le> d * 1000000000"
    "nanosleep 1000 (Some (Timespec 4294968 0)) 7 = (0, 7, if d < 4294967296 then [Task_delay d] else [])"
    using nanosleep_contract[of 1000 "Timespec 4294968 0" 7]
    by (auto simp: UTILS_ValidateTimespec_def ns_def)
  from d(1) have "\<not> d < 4294967296" by linarith
  with d(2) show ?thesis by simp
qed

end
