(* ===== verification/Posix_Sem.thy ===== *)
theory Posix_Sem
  imports Posix_Time
begin

text \<open>
  POSIX semaphores (FreeRTOS\<open>_\<close>POSIX\<open>_\<close>semaphore.c): an atomic counter in front of a kernel
  counting semaphore, which only queues the threads that found the counter used up.
  The kernel semaphore is a parameter with its documented behaviour as a named
  hypothesis; threads interleave at the atomic accesses and kernel calls.
\<close>

section \<open>Data and atomic accesses\<close>

abbreviation (input) SEM_VALUE_MAX :: nat where "SEM_VALUE_MAX \<equiv> 32767"
abbreviation (input) portMAX_DELAY :: int where "portMAX_DELAY \<equiv> 4294967295"

record 'k sem =
  xSemaphore :: 'k
  sem_value :: "32 word"

text \<open>The kernel: creation with a maximum and an initial count, giving, and the moment
  at which a take succeeds or finds nothing.\<close>

record 'k sem_kernel =
  sk_create :: "nat \<Rightarrow> nat \<Rightarrow> 'k"
  sk_give :: "'k \<Rightarrow> 'k"
  sk_acquire :: "'k \<Rightarrow> 'k option"

definition Atomic_Increment :: "'k sem \<Rightarrow> int \<times> 'k sem" where
  "Atomic_Increment s = (sint (sem_value s), s\<lparr>sem_value := sem_value s + 1\<rparr>)"

definition Atomic_Decrement :: "'k sem \<Rightarrow> int \<times> 'k sem" where
  "Atomic_Decrement s = (sint (sem_value s), s\<lparr>sem_value := sem_value s - 1\<rparr>)"

section \<open>The functions\<close>

text \<open>Status, \<open>errno\<close> and the new object.\<close>

definition sem_init :: "'k sem_kernel \<Rightarrow> 32 word \<Rightarrow> int \<Rightarrow> 'k sem \<Rightarrow> int \<times> int \<times> 'k sem" where
  "sem_init ks value errno s =
    (if unat value > SEM_VALUE_MAX then (- 1, EINVAL, s\<lparr>sem_value := value\<rparr>)
     else (0, errno, s\<lparr>sem_value := value, xSemaphore := sk_create ks SEM_VALUE_MAX 0\<rparr>))"

definition sem_destroy :: "'k sem option \<Rightarrow> int \<Rightarrow> int \<times> int \<times> 'k sem option" where
  "sem_destroy sem errno =
    (case sem of None \<Rightarrow> (- 1, EINVAL, None)
     | Some s \<Rightarrow> if sint (sem_value s) < 0 then (- 1, EBUSY, Some s) else (0, errno, Some (s\<lparr>sem_value := 0\<rparr>)))"

definition sem_getvalue :: "'k sem \<Rightarrow> int" where
  "sem_getvalue s = sint (sem_value s)"

definition sem_post :: "'k sem_kernel \<Rightarrow> 'k sem \<Rightarrow> 'k sem" where
  "sem_post ks s =
    (case Atomic_Increment s of (iPreviousValue, s1) \<Rightarrow>
       if iPreviousValue < 0 then s1\<lparr>xSemaphore := sk_give ks (xSemaphore s1)\<rparr> else s1)"

text \<open>The status and the delay that \<open>sem\<open>_\<close>timedwait\<close> computes from its argument;
  \<open>clock\<close> is the answer of \<open>clock\<open>_\<close>gettime\<close>.\<close>

definition sem_delay :: "int \<Rightarrow> int \<times> timespec \<Rightarrow> timespec option \<Rightarrow> int \<times> int" where
  "sem_delay hz clock abstime =
    (case abstime of None \<Rightarrow> (0, portMAX_DELAY) | Some t \<Rightarrow>
     if \<not> UTILS_ValidateTimespec (Some t) then (EINVAL, 0)
     else case (if fst clock \<noteq> 0 then (EINVAL, portMAX_DELAY)
                else UTILS_AbsoluteTimespecToDeltaTicks hz (Some t) (Some (snd clock)) portMAX_DELAY) of
       (st, d) \<Rightarrow> if st = ETIMEDOUT then (st, 0) else (st, d))"

text \<open>\<open>xSemaphoreTake\<close> with a delay returns whether it took a unit, and the semaphore as
  this thread and the others have left it by then.\<close>

definition sem_timedwait ::
  "int \<Rightarrow> int \<times> timespec \<Rightarrow> (int \<Rightarrow> 'k sem \<Rightarrow> bool \<times> 'k sem) \<Rightarrow> timespec option \<Rightarrow> int \<Rightarrow> 'k sem
   \<Rightarrow> int \<times> int \<times> 'k sem"
where
  "sem_timedwait hz clock ktake abstime errno s =
    (case sem_delay hz clock abstime of (st, delay) \<Rightarrow>
     case Atomic_Decrement s of (iPreviousValue, s1) \<Rightarrow>
       if iPreviousValue > 0 then (0, errno, s1)
       else case ktake delay s1 of (taken, s2) \<Rightarrow>
         if \<not> taken then (- 1, if st = 0 then ETIMEDOUT else st, s2) else (0, errno, s2))"

definition sem_trywait ::
  "int \<Rightarrow> int \<times> timespec \<Rightarrow> (int \<Rightarrow> 'k sem \<Rightarrow> bool \<times> 'k sem) \<Rightarrow> int \<Rightarrow> 'k sem \<Rightarrow> int \<times> int \<times> 'k sem"
where
  "sem_trywait hz clock ktake errno s =
    (case sem_timedwait hz clock ktake (Some (Timespec 0 0)) errno s of (st, e, s') \<Rightarrow>
       (st, if st = - 1 \<and> e = ETIMEDOUT then EAGAIN else e, s'))"

definition sem_wait ::
  "int \<Rightarrow> int \<times> timespec \<Rightarrow> (int \<Rightarrow> 'k sem \<Rightarrow> bool \<times> 'k sem) \<Rightarrow> int \<Rightarrow> 'k sem \<Rightarrow> int \<times> int \<times> 'k sem"
where
  "sem_wait hz clock ktake errno s = sem_timedwait hz clock ktake None errno s"

section \<open>Interleaved threads\<close>

text \<open>A thread in \<open>sem\<open>_\<close>timedwait\<close> is between its atomic decrement and the end of the kernel
  take while it is in \<open>blocked\<close>.\<close>

record 'k sem_sys =
  the_sem :: "'k sem"
  blocked :: "nat set"

datatype sem_event = Posted | Acquired nat | Entered nat | Expired nat

inductive sem_step :: "'k sem_kernel \<Rightarrow> 'k sem_sys \<Rightarrow> sem_event \<Rightarrow> 'k sem_sys \<Rightarrow> bool"
  for ks
where
  step_post: "sem_step ks S Posted (S\<lparr>the_sem := sem_post ks (the_sem S)\<rparr>)"
| step_fast: "t \<notin> blocked S \<Longrightarrow> Atomic_Decrement (the_sem S) = (prev, s1) \<Longrightarrow> 0 < prev \<Longrightarrow>
    sem_step ks S (Acquired t) (S\<lparr>the_sem := s1\<rparr>)"
| step_enter: "t \<notin> blocked S \<Longrightarrow> Atomic_Decrement (the_sem S) = (prev, s1) \<Longrightarrow> \<not> 0 < prev \<Longrightarrow>
    sem_step ks S (Entered t) (S\<lparr>the_sem := s1, blocked := insert t (blocked S)\<rparr>)"
| step_wake: "t \<in> blocked S \<Longrightarrow> sk_acquire ks (xSemaphore (the_sem S)) = Some k \<Longrightarrow>
    sem_step ks S (Acquired t) (S\<lparr>the_sem := (the_sem S)\<lparr>xSemaphore := k\<rparr>, blocked := blocked S - {t}\<rparr>)"
| step_expire: "t \<in> blocked S \<Longrightarrow> sk_acquire ks (xSemaphore (the_sem S)) = None \<Longrightarrow>
    sem_step ks S (Expired t) (S\<lparr>blocked := blocked S - {t}\<rparr>)"

inductive_cases sem_stepE: "sem_step ks S ev T"

text \<open>The documented behaviour of a kernel counting semaphore with a maximum; \<open>cnt\<close> is its
  count.\<close>

definition counting_upto :: "nat \<Rightarrow> 'k sem_kernel \<Rightarrow> ('k \<Rightarrow> nat) \<Rightarrow> bool" where
  "counting_upto M ks cnt \<longleftrightarrow>
    (\<forall>i\<le>M. cnt (sk_create ks M i) = i) \<and>
    (\<forall>k. cnt (sk_give ks k) = min (cnt k + 1) M) \<and>
    (\<forall>k. sk_acquire ks k = None \<longleftrightarrow> cnt k = 0) \<and>
    (\<forall>k k'. sk_acquire ks k = Some k' \<longrightarrow> cnt k' = cnt k - 1)"

abbreviation counting_kernel :: "'k sem_kernel \<Rightarrow> ('k \<Rightarrow> nat) \<Rightarrow> bool" where
  "counting_kernel \<equiv> counting_upto SEM_VALUE_MAX"

text \<open>The units that the semaphore holds: those in the counter and those in the kernel.\<close>

definition sem_units :: "('k \<Rightarrow> nat) \<Rightarrow> 'k sem \<Rightarrow> nat" where
  "sem_units cnt s = cnt (xSemaphore s) + nat (sint (sem_value s))"

text \<open>Runs in which the callers never post beyond \<open>SEM\<open>_\<close>VALUE\<open>_\<close>MAX\<close> units.\<close>

inductive sem_run :: "'k sem_kernel \<Rightarrow> ('k \<Rightarrow> nat) \<Rightarrow> 'k sem_sys \<Rightarrow> sem_event list \<Rightarrow> 'k sem_sys \<Rightarrow> bool"
  for ks cnt S
where
  run_nil: "sem_run ks cnt S [] S"
| run_snoc: "sem_run ks cnt S ls T \<Longrightarrow> sem_step ks T ev U \<Longrightarrow>
    (ev = Posted \<longrightarrow> sem_units cnt (the_sem T) < SEM_VALUE_MAX) \<Longrightarrow> sem_run ks cnt S (ls @ [ev]) U"

section \<open>The invariant\<close>

text \<open>With units in the counter, the kernel holds one for every blocked thread; without,
  the counter is at most the kernel's count less the blocked threads.\<close>

definition sem_ok :: "('k \<Rightarrow> nat) \<Rightarrow> 'k sem_sys \<Rightarrow> bool" where
  "sem_ok cnt S \<longleftrightarrow> finite (blocked S) \<and>
    (let v = sint (sem_value (the_sem S)); k = int (cnt (xSemaphore (the_sem S))); b = int (card (blocked S))
     in if 0 < v then b \<le> k else v \<le> k - b)"

definition in_range :: "'k sem \<Rightarrow> bool" where
  "in_range s \<longleftrightarrow> - 2147483648 < sint (sem_value s) \<and> sint (sem_value s) < 2147483647"

lemma counting_kernelD:
  assumes "counting_upto M ks cnt"
  shows "i \<le> M \<Longrightarrow> cnt (sk_create ks M i) = i"
    "cnt (sk_give ks k) = min (cnt k + 1) M" "sk_acquire ks k = None \<longleftrightarrow> cnt k = 0"
    "sk_acquire ks k = Some k' \<Longrightarrow> cnt k' = cnt k - 1 \<and> 0 < cnt k"
  using assms unfolding counting_upto_def by (auto, metis gr0I option.distinct(1))

lemma post_units:
  assumes "counting_kernel ks cnt" "in_range s" "sem_units cnt s < SEM_VALUE_MAX"
  shows "sem_units cnt (sem_post ks s) = sem_units cnt s + 1"
    "sint (sem_value (sem_post ks s)) = sint (sem_value s) + 1"
    "cnt (xSemaphore (sem_post ks s)) = cnt (xSemaphore s) + (if sint (sem_value s) < 0 then 1 else 0)"
proof -
  have i: "sint (sem_value s + 1) = sint (sem_value s) + 1"
    using assms(2) by (intro sint_plus_one) (simp add: in_range_def)
  show "sint (sem_value (sem_post ks s)) = sint (sem_value s) + 1"
    "cnt (xSemaphore (sem_post ks s)) = cnt (xSemaphore s) + (if sint (sem_value s) < 0 then 1 else 0)"
    "sem_units cnt (sem_post ks s) = sem_units cnt s + 1"
    using assms(3) counting_kernelD(2)[OF assms(1)] i
    by (auto simp: sem_post_def Atomic_Increment_def sem_units_def nat_add_distrib)
qed

lemma decrement_value:
  assumes "in_range s" "Atomic_Decrement s = (prev, s1)"
  shows "prev = sint (sem_value s)" "sint (sem_value s1) = prev - 1" "xSemaphore s1 = xSemaphore s"
  using assms sint_minus_one[of "sem_value s"] by (auto simp: Atomic_Decrement_def in_range_def)

text \<open>How the units change with a step.\<close>

fun unit_change :: "sem_event \<Rightarrow> int" where
  "unit_change Posted = 1"
| "unit_change (Acquired t) = - 1"
| "unit_change _ = 0"

lemma sem_step_ok:
  assumes ks: "counting_kernel ks cnt" and step: "sem_step ks S ev T" and ok: "sem_ok cnt S"
    and r: "in_range (the_sem S)" and lim: "ev = Posted \<longrightarrow> sem_units cnt (the_sem S) < SEM_VALUE_MAX"
  shows "sem_ok cnt T" and "int (sem_units cnt (the_sem T)) = int (sem_units cnt (the_sem S)) + unit_change ev"
    and "sint (sem_value (the_sem S)) - 1 \<le> sint (sem_value (the_sem T))"
proof -
  have "sem_ok cnt T \<and> int (sem_units cnt (the_sem T)) = int (sem_units cnt (the_sem S)) + unit_change ev \<and>
      sint (sem_value (the_sem S)) - 1 \<le> sint (sem_value (the_sem T))"
    using step
  proof cases
    case step_post
    then show ?thesis using ok lim post_units[OF ks r]
      by (auto simp: sem_ok_def Let_def split: if_splits)
  next
    case (step_fast t prev s1)
    then show ?thesis using ok decrement_value[OF r step_fast(4)]
      by (auto simp: sem_ok_def Let_def sem_units_def split: if_splits)
  next
    case (step_enter t prev s1)
    then show ?thesis using ok decrement_value[OF r step_enter(4)]
      by (auto simp: sem_ok_def Let_def sem_units_def split: if_splits)
  next
    case (step_wake t k)
    then have c: "0 < card (blocked S)" using ok by (auto simp: sem_ok_def card_gt_0_iff)
    show ?thesis using step_wake ok counting_kernelD(4)[OF ks step_wake(4)] c
      by (auto simp: sem_ok_def Let_def sem_units_def card_Diff_singleton of_nat_diff split: if_splits)
  next
    case (step_expire t)
    then have c: "0 < card (blocked S)" using ok by (auto simp: sem_ok_def card_gt_0_iff)
    show ?thesis using step_expire ok c
      by (auto simp: sem_ok_def Let_def sem_units_def card_Diff_singleton of_nat_diff split: if_splits)
  qed
  then show "sem_ok cnt T" and "int (sem_units cnt (the_sem T)) = int (sem_units cnt (the_sem S)) + unit_change ev"
    and "sint (sem_value (the_sem S)) - 1 \<le> sint (sem_value (the_sem T))" by blast+
qed

fun is_acquired :: "sem_event \<Rightarrow> bool" where
  "is_acquired (Acquired t) = True"
| "is_acquired _ = False"

lemma run_ok:
  assumes ks: "counting_kernel ks cnt" and run: "sem_run ks cnt S ls T"
    and ok: "sem_ok cnt S" "0 \<le> sint (sem_value (the_sem S))" "sem_units cnt (the_sem S) \<le> SEM_VALUE_MAX"
  shows "length ls < 2147483647 \<Longrightarrow> sem_ok cnt T \<and> sem_units cnt (the_sem T) \<le> SEM_VALUE_MAX \<and>
    - int (length ls) \<le> sint (sem_value (the_sem T)) \<and>
    sem_units cnt (the_sem T) + count_if is_acquired ls = sem_units cnt (the_sem S) + count_if (\<lambda>e. e = Posted) ls"
  using run
proof (induction rule: sem_run.induct)
  case run_nil
  then show ?case using ok by simp
next
  case (run_snoc ls T ev U)
  then have T: "sem_ok cnt T" "sem_units cnt (the_sem T) \<le> SEM_VALUE_MAX"
    "- int (length ls) \<le> sint (sem_value (the_sem T))"
    "sem_units cnt (the_sem T) + count_if is_acquired ls = sem_units cnt (the_sem S) + count_if (\<lambda>e. e = Posted) ls"
    by simp_all
  have r: "in_range (the_sem T)" using T(2,3) run_snoc.prems by (simp add: in_range_def sem_units_def)
  note st = sem_step_ok[OF ks run_snoc.hyps(2) T(1) r run_snoc.hyps(3)]
  have "sem_units cnt (the_sem U) \<le> SEM_VALUE_MAX"
    using st(2) T(2) run_snoc.hyps(3) by (cases ev) auto
  then show ?case using st T(3,4) by (cases ev) auto
qed

definition sem_start :: "'k sem_kernel \<Rightarrow> nat \<Rightarrow> 'k sem_sys" where
  "sem_start ks n = \<lparr>the_sem = \<lparr>xSemaphore = sk_create ks SEM_VALUE_MAX 0, sem_value = of_nat n\<rparr>, blocked = {}\<rparr>"

lemma sint_of_nat_small: "n < 2147483648 \<Longrightarrow> sint (of_nat n :: 32 word) = int n"
  by (simp add: signed_of_nat signed_take_bit_int_eq_self)

lemma start_ok:
  assumes "counting_kernel ks cnt" "n \<le> SEM_VALUE_MAX"
  shows "sem_ok cnt (sem_start ks n)" "sem_units cnt (the_sem (sem_start ks n)) = n"
    "0 \<le> sint (sem_value (the_sem (sem_start ks n)))"
  using assms counting_kernelD(1)[OF assms(1), of 0]
  by (simp_all add: sem_ok_def sem_start_def sem_units_def sint_of_nat_small)

text \<open>A semaphore of initial value \<open>n\<close> hands out exactly its units: in every interleaving
  of posts, waits, wake-ups and time-outs, what it still holds and what was acquired
  add up to \<open>n\<close> and the posts, so that no more than these are ever acquired.\<close>

theorem sem_units_conserved:
  assumes "counting_kernel ks cnt" "n \<le> SEM_VALUE_MAX" "sem_run ks cnt (sem_start ks n) ls T"
    "length ls < 2147483647"
  shows "sem_units cnt (the_sem T) + count_if is_acquired ls = n + count_if (\<lambda>e. e = Posted) ls"
  using run_ok[OF assms(1,3) start_ok(1)[OF assms(1,2)]] start_ok[OF assms(1,2)] assms(2,4) by simp

text \<open>A kernel semaphore that is its own count.\<close>

definition count_kernel :: "nat \<Rightarrow> nat sem_kernel" where
  "count_kernel M = \<lparr>sk_create = (\<lambda>mx i. i), sk_give = (\<lambda>k. min (k + 1) M),
     sk_acquire = (\<lambda>k. if k = 0 then None else Some (k - 1))\<rparr>"

lemma count_kernel_counts: "counting_upto M (count_kernel M) (\<lambda>k. k)"
  by (auto simp: counting_upto_def count_kernel_def split: if_splits)

text \<open>Two threads on a semaphore of value 1: the first gets it, the second blocks.\<close>

definition demo_blocked :: "nat sem_sys" where
  "demo_blocked = \<lparr>the_sem = \<lparr>xSemaphore = 0, sem_value = - 1\<rparr>, blocked = {2}\<rparr>"

lemma demo_run: "sem_run (count_kernel SEM_VALUE_MAX) (\<lambda>k. k) (sem_start (count_kernel SEM_VALUE_MAX) 1) [Acquired 1, Entered 2] demo_blocked"
proof -
  let ?S = "sem_start (count_kernel SEM_VALUE_MAX) 1" and ?T = "\<lparr>the_sem = \<lparr>xSemaphore = 0, sem_value = 0\<rparr>, blocked = {}\<rparr> :: nat sem_sys"
  have "sem_step (count_kernel SEM_VALUE_MAX) ?S (Acquired 1) (?S\<lparr>the_sem := the_sem ?T\<rparr>)"
    by (rule step_fast[where prev = 1]) (simp_all add: sem_start_def Atomic_Decrement_def count_kernel_def)
  then have 1: "sem_step (count_kernel SEM_VALUE_MAX) ?S (Acquired 1) ?T" by (simp add: sem_start_def)
  have "sem_step (count_kernel SEM_VALUE_MAX) ?T (Entered 2) (?T\<lparr>the_sem := the_sem demo_blocked, blocked := insert 2 (blocked ?T)\<rparr>)"
    by (rule step_enter[where prev = 0]) (simp_all add: demo_blocked_def Atomic_Decrement_def)
  then have 2: "sem_step (count_kernel SEM_VALUE_MAX) ?T (Entered 2) demo_blocked" by (simp add: demo_blocked_def)
  show ?thesis using run_snoc[OF run_snoc[OF run_nil 1] 2] by simp
qed

theorem sem_units_conserved_witness:
  "sem_units (\<lambda>k. k) (the_sem demo_blocked) + count_if is_acquired [Acquired 1, Entered 2] =
     1 + count_if (\<lambda>e. e = Posted) [Acquired 1, Entered 2]"
  using sem_units_conserved[OF count_kernel_counts _ demo_run] by simp


lemma demo_run_post:
  "sem_run (count_kernel SEM_VALUE_MAX) (\<lambda>k. k) (sem_start (count_kernel SEM_VALUE_MAX) 1) [Acquired 1, Entered 2, Posted]
     (demo_blocked\<lparr>the_sem := \<lparr>xSemaphore = 1, sem_value = 0\<rparr>\<rparr>)"
proof -
  have "sem_post (count_kernel SEM_VALUE_MAX) (the_sem demo_blocked) = \<lparr>xSemaphore = 1, sem_value = 0\<rparr>"
    by (simp add: sem_post_def Atomic_Increment_def demo_blocked_def count_kernel_def)
  then have "sem_step (count_kernel SEM_VALUE_MAX) demo_blocked Posted (demo_blocked\<lparr>the_sem := \<lparr>xSemaphore = 1, sem_value = 0\<rparr>\<rparr>)"
    using step_post[of "count_kernel SEM_VALUE_MAX" demo_blocked] by simp
  from run_snoc[OF demo_run this] show ?thesis by (simp add: sem_units_def demo_blocked_def)
qed


section \<open>A single thread\<close>

text \<open>A take without delay by a thread that runs alone.\<close>

definition kernel_try :: "'k sem_kernel \<Rightarrow> int \<Rightarrow> 'k sem \<Rightarrow> bool \<times> 'k sem" where
  "kernel_try ks delay s =
    (case sk_acquire ks (xSemaphore s) of Some k \<Rightarrow> (True, s\<lparr>xSemaphore := k\<rparr>) | None \<Rightarrow> (False, s))"

lemma trywait_delay:
  assumes "valid_ts now" "0 \<le> tv_sec now"
  shows "sem_delay hz (0, now) (Some (Timespec 0 0)) = (0, 0) \<or>
    sem_delay hz (0, now) (Some (Timespec 0 0)) = (ETIMEDOUT, 0)"
proof (cases "now = Timespec 0 0")
  case True
  then show ?thesis
    by (simp add: sem_delay_def UTILS_ValidateTimespec_def UTILS_AbsoluteTimespecToDeltaTicks_def
        UTILS_TimespecSubtract_def compare_order UTILS_TimespecToTicks_def s64_def)
next
  case False
  have "Timespec 0 0 < now" using False assms valid_tsD(1)[OF assms(1)]
    by (cases now) (auto simp: less_timespec_def)
  then show ?thesis
    by (simp add: sem_delay_def UTILS_ValidateTimespec_def UTILS_AbsoluteTimespecToDeltaTicks_def
        UTILS_TimespecSubtract_def compare_order)
qed

text \<open>\<open>sem\<open>_\<close>trywait\<close> of a thread that runs alone takes a unit exactly when there is one and
  reports EAGAIN otherwise. But a failed attempt still lowers the counter: a
  semaphore at zero that nobody waits on reads -1 afterwards, and \<open>sem\<open>_\<close>destroy\<close> then
  refuses it with EBUSY.\<close>

theorem sem_trywait_result:
  assumes ks: "counting_kernel ks cnt" and r: "in_range s" and now: "valid_ts now" "0 \<le> tv_sec now"
    and e: "sem_trywait hz (0, now) (kernel_try ks) e0 s = (st, e, s')"
  shows "(0 < sem_units cnt s \<longrightarrow> st = 0 \<and> e = e0 \<and> sem_units cnt s' = sem_units cnt s - 1) \<and>
    (sem_units cnt s = 0 \<longrightarrow> st = - 1 \<and> e = EAGAIN \<and> sem_units cnt s' = 0 \<and>
      sem_getvalue s' = sem_getvalue s - 1 \<and> sem_destroy (Some s') e = (- 1, EBUSY, Some s'))"
proof -
  obtain prev s1 where d: "Atomic_Decrement s = (prev, s1)" by fastforce
  note v = decrement_value[OF r d]
  have out: "st = (if 0 < prev \<or> fst (kernel_try ks 0 s1) then 0 else - 1)"
    "e = (if 0 < prev \<or> fst (kernel_try ks 0 s1) then e0 else EAGAIN) \<or> st = 0"
    "s' = (if 0 < prev then s1 else snd (kernel_try ks 0 s1))" "st = 0 \<longrightarrow> e = e0"
    using e trywait_delay[OF now, of hz] d
    by (auto simp: sem_trywait_def sem_timedwait_def split: prod.splits if_splits)
  show ?thesis
  proof (cases "0 < prev")
    case True
    then show ?thesis using out v by (auto simp: sem_units_def)
  next
    case False
    then have u: "sem_units cnt s = cnt (xSemaphore s)" using v(1) by (simp add: sem_units_def)
    show ?thesis
    proof (cases "sk_acquire ks (xSemaphore s)")
      case None
      then have "kernel_try ks 0 s1 = (False, s1)" by (simp add: kernel_try_def v)
      then show ?thesis using False out u None counting_kernelD(3)[OF ks] v
        by (simp add: sem_units_def sem_getvalue_def sem_destroy_def)
    next
      case (Some k)
      then have "kernel_try ks 0 s1 = (True, s1\<lparr>xSemaphore := k\<rparr>)" by (simp add: kernel_try_def v)
      then show ?thesis using False out u counting_kernelD(4)[OF ks Some] v
        by (simp add: sem_units_def)
    qed
  qed
qed

theorem sem_trywait_result_witness:
  "\<exists>s'. sem_trywait 1000 (0, Timespec 5 0) (kernel_try (count_kernel SEM_VALUE_MAX)) 0 \<lparr>xSemaphore = 0, sem_value = 0\<rparr> =
      (- 1, EAGAIN, s') \<and> sem_getvalue s' = - 1 \<and> sem_destroy (Some s') EAGAIN = (- 1, EBUSY, Some s')"
proof -
  let ?s = "\<lparr>xSemaphore = 0, sem_value = 0\<rparr> :: nat sem"
  obtain st e s' where t: "sem_trywait 1000 (0, Timespec 5 0) (kernel_try (count_kernel SEM_VALUE_MAX)) 0 ?s = (st, e, s')"
    using prod_cases3 by blast
  have "in_range ?s" "valid_ts (Timespec 5 0)" "sem_units (\<lambda>k. k) ?s = 0" "sem_getvalue ?s = 0"
    by (simp_all add: in_range_def UTILS_ValidateTimespec_def sem_units_def sem_getvalue_def)
  with sem_trywait_result[OF count_kernel_counts _ _ _ t] t show ?thesis by auto
qed

end
