(* ===== verification/Posix_Mq.thy ===== *)
theory Posix_Mq
  imports Posix_Sem Logger_Fds
begin

text \<open>
  POSIX message queues (FreeRTOS\<open>_\<close>POSIX\<open>_\<close>mqueue.c): a list of named queues with
  counts of open descriptors, each over a kernel queue of message blocks.  The kernel
  queue and the memory allocator are parameters.  Every operation holds the list mutex
  while it works on the list and is modelled as a step of its own; a thread that
  deletes a queue while another one waits on it is outside the model.
\<close>

section \<open>State\<close>

abbreviation (input) NAME_MAX :: nat where "NAME_MAX \<equiv> 64"
abbreviation (input) posixconfigMQ_MAX_MESSAGES :: int where "posixconfigMQ_MAX_MESSAGES \<equiv> 10"
abbreviation (input) posixconfigMQ_MAX_SIZE :: int where "posixconfigMQ_MAX_SIZE \<equiv> 128"

definition O_EXCL :: "32 word" where "O_EXCL = 0x0008"
definition O_NONBLOCK :: "32 word" where "O_NONBLOCK = 0x0400"

record mq_attr =
  mq_flags :: "32 word"
  mq_maxmsg :: int
  mq_msgsize :: int
  mq_curmsgs :: int

text \<open>A descriptor is the address of the list element.\<close>

record 'q mqueue =
  mq_id :: int
  xQueue :: 'q
  xOpenDescriptors :: nat
  pcName :: bytes
  xAttr :: mq_attr
  xPendingUnlink :: bool

record 'q mq_state =
  mq_list :: "'q mqueue list"
  mq_errno :: int

text \<open>The kernel queue: send and receive with a delay in ticks, and the number of waiting
  messages.\<close>

record 'q queue_kernel =
  qk_send :: "int \<Rightarrow> bytes \<Rightarrow> 'q \<Rightarrow> bool \<times> 'q"
  qk_receive :: "int \<Rightarrow> 'q \<Rightarrow> bytes option \<times> 'q"
  qk_waiting :: "'q \<Rightarrow> nat"

definition mq_fail :: "int \<Rightarrow> 'q mq_state \<Rightarrow> int \<times> 'q mq_state" where
  "mq_fail e st = (- 1, st\<lparr>mq_errno := e\<rparr>)"

section \<open>Helpers of the code\<close>

definition prvCalculateTickTimeout ::
  "int \<Rightarrow> int \<times> timespec \<Rightarrow> 32 word \<Rightarrow> timespec option \<Rightarrow> int \<times> int"
where
  "prvCalculateTickTimeout hz clock flags abstime =
    (if flags AND O_NONBLOCK \<noteq> 0 then (0, 0)
     else case abstime of None \<Rightarrow> (0, portMAX_DELAY) | Some t \<Rightarrow>
       if \<not> UTILS_ValidateTimespec (Some t) then (EINVAL, 0)
       else if fst clock \<noteq> 0 then (EINVAL, 0)
       else case UTILS_AbsoluteTimespecToDeltaTicks hz (Some t) (Some (snd clock)) 0 of (st, ticks) \<Rightarrow>
         (if st \<noteq> 0 then ETIMEDOUT else 0, ticks))"

definition prvFindQueueInList :: "bytes option \<Rightarrow> int \<Rightarrow> 'q mqueue list \<Rightarrow> nat option" where
  "prvFindQueueInList name d qs =
     find_index (\<lambda>q. if name \<noteq> None \<and> name = Some (pcName q) then True else mq_id q = d) qs"

definition prvValidateQueueName :: "bytes \<Rightarrow> nat option" where
  "prvValidateQueueName name =
     (if name = [] \<or> hd name \<noteq> 0x2F then None
      else let n = UTILS_strnlen (Some name) (NAME_MAX + 2) in if n = NAME_MAX + 2 then None else Some n)"

text \<open>The three allocations of a new queue: the element, the kernel queue, the name.\<close>

record 'q mq_alloc =
  al_element :: "int option"
  al_queue :: "int \<Rightarrow> 'q option"
  al_name :: bool

definition prvCreateNewMessageQueue :: "'q mq_alloc \<Rightarrow> mq_attr \<Rightarrow> bytes \<Rightarrow> 'q mqueue list \<Rightarrow> (int \<times> 'q mqueue list) option" where
  "prvCreateNewMessageQueue al attr name qs =
    (case al_element al of None \<Rightarrow> None | Some a \<Rightarrow>
     (case al_queue al (mq_maxmsg attr) of None \<Rightarrow> None | Some k \<Rightarrow>
      if \<not> al_name al then None
      else Some (a, \<lparr>mq_id = a, xQueue = k, xOpenDescriptors = 1, pcName = name, xAttr = attr,
                    xPendingUnlink = False\<rparr> # qs)))"

text \<open>\<open>listREMOVE\<close>, and \<open>prvDeleteMessageQueue\<close> for the removed element.\<close>

definition list_remove :: "nat \<Rightarrow> 'a list \<Rightarrow> 'a list" where
  "list_remove i xs = take i xs @ drop (Suc i) xs"

section \<open>Operations\<close>

definition mq_close :: "int \<Rightarrow> 'q mq_state \<Rightarrow> int \<times> 'q mq_state" where
  "mq_close d st =
    (case prvFindQueueInList None d (mq_list st) of
       None \<Rightarrow> mq_fail EBADF st
     | Some i \<Rightarrow>
        (let q = mq_list st ! i;
             q1 = (if 0 < xOpenDescriptors q then q\<lparr>xOpenDescriptors := xOpenDescriptors q - 1\<rparr> else q)
         in if xOpenDescriptors q1 = 0 then
              (if xPendingUnlink q1 then (0, st\<lparr>mq_list := list_remove i (mq_list st)\<rparr>)
               else (0, st\<lparr>mq_list := (mq_list st)[i := q1\<lparr>xPendingUnlink := True\<rparr>]\<rparr>))
            else (0, st\<lparr>mq_list := (mq_list st)[i := q1]\<rparr>)))"

definition mq_getattr :: "'q queue_kernel \<Rightarrow> int \<Rightarrow> 'q mq_state \<Rightarrow> int \<times> mq_attr option \<times> 'q mq_state" where
  "mq_getattr qk d st =
    (case prvFindQueueInList None d (mq_list st) of
       None \<Rightarrow> (case mq_fail EBADF st of (r, st') \<Rightarrow> (r, None, st'))
     | Some i \<Rightarrow>
        (let q = mq_list st ! i; a = (xAttr q)\<lparr>mq_curmsgs := int (qk_waiting qk (xQueue q))\<rparr>
         in (0, Some a, st\<lparr>mq_list := (mq_list st)[i := q\<lparr>xAttr := a\<rparr>]\<rparr>)))"

definition default_attr :: mq_attr where
  "default_attr = \<lparr>mq_flags = 0, mq_maxmsg = posixconfigMQ_MAX_MESSAGES, mq_msgsize = posixconfigMQ_MAX_SIZE, mq_curmsgs = 0\<rparr>"

definition mq_open ::
  "'q mq_alloc \<Rightarrow> bytes \<Rightarrow> 32 word \<Rightarrow> mq_attr option \<Rightarrow> 'q mq_state \<Rightarrow> int \<times> 'q mq_state"
where
  "mq_open al name oflag attr st =
    (case prvValidateQueueName name of None \<Rightarrow> mq_fail EINVAL st | Some _ \<Rightarrow>
     if oflag AND O_CREAT \<noteq> 0 \<and> (case attr of Some a \<Rightarrow> mq_maxmsg a \<le> 0 \<or> mq_msgsize a \<le> 0 | None \<Rightarrow> False)
     then mq_fail EINVAL st
     else case prvFindQueueInList (Some name) 0 (mq_list st) of
       Some i \<Rightarrow>
         (let q = mq_list st ! i in
          if oflag AND O_EXCL \<noteq> 0 \<and> oflag AND O_CREAT \<noteq> 0 then mq_fail EEXIST st
          else if xPendingUnlink q then mq_fail EINVAL st
          else (mq_id q, st\<lparr>mq_list := (mq_list st)[i := q\<lparr>xOpenDescriptors := xOpenDescriptors q + 1\<rparr>]\<rparr>))
     | None \<Rightarrow>
         if oflag AND O_CREAT \<noteq> 0 then
           (let a = (case attr of Some a \<Rightarrow> a | None \<Rightarrow> default_attr)\<lparr>mq_flags := oflag\<rparr> in
            case prvCreateNewMessageQueue al a name (mq_list st) of
              None \<Rightarrow> mq_fail ENOSPC st
            | Some (d, qs) \<Rightarrow> (d, st\<lparr>mq_list := qs\<rparr>))
         else mq_fail ENOENT st)"

text \<open>\<open>mq\<open>_\<close>unlink\<close>.\<close>

definition mq_unlink :: "bytes \<Rightarrow> 'q mq_state \<Rightarrow> int \<times> 'q mq_state" where
  "mq_unlink name st =
    (case prvValidateQueueName name of None \<Rightarrow> mq_fail EINVAL st | Some _ \<Rightarrow>
     (case prvFindQueueInList (Some name) 0 (mq_list st) of
        None \<Rightarrow> mq_fail ENOENT st
      | Some i \<Rightarrow>
          if xOpenDescriptors (mq_list st ! i) = 0 then (0, st\<lparr>mq_list := list_remove i (mq_list st)\<rparr>)
          else (0, st\<lparr>mq_list := (mq_list st)[i := (mq_list st ! i)\<lparr>xPendingUnlink := True\<rparr>]\<rparr>)))"

text \<open>The buffer of \<open>mq\<open>_\<close>timedreceive\<close> is given; the new contents are returned.\<close>

definition mq_timedreceive ::
  "'q queue_kernel \<Rightarrow> int \<Rightarrow> int \<times> timespec \<Rightarrow> int \<Rightarrow> bytes \<Rightarrow> nat \<Rightarrow> timespec option \<Rightarrow> 'q mq_state
   \<Rightarrow> (int \<times> bytes \<times> 'q mq_state) exec"
where
  "mq_timedreceive qk hz clock d buf msg_len abstime st =
    (let fail = (\<lambda>e s. case mq_fail e s of (r, s') \<Rightarrow> Ret (r, buf, s')) in
     case prvFindQueueInList None d (mq_list st) of None \<Rightarrow> fail EBADF st | Some i \<Rightarrow>
     let q = mq_list st ! i in
     if msg_len < nat (mq_msgsize (xAttr q)) then fail EMSGSIZE st
     else case prvCalculateTickTimeout hz clock (mq_flags (xAttr q)) abstime of (e, ticks) \<Rightarrow>
     if e \<noteq> 0 then fail e st
     else case qk_receive qk ticks (xQueue q) of (m, k) \<Rightarrow>
     let st' = st\<lparr>mq_list := (mq_list st)[i := q\<lparr>xQueue := k\<rparr>]\<rparr> in
     case m of
       None \<Rightarrow> fail (if mq_flags (xAttr q) AND O_NONBLOCK \<noteq> 0 then EAGAIN else ETIMEDOUT) st'
     | Some data \<Rightarrow>
         if length data > length buf then Faults
         else Ret (int (length data), overwrite 0 data buf, st'))"

text \<open>\<open>mem\<close> says whether the allocation of the message block succeeds.\<close>

definition mq_timedsend ::
  "'q queue_kernel \<Rightarrow> bool \<Rightarrow> int \<Rightarrow> int \<times> timespec \<Rightarrow> int \<Rightarrow> bytes \<Rightarrow> timespec option \<Rightarrow> 'q mq_state
   \<Rightarrow> int \<times> 'q mq_state"
where
  "mq_timedsend qk mem hz clock d msg abstime st =
    (case prvFindQueueInList None d (mq_list st) of None \<Rightarrow> mq_fail EBADF st | Some i \<Rightarrow>
     let q = mq_list st ! i in
     if length msg > nat (mq_msgsize (xAttr q)) then mq_fail EMSGSIZE st
     else case prvCalculateTickTimeout hz clock (mq_flags (xAttr q)) abstime of (e, ticks) \<Rightarrow>
     if e \<noteq> 0 then mq_fail e st
     else if \<not> mem then mq_fail EMSGSIZE st
     else case qk_send qk ticks msg (xQueue q) of (sent, k) \<Rightarrow>
     let st' = st\<lparr>mq_list := (mq_list st)[i := q\<lparr>xQueue := k\<rparr>]\<rparr> in
     if sent then (0, st')
     else mq_fail (if mq_flags (xAttr q) AND O_NONBLOCK \<noteq> 0 then EAGAIN else ETIMEDOUT) st')"

definition mq_receive where
  "mq_receive qk hz clock d buf msg_len st = mq_timedreceive qk hz clock d buf msg_len None st"

definition mq_send where
  "mq_send qk mem hz clock d msg st = mq_timedsend qk mem hz clock d msg None st"

section \<open>Contracts and invariant\<close>

text \<open>The documented behaviour of a kernel queue that no other thread uses during the call:
  first in, first out, with a capacity.\<close>

definition fifo_kernel :: "'q queue_kernel \<Rightarrow> ('q \<Rightarrow> bytes list) \<Rightarrow> ('q \<Rightarrow> nat) \<Rightarrow> bool" where
  "fifo_kernel qk contents capacity \<longleftrightarrow> (\<forall>k t m.
     fst (qk_send qk t m k) = (length (contents k) < capacity k) \<and>
     contents (snd (qk_send qk t m k)) = (if length (contents k) < capacity k then contents k @ [m] else contents k) \<and>
     fst (qk_receive qk t k) = (case contents k of [] \<Rightarrow> None | x # xs \<Rightarrow> Some x) \<and>
     contents (snd (qk_receive qk t k)) = tl (contents k) \<and>
     qk_waiting qk k = length (contents k))"

lemma fifo_kernelD:
  assumes "fifo_kernel qk contents capacity"
  shows "qk_send qk t m k = (sent, k') \<Longrightarrow>
      sent = (length (contents k) < capacity k) \<and> contents k' = (if sent then contents k @ [m] else contents k)"
    "qk_receive qk t k = (x, k') \<Longrightarrow>
      x = (case contents k of [] \<Rightarrow> None | x # xs \<Rightarrow> Some x) \<and> contents k' = tl (contents k)"
    "qk_waiting qk k = length (contents k)"
proof -
  show "sent = (length (contents k) < capacity k) \<and> contents k' = (if sent then contents k @ [m] else contents k)"
    if "qk_send qk t m k = (sent, k')"
    using assms that unfolding fifo_kernel_def by (metis fst_conv snd_conv)
  show "x = (case contents k of [] \<Rightarrow> None | x # xs \<Rightarrow> Some x) \<and> contents k' = tl (contents k)"
    if "qk_receive qk t k = (x, k')"
    using assms that unfolding fifo_kernel_def by (metis fst_conv snd_conv)
  show "qk_waiting qk k = length (contents k)" using assms unfolding fifo_kernel_def by blast
qed

definition queue_ok :: "('q \<Rightarrow> bytes list) \<Rightarrow> 'q mqueue \<Rightarrow> bool" where
  "queue_ok contents q \<longleftrightarrow> mq_id q \<noteq> 0 \<and> mq_id q \<noteq> - 1 \<and> (xOpenDescriptors q = 0 \<longrightarrow> xPendingUnlink q) \<and>
     (\<forall>m\<in>set (contents (xQueue q)). length m \<le> nat (mq_msgsize (xAttr q)))"

definition mq_ok :: "('q \<Rightarrow> bytes list) \<Rightarrow> 'q mq_state \<Rightarrow> bool" where
  "mq_ok contents st \<longleftrightarrow> distinct (map mq_id (mq_list st)) \<and> distinct (map pcName (mq_list st)) \<and>
     (\<forall>q\<in>set (mq_list st). queue_ok contents q)"

lemma find_queue_Some:
  assumes "prvFindQueueInList None d qs = Some i"
  shows "i < length qs" "mq_id (qs ! i) = d" "qs ! i \<in> set qs"
  using find_index_SomeD[OF assms[unfolded prvFindQueueInList_def]] by simp_all

lemma find_name_Some:
  assumes "prvFindQueueInList (Some name) 0 qs = Some i"
  shows "i < length qs" "qs ! i \<in> set qs" "pcName (qs ! i) = name \<or> mq_id (qs ! i) = 0"
  using find_index_SomeD[OF assms[unfolded prvFindQueueInList_def]] by (auto split: if_splits)

lemma find_name_None:
  "prvFindQueueInList (Some name) 0 qs = None \<Longrightarrow> name \<notin> pcName ` set qs"
  by (auto simp: prvFindQueueInList_def find_index_None_iff split: if_splits)

lemma ok_update:
  assumes "mq_ok contents st" "i < length (mq_list st)" "queue_ok contents q"
    "mq_id q = mq_id (mq_list st ! i)" "pcName q = pcName (mq_list st ! i)"
  shows "mq_ok contents (st\<lparr>mq_list := (mq_list st)[i := q]\<rparr>)"
proof -
  have "map mq_id ((mq_list st)[i := q]) = map mq_id (mq_list st)"
    "map pcName ((mq_list st)[i := q]) = map pcName (mq_list st)"
    using assms(2,4,5) by (simp_all add: map_update list_update_same_conv)
  then show ?thesis using assms(1,3) by (auto simp: mq_ok_def dest: subsetD[OF set_update_subset_insert])
qed

lemma ok_remove:
  assumes "mq_ok contents st"
  shows "mq_ok contents (st\<lparr>mq_list := list_remove i (mq_list st)\<rparr>)"
proof -
  have sub: "distinct xs \<Longrightarrow> distinct (take i xs @ drop (Suc i) xs)" for xs :: "'c list"
    using set_take_disj_set_drop_if_distinct[of xs i "Suc i"] by (auto simp: distinct_append)
  have "set (list_remove i (mq_list st)) \<subseteq> set (mq_list st)"
    unfolding list_remove_def by (auto dest: in_set_takeD in_set_dropD)
  moreover have "distinct (map mq_id (list_remove i (mq_list st)))" "distinct (map pcName (list_remove i (mq_list st)))"
    using assms sub[of "map mq_id (mq_list st)"] sub[of "map pcName (mq_list st)"]
    by (auto simp: mq_ok_def list_remove_def take_map drop_map)
  ultimately show ?thesis using assms by (auto simp: mq_ok_def)
qed

lemma ok_errno: "mq_ok contents (st\<lparr>mq_errno := e\<rparr>) = mq_ok contents st"
  by (simp add: mq_ok_def)

lemma ok_queue: "mq_ok contents st \<Longrightarrow> q \<in> set (mq_list st) \<Longrightarrow> queue_ok contents q"
  by (simp add: mq_ok_def)

section \<open>Steps of the component\<close>

text \<open>The allocator hands out addresses that are not in use, and an empty kernel queue.\<close>

definition fresh_alloc :: "('q \<Rightarrow> bytes list) \<Rightarrow> 'q mq_alloc \<Rightarrow> 'q mq_state \<Rightarrow> bool" where
  "fresh_alloc contents al st \<longleftrightarrow>
     (\<forall>a. al_element al = Some a \<longrightarrow> a \<noteq> 0 \<and> a \<noteq> - 1 \<and> a \<notin> mq_id ` set (mq_list st)) \<and>
     (\<forall>n k. al_queue al n = Some k \<longrightarrow> contents k = [])"

inductive mq_step :: "'q queue_kernel \<Rightarrow> ('q \<Rightarrow> bytes list) \<Rightarrow> 'q mq_state \<Rightarrow> 'q mq_state \<Rightarrow> bool"
  for qk contents
where
  step_open: "fresh_alloc contents al st \<Longrightarrow> mq_step qk contents st (snd (mq_open al name oflag attr st))"
| step_close: "mq_step qk contents st (snd (mq_close d st))"
| step_unlink: "mq_step qk contents st (snd (mq_unlink name st))"
| step_getattr: "mq_step qk contents st (snd (snd (mq_getattr qk d st)))"
| step_send: "mq_step qk contents st (snd (mq_timedsend qk mem hz clock d msg abstime st))"
| step_receive: "mq_timedreceive qk hz clock d buf n abstime st = Ret (r, buf', st') \<Longrightarrow> mq_step qk contents st st'"

inductive mq_reach :: "'q queue_kernel \<Rightarrow> ('q \<Rightarrow> bytes list) \<Rightarrow> 'q mq_state \<Rightarrow> bool"
  for qk contents
where
  reach_start: "mq_reach qk contents \<lparr>mq_list = [], mq_errno = 0\<rparr>"
| reach_step: "mq_reach qk contents st \<Longrightarrow> mq_step qk contents st st' \<Longrightarrow> mq_reach qk contents st'"

lemma mq_open_ok:
  assumes ok: "mq_ok contents st" and fresh: "fresh_alloc contents al st"
  shows "mq_ok contents (snd (mq_open al name oflag attr st))"
proof (cases "prvFindQueueInList (Some name) 0 (mq_list st)")
  case (Some i)
  note f = find_name_Some[OF Some]
  have "queue_ok contents ((mq_list st ! i)\<lparr>xOpenDescriptors := xOpenDescriptors (mq_list st ! i) + 1\<rparr>)"
    using ok_queue[OF ok f(2)] by (simp add: queue_ok_def)
  from ok_update[OF ok f(1) this] show ?thesis using ok Some
    by (auto simp: mq_open_def mq_fail_def ok_errno Let_def split: option.splits)
next
  case None
  have "mq_ok contents (st\<lparr>mq_list := qs\<rparr>)" if "prvCreateNewMessageQueue al a name (mq_list st) = Some (d, qs)" for a d qs
    using that ok fresh find_name_None[OF None]
    by (auto simp: prvCreateNewMessageQueue_def fresh_alloc_def mq_ok_def queue_ok_def split: option.splits if_splits)
  then show ?thesis using ok None
    by (auto simp: mq_open_def mq_fail_def ok_errno Let_def split: option.splits)
qed

lemma mq_close_ok:
  assumes ok: "mq_ok contents st"
  shows "mq_ok contents (snd (mq_close d st))"
proof (cases "prvFindQueueInList None d (mq_list st)")
  case None
  then show ?thesis using ok by (simp add: mq_close_def mq_fail_def ok_errno)
next
  case (Some i)
  note f = find_queue_Some[OF Some] and qo = ok_queue[OF ok find_queue_Some(3)[OF Some]]
  show ?thesis using Some qo
    by (auto simp: mq_close_def Let_def queue_ok_def intro!: ok_update[OF ok f(1)] ok_remove[OF ok])
qed

lemma mq_unlink_ok:
  assumes ok: "mq_ok contents st"
  shows "mq_ok contents (snd (mq_unlink name st))"
proof (cases "prvFindQueueInList (Some name) 0 (mq_list st)")
  case None
  then show ?thesis using ok by (auto simp: mq_unlink_def mq_fail_def ok_errno split: option.splits)
next
  case (Some i)
  note f = find_name_Some[OF Some] and qo = ok_queue[OF ok find_name_Some(2)[OF Some]]
  show ?thesis using Some qo ok
    by (auto simp: mq_unlink_def mq_fail_def ok_errno queue_ok_def split: option.splits
        intro!: ok_update[OF ok f(1)] ok_remove[OF ok])
qed

lemma mq_getattr_ok: "mq_ok contents st \<Longrightarrow> mq_ok contents (snd (snd (mq_getattr qk d st)))"
proof (cases "prvFindQueueInList None d (mq_list st)")
  case None
  assume "mq_ok contents st"
  with None show ?thesis by (simp add: mq_getattr_def mq_fail_def ok_errno)
next
  case (Some i)
  assume ok: "mq_ok contents st"
  note f = find_queue_Some[OF Some] and qo = ok_queue[OF ok find_queue_Some(3)[OF Some]]
  show ?thesis using Some qo by (auto simp: mq_getattr_def Let_def queue_ok_def intro!: ok_update[OF ok f(1)])
qed

text \<open>What a send does, on each of its ways.\<close>

lemma send_cases:
  assumes e: "mq_timedsend qk mem hz clock d msg abstime st = (r, st')"
  obtains (fail) err where "r = - 1" "st' = st\<lparr>mq_errno := err\<rparr>"
  | (kernel) i t sent k where "prvFindQueueInList None d (mq_list st) = Some i"
      "qk_send qk t msg (xQueue (mq_list st ! i)) = (sent, k)" "r = (if sent then 0 else - 1)"
      "mq_list st' = (mq_list st)[i := (mq_list st ! i)\<lparr>xQueue := k\<rparr>]"
      "length msg \<le> nat (mq_msgsize (xAttr (mq_list st ! i)))"
proof (cases "prvFindQueueInList None d (mq_list st)")
  case None
  then show ?thesis using e fail by (auto simp: mq_timedsend_def mq_fail_def)
next
  case (Some i)
  show ?thesis
  proof (cases "length msg \<le> nat (mq_msgsize (xAttr (mq_list st ! i)))")
    case False
    then show ?thesis using e Some fail by (auto simp: mq_timedsend_def mq_fail_def Let_def)
  next
    case True
    obtain t0 t where t: "prvCalculateTickTimeout hz clock (mq_flags (xAttr (mq_list st ! i))) abstime = (t0, t)" by fastforce
    obtain sent k where k: "qk_send qk t msg (xQueue (mq_list st ! i)) = (sent, k)" by fastforce
    show ?thesis
    proof (cases "t0 = 0 \<and> mem")
      case False
      then show ?thesis using e Some True t fail by (auto simp: mq_timedsend_def mq_fail_def Let_def split: if_splits)
    next
      case ok: True
      then show ?thesis using e Some True t k kernel[OF Some k]
        by (auto simp: mq_timedsend_def mq_fail_def Let_def split: if_splits)
    qed
  qed
qed

lemma receive_cases:
  assumes e: "mq_timedreceive qk hz clock d buf n abstime st = Ret (r, buf', st')"
  obtains (fail) err where "r = - 1" "buf' = buf" "st' = st\<lparr>mq_errno := err\<rparr>"
  | (empty) i t k where "prvFindQueueInList None d (mq_list st) = Some i"
      "qk_receive qk t (xQueue (mq_list st ! i)) = (None, k)" "r = - 1" "buf' = buf"
      "mq_list st' = (mq_list st)[i := (mq_list st ! i)\<lparr>xQueue := k\<rparr>]"
  | (message) i t m k where "prvFindQueueInList None d (mq_list st) = Some i"
      "qk_receive qk t (xQueue (mq_list st ! i)) = (Some m, k)" "r = int (length m)"
      "buf' = overwrite 0 m buf" "length m \<le> length buf"
      "mq_list st' = (mq_list st)[i := (mq_list st ! i)\<lparr>xQueue := k\<rparr>]"
proof (cases "prvFindQueueInList None d (mq_list st)")
  case None
  then show ?thesis using e fail by (auto simp: mq_timedreceive_def mq_fail_def)
next
  case (Some i)
  obtain t0 t where t: "prvCalculateTickTimeout hz clock (mq_flags (xAttr (mq_list st ! i))) abstime = (t0, t)" by fastforce
  obtain x k where k: "qk_receive qk t (xQueue (mq_list st ! i)) = (x, k)" by fastforce
  show ?thesis
  proof (cases "n < nat (mq_msgsize (xAttr (mq_list st ! i))) \<or> t0 \<noteq> 0")
    case True
    then show ?thesis using e Some t fail by (auto simp: mq_timedreceive_def mq_fail_def Let_def split: if_splits)
  next
    case ok: False
    show ?thesis
    proof (cases x)
      case None
      then show ?thesis using e Some t k ok empty[OF Some k[unfolded None]]
        by (auto simp: mq_timedreceive_def mq_fail_def Let_def split: if_splits)
    next
      case m: (Some m)
      then show ?thesis using e Some t k ok message[OF Some k[unfolded m]]
        by (auto simp: mq_timedreceive_def mq_fail_def Let_def split: if_splits)
    qed
  qed
qed

lemma queue_ok_contents:
  "queue_ok contents q \<Longrightarrow> (\<And>m. m \<in> set (contents k) \<Longrightarrow> length m \<le> nat (mq_msgsize (xAttr q))) \<Longrightarrow>
   queue_ok contents (q\<lparr>xQueue := k\<rparr>)"
  by (simp add: queue_ok_def)

lemma ok_list: "mq_ok contents (st\<lparr>mq_list := qs\<rparr>) \<Longrightarrow> mq_list st' = qs \<Longrightarrow> mq_ok contents st'"
  by (simp add: mq_ok_def)

lemma mq_send_ok:
  assumes kq: "fifo_kernel qk contents capacity" and ok: "mq_ok contents st"
  shows "mq_ok contents (snd (mq_timedsend qk mem hz clock d msg abstime st))"
proof -
  obtain r st' where e: "mq_timedsend qk mem hz clock d msg abstime st = (r, st')" by fastforce
  from e have "mq_ok contents st'"
  proof (cases rule: send_cases)
    case fail
    then show ?thesis using ok by (simp add: ok_errno)
  next
    case (kernel i t sent k)
    note f = find_queue_Some[OF kernel(1)]
    have qo: "queue_ok contents (mq_list st ! i)" using ok_queue[OF ok f(3)] .
    then have "queue_ok contents ((mq_list st ! i)\<lparr>xQueue := k\<rparr>)"
      using fifo_kernelD(1)[OF kq kernel(2)] kernel(5)
      by (intro queue_ok_contents[OF qo]) (auto simp: queue_ok_def split: if_splits)
    then show ?thesis by (rule ok_list[OF ok_update[OF ok f(1)] kernel(4)]) simp_all
  qed
  then show ?thesis by (simp add: e)
qed

lemma mq_receive_ok:
  assumes kq: "fifo_kernel qk contents capacity" and ok: "mq_ok contents st"
    and e: "mq_timedreceive qk hz clock d buf n abstime st = Ret (r, buf', st')"
  shows "mq_ok contents st'"
proof -
  have upd: "mq_ok contents st'" if i: "prvFindQueueInList None d (mq_list st) = Some i"
    and k: "qk_receive qk t (xQueue (mq_list st ! i)) = (x, k)"
    and l: "mq_list st' = (mq_list st)[i := (mq_list st ! i)\<lparr>xQueue := k\<rparr>]" for i t x k
  proof -
    note f = find_queue_Some[OF i]
    have qo: "queue_ok contents (mq_list st ! i)" using ok_queue[OF ok f(3)] .
    then have "queue_ok contents ((mq_list st ! i)\<lparr>xQueue := k\<rparr>)"
      using fifo_kernelD(2)[OF kq k]
      by (intro queue_ok_contents[OF qo], cases "contents (xQueue (mq_list st ! i))") (auto simp: queue_ok_def)
    then show ?thesis by (rule ok_list[OF ok_update[OF ok f(1)] l]) simp_all
  qed
  from e show ?thesis using ok upd by (cases rule: receive_cases) (auto simp: ok_errno)
qed

lemma mq_step_ok:
  assumes "fifo_kernel qk contents capacity" "mq_step qk contents st st'" "mq_ok contents st"
  shows "mq_ok contents st'"
  using assms(2) by cases (auto intro: mq_open_ok mq_close_ok mq_unlink_ok mq_getattr_ok mq_send_ok mq_receive_ok assms)

lemma reach_ok:
  assumes "fifo_kernel qk contents capacity" "mq_reach qk contents st"
  shows "mq_ok contents st"
  using assms(2)
proof (induction rule: mq_reach.induct)
  case reach_start
  show ?case by (simp add: mq_ok_def)
next
  case (reach_step st st')
  then show ?case using mq_step_ok[OF assms(1)] by blast
qed

text \<open>In every state that the operations can reach, descriptors and names are unique, a
  queue without open descriptors is marked for removal, and a receive whose buffer
  is as long as it says never writes past it.\<close>

theorem mq_invariant:
  assumes "fifo_kernel qk contents capacity" "mq_reach qk contents st"
  shows "distinct (map mq_id (mq_list st)) \<and> distinct (map pcName (mq_list st)) \<and>
    (\<forall>q\<in>set (mq_list st). xOpenDescriptors q = 0 \<longrightarrow> xPendingUnlink q) \<and>
    (n \<le> length buf \<longrightarrow> mq_timedreceive qk hz clock d buf n abstime st \<noteq> Faults)"
proof -
  have ok: "mq_ok contents st" by (rule reach_ok[OF assms])
  have "mq_timedreceive qk hz clock d buf n abstime st \<noteq> Faults" if "n \<le> length buf"
  proof (cases "prvFindQueueInList None d (mq_list st)")
    case (Some i)
    have qo: "queue_ok contents (mq_list st ! i)" using ok_queue[OF ok find_queue_Some(3)[OF Some]] .
    have "length m \<le> nat (mq_msgsize (xAttr (mq_list st ! i)))"
      if "qk_receive qk t (xQueue (mq_list st ! i)) = (Some m, k)" for t m k
      using fifo_kernelD(2)[OF assms(1) that] qo
      by (cases "contents (xQueue (mq_list st ! i))") (auto simp: queue_ok_def)
    with Some \<open>n \<le> length buf\<close> show ?thesis
      by (force simp: mq_timedreceive_def mq_fail_def Let_def split: prod.splits option.splits if_splits)
  qed (simp add: mq_timedreceive_def mq_fail_def)
  then show ?thesis using ok by (auto simp: mq_ok_def queue_ok_def)
qed

text \<open>A kernel queue that is its capacity and its messages.\<close>

definition list_queue :: "(nat \<times> bytes list) queue_kernel" where
  "list_queue = \<lparr>qk_send = (\<lambda>t m k. if length (snd k) < fst k then (True, fst k, snd k @ [m]) else (False, k)),
     qk_receive = (\<lambda>t k. (case snd k of [] \<Rightarrow> None | x # xs \<Rightarrow> Some x, fst k, tl (snd k))),
     qk_waiting = (\<lambda>k. length (snd k))\<rparr>"

lemma list_queue_fifo: "fifo_kernel list_queue snd fst"
  by (simp add: fifo_kernel_def list_queue_def)

definition demo_alloc :: "(nat \<times> bytes list) mq_alloc" where
  "demo_alloc = \<lparr>al_element = Some 4096, al_queue = (\<lambda>n. Some (nat n, [])), al_name = True\<rparr>"

definition mq_empty :: "(nat \<times> bytes list) mq_state" where
  "mq_empty = \<lparr>mq_list = [], mq_errno = 0\<rparr>"

definition demo_queue :: "bytes list \<Rightarrow> (nat \<times> bytes list) mqueue" where
  "demo_queue ms = \<lparr>mq_id = 4096, xQueue = (10, ms), xOpenDescriptors = 1, pcName = [0x2F, 0x61],
     xAttr = default_attr\<lparr>mq_flags := O_CREAT\<rparr>, xPendingUnlink = False\<rparr>"

lemma demo_open_mq: "mq_open demo_alloc [0x2F, 0x61] O_CREAT None mq_empty = (4096, \<lparr>mq_list = [demo_queue []], mq_errno = 0\<rparr>)"
  by (simp add: mq_open_def prvValidateQueueName_def UTILS_strnlen_def prvFindQueueInList_def mq_empty_def
      prvCreateNewMessageQueue_def demo_alloc_def demo_queue_def default_attr_def O_CREAT_def)

lemma demo_mq_reach: "mq_reach list_queue snd \<lparr>mq_list = [demo_queue []], mq_errno = 0\<rparr>"
proof -
  have "fresh_alloc snd demo_alloc mq_empty" by (auto simp: fresh_alloc_def demo_alloc_def mq_empty_def)
  from step_open[OF this, of list_queue "[0x2F, 0x61]" O_CREAT None] reach_start[of list_queue snd]
  show ?thesis unfolding demo_open_mq mq_empty_def[symmetric] by (auto intro: reach_step)
qed

theorem mq_invariant_witness:
  "mq_timedreceive list_queue 1000 (0, Timespec 0 0) 4096 (replicate 128 0) 128 None
     \<lparr>mq_list = [demo_queue []], mq_errno = 0\<rparr> \<noteq> Faults"
  using mq_invariant[OF list_queue_fifo demo_mq_reach, of 128 "replicate 128 0"] by simp

section \<open>Messages\<close>

definition mq_messages :: "('q \<Rightarrow> bytes list) \<Rightarrow> int \<Rightarrow> 'q mq_state \<Rightarrow> bytes list" where
  "mq_messages contents d st =
    (case prvFindQueueInList None d (mq_list st) of Some i \<Rightarrow> contents (xQueue (mq_list st ! i)) | None \<Rightarrow> [])"

lemma messages_update:
  assumes i: "prvFindQueueInList None d (mq_list st) = Some i"
    and l: "mq_list st' = (mq_list st)[i := (mq_list st ! i)\<lparr>xQueue := k\<rparr>]"
  shows "mq_messages contents d' st' = (if d' = d then contents k else mq_messages contents d' st)"
proof -
  note f = find_queue_Some[OF i]
  have same: "mq_id (mq_list st' ! j) = mq_id (mq_list st ! j)" if "j < length (mq_list st)" for j
    using that f(1) by (simp add: l nth_update_if)
  have "prvFindQueueInList None d' (mq_list st') = prvFindQueueInList None d' (mq_list st)" for d'
    unfolding prvFindQueueInList_def using same by (intro find_index_cong) (simp_all add: l)
  moreover have "i \<noteq> j" if "prvFindQueueInList None d' (mq_list st) = Some j" "d' \<noteq> d" for j
    using find_queue_Some(2)[OF that(1)] f(2) that(2) by auto
  ultimately show ?thesis using i f(1)
    by (auto simp: mq_messages_def l split: option.splits)
qed

lemma messages_errno: "mq_messages contents d (st\<lparr>mq_errno := e\<rparr>) = mq_messages contents d st"
  by (simp add: mq_messages_def split: option.split)

text \<open>C35: Each queue is a first-in first-out channel of whole messages: a send that returns 0
  appends exactly its message, one that fails appends nothing; a receive that returns
  a length takes the oldest message and copies it to the start of the buffer, one
  that fails takes nothing; and no operation touches the other queues.\<close>

theorem mq_fifo:
  assumes kq: "fifo_kernel qk contents capacity"
  shows "(\<forall>r st'. mq_timedsend qk mem hz clock d msg abstime st = (r, st') \<longrightarrow>
      (r = 0 \<or> r = - 1) \<and>
      mq_messages contents d st' = mq_messages contents d st @ (if r = 0 then [msg] else []) \<and>
      (\<forall>d'. d' \<noteq> d \<longrightarrow> mq_messages contents d' st' = mq_messages contents d' st)) \<and>
    (\<forall>r buf' st'. mq_timedreceive qk hz clock d buf n abstime st = Ret (r, buf', st') \<longrightarrow>
      (r = - 1 \<and> buf' = buf \<and> mq_messages contents d st' = mq_messages contents d st \<or>
       (\<exists>m. mq_messages contents d st = m # mq_messages contents d st' \<and> r = int (length m) \<and>
          buf' = overwrite 0 m buf)) \<and>
      (\<forall>d'. d' \<noteq> d \<longrightarrow> mq_messages contents d' st' = mq_messages contents d' st))"
proof (intro conjI[of "All _"] allI impI)
  fix r st'
  assume "mq_timedsend qk mem hz clock d msg abstime st = (r, st')"
  then show "(r = 0 \<or> r = - 1) \<and>
      mq_messages contents d st' = mq_messages contents d st @ (if r = 0 then [msg] else []) \<and>
      (\<forall>d'. d' \<noteq> d \<longrightarrow> mq_messages contents d' st' = mq_messages contents d' st)"
  proof (cases rule: send_cases)
    case fail
    then show ?thesis by (simp add: messages_errno)
  next
    case (kernel i t sent k)
    then show ?thesis
      using messages_update[OF kernel(1,4)] fifo_kernelD(1)[OF kq kernel(2)] by (simp add: mq_messages_def)
  qed
next
  fix r buf' st'
  assume "mq_timedreceive qk hz clock d buf n abstime st = Ret (r, buf', st')"
  then show "(r = - 1 \<and> buf' = buf \<and> mq_messages contents d st' = mq_messages contents d st \<or>
       (\<exists>m. mq_messages contents d st = m # mq_messages contents d st' \<and> r = int (length m) \<and>
          buf' = overwrite 0 m buf)) \<and>
      (\<forall>d'. d' \<noteq> d \<longrightarrow> mq_messages contents d' st' = mq_messages contents d' st)"
  proof (cases rule: receive_cases)
    case fail
    then show ?thesis by (simp add: messages_errno)
  next
    case (empty i t k)
    then show ?thesis
      using messages_update[OF empty(1,5)] fifo_kernelD(2)[OF kq empty(2)]
      by (simp add: mq_messages_def split: list.splits)
  next
    case (message i t m k)
    then show ?thesis
      using messages_update[OF message(1,6)] fifo_kernelD(2)[OF kq message(2)]
      by (auto simp: mq_messages_def split: list.splits)
  qed
qed

theorem mq_fifo_witness:
  "\<exists>st'. mq_timedsend list_queue True 1000 (0, Timespec 0 0) 4096 [1, 2] None
      \<lparr>mq_list = [demo_queue [[7]]], mq_errno = 0\<rparr> = (0, st') \<and> mq_messages snd 4096 st' = [[7], [1, 2]]"
proof -
  let ?st = "\<lparr>mq_list = [demo_queue [[7]]], mq_errno = 0\<rparr>"
  obtain r st' where s: "mq_timedsend list_queue True 1000 (0, Timespec 0 0) 4096 [1, 2] None ?st = (r, st')" by fastforce
  have "r = 0" using s
    by (simp add: mq_timedsend_def prvFindQueueInList_def demo_queue_def default_attr_def prvCalculateTickTimeout_def
        list_queue_def O_CREAT_def O_NONBLOCK_def)
  moreover have "mq_messages snd 4096 ?st = [[7]]"
    by (simp add: mq_messages_def prvFindQueueInList_def demo_queue_def)
  ultimately show ?thesis using mq_fifo[OF list_queue_fifo] s by fastforce
qed

section \<open>Two deviations\<close>

text \<open>Closing the last descriptor marks a queue for removal although nobody called
  \<open>mq\<open>_\<close>unlink\<close>: it stays in the list and keeps its name, but every later \<open>mq\<open>_\<close>open\<close> of the
  name fails (EINVAL, or EEXIST for an exclusive creation) until it is unlinked.\<close>

theorem mq_reopen_fails:
  assumes ok: "mq_ok contents st" and new: "name \<notin> pcName ` set (mq_list st)"
    and o: "mq_open al name oflag attr st = (d, st1)" "d \<noteq> - 1" and c: "mq_close d st1 = (r, st2)"
  shows "r = 0 \<and> length (mq_list st2) = Suc (length (mq_list st)) \<and>
    fst (mq_open al' name oflag' attr' st2) = - 1 \<and>
    mq_list (snd (mq_open al' name oflag' attr' st2)) = mq_list st2 \<and>
    mq_unlink name st2 = (0, st2\<lparr>mq_list := mq_list st\<rparr>)"
proof -
  have v: "prvValidateQueueName name \<noteq> None"
    using o by (cases "prvValidateQueueName name") (simp_all add: mq_open_def mq_fail_def)
  have f: "prvFindQueueInList (Some name) 0 (mq_list st) = None"
    using ok new by (auto simp: prvFindQueueInList_def find_index_None_iff mq_ok_def queue_ok_def)
  obtain a qs where "prvCreateNewMessageQueue al a name (mq_list st) = Some (d, qs)" "st1 = st\<lparr>mq_list := qs\<rparr>"
    using o v f by (auto simp: mq_open_def mq_fail_def Let_def split: option.splits if_splits)
  then obtain q where q: "st1 = st\<lparr>mq_list := q # mq_list st\<rparr>" "mq_id q = d" "xOpenDescriptors q = 1"
      "pcName q = name" "\<not> xPendingUnlink q"
    by (auto simp: prvCreateNewMessageQueue_def split: option.splits if_splits)
  have st2: "r = 0" "st2 = st\<lparr>mq_list := q\<lparr>xOpenDescriptors := 0, xPendingUnlink := True\<rparr> # mq_list st\<rparr>"
    using c q by (auto simp: mq_close_def prvFindQueueInList_def Let_def)
  have f2: "prvFindQueueInList (Some name) 0 (mq_list st2) = Some 0"
    using q(4) by (simp add: st2 prvFindQueueInList_def)
  have "fst (mq_open al' name oflag' attr' st2) = - 1 \<and>
    mq_list (snd (mq_open al' name oflag' attr' st2)) = mq_list st2"
    using v f2 by (auto simp: mq_open_def mq_fail_def st2(2) Let_def split: option.splits)
  moreover have "mq_unlink name st2 = (0, st2\<lparr>mq_list := mq_list st\<rparr>)"
    using v f2 by (auto simp: mq_unlink_def st2(2) list_remove_def)
  ultimately show ?thesis using st2 by simp
qed

theorem mq_reopen_fails_witness:
  "fst (mq_open demo_alloc [0x2F, 0x61] O_CREAT None
     (snd (mq_close 4096 \<lparr>mq_list = [demo_queue []], mq_errno = 0\<rparr>))) = - 1"
proof -
  obtain r st2 where c: "mq_close 4096 \<lparr>mq_list = [demo_queue []], mq_errno = 0\<rparr> = (r, st2)" by fastforce
  have "mq_ok snd mq_empty" by (simp add: mq_ok_def mq_empty_def)
  moreover have "[0x2F, 0x61] \<notin> pcName ` set (mq_list mq_empty)" by (simp add: mq_empty_def)
  ultimately show ?thesis using mq_reopen_fails[OF _ _ demo_open_mq _ c, of snd] c by simp
qed

text \<open>A receive whose deadline has passed returns ETIMEDOUT although a message is
  waiting, and leaves the message in the queue; the documentation reserves
  ETIMEDOUT for the case that no message arrived before the timeout.\<close>

theorem mq_past_deadline:
  assumes "prvFindQueueInList None d (mq_list st) = Some i" "mq_flags (xAttr (mq_list st ! i)) AND O_NONBLOCK = 0"
    "nat (mq_msgsize (xAttr (mq_list st ! i))) \<le> n" "valid_ts t" "t < now"
  shows "mq_timedreceive qk hz (0, now) d buf n (Some t) st = Ret (- 1, buf, st\<lparr>mq_errno := ETIMEDOUT\<rparr>) \<and>
    mq_messages contents d (st\<lparr>mq_errno := ETIMEDOUT\<rparr>) = mq_messages contents d st"
proof -
  have "UTILS_AbsoluteTimespecToDeltaTicks hz (Some t) (Some now) 0 = (ETIMEDOUT, 0)"
    using assms(5) by (simp add: UTILS_AbsoluteTimespecToDeltaTicks_def UTILS_TimespecSubtract_def compare_order)
  then show ?thesis using assms
    by (simp add: mq_timedreceive_def prvCalculateTickTimeout_def mq_fail_def messages_errno Let_def)
qed

theorem mq_past_deadline_witness:
  "mq_timedreceive list_queue 1000 (0, Timespec 5 0) 4096 (replicate 128 0) 128 (Some (Timespec 4 0))
     \<lparr>mq_list = [demo_queue [[7]]], mq_errno = 0\<rparr> =
   Ret (- 1, replicate 128 0, \<lparr>mq_list = [demo_queue [[7]]], mq_errno = ETIMEDOUT\<rparr>)"
proof -
  let ?st = "\<lparr>mq_list = [demo_queue [[7]]], mq_errno = 0\<rparr>"
  have "prvFindQueueInList None 4096 (mq_list ?st) = Some 0" by (simp add: prvFindQueueInList_def demo_queue_def)
  moreover have "mq_flags (xAttr (mq_list ?st ! 0)) AND O_NONBLOCK = 0"
    by (simp add: demo_queue_def O_CREAT_def O_NONBLOCK_def)
  moreover have "nat (mq_msgsize (xAttr (mq_list ?st ! 0))) \<le> 128" by (simp add: demo_queue_def default_attr_def)
  moreover have "valid_ts (Timespec 4 0)" "Timespec 4 0 < Timespec 5 0"
    by (simp_all add: UTILS_ValidateTimespec_def less_timespec_def)
  ultimately show ?thesis using mq_past_deadline[of 4096 ?st 0 128 "Timespec 4 0" "Timespec 5 0" list_queue 1000] by simp
qed

end
