(* ===== verification/Posix_Mutex.thy ===== *)
theory Posix_Mutex
  imports Posix_Sem
begin

text \<open>
  POSIX mutexes (FreeRTOS\<open>_\<close>POSIX\<open>_\<close>pthread\<open>_\<close>mutex.c): the three mutex types over a kernel
  mutex, with lazy initialisation, deadlock detection and permission checks by the
  recorded owner.  Tasks are numbers; the kernel mutex is a parameter.  A call is one
  step: the moment between the kernel take and the update of the owner is not
  visible in the model.
\<close>

section \<open>Data\<close>

abbreviation (input) PTHREAD_MUTEX_NORMAL :: int where "PTHREAD_MUTEX_NORMAL \<equiv> 0"
abbreviation (input) PTHREAD_MUTEX_ERRORCHECK :: int where "PTHREAD_MUTEX_ERRORCHECK \<equiv> 1"
abbreviation (input) PTHREAD_MUTEX_RECURSIVE :: int where "PTHREAD_MUTEX_RECURSIVE \<equiv> 2"
abbreviation (input) PTHREAD_MUTEX_DEFAULT :: int where "PTHREAD_MUTEX_DEFAULT \<equiv> PTHREAD_MUTEX_NORMAL"

record 'k pmutex =
  xIsInitialized :: bool
  xMutex :: 'k
  xTaskOwner :: "nat option"
  iType :: int

text \<open>The kernel mutex: creation (recursive or not), take and give by a task in the two
  forms, and the holder.\<close>

record 'k mutex_kernel =
  mk_zero :: 'k
  mk_create :: "bool \<Rightarrow> 'k option"
  mk_take :: "nat \<Rightarrow> int \<Rightarrow> 'k \<Rightarrow> bool \<times> 'k"
  mk_take_rec :: "nat \<Rightarrow> int \<Rightarrow> 'k \<Rightarrow> bool \<times> 'k"
  mk_give :: "nat \<Rightarrow> 'k \<Rightarrow> 'k"
  mk_give_rec :: "nat \<Rightarrow> 'k \<Rightarrow> 'k"
  mk_holder :: "'k \<Rightarrow> nat option"

definition FREERTOS_POSIX_MUTEX_INITIALIZER :: "'k mutex_kernel \<Rightarrow> 'k pmutex" where
  "FREERTOS_POSIX_MUTEX_INITIALIZER mk =
     \<lparr>xIsInitialized = False, xMutex = mk_zero mk, xTaskOwner = None, iType = 0\<rparr>"

section \<open>The functions\<close>

definition prvInitializeStaticMutex :: "'k mutex_kernel \<Rightarrow> 'k pmutex \<Rightarrow> 'k pmutex" where
  "prvInitializeStaticMutex mk m =
    (if \<not> xIsInitialized m then
       (let m1 = m\<lparr>iType := PTHREAD_MUTEX_DEFAULT\<rparr> in
        case mk_create mk (PTHREAD_MUTEX_DEFAULT = PTHREAD_MUTEX_RECURSIVE) of
          Some k \<Rightarrow> m1\<lparr>xMutex := k, xIsInitialized := True\<rparr>
        | None \<Rightarrow> m1)
     else m)"

text \<open>A NULL mutex is \<open>None\<close>.\<close>

definition pthread_mutex_init :: "'k mutex_kernel \<Rightarrow> int option \<Rightarrow> 'k pmutex option \<Rightarrow> int \<times> 'k pmutex option" where
  "pthread_mutex_init mk attr mutex =
    (case mutex of None \<Rightarrow> (ENOMEM, None) | Some _ \<Rightarrow>
     (let m = (FREERTOS_POSIX_MUTEX_INITIALIZER mk)
                \<lparr>iType := (case attr of None \<Rightarrow> PTHREAD_MUTEX_DEFAULT | Some ty \<Rightarrow> ty)\<rparr>
      in case mk_create mk (iType m = PTHREAD_MUTEX_RECURSIVE) of
           None \<Rightarrow> (EAGAIN, Some (FREERTOS_POSIX_MUTEX_INITIALIZER mk))
         | Some k \<Rightarrow> (0, Some (m\<lparr>xMutex := k, xIsInitialized := True\<rparr>))))"

definition pthread_mutex_destroy :: "'k mutex_kernel \<Rightarrow> 'k pmutex option \<Rightarrow> int \<times> 'k pmutex option" where
  "pthread_mutex_destroy mk mutex =
    (case mutex of None \<Rightarrow> (EINVAL, None) | Some m \<Rightarrow>
     if \<not> xIsInitialized m then (0, Some m)
     else if xTaskOwner m \<noteq> None then (EBUSY, Some m)
     else (0, Some (FREERTOS_POSIX_MUTEX_INITIALIZER mk)))"

text \<open>Status and delay for the deadline.\<close>

definition mutex_delay :: "int \<Rightarrow> int \<times> timespec \<Rightarrow> timespec option \<Rightarrow> int \<times> int" where
  "mutex_delay hz clock abstime =
    (case abstime of None \<Rightarrow> (0, portMAX_DELAY) | Some t \<Rightarrow>
     (case (if fst clock \<noteq> 0 then (EINVAL, portMAX_DELAY)
            else UTILS_AbsoluteTimespecToDeltaTicks hz (Some t) (Some (snd clock)) portMAX_DELAY) of
       (st, d) \<Rightarrow> if st = ETIMEDOUT then (0, 0) else (st, d)))"

definition pthread_mutex_timedlock ::
  "'k mutex_kernel \<Rightarrow> int \<Rightarrow> int \<times> timespec \<Rightarrow> nat \<Rightarrow> timespec option \<Rightarrow> 'k pmutex option \<Rightarrow> int \<times> 'k pmutex option"
where
  "pthread_mutex_timedlock mk hz clock self abstime mutex =
    (case mutex of None \<Rightarrow> (EINVAL, None) | Some m0 \<Rightarrow>
     let m = prvInitializeStaticMutex mk m0 in
     if \<not> xIsInitialized m then (EINVAL, Some m)
     else case mutex_delay hz clock abstime of (st0, delay) \<Rightarrow>
     let st = (if st0 = 0 \<and> iType m = PTHREAD_MUTEX_ERRORCHECK \<and> xTaskOwner m = Some self then EDEADLK else st0) in
     if st \<noteq> 0 then (st, Some m)
     else case (if iType m = PTHREAD_MUTEX_RECURSIVE then mk_take_rec mk self delay (xMutex m)
                else mk_take mk self delay (xMutex m)) of (taken, k) \<Rightarrow>
       if taken then (0, Some (m\<lparr>xMutex := k, xTaskOwner := Some self\<rparr>))
       else (ETIMEDOUT, Some (m\<lparr>xMutex := k\<rparr>)))"

definition pthread_mutex_lock ::
  "'k mutex_kernel \<Rightarrow> int \<Rightarrow> int \<times> timespec \<Rightarrow> nat \<Rightarrow> 'k pmutex option \<Rightarrow> int \<times> 'k pmutex option"
where
  "pthread_mutex_lock mk hz clock self mutex = pthread_mutex_timedlock mk hz clock self None mutex"

definition pthread_mutex_trylock ::
  "'k mutex_kernel \<Rightarrow> int \<Rightarrow> int \<times> timespec \<Rightarrow> nat \<Rightarrow> 'k pmutex option \<Rightarrow> int \<times> 'k pmutex option"
where
  "pthread_mutex_trylock mk hz clock self mutex =
    (case pthread_mutex_timedlock mk hz clock self (Some (Timespec 0 0)) mutex of (st, m) \<Rightarrow>
       (if st = ETIMEDOUT then EBUSY else st, m))"

text \<open>\<open>pthread\<open>_\<close>mutex\<open>_\<close>unlock\<close> reads the type of the mutex without a check for NULL.\<close>

definition pthread_mutex_unlock ::
  "'k mutex_kernel \<Rightarrow> nat \<Rightarrow> 'k pmutex option \<Rightarrow> (int \<times> 'k pmutex) exec"
where
  "pthread_mutex_unlock mk self mutex =
    (case mutex of None \<Rightarrow> Faults | Some m0 \<Rightarrow>
     let m = prvInitializeStaticMutex mk m0 in
     if (iType m = PTHREAD_MUTEX_ERRORCHECK \<or> iType m = PTHREAD_MUTEX_RECURSIVE) \<and> xTaskOwner m \<noteq> Some self
     then Ret (EPERM, m)
     else let k = (if iType m = PTHREAD_MUTEX_RECURSIVE then mk_give_rec mk self (xMutex m)
                   else mk_give mk self (xMutex m))
          in Ret (0, m\<lparr>xMutex := k, xTaskOwner := mk_holder mk k\<rparr>))"

definition pthread_mutexattr_init :: int where "pthread_mutexattr_init = PTHREAD_MUTEX_DEFAULT"

definition pthread_mutexattr_gettype :: "int \<Rightarrow> int" where "pthread_mutexattr_gettype attr = attr"

definition pthread_mutexattr_settype :: "int \<Rightarrow> int \<Rightarrow> int \<times> int" where
  "pthread_mutexattr_settype attr ty =
     (if ty = PTHREAD_MUTEX_NORMAL \<or> ty = PTHREAD_MUTEX_RECURSIVE \<or> ty = PTHREAD_MUTEX_ERRORCHECK then (0, ty)
      else (EINVAL, attr))"

section \<open>Specification\<close>

text \<open>A mutex is free or held by a task a number of times.\<close>

type_synonym mutex_hold = "(nat \<times> nat) option"

definition spec_lock :: "int \<Rightarrow> nat \<Rightarrow> mutex_hold \<Rightarrow> int \<times> mutex_hold" where
  "spec_lock ty self h =
    (case h of None \<Rightarrow> (0, Some (self, 1))
     | Some (o', n) \<Rightarrow>
         if o' = self \<and> ty = PTHREAD_MUTEX_RECURSIVE then (0, Some (self, n + 1))
         else if o' = self \<and> ty = PTHREAD_MUTEX_ERRORCHECK then (EDEADLK, h)
         else (ETIMEDOUT, h))"

definition spec_unlock :: "int \<Rightarrow> nat \<Rightarrow> mutex_hold \<Rightarrow> int \<times> mutex_hold" where
  "spec_unlock ty self h =
    (if ty \<noteq> PTHREAD_MUTEX_NORMAL \<and> map_option fst h \<noteq> Some self then (EPERM, h)
     else (0, case h of None \<Rightarrow> None
              | Some (o', n) \<Rightarrow> if ty = PTHREAD_MUTEX_RECURSIVE \<and> 1 < n then Some (o', n - 1) else None))"

text \<open>The documented behaviour of the kernel mutex; \<open>held\<close> is its holder and depth.\<close>

definition mutex_contract :: "'k mutex_kernel \<Rightarrow> ('k \<Rightarrow> mutex_hold) \<Rightarrow> bool" where
  "mutex_contract mk held \<longleftrightarrow> (\<forall>b k t d.
     (mk_create mk b = Some k \<longrightarrow> held k = None) \<and>
     fst (mk_take mk t d k) = (held k = None) \<and>
     held (snd (mk_take mk t d k)) = (if held k = None then Some (t, 1) else held k) \<and>
     fst (mk_take_rec mk t d k) = (held k = None \<or> map_option fst (held k) = Some t) \<and>
     held (snd (mk_take_rec mk t d k)) =
       (case held k of None \<Rightarrow> Some (t, 1) | Some (o', n) \<Rightarrow> if o' = t then Some (t, n + 1) else Some (o', n)) \<and>
     held (mk_give mk t k) = None \<and>
     held (mk_give_rec mk t k) =
       (case held k of Some (o', n) \<Rightarrow> if o' \<noteq> t then Some (o', n) else if 1 < n then Some (o', n - 1) else None
        | None \<Rightarrow> None) \<and>
     mk_holder mk k = map_option fst (held k))"

lemma mutex_contractD:
  assumes "mutex_contract mk held"
  shows "mk_create mk b = Some k \<Longrightarrow> held k = None"
    "fst (mk_take mk t d k) = (held k = None)"
    "held (snd (mk_take mk t d k)) = (if held k = None then Some (t, 1) else held k)"
    "fst (mk_take_rec mk t d k) = (held k = None \<or> map_option fst (held k) = Some t)"
    "held (snd (mk_take_rec mk t d k)) =
       (case held k of None \<Rightarrow> Some (t, 1) | Some (o', n) \<Rightarrow> if o' = t then Some (t, n + 1) else Some (o', n))"
    "held (mk_give mk t k) = None"
    "held (mk_give_rec mk t k) =
       (case held k of Some (o', n) \<Rightarrow> if o' \<noteq> t then Some (o', n) else if 1 < n then Some (o', n - 1) else None
        | None \<Rightarrow> None)"
    "mk_holder mk k = map_option fst (held k)"
  using assms unfolding mutex_contract_def by blast+

text \<open>An initialised mutex of one of the three types whose owner field is the holder.\<close>

definition mutex_wf :: "('k \<Rightarrow> mutex_hold) \<Rightarrow> 'k pmutex \<Rightarrow> bool" where
  "mutex_wf held m \<longleftrightarrow> xIsInitialized m \<and> iType m \<in> {0, 1, 2} \<and> xTaskOwner m = map_option fst (held (xMutex m))"

lemma initialized_static [simp]: "xIsInitialized m \<Longrightarrow> prvInitializeStaticMutex mk m = m"
  by (simp add: prvInitializeStaticMutex_def)

lemma timedlock_spec:
  assumes c: "mutex_contract mk held" and wf: "mutex_wf held m" and d: "fst (mutex_delay hz clock abstime) = 0"
  shows "\<exists>m'. pthread_mutex_timedlock mk hz clock self abstime (Some m) =
      (fst (spec_lock (iType m) self (held (xMutex m))), Some m') \<and> mutex_wf held m' \<and> iType m' = iType m \<and>
    held (xMutex m') = snd (spec_lock (iType m) self (held (xMutex m)))"
proof -
  obtain dl where dl: "mutex_delay hz clock abstime = (0, dl)" using d by (cases "mutex_delay hz clock abstime") simp
  obtain b1 k1 where t1: "mk_take mk self dl (xMutex m) = (b1, k1)" by fastforce
  obtain b2 k2 where t2: "mk_take_rec mk self dl (xMutex m) = (b2, k2)" by fastforce
  note k1 = mutex_contractD(2,3)[OF c, of self dl "xMutex m", unfolded t1 fst_conv snd_conv]
  note k2 = mutex_contractD(4,5)[OF c, of self dl "xMutex m", unfolded t2 fst_conv snd_conv]
  show ?thesis using wf dl t1 t2 k1 k2
    by (cases "held (xMutex m)")
       (auto simp: pthread_mutex_timedlock_def mutex_wf_def spec_lock_def Let_def)
qed

lemma unlock_spec:
  assumes c: "mutex_contract mk held" and wf: "mutex_wf held m"
  shows "\<exists>m'. pthread_mutex_unlock mk self (Some m) = Ret (fst (spec_unlock (iType m) self (held (xMutex m))), m') \<and>
    mutex_wf held m' \<and> iType m' = iType m \<and> held (xMutex m') = snd (spec_unlock (iType m) self (held (xMutex m)))"
  using wf mutex_contractD(6-8)[OF c]
  by (cases "held (xMutex m)")
     (auto simp: pthread_mutex_unlock_def mutex_wf_def spec_unlock_def Let_def)

lemma trylock_delay:
  assumes "valid_ts now" "0 \<le> tv_sec now"
  shows "mutex_delay hz (0, now) (Some (Timespec 0 0)) = (0, 0)"
  using trywait_delay[OF assms, of hz]
  by (auto simp: sem_delay_def mutex_delay_def UTILS_ValidateTimespec_def split: prod.splits if_splits)

section \<open>Refinement\<close>

text \<open>Lock, trylock and unlock implement the abstract mutex for each of the three types: a
  free mutex is taken, a relock counts (recursive), is refused with EDEADLK (error
  checking) or times out (normal), unlocking needs the owner except for the normal
  type, and the owner field always names the holder. An invalid deadline is refused
  with EINVAL and takes nothing.\<close>

theorem mutex_refines:
  assumes c: "mutex_contract mk held" and wf: "mutex_wf held m" and now: "valid_ts now" "0 \<le> tv_sec now"
  shows "(fst (mutex_delay hz clock abstime) = 0 \<longrightarrow>
      (\<exists>m'. pthread_mutex_timedlock mk hz clock self abstime (Some m) =
        (fst (spec_lock (iType m) self (held (xMutex m))), Some m') \<and> mutex_wf held m' \<and>
        held (xMutex m') = snd (spec_lock (iType m) self (held (xMutex m))))) \<and>
    (fst (mutex_delay hz clock abstime) \<noteq> 0 \<longrightarrow>
      pthread_mutex_timedlock mk hz clock self abstime (Some m) = (fst (mutex_delay hz clock abstime), Some m)) \<and>
    (\<exists>m'. pthread_mutex_trylock mk hz (0, now) self (Some m) =
        (case spec_lock (iType m) self (held (xMutex m)) of (st, _) \<Rightarrow> if st = ETIMEDOUT then EBUSY else st, Some m') \<and>
        mutex_wf held m' \<and> held (xMutex m') = snd (spec_lock (iType m) self (held (xMutex m)))) \<and>
    (\<exists>m'. pthread_mutex_unlock mk self (Some m) =
        Ret (fst (spec_unlock (iType m) self (held (xMutex m))), m') \<and> mutex_wf held m' \<and>
        held (xMutex m') = snd (spec_unlock (iType m) self (held (xMutex m))))"
proof (intro conjI impI)
  assume "fst (mutex_delay hz clock abstime) \<noteq> 0"
  then show "pthread_mutex_timedlock mk hz clock self abstime (Some m) = (fst (mutex_delay hz clock abstime), Some m)"
    using wf by (auto simp: pthread_mutex_timedlock_def mutex_wf_def Let_def split: prod.splits)
qed (use timedlock_spec[OF c wf, of hz clock abstime self]
      timedlock_spec[OF c wf, of hz "(0, now)" "Some (Timespec 0 0)" self] trylock_delay[OF now, of hz]
      unlock_spec[OF c wf, of self] in \<open>auto simp: pthread_mutex_trylock_def split_beta\<close>)

text \<open>A kernel mutex that is its own holder and depth.\<close>

definition hold_kernel :: "mutex_hold mutex_kernel" where
  "hold_kernel = \<lparr>mk_zero = None, mk_create = (\<lambda>b. Some None),
     mk_take = (\<lambda>t d k. if k = None then (True, Some (t, 1)) else (False, k)),
     mk_take_rec = (\<lambda>t d k. case k of None \<Rightarrow> (True, Some (t, 1))
        | Some (o', n) \<Rightarrow> if o' = t then (True, Some (t, n + 1)) else (False, Some (o', n))),
     mk_give = (\<lambda>t k. None),
     mk_give_rec = (\<lambda>t k. case k of Some (o', n) \<Rightarrow> if o' \<noteq> t then Some (o', n)
        else if 1 < n then Some (o', n - 1) else None | None \<Rightarrow> None),
     mk_holder = map_option fst\<rparr>"

lemma hold_kernel_contract: "mutex_contract hold_kernel (\<lambda>k. k)"
  by (auto simp: mutex_contract_def hold_kernel_def split: option.splits)

definition demo_mutex :: "int \<Rightarrow> mutex_hold \<Rightarrow> mutex_hold pmutex" where
  "demo_mutex ty h = \<lparr>xIsInitialized = True, xMutex = h, xTaskOwner = map_option fst h, iType = ty\<rparr>"

lemma demo_mutex_wf: "ty \<in> {0, 1, 2} \<Longrightarrow> mutex_wf (\<lambda>k. k) (demo_mutex ty h)"
  by (simp add: mutex_wf_def demo_mutex_def)

theorem mutex_refines_witness:
  "(\<exists>m'. pthread_mutex_trylock hold_kernel 1000 (0, Timespec 1 0) 7 (Some (demo_mutex 2 (Some (7, 1)))) = (0, Some m') \<and>
      xMutex m' = Some (7, 2)) \<and>
   (\<exists>m'. pthread_mutex_trylock hold_kernel 1000 (0, Timespec 1 0) 8 (Some (demo_mutex 2 (Some (7, 1)))) = (EBUSY, Some m') \<and>
      xMutex m' = Some (7, 1))"
proof -
  have now: "valid_ts (Timespec 1 0)" "0 \<le> tv_sec (Timespec 1 0)" by (simp_all add: UTILS_ValidateTimespec_def)
  have wf: "mutex_wf (\<lambda>k. k) (demo_mutex 2 (Some (7, 1)))" by (rule demo_mutex_wf) simp
  note R = mutex_refines[OF hold_kernel_contract wf now, where hz = 1000 and clock = "(0, Timespec 1 0)" and abstime = None]
  show ?thesis using R[where self = 7] R[where self = 8] by (auto simp: demo_mutex_def spec_lock_def)
qed

section \<open>Mutual exclusion\<close>

datatype mutex_op = Op_lock | Op_trylock | Op_unlock

text \<open>A history: which task calls what; \<open>bal\<close> counts for each task the successful locks
  less the successful unlocks.\<close>

fun mutex_call ::
  "'k mutex_kernel \<Rightarrow> int \<Rightarrow> int \<times> timespec \<Rightarrow> nat \<Rightarrow> mutex_op \<Rightarrow> 'k pmutex \<Rightarrow> (int \<times> 'k pmutex) exec"
where
  "mutex_call mk hz clock t Op_lock m =
     (case pthread_mutex_lock mk hz clock t (Some m) of (r, Some m') \<Rightarrow> Ret (r, m') | (r, None) \<Rightarrow> Faults)"
| "mutex_call mk hz clock t Op_trylock m =
     (case pthread_mutex_trylock mk hz clock t (Some m) of (r, Some m') \<Rightarrow> Ret (r, m') | (r, None) \<Rightarrow> Faults)"
| "mutex_call mk hz clock t Op_unlock m = pthread_mutex_unlock mk t (Some m)"

fun count_hold :: "mutex_op \<Rightarrow> int \<Rightarrow> nat \<Rightarrow> (nat \<Rightarrow> int) \<Rightarrow> nat \<Rightarrow> int" where
  "count_hold Op_unlock r t bal = (if r = 0 then bal(t := bal t - 1) else bal)"
| "count_hold _ r t bal = (if r = 0 then bal(t := bal t + 1) else bal)"

fun mutex_history ::
  "'k mutex_kernel \<Rightarrow> int \<Rightarrow> int \<times> timespec \<Rightarrow> (nat \<times> mutex_op) list \<Rightarrow> (nat \<Rightarrow> int) \<Rightarrow> 'k pmutex
   \<Rightarrow> ((nat \<Rightarrow> int) \<times> 'k pmutex) exec"
where
  "mutex_history mk hz clock [] bal m = Ret (bal, m)"
| "mutex_history mk hz clock ((t, op) # ops) bal m =
     exec_bind (mutex_call mk hz clock t op m)
      (\<lambda>(r, m'). mutex_history mk hz clock ops (count_hold op r t bal) m')"

definition hold_count :: "mutex_hold \<Rightarrow> nat \<Rightarrow> int" where
  "hold_count h t = (case h of None \<Rightarrow> 0 | Some (o', n) \<Rightarrow> if o' = t then int n else 0)"

definition held_ok :: "('k \<Rightarrow> mutex_hold) \<Rightarrow> (nat \<Rightarrow> int) \<Rightarrow> 'k pmutex \<Rightarrow> bool" where
  "held_ok held bal m \<longleftrightarrow> mutex_wf held m \<and> iType m \<noteq> 0 \<and> (\<forall>t. bal t = hold_count (held (xMutex m)) t) \<and>
     (\<forall>o' n. held (xMutex m) = Some (o', n) \<longrightarrow> 0 < n \<and> (iType m = 1 \<longrightarrow> n = 1))"

lemma lock_count:
  assumes "ty \<in> {1, 2}" "spec_lock ty t h = (r, h')"
    "\<forall>o' n. h = Some (o', n) \<longrightarrow> 0 < n \<and> (ty = 1 \<longrightarrow> n = 1)" "\<forall>t. bal t = hold_count h t"
    "r' = 0 \<longleftrightarrow> r = 0" "op \<noteq> Op_unlock"
  shows "(\<forall>u. count_hold op r' t bal u = hold_count h' u) \<and>
    (\<forall>o' n. h' = Some (o', n) \<longrightarrow> 0 < n \<and> (ty = 1 \<longrightarrow> n = 1))"
  using assms by (cases op) (auto simp: spec_lock_def hold_count_def split: option.splits if_splits)

lemma unlock_count:
  assumes "ty \<in> {1, 2}" "spec_unlock ty t h = (r, h')"
    "\<forall>o' n. h = Some (o', n) \<longrightarrow> 0 < n \<and> (ty = 1 \<longrightarrow> n = 1)" "\<forall>t. bal t = hold_count h t"
  shows "(\<forall>u. count_hold Op_unlock r t bal u = hold_count h' u) \<and>
    (\<forall>o' n. h' = Some (o', n) \<longrightarrow> 0 < n \<and> (ty = 1 \<longrightarrow> n = 1))"
  using assms by (auto simp: spec_unlock_def hold_count_def split: option.splits if_splits)

lemma mutex_call_keeps:
  assumes c: "mutex_contract mk held" and now: "valid_ts now" "0 \<le> tv_sec now" and ok: "held_ok held bal m"
  shows "\<exists>r m'. mutex_call mk hz (0, now) t op m = Ret (r, m') \<and> held_ok held (count_hold op r t bal) m' \<and> iType m' = iType m"
proof -
  have wf: "mutex_wf held m" and ty: "iType m \<in> {1, 2}"
    and bal: "\<forall>u. bal u = hold_count (held (xMutex m)) u"
    and n: "\<forall>o' n. held (xMutex m) = Some (o', n) \<longrightarrow> 0 < n \<and> (iType m = 1 \<longrightarrow> n = 1)"
    using ok by (auto simp: held_ok_def mutex_wf_def)
  obtain r h' where L: "spec_lock (iType m) t (held (xMutex m)) = (r, h')" by fastforce
  obtain ru hu where U: "spec_unlock (iType m) t (held (xMutex m)) = (ru, hu)" by fastforce
  note lk = lock_count[OF ty L n bal]
  note un = unlock_count[OF ty U n bal]
  have d: "fst (mutex_delay hz (0, now) None) = 0" by (simp add: mutex_delay_def)
  have d': "fst (mutex_delay hz (0, now) (Some (Timespec 0 0))) = 0" by (simp add: trylock_delay[OF now])
  show ?thesis
  proof (cases op)
    case Op_lock
    with timedlock_spec[OF c wf d, of t] lk[of r Op_lock] ty L show ?thesis
      by (intro exI[of _ r]) (auto simp: pthread_mutex_lock_def held_ok_def)
  next
    case Op_trylock
    with timedlock_spec[OF c wf d', of t] lk[of "if r = ETIMEDOUT then EBUSY else r" Op_trylock] ty L show ?thesis
      by (intro exI[of _ "if r = ETIMEDOUT then EBUSY else r"]) (auto simp: pthread_mutex_trylock_def held_ok_def)
  next
    case Op_unlock
    with unlock_spec[OF c wf, of t] un ty U show ?thesis
      by (intro exI[of _ ru]) (auto simp: held_ok_def)
  qed
qed

lemma mutex_history_keeps:
  assumes c: "mutex_contract mk held" and now: "valid_ts now" "0 \<le> tv_sec now"
  shows "held_ok held bal m \<Longrightarrow>
    \<exists>bal' m'. mutex_history mk hz (0, now) ops bal m = Ret (bal', m') \<and> held_ok held bal' m' \<and> iType m' = iType m"
proof (induction ops arbitrary: bal m)
  case Nil
  then show ?case by simp
next
  case (Cons x ops)
  obtain t op where x: "x = (t, op)" by (cases x)
  obtain r m1 where 1: "mutex_call mk hz (0, now) t op m = Ret (r, m1)" "held_ok held (count_hold op r t bal) m1" "iType m1 = iType m"
    using mutex_call_keeps[OF c now Cons.prems, of hz t op] by blast
  from Cons.IH[OF 1(2)] show ?case by (simp add: x 1)
qed

text \<open>C12: For an error-checking or a recursive mutex just initialised, after any sequence of
  lock, trylock and unlock calls by any tasks: no call faults, at most one task has
  more successful locks than successful unlocks, no task has more unlocks than locks,
  an error-checking mutex is never held twice, and the owner field is that task.\<close>

theorem mutex_exclusion:
  assumes c: "mutex_contract mk held" and now: "valid_ts now" "0 \<le> tv_sec now" and ty: "ty = 1 \<or> ty = 2"
    and i: "pthread_mutex_init mk (Some ty) (Some m0) = (0, Some m)"
  shows "\<exists>bal m'. mutex_history mk hz (0, now) ops (\<lambda>_. 0) m = Ret (bal, m') \<and>
    (\<forall>t. 0 \<le> bal t \<and> (ty = 1 \<longrightarrow> bal t \<le> 1) \<and> (0 < bal t \<longleftrightarrow> xTaskOwner m' = Some t))"
proof -
  have "held_ok held (\<lambda>_. 0) m \<and> iType m = ty"
    using i ty mutex_contractD(1)[OF c]
    by (auto simp: pthread_mutex_init_def held_ok_def mutex_wf_def hold_count_def FREERTOS_POSIX_MUTEX_INITIALIZER_def
        split: option.splits)
  then obtain bal m' where r: "mutex_history mk hz (0, now) ops (\<lambda>_. 0) m = Ret (bal, m')"
    and h: "held_ok held bal m'" and t: "iType m' = ty" using mutex_history_keeps[OF c now] by blast
  have "0 \<le> bal t \<and> (ty = 1 \<longrightarrow> bal t \<le> 1) \<and> (0 < bal t \<longleftrightarrow> xTaskOwner m' = Some t)" for t
    using h t by (cases "held (xMutex m')") (auto simp: held_ok_def mutex_wf_def hold_count_def split: if_splits)
  with r show ?thesis by blast
qed

theorem mutex_exclusion_witness:
  "\<exists>bal m'. mutex_history hold_kernel 1000 (0, Timespec 1 0)
      [(7, Op_lock), (8, Op_trylock), (7, Op_lock), (8, Op_unlock), (7, Op_unlock)] (\<lambda>_. 0)
      (demo_mutex 2 None) = Ret (bal, m') \<and> 0 \<le> bal 8 \<and> (0 < bal 7) = (xTaskOwner m' = Some 7)"
proof -
  have i: "pthread_mutex_init hold_kernel (Some 2) (Some (demo_mutex 0 None)) = (0, Some (demo_mutex 2 None))"
    by (simp add: pthread_mutex_init_def hold_kernel_def demo_mutex_def FREERTOS_POSIX_MUTEX_INITIALIZER_def)
  have now: "valid_ts (Timespec 1 0)" "0 \<le> tv_sec (Timespec 1 0)" by (simp_all add: UTILS_ValidateTimespec_def)
  have two: "(2::int) = 1 \<or> (2::int) = 2" by simp
  show ?thesis
    using mutex_exclusion[OF hold_kernel_contract now two i,
      of 1000 "[(7, Op_lock), (8, Op_trylock), (7, Op_lock), (8, Op_unlock), (7, Op_unlock)]"] by blast
qed

end
