(* ===== verification/Posix_Cond.thy ===== *)
theory Posix_Cond
  imports Posix_Mutex
begin

text \<open>
  POSIX condition variables (FreeRTOS\<open>_\<close>POSIX\<open>_\<close>pthread\<open>_\<close>cond.c): a counter of waiting threads
  and a kernel counting semaphore.  First the functions as they run alone, then the
  atomic steps of each function, which threads interleave.
\<close>

section \<open>Data\<close>

abbreviation (input) INT_MAX :: nat where "INT_MAX \<equiv> 2147483647"

record 'k cond =
  cIsInitialized :: bool
  xCondWaitSemaphore :: 'k
  iWaitingThreads :: "32 word"

section \<open>The functions\<close>

definition prvInitializeStaticCond :: "'k sem_kernel \<Rightarrow> 'k cond \<Rightarrow> 'k cond" where
  "prvInitializeStaticCond ks c =
    (if \<not> cIsInitialized c
     then c\<lparr>cIsInitialized := True, xCondWaitSemaphore := sk_create ks INT_MAX 0, iWaitingThreads := 0\<rparr>
     else c)"

definition pthread_cond_init :: "'k sem_kernel \<Rightarrow> 'k cond option \<Rightarrow> int \<times> 'k cond option" where
  "pthread_cond_init ks cond =
    (case cond of None \<Rightarrow> (ENOMEM, None)
     | Some c \<Rightarrow> (0, Some (c\<lparr>cIsInitialized := True, xCondWaitSemaphore := sk_create ks INT_MAX 0,
                            iWaitingThreads := 0\<rparr>)))"

definition pthread_cond_destroy :: "'k cond \<Rightarrow> int \<times> 'k cond" where
  "pthread_cond_destroy c =
    (0, if cIsInitialized c then c\<lparr>cIsInitialized := False, iWaitingThreads := 0\<rparr> else c)"

definition Atomic_CompareAndSwap :: "32 word \<Rightarrow> 32 word \<Rightarrow> 'k cond \<Rightarrow> bool \<times> 'k cond" where
  "Atomic_CompareAndSwap exchange comparand c =
    (if iWaitingThreads c = comparand then (True, c\<lparr>iWaitingThreads := exchange\<rparr>) else (False, c))"

definition prvCondGive :: "'k sem_kernel \<Rightarrow> 'k cond \<Rightarrow> 'k cond" where
  "prvCondGive ks c = c\<lparr>xCondWaitSemaphore := sk_give ks (xCondWaitSemaphore c)\<rparr>"

fun give_all :: "'k sem_kernel \<Rightarrow> nat \<Rightarrow> 'k cond \<Rightarrow> 'k cond" where
  "give_all ks 0 c = c"
| "give_all ks (Suc i) c = give_all ks i (prvCondGive ks c)"

text \<open>The compare-and-swap loops, with the local copy of the counter.\<close>

function prvTestAndDecrement :: "32 word \<Rightarrow> 'k cond \<Rightarrow> 'k cond" where
  "prvTestAndDecrement l c =
    (if l > 0 then
       (case Atomic_CompareAndSwap (l - 1) l c of
          (True, c') \<Rightarrow> c'
        | (False, _) \<Rightarrow> prvTestAndDecrement (iWaitingThreads c) c)
     else c)"
  by pat_completeness auto
termination
  by (relation "measure (\<lambda>(l, c). if iWaitingThreads c = l then 0 else 1)")
     (auto simp: Atomic_CompareAndSwap_def split: if_splits)

function signal_loop :: "'k sem_kernel \<Rightarrow> 32 word \<Rightarrow> 'k cond \<Rightarrow> 'k cond" where
  "signal_loop ks l c =
    (if l > 0 then
       (case Atomic_CompareAndSwap (l - 1) l c of
          (True, c') \<Rightarrow> prvCondGive ks c'
        | (False, _) \<Rightarrow> signal_loop ks (iWaitingThreads c) c)
     else c)"
  by pat_completeness auto
termination
  by (relation "measure (\<lambda>(ks, l, c). if iWaitingThreads c = l then 0 else 1)")
     (auto simp: Atomic_CompareAndSwap_def split: if_splits)

function broadcast_loop :: "'k sem_kernel \<Rightarrow> 32 word \<Rightarrow> 'k cond \<Rightarrow> 'k cond" where
  "broadcast_loop ks l c =
    (if l > 0 then
       (case Atomic_CompareAndSwap 0 l c of
          (True, c') \<Rightarrow> give_all ks (unat l) c'
        | (False, _) \<Rightarrow> broadcast_loop ks (iWaitingThreads c) c)
     else c)"
  by pat_completeness auto
termination
  by (relation "measure (\<lambda>(ks, l, c). if iWaitingThreads c = l then 0 else 1)")
     (auto simp: Atomic_CompareAndSwap_def split: if_splits)

definition pthread_cond_signal :: "'k sem_kernel \<Rightarrow> 'k cond \<Rightarrow> 'k cond" where
  "pthread_cond_signal ks c0 =
    (let c = prvInitializeStaticCond ks c0 in signal_loop ks (iWaitingThreads c) c)"

definition pthread_cond_broadcast :: "'k sem_kernel \<Rightarrow> 'k cond \<Rightarrow> 'k cond" where
  "pthread_cond_broadcast ks c0 =
    (let c = prvInitializeStaticCond ks c0 in broadcast_loop ks (iWaitingThreads c) c)"

text \<open>Status and delay for the deadline.\<close>

definition cond_delay :: "int \<Rightarrow> int \<times> timespec \<Rightarrow> timespec option \<Rightarrow> int \<times> int" where
  "cond_delay hz clock abstime =
    (case abstime of None \<Rightarrow> (0, portMAX_DELAY) | Some t \<Rightarrow>
     if fst clock \<noteq> 0 then (EINVAL, portMAX_DELAY)
     else UTILS_AbsoluteTimespecToDeltaTicks hz (Some t) (Some (snd clock)) portMAX_DELAY)"

text \<open>\<open>ktake\<close> is the blocking take of the kernel semaphore: it returns whether a unit was
  taken, and the condition variable and the mutex as this thread and the others have
  left them by then.\<close>

definition pthread_cond_timedwait ::
  "'k sem_kernel \<Rightarrow> 'm mutex_kernel \<Rightarrow> int \<Rightarrow> int \<times> timespec \<Rightarrow> nat
   \<Rightarrow> (int \<Rightarrow> 'k cond \<Rightarrow> 'm pmutex \<Rightarrow> bool \<times> 'k cond \<times> 'm pmutex)
   \<Rightarrow> timespec option \<Rightarrow> 'k cond \<Rightarrow> 'm pmutex option \<Rightarrow> (int \<times> 'k cond \<times> 'm pmutex option) exec"
where
  "pthread_cond_timedwait ks mk hz clock self ktake abstime c0 mutex =
    (let c = prvInitializeStaticCond ks c0 in
     case cond_delay hz clock abstime of (st, delay) \<Rightarrow>
     if st = ETIMEDOUT then Ret (st, c, mutex)
     else if st \<noteq> 0 then Ret (st, prvTestAndDecrement 1 c, mutex)
     else let l = iWaitingThreads c; c1 = c\<lparr>iWaitingThreads := l + 1\<rparr> in
     exec_bind (pthread_mutex_unlock mk self mutex) (\<lambda>(st', m).
       if st' \<noteq> 0 then
         Ret (st', if st' \<noteq> ETIMEDOUT then prvTestAndDecrement (l + 1) c1 else c1, Some m)
       else case ktake delay c1 m of (taken, c2, m2) \<Rightarrow>
         (case pthread_mutex_lock mk hz clock self (Some m2) of (st'', m3) \<Rightarrow>
            if taken then Ret (st'', c2, m3)
            else Ret (ETIMEDOUT, prvTestAndDecrement (l + 1) c2, m3))))"

definition pthread_cond_wait where
  "pthread_cond_wait ks mk hz clock self ktake c mutex =
     pthread_cond_timedwait ks mk hz clock self ktake None c mutex"

declare prvTestAndDecrement.simps [simp del] signal_loop.simps [simp del] broadcast_loop.simps [simp del]

section \<open>Closed forms\<close>

lemma test_and_decrement_eq:
  "prvTestAndDecrement l c =
    (if l = 0 \<or> iWaitingThreads c = 0 then c else c\<lparr>iWaitingThreads := iWaitingThreads c - 1\<rparr>)"
  by (cases "iWaitingThreads c = l")
     (auto simp: prvTestAndDecrement.simps[of l c] prvTestAndDecrement.simps[of "iWaitingThreads c" c]
       prvTestAndDecrement.simps[of 0 c]
       Atomic_CompareAndSwap_def word_neq_0_conv)

lemma signal_loop_eq:
  "signal_loop ks l c = (if l = 0 \<or> iWaitingThreads c = 0 then c
     else prvCondGive ks (c\<lparr>iWaitingThreads := iWaitingThreads c - 1\<rparr>))"
  by (cases "iWaitingThreads c = l")
     (auto simp: signal_loop.simps[of ks l c] signal_loop.simps[of ks "iWaitingThreads c" c]
       signal_loop.simps[of ks 0 c]
       Atomic_CompareAndSwap_def word_neq_0_conv)

lemma broadcast_loop_eq:
  "broadcast_loop ks l c = (if l = 0 \<or> iWaitingThreads c = 0 then c
     else give_all ks (unat (iWaitingThreads c)) (c\<lparr>iWaitingThreads := 0\<rparr>))"
  by (cases "iWaitingThreads c = l")
     (auto simp: broadcast_loop.simps[of ks l c] broadcast_loop.simps[of ks "iWaitingThreads c" c]
       broadcast_loop.simps[of ks 0 c]
       Atomic_CompareAndSwap_def word_neq_0_conv)

section \<open>Interleaved threads\<close>

text \<open>Where a thread is inside one of the functions: at the read of the counter or at the
  compare-and-swap of one of the three loops, with gives left to do, between its
  registration and the unlock of the mutex, or asleep in the kernel.\<close>

datatype cas_loop = In_signal | In_broadcast | In_decrement

datatype cond_pc = Idle | Reload cas_loop | Test cas_loop "32 word" | Give nat
  | Registered "32 word" | Asleep "32 word"

datatype cond_act = Start_signal | Start_broadcast | Start_wait | Start_wait_invalid
  | Unlocked | Unlock_refused | Wake | Expire | Go

fun cond_exec :: "'k sem_kernel \<Rightarrow> cond_act \<Rightarrow> cond_pc \<Rightarrow> 'k cond \<Rightarrow> (cond_pc \<times> 'k cond) option" where
  "cond_exec ks Start_signal Idle c = Some (Reload In_signal, c)"
| "cond_exec ks Start_broadcast Idle c = Some (Reload In_broadcast, c)"
| "cond_exec ks Start_wait Idle c =
    Some (Registered (iWaitingThreads c + 1), c\<lparr>iWaitingThreads := iWaitingThreads c + 1\<rparr>)"
| "cond_exec ks Start_wait_invalid Idle c = Some (Test In_decrement 1, c)"
| "cond_exec ks Unlocked (Registered l) c = Some (Asleep l, c)"
| "cond_exec ks Unlock_refused (Registered l) c = Some (Test In_decrement l, c)"
| "cond_exec ks Wake (Asleep l) c =
    (case sk_acquire ks (xCondWaitSemaphore c) of None \<Rightarrow> None
     | Some k \<Rightarrow> Some (Idle, c\<lparr>xCondWaitSemaphore := k\<rparr>))"
| "cond_exec ks Expire (Asleep l) c =
    (if sk_acquire ks (xCondWaitSemaphore c) = None then Some (Test In_decrement l, c) else None)"
| "cond_exec ks Go (Reload k) c = Some (Test k (iWaitingThreads c), c)"
| "cond_exec ks Go (Test k l) c =
    Some (if l = 0 then (Idle, c)
          else case Atomic_CompareAndSwap (if k = In_broadcast then 0 else l - 1) l c of
            (True, c') \<Rightarrow> (case k of In_signal \<Rightarrow> Give 1 | In_broadcast \<Rightarrow> Give (unat l) | In_decrement \<Rightarrow> Idle, c')
          | (False, _) \<Rightarrow> (Reload k, c))"
| "cond_exec ks Go (Give 0) c = Some (Idle, c)"
| "cond_exec ks Go (Give (Suc i)) c = Some (Give i, prvCondGive ks c)"
| "cond_exec ks _ _ c = None"

record 'k cond_sys =
  the_cond :: "'k cond"
  pcs :: "nat \<Rightarrow> cond_pc"

inductive cond_step :: "'k sem_kernel \<Rightarrow> nat \<Rightarrow> 'k cond_sys \<Rightarrow> nat \<times> cond_act \<Rightarrow> 'k cond_sys \<Rightarrow> bool"
  for ks n
where
  cond_stepI: "t < n \<Longrightarrow> cond_exec ks a (pcs S t) (the_cond S) = Some (p, c) \<Longrightarrow>
    cond_step ks n S (t, a) (S\<lparr>the_cond := c, pcs := (pcs S)(t := p)\<rparr>)"

inductive_cases cond_stepE: "cond_step ks n S (t, a) T"

inductive cond_run :: "'k sem_kernel \<Rightarrow> nat \<Rightarrow> 'k cond_sys \<Rightarrow> (nat \<times> cond_act) list \<Rightarrow> 'k cond_sys \<Rightarrow> bool"
  for ks n S
where
  cond_run_nil: "cond_run ks n S [] S"
| cond_run_snoc: "cond_run ks n S ls T \<Longrightarrow> cond_step ks n T x U \<Longrightarrow> cond_run ks n S (ls @ [x]) U"

definition cond_start :: "'k sem_kernel \<Rightarrow> 'k cond_sys" where
  "cond_start ks = \<lparr>the_cond = \<lparr>cIsInitialized = True, xCondWaitSemaphore = sk_create ks INT_MAX 0,
     iWaitingThreads = 0\<rparr>, pcs = (\<lambda>t. Idle)\<rparr>"

text \<open>A thread that runs alone until it is done.\<close>

fun run_alone :: "'k sem_kernel \<Rightarrow> nat \<Rightarrow> cond_pc \<Rightarrow> 'k cond \<Rightarrow> (cond_pc \<times> 'k cond) option" where
  "run_alone ks 0 p c = Some (p, c)"
| "run_alone ks (Suc n) p c = (if p = Idle then Some (p, c) else
    case cond_exec ks Go p c of None \<Rightarrow> None | Some (p', c') \<Rightarrow> run_alone ks n p' c')"

lemma run_alone_Idle [simp]: "run_alone ks n Idle c = Some (Idle, c)"
  by (cases n) simp_all

lemma run_alone_give: "i < n \<Longrightarrow> run_alone ks n (Give i) c = Some (Idle, give_all ks i c)"
proof (induction i arbitrary: n c)
  case 0
  then show ?case by (cases n) simp_all
next
  case (Suc i)
  then show ?case by (cases n) simp_all
qed

lemma run_alone_give_unfolded:
  "(case cond_exec ks Go (Give i) c of None \<Rightarrow> None | Some (x, y) \<Rightarrow> run_alone ks i x y) = Some (Idle, give_all ks i c)"
  using run_alone_give[of i "Suc i" ks c] by simp

text \<open>A thread that runs the atomic steps of a function alone computes exactly the function:
  signalling, broadcasting, and undoing a registration from any copy of the counter.\<close>

theorem cond_steps_alone:
  "run_alone ks 4 (Reload In_signal) (prvInitializeStaticCond ks c) = Some (Idle, pthread_cond_signal ks c) \<and>
   run_alone ks (unat (iWaitingThreads (prvInitializeStaticCond ks c)) + 3) (Reload In_broadcast)
     (prvInitializeStaticCond ks c) = Some (Idle, pthread_cond_broadcast ks c) \<and>
   run_alone ks 3 (Test In_decrement l) c = Some (Idle, prvTestAndDecrement l c)"
proof (intro conjI)
  show "run_alone ks 3 (Test In_decrement l) c = Some (Idle, prvTestAndDecrement l c)"
    by (auto simp: test_and_decrement_eq Atomic_CompareAndSwap_def numeral_eq_Suc)
  let ?c = "prvInitializeStaticCond ks c"
  show "run_alone ks 4 (Reload In_signal) ?c = Some (Idle, pthread_cond_signal ks c)"
    by (auto simp: pthread_cond_signal_def Let_def signal_loop_eq Atomic_CompareAndSwap_def numeral_eq_Suc)
  show "run_alone ks (unat (iWaitingThreads ?c) + 3) (Reload In_broadcast) ?c = Some (Idle, pthread_cond_broadcast ks c)"
    by (auto simp: pthread_cond_broadcast_def Let_def broadcast_loop_eq Atomic_CompareAndSwap_def numeral_eq_Suc run_alone_give_unfolded)
qed

section \<open>The invariant\<close>

text \<open>Which threads have registered and not taken it back, and how many units a thread still
  has to give.\<close>

fun registered :: "cond_pc \<Rightarrow> nat" where
  "registered (Registered l) = 1"
| "registered (Asleep l) = 1"
| "registered (Reload In_decrement) = 1"
| "registered (Test In_decrement l) = 1"
| "registered _ = 0"

fun owed :: "cond_pc \<Rightarrow> nat" where
  "owed (Give i) = i"
| "owed _ = 0"

definition threads_sum :: "nat \<Rightarrow> (cond_pc \<Rightarrow> nat) \<Rightarrow> 'k cond_sys \<Rightarrow> nat" where
  "threads_sum n f S = (\<Sum>t<n. f (pcs S t))"

lemma threads_sum_update:
  assumes "t < n"
  shows "threads_sum n f (S\<lparr>the_cond := c, pcs := (pcs S)(t := p)\<rparr>) + f (pcs S t) = threads_sum n f S + f p"
proof -
  have "(\<Sum>u\<in>{..<n} - {t}. f (if u = t then p else pcs S u)) = (\<Sum>u\<in>{..<n} - {t}. f (pcs S u))"
    by (rule sum.cong) auto
  then show ?thesis
    using sum.remove[of "{..<n}" t "\<lambda>u. f (pcs S u)"] sum.remove[of "{..<n}" t "\<lambda>u. f (if u = t then p else pcs S u)"] assms
    by (simp add: threads_sum_def)
qed

text \<open>Every registered thread is covered by the counter, a kernel unit or a unit that is
  about to be given, and together these are at most the number of steps.\<close>

definition cond_ok :: "('k \<Rightarrow> nat) \<Rightarrow> nat \<Rightarrow> nat \<Rightarrow> 'k cond_sys \<Rightarrow> bool" where
  "cond_ok cnt n m S \<longleftrightarrow> cIsInitialized (the_cond S) \<and>
    (let supply = unat (iWaitingThreads (the_cond S)) + cnt (xCondWaitSemaphore (the_cond S)) + threads_sum n owed S
     in threads_sum n registered S \<le> supply \<and> supply \<le> m)"

lemma registered_test: "registered (Test k l) = registered (Reload k)"
  by (cases k) simp_all

lemma unat_minus_1: "w \<noteq> 0 \<Longrightarrow> unat (w - 1 :: 32 word) = unat w - 1 \<and> 0 < unat w"
  by (simp add: unat_minus_one unat_gt_0)

lemma unat_plus_1: "unat w < INT_MAX \<Longrightarrow> unat (w + 1 :: 32 word) = unat w + 1"
  using unat_word_ariths(1)[of w 1] by simp

lemma cond_exec_supply:
  assumes ks: "counting_upto INT_MAX ks cnt" and e: "cond_exec ks a p c = Some (p', c')"
    and a: "a \<noteq> Start_wait_invalid"
    and lim: "unat (iWaitingThreads c) + cnt (xCondWaitSemaphore c) + owed p < INT_MAX"
  shows "let s = unat (iWaitingThreads c) + cnt (xCondWaitSemaphore c) + owed p;
             s' = unat (iWaitingThreads c') + cnt (xCondWaitSemaphore c') + owed p'
         in s' \<le> s + 1 \<and> s + registered p' \<le> s' + registered p"
proof (cases "\<exists>k l. a = Go \<and> p = Test k l")
  case True
  then obtain k l where "a = Go" "p = Test k l" by blast
  with e show ?thesis
    by (cases k) (auto simp: Atomic_CompareAndSwap_def unat_minus_1 split: if_splits)
next
  case False
  then show ?thesis using e a lim counting_kernelD(2)[OF ks] unat_plus_1
    by (elim cond_exec.elims) (auto simp: prvCondGive_def registered_test dest!: counting_kernelD(4)[OF ks] split: option.splits if_splits)
qed

lemma cond_exec_init: "cond_exec ks a p c = Some (p', c') \<Longrightarrow> cIsInitialized c' = cIsInitialized c"
  by (elim cond_exec.elims)
     (auto simp: Atomic_CompareAndSwap_def prvCondGive_def split: if_splits option.splits)

lemma cond_step_ok:
  assumes ks: "counting_upto INT_MAX ks cnt" and step: "cond_step ks n S (t, a) T"
    and a: "a \<noteq> Start_wait_invalid" and ok: "cond_ok cnt n m S" and m: "m < INT_MAX"
  shows "cond_ok cnt n (m + 1) T"
  using step
proof cases
  case (cond_stepI p c)
  have o: "owed (pcs S t) \<le> threads_sum n owed S"
    unfolding threads_sum_def using cond_stepI(2) by (intro member_le_sum) auto
  then have lim: "unat (iWaitingThreads (the_cond S)) + cnt (xCondWaitSemaphore (the_cond S)) + owed (pcs S t) < INT_MAX"
    using ok m by (simp add: cond_ok_def Let_def)
  show ?thesis
    using cond_exec_supply[OF ks cond_stepI(3) a lim] threads_sum_update[OF cond_stepI(2), where f = owed and S = S and c = c and p = p]
      threads_sum_update[OF cond_stepI(2), where f = registered and S = S and c = c and p = p] cond_exec_init[OF cond_stepI(3)] ok o
    by (simp add: cond_ok_def Let_def cond_stepI(1))
qed

lemma cond_run_ok:
  assumes ks: "counting_upto INT_MAX ks cnt" and run: "cond_run ks n (cond_start ks) ls T"
  shows "length ls < INT_MAX \<Longrightarrow> \<forall>(t, a)\<in>set ls. a \<noteq> Start_wait_invalid \<Longrightarrow> cond_ok cnt n (length ls) T"
  using run
proof (induction rule: cond_run.induct)
  case cond_run_nil
  then show ?case using counting_kernelD(1)[OF ks, of 0]
    by (simp add: cond_ok_def cond_start_def threads_sum_def)
next
  case (cond_run_snoc ls T x U)
  obtain t a where x: "x = (t, a)" by (cases x)
  have "cond_ok cnt n (length ls) T" using cond_run_snoc.IH cond_run_snoc.prems by auto
  from cond_step_ok[OF ks cond_run_snoc.hyps(2)[unfolded x] _ this] show ?case
    using cond_run_snoc.prems x by auto
qed

lemma give_all_simps [simp]:
  "iWaitingThreads (give_all ks i c) = iWaitingThreads c"
  by (induction i arbitrary: c) (simp_all add: prvCondGive_def)

lemma give_all_cnt:
  assumes ks: "counting_upto INT_MAX ks cnt"
  shows "cnt (xCondWaitSemaphore c) + i \<le> INT_MAX \<Longrightarrow>
    cnt (xCondWaitSemaphore (give_all ks i c)) = cnt (xCondWaitSemaphore c) + i"
proof (induction i arbitrary: c)
  case 0
  then show ?case by simp
next
  case (Suc i)
  have "cnt (xCondWaitSemaphore (prvCondGive ks c)) = cnt (xCondWaitSemaphore c) + 1"
    using counting_kernelD(2)[OF ks] Suc.prems by (simp add: prvCondGive_def)
  then show ?case using Suc by simp
qed

fun asleep :: "cond_pc \<Rightarrow> bool" where
  "asleep (Asleep l) = True"
| "asleep _ = False"

lemma asleep_registered: "card {t. t < n \<and> asleep (pcs S t)} \<le> threads_sum n registered S"
proof -
  have "card {t. t < n \<and> asleep (pcs S t)} = (\<Sum>t<n. if asleep (pcs S t) then 1 else 0)"
    by (simp add: sum.If_cases Collect_conj_eq lessThan_def Int_commute)
  also have "\<dots> \<le> (\<Sum>t<n. registered (pcs S t))"
    by (rule sum_mono) (auto elim: asleep.elims)
  finally show ?thesis by (simp add: threads_sum_def)
qed

section \<open>No wake-up is lost\<close>


text \<open>A thread that goes to sleep.\<close>

definition one_asleep :: "'k sem_kernel \<Rightarrow> 'k cond_sys" where
  "one_asleep ks = \<lparr>the_cond = (the_cond (cond_start ks))\<lparr>iWaitingThreads := 1\<rparr>, pcs = (\<lambda>t. Idle)(0 := Asleep 1)\<rparr>"

lemma one_asleep_run: "0 < n \<Longrightarrow> cond_run ks n (cond_start ks) [(0, Start_wait), (0, Unlocked)] (one_asleep ks)"
proof -
  assume n: "0 < n"
  let ?T = "\<lparr>the_cond = (the_cond (cond_start ks))\<lparr>iWaitingThreads := 1\<rparr>, pcs = (\<lambda>t. Idle)(0 := Registered 1)\<rparr>"
  have 1: "cond_step ks n (cond_start ks) (0, Start_wait) ?T"
    using cond_stepI[OF n, of ks Start_wait "cond_start ks"] by (simp add: cond_start_def)
  have 2: "cond_step ks n ?T (0, Unlocked) (one_asleep ks)"
    using cond_stepI[OF n, of ks Unlocked ?T] by (simp add: one_asleep_def)
  show ?thesis using cond_run_snoc[OF cond_run_snoc[OF cond_run_nil 1] 2] by simp
qed


section \<open>An invalid deadline\<close>

text \<open>A timed wait that is refused for its deadline (EINVAL) undoes a registration that it has
  not made: when one thread waits, that thread's registration is gone, so that signal
  and broadcast do nothing and it sleeps on.\<close>

theorem cond_invalid_deadline:
  assumes "cIsInitialized c" "iWaitingThreads c = 1" "fst (cond_delay hz clock abstime) = EINVAL"
  shows "pthread_cond_timedwait ks mk hz clock self ktake abstime c mutex =
      Ret (EINVAL, c\<lparr>iWaitingThreads := 0\<rparr>, mutex) \<and>
    pthread_cond_signal ks (c\<lparr>iWaitingThreads := 0\<rparr>) = c\<lparr>iWaitingThreads := 0\<rparr> \<and>
    pthread_cond_broadcast ks (c\<lparr>iWaitingThreads := 0\<rparr>) = c\<lparr>iWaitingThreads := 0\<rparr>"
proof -
  obtain d where "cond_delay hz clock abstime = (EINVAL, d)" using assms(3) by (cases "cond_delay hz clock abstime") simp
  then show ?thesis using assms(1,2)
    by (simp add: pthread_cond_timedwait_def prvInitializeStaticCond_def test_and_decrement_eq
        pthread_cond_signal_def pthread_cond_broadcast_def signal_loop_eq broadcast_loop_eq Let_def)
qed

theorem cond_invalid_deadline_witness:
  "pthread_cond_timedwait (count_kernel INT_MAX) hold_kernel 1000 (0, Timespec 1 0) 7 (\<lambda>d c m. (True, c, m))
     (Some (Timespec 5000000 0)) (the_cond (one_asleep (count_kernel INT_MAX))) None =
   Ret (EINVAL, (the_cond (one_asleep (count_kernel INT_MAX)))\<lparr>iWaitingThreads := 0\<rparr>, None)"
proof -
  have "fst (cond_delay 1000 (0, Timespec 1 0) (Some (Timespec 5000000 0))) = EINVAL" by code_simp
  from cond_invalid_deadline[OF _ _ this, where c = "the_cond (one_asleep (count_kernel INT_MAX))" and ks = "count_kernel INT_MAX"
      and mk = hold_kernel and self = 7 and ktake = "\<lambda>d c m. (True, c, m)" and mutex = None]
  show ?thesis by (simp add: one_asleep_def cond_start_def)
qed

section \<open>The mutex of a wait\<close>

text \<open>A wait whose caller holds the mutex returns with the caller holding it again, whatever
  the outcome (woken, timed out, refused), provided that the threads that run meanwhile
  leave the mutex well formed and free when this one relocks it.\<close>

theorem cond_wait_relocks:
  assumes mk: "mutex_contract mk held" and wf: "mutex_wf held m" and h: "held (xMutex m) = Some (self, 1)"
    and env: "\<And>d c m. mutex_wf held (snd (snd (ktake d c m))) \<and> held (xMutex (snd (snd (ktake d c m)))) = None"
  shows "\<exists>st c' m'. pthread_cond_timedwait ks mk hz clock self ktake abstime c (Some m) = Ret (st, c', Some m') \<and>
    st \<in> {fst (cond_delay hz clock abstime), ETIMEDOUT} \<and> mutex_wf held m' \<and> held (xMutex m') = Some (self, 1)"
proof -
  obtain st d where d: "cond_delay hz clock abstime = (st, d)" by fastforce
  obtain m1 where u: "pthread_mutex_unlock mk self (Some m) = Ret (0, m1)"
    using unlock_spec[OF mk wf, of self] h by (auto simp: spec_unlock_def)
  obtain taken c2 m2 where k: "ktake d ((prvInitializeStaticCond ks c)\<lparr>iWaitingThreads :=
      iWaitingThreads (prvInitializeStaticCond ks c) + 1\<rparr>) m1 = (taken, c2, m2)" by (metis prod_cases3)
  have m2: "mutex_wf held m2" "held (xMutex m2) = None" using env[of d _ m1] k by (metis snd_conv)+
  have d0: "fst (mutex_delay hz clock None) = 0" by (simp add: mutex_delay_def)
  obtain m3 where l: "pthread_mutex_lock mk hz clock self (Some m2) = (0, Some m3)" "mutex_wf held m3"
    "held (xMutex m3) = Some (self, 1)"
    using timedlock_spec[OF mk m2(1) d0, of self] m2(2) by (auto simp: spec_lock_def pthread_mutex_lock_def)
  show ?thesis using d u k l wf h by (auto simp: pthread_cond_timedwait_def Let_def)
qed

theorem cond_wait_relocks_witness:
  "\<exists>st c' m'. pthread_cond_timedwait (count_kernel INT_MAX) hold_kernel 1000 (0, Timespec 1 0) 7
      (\<lambda>d c m. (True, c, demo_mutex 1 None)) None (the_cond (one_asleep (count_kernel INT_MAX)))
      (Some (demo_mutex 1 (Some (7, 1)))) = Ret (st, c', Some m') \<and> xMutex m' = Some (7, 1)"
proof -
  have wf: "mutex_wf (\<lambda>k. k) (demo_mutex 1 (Some (7, 1)))" "mutex_wf (\<lambda>k. k) (demo_mutex 1 None)"
    by (rule demo_mutex_wf; simp)+
  show ?thesis
    using cond_wait_relocks[OF hold_kernel_contract wf(1), where self = 7 and ks = "count_kernel INT_MAX" and hz = 1000
        and ktake = "\<lambda>d c m. (True, c, demo_mutex 1 None)" and clock = "(0, Timespec 1 0)" and abstime = None
        and c = "the_cond (one_asleep (count_kernel INT_MAX))"] wf(2)
    by (simp add: demo_mutex_def) blast
qed

end
