(* ===== verification/Transport.thy ===== *)
theory Transport
  imports Rpc_Client
begin

text \<open>
  The OpenAMP transport of the Cortex-R8 (src/runtime/main\<open>_\<close>task\<open>_\<close>entry.c): the three RPMsg
  endpoints, their creation and the wait for the peer, the tear-down, and the watchdog
  task that repeats both as the CA55 agent comes and goes.  The RPMsg core, the
  platform layer and the kernel are the record of functions \<open>tr_env\<close> over a world
  \<open>'w\<close>; the calls that create and release something are logged in the state.
  The conversion from milliseconds to ticks is the function \<open>ms\<open>_\<close>ticks\<close>.  Messages printed
  and the diagnostics of the fault hooks are not modelled.
\<close>

section \<open>Data\<close>

text \<open>\<open>struct rpmsg\<open>_\<close>endpoint\<close>; a device is a handle.\<close>

record rp_ept =
  ep_rdev :: "nat option"
  ep_addr :: "32 word"
  ep_dest :: "32 word"

definition ept_cleared :: rp_ept where
  "ept_cleared = \<lparr>ep_rdev = None, ep_addr = 0, ep_dest = 0\<rparr>"

datatype ept_id = Ept_rpc | Ept_uxrce | Ept_logger

datatype tr_call = Platform_up nat | Platform_down nat | Vdev_up nat | Vdev_down nat | Ept_destroyed ept_id

record 'w transport =
  g_openamp_initialized :: bool
  g_system_initialized :: bool
  g_platform_rpc :: "nat option"
  rpdev :: "nat option"
  rpdev_uxrce :: "nat option"
  rpmsg_ept :: rp_ept
  rpmsg_ept_uxrce :: rp_ept
  rpmsg_ept_logger :: rp_ept
  evt_svc_unbind :: int
  evt_svc_unbind_uxrce :: int
  evt_svc_unbind_logger :: int
  tr_calls :: "tr_call list"
  tr_world :: 'w

record 'w tr_env =
  e_init_system :: "'w \<Rightarrow> int \<times> 'w"
  e_platform_init :: "'w \<Rightarrow> nat option \<times> 'w"
  e_create_vdev :: "nat \<Rightarrow> 'w \<Rightarrow> nat option \<times> 'w"
  e_release_vdev :: "nat \<Rightarrow> 'w \<Rightarrow> 'w"
  e_platform_cleanup :: "nat \<Rightarrow> 'w \<Rightarrow> 'w"
  e_create_ept :: "ept_id \<Rightarrow> nat \<Rightarrow> 'w \<Rightarrow> int \<times> rp_ept \<times> 'w"
  e_send_ns :: "ept_id \<Rightarrow> 'w \<Rightarrow> int \<times> 'w"
  e_poll :: "rp_ept \<times> rp_ept \<times> rp_ept \<Rightarrow> 'w \<Rightarrow> (rp_ept \<times> rp_ept \<times> rp_ept) \<times> 'w"
  e_ticks :: "'w \<Rightarrow> 32 word \<times> 'w"
  e_delay :: "nat \<Rightarrow> 'w \<Rightarrow> 'w"
  e_try_acquire :: "'w \<Rightarrow> bool \<times> 'w"

definition transport_boot :: "'w \<Rightarrow> 'w transport" where
  "transport_boot w =
     \<lparr>g_openamp_initialized = False, g_system_initialized = False, g_platform_rpc = None, rpdev = None,
      rpdev_uxrce = None, rpmsg_ept = ept_cleared, rpmsg_ept_uxrce = ept_cleared, rpmsg_ept_logger = ept_cleared,
      evt_svc_unbind = 0, evt_svc_unbind_uxrce = 0, evt_svc_unbind_logger = 0, tr_calls = [], tr_world = w\<rparr>"

section \<open>Calls to the environment\<close>

definition log_call :: "tr_call \<Rightarrow> 'w transport \<Rightarrow> 'w transport" where
  "log_call x st = st\<lparr>tr_calls := tr_calls st @ [x]\<rparr>"

definition platform_release_rpmsg_vdev :: "'w tr_env \<Rightarrow> 'w transport \<Rightarrow> 'w transport" where
  "platform_release_rpmsg_vdev env st =
    (case rpdev st of None \<Rightarrow> st
     | Some d \<Rightarrow> log_call (Vdev_down d) (st\<lparr>tr_world := e_release_vdev env d (tr_world st)\<rparr>))"

definition platform_poll :: "'w tr_env \<Rightarrow> 'w transport \<Rightarrow> 'w transport" where
  "platform_poll env st =
    (case e_poll env (rpmsg_ept st, rpmsg_ept_uxrce st, rpmsg_ept_logger st) (tr_world st) of
       ((a, b, c), w) \<Rightarrow> st\<lparr>rpmsg_ept := a, rpmsg_ept_uxrce := b, rpmsg_ept_logger := c, tr_world := w\<rparr>)"

definition vTaskDelay :: "'w tr_env \<Rightarrow> nat \<Rightarrow> 'w transport \<Rightarrow> 'w transport" where
  "vTaskDelay env n st = st\<lparr>tr_world := e_delay env n (tr_world st)\<rparr>"

definition send_ns :: "'w tr_env \<Rightarrow> ept_id \<Rightarrow> 'w transport \<Rightarrow> int \<times> 'w transport" where
  "send_ns env e st = (case e_send_ns env e (tr_world st) of (r, w) \<Rightarrow> (r, st\<lparr>tr_world := w\<rparr>))"

section \<open>Creating the endpoints\<close>

text \<open>The first stage: system, platform and the RPMsg device; \<open>None\<close> is a failure.\<close>

definition bring_up_device :: "'w tr_env \<Rightarrow> 'w transport \<Rightarrow> nat option \<times> 'w transport" where
  "bring_up_device env st0 =
    (case (if g_system_initialized st0 then (True, st0)
           else case e_init_system env (tr_world st0) of (r, w) \<Rightarrow>
             if r \<noteq> 0 then (False, st0\<lparr>tr_world := w\<rparr>)
             else (True, st0\<lparr>tr_world := w, g_system_initialized := True\<rparr>)) of
       (False, st1) \<Rightarrow> (None, st1)
     | (True, st1) \<Rightarrow>
        (case (case g_platform_rpc st1 of Some p \<Rightarrow> (Some p, st1)
               | None \<Rightarrow> (case e_platform_init env (tr_world st1) of
                   (None, w) \<Rightarrow> (None, st1\<lparr>tr_world := w\<rparr>)
                 | (Some p, w) \<Rightarrow> (Some p, log_call (Platform_up p) (st1\<lparr>tr_world := w, g_platform_rpc := Some p\<rparr>)))) of
           (None, st2) \<Rightarrow> (None, st2)
         | (Some p, st2) \<Rightarrow>
            (case e_create_vdev env p (tr_world st2) of
               (None, w) \<Rightarrow> (None, st2\<lparr>tr_world := w, rpdev := None\<rparr>)
             | (Some d, w) \<Rightarrow>
                 (Some d, log_call (Vdev_up d) (st2\<lparr>tr_world := w, rpdev := Some d, rpdev_uxrce := Some d\<rparr>)))))"

text \<open>The second stage: the endpoints, the first two required.\<close>

definition create_endpoints :: "'w tr_env \<Rightarrow> nat \<Rightarrow> 'w transport \<Rightarrow> bool \<times> 'w transport" where
  "create_endpoints env d st0 =
    (case e_create_ept env Ept_rpc d (tr_world st0) of (ret, ept, w) \<Rightarrow>
     let st1 = st0\<lparr>rpmsg_ept := ept, tr_world := w\<rparr> in
     if ret \<noteq> 0 then
       (False, (platform_release_rpmsg_vdev env st1)\<lparr>rpdev := None, rpmsg_ept := ept_cleared\<rparr>)
     else case e_create_ept env Ept_uxrce d (tr_world st1) of (ret_uxrce, ept_uxrce, w1) \<Rightarrow>
     let st2 = st1\<lparr>rpmsg_ept_uxrce := ept_uxrce, tr_world := w1\<rparr> in
     if ret_uxrce \<noteq> 0 then
       (let st3 = (log_call (Ept_destroyed Ept_rpc) st2)\<lparr>rpmsg_ept := ept_cleared\<rparr>
        in (False, (platform_release_rpmsg_vdev env st3)\<lparr>rpdev := None, rpdev_uxrce := None\<rparr>))
     else let st3 = st2\<lparr>rpmsg_ept_logger := ept_cleared\<rparr> in
     case e_create_ept env Ept_logger d (tr_world st3) of (ret_logger, ept_logger, w2) \<Rightarrow>
       (True, st3\<lparr>rpmsg_ept_logger := (if ret_logger \<noteq> 0 then ept_cleared else ept_logger), tr_world := w2\<rparr>))"

section \<open>Waiting for the peer\<close>

definition is_rpmsg_ept_ready :: "rp_ept \<Rightarrow> bool" where
  "is_rpmsg_ept_ready e \<longleftrightarrow> ep_dest e \<noteq> RPMSG_ADDR_ANY \<and> ep_addr e \<noteq> RPMSG_ADDR_ANY"

definition ept_usable :: "rp_ept \<Rightarrow> bool" where
  "ept_usable e \<longleftrightarrow> ep_rdev e \<noteq> None \<and> ep_dest e \<noteq> RPMSG_ADDR_ANY \<and> is_rpmsg_ept_ready e"

text \<open>The announcements of one round: \<open>rpc\<close> and \<open>uxrce\<close> say which endpoints are ready; returns
  whether the logger endpoint has been announced.\<close>

definition announce :: "'w tr_env \<Rightarrow> bool \<Rightarrow> bool \<Rightarrow> bool \<Rightarrow> 'w transport \<Rightarrow> bool \<times> 'w transport" where
  "announce env rpc uxrce logger_ns_sent st =
    (let st1 = (if \<not> rpc then snd (send_ns env Ept_rpc st) else st);
         st2 = (if \<not> uxrce then snd (send_ns env Ept_uxrce st1) else st1)
     in if \<not> logger_ns_sent \<and> ep_rdev (rpmsg_ept_logger st2) \<noteq> None
        then (case send_ns env Ept_logger st2 of (r, st3) \<Rightarrow> (r = 0, st3))
        else (logger_ns_sent, st2))"

text \<open>The announcements are repeated every half second; returns also the tick count of the last
  one.\<close>

definition announce_due ::
  "'w tr_env \<Rightarrow> (nat \<Rightarrow> nat) \<Rightarrow> 32 word \<Rightarrow> 32 word \<Rightarrow> bool \<Rightarrow> bool \<Rightarrow> bool \<Rightarrow> 'w transport \<Rightarrow> bool \<times> 32 word \<times> 'w transport"
where
  "announce_due env ms_ticks now last_ns rpc uxrce logger_ns_sent st =
    (if unat (now - last_ns) \<ge> ms_ticks 500
     then (case announce env rpc uxrce logger_ns_sent st of (sent, st') \<Rightarrow> (sent, now, st'))
     else (logger_ns_sent, last_ns, st))"

definition give_up :: "'w tr_env \<Rightarrow> 'w transport \<Rightarrow> 'w transport" where
  "give_up env st =
    (let st1 = (log_call (Ept_destroyed Ept_uxrce) (log_call (Ept_destroyed Ept_rpc) st))
                 \<lparr>rpmsg_ept := ept_cleared, rpmsg_ept_uxrce := ept_cleared\<rparr>
     in (platform_release_rpmsg_vdev env st1)\<lparr>rpdev := None, rpdev_uxrce := None\<rparr>)"

text \<open>The loop, with the tick counts of the start and of the last announcement; the fuel
  bounds the rounds.\<close>

fun transport_wait ::
  "'w tr_env \<Rightarrow> (nat \<Rightarrow> nat) \<Rightarrow> nat \<Rightarrow> 32 word \<Rightarrow> 32 word \<Rightarrow> bool \<Rightarrow> bool \<Rightarrow> bool \<Rightarrow> 'w transport
   \<Rightarrow> (bool \<times> 'w transport) exec"
where
  "transport_wait env ms_ticks 0 start last_ns rpc_ready uxrce_ready logger_ns_sent st = Diverges"
| "transport_wait env ms_ticks (Suc fuel) start last_ns rpc_ready uxrce_ready logger_ns_sent st =
    (if rpc_ready \<and> uxrce_ready then
       (let st1 = (if \<not> logger_ns_sent \<and> ep_rdev (rpmsg_ept_logger st) \<noteq> None
                   then snd (send_ns env Ept_logger st) else st)
        in Ret (True, st1\<lparr>g_openamp_initialized := True\<rparr>))
     else case e_ticks env (tr_world st) of (now, w) \<Rightarrow>
     let st1 = st\<lparr>tr_world := w\<rparr> in
     if unat (now - start) > ms_ticks 15000 then Ret (False, give_up env st1)
     else let rpc = ept_usable (rpmsg_ept st1); uxrce = ept_usable (rpmsg_ept_uxrce st1) in
     case announce_due env ms_ticks now last_ns rpc uxrce logger_ns_sent st1 of (sent, last_ns', st2) \<Rightarrow>
         transport_wait env ms_ticks fuel start last_ns' rpc uxrce sent
           (vTaskDelay env (ms_ticks 20) (platform_poll env st2)))"

definition initialize_openamp_transport :: "'w tr_env \<Rightarrow> (nat \<Rightarrow> nat) \<Rightarrow> nat \<Rightarrow> 'w transport \<Rightarrow> (bool \<times> 'w transport) exec" where
  "initialize_openamp_transport env ms_ticks fuel st =
    (if g_openamp_initialized st then Ret (True, st)
     else case bring_up_device env st of
       (None, st1) \<Rightarrow> Ret (False, st1)
     | (Some d, st1) \<Rightarrow>
        (case create_endpoints env d st1 of
           (False, st2) \<Rightarrow> Ret (False, st2)
         | (True, st2) \<Rightarrow>
            let st3 = vTaskDelay env (ms_ticks 50) (platform_poll env st2) in
            case e_ticks env (tr_world st3) of (start, w) \<Rightarrow>
              transport_wait env ms_ticks fuel start (start - of_nat (ms_ticks 600)) False False False
                (st3\<lparr>tr_world := w\<rparr>)))"

section \<open>Tear-down and watchdog\<close>

definition cleanup_openamp_transport :: "'w tr_env \<Rightarrow> 'w transport \<Rightarrow> 'w transport" where
  "cleanup_openamp_transport env st =
    (let st1 = (if ep_rdev (rpmsg_ept_logger st) \<noteq> None
                then (log_call (Ept_destroyed Ept_logger) st)\<lparr>rpmsg_ept_logger := ept_cleared\<rparr> else st);
         st2 = (if ep_rdev (rpmsg_ept_uxrce st1) \<noteq> None
                then (log_call (Ept_destroyed Ept_uxrce) st1)\<lparr>rpmsg_ept_uxrce := ept_cleared\<rparr> else st1);
         st3 = (if ep_rdev (rpmsg_ept st2) \<noteq> None
                then (log_call (Ept_destroyed Ept_rpc) st2)\<lparr>rpmsg_ept := ept_cleared\<rparr> else st2);
         st4 = (if rpdev st3 \<noteq> None \<and> g_platform_rpc st3 \<noteq> None
                then (platform_release_rpmsg_vdev env st3)\<lparr>rpdev := None, rpdev_uxrce := None\<rparr> else st3);
         st5 = (case g_platform_rpc st4 of None \<Rightarrow> st4
                | Some p \<Rightarrow> (log_call (Platform_down p) st4)
                    \<lparr>tr_world := e_platform_cleanup env p (tr_world st4), g_platform_rpc := None\<rparr>)
     in st5\<lparr>evt_svc_unbind := 0, evt_svc_unbind_uxrce := 0, evt_svc_unbind_logger := 0,
            g_openamp_initialized := False\<rparr>)"

datatype watchdog_phase = Wait_driver | Initialise | Monitor

text \<open>One turn of the watchdog task: the phase, and the bit \<open>DRIVER\<open>_\<close>OK\<close> as it reads.\<close>

fun watchdog_turn ::
  "'w tr_env \<Rightarrow> (nat \<Rightarrow> nat) \<Rightarrow> nat \<Rightarrow> watchdog_phase \<Rightarrow> bool \<Rightarrow> 'w transport \<Rightarrow> (watchdog_phase \<times> 'w transport) exec"
where
  "watchdog_turn env ms_ticks fuel Wait_driver driver_ok st =
    Ret (if driver_ok then (Initialise, st) else (Wait_driver, vTaskDelay env (ms_ticks 200) st))"
| "watchdog_turn env ms_ticks fuel Initialise driver_ok st =
    exec_bind (initialize_openamp_transport env ms_ticks fuel st) (\<lambda>(ok, st').
      Ret (if ok then (Monitor, st') else (Initialise, vTaskDelay env (ms_ticks 200) st')))"
| "watchdog_turn env ms_ticks fuel Monitor driver_ok st =
    Ret (if driver_ok then (Monitor, vTaskDelay env (ms_ticks 200) st)
         else (Wait_driver, cleanup_openamp_transport env st))"

fun openamp_background_init_task ::
  "'w tr_env \<Rightarrow> (nat \<Rightarrow> nat) \<Rightarrow> nat \<Rightarrow> bool list \<Rightarrow> watchdog_phase \<Rightarrow> 'w transport \<Rightarrow> (watchdog_phase \<times> 'w transport) exec"
where
  "openamp_background_init_task env ms_ticks fuel [] ph st = Ret (ph, st)"
| "openamp_background_init_task env ms_ticks fuel (b # bs) ph st =
    exec_bind (watchdog_turn env ms_ticks fuel ph b st)
      (\<lambda>(ph', st'). openamp_background_init_task env ms_ticks fuel bs ph' st')"

section \<open>Callbacks and the transport lock\<close>

text \<open>The callback of the RPC endpoint: an absent message is \<open>None\<close>.\<close>

definition px4_rpmsg_recv_callback ::
  "bytes option \<Rightarrow> 32 word \<Rightarrow> 'w transport \<Rightarrow> rpc_client \<Rightarrow> 'w transport \<times> rpc_client \<times> rpc_dispatch"
where
  "px4_rpmsg_recv_callback data src st c =
    (case data of None \<Rightarrow> (st, c, No_dispatch) | Some bs \<Rightarrow>
     if length bs = 0 then (st, c, No_dispatch)
     else let e = rpmsg_ept st;
              e' = (if ep_dest e = RPMSG_ADDR_ANY \<or> ep_dest e \<noteq> src then e\<lparr>ep_dest := src\<rparr> else e)
          in case px4_openamp_rpc_handle_message bs c of (_, c', x) \<Rightarrow> (st\<lparr>rpmsg_ept := e'\<rparr>, c', x))"

definition px4_rpmsg_service_unbind :: "'w transport \<Rightarrow> 'w transport" where
  "px4_rpmsg_service_unbind st = st\<lparr>evt_svc_unbind := 1\<rparr>"

definition px4_uxrce_rpmsg_service_unbind :: "'w transport \<Rightarrow> 'w transport" where
  "px4_uxrce_rpmsg_service_unbind st = st\<lparr>evt_svc_unbind_uxrce := 1\<rparr>"

definition px4_logger_rpmsg_service_unbind :: "'w transport \<Rightarrow> 'w transport" where
  "px4_logger_rpmsg_service_unbind st = st\<lparr>evt_svc_unbind_logger := 1\<rparr>"

text \<open>The callback of the micro-XRCE endpoint; what it forwards is returned.\<close>

definition px4_uxrce_rpmsg_recv_callback ::
  "bytes option \<Rightarrow> 32 word \<Rightarrow> 'w transport \<Rightarrow> 'w transport \<times> bytes option"
where
  "px4_uxrce_rpmsg_recv_callback data src st =
    (case data of None \<Rightarrow> (st, None) | Some bs \<Rightarrow>
     if length bs = 0 then (st, None)
     else let e = rpmsg_ept_uxrce st;
              e' = (if ep_dest e = RPMSG_ADDR_ANY \<or> ep_dest e \<noteq> src then e\<lparr>ep_dest := src\<rparr> else e)
          in (st\<lparr>rpmsg_ept_uxrce := e'\<rparr>, Some bs))"

fun px4_openamp_transport_lock :: "'w tr_env \<Rightarrow> (nat \<Rightarrow> nat) \<Rightarrow> nat \<Rightarrow> 'w \<Rightarrow> 'w exec" where
  "px4_openamp_transport_lock env ms_ticks 0 w = Diverges"
| "px4_openamp_transport_lock env ms_ticks (Suc fuel) w =
    (case e_try_acquire env w of (True, w') \<Rightarrow> Ret w'
     | (False, w') \<Rightarrow> px4_openamp_transport_lock env ms_ticks fuel (e_delay env (ms_ticks 1) w'))"

end
