(* ===== verification/Transport_Props.thy ===== *)
theory Transport_Props
  imports Transport Rpc_Client_Props
begin

text \<open>
  Properties of the OpenAMP transport: the log of resources, what holds in each phase of
  the watchdog, and that every turn of it ends.
\<close>

section \<open>Resources\<close>

text \<open>The log is replayed over the platform and the device that are up: nothing comes up
  twice or goes down when it is not up, a device lives inside its platform, and an
  endpoint is destroyed while its device is up.\<close>

fun replay_call :: "tr_call \<Rightarrow> nat option \<times> nat option \<Rightarrow> (nat option \<times> nat option) option" where
  "replay_call (Platform_up p) (pl, vd) = (if pl = None then Some (Some p, vd) else None)"
| "replay_call (Platform_down p) (pl, vd) = (if pl = Some p \<and> vd = None then Some (None, None) else None)"
| "replay_call (Vdev_up d) (pl, vd) = (if pl \<noteq> None \<and> vd = None then Some (pl, Some d) else None)"
| "replay_call (Vdev_down d) (pl, vd) = (if vd = Some d then Some (pl, None) else None)"
| "replay_call (Ept_destroyed e) (pl, vd) = (if vd \<noteq> None then Some (pl, vd) else None)"

fun replay :: "tr_call list \<Rightarrow> nat option \<times> nat option \<Rightarrow> (nat option \<times> nat option) option" where
  "replay [] s = Some s"
| "replay (x # xs) s = (case replay_call x s of None \<Rightarrow> None | Some s' \<Rightarrow> replay xs s')"

lemma replay_append: "replay xs s = Some s' \<Longrightarrow> replay (xs @ ys) s = replay ys s'"
  by (induction xs arbitrary: s) (auto split: option.splits)

lemma replay_snoc: "replay xs s = Some s' \<Longrightarrow> replay (xs @ [x]) s = replay_call x s'"
  by (simp add: replay_append split: option.splits)

definition tracked :: "'w transport \<Rightarrow> bool" where
  "tracked st \<longleftrightarrow> replay (tr_calls st) (None, None) = Some (g_platform_rpc st, rpdev st)"

text \<open>The documented behaviour of the RPMsg core that the transport relies on: an endpoint
  that was created is bound to the device it was created on, and polling leaves the
  endpoints where they are bound.\<close>

definition tr_contract :: "'w tr_env \<Rightarrow> bool" where
  "tr_contract env \<longleftrightarrow>
    (\<forall>e d w. fst (e_create_ept env e d w) = 0 \<longrightarrow> ep_rdev (fst (snd (e_create_ept env e d w))) = Some d) \<and>
    (\<forall>a b c w a' b' c' w'. e_poll env (a, b, c) w = ((a', b', c'), w') \<longrightarrow>
       ep_rdev a' = ep_rdev a \<and> ep_rdev b' = ep_rdev b \<and> ep_rdev c' = ep_rdev c)"

lemma tr_contractD:
  assumes "tr_contract env"
  shows "e_create_ept env e d w = (0, ept, w') \<Longrightarrow> ep_rdev ept = Some d"
    and "e_poll env (a, b, c) w = ((a', b', c'), w') \<Longrightarrow>
      ep_rdev a' = ep_rdev a \<and> ep_rdev b' = ep_rdev b \<and> ep_rdev c' = ep_rdev c"
  using assms unfolding tr_contract_def by (metis fst_conv snd_conv, blast)

text \<open>What polling, delays and announcements leave unchanged.\<close>

definition same_bindings :: "'w transport \<Rightarrow> 'w transport \<Rightarrow> bool" where
  "same_bindings st st' \<longleftrightarrow> g_openamp_initialized st' = g_openamp_initialized st \<and>
     g_platform_rpc st' = g_platform_rpc st \<and> rpdev st' = rpdev st \<and> rpdev_uxrce st' = rpdev_uxrce st \<and>
     tr_calls st' = tr_calls st \<and> ep_rdev (rpmsg_ept st') = ep_rdev (rpmsg_ept st) \<and>
     ep_rdev (rpmsg_ept_uxrce st') = ep_rdev (rpmsg_ept_uxrce st) \<and>
     ep_rdev (rpmsg_ept_logger st') = ep_rdev (rpmsg_ept_logger st)"

lemma same_bindings_refl [simp]: "same_bindings st st"
  by (simp add: same_bindings_def)

lemma same_bindings_trans: "same_bindings a b \<Longrightarrow> same_bindings b c \<Longrightarrow> same_bindings a c"
  by (simp add: same_bindings_def)

lemma same_bindings_world [simp]: "same_bindings st (st\<lparr>tr_world := w\<rparr>)"
  by (simp add: same_bindings_def)

lemma poll_bindings: "tr_contract env \<Longrightarrow> same_bindings st (platform_poll env st)"
  using tr_contractD(2)[of env]
  by (fastforce simp: same_bindings_def platform_poll_def split: prod.splits)

lemma delay_bindings [simp]: "same_bindings st (vTaskDelay env n st)"
  by (simp add: vTaskDelay_def)

lemma send_ns_bindings [simp]: "same_bindings st (snd (send_ns env e st))"
  by (simp add: send_ns_def split: prod.splits)

lemma announce_bindings: "same_bindings st (snd (announce env a b s st))"
proof -
  define st1 where "st1 = (if \<not> a then snd (send_ns env Ept_rpc st) else st)"
  define st2 where "st2 = (if \<not> b then snd (send_ns env Ept_uxrce st1) else st1)"
  have "same_bindings st st1" "same_bindings st1 st2" by (simp_all add: st1_def st2_def)
  then have s2: "same_bindings st st2" by (rule same_bindings_trans)
  have "snd (announce env a b s st) = st2 \<or> snd (announce env a b s st) = snd (send_ns env Ept_logger st2)"
    unfolding announce_def st1_def[symmetric] Let_def st2_def[symmetric] by (simp add: split_beta)
  then show ?thesis using s2 same_bindings_trans[OF s2 send_ns_bindings] by metis
qed

lemma wait_round_bindings:
  assumes "tr_contract env" and r: "announce_due env ms_ticks now l a b s st = (sent, l', st2)"
  shows "same_bindings st (vTaskDelay env n (platform_poll env st2))"
proof -
  have "same_bindings st st2" using r announce_bindings[of st env a b s]
    by (auto simp: announce_due_def split: if_splits prod.splits)
  then show ?thesis
    using same_bindings_trans[OF poll_bindings[OF assms(1)] delay_bindings] by (rule same_bindings_trans)
qed

text \<open>How the wait ends: with everything as it was, or given up.\<close>

lemma transport_wait_result:
  assumes c: "tr_contract env"
  shows "transport_wait env ms_ticks fuel start last_ns r u s st = Ret (ok, st') \<Longrightarrow>
    (if ok then \<exists>x. same_bindings st x \<and> st' = x\<lparr>g_openamp_initialized := True\<rparr>
     else \<exists>x. same_bindings st x \<and> st' = give_up env x)"
proof (induction fuel arbitrary: last_ns r u s st)
  case 0
  then show ?case by simp
next
  case (Suc fuel)
  show ?case
  proof (cases "r \<and> u")
    case True
    define x where "x = (if \<not> s \<and> ep_rdev (rpmsg_ept_logger st) \<noteq> None then snd (send_ns env Ept_logger st) else st)"
    have "same_bindings st x" by (simp add: x_def)
    moreover have "ok" "st' = x\<lparr>g_openamp_initialized := True\<rparr>"
      using Suc.prems True by (simp_all add: x_def Let_def)
    ultimately show ?thesis by auto
  next
    case False
    obtain now w where t: "e_ticks env (tr_world st) = (now, w)" by fastforce
    show ?thesis
    proof (cases "unat (now - start) > ms_ticks 15000")
      case True
      then have "ok = False" "st' = give_up env (st\<lparr>tr_world := w\<rparr>)"
        using Suc.prems \<open>\<not> (r \<and> u)\<close> t by auto
      then show ?thesis by (auto intro!: exI[of _ "st\<lparr>tr_world := w\<rparr>"])
    next
      case False
      let ?st1 = "st\<lparr>tr_world := w\<rparr>"
      obtain sent l2 st2 where n: "announce_due env ms_ticks now last_ns (ept_usable (rpmsg_ept ?st1))
          (ept_usable (rpmsg_ept_uxrce ?st1)) s ?st1 = (sent, l2, st2)" by (metis prod_cases3)
      let ?st3 = "vTaskDelay env (ms_ticks 20) (platform_poll env st2)"
      have "same_bindings ?st1 ?st3" by (rule wait_round_bindings[OF c n])
      then have sb: "same_bindings st ?st3" by (rule same_bindings_trans[OF same_bindings_world])
      have "transport_wait env ms_ticks fuel start l2 (ept_usable (rpmsg_ept ?st1)) (ept_usable (rpmsg_ept_uxrce ?st1)) sent ?st3
          = Ret (ok, st')"
        using Suc.prems \<open>\<not> (r \<and> u)\<close> False by (simp add: t n[simplified] Let_def)
      from Suc.IH[OF this] show ?thesis by (cases ok) (auto dest: same_bindings_trans[OF sb])
    qed
  qed
qed

lemma tracked_log:
  assumes "tracked st" "replay_call x (g_platform_rpc st, rpdev st) = Some (g_platform_rpc st', rpdev st')"
    "tr_calls st' = tr_calls st @ [x]"
  shows "tracked st'"
  using assms replay_snoc[of "tr_calls st" "(None, None)"] by (simp add: tracked_def)

lemma tracked_cong:
  "tracked st \<Longrightarrow> tr_calls st' = tr_calls st \<Longrightarrow> g_platform_rpc st' = g_platform_rpc st \<Longrightarrow> rpdev st' = rpdev st
    \<Longrightarrow> tracked st'"
  by (simp add: tracked_def)

lemma bring_up_result:
  assumes tr: "tracked st" "rpdev st = None" and b: "bring_up_device env st = (r, st')"
  shows "tracked st' \<and> g_openamp_initialized st' = g_openamp_initialized st \<and> rpdev st' = r \<and>
    (r \<noteq> None \<longrightarrow> rpdev_uxrce st' = r \<and> g_platform_rpc st' \<noteq> None)"
proof -
  obtain s1 st1 where 1: "(if g_system_initialized st then (True, st)
       else case e_init_system env (tr_world st) of (r, w) \<Rightarrow>
         if r \<noteq> 0 then (False, st\<lparr>tr_world := w\<rparr>)
         else (True, st\<lparr>tr_world := w, g_system_initialized := True\<rparr>)) = (s1, st1)" by fastforce
  then have t1: "tracked st1" "rpdev st1 = None" "g_openamp_initialized st1 = g_openamp_initialized st"
    using tr by (auto simp: tracked_def split: if_splits prod.splits)
  obtain pl st2 where 2: "(case g_platform_rpc st1 of Some p \<Rightarrow> (Some p, st1)
       | None \<Rightarrow> (case e_platform_init env (tr_world st1) of
           (None, w) \<Rightarrow> (None, st1\<lparr>tr_world := w\<rparr>)
         | (Some p, w) \<Rightarrow> (Some p, log_call (Platform_up p) (st1\<lparr>tr_world := w, g_platform_rpc := Some p\<rparr>)))) = (pl, st2)"
    by fastforce
  then have t2: "tracked st2" "rpdev st2 = None" "g_openamp_initialized st2 = g_openamp_initialized st"
    "g_platform_rpc st2 = pl"
    using t1 replay_snoc[of "tr_calls st1"]
    by (auto simp: tracked_def log_call_def split: option.splits prod.splits)
  show ?thesis
  proof (cases s1)
    case False
    then show ?thesis using b t1 by (simp add: bring_up_device_def 1)
  next
    case s1: True
    show ?thesis
    proof (cases pl)
      case None
      then show ?thesis using b s1 t2 by (simp add: bring_up_device_def 1 2)
    next
      case (Some p)
      then show ?thesis using b s1 t2 replay_snoc[of "tr_calls st2"]
        by (auto simp: bring_up_device_def 1 2 tracked_def log_call_def split: option.splits prod.splits)
    qed
  qed
qed

lemma release_vdev_result:
  assumes "tracked st" "rpdev st = Some d"
  shows "tracked ((platform_release_rpmsg_vdev env st)\<lparr>rpdev := None\<rparr>)"
  using assms replay_snoc[of "tr_calls st"] by (simp add: tracked_def platform_release_rpmsg_vdev_def log_call_def)

lemma release_vdev_simps [simp]:
  "rpmsg_ept (platform_release_rpmsg_vdev env st) = rpmsg_ept st"
  "rpmsg_ept_uxrce (platform_release_rpmsg_vdev env st) = rpmsg_ept_uxrce st"
  "rpmsg_ept_logger (platform_release_rpmsg_vdev env st) = rpmsg_ept_logger st"
  "g_platform_rpc (platform_release_rpmsg_vdev env st) = g_platform_rpc st"
  "rpdev (platform_release_rpmsg_vdev env st) = rpdev st"
  "rpdev_uxrce (platform_release_rpmsg_vdev env st) = rpdev_uxrce st"
  "g_openamp_initialized (platform_release_rpmsg_vdev env st) = g_openamp_initialized st"
  by (simp_all add: platform_release_rpmsg_vdev_def log_call_def split: option.splits)

lemma release_vdev_calls:
  "tr_calls (platform_release_rpmsg_vdev env st) =
     tr_calls st @ (case rpdev st of None \<Rightarrow> [] | Some d \<Rightarrow> [Vdev_down d])"
  by (simp add: platform_release_rpmsg_vdev_def log_call_def split: option.splits)

lemma log_call_simps [simp]:
  "g_platform_rpc (log_call x st) = g_platform_rpc st" "rpdev (log_call x st) = rpdev st"
  "tr_calls (log_call x st) = tr_calls st @ [x]" "g_openamp_initialized (log_call x st) = g_openamp_initialized st"
  "rpmsg_ept_logger (log_call x st) = rpmsg_ept_logger st" "rpdev_uxrce (log_call x st) = rpdev_uxrce st"
  by (simp_all add: log_call_def)

lemma give_up_result:
  assumes "tracked st" "rpdev st = Some d"
  shows "tracked (give_up env st)" "rpdev (give_up env st) = None"
    "g_openamp_initialized (give_up env st) = g_openamp_initialized st"
    "rpmsg_ept_logger (give_up env st) = rpmsg_ept_logger st"
    "tr_calls (give_up env st) = tr_calls st @ [Ept_destroyed Ept_rpc, Ept_destroyed Ept_uxrce, Vdev_down d]"
  using assms replay_snoc[of "tr_calls st"] replay_snoc[of "tr_calls st @ [Ept_destroyed Ept_rpc]"]
    replay_snoc[of "tr_calls st @ [Ept_destroyed Ept_rpc, Ept_destroyed Ept_uxrce]"]
  by (simp_all add: give_up_def Let_def tracked_def release_vdev_calls)

lemma create_result:
  assumes c: "tr_contract env" and tr: "tracked st" "rpdev st = Some d" "rpdev_uxrce st = Some d"
    and e: "create_endpoints env d st = (ok, st')"
  shows "tracked st' \<and> g_openamp_initialized st' = g_openamp_initialized st \<and>
    (if ok then rpdev st' = Some d \<and> rpdev_uxrce st' = Some d \<and> g_platform_rpc st' = g_platform_rpc st \<and>
       ep_rdev (rpmsg_ept st') = Some d \<and> ep_rdev (rpmsg_ept_uxrce st') = Some d
     else rpdev st' = None)"
proof -
  obtain ret ept w where 1: "e_create_ept env Ept_rpc d (tr_world st) = (ret, ept, w)" by (metis prod_cases3)
  obtain ret2 ept2 w2 where 2: "e_create_ept env Ept_uxrce d w = (ret2, ept2, w2)" by (metis prod_cases3)
  obtain ret3 ept3 w3 where 3: "e_create_ept env Ept_logger d w2 = (ret3, ept3, w3)" by (metis prod_cases3)
  show ?thesis
    using e tr tr_contractD(1)[OF c, of Ept_rpc d "tr_world st"] tr_contractD(1)[OF c, of Ept_uxrce d w]
      replay_snoc[of "tr_calls st"] replay_snoc[of "tr_calls st @ [Ept_destroyed Ept_rpc]"]
    by (auto simp: create_endpoints_def 1 2 3 Let_def tracked_def release_vdev_calls split: if_splits)
qed

section \<open>The phases of the watchdog\<close>

fun phase_ok :: "watchdog_phase \<Rightarrow> 'w transport \<Rightarrow> bool" where
  "phase_ok Wait_driver st \<longleftrightarrow> \<not> g_openamp_initialized st \<and> rpdev st = None \<and> g_platform_rpc st = None \<and>
     ep_rdev (rpmsg_ept st) = None \<and> ep_rdev (rpmsg_ept_uxrce st) = None \<and> ep_rdev (rpmsg_ept_logger st) = None"
| "phase_ok Initialise st \<longleftrightarrow> \<not> g_openamp_initialized st \<and> rpdev st = None"
| "phase_ok Monitor st \<longleftrightarrow> g_openamp_initialized st \<and> g_platform_rpc st \<noteq> None \<and>
     (\<exists>d. rpdev st = Some d \<and> rpdev_uxrce st = Some d \<and> ep_rdev (rpmsg_ept st) = Some d \<and>
          ep_rdev (rpmsg_ept_uxrce st) = Some d)"

lemma same_bindings_ok: "same_bindings st st' \<Longrightarrow> tracked st \<and> phase_ok ph st \<Longrightarrow> tracked st' \<and> phase_ok ph st'"
  by (cases ph) (auto simp: same_bindings_def tracked_def)

lemma initialize_result:
  assumes c: "tr_contract env" and st: "tracked st" "phase_ok Initialise st"
    and i: "initialize_openamp_transport env ms_ticks fuel st = Ret (ok, st')"
  shows "tracked st' \<and> phase_ok (if ok then Monitor else Initialise) st'"
proof -
  obtain r st1 where 1: "bring_up_device env st = (r, st1)" by fastforce
  note b = bring_up_result[OF st(1) _ 1]
  show ?thesis
  proof (cases r)
    case None
    then show ?thesis using i st b by (simp add: initialize_openamp_transport_def 1)
  next
    case (Some d)
    obtain ok2 st2 where 2: "create_endpoints env d st1 = (ok2, st2)" by fastforce
    have cr: "tracked st2 \<and> g_openamp_initialized st2 = g_openamp_initialized st1 \<and>
      (if ok2 then rpdev st2 = Some d \<and> rpdev_uxrce st2 = Some d \<and> g_platform_rpc st2 = g_platform_rpc st1 \<and>
         ep_rdev (rpmsg_ept st2) = Some d \<and> ep_rdev (rpmsg_ept_uxrce st2) = Some d
       else rpdev st2 = None)"
      using create_result[OF c _ _ _ 2] b Some st by simp
    show ?thesis
    proof (cases ok2)
      case False
      then show ?thesis using i st b cr Some by (simp add: initialize_openamp_transport_def 1 2)
    next
      case True
      let ?st3 = "vTaskDelay env (ms_ticks 50) (platform_poll env st2)"
      obtain start w where t: "e_ticks env (tr_world ?st3) = (start, w)" by fastforce
      have sb: "same_bindings st2 (?st3\<lparr>tr_world := w\<rparr>)"
        using same_bindings_trans[OF same_bindings_trans[OF poll_bindings[OF c] delay_bindings] same_bindings_world] .
      have "transport_wait env ms_ticks fuel start (start - of_nat (ms_ticks 600)) False False False
          (?st3\<lparr>tr_world := w\<rparr>) = Ret (ok, st')"
        using i st True Some by (simp add: initialize_openamp_transport_def 1 2 t Let_def)
      from transport_wait_result[OF c this] obtain x where x: "same_bindings (?st3\<lparr>tr_world := w\<rparr>) x"
        "st' = (if ok then x\<lparr>g_openamp_initialized := True\<rparr> else give_up env x)"
        by (cases ok) auto
      have "same_bindings st2 x" using sb x(1) by (rule same_bindings_trans)
      then have "tracked x" "rpdev x = Some d" "rpdev_uxrce x = Some d" "g_platform_rpc x \<noteq> None"
        "ep_rdev (rpmsg_ept x) = Some d" "ep_rdev (rpmsg_ept_uxrce x) = Some d" "\<not> g_openamp_initialized x"
        using cr True b Some st by (auto simp: same_bindings_def tracked_def)
      then show ?thesis using x(2) give_up_result[of x d env] by (cases ok) (auto simp: tracked_def)
    qed
  qed
qed

lemma cleanup_result:
  assumes st: "tracked st" "phase_ok Monitor st"
  shows "tracked (cleanup_openamp_transport env st) \<and> phase_ok Wait_driver (cleanup_openamp_transport env st)"
  using st
  by (cases "ep_rdev (rpmsg_ept_logger st)")
     (auto simp: cleanup_openamp_transport_def Let_def tracked_def release_vdev_calls replay_append ept_cleared_def
        log_call_def platform_release_rpmsg_vdev_def)

lemma turn_result:
  assumes c: "tr_contract env" and st: "tracked st" "phase_ok ph st"
    and t: "watchdog_turn env ms_ticks fuel ph b st = Ret (ph', st')"
  shows "tracked st' \<and> phase_ok ph' st'"
proof (cases ph)
  case Wait_driver
  then show ?thesis using t st same_bindings_ok[OF delay_bindings, of st Wait_driver] by (auto split: if_splits)
next
  case Initialise
  then obtain ok s1 where i: "initialize_openamp_transport env ms_ticks fuel st = Ret (ok, s1)"
    and r: "(ph', st') = (if ok then (Monitor, s1) else (Initialise, vTaskDelay env (ms_ticks 200) s1))"
    using t by (auto elim!: exec_bind_RetE)
  show ?thesis
    using initialize_result[OF c st(1) st(2)[unfolded Initialise] i] r same_bindings_ok[OF delay_bindings, of s1 Initialise]
    by (cases ok) simp_all
next
  case Monitor
  then show ?thesis
    using t st same_bindings_ok[OF delay_bindings, of st Monitor] cleanup_result[of st env] by (auto split: if_splits)
qed

lemma task_result:
  assumes c: "tr_contract env"
  shows "openamp_background_init_task env ms_ticks fuel bs ph st = Ret (ph', st') \<Longrightarrow> tracked st \<Longrightarrow> phase_ok ph st \<Longrightarrow>
    tracked st' \<and> phase_ok ph' st'"
proof (induction bs arbitrary: ph st)
  case Nil
  then show ?case by simp
next
  case (Cons b bs)
  then obtain ph1 st1 where "watchdog_turn env ms_ticks fuel ph b st = Ret (ph1, st1)"
    "openamp_background_init_task env ms_ticks fuel bs ph1 st1 = Ret (ph', st')"
    by (auto elim!: exec_bind_RetE)
  then show ?case using Cons.IH turn_result[OF c Cons.prems(2,3)] by blast
qed


section \<open>Every turn ends\<close>

text \<open>The kernel's tick count is the low 32 bits of a clock; a call takes at most 100 000 000
  ticks and a delay at least one.\<close>

definition advances :: "('w \<Rightarrow> nat) \<Rightarrow> 'w \<Rightarrow> 'w \<Rightarrow> bool" where
  "advances clock w w' \<longleftrightarrow> clock w \<le> clock w' \<and> clock w' \<le> clock w + 100000000"

definition timed_env :: "'w tr_env \<Rightarrow> ('w \<Rightarrow> nat) \<Rightarrow> bool" where
  "timed_env env clock \<longleftrightarrow> (\<forall>w.
     fst (e_ticks env w) = of_nat (clock w) \<and> advances clock w (snd (e_ticks env w)) \<and>
     (\<forall>e. advances clock w (snd (e_send_ns env e w))) \<and> (\<forall>es. advances clock w (snd (e_poll env es w))) \<and>
     (\<forall>n. advances clock w (e_delay env n w) \<and> clock w < clock (e_delay env n w)))"

lemma send_ns_time:
  assumes "timed_env env clock"
  shows "clock (tr_world st) \<le> clock (tr_world (snd (send_ns env e st))) \<and>
    clock (tr_world (snd (send_ns env e st))) \<le> clock (tr_world st) + 100000000"
  using assms by (simp add: timed_env_def advances_def send_ns_def split_beta)

lemma announce_due_time:
  assumes t: "timed_env env clock" and a: "announce_due env ms_ticks now l r u s st = (s', l', st')"
  shows "clock (tr_world st) \<le> clock (tr_world st') \<and> clock (tr_world st') \<le> clock (tr_world st) + 300000000"
proof -
  define st1 where "st1 = (if \<not> r then snd (send_ns env Ept_rpc st) else st)"
  define st2 where "st2 = (if \<not> u then snd (send_ns env Ept_uxrce st1) else st1)"
  have "st' = st \<or> st' = st2 \<or> st' = snd (send_ns env Ept_logger st2)"
    using a unfolding announce_due_def announce_def st1_def[symmetric] Let_def st2_def[symmetric]
    by (auto simp: split_beta split: if_splits)
  then show ?thesis
    using send_ns_time[OF t, of st Ept_rpc] send_ns_time[OF t, of st1 Ept_uxrce] send_ns_time[OF t, of st2 Ept_logger]
    by (auto simp: st2_def st1_def split: if_splits)
qed

lemma poll_delay_time:
  assumes "timed_env env clock"
  shows "clock (tr_world st) < clock (tr_world (vTaskDelay env n (platform_poll env st))) \<and>
    clock (tr_world (vTaskDelay env n (platform_poll env st))) \<le> clock (tr_world st) + 200000000"
proof -
  let ?w = "snd (e_poll env (rpmsg_ept st, rpmsg_ept_uxrce st, rpmsg_ept_logger st) (tr_world st))"
  have "tr_world (vTaskDelay env n (platform_poll env st)) = e_delay env n ?w"
    by (simp add: vTaskDelay_def platform_poll_def split_beta)
  moreover have "advances clock (tr_world st) ?w" "advances clock ?w (e_delay env n ?w)"
    "clock ?w < clock (e_delay env n ?w)"
    using assms by (simp_all add: timed_env_def)
  ultimately show ?thesis by (simp add: advances_def)
qed

lemma tick_difference: "E < 4294967296 \<Longrightarrow> unat (of_nat (S + E) - of_nat S :: 32 word) = E"
  by (simp add: unat_of_nat)

lemma transport_wait_returns:
  assumes t: "timed_env env clock" and hz: "ms_ticks 15000 \<le> 1500000000"
  shows "0 < fuel \<Longrightarrow> ms_ticks 15000 + 2 \<le> fuel + E \<Longrightarrow> E \<le> ms_ticks 15000 + 600000000 \<Longrightarrow> clock (tr_world st) = S + E \<Longrightarrow>
    \<exists>r. transport_wait env ms_ticks fuel (of_nat S) last_ns a b s st = Ret r"
proof (induction fuel arbitrary: E last_ns a b s st)
  case 0
  then show ?case by simp
next
  case (Suc fuel)
  obtain now w where k: "e_ticks env (tr_world st) = (now, w)" by fastforce
  have now: "now = of_nat (S + E)" "advances clock (tr_world st) w"
    using t k Suc.prems(4) unfolding timed_env_def by (metis fst_conv, metis snd_conv)
  have diff: "unat (now - of_nat S) = E"
    unfolding now(1) by (rule tick_difference) (use Suc.prems(3) hz in simp)
  show ?case
  proof (cases "a \<and> b \<or> E > ms_ticks 15000")
    case True
    then show ?thesis by (auto simp: k diff Let_def)
  next
    case False
    let ?st1 = "st\<lparr>tr_world := w\<rparr>"
    obtain s' l' st2 where n: "announce_due env ms_ticks now last_ns (ept_usable (rpmsg_ept ?st1))
        (ept_usable (rpmsg_ept_uxrce ?st1)) s ?st1 = (s', l', st2)" by (metis prod_cases3)
    let ?st3 = "vTaskDelay env (ms_ticks 20) (platform_poll env st2)"
    define E' where "E' = clock (tr_world ?st3) - S"
    have "S + E < clock (tr_world ?st3)" "clock (tr_world ?st3) \<le> S + E + 600000000"
      using announce_due_time[OF t n] poll_delay_time[OF t, of st2 "ms_ticks 20"] now(2) Suc.prems(4)
      by (auto simp: advances_def)
    then have c: "clock (tr_world ?st3) = S + E'" "E + 1 \<le> E'" "E' \<le> E + 600000000"
      unfolding E'_def by linarith+
    have "\<exists>r. transport_wait env ms_ticks fuel (of_nat S) l' (ept_usable (rpmsg_ept ?st1)) (ept_usable (rpmsg_ept_uxrce ?st1))
        s' ?st3 = Ret r"
      by (rule Suc.IH[of E']) (use c False Suc.prems(2) in auto)
    then show ?thesis using False by (auto simp: k diff Let_def n[simplified])
  qed
qed

lemma initialize_returns:
  assumes t: "timed_env env clock" and hz: "ms_ticks 15000 \<le> 1500000000" and f: "ms_ticks 15000 + 2 \<le> fuel"
  shows "\<exists>r. initialize_openamp_transport env ms_ticks fuel st = Ret r"
proof -
  obtain r st1 where 1: "bring_up_device env st = (r, st1)" by fastforce
  show ?thesis
  proof (cases "g_openamp_initialized st \<or> r = None")
    case True
    then show ?thesis by (auto simp: initialize_openamp_transport_def 1)
  next
    case False
    then obtain d where d: "r = Some d" by auto
    obtain ok st2 where 2: "create_endpoints env d st1 = (ok, st2)" by fastforce
    let ?st3 = "vTaskDelay env (ms_ticks 50) (platform_poll env st2)"
    obtain start w where k: "e_ticks env (tr_world ?st3) = (start, w)" by fastforce
    define S where "S = clock (tr_world ?st3)"
    have s: "start = of_nat S" "advances clock (tr_world ?st3) w"
      using t k unfolding timed_env_def S_def by (metis fst_conv, metis snd_conv)
    have "\<exists>r. transport_wait env ms_ticks fuel (of_nat S) (start - of_nat (ms_ticks 600)) False False False
        (?st3\<lparr>tr_world := w\<rparr>) = Ret r"
      by (rule transport_wait_returns[where ms_ticks = ms_ticks, OF t hz, where E = "clock w - S"])
         (use f s(2) in \<open>auto simp: advances_def S_def\<close>)
    then show ?thesis using False d by (cases ok) (auto simp: initialize_openamp_transport_def 1 2 k s(1) Let_def)
  qed
qed

lemma task_returns:
  assumes "timed_env env clock" "ms_ticks 15000 \<le> 1500000000" "ms_ticks 15000 + 2 \<le> fuel"
  shows "\<exists>ph' st'. openamp_background_init_task env ms_ticks fuel bs ph st = Ret (ph', st')"
proof (induction bs arbitrary: ph st)
  case Nil
  then show ?case by simp
next
  case (Cons b bs)
  have "\<exists>ph1 st1. watchdog_turn env ms_ticks fuel ph b st = Ret (ph1, st1)"
    using initialize_returns[where ms_ticks = ms_ticks, OF assms, of st] by (cases ph) (auto split: prod.splits)
  then show ?case using Cons.IH by fastforce
qed

text \<open>Every turn of the watchdog ends, whatever the peer does: as long as the tick count
  advances, an attempt to bring up the transport ends within 15 seconds of ticks, also
  when the 32-bit tick count wraps around meanwhile.\<close>

theorem transport_returns:
  assumes "timed_env env clock" "ms_ticks 15000 \<le> 1500000000" "ms_ticks 15000 + 2 \<le> fuel"
  shows "\<exists>ph' st'. openamp_background_init_task env ms_ticks fuel bs ph st = Ret (ph', st')"
  by (rule task_returns[where ms_ticks = ms_ticks, OF assms])

section \<open>Handles that are left over\<close>

text \<open>Two failures leave handles of a device that has been released: when the RPC endpoint
  cannot be created, \<open>rpdev\<open>_\<close>uxrce\<close>; when the peer does not answer in time, the logger
  endpoint, which stays bound until the next attempt, so that the logger goes on using it.\<close>

theorem transport_stale_handles:
  assumes c: "tr_contract env" and i: "\<not> g_openamp_initialized st" and t: "tracked st" "rpdev st = None"
    and b: "bring_up_device env st = (Some d, st1)" and r: "initialize_openamp_transport env ms_ticks fuel st = Ret (False, st')"
  shows "(fst (e_create_ept env Ept_rpc d (tr_world st1)) \<noteq> 0 \<longrightarrow>
      rpdev st' = None \<and> rpdev_uxrce st' = Some d \<and> tr_calls st' = tr_calls st1 @ [Vdev_down d]) \<and>
    (\<forall>st2. create_endpoints env d st1 = (True, st2) \<longrightarrow>
      rpdev st' = None \<and> ep_rdev (rpmsg_ept_logger st') = ep_rdev (rpmsg_ept_logger st2) \<and>
      tr_calls st' = tr_calls st1 @ [Ept_destroyed Ept_rpc, Ept_destroyed Ept_uxrce, Vdev_down d])"
proof (intro conjI impI allI)
  have st1: "tracked st1" "rpdev st1 = Some d" "rpdev_uxrce st1 = Some d"
    using bring_up_result[OF t b] by simp_all
  show "rpdev st' = None" "rpdev_uxrce st' = Some d" "tr_calls st' = tr_calls st1 @ [Vdev_down d]"
    if "fst (e_create_ept env Ept_rpc d (tr_world st1)) \<noteq> 0"
    using that r i b st1
    by (auto simp: initialize_openamp_transport_def create_endpoints_def Let_def release_vdev_calls
        split: prod.splits)
  fix st2 assume 2: "create_endpoints env d st1 = (True, st2)"
  let ?st3 = "vTaskDelay env (ms_ticks 50) (platform_poll env st2)"
  obtain start w where k: "e_ticks env (tr_world ?st3) = (start, w)" by fastforce
  have "transport_wait env ms_ticks fuel start (start - of_nat (ms_ticks 600)) False False False
      (?st3\<lparr>tr_world := w\<rparr>) = Ret (False, st')"
    using r i by (simp add: initialize_openamp_transport_def b 2 k Let_def)
  from transport_wait_result[OF c this] obtain x where x: "same_bindings (?st3\<lparr>tr_world := w\<rparr>) x" "st' = give_up env x"
    by auto
  have sb: "same_bindings st2 x"
    using same_bindings_trans[OF same_bindings_trans[OF same_bindings_trans[OF poll_bindings[OF c] delay_bindings]
      same_bindings_world] x(1)] .
  have st2: "tracked st2" "rpdev st2 = Some d" using create_result[OF c st1 2] by simp_all
  have calls: "tr_calls st2 = tr_calls st1"
    using 2 by (auto simp: create_endpoints_def Let_def split: prod.splits if_splits)
  have x': "tracked x" "rpdev x = Some d" using sb st2 by (auto simp: same_bindings_def tracked_def)
  show "rpdev st' = None" "ep_rdev (rpmsg_ept_logger st') = ep_rdev (rpmsg_ept_logger st2)"
    "tr_calls st' = tr_calls st1 @ [Ept_destroyed Ept_rpc, Ept_destroyed Ept_uxrce, Vdev_down d]"
    unfolding x(2) using give_up_result[OF x'] sb calls by (simp_all add: same_bindings_def)
qed

section \<open>A silent peer\<close>

text \<open>An environment whose clock is its world and whose peer never answers.\<close>

definition silent_env :: "bool \<Rightarrow> nat tr_env" where
  "silent_env ept_works =
     \<lparr>e_init_system = (\<lambda>w. (0, w)), e_platform_init = (\<lambda>w. (Some 1, w)), e_create_vdev = (\<lambda>p w. (Some 2, w)),
      e_release_vdev = (\<lambda>d w. w), e_platform_cleanup = (\<lambda>p w. w),
      e_create_ept = (\<lambda>e d w. (if ept_works then 0 else - 2001,
        \<lparr>ep_rdev = Some d, ep_addr = 1024, ep_dest = RPMSG_ADDR_ANY\<rparr>, w)),
      e_send_ns = (\<lambda>e w. (0, w)), e_poll = (\<lambda>es w. (es, w)), e_ticks = (\<lambda>w. (of_nat w, w)),
      e_delay = (\<lambda>n w. w + min (n + 1) 100000000), e_try_acquire = (\<lambda>w. (True, w))\<rparr>"

lemma silent_env_contract: "tr_contract (silent_env b)"
  by (simp add: tr_contract_def silent_env_def)

lemma silent_env_timed: "timed_env (silent_env b) (\<lambda>w. w)"
  by (simp add: timed_env_def advances_def silent_env_def)

theorem transport_returns_witness:
  "\<exists>ph' st'. openamp_background_init_task (silent_env True) (\<lambda>ms. ms) 15002 [True, True, False] Wait_driver (transport_boot 0)
     = Ret (ph', st')"
  by (rule transport_returns[where ms_ticks = "\<lambda>ms. ms", OF silent_env_timed]) simp_all


theorem transport_stale_handles_witness:
  "\<exists>st'. initialize_openamp_transport (silent_env False) (\<lambda>ms. ms) 15002 (transport_boot 0) = Ret (False, st') \<and>
     rpdev st' = None \<and> rpdev_uxrce st' = Some 2"
proof -
  let ?st = "transport_boot (0::nat)"
  obtain st1 where b: "bring_up_device (silent_env False) ?st = (Some 2, st1)"
    by (simp add: bring_up_device_def silent_env_def transport_boot_def)
  have e: "fst (e_create_ept (silent_env False) Ept_rpc 2 (tr_world st1)) \<noteq> 0" by (simp add: silent_env_def)
  then have "\<exists>st'. initialize_openamp_transport (silent_env False) (\<lambda>ms. ms) 15002 ?st = Ret (False, st')"
    unfolding initialize_openamp_transport_def b by (auto simp: create_endpoints_def Let_def transport_boot_def split_beta)
  then obtain st' where r: "initialize_openamp_transport (silent_env False) (\<lambda>ms. ms) 15002 ?st = Ret (False, st')" ..
  show ?thesis
    using transport_stale_handles[OF silent_env_contract _ _ _ b r] e r
    by (auto simp: transport_boot_def tracked_def)
qed

section \<open>Responses\<close>

text \<open>The transport and the RPC client together: a response that the RPC endpoint receives for
  a call in flight reaches the buffer and the length variable of that call whole, its
  waiter is signalled, and the endpoint answers to the sender from then on; the other
  endpoints and the device are untouched.\<close>

theorem response_through_endpoint:
  assumes "owns i rid (Some b) cap (Some l) c" "ids_unique c" "well_formed_message d"
    "hdr_request_id (bytes_header d) = rid"
    and "px4_rpmsg_recv_callback (Some d) src st c = (st', c', x)"
  shows "ep_dest (rpmsg_ept st') = src \<and> st' = st\<lparr>rpmsg_ept := (rpmsg_ept st)\<lparr>ep_dest := src\<rparr>\<rparr> \<and>
    g_rpc_pending c' ! i = complete_slot (bytes_header d) (g_rpc_pending c ! i) \<and>
    c_mem c' b = overwrite 0 (take (min (unat (hdr_payload_size (bytes_header d))) cap) (drop RPC_HEADER_SIZE d)) (c_mem c b) \<and>
    c_sizes c' l = unat (hdr_payload_size (bytes_header d))"
proof -
  have "length d \<noteq> 0" using assms(3) by (auto simp: well_formed_message_def)
  moreover have "c' = receive d c" using assms(5) calculation
    by (auto simp: px4_rpmsg_recv_callback_def Let_def split: prod.splits if_splits)
  moreover have "st' = st\<lparr>rpmsg_ept := (rpmsg_ept st)\<lparr>ep_dest := src\<rparr>\<rparr>" using assms(5) calculation
    by (auto simp: px4_rpmsg_recv_callback_def Let_def split: prod.splits if_splits)
  ultimately show ?thesis using deliver_to_owner[OF assms(1-4)] by simp
qed

theorem response_through_endpoint_witness:
  "\<exists>st' c' x. px4_rpmsg_recv_callback (Some (echo_reply (header_bytes (rpc_request_header 2 1 1 2) @ [7, 8]))) 1025
      (transport_boot (0::nat)) (snd (alloc_pending (Some 3) 4 (Some 0) None 0 demo_client)) = (st', c', x) \<and>
    ep_dest (rpmsg_ept st') = 1025 \<and> c_mem c' 3 = [7, 8, 0, 0]"
proof -
  define c where "c = snd (alloc_pending (Some 3) 4 (Some 0) None 0 demo_client)"
  let ?d = "echo_reply (header_bytes (rpc_request_header 2 1 1 2) @ [7, 8])"
  have a: "alloc_pending (Some 3) 4 (Some 0) None 0 demo_client = (Some (0, 1), c)" and c2: "c_mem c 3 = replicate 4 0"
    by (simp_all add: c_def alloc_boot) (simp add: rpc_boot_def)
  have u: "ids_unique c"
    using run_ids_ok[of demo_client 10000 "[Ev_alloc (Some 3) 4 (Some 0) None 0]" 0] boot_ids_ok
    by (simp_all add: c_def) (simp add: rpc_boot_def)
  have h: "hdr_request_id (bytes_header ?d) = 1"
    "unat (hdr_payload_size (rpc_request_header 2 1 1 2\<lparr>hdr_errno_value := 5\<rparr>)) = 2"
    by simp_all (simp_all add: rpc_request_header_def)
  have ov: "overwrite 0 (take (min 2 4) [7, 8]) (replicate 4 0) = [7, 8, 0, 0 :: byte]"
    by (simp add: overwrite_def) (simp add: numeral_eq_Suc)
  obtain st' c' x where r: "px4_rpmsg_recv_callback (Some ?d) 1025 (transport_boot (0::nat)) c = (st', c', x)"
    by (metis prod_cases3)
  show ?thesis
    using response_through_endpoint[OF conjunct1[OF alloc_owns[OF a]] u echo_reply_ok h(1) r] r
    unfolding echo_reply_simps h(2) c2 c_def[symmetric] ov by blast
qed

end
