(* ===== verification/Platform.thy ===== *)
theory Platform
  imports Prelude
begin

text \<open>
  The platform layer of OpenAMP on the Cortex-R8: the processor operations of
  src/runtime/rzv2\<open>_\<close>rproc.c and the life cycle of the remote processor and its virtio
  device in src/platform/platform\<open>_\<close>info.c.  libmetal, OpenAMP and the kernel are the
  record of functions \<open>pl_env\<close> over a world \<open>'w\<close>; what is opened, registered, allocated and
  released is logged.  \<open>remoteproc\<open>_\<close>init\<close> and \<open>remoteproc\<open>_\<close>remove\<close> stand for the calls of
  the processor operations that they make.
\<close>

section \<open>Data\<close>

abbreviation (input) RSC_MAX_NUM :: nat where "RSC_MAX_NUM \<equiv> 2"

text \<open>The memory devices of a service: resource table, vring control, shared buffers.\<close>

datatype shm_id = Rsc | Ctl | Shm

datatype pl_block = Priv | Rproc | Rpmsg_vdev

datatype pl_call = Dev_open nat | Dev_close nat | Irq_on | Irq_off | Alloc pl_block | Free pl_block
  | Virtio_removed bool | Task_created nat | Task_deleted nat | Msg_sent nat

record 'w platform =
  ipi_dev :: "nat option"
  ipi_registered :: int
  shm_dev :: "nat \<times> shm_id \<Rightarrow> nat option"
  mem_listed :: "nat \<times> shm_id \<Rightarrow> bool"
  ipi_sem :: "nat \<Rightarrow> bool"
  pl_calls :: "pl_call list"
  pl_world :: 'w

record 'w pl_env =
  m_open :: "(nat \<times> shm_id) option \<Rightarrow> 'w \<Rightarrow> int \<times> nat \<times> 'w"
  m_io :: "nat \<Rightarrow> 'w \<Rightarrow> bool"
  m_irq_register :: "'w \<Rightarrow> int \<times> 'w"
  m_irq_unregister :: "'w \<Rightarrow> int \<times> 'w"
  m_alloc :: "pl_block \<Rightarrow> 'w \<Rightarrow> bool \<times> 'w"
  m_set_rsc_table :: "'w \<Rightarrow> int \<times> 'w"
  m_create_virtio :: "'w \<Rightarrow> bool \<times> 'w"
  m_get_io_with_pa :: "'w \<Rightarrow> bool"
  m_init_vdev :: "'w \<Rightarrow> int \<times> 'w"
  m_create_sem :: "'w \<Rightarrow> bool \<times> 'w"

definition pl_log :: "pl_call \<Rightarrow> 'w platform \<Rightarrow> 'w platform" where
  "pl_log x st = st\<lparr>pl_calls := pl_calls st @ [x]\<rparr>"

section \<open>Processor operations\<close>

definition metal_device_close :: "nat option \<Rightarrow> 'w platform \<Rightarrow> 'w platform" where
  "metal_device_close d st = (case d of None \<Rightarrow> st | Some x \<Rightarrow> pl_log (Dev_close x) st)"

text \<open>The returned status of a device without an i/o region is the 0 of the open.\<close>

definition init_memory_device :: "'w pl_env \<Rightarrow> nat \<times> shm_id \<Rightarrow> 'w platform \<Rightarrow> int \<times> 'w platform" where
  "init_memory_device env info st =
    (case m_open env (Some info) (pl_world st) of (ret, dev, w) \<Rightarrow>
     let st0 = st\<lparr>pl_world := w\<rparr> in
     if ret \<noteq> 0 then (ret, metal_device_close (shm_dev st0 info) st0)
     else let st1 = (pl_log (Dev_open dev) st0)\<lparr>shm_dev := (shm_dev st0)(info := Some dev)\<rparr> in
     if \<not> m_io env dev (pl_world st1) then (ret, metal_device_close (shm_dev st1 info) st1)
     else (0, st1\<lparr>mem_listed := (mem_listed st1)(info := True)\<rparr>))"

definition rzv2_enable_interrupt :: "'w pl_env \<Rightarrow> 'w platform \<Rightarrow> int \<times> 'w platform" where
  "rzv2_enable_interrupt env st =
    (if ipi_registered st = 0 then
       (case m_irq_register env (pl_world st) of (ret, w) \<Rightarrow>
          if ret \<noteq> 0 then (ret, st\<lparr>pl_world := w\<rparr>) else (ret, pl_log Irq_on (st\<lparr>pl_world := w\<rparr>)))
     else (0, st))"

definition rzv2_disable_interrupt :: "'w pl_env \<Rightarrow> 'w platform \<Rightarrow> 'w platform" where
  "rzv2_disable_interrupt env st =
    (case ipi_dev st of None \<Rightarrow> st
     | Some d \<Rightarrow>
        (let st1 = pl_log Irq_off st in
         case m_irq_unregister env (pl_world st1) of (ret, w) \<Rightarrow>
           if ret \<noteq> 0 then st1\<lparr>pl_world := w\<rparr>
           else (metal_device_close (Some d) (st1\<lparr>pl_world := w\<rparr>))\<lparr>ipi_registered := 0\<rparr>))"

text \<open>Opening the mailbox device; \<open>False\<close> with whether the error path closes the device.\<close>

definition probe_ipi :: "'w pl_env \<Rightarrow> 'w platform \<Rightarrow> (bool \<times> bool) \<times> 'w platform" where
  "probe_ipi env st =
    (if ipi_registered st = 0 then
       (case m_open env None (pl_world st) of (ret, dev, w) \<Rightarrow>
          if ret \<noteq> 0 then ((False, False), st\<lparr>pl_world := w\<rparr>)
          else let st1 = (pl_log (Dev_open dev) (st\<lparr>pl_world := w\<rparr>))\<lparr>ipi_dev := Some dev\<rparr> in
               if \<not> m_io env dev (pl_world st1) then ((False, True), st1) else ((True, False), st1))
     else ((True, False), st))"

text \<open>The three memory devices in turn.\<close>

fun init_memories :: "'w pl_env \<Rightarrow> nat \<Rightarrow> shm_id list \<Rightarrow> 'w platform \<Rightarrow> bool \<times> 'w platform" where
  "init_memories env i [] st = (True, st)"
| "init_memories env i (k # ks) st =
    (case init_memory_device env (i, k) st of (ret, st') \<Rightarrow>
       if ret \<noteq> 0 then (False, st') else init_memories env i ks st')"

definition rzv2_proc_init :: "'w pl_env \<Rightarrow> nat \<Rightarrow> 'w platform \<Rightarrow> bool \<times> 'w platform" where
  "rzv2_proc_init env i st =
    (case probe_ipi env st of
       ((False, False), st1) \<Rightarrow> (False, st1)
     | ((False, True), st1) \<Rightarrow> (False, metal_device_close (ipi_dev st1) st1)
     | ((True, _), st1) \<Rightarrow>
        (case rzv2_enable_interrupt env st1 of (ret, st2) \<Rightarrow>
         if ret \<noteq> 0 then (False, metal_device_close (ipi_dev st2) st2)
         else case init_memories env i [Rsc, Ctl, Shm] (st2\<lparr>ipi_registered := ipi_registered st2 + 1\<rparr>) of
           (True, st3) \<Rightarrow> (True, st3)
         | (False, st3) \<Rightarrow> (False, metal_device_close (ipi_dev st3) st3)))"

definition rzv2_proc_remove :: "'w pl_env \<Rightarrow> 'w platform \<Rightarrow> 'w platform" where
  "rzv2_proc_remove env st =
    (if ipi_registered st > 1 then st\<lparr>ipi_registered := ipi_registered st - 1\<rparr>
     else rzv2_disable_interrupt env st)"

definition rzv2_proc_notify :: "nat \<Rightarrow> 'w platform \<Rightarrow> int \<times> 'w platform" where
  "rzv2_proc_notify notify_id st = (0, pl_log (Msg_sent notify_id) st)"

text \<open>The mailbox interrupt: the semaphore it gives, if any.\<close>

definition rzv2_mhu_callback :: "nat \<Rightarrow> 'w platform \<Rightarrow> nat option" where
  "rzv2_mhu_callback val st =
    (if val \<ge> RSC_MAX_NUM then None else if ipi_sem st val then Some val else None)"

section \<open>The remote processor\<close>

text \<open>An allocation of the remote processor's own memory.\<close>

definition metal_allocate_memory :: "'w pl_env \<Rightarrow> pl_block \<Rightarrow> 'w platform \<Rightarrow> bool \<times> 'w platform" where
  "metal_allocate_memory env b st =
    (case m_alloc env b (pl_world st) of
       (True, w) \<Rightarrow> (True, pl_log (Alloc b) (st\<lparr>pl_world := w\<rparr>))
     | (False, w) \<Rightarrow> (False, st\<lparr>pl_world := w\<rparr>))"

definition platform_create_proc :: "'w pl_env \<Rightarrow> nat \<Rightarrow> 'w platform \<Rightarrow> bool \<times> 'w platform" where
  "platform_create_proc env rsc_index st0 =
    (case metal_allocate_memory env Priv st0 of
       (False, st1) \<Rightarrow> (False, st1)
     | (True, st1) \<Rightarrow>
        (case metal_allocate_memory env Rproc st1 of
           (False, st2) \<Rightarrow> (False, pl_log (Free Priv) st2)
         | (True, st2) \<Rightarrow>
            (let err2 = (\<lambda>st. pl_log (Free Priv) (pl_log (Free Rproc) (rzv2_proc_remove env st))) in
             case rzv2_proc_init env rsc_index st2 of
               (False, st3) \<Rightarrow> (False, err2 st3)
             | (True, st3) \<Rightarrow>
                (case m_set_rsc_table env (pl_world st3) of (ret, w) \<Rightarrow>
                   if ret \<noteq> 0 then (False, err2 (st3\<lparr>pl_world := w\<rparr>)) else (True, st3\<lparr>pl_world := w\<rparr>)))))"

definition platform_init :: "'w pl_env \<Rightarrow> nat \<Rightarrow> nat \<Rightarrow> bool \<Rightarrow> 'w platform \<Rightarrow> int \<times> 'w platform" where
  "platform_init env proc_id rsc_id platform_null st =
    (if platform_null then (- EINVAL, st)
     else if proc_id \<ge> RSC_MAX_NUM \<or> rsc_id \<ge> RSC_MAX_NUM then (- EINVAL, st)
     else case platform_create_proc env rsc_id st of (ok, st') \<Rightarrow> (if ok then 0 else - EINVAL, st'))"

text \<open>Unlinking a memory node that is not in a list follows null or stale pointers.\<close>

definition release_memory :: "nat \<times> shm_id \<Rightarrow> 'w platform \<Rightarrow> 'w platform exec" where
  "release_memory info st =
    (if \<not> mem_listed st info then Faults
     else Ret (metal_device_close (shm_dev st info) (st\<lparr>mem_listed := (mem_listed st)(info := False)\<rparr>)))"

definition platform_cleanup :: "'w pl_env \<Rightarrow> nat \<Rightarrow> 'w platform \<Rightarrow> 'w platform exec" where
  "platform_cleanup env i st =
    exec_bind (release_memory (i, Ctl) st) (\<lambda>st1.
    exec_bind (release_memory (i, Shm) st1) (\<lambda>st2.
    exec_bind (release_memory (i, Rsc) st2) (\<lambda>st3.
      Ret (pl_log (Free Rproc) (rzv2_proc_remove env (pl_log (Free Priv) st3))))))"

section \<open>The virtio device\<close>

definition start_ipi_task :: "'w pl_env \<Rightarrow> nat \<Rightarrow> 'w platform \<Rightarrow> 'w platform" where
  "start_ipi_task env notify_id st =
    (case m_create_sem env (pl_world st) of (b, w) \<Rightarrow>
       pl_log (Task_created notify_id) (st\<lparr>pl_world := w, ipi_sem := (ipi_sem st)(notify_id := b)\<rparr>))"

definition platform_create_rpmsg_vdev :: "'w pl_env \<Rightarrow> nat \<Rightarrow> 'w platform \<Rightarrow> bool \<times> 'w platform" where
  "platform_create_rpmsg_vdev env notify_id st =
    (case metal_allocate_memory env Rpmsg_vdev st of
       (False, st1) \<Rightarrow> (False, st1)
     | (True, st1) \<Rightarrow>
        (case m_create_virtio env (pl_world st1) of (vdev, w) \<Rightarrow>
         let st2 = st1\<lparr>pl_world := w\<rparr>;
             err = (\<lambda>st. (False, pl_log (Free Rpmsg_vdev) (pl_log (Virtio_removed vdev) st)))
         in if \<not> vdev \<or> \<not> m_get_io_with_pa env (pl_world st2) then err st2
            else case m_init_vdev env (pl_world st2) of (ret, w2) \<Rightarrow>
              if ret \<noteq> 0 then err (st2\<lparr>pl_world := w2\<rparr>)
              else (True, start_ipi_task env notify_id (st2\<lparr>pl_world := w2\<rparr>))))"

definition release_rpmsg_vdev :: "nat \<Rightarrow> 'w platform \<Rightarrow> 'w platform" where
  "release_rpmsg_vdev notify_id st =
    (let st1 = (pl_log (Task_deleted notify_id) st)\<lparr>ipi_sem := (ipi_sem st)(notify_id := False)\<rparr>
     in pl_log (Free Rpmsg_vdev) (pl_log (Virtio_removed True) st1))"

end
