(* ===== verification/Platform_Props.thy ===== *)
theory Platform_Props
  imports Platform "HOL-Library.Multiset"
begin

text \<open>
  Properties of the platform layer: a complete life cycle releases everything it took, and
  what the error paths do.
\<close>

section \<open>Devices and blocks\<close>

text \<open>The devices that are open after a list of calls; closing one that is not open is an
  error.\<close>

fun devs_after :: "pl_call list \<Rightarrow> nat multiset \<Rightarrow> nat multiset option" where
  "devs_after [] M = Some M"
| "devs_after (Dev_open d # cs) M = devs_after cs (add_mset d M)"
| "devs_after (Dev_close d # cs) M = (if d \<in># M then devs_after cs (M - {#d#}) else None)"
| "devs_after (_ # cs) M = devs_after cs M"

definition blocks_balanced :: "pl_call list \<Rightarrow> bool" where
  "blocks_balanced cs \<longleftrightarrow> (\<forall>b. count_if (\<lambda>c. c = Alloc b) cs = count_if (\<lambda>c. c = Free b) cs)"

definition pl_idle :: "'w platform \<Rightarrow> bool" where
  "pl_idle st \<longleftrightarrow> ipi_registered st = 0 \<and> (\<forall>x. \<not> mem_listed st x)"

section \<open>A complete life cycle\<close>

lemma pl_log_simps [simp]:
  "ipi_dev (pl_log x st) = ipi_dev st" "ipi_registered (pl_log x st) = ipi_registered st"
  "shm_dev (pl_log x st) = shm_dev st" "mem_listed (pl_log x st) = mem_listed st"
  "pl_calls (pl_log x st) = pl_calls st @ [x]" "pl_world (pl_log x st) = pl_world st"
  by (simp_all add: pl_log_def)

lemma close_simps [simp]:
  "ipi_dev (metal_device_close d st) = ipi_dev st" "ipi_registered (metal_device_close d st) = ipi_registered st"
  "shm_dev (metal_device_close d st) = shm_dev st" "mem_listed (metal_device_close d st) = mem_listed st"
  "pl_calls (metal_device_close d st) = pl_calls st @ (case d of None \<Rightarrow> [] | Some x \<Rightarrow> [Dev_close x])"
  by (simp_all add: metal_device_close_def split: option.splits)

lemma init_memory_ok:
  assumes "init_memory_device env info st = (0, st')" "\<And>d w. m_io env d w"
  shows "\<exists>d. pl_calls st' = pl_calls st @ [Dev_open d] \<and> shm_dev st' = (shm_dev st)(info := Some d) \<and>
    mem_listed st' = (mem_listed st)(info := True) \<and> ipi_dev st' = ipi_dev st \<and> ipi_registered st' = ipi_registered st"
  using assms by (auto simp: init_memory_device_def Let_def split: prod.splits if_splits)

lemma init_memories_ok:
  assumes "init_memories env i [Rsc, Ctl, Shm] st = (True, st')" and io: "\<And>d w. m_io env d w"
  shows "\<exists>a b c. pl_calls st' = pl_calls st @ [Dev_open a, Dev_open b, Dev_open c] \<and>
    shm_dev st' = (shm_dev st)((i, Rsc) := Some a, (i, Ctl) := Some b, (i, Shm) := Some c) \<and>
    mem_listed st' = (mem_listed st)((i, Rsc) := True, (i, Ctl) := True, (i, Shm) := True) \<and>
    ipi_dev st' = ipi_dev st \<and> ipi_registered st' = ipi_registered st"
proof -
  obtain s1 s2 where "init_memory_device env (i, Rsc) st = (0, s1)" "init_memory_device env (i, Ctl) s1 = (0, s2)"
    "init_memory_device env (i, Shm) s2 = (0, st')"
    using assms(1) by (auto split: prod.splits if_splits)
  from this[THEN init_memory_ok, OF io] show ?thesis by auto
qed

lemma proc_init_ok:
  assumes "rzv2_proc_init env i st = (True, st')" "ipi_registered st = 0" and io: "\<And>d w. m_io env d w"
  shows "\<exists>d a b c. pl_calls st' = pl_calls st @ [Dev_open d, Irq_on, Dev_open a, Dev_open b, Dev_open c] \<and>
    shm_dev st' = (shm_dev st)((i, Rsc) := Some a, (i, Ctl) := Some b, (i, Shm) := Some c) \<and>
    mem_listed st' = (mem_listed st)((i, Rsc) := True, (i, Ctl) := True, (i, Shm) := True) \<and>
    ipi_dev st' = Some d \<and> ipi_registered st' = 1"
proof -
  obtain x st1 where p: "probe_ipi env st = ((True, x), st1)"
    using assms(1) by (auto simp: rzv2_proc_init_def split: prod.splits bool.splits)
  then obtain d where d: "pl_calls st1 = pl_calls st @ [Dev_open d]" "ipi_dev st1 = Some d" "ipi_registered st1 = 0"
    "shm_dev st1 = shm_dev st" "mem_listed st1 = mem_listed st"
    using assms(2) by (auto simp: probe_ipi_def Let_def split: prod.splits if_splits)
  obtain ret st2 where e: "rzv2_enable_interrupt env st1 = (ret, st2)" by fastforce
  have r: "ret = 0" using assms(1) by (auto simp: rzv2_proc_init_def p e split: if_splits)
  have s2: "pl_calls st2 = pl_calls st1 @ [Irq_on]" "ipi_dev st2 = ipi_dev st1" "ipi_registered st2 = 0"
    "shm_dev st2 = shm_dev st1" "mem_listed st2 = mem_listed st1"
    using e r d(3) by (auto simp: rzv2_enable_interrupt_def split: prod.splits if_splits)
  have "init_memories env i [Rsc, Ctl, Shm] (st2\<lparr>ipi_registered := ipi_registered st2 + 1\<rparr>) = (True, st')"
    using assms(1) r by (auto simp: rzv2_proc_init_def p e simp del: init_memories.simps split: prod.splits bool.splits)
  from init_memories_ok[OF this io] show ?thesis using d s2 by auto
qed


section \<open>Error paths\<close>

lemma remove_calls:
  assumes "\<And>w. fst (m_irq_unregister env w) = 0" "ipi_registered x \<le> 1" "ipi_dev x = Some d"
  shows "pl_calls (rzv2_proc_remove env x) = pl_calls x @ [Irq_off, Dev_close d]"
  using assms by (simp add: rzv2_proc_remove_def rzv2_disable_interrupt_def Let_def split_beta)

lemma probe_opened:
  assumes "\<And>w. fst (m_open env None w) = 0 \<and> fst (snd (m_open env None w)) = d" "ipi_registered s = 0"
  obtains s1 w where "probe_ipi env s = ((m_io env d w, \<not> m_io env d w), s1)" "pl_calls s1 = pl_calls s @ [Dev_open d]"
    "ipi_dev s1 = Some d" "ipi_registered s1 = 0" "shm_dev s1 = shm_dev s" "mem_listed s1 = mem_listed s"
proof -
  obtain w where "m_open env None (pl_world s) = (0, d, w)" using assms(1)[of "pl_world s"] by (metis prod.collapse)
  then show ?thesis using assms(2)
    by (intro that[of w "(pl_log (Dev_open d) (s\<lparr>pl_world := w\<rparr>))\<lparr>ipi_dev := Some d\<rparr>"])
      (simp_all add: probe_ipi_def Let_def)
qed

lemma irq_enabled:
  assumes "\<And>w. fst (m_irq_register env w) = 0" "ipi_registered s = 0"
  obtains s1 where "rzv2_enable_interrupt env s = (0, s1)" "pl_calls s1 = pl_calls s @ [Irq_on]"
    "ipi_dev s1 = ipi_dev s" "ipi_registered s1 = 0" "shm_dev s1 = shm_dev s" "mem_listed s1 = mem_listed s"
  using assms by (auto simp: rzv2_enable_interrupt_def split_beta)

lemma init_memory_no_io:
  assumes "\<And>w. fst (m_open env (Some k) w) = 0" "\<And>w w'. \<not> m_io env (fst (snd (m_open env (Some k) w))) w'"
  obtains s1 where "init_memory_device env k s = (0, s1)" "mem_listed s1 = mem_listed s"
  using assms by (auto simp: init_memory_device_def Let_def split_beta)

text \<open>The error paths of the initialisation do not keep that discipline.  When the mailbox
  device has no i/o region, or a memory device cannot be opened, the mailbox device is
  closed twice: by the initialisation and again by the removal.  When the resource table
  is refused, the three memory devices stay open.  And a memory device without an i/o
  region is reported as a success, after which the clean-up unlinks a node that is in no
  list.\<close>

theorem platform_init_failures:
  assumes idle: "pl_idle st" and i: "i < 2" and sh: "shm_dev st (i, Rsc) = None"
    and mem: "\<And>b w. fst (m_alloc env b w)" and ipi: "\<And>w. fst (m_open env None w) = 0 \<and> fst (snd (m_open env None w)) = d"
    and irq: "\<And>w. fst (m_irq_register env w) = 0" "\<And>w. fst (m_irq_unregister env w) = 0"
  shows "((\<forall>w. \<not> m_io env d w) \<longrightarrow>
      (\<exists>st'. platform_init env 0 i False st = (- EINVAL, st') \<and> pl_calls st' = pl_calls st @
        [Alloc Priv, Alloc Rproc, Dev_open d, Dev_close d, Irq_off, Dev_close d, Free Rproc, Free Priv])) \<and>
    ((\<forall>w. m_io env d w) \<and> (\<forall>w. fst (m_open env (Some (i, Rsc)) w) \<noteq> 0) \<longrightarrow>
      (\<exists>st'. platform_init env 0 i False st = (- EINVAL, st') \<and> pl_calls st' = pl_calls st @
        [Alloc Priv, Alloc Rproc, Dev_open d, Irq_on, Dev_close d, Irq_off, Dev_close d, Free Rproc, Free Priv])) \<and>
    ((\<forall>e w. m_io env e w) \<and> (\<forall>x w. fst (m_open env x w) = 0) \<and> (\<forall>w. fst (m_set_rsc_table env w) \<noteq> 0) \<longrightarrow>
      (\<exists>st' a b c. platform_init env 0 i False st = (- EINVAL, st') \<and> pl_calls st' = pl_calls st @
        [Alloc Priv, Alloc Rproc, Dev_open d, Irq_on, Dev_open a, Dev_open b, Dev_open c, Irq_off, Dev_close d,
         Free Rproc, Free Priv])) \<and>
    ((\<forall>e w. m_io env e w = (e = d)) \<and> (\<forall>x w. fst (m_open env x w) = 0) \<and>
     (\<forall>k w. fst (snd (m_open env (Some k) w)) \<noteq> d) \<and> (\<forall>w. fst (m_set_rsc_table env w) = 0) \<longrightarrow>
      (\<exists>st'. platform_init env 0 i False st = (0, st') \<and> platform_cleanup env i st' = Faults))"
proof -
  define s where "s = snd (metal_allocate_memory env Rproc (snd (metal_allocate_memory env Priv st)))"
  have al: "metal_allocate_memory env b x = (True, snd (metal_allocate_memory env b x))" for b x
    using mem[of b "pl_world x"] by (auto simp: metal_allocate_memory_def split: prod.splits bool.splits)
  have s: "pl_calls s = pl_calls st @ [Alloc Priv, Alloc Rproc]" "ipi_registered s = 0" "shm_dev s = shm_dev st"
    "mem_listed s = mem_listed st"
    using idle mem by (auto simp: s_def metal_allocate_memory_def pl_idle_def split_beta split: bool.splits)
  have cp: "platform_create_proc env i st =
     (case rzv2_proc_init env i s of
        (False, st3) \<Rightarrow> (False, pl_log (Free Priv) (pl_log (Free Rproc) (rzv2_proc_remove env st3)))
      | (True, st3) \<Rightarrow>
         (case m_set_rsc_table env (pl_world st3) of (ret, w) \<Rightarrow>
            if ret \<noteq> 0 then (False, pl_log (Free Priv) (pl_log (Free Rproc) (rzv2_proc_remove env (st3\<lparr>pl_world := w\<rparr>))))
            else (True, st3\<lparr>pl_world := w\<rparr>)))"
    unfolding platform_create_proc_def
    by (subst al, simp, subst al) (simp add: s_def Let_def)
  have pi: "platform_init env 0 i False st = (if fst (platform_create_proc env i st) then 0 else - EINVAL,
      snd (platform_create_proc env i st))"
    using i by (simp add: platform_init_def split_beta)
  obtain s1 w1 where p: "probe_ipi env s = ((m_io env d w1, \<not> m_io env d w1), s1)" "pl_calls s1 = pl_calls s @ [Dev_open d]"
    "ipi_dev s1 = Some d" "ipi_registered s1 = 0" "shm_dev s1 = shm_dev s" "mem_listed s1 = mem_listed s"
    using probe_opened[OF ipi s(2)] .
  obtain s2 where e: "rzv2_enable_interrupt env s1 = (0, s2)" "pl_calls s2 = pl_calls s1 @ [Irq_on]"
    "ipi_dev s2 = ipi_dev s1" "ipi_registered s2 = 0" "shm_dev s2 = shm_dev s1" "mem_listed s2 = mem_listed s1"
    using irq_enabled[OF irq(1) p(4)] .
  define s3 where "s3 = s2\<lparr>ipi_registered := ipi_registered s2 + 1\<rparr>"
  have s3: "pl_calls s3 = pl_calls s1 @ [Irq_on]" "ipi_dev s3 = Some d" "ipi_registered s3 = 1"
    "shm_dev s3 = shm_dev st" "mem_listed s3 = mem_listed st"
    using e p s by (simp_all add: s3_def)
  have init: "rzv2_proc_init env i s = (case init_memories env i [Rsc, Ctl, Shm] s3 of
      (True, st3) \<Rightarrow> (True, st3) | (False, st3) \<Rightarrow> (False, metal_device_close (ipi_dev st3) st3))"
    if "\<forall>w. m_io env d w"
    using that by (simp add: rzv2_proc_init_def p(1) e(1) s3_def[symmetric] del: init_memories.simps)
  show ?thesis
  proof (intro conjI impI)
    assume "\<forall>w. \<not> m_io env d w"
    then have "rzv2_proc_init env i s = (False, metal_device_close (ipi_dev s1) s1)" by (simp add: rzv2_proc_init_def p(1))
    then show "\<exists>st'. platform_init env 0 i False st = (- EINVAL, st') \<and> pl_calls st' = pl_calls st @
        [Alloc Priv, Alloc Rproc, Dev_open d, Dev_close d, Irq_off, Dev_close d, Free Rproc, Free Priv]"
      using p s remove_calls[OF irq(2), of "metal_device_close (ipi_dev s1) s1" d] by (simp add: pi cp)
  next
    assume h: "(\<forall>w. m_io env d w) \<and> (\<forall>w. fst (m_open env (Some (i, Rsc)) w) \<noteq> 0)"
    define s4 where "s4 = snd (init_memories env i [Rsc, Ctl, Shm] s3)"
    have "init_memories env i [Rsc, Ctl, Shm] s3 = (False, s4)" "pl_calls s4 = pl_calls s3" "ipi_dev s4 = Some d"
      "ipi_registered s4 = 1"
      using h sh s3 by (simp_all add: s4_def init_memory_device_def Let_def split_beta)
    then show "\<exists>st'. platform_init env 0 i False st = (- EINVAL, st') \<and> pl_calls st' = pl_calls st @
        [Alloc Priv, Alloc Rproc, Dev_open d, Irq_on, Dev_close d, Irq_off, Dev_close d, Free Rproc, Free Priv]"
      using h p s s3 remove_calls[OF irq(2), of "metal_device_close (ipi_dev s4) s4" d]
      by (simp add: pi cp init del: init_memories.simps)
  next
    assume h: "(\<forall>e w. m_io env e w) \<and> (\<forall>x w. fst (m_open env x w) = 0) \<and> (\<forall>w. fst (m_set_rsc_table env w) \<noteq> 0)"
    define s4 where "s4 = snd (init_memories env i [Rsc, Ctl, Shm] s3)"
    have m: "init_memories env i [Rsc, Ctl, Shm] s3 = (True, s4)"
      using h by (simp add: s4_def init_memory_device_def Let_def split_beta)
    obtain a b c where s4: "pl_calls s4 = pl_calls s3 @ [Dev_open a, Dev_open b, Dev_open c]" "ipi_dev s4 = Some d"
      "ipi_registered s4 = 1"
      using init_memories_ok[OF m] h s3 by auto
    let ?s5 = "s4\<lparr>pl_world := snd (m_set_rsc_table env (pl_world s4))\<rparr>"
    show "\<exists>st' a b c. platform_init env 0 i False st = (- EINVAL, st') \<and> pl_calls st' = pl_calls st @
        [Alloc Priv, Alloc Rproc, Dev_open d, Irq_on, Dev_open a, Dev_open b, Dev_open c, Irq_off, Dev_close d,
         Free Rproc, Free Priv]"
      using h p s s3 s4 remove_calls[OF irq(2), of ?s5 d] by (simp add: pi cp init m split_beta del: init_memories.simps)
  next
    assume h: "(\<forall>e w. m_io env e w = (e = d)) \<and> (\<forall>x w. fst (m_open env x w) = 0) \<and>
      (\<forall>k w. fst (snd (m_open env (Some k) w)) \<noteq> d) \<and> (\<forall>w. fst (m_set_rsc_table env w) = 0)"
    have no: "init_memory_device env k x = (0, snd (init_memory_device env k x)) \<and>
        mem_listed (snd (init_memory_device env k x)) = mem_listed x" for k x
      by (rule init_memory_no_io[of env k x]) (use h in blast, use h in blast, simp)
    define s4 where "s4 = snd (init_memories env i [Rsc, Ctl, Shm] s3)"
    have no': "fst (init_memory_device env k x) = 0" "mem_listed (snd (init_memory_device env k x)) = mem_listed x" for k x
      by (use no in \<open>metis fst_conv\<close>, use no in blast)
    have m: "init_memories env i [Rsc, Ctl, Shm] s3 = (True, s4)" "mem_listed s4 = mem_listed st"
      using no' s3 by (simp_all add: s4_def split_beta)
    show "\<exists>st'. platform_init env 0 i False st = (0, st') \<and> platform_cleanup env i st' = Faults"
      using h m idle by (simp add: pi cp init split_beta platform_cleanup_def release_memory_def pl_idle_def
          del: init_memories.simps)
  qed
qed

text \<open>An environment in which everything succeeds, apart from the i/o region of the mailbox.\<close>

definition demo_pl_env :: "bool \<Rightarrow> nat pl_env" where
  "demo_pl_env mailbox =
     \<lparr>m_open = (\<lambda>x w. (0, case x of None \<Rightarrow> 1 | Some _ \<Rightarrow> 2 + w, w + 1)), m_io = (\<lambda>d w. mailbox \<or> d \<noteq> 1),
      m_irq_register = (\<lambda>w. (0, w)), m_irq_unregister = (\<lambda>w. (0, w)), m_alloc = (\<lambda>b w. (True, w)),
      m_set_rsc_table = (\<lambda>w. (0, w)), m_create_virtio = (\<lambda>w. (True, w)), m_get_io_with_pa = (\<lambda>w. True),
      m_init_vdev = (\<lambda>w. (0, w)), m_create_sem = (\<lambda>w. (True, w))\<rparr>"

definition platform_boot :: "nat platform" where
  "platform_boot = \<lparr>ipi_dev = None, ipi_registered = 0, shm_dev = (\<lambda>_. None), mem_listed = (\<lambda>_. False),
     ipi_sem = (\<lambda>_. False), pl_calls = [], pl_world = 0\<rparr>"

lemma platform_boot_idle: "pl_idle platform_boot"
  by (simp add: pl_idle_def platform_boot_def)


theorem platform_init_failures_witness:
  "\<exists>st'. platform_init (demo_pl_env False) 0 0 False platform_boot = (- EINVAL, st') \<and>
     pl_calls st' = [Alloc Priv, Alloc Rproc, Dev_open 1, Dev_close 1, Irq_off, Dev_close 1, Free Rproc, Free Priv]"
  using platform_init_failures[OF platform_boot_idle, of 0 "demo_pl_env False" 1]
  by (simp add: demo_pl_env_def platform_boot_def)

end
