(* ===== verification/Srv_Files.thy ===== *)
theory Srv_Files
  imports Fs_Server "HOL-Library.AList"
begin

text \<open>
  The ground of the CA55 server (px4\<open>_\<close>openamp\<open>_\<close>rpc\<open>_\<close>server.cpp): its state, the calls it
  makes to Linux, the translation of paths and open flags, the creation of parent
  directories, the replacement of a file, and the table of directory handles.  Linux is a
  function from a call and a world \<open>'w\<close> to a result; the calls made are logged.  Messages
  printed, and the times and peaks that only they show, are not modelled.
\<close>

section \<open>Calls to Linux\<close>

text \<open>Reading a directory is one call: opening it, reading all entries and closing it.  The
  argument of \<open>ioctl\<close> is a number or a buffer.\<close>

datatype linux_call =
    Sys_open bytes "32 word" "32 word" | Sys_close int | Sys_read int nat | Sys_write int bytes
  | Sys_lseek int int int | Sys_fsync int | Sys_unlink bytes | Sys_access bytes int
  | Sys_mkdir bytes "32 word" | Sys_rmdir bytes | Sys_truncate bytes int | Sys_rename bytes bytes
  | Sys_stat bytes | Sys_fstat int | Sys_ioctl int "64 word" "64 word + bytes" | Sys_readdir bytes
  | Sys_fopen bytes | Sys_fputs bytes | Sys_fclose
  | Sys_clock_settime int | Sys_hwclock | Sys_time | Sys_reboot_thread
  | Sys_socket int int int | Sys_bind int bytes | Sys_connect int bytes | Sys_listen int int
  | Sys_accept int nat | Sys_setsockopt int int int bytes | Sys_shutdown int int
  | Sys_send int bytes int | Sys_recv int nat int | Sys_getsockname int nat | Sys_getpeername int nat

text \<open>\<open>sr\<open>_\<close>data\<close> is what the call stored in a buffer, \<open>sr\<open>_\<close>len\<close> a length it reported, \<open>sr\<open>_\<close>stat\<close>
  the mode, size and modification time, \<open>sr\<open>_\<close>entries\<close> the names and types of a directory.\<close>

record sys_result =
  sr_ret :: int
  sr_errno :: int
  sr_data :: bytes
  sr_len :: nat
  sr_stat :: "32 word \<times> int \<times> int"
  sr_entries :: "(bytes \<times> byte) list"

record 'w linux =
  lx_call :: "linux_call \<Rightarrow> 'w \<Rightarrow> sys_result \<times> 'w"
  lx_connected :: "'w \<Rightarrow> bool"
  lx_trysend :: "bytes \<Rightarrow> 'w \<Rightarrow> int \<times> 'w"
  lx_usleep :: "nat \<Rightarrow> 'w \<Rightarrow> 'w"
  lx_stod :: "bytes \<Rightarrow> 64 word option"

section \<open>The state of the server\<close>

text \<open>The three maps are ordered by descriptor in the code; the order matters only when a new
  session closes the descriptors.  A directory handle is its entries and the next index.\<close>

record 'w server =
  g_param_fd_bson_cache :: "(int \<times> bytes) list"
  g_param_fd_write_buffer :: "(int \<times> bytes) list"
  g_param_fd_path :: "(int \<times> bytes) list"
  s_dir_handles :: "((bytes \<times> byte) list \<times> nat) option list"
  s_system_reboot_scheduled :: bool
  s_rpc_resp_no_buf_count :: "32 word"
  s_rpc_resp_send_fail_count :: "32 word"
  srv_calls :: "linux_call list"
  srv_sent :: "bytes list"
  srv_world :: 'w

abbreviation (input) kMaxDirHandles :: nat where "kMaxDirHandles \<equiv> 16"
abbreviation (input) MAX_PARAM_FDS :: nat where "MAX_PARAM_FDS \<equiv> 8"
abbreviation (input) kMaxRpcReadPayload :: nat where "kMaxRpcReadPayload \<equiv> 472"
abbreviation (input) ENOTDIR :: int where "ENOTDIR \<equiv> 20"

definition server_boot :: "'w \<Rightarrow> 'w server" where
  "server_boot w =
     \<lparr>g_param_fd_bson_cache = [], g_param_fd_write_buffer = [], g_param_fd_path = [],
      s_dir_handles = replicate kMaxDirHandles None, s_system_reboot_scheduled = False,
      s_rpc_resp_no_buf_count = 0, s_rpc_resp_send_fail_count = 0, srv_calls = [], srv_sent = [], srv_world = w\<rparr>"

definition sys :: "'w linux \<Rightarrow> linux_call \<Rightarrow> 'w server \<Rightarrow> sys_result \<times> 'w server" where
  "sys env c st =
     (case lx_call env c (srv_world st) of (r, w) \<Rightarrow> (r, st\<lparr>srv_world := w, srv_calls := srv_calls st @ [c]\<rparr>))"

section \<open>Paths\<close>

definition cstr :: "string \<Rightarrow> bytes" where "cstr s = map of_char s"

definition kParamsBinaryPath :: bytes where "kParamsBinaryPath = cstr ''/fs/microsd/params''"
definition kParamsBinaryPathEtc :: bytes where "kParamsBinaryPathEtc = cstr ''/fs/microsd/etc/params''"
definition kParamsStagingPath :: bytes where "kParamsStagingPath = cstr ''/tmp/params.txt''"
definition kPhysParamsBinaryPath :: bytes where "kPhysParamsBinaryPath = cstr ''/drone-data/cr8_data/params''"
definition kVirtualPrefix :: bytes where "kVirtualPrefix = cstr ''/fs/microsd/''"
definition kPhysPrefix :: bytes where "kPhysPrefix = cstr ''/drone-data/cr8_data/''"
definition kLoggerTopics :: bytes where "kLoggerTopics = cstr ''/fs/microsd/etc/logging/logger_topics.txt''"

definition translate_rpc_path :: "bytes \<Rightarrow> bytes" where
  "translate_rpc_path path =
     (if take (length kVirtualPrefix) path = kVirtualPrefix then kPhysPrefix @ drop (length kVirtualPrefix) path
      else path)"

text \<open>Linux open flags.\<close>

abbreviation (input) L_O_ACCMODE :: "32 word" where "L_O_ACCMODE \<equiv> 3"
abbreviation (input) L_O_RDONLY :: "32 word" where "L_O_RDONLY \<equiv> 0"
abbreviation (input) L_O_WRONLY :: "32 word" where "L_O_WRONLY \<equiv> 1"
abbreviation (input) L_O_RDWR :: "32 word" where "L_O_RDWR \<equiv> 2"
abbreviation (input) L_O_CREAT :: "32 word" where "L_O_CREAT \<equiv> 0x40"
abbreviation (input) L_O_EXCL :: "32 word" where "L_O_EXCL \<equiv> 0x80"
abbreviation (input) L_O_TRUNC :: "32 word" where "L_O_TRUNC \<equiv> 0x200"
abbreviation (input) L_O_APPEND :: "32 word" where "L_O_APPEND \<equiv> 0x400"

text \<open>The octal file modes.\<close>

abbreviation (input) MODE_0777 :: "32 word" where "MODE_0777 \<equiv> 511"
abbreviation (input) MODE_0666 :: "32 word" where "MODE_0666 \<equiv> 438"
abbreviation (input) MODE_0755 :: "32 word" where "MODE_0755 \<equiv> 493"

unbundle bit_operations_syntax

definition flag_if :: "32 word \<Rightarrow> 32 word \<Rightarrow> 32 word \<Rightarrow> 32 word" where
  "flag_if flags b l = (if flags AND b \<noteq> 0 then l else 0)"

definition translate_rtos_to_linux_flags :: "32 word \<Rightarrow> 32 word" where
  "translate_rtos_to_linux_flags f =
     (if f AND 0xE000 \<noteq> 0 then
        (if f AND 0xA000 = 0xA000 then L_O_RDWR else if f AND 0x8000 \<noteq> 0 then L_O_WRONLY else L_O_RDONLY)
        OR flag_if f 0x0002 L_O_CREAT OR flag_if f 0x0040 L_O_TRUNC OR flag_if f 0x0100 L_O_APPEND
      else
        (f AND L_O_ACCMODE) OR flag_if f 0x0200 L_O_CREAT OR flag_if f 0x0400 L_O_TRUNC
        OR flag_if f 0x0008 L_O_APPEND OR flag_if f 0x0800 L_O_EXCL)"

definition read_only_no_create :: "32 word \<Rightarrow> bool" where
  "read_only_no_create rtos_flags =
     (let l = translate_rtos_to_linux_flags rtos_flags in l AND L_O_ACCMODE = L_O_RDONLY \<and> l AND L_O_CREAT = 0)"

definition should_skip_remote_logger_topics :: "bytes \<Rightarrow> 32 word \<Rightarrow> bool" where
  "should_skip_remote_logger_topics path rtos_flags = (path = kLoggerTopics \<and> read_only_no_create rtos_flags)"

definition is_primary_params_path :: "bytes \<Rightarrow> bool" where
  "is_primary_params_path path = (path = kParamsBinaryPath \<or> path = kParamsBinaryPathEtc)"

definition should_convert_params :: "bytes \<Rightarrow> bool" where
  "should_convert_params path = (path = cstr ''/fs/microsd/params'' \<or> path = cstr ''/fs/microsd/etc/params'')"

section \<open>Directories and the replacement of a file\<close>

text \<open>The index of the last slash, and the prefixes that the loop visits: up to each later
  slash, then the whole directory.\<close>

fun last_slash :: "bytes \<Rightarrow> nat option" where
  "last_slash [] = None"
| "last_slash (b # bs) = (case last_slash bs of Some n \<Rightarrow> Some (Suc n) | None \<Rightarrow> if b = 0x2F then Some 0 else None)"

definition dir_prefixes :: "bytes \<Rightarrow> bytes list" where
  "dir_prefixes dir = map (\<lambda>k. take k dir) (filter (\<lambda>k. dir ! k = 0x2F) [1..<length dir]) @ [dir]"

text \<open>One round creates a missing directory; the errno is the one the failure leaves.\<close>

fun ensure_dirs :: "'w linux \<Rightarrow> bytes list \<Rightarrow> 'w server \<Rightarrow> (bool \<times> int) \<times> 'w server" where
  "ensure_dirs env [] st = ((True, 0), st)"
| "ensure_dirs env (sub # subs) st =
    (if sub = [] \<or> sub = [0x2F] then ensure_dirs env subs st
     else case sys env (Sys_stat sub) st of (r, st1) \<Rightarrow>
     if sr_ret r \<noteq> 0 then
       (if sr_errno r \<noteq> ENOENT then ((False, sr_errno r), st1)
        else case sys env (Sys_mkdir sub MODE_0777) st1 of (m, st2) \<Rightarrow>
          if sr_ret m \<noteq> 0 \<and> sr_errno m \<noteq> EEXIST then ((False, sr_errno m), st2) else ensure_dirs env subs st2)
     else if fst (sr_stat r) AND 0xF000 \<noteq> 0x4000 then ((False, ENOTDIR), st1)
     else ensure_dirs env subs st1)"

definition ensure_parent_dirs :: "'w linux \<Rightarrow> bytes \<Rightarrow> 'w server \<Rightarrow> (bool \<times> int) \<times> 'w server" where
  "ensure_parent_dirs env path st =
     (case last_slash path of None \<Rightarrow> ((True, 0), st)
      | Some n \<Rightarrow> if n = 0 then ((True, 0), st) else ensure_dirs env (dir_prefixes (take n path)) st)"

text \<open>Writing the whole of the data to an open file, and whether that succeeded.\<close>

definition write_all :: "'w linux \<Rightarrow> int \<Rightarrow> bytes \<Rightarrow> 'w server \<Rightarrow> bool \<times> 'w server" where
  "write_all env fd data st =
     (case sys env (Sys_write fd data) st of (r, st1) \<Rightarrow> (0 \<le> sr_ret r \<and> sr_ret r = int (length data), st1))"

definition rename_fallback :: "'w linux \<Rightarrow> bytes \<Rightarrow> bytes \<Rightarrow> bytes \<Rightarrow> int \<Rightarrow> 'w server \<Rightarrow> bool \<times> 'w server" where
  "rename_fallback env tmp_path target data rename_err st =
     (case (if rename_err = ENOENT then
              (case ensure_parent_dirs env target st of (_, st1) \<Rightarrow>
               case sys env (Sys_rename tmp_path target) st1 of (r, st2) \<Rightarrow> (sr_ret r = 0, st2))
            else (False, st)) of
        (True, st') \<Rightarrow> (True, st')
      | (False, st') \<Rightarrow>
         (case sys env (Sys_open target (L_O_WRONLY OR L_O_CREAT OR L_O_TRUNC) MODE_0666) st' of (r, st1) \<Rightarrow>
          if 0 \<le> sr_ret r then
            (case write_all env (sr_ret r) data st1 of (done, st2) \<Rightarrow>
             let st3 = (if done then snd (sys env (Sys_fsync (sr_ret r)) st2) else st2)
             in (True, snd (sys env (Sys_close (sr_ret r)) st3)))
          else (True, st1)))"

definition atomic_overwrite_file :: "'w linux \<Rightarrow> bytes \<Rightarrow> bytes \<Rightarrow> 'w server \<Rightarrow> bool \<times> 'w server" where
  "atomic_overwrite_file env target data st =
     (case ensure_parent_dirs env target st of ((ok, _), st0) \<Rightarrow>
      if \<not> ok then (False, st0)
      else let tmp_path = target @ cstr ''.tmp'' in
      case sys env (Sys_open tmp_path (L_O_WRONLY OR L_O_CREAT OR L_O_TRUNC) MODE_0666) st0 of (r, st1) \<Rightarrow>
      if sr_ret r < 0 then (False, st1)
      else case (if data \<noteq> [] then write_all env (sr_ret r) data st1 else (True, st1)) of (written, st2) \<Rightarrow>
      case sys env (Sys_fsync (sr_ret r)) st2 of (s, st3) \<Rightarrow>
      let st4 = snd (sys env (Sys_close (sr_ret r)) st3) in
      if written \<and> sr_ret s = 0 then
        (case sys env (Sys_rename tmp_path target) st4 of (n, st5) \<Rightarrow>
         if sr_ret n \<noteq> 0 then rename_fallback env tmp_path target data (sr_errno n) st5 else (True, st5))
      else (False, snd (sys env (Sys_unlink tmp_path) st4)))"

section \<open>Directory handles\<close>

definition dir_handle_alloc :: "(bytes \<times> byte) list \<Rightarrow> 'w server \<Rightarrow> int \<times> 'w server" where
  "dir_handle_alloc entries st =
     (case find_index (\<lambda>h. h = None) (s_dir_handles st) of
        None \<Rightarrow> (- 1, st)
      | Some i \<Rightarrow> (int i, st\<lparr>s_dir_handles := (s_dir_handles st)[i := Some (entries, 0)]\<rparr>))"

definition dir_handle_get :: "int \<Rightarrow> 'w server \<Rightarrow> ((bytes \<times> byte) list \<times> nat) option" where
  "dir_handle_get h st = (if h < 0 \<or> h \<ge> int kMaxDirHandles then None else s_dir_handles st ! nat h)"

definition dir_handle_free :: "int \<Rightarrow> 'w server \<Rightarrow> 'w server" where
  "dir_handle_free h st =
     (if h < 0 \<or> h \<ge> int kMaxDirHandles then st else st\<lparr>s_dir_handles := (s_dir_handles st)[nat h := None]\<rparr>)"

end
