(* ===== verification/Srv_Convert.thy ===== *)
theory Srv_Convert
  imports Prelude
begin

text \<open>
  The parameter converter of the CA55 (param\<open>_\<close>converter.cpp): lines
  \<open>param set NAME VALUE\<close> of a text file become a BSON document and back.  A \<open>double\<close> is its
  64 bits; the library's conversions between text and \<open>double\<close> are the functions \<open>stod\<close> and
  \<open>dtoa\<close>.  The regular expression and the conversion of integers are written out.
\<close>

section \<open>Lines and words\<close>

definition is_space :: "byte \<Rightarrow> bool" where "is_space b = (b = 0x20 \<or> 9 \<le> b \<and> b \<le> 13)"

text \<open>\<open>std::getline\<close> over the whole text.\<close>

fun split_lines :: "bytes \<Rightarrow> bytes list" where
  "split_lines [] = []"
| "split_lines (b # bs) =
     (if b = 10 then [] # split_lines bs
      else case split_lines bs of [] \<Rightarrow> [[b]] | l # ls \<Rightarrow> (b # l) # ls)"

definition trim :: "byte set \<Rightarrow> bytes \<Rightarrow> bytes" where
  "trim S bs = rev (dropWhile (\<lambda>b. b \<in> S) (rev (dropWhile (\<lambda>b. b \<in> S) bs)))"

fun strip_prefix :: "bytes \<Rightarrow> bytes \<Rightarrow> bytes option" where
  "strip_prefix [] bs = Some bs"
| "strip_prefix (p # ps) [] = None"
| "strip_prefix (p # ps) (b # bs) = (if p = b then strip_prefix ps bs else None)"

definition spaces1 :: "bytes \<Rightarrow> bytes option" where
  "spaces1 bs = (case bs of [] \<Rightarrow> None | b # _ \<Rightarrow> if is_space b then Some (dropWhile is_space bs) else None)"

text \<open>The end of the pattern, \<open>(\S+)\s+(.+)\<close>.  When only white space follows the name, the last
  of it is the value; the dot matches no line terminator.\<close>

definition match_name_value :: "bytes \<Rightarrow> (bytes \<times> bytes) option" where
  "match_name_value bs =
     (let name = takeWhile (\<lambda>b. \<not> is_space b) bs;
          rest = dropWhile (\<lambda>b. \<not> is_space b) bs;
          ws = takeWhile is_space rest; v = dropWhile is_space rest
      in if name = [] \<or> ws = [] then None
         else if v \<noteq> [] then (if 13 \<in> set v \<or> 10 \<in> set v then None else Some (name, v))
         else if length ws < 2 \<or> last ws = 13 \<or> last ws = 10 then None else Some (name, [last ws]))"

definition match_param :: "bytes \<Rightarrow> (bytes \<times> bytes) option" where
  "match_param line =
     Option.bind (strip_prefix (map of_char ''param'') (dropWhile is_space line)) (\<lambda>a.
     Option.bind (spaces1 a) (\<lambda>b.
     Option.bind (strip_prefix (map of_char ''set'') b) (\<lambda>c.
     Option.bind (spaces1 c) match_name_value)))"

section \<open>Values\<close>

datatype param_value = PV_INT "32 word" | PV_FLOAT "64 word" | PV_STRING bytes

definition digit_value :: "byte \<Rightarrow> nat option" where
  "digit_value b =
     (if 0x30 \<le> b \<and> b \<le> 0x39 then Some (unat b - 0x30)
      else if 0x41 \<le> b \<and> b \<le> 0x5A then Some (unat b - 0x41 + 10)
      else if 0x61 \<le> b \<and> b \<le> 0x7A then Some (unat b - 0x61 + 10) else None)"

definition digits :: "nat \<Rightarrow> bytes \<Rightarrow> nat list" where
  "digits base bs =
     map (\<lambda>b. the (digit_value b)) (takeWhile (\<lambda>b. case digit_value b of Some d \<Rightarrow> d < base | None \<Rightarrow> False) bs)"

definition number :: "nat \<Rightarrow> nat list \<Rightarrow> nat" where "number base ds = fold (\<lambda>d n. n * base + d) ds 0"

text \<open>\<open>std::stoi\<close>: the value and the number of characters used; \<open>None\<close> is an exception.\<close>

definition stoi :: "nat \<Rightarrow> bytes \<Rightarrow> (int \<times> nat) option" where
  "stoi base bs =
     (let s1 = dropWhile is_space bs;
          neg = (s1 \<noteq> [] \<and> hd s1 = 0x2D);
          s2 = (if s1 \<noteq> [] \<and> (hd s1 = 0x2D \<or> hd s1 = 0x2B) then tl s1 else s1);
          hex = (base = 16 \<and> 2 \<le> length s2 \<and> s2 ! 0 = 0x30 \<and> (s2 ! 1 = 0x78 \<or> s2 ! 1 = 0x58) \<and> digits 16 (drop 2 s2) \<noteq> []);
          s3 = (if hex then drop 2 s2 else s2);
          ds = digits base s3;
          v = (if neg then - int (number base ds) else int (number base ds))
      in if ds = [] \<or> v < - 2147483648 \<or> v > 2147483647 then None
         else Some (v, length bs - length s3 + length ds))"

fun ilog2 :: "nat \<Rightarrow> nat" where
  "ilog2 n = (if n < 2 then 0 else Suc (ilog2 (n div 2)))"

declare ilog2.simps [simp del]

lemma ilog2_rec: "n < 2 \<Longrightarrow> ilog2 n = 0" "2 \<le> n \<Longrightarrow> ilog2 n = Suc (ilog2 (n div 2))"
  by (simp_all add: ilog2.simps[of n])

text \<open>The bits of the \<open>double\<close> of a 32-bit integer.\<close>

definition double_of_int :: "int \<Rightarrow> 64 word" where
  "double_of_int i =
     (if i = 0 then 0
      else let a = nat \<bar>i\<bar>; e = ilog2 a in
        of_nat ((if i < 0 then 2 ^ 63 else 0) + (1023 + e) * 2 ^ 52 + (a - 2 ^ e) * 2 ^ (52 - e)))"

fun find_sub :: "bytes \<Rightarrow> bytes \<Rightarrow> nat option" where
  "find_sub p [] = (if p = [] then Some 0 else None)"
| "find_sub p (b # bs) = (if take (length p) (b # bs) = p then Some 0 else map_option Suc (find_sub p bs))"

definition parse_value :: "(bytes \<Rightarrow> 64 word option) \<Rightarrow> bytes \<Rightarrow> param_value" where
  "parse_value stod s =
     (case (if 0x2E \<in> set s \<or> 0x65 \<in> set s \<or> 0x45 \<in> set s then stod s else None) of
        Some d \<Rightarrow> PV_FLOAT d
      | None \<Rightarrow>
         (let is_hex = (find_sub [0x30, 0x78] s = Some 0 \<or> find_sub [0x2D, 0x30, 0x78] s = Some 1) in
          case stoi (if is_hex then 16 else 10) s of
            Some (v, pos) \<Rightarrow> if pos = length s then PV_FLOAT (double_of_int v) else PV_STRING s
          | None \<Rightarrow> PV_STRING s))"

section \<open>Text to BSON\<close>

text \<open>The parameter that a line sets, if any.\<close>

definition param_line :: "(bytes \<Rightarrow> 64 word option) \<Rightarrow> bytes \<Rightarrow> (bytes \<times> param_value) option" where
  "param_line stod line0 =
     (let line = trim {0x20, 9, 13, 10} (takeWhile (\<lambda>b. b \<noteq> 0x23) line0) in
      if line = [] then None
      else case match_param line of None \<Rightarrow> None
        | Some (name, v) \<Rightarrow> Some (name, parse_value stod (trim {0x20, 9} v)))"

fun bson_element :: "bytes \<times> param_value \<Rightarrow> bytes" where
  "bson_element (name, PV_INT i) = 0x10 # name @ [0] @ le32 i"
| "bson_element (name, PV_FLOAT d) = 0x01 # name @ [0] @ le64 d"
| "bson_element (name, PV_STRING s) = 0x02 # name @ [0] @ le32 (of_nat (length s + 1)) @ s @ [0]"

definition text_to_bson :: "(bytes \<Rightarrow> 64 word option) \<Rightarrow> bytes \<Rightarrow> bytes" where
  "text_to_bson stod text =
     (let out = replicate 4 0
            @ concat (map (\<lambda>l. case param_line stod l of None \<Rightarrow> [] | Some p \<Rightarrow> bson_element p) (split_lines text)) @ [0]
      in overwrite 0 (le32 (of_nat (length out))) out)"

section \<open>BSON to text\<close>

fun dec_digits :: "nat \<Rightarrow> bytes" where
  "dec_digits n = (if n < 10 then [0x30 + of_nat n] else dec_digits (n div 10) @ [0x30 + of_nat (n mod 10)])"

declare dec_digits.simps [simp del]

definition to_string :: "int \<Rightarrow> bytes" where
  "to_string i = (if i < 0 then 0x2D # dec_digits (nat (- i)) else dec_digits (nat i))"

definition bson_header_text :: bytes where
  "bson_header_text = map of_char ''# PX4 Parameters (auto-generated from BSON)'' @ [10]
     @ map of_char ''# Edit this file and it will be converted to BSON when CR8 reads it'' @ [10, 10]"

definition param_text :: "bytes \<Rightarrow> bytes \<Rightarrow> bytes" where
  "param_text name v = map of_char ''param set '' @ name @ [0x20] @ v @ [10]"

text \<open>The loop over the elements.  A string whose length is not positive makes the constructor
  of \<open>std::string\<close> fail.\<close>

function bson_loop :: "(64 word \<Rightarrow> bytes) \<Rightarrow> bytes \<Rightarrow> nat \<Rightarrow> bytes \<Rightarrow> bytes option exec" where
  "bson_loop dtoa data pos out =
    (if pos \<ge> length data then Ret (Some out)
     else let ty = data ! pos in
     if ty = 0 then Ret (Some out)
     else let name = takeWhile (\<lambda>b. b \<noteq> 0) (drop (pos + 1) data); p = pos + 1 + length name + 1 in
     if ty = 0x10 then
       (if p + 4 > length data then Ret None
        else bson_loop dtoa data (p + 4) (out @ param_text name (to_string (sint (get32 (drop p data))))))
     else if ty = 0x01 then
       (if p + 8 > length data then Ret None
        else bson_loop dtoa data (p + 8) (out @ param_text name (dtoa (get64 (drop p data)))))
     else if ty = 0x02 then
       (if p + 4 > length data then Ret None
        else let n = sint (get32 (drop p data)); q = p + 4 in
        if int q + n < 0 \<or> int q + n > int (length data) then Ret None
        else if n \<le> 0 then Faults
        else bson_loop dtoa data (q + nat n) (out @ param_text name (take (nat n - 1) (drop q data))))
     else Ret None)"
  by pat_completeness auto
termination by (relation "measure (\<lambda>(dtoa, data, pos, out). length data - pos)") auto

declare bson_loop.simps [simp del]

definition bson_to_text :: "(64 word \<Rightarrow> bytes) \<Rightarrow> bytes \<Rightarrow> bytes option exec" where
  "bson_to_text dtoa data =
     (if length data < 5 then Ret None
      else if get32 data \<noteq> of_nat (length data) then Ret None
      else bson_loop dtoa data 4 bson_header_text)"

section \<open>The two directions fit together\<close>

text \<open>What a document shows for a parameter.\<close>

fun show_param :: "(64 word \<Rightarrow> bytes) \<Rightarrow> bytes \<times> param_value \<Rightarrow> bytes" where
  "show_param dtoa (name, PV_INT i) = param_text name (to_string (sint i))"
| "show_param dtoa (name, PV_FLOAT d) = param_text name (dtoa d)"
| "show_param dtoa (name, PV_STRING s) = param_text name s"

fun element_ok :: "bytes \<times> param_value \<Rightarrow> bool" where
  "element_ok (name, PV_STRING s) = (0 \<notin> set name \<and> length s + 1 < 2147483648)"
| "element_ok (name, v) = (0 \<notin> set name)"

lemma takeWhile_name: "0 \<notin> set name \<Longrightarrow> takeWhile (\<lambda>b. b \<noteq> (0::byte)) (name @ 0 # rest) = name"
  by (induction name) auto

lemma sint_of_nat32: "n < 2147483648 \<Longrightarrow> sint (of_nat n :: 32 word) = int n"
  by (simp add: signed_of_nat signed_take_bit_int_eq_self)

text \<open>One element at the position of the loop.\<close>

lemma bson_loop_element:
  assumes ok: "element_ok e"
  shows "bson_loop dtoa (pre @ bson_element e @ rest) (length pre) out =
    bson_loop dtoa (pre @ bson_element e @ rest) (length pre + length (bson_element e)) (out @ show_param dtoa e)"
proof (cases e)
  case (Pair name v)
  have n: "0 \<notin> set name" using ok Pair by (cases v) auto
  note tw = takeWhile_name[OF n]
  show ?thesis
  proof (cases v)
    case (PV_INT i)
    show ?thesis unfolding Pair PV_INT
      by (subst bson_loop.simps) (simp add: Let_def nth_append tw codec_simps, simp only: add.left_commute)
  next
    case (PV_FLOAT d)
    show ?thesis unfolding Pair PV_FLOAT
      by (subst bson_loop.simps) (simp add: Let_def nth_append tw codec_simps, simp only: add.left_commute)
  next
    case (PV_STRING s)
    have l: "sint (of_nat (length s + 1) :: 32 word) = int (length s) + 1"
      using ok unfolding Pair PV_STRING by (subst sint_of_nat32) auto
    have "drop (6 + length name) (2 # name @ 0 # le32 w @ r) = r" for w r
      by (simp add: numeral_eq_Suc codec_simps[unfolded numeral_eq_Suc])
    then show ?thesis unfolding Pair PV_STRING
      by (subst bson_loop.simps) (simp add: Let_def nth_append tw codec_simps l[simplified] nat_add_distrib, simp only: add.left_commute)
  qed
qed

lemma bson_loop_elements:
  "list_all element_ok ps \<Longrightarrow> bson_loop dtoa (pre @ concat (map bson_element ps) @ [0]) (length pre) out =
     Ret (Some (out @ concat (map (show_param dtoa) ps)))"
proof (induction ps arbitrary: pre out)
  case Nil
  show ?case by (subst bson_loop.simps) (simp add: nth_append)
next
  case (Cons e ps)
  have "bson_loop dtoa (pre @ bson_element e @ concat (map bson_element ps) @ [0]) (length pre) out =
    bson_loop dtoa ((pre @ bson_element e) @ concat (map bson_element ps) @ [0]) (length (pre @ bson_element e))
      (out @ show_param dtoa e)"
    using bson_loop_element[of e dtoa pre "concat (map bson_element ps) @ [0]" out] Cons.prems by simp
  then show ?case using Cons.IH[of "pre @ bson_element e"] Cons.prems by simp
qed

text \<open>What comes out of a line is made of bytes of the line, and not longer.\<close>

definition part_of :: "bytes \<Rightarrow> bytes \<Rightarrow> bool" where
  "part_of x y \<longleftrightarrow> set x \<subseteq> set y \<and> length x \<le> length y"

lemma part_of_refl: "part_of x x"
  by (simp add: part_of_def)

lemma part_of_trans: "part_of x y \<Longrightarrow> part_of y z \<Longrightarrow> part_of x z"
  by (auto simp: part_of_def)

lemma part_of_dropWhile: "part_of (dropWhile P x) x"
  by (auto simp: part_of_def length_dropWhile_le dest: set_dropWhileD)

lemma part_of_takeWhile: "part_of (takeWhile P x) x"
  by (auto simp: part_of_def length_takeWhile_le dest: set_takeWhileD)

lemma part_of_rev: "part_of (rev x) y \<longleftrightarrow> part_of x y"
  by (simp add: part_of_def)

lemma part_of_trim: "part_of (trim S x) x"
proof -
  have "part_of (dropWhile (\<lambda>b. b \<in> S) (rev (dropWhile (\<lambda>b. b \<in> S) x))) (rev (dropWhile (\<lambda>b. b \<in> S) x))"
    by (rule part_of_dropWhile)
  then have "part_of (dropWhile (\<lambda>b. b \<in> S) (rev (dropWhile (\<lambda>b. b \<in> S) x))) (dropWhile (\<lambda>b. b \<in> S) x)"
    by (simp add: part_of_def)
  then show ?thesis unfolding trim_def part_of_rev using part_of_dropWhile by (rule part_of_trans)
qed

lemma part_of_strip: "strip_prefix p x = Some y \<Longrightarrow> part_of y x"
  by (induction p x rule: strip_prefix.induct) (auto simp: part_of_def split: if_splits)

lemma part_of_spaces: "spaces1 x = Some y \<Longrightarrow> part_of y x"
  unfolding spaces1_def using part_of_dropWhile[of is_space x] by (auto split: list.splits if_splits)

lemma part_of_match_name_value: "match_name_value x = Some (n, v) \<Longrightarrow> part_of n x \<and> part_of v x"
proof -
  assume m: "match_name_value x = Some (n, v)"
  let ?r = "dropWhile (\<lambda>b. \<not> is_space b) x"
  have r: "part_of ?r x" by (rule part_of_dropWhile)
  have "(if p = [] \<or> ws = [] then None else if v0 \<noteq> [] then (if A then None else Some (p, v0))
      else if B then None else Some (p, [last ws])) = Some (n, v) \<Longrightarrow> n = p \<and> (v = v0 \<or> ws \<noteq> [] \<and> v = [last ws])"
    for p ws v0 A B by (simp split: if_split_asm)
  note nv = this[OF m[unfolded match_name_value_def Let_def]]
  have "part_of [last (takeWhile is_space ?r)] ?r" if "takeWhile is_space ?r \<noteq> []"
    using last_in_set[OF that] by (cases ?r) (auto simp: part_of_def dest: set_takeWhileD)
  then show ?thesis using nv part_of_takeWhile part_of_dropWhile[of is_space ?r] part_of_trans[OF _ r] by metis
qed

lemma bind_SomeE: "Option.bind m f = Some r \<Longrightarrow> (\<And>a. m = Some a \<Longrightarrow> f a = Some r \<Longrightarrow> P) \<Longrightarrow> P"
  by (cases m) simp_all

lemma part_of_match_param:
  assumes "match_param x = Some (n, v)"
  shows "part_of n x \<and> part_of v x"
proof -
  from assms obtain a where s1: "strip_prefix (map of_char ''param'') (dropWhile is_space x) = Some a" and
    1: "Option.bind (spaces1 a) (\<lambda>b. Option.bind (strip_prefix (map of_char ''set'') b)
      (\<lambda>c. Option.bind (spaces1 c) match_name_value)) = Some (n, v)"
    unfolding match_param_def by (rule bind_SomeE)
  from 1 obtain b where s2: "spaces1 a = Some b" and
    2: "Option.bind (strip_prefix (map of_char ''set'') b) (\<lambda>c. Option.bind (spaces1 c) match_name_value) = Some (n, v)"
    by (rule bind_SomeE)
  from 2 obtain c where s3: "strip_prefix (map of_char ''set'') b = Some c" and
    3: "Option.bind (spaces1 c) match_name_value = Some (n, v)" by (rule bind_SomeE)
  from 3 obtain d where s4: "spaces1 c = Some d" and m: "match_name_value d = Some (n, v)" by (rule bind_SomeE)
  have "part_of a x" using part_of_strip[OF s1] part_of_dropWhile by (rule part_of_trans)
  with part_of_spaces[OF s2] have "part_of b x" by (rule part_of_trans)
  with part_of_strip[OF s3] have "part_of c x" by (rule part_of_trans)
  with part_of_spaces[OF s4] have "part_of d x" by (rule part_of_trans)
  then show ?thesis using part_of_match_name_value[OF m] part_of_trans by blast
qed

lemma param_line_ok:
  assumes l: "param_line stod line = Some e" and z: "0 \<notin> set line" and n: "length line < 2147483647"
  shows "element_ok e"
proof -
  let ?x = "trim {0x20, 9, 13, 10} (takeWhile (\<lambda>b. b \<noteq> 0x23) line)"
  obtain name v where m: "match_param ?x = Some (name, v)" and e: "e = (name, parse_value stod (trim {0x20, 9} v))"
    using l by (auto simp: param_line_def Let_def split: option.splits if_splits)
  have "part_of ?x line" using part_of_trim part_of_takeWhile by (rule part_of_trans)
  then have "part_of name line" "part_of (trim {0x20, 9} v) line"
    using part_of_match_param[OF m] part_of_trans part_of_trim by blast+
  then have "0 \<notin> set name" "length (trim {0x20, 9} v) + 1 < 2147483648" using z n by (auto simp: part_of_def)
  moreover have "parse_value stod s = PV_STRING s \<or> (\<exists>d. parse_value stod s = PV_FLOAT d)" for s
    by (auto simp: parse_value_def Let_def split: option.splits)
  ultimately show ?thesis unfolding e by (metis element_ok.simps(1,3))
qed

lemma split_lines_part: "l \<in> set (split_lines t) \<Longrightarrow> part_of l t"
  by (induction t arbitrary: l rule: split_lines.induct)
    (fastforce simp: part_of_def split: if_splits list.splits)+

text \<open>The parameters that a text sets.\<close>

definition text_params :: "(bytes \<Rightarrow> 64 word option) \<Rightarrow> bytes \<Rightarrow> (bytes \<times> param_value) list" where
  "text_params stod t = List.map_filter (param_line stod) (split_lines t)"

lemma text_to_bson_layout:
  "text_to_bson stod t = le32 (of_nat (length (text_to_bson stod t))) @ concat (map bson_element (text_params stod t)) @ [0]"
proof -
  have "concat (map (\<lambda>l. case param_line stod l of None \<Rightarrow> [] | Some p \<Rightarrow> bson_element p) ls) =
      concat (map bson_element (List.map_filter (param_line stod) ls))" for ls
    by (induction ls) (auto simp: map_filter_simps split: option.splits)
  then show ?thesis by (simp add: text_to_bson_def text_params_def overwrite_def codec_simps)
qed

lemma split_lines_bytes: "concat (split_lines t) = filter (\<lambda>b. b \<noteq> 10) t"
  by (induction t rule: split_lines.induct) (auto split: list.splits)

text \<open>C37: A text without zero bytes becomes a document whose size field is its length, and the
  document read back shows exactly the parameters that the text sets, in their order.\<close>

theorem text_bson_text:
  assumes "0 \<notin> set t" "length t < 2147483647" "length (text_to_bson stod t) < 4294967296"
  shows "get32 (text_to_bson stod t) = of_nat (length (text_to_bson stod t)) \<and>
    bson_to_text dtoa (text_to_bson stod t) =
      Ret (Some (bson_header_text @ concat (map (show_param dtoa) (text_params stod t))))"
proof -
  let ?d = "text_to_bson stod t" and ?ps = "text_params stod t"
  have ok: "list_all element_ok ?ps"
  proof -
    have "element_ok e" if "l \<in> set (split_lines t)" "param_line stod l = Some e" for l e
      using split_lines_part[OF that(1)] param_line_ok[OF that(2)] assms(1,2) by (auto simp: part_of_def)
    then show ?thesis by (auto simp: text_params_def list_all_iff map_filter_def)
  qed
  have h: "get32 ?d = of_nat (length ?d)" by (subst text_to_bson_layout) (simp add: codec_simps)
  moreover have "5 \<le> length ?d" by (subst text_to_bson_layout) (simp add: codec_simps)
  moreover have "bson_loop dtoa ?d 4 bson_header_text = Ret (Some (bson_header_text @ concat (map (show_param dtoa) ?ps)))"
    using bson_loop_elements[OF ok, of dtoa "le32 (of_nat (length ?d))" bson_header_text]
    unfolding text_to_bson_layout[symmetric] by (simp add: codec_simps)
  ultimately show ?thesis by (simp add: bson_to_text_def)
qed

text \<open>The line \<open>param set A 5\<close>, and the parameter it sets: the number 5.\<close>

abbreviation demo_line :: bytes where
  "demo_line \<equiv> [0x70, 0x61, 0x72, 0x61, 0x6D, 0x20, 0x73, 0x65, 0x74, 0x20, 0x41, 0x20, 0x35]"

lemma demo_params: "text_params (\<lambda>_. None) demo_line = [([0x41], PV_FLOAT 0x4014000000000000)]"
proof -
  have m: "match_param demo_line = Some ([0x41], [0x35])"
    by (simp add: match_param_def spaces1_def is_space_def match_name_value_def)
  have "stoi 10 [0x35] = Some (5, 1)" by (simp add: stoi_def digits_def digit_value_def number_def is_space_def)
  then have v: "parse_value (\<lambda>_. None) [0x35] = PV_FLOAT 0x4014000000000000"
    by (simp add: parse_value_def double_of_int_def ilog2_rec)
  have "param_line (\<lambda>_. None) demo_line = Some ([0x41], PV_FLOAT 0x4014000000000000)"
    using m v by (simp add: param_line_def Let_def trim_def)
  then show ?thesis by (simp add: text_params_def map_filter_simps)
qed

theorem text_bson_text_witness:
  "bson_to_text (\<lambda>d. [0x35]) (text_to_bson (\<lambda>_. None) demo_line)
     = Ret (Some (bson_header_text @ demo_line @ [10]))"
proof -
  have "length (text_to_bson (\<lambda>_. None) demo_line) < 4294967296"
    by (subst text_to_bson_layout) (simp add: demo_params codec_simps)
  then show ?thesis
    using text_bson_text[of demo_line "\<lambda>_. None" "\<lambda>d. [0x35]"] by (simp add: demo_params param_text_def)
qed

end
