(* ===== verification/Srv_Ops.thy ===== *)
theory Srv_Ops
  imports Srv_Files Srv_Convert
begin

text \<open>
  The file requests of the CA55 server, one definition per opcode of \<open>handle\<open>_\<close>fs\<open>_\<close>rpc\<close>
  (px4\<open>_\<close>openamp\<open>_\<close>rpc\<open>_\<close>server.cpp).  Each takes the payload and returns the reply, whose
  parts are the return value, the errno value and the payload of the response.  A read
  past the end of a buffer is \<open>Faults\<close>.  Memory is never exhausted.
\<close>

section \<open>Replies\<close>

type_synonym srv_reply = "32 word \<times> 32 word \<times> bytes"

definition reply_error :: "int \<Rightarrow> srv_reply" where "reply_error e = (- 1, of_int e, [])"

text \<open>\<open>int err = (ret < 0) ? errno : 0\<close>, and the reply without a payload.\<close>

definition err_of :: "sys_result \<Rightarrow> int" where "err_of r = (if sr_ret r < 0 then sr_errno r else 0)"

definition reply_ret :: "sys_result \<Rightarrow> srv_reply" where
  "reply_ret r = (of_int (sr_ret r), of_int (err_of r), [])"

definition reply_call :: "'w linux \<Rightarrow> linux_call \<Rightarrow> 'w server \<Rightarrow> srv_reply \<times> 'w server" where
  "reply_call env c st = (case sys env c st of (r, st') \<Rightarrow> (reply_ret r, st'))"

section \<open>Opening\<close>

definition bson_of_text_file :: "'w linux \<Rightarrow> int \<Rightarrow> 'w server \<Rightarrow> 'w server" where
  "bson_of_text_file env fd st =
     (case sys env (Sys_fstat fd) st of (f, st1) \<Rightarrow>
      let size = fst (snd (sr_stat f)) in
      if sr_ret f = 0 \<and> 0 < size \<and> size < 1024 * 1024 then
        (case sys env (Sys_lseek fd 0 0) st1 of (_, st2) \<Rightarrow>
         case sys env (Sys_read fd (nat size)) st2 of (r, st3) \<Rightarrow>
         if 0 < sr_ret r then
           (let st4 = st3\<lparr>g_param_fd_bson_cache :=
                  AList.update fd (text_to_bson (lx_stod env) (take (nat (sr_ret r)) (sr_data r))) (g_param_fd_bson_cache st3)\<rparr>
            in snd (sys env (Sys_lseek fd 0 0) st4))
         else st3)
      else st1)"

text \<open>Opening the parameters for writing: a staging file, whose text is served as BSON.\<close>

definition open_staging :: "'w linux \<Rightarrow> bytes \<Rightarrow> 32 word \<Rightarrow> 'w server \<Rightarrow> srv_reply \<times> 'w server" where
  "open_staging env path_buf mode st =
     (let txt_path = (if is_primary_params_path path_buf then kParamsStagingPath else path_buf @ cstr ''.txt'') in
      case ensure_parent_dirs env txt_path st of ((ok, e), st1) \<Rightarrow>
      if \<not> ok then (reply_error (if e \<noteq> 0 then e else EIO), st1)
      else case sys env (Sys_open txt_path (L_O_RDWR OR L_O_CREAT) mode) st1 of (r, st2) \<Rightarrow>
      if sr_ret r < 0 then (reply_ret r, st2)
      else let fd = sr_ret r in
      if length (g_param_fd_bson_cache st2) \<ge> MAX_PARAM_FDS then
        (reply_error EMFILE, snd (sys env (Sys_close fd) st2))
      else (reply_ret r, bson_of_text_file env fd
             (st2\<lparr>g_param_fd_write_buffer := AList.update fd [] (g_param_fd_write_buffer st2),
                  g_param_fd_bson_cache := AList.update fd [] (g_param_fd_bson_cache st2),
                  g_param_fd_path := AList.update fd txt_path (g_param_fd_path st2)\<rparr>)))"

text \<open>The flags are tested with the values of Linux although they are the caller's.\<close>

definition srv_fs_open :: "'w linux \<Rightarrow> bytes \<Rightarrow> 'w server \<Rightarrow> srv_reply \<times> 'w server" where
  "srv_fs_open env payload st =
     (case srv_open payload of None \<Rightarrow> (reply_error EINVAL, st)
      | Some (flags, mode, path) \<Rightarrow>
        let path_buf = c_str path in
        if should_skip_remote_logger_topics path_buf flags then ((- 1, of_int ENOENT, []), st)
        else if should_convert_params path_buf then
          (if is_primary_params_path path_buf \<and> flags AND (L_O_WRONLY OR L_O_RDWR OR L_O_CREAT OR L_O_TRUNC) = 0
           then reply_call env (Sys_open (translate_rpc_path path_buf) L_O_RDONLY mode) st
           else open_staging env path_buf mode st)
        else reply_call env (Sys_open (translate_rpc_path path_buf) (translate_rtos_to_linux_flags flags) mode) st)"

section \<open>Reading and writing\<close>

definition srv_fs_read :: "'w linux \<Rightarrow> bytes \<Rightarrow> 'w server \<Rightarrow> (srv_reply \<times> 'w server) exec" where
  "srv_fs_read env payload st =
     (if length payload < 8 then Ret (reply_error EINVAL, st)
      else let fd = sint (get32 payload);
               actual_len = min (unat (get32 (drop 4 payload))) kMaxRpcReadPayload in
      case map_of (g_param_fd_bson_cache st) fd of
        Some bson_data \<Rightarrow>
          (case sys env (Sys_lseek fd 0 1) st of (c, st1) \<Rightarrow>
           if sr_ret c < 0 then Ret ((- 1, of_int (sr_errno c), []), st1)
           else let pos = nat (sr_ret c);
                    to_read = min (length bson_data - pos) actual_len in
           if to_read > 0 then
             Ret ((of_nat to_read, 0, take to_read (drop pos bson_data)),
                  snd (sys env (Sys_lseek fd (int pos + int to_read) 0) st1))
           else Ret ((0, 0, []), st1))
      | None \<Rightarrow>
          if actual_len > 0 then
            (case sys env (Sys_read fd actual_len) st of (r, st1) \<Rightarrow>
             if sr_ret r > int actual_len \<or> sr_ret r > int (length (sr_data r)) then Faults
             else Ret ((of_int (sr_ret r), of_int (err_of r), take (nat (sr_ret r)) (sr_data r)), st1))
          else Ret ((0, 0, []), st))"

definition srv_fs_write :: "'w linux \<Rightarrow> bytes \<Rightarrow> 'w server \<Rightarrow> srv_reply \<times> 'w server" where
  "srv_fs_write env payload st =
     (case srv_write payload of None \<Rightarrow> (reply_error EINVAL, st)
      | Some (fdw, data) \<Rightarrow>
        let fd = sint fdw in
        case map_of (g_param_fd_write_buffer st) fd of
          Some b \<Rightarrow> ((of_nat (length data), 0, []),
                     st\<lparr>g_param_fd_write_buffer := AList.update fd (b @ data) (g_param_fd_write_buffer st)\<rparr>)
        | None \<Rightarrow> reply_call env (Sys_write fd data) st)"

section \<open>Closing\<close>

abbreviation (input) kMinFullParamsBsonSize :: nat where "kMinFullParamsBsonSize \<equiv> 1024"

text \<open>The check of a buffered document: what is to be written, if anything.\<close>

definition bson_to_store :: "bytes \<Rightarrow> bytes option" where
  "bson_to_store b0 =
     (let doc_size = get32 b0;
          b = (if length b0 \<ge> 4 \<and> doc_size = 0 then overwrite 0 (le32 (of_nat (length b0))) b0 else b0);
          skip_disk_write = (length b0 \<ge> 4 \<and> doc_size \<noteq> 0 \<and> length b0 < unat doc_size)
      in if skip_disk_write \<or> length b < kMinFullParamsBsonSize then None else Some b)"

definition store_params :: "'w linux \<Rightarrow> bytes \<Rightarrow> 'w server \<Rightarrow> bool \<times> 'w server" where
  "store_params env b st =
     (let st1 = snd (sys env (Sys_stat kPhysParamsBinaryPath) st) in
      case bson_to_store b of None \<Rightarrow> (True, st1)
      | Some d \<Rightarrow>
        (case atomic_overwrite_file env kPhysParamsBinaryPath d st1 of
           (False, st2) \<Rightarrow> (False, st2)
         | (True, st2) \<Rightarrow> (True, snd (sys env (Sys_stat kPhysParamsBinaryPath) st2))))"

definition forget_param_fd :: "int \<Rightarrow> 'w server \<Rightarrow> 'w server" where
  "forget_param_fd fd st =
     st\<lparr>g_param_fd_write_buffer := AList.delete fd (g_param_fd_write_buffer st),
        g_param_fd_bson_cache := AList.delete fd (g_param_fd_bson_cache st),
        g_param_fd_path := AList.delete fd (g_param_fd_path st)\<rparr>"

definition srv_fs_close :: "'w linux \<Rightarrow> bytes \<Rightarrow> 'w server \<Rightarrow> srv_reply \<times> 'w server" where
  "srv_fs_close env payload st =
     (if length payload < 4 then (reply_error EINVAL, st)
      else let fd = sint (get32 payload) in
      case (case map_of (g_param_fd_write_buffer st) fd of
              None \<Rightarrow> (True, st)
            | Some b \<Rightarrow> (case (if b \<noteq> [] then store_params env b st else (True, st)) of
                          (ok, st1) \<Rightarrow> (ok, forget_param_fd fd st1))) of
        (ok, st2) \<Rightarrow>
        (case sys env (Sys_close fd) st2 of (r, st3) \<Rightarrow>
         (if ok then reply_ret r else (- 1, of_int EIO, []),
          st3\<lparr>g_param_fd_path := AList.delete fd (g_param_fd_path st3)\<rparr>)))"

section \<open>Seek, sync and the operations on paths\<close>

definition srv_fs_lseek :: "'w linux \<Rightarrow> bytes \<Rightarrow> 'w server \<Rightarrow> srv_reply \<times> 'w server" where
  "srv_fs_lseek env payload st =
     (if length payload < 16 then (reply_error EINVAL, st)
      else reply_call env (Sys_lseek (sint (get32 payload)) (sint (get64 (drop 8 payload))) (sint (get32 (drop 4 payload)))) st)"

definition srv_fs_fsync :: "'w linux \<Rightarrow> bytes \<Rightarrow> 'w server \<Rightarrow> srv_reply \<times> 'w server" where
  "srv_fs_fsync env payload st =
     (if length payload < 4 then (reply_error EINVAL, st) else reply_call env (Sys_fsync (sint (get32 payload))) st)"

text \<open>The translated path as the C string that a call receives.\<close>

definition phys_path :: "bytes \<Rightarrow> bytes" where "phys_path path = c_str (translate_rpc_path path)"

definition srv_fs_unlink :: "'w linux \<Rightarrow> bytes \<Rightarrow> 'w server \<Rightarrow> srv_reply \<times> 'w server" where
  "srv_fs_unlink env payload st =
     (case srv_path_only payload of None \<Rightarrow> (reply_error EINVAL, st)
      | Some p \<Rightarrow> reply_call env (Sys_unlink (phys_path p)) st)"

definition srv_fs_access :: "'w linux \<Rightarrow> bytes \<Rightarrow> 'w server \<Rightarrow> srv_reply \<times> 'w server" where
  "srv_fs_access env payload st =
     (case srv_access payload of None \<Rightarrow> (reply_error EINVAL, st)
      | Some (mode, p) \<Rightarrow> reply_call env (Sys_access (phys_path p) (sint mode)) st)"

definition srv_fs_mkdir :: "'w linux \<Rightarrow> bytes \<Rightarrow> 'w server \<Rightarrow> srv_reply \<times> 'w server" where
  "srv_fs_mkdir env payload st =
     (case srv_mkdir payload of None \<Rightarrow> (reply_error EINVAL, st)
      | Some (mode, p) \<Rightarrow> reply_call env (Sys_mkdir (phys_path p) mode) st)"

definition srv_fs_rmdir :: "'w linux \<Rightarrow> bytes \<Rightarrow> 'w server \<Rightarrow> srv_reply \<times> 'w server" where
  "srv_fs_rmdir env payload st =
     (case srv_path_only payload of None \<Rightarrow> (reply_error EINVAL, st)
      | Some p \<Rightarrow> reply_call env (Sys_rmdir (phys_path p)) st)"

definition srv_fs_truncate :: "'w linux \<Rightarrow> bytes \<Rightarrow> 'w server \<Rightarrow> srv_reply \<times> 'w server" where
  "srv_fs_truncate env payload st =
     (case srv_truncate payload of None \<Rightarrow> (reply_error EINVAL, st)
      | Some (len, p) \<Rightarrow> reply_call env (Sys_truncate (phys_path p) (sint len)) st)"

definition srv_fs_rename :: "'w linux \<Rightarrow> bytes \<Rightarrow> 'w server \<Rightarrow> srv_reply \<times> 'w server" where
  "srv_fs_rename env payload st =
     (case srv_rename payload of None \<Rightarrow> (reply_error EINVAL, st)
      | Some (p, q) \<Rightarrow> reply_call env (Sys_rename (translate_rpc_path p) (translate_rpc_path q)) st)"

definition srv_fs_stat :: "'w linux \<Rightarrow> bytes \<Rightarrow> 'w server \<Rightarrow> srv_reply \<times> 'w server" where
  "srv_fs_stat env payload st =
     (if length payload < 4 then (reply_error EINVAL, st)
      else let path_len = unat (get32 payload) in
      if length payload < 4 + path_len then (reply_error EINVAL, st)
      else let path_buf = c_str (take (min path_len (PATH_MAX - 1)) (drop 4 payload)) in
      case sys env (Sys_stat (translate_rpc_path path_buf)) st of (r, st1) \<Rightarrow>
      if sr_ret r < 0 then ((- 1, of_int (sr_errno r), []), st1)
      else case sr_stat r of (mode, sz, mtime) \<Rightarrow> ((0, 0, le32 mode @ le64 (of_int sz) @ le64 (of_int mtime)), st1))"

text \<open>\<open>ioctl\<close> of files and of sockets.  The buffer of the answer is as long as the longer of
  the two lengths.\<close>

definition srv_ioctl_call :: "'w linux \<Rightarrow> bytes \<Rightarrow> 'w server \<Rightarrow> srv_reply \<times> 'w server" where
  "srv_ioctl_call env payload st =
     (case srv_ioctl payload of None \<Rightarrow> (reply_error EINVAL, st)
      | Some (fd, code, write_len, read_len, scalar_value, data) \<Rightarrow>
        let io_buffer = overwrite 0 data (replicate (max (unat write_len) (unat read_len)) 0);
            arg = (if write_len > 0 \<or> read_len > 0 then Inr io_buffer else Inl scalar_value) in
        case sys env (Sys_ioctl (sint fd) code arg) st of (r, st1) \<Rightarrow>
        let after = overwrite 0 (take (length io_buffer) (sr_data r)) io_buffer;
            response_size = (if sr_ret r = 0 \<and> read_len > 0 then unat read_len else 0)
        in ((of_int (sr_ret r), of_int (err_of r), take response_size after), st1))"

section \<open>Sessions of the R8\<close>

text \<open>A new session closes the descriptors of parameters that the old one left open, in
  ascending order.\<close>

definition srv_fs_session_reset :: "'w linux \<Rightarrow> 'w server \<Rightarrow> srv_reply \<times> 'w server" where
  "srv_fs_session_reset env st =
     ((0, 0, []),
      fold (\<lambda>fd s. forget_param_fd fd (snd (sys env (Sys_close fd) s))) (sort (map fst (g_param_fd_write_buffer st))) st)"

section \<open>Directories\<close>

fun bytes_le :: "bytes \<Rightarrow> bytes \<Rightarrow> bool" where
  "bytes_le [] ys = True"
| "bytes_le (x # xs) [] = False"
| "bytes_le (x # xs) (y # ys) = (x < y \<or> x = y \<and> bytes_le xs ys)"

text \<open>Sorting by name, as \<open>strcmp\<close> and \<open>std::string\<close> order.\<close>

fun insert_by_name :: "('a \<Rightarrow> bytes) \<Rightarrow> 'a \<Rightarrow> 'a list \<Rightarrow> 'a list" where
  "insert_by_name f x [] = [x]"
| "insert_by_name f x (y # ys) = (if bytes_le (f x) (f y) then x # y # ys else y # insert_by_name f x ys)"

definition sort_by_name :: "('a \<Rightarrow> bytes) \<Rightarrow> 'a list \<Rightarrow> 'a list" where
  "sort_by_name f xs = foldr (insert_by_name f) xs []"

definition srv_fs_opendir :: "'w linux \<Rightarrow> bytes \<Rightarrow> 'w server \<Rightarrow> srv_reply \<times> 'w server" where
  "srv_fs_opendir env payload st =
     (case srv_path_only payload of None \<Rightarrow> (reply_error EINVAL, st)
      | Some p \<Rightarrow>
        (case sys env (Sys_readdir (phys_path p)) st of (r, st1) \<Rightarrow>
         if sr_ret r < 0 then ((- 1, of_int (sr_errno r), []), st1)
         else case dir_handle_alloc (sort_by_name fst (sr_entries r)) st1 of (h, st2) \<Rightarrow>
           if h < 0 then ((- 1, of_int EMFILE, []), st2) else ((of_int h, 0, []), st2)))"

text \<open>\<open>strncpy\<close> into the cleared 256 bytes, then the type.\<close>

definition readdir_response :: "bytes \<Rightarrow> byte \<Rightarrow> bytes" where
  "readdir_response name d_type =
     (let n = take 255 name in n @ replicate (256 - length n) 0 @ [d_type])"

definition srv_fs_readdir :: "'w linux \<Rightarrow> bytes \<Rightarrow> 'w server \<Rightarrow> srv_reply \<times> 'w server" where
  "srv_fs_readdir env payload st =
     (if length payload < 4 then (reply_error EINVAL, st)
      else let h = sint (get32 payload) in
      case dir_handle_get h st of None \<Rightarrow> ((- 1, of_int EBADF, []), st)
      | Some (entries, i) \<Rightarrow>
          if i \<ge> length entries then ((1, 0, []), st)
          else ((0, 0, readdir_response (fst (entries ! i)) (snd (entries ! i))),
                st\<lparr>s_dir_handles := (s_dir_handles st)[nat h := Some (entries, i + 1)]\<rparr>))"

definition srv_fs_closedir :: "'w linux \<Rightarrow> bytes \<Rightarrow> 'w server \<Rightarrow> srv_reply \<times> 'w server" where
  "srv_fs_closedir env payload st =
     (if length payload < 4 then (reply_error EINVAL, st)
      else let h = sint (get32 payload) in
      case dir_handle_get h st of None \<Rightarrow> ((- 1, of_int EBADF, []), st)
      | Some _ \<Rightarrow> ((0, 0, []), dir_handle_free h st))"

section \<open>Clock and reboot\<close>

definition srv_clock_settime :: "'w linux \<Rightarrow> bytes \<Rightarrow> 'w server \<Rightarrow> srv_reply \<times> 'w server" where
  "srv_clock_settime env payload st =
     (if length payload < 8 then (reply_error EINVAL, st)
      else case sys env (Sys_clock_settime (sint (get64 payload))) st of (r, st1) \<Rightarrow>
        (reply_ret r, if sr_ret r = 0 then snd (sys env Sys_hwclock st1) else st1))"

definition schedule_system_reboot :: "'w linux \<Rightarrow> 'w server \<Rightarrow> 'w server" where
  "schedule_system_reboot env st =
     (if s_system_reboot_scheduled st then st
      else case sys env Sys_reboot_thread (st\<lparr>s_system_reboot_scheduled := True\<rparr>) of (r, st1) \<Rightarrow>
        if sr_ret r = 0 then st1 else st1\<lparr>s_system_reboot_scheduled := False\<rparr>)"

definition srv_system_reboot :: "'w linux \<Rightarrow> 'w server \<Rightarrow> srv_reply \<times> 'w server" where
  "srv_system_reboot env st = ((0, 0, []), schedule_system_reboot env st)"

section \<open>Log sessions\<close>

definition kVirtLogRoot :: bytes where "kVirtLogRoot = cstr ''/fs/microsd/log''"
definition kVirtLogData :: bytes where "kVirtLogData = cstr ''/fs/microsd/logdata.txt''"
definition kVirtLogDataTmp :: bytes where "kVirtLogDataTmp = cstr ''/fs/microsd/$log$.txt''"

text \<open>Decimal numbers padded with zeros, as \<open>%02d\<close> and \<open>%03u\<close>.\<close>

definition dec_pad :: "nat \<Rightarrow> nat \<Rightarrow> bytes" where
  "dec_pad w n = (let d = dec_digits n in replicate (w - length d) 0x30 @ d)"

definition sess_name :: "nat \<Rightarrow> bytes" where "sess_name n = cstr ''/sess'' @ dec_pad 3 n"

text \<open>The search for a session number; \<open>left\<close> counts the numbers left to try.\<close>

fun find_session :: "'w linux \<Rightarrow> nat \<Rightarrow> nat \<Rightarrow> 'w server \<Rightarrow> nat option \<times> 'w server" where
  "find_session env 0 n st = (None, st)"
| "find_session env (Suc left) n st =
     (case sys env (Sys_access (translate_rpc_path kVirtLogRoot @ sess_name n) 0) st of (r, st1) \<Rightarrow>
      if sr_ret r \<noteq> 0 then (Some n, st1) else find_session env left (n + 1) st1)"

text \<open>The name of the log file: the time of day in UTC when the clock is set.\<close>

definition log_file_name :: "int \<Rightarrow> bytes" where
  "log_file_name now =
     (if now > 1000000000 then
        (let t = nat now in dec_pad 2 (t div 3600 mod 24) @ cstr ''_'' @ dec_pad 2 (t div 60 mod 60) @ cstr ''_''
           @ dec_pad 2 (t mod 60) @ cstr ''.ulg'')
      else cstr ''log001.ulg'')"

definition srv_session_open :: "'w linux \<Rightarrow> 'w server \<Rightarrow> srv_reply \<times> 'w server" where
  "srv_session_open env st =
     (let root = translate_rpc_path kVirtLogRoot;
          st0 = snd (sys env (Sys_mkdir root MODE_0755) st) in
      case find_session env 999 1 st0 of
        (None, st1) \<Rightarrow> (reply_error ENOSPC, st1)
      | (Some n, st1) \<Rightarrow>
         (case sys env (Sys_mkdir (root @ sess_name n) MODE_0755) st1 of (r, st2) \<Rightarrow>
          if sr_ret r \<noteq> 0 \<and> sr_errno r \<noteq> EEXIST then (reply_error (sr_errno r), st2)
          else case sys env Sys_time st2 of (t, st3) \<Rightarrow>
            ((0, 0, kVirtLogRoot @ sess_name n @ cstr ''/'' @ log_file_name (sr_ret t) @ [0]), st3)))"

text \<open>The log index: the sessions in order, in each the log files in order, one line for every
  file that still exists.\<close>

abbreviation (input) DT_DIR :: byte where "DT_DIR \<equiv> 4"
abbreviation (input) DT_REG :: byte where "DT_REG \<equiv> 8"

definition is_log_file :: "bytes \<times> byte \<Rightarrow> bool" where
  "is_log_file e = (snd e = DT_REG \<and> 4 \<le> length (fst e) \<and> drop (length (fst e) - 4) (fst e) = cstr ''.ulg'')"

definition is_session_dir :: "bytes \<times> byte \<Rightarrow> bool" where
  "is_session_dir e = (snd e = DT_DIR \<and> take 1 (fst e) \<noteq> cstr ''.'')"

definition log_line :: "bytes \<Rightarrow> bytes \<Rightarrow> 32 word \<times> int \<times> int \<Rightarrow> bytes" where
  "log_line sess fname s =
     dec_digits (unat (of_int (snd (snd s)) :: 32 word)) @ [0x20] @ dec_digits (unat (of_int (fst (snd s)) :: 32 word))
     @ [0x20] @ kVirtLogRoot @ cstr ''/'' @ sess @ cstr ''/'' @ fname @ [10]"

definition index_file :: "'w linux \<Rightarrow> bytes \<Rightarrow> bytes \<Rightarrow> 'w server \<Rightarrow> 'w server" where
  "index_file env sess fname st =
     (case sys env (Sys_stat (translate_rpc_path kVirtLogRoot @ cstr ''/'' @ sess @ cstr ''/'' @ fname)) st of (r, st1) \<Rightarrow>
      if sr_ret r \<noteq> 0 then st1 else snd (sys env (Sys_fputs (log_line sess fname (sr_stat r))) st1))"

definition index_session :: "'w linux \<Rightarrow> bytes \<Rightarrow> 'w server \<Rightarrow> 'w server" where
  "index_session env sess st =
     (case sys env (Sys_readdir (translate_rpc_path kVirtLogRoot @ cstr ''/'' @ sess)) st of (r, st1) \<Rightarrow>
      if sr_ret r < 0 then st1
      else fold (index_file env sess) (sort_by_name id (map fst (filter is_log_file (sr_entries r)))) st1)"

definition srv_session_close :: "'w linux \<Rightarrow> 'w server \<Rightarrow> srv_reply \<times> 'w server" where
  "srv_session_close env st =
     (let tmp = translate_rpc_path kVirtLogDataTmp; target = translate_rpc_path kVirtLogData in
      case sys env (Sys_fopen tmp) st of (f, st1) \<Rightarrow>
      if sr_ret f < 0 then (reply_error (sr_errno f), st1)
      else case sys env (Sys_readdir (translate_rpc_path kVirtLogRoot)) st1 of (d, st2) \<Rightarrow>
      let st3 = (if sr_ret d < 0 then st2
                 else fold (index_session env) (sort_by_name id (map fst (filter is_session_dir (sr_entries d)))) st2);
          st4 = snd (sys env Sys_fclose st3) in
      case sys env (Sys_rename tmp target) st4 of (r, st5) \<Rightarrow>
      if sr_ret r \<noteq> 0 then (reply_error (sr_errno r), snd (sys env (Sys_unlink tmp) st5)) else ((0, 0, []), st5))"

section \<open>The dispatch\<close>

definition fs_op_of :: "16 word \<Rightarrow> px4_rpc_fs_op option" where
  "fs_op_of w = find (\<lambda>op. rpc_fs_code op = w)
     [PX4_RPC_FS_OPEN, PX4_RPC_FS_READ, PX4_RPC_FS_WRITE, PX4_RPC_FS_CLOSE, PX4_RPC_FS_LSEEK, PX4_RPC_FS_FSYNC,
      PX4_RPC_FS_UNLINK, PX4_RPC_FS_ACCESS, PX4_RPC_FS_IOCTL, PX4_RPC_FS_MKDIR, PX4_RPC_FS_RMDIR, PX4_RPC_FS_TRUNCATE,
      PX4_RPC_FS_SESSION_RESET, PX4_RPC_FS_OPENDIR, PX4_RPC_FS_READDIR, PX4_RPC_FS_CLOSEDIR, PX4_RPC_FS_RENAME,
      PX4_RPC_FS_STAT, PX4_RPC_CA55_CLOCK_SETTIME, PX4_RPC_CA55_SYSTEM_REBOOT, PX4_RPC_FS_SESSION_OPEN,
      PX4_RPC_FS_SESSION_CLOSE]"

fun fs_request_reply :: "'w linux \<Rightarrow> px4_rpc_fs_op \<Rightarrow> bytes \<Rightarrow> 'w server \<Rightarrow> (srv_reply \<times> 'w server) exec" where
  "fs_request_reply env PX4_RPC_FS_OPEN p st = Ret (srv_fs_open env p st)"
| "fs_request_reply env PX4_RPC_FS_READ p st = srv_fs_read env p st"
| "fs_request_reply env PX4_RPC_FS_WRITE p st = Ret (srv_fs_write env p st)"
| "fs_request_reply env PX4_RPC_FS_CLOSE p st = Ret (srv_fs_close env p st)"
| "fs_request_reply env PX4_RPC_FS_LSEEK p st = Ret (srv_fs_lseek env p st)"
| "fs_request_reply env PX4_RPC_FS_FSYNC p st = Ret (srv_fs_fsync env p st)"
| "fs_request_reply env PX4_RPC_FS_UNLINK p st = Ret (srv_fs_unlink env p st)"
| "fs_request_reply env PX4_RPC_FS_ACCESS p st = Ret (srv_fs_access env p st)"
| "fs_request_reply env PX4_RPC_FS_IOCTL p st = Ret (srv_ioctl_call env p st)"
| "fs_request_reply env PX4_RPC_FS_MKDIR p st = Ret (srv_fs_mkdir env p st)"
| "fs_request_reply env PX4_RPC_FS_RMDIR p st = Ret (srv_fs_rmdir env p st)"
| "fs_request_reply env PX4_RPC_FS_TRUNCATE p st = Ret (srv_fs_truncate env p st)"
| "fs_request_reply env PX4_RPC_FS_SESSION_RESET p st = Ret (srv_fs_session_reset env st)"
| "fs_request_reply env PX4_RPC_FS_OPENDIR p st = Ret (srv_fs_opendir env p st)"
| "fs_request_reply env PX4_RPC_FS_READDIR p st = Ret (srv_fs_readdir env p st)"
| "fs_request_reply env PX4_RPC_FS_CLOSEDIR p st = Ret (srv_fs_closedir env p st)"
| "fs_request_reply env PX4_RPC_FS_RENAME p st = Ret (srv_fs_rename env p st)"
| "fs_request_reply env PX4_RPC_FS_STAT p st = Ret (srv_fs_stat env p st)"
| "fs_request_reply env PX4_RPC_CA55_CLOCK_SETTIME p st = Ret (srv_clock_settime env p st)"
| "fs_request_reply env PX4_RPC_CA55_SYSTEM_REBOOT p st = Ret (srv_system_reboot env st)"
| "fs_request_reply env PX4_RPC_FS_SESSION_OPEN p st = Ret (srv_session_open env st)"
| "fs_request_reply env PX4_RPC_FS_SESSION_CLOSE p st = Ret (srv_session_close env st)"

definition handle_fs_rpc :: "'w linux \<Rightarrow> 16 word \<Rightarrow> bytes \<Rightarrow> 'w server \<Rightarrow> (srv_reply \<times> 'w server) exec" where
  "handle_fs_rpc env opcode payload st =
     (case fs_op_of opcode of None \<Rightarrow> Ret (reply_error ENOTSUP, st)
      | Some op \<Rightarrow> fs_request_reply env op payload st)"

end
