(* ===== verification/Srv_Main.thy ===== *)
theory Srv_Main
  imports Srv_Ops
begin

text \<open>
  The outer part of the CA55 server (px4\<open>_\<close>openamp\<open>_\<close>rpc\<open>_\<close>server.cpp): the socket requests, the
  response message and its transmission, the dispatch of a message, and the queue with its
  four worker threads.  A worker handles a message as one step; steps of several workers
  interleave.
\<close>

section \<open>Socket requests\<close>

definition field :: "nat \<Rightarrow> bytes \<Rightarrow> int" where "field k payload = sint (get32 (drop (4 * k) payload))"

definition sock_socket :: "'w linux \<Rightarrow> bytes \<Rightarrow> 'w server \<Rightarrow> srv_reply \<times> 'w server" where
  "sock_socket env p st =
     (if length p < 12 then (reply_error EINVAL, st)
      else reply_call env (Sys_socket (field 0 p) (field 1 p) (field 2 p)) st)"

text \<open>\<open>bind\<close> and \<open>connect\<close>: a descriptor, a length and an address.\<close>

definition sock_address :: "'w linux \<Rightarrow> (int \<Rightarrow> bytes \<Rightarrow> linux_call) \<Rightarrow> bytes \<Rightarrow> 'w server \<Rightarrow> srv_reply \<times> 'w server" where
  "sock_address env call p st =
     (if length p < 8 then (reply_error EINVAL, st)
      else if field 1 p < 0 \<or> nat (field 1 p) > length p - 8 then (reply_error EINVAL, st)
      else reply_call env (call (field 0 p) (take (nat (field 1 p)) (drop 8 p))) st)"

definition sock_listen :: "'w linux \<Rightarrow> bytes \<Rightarrow> 'w server \<Rightarrow> srv_reply \<times> 'w server" where
  "sock_listen env p st =
     (if length p < 8 then (reply_error EINVAL, st) else reply_call env (Sys_listen (field 0 p) (field 1 p)) st)"

definition sock_shutdown :: "'w linux \<Rightarrow> bytes \<Rightarrow> 'w server \<Rightarrow> srv_reply \<times> 'w server" where
  "sock_shutdown env p st =
     (if length p < 8 then (reply_error EINVAL, st) else reply_call env (Sys_shutdown (field 0 p) (field 1 p)) st)"

text \<open>The answer with an address: its length, and as many bytes of a buffer that has the
  caller's length.\<close>

definition address_reply :: "nat \<Rightarrow> bool \<Rightarrow> sys_result \<Rightarrow> srv_reply exec" where
  "address_reply max_len ok r =
     (let reported_len = (if ok \<and> max_len > 0 then sint (of_nat (sr_len r) :: 32 word) else 0);
          addr_buffer = overwrite 0 (take max_len (sr_data r)) (replicate max_len 0)
      in if reported_len > 0 \<and> nat reported_len > max_len then Faults
         else Ret (of_int (sr_ret r), of_int (err_of r), le32 (of_int reported_len) @ take (nat reported_len) addr_buffer))"

definition sock_accept :: "'w linux \<Rightarrow> bytes \<Rightarrow> 'w server \<Rightarrow> (srv_reply \<times> 'w server) exec" where
  "sock_accept env p st =
     (if length p < 8 then Ret (reply_error EINVAL, st)
      else let max_len = (if field 1 p > 0 then nat (field 1 p) else 0) in
      case sys env (Sys_accept (field 0 p) max_len) st of (r, st1) \<Rightarrow>
      exec_bind (address_reply max_len (0 \<le> sr_ret r) r) (\<lambda>a. Ret (a, st1)))"

definition sock_name :: "'w linux \<Rightarrow> (int \<Rightarrow> nat \<Rightarrow> linux_call) \<Rightarrow> bytes \<Rightarrow> 'w server \<Rightarrow> (srv_reply \<times> 'w server) exec" where
  "sock_name env call p st =
     (if length p < 8 then Ret (reply_error EINVAL, st)
      else let capacity = (if field 1 p > 0 then nat (field 1 p) else 0) in
      case sys env (call (field 0 p) capacity) st of (r, st1) \<Rightarrow>
      exec_bind (address_reply capacity (sr_ret r = 0) r) (\<lambda>a. Ret (a, st1)))"

definition sock_setsockopt :: "'w linux \<Rightarrow> bytes \<Rightarrow> 'w server \<Rightarrow> srv_reply \<times> 'w server" where
  "sock_setsockopt env p st =
     (if length p < 16 then (reply_error EINVAL, st)
      else if field 3 p < 0 \<or> nat (field 3 p) > length p - 16 then (reply_error EINVAL, st)
      else reply_call env (Sys_setsockopt (field 0 p) (field 1 p) (field 2 p) (take (nat (field 3 p)) (drop 16 p))) st)"

definition sock_send :: "'w linux \<Rightarrow> bytes \<Rightarrow> 'w server \<Rightarrow> srv_reply \<times> 'w server" where
  "sock_send env p st =
     (if length p < 12 then (reply_error EINVAL, st)
      else let len = unat (get32 (drop 8 p)) in
      if len > length p - 12 then (reply_error EINVAL, st)
      else reply_call env (Sys_send (field 0 p) (take len (drop 12 p)) (field 1 p)) st)"

definition sock_recv :: "'w linux \<Rightarrow> bytes \<Rightarrow> 'w server \<Rightarrow> (srv_reply \<times> 'w server) exec" where
  "sock_recv env p st =
     (if length p < 12 then Ret (reply_error EINVAL, st)
      else let len = unat (get32 (drop 8 p)) in
      if len > 0 then
        (case sys env (Sys_recv (field 0 p) len (field 1 p)) st of (r, st1) \<Rightarrow>
         if sr_ret r > int len \<or> sr_ret r > int (length (sr_data r)) then Faults
         else Ret ((of_int (sr_ret r), of_int (err_of r), take (nat (sr_ret r)) (sr_data r)), st1))
      else Ret ((0, 0, []), st))"

definition sock_close :: "'w linux \<Rightarrow> bytes \<Rightarrow> 'w server \<Rightarrow> srv_reply \<times> 'w server" where
  "sock_close env p st =
     (if length p < 4 then (reply_error EINVAL, st) else reply_call env (Sys_close (field 0 p)) st)"

definition socket_op_of :: "16 word \<Rightarrow> px4_rpc_socket_op option" where
  "socket_op_of w = find (\<lambda>op. rpc_socket_code op = w)
     [PX4_RPC_SOCKET, PX4_RPC_BIND, PX4_RPC_CONNECT, PX4_RPC_LISTEN, PX4_RPC_ACCEPT, PX4_RPC_SETSOCKOPT,
      PX4_RPC_SHUTDOWN, PX4_RPC_SEND, PX4_RPC_RECV, PX4_RPC_GETSOCKNAME, PX4_RPC_GETPEERNAME, PX4_RPC_CLOSE_SOCKET,
      PX4_RPC_SOCKET_IOCTL]"

fun socket_request_reply :: "'w linux \<Rightarrow> px4_rpc_socket_op \<Rightarrow> bytes \<Rightarrow> 'w server \<Rightarrow> (srv_reply \<times> 'w server) exec" where
  "socket_request_reply env PX4_RPC_SOCKET p st = Ret (sock_socket env p st)"
| "socket_request_reply env PX4_RPC_BIND p st = Ret (sock_address env Sys_bind p st)"
| "socket_request_reply env PX4_RPC_CONNECT p st = Ret (sock_address env Sys_connect p st)"
| "socket_request_reply env PX4_RPC_LISTEN p st = Ret (sock_listen env p st)"
| "socket_request_reply env PX4_RPC_ACCEPT p st = sock_accept env p st"
| "socket_request_reply env PX4_RPC_SETSOCKOPT p st = Ret (sock_setsockopt env p st)"
| "socket_request_reply env PX4_RPC_SHUTDOWN p st = Ret (sock_shutdown env p st)"
| "socket_request_reply env PX4_RPC_SEND p st = Ret (sock_send env p st)"
| "socket_request_reply env PX4_RPC_RECV p st = sock_recv env p st"
| "socket_request_reply env PX4_RPC_GETSOCKNAME p st = sock_name env Sys_getsockname p st"
| "socket_request_reply env PX4_RPC_GETPEERNAME p st = sock_name env Sys_getpeername p st"
| "socket_request_reply env PX4_RPC_CLOSE_SOCKET p st = Ret (sock_close env p st)"
| "socket_request_reply env PX4_RPC_SOCKET_IOCTL p st = Ret (srv_ioctl_call env p st)"

definition handle_socket_rpc :: "'w linux \<Rightarrow> 16 word \<Rightarrow> bytes \<Rightarrow> 'w server \<Rightarrow> (srv_reply \<times> 'w server) exec" where
  "handle_socket_rpc env opcode payload st =
     (case socket_op_of opcode of None \<Rightarrow> Ret (reply_error ENOTSUP, st)
      | Some op \<Rightarrow> socket_request_reply env op payload st)"

section \<open>The response\<close>

abbreviation (input) kMaxTries :: nat where "kMaxTries \<equiv> 3"

text \<open>The loop of the transmission with the number of the attempt and the attempts left;
  counts the retries.\<close>

fun send_tries :: "'w linux \<Rightarrow> bytes \<Rightarrow> nat \<Rightarrow> nat \<Rightarrow> int \<Rightarrow> nat \<Rightarrow> 'w server \<Rightarrow> int \<times> nat \<times> 'w server" where
  "send_tries env msg attempt 0 ret retries st = (ret, retries, st)"
| "send_tries env msg attempt (Suc left) ret retries st =
     (case lx_trysend env msg (srv_world st) of (ret', w) \<Rightarrow>
      let st1 = st\<lparr>srv_world := w, srv_sent := (if 0 \<le> ret' then srv_sent st @ [msg] else srv_sent st)\<rparr> in
      if 0 \<le> ret' \<or> ret' \<noteq> RPMSG_ERR_NO_BUFF then (ret', retries, st1)
      else send_tries env msg (attempt + 1) left ret' (retries + 1)
             (st1\<lparr>srv_world := lx_usleep env (1000 * (attempt + 1)) (srv_world st1)\<rparr>))"

definition rpmsg_send_response_retry :: "'w linux \<Rightarrow> bytes \<Rightarrow> 'w server \<Rightarrow> int \<times> nat \<times> 'w server" where
  "rpmsg_send_response_retry env msg st =
     (if msg = [] then (- EINVAL, 0, st)
      else if \<not> lx_connected env (srv_world st) then (- ENOTCONN, 0, st)
      else send_tries env msg 0 kMaxTries (- EAGAIN) 0 st)"

definition response_header :: "px4_rpc_header \<Rightarrow> srv_reply \<Rightarrow> px4_rpc_header" where
  "response_header request reply =
     (case reply of (rv, ev, payload) \<Rightarrow>
       \<lparr>hdr_magic = PX4_RPC_MAGIC, hdr_category = hdr_category request, hdr_opcode = hdr_opcode request,
        hdr_request_id = hdr_request_id request, hdr_return_value = rv, hdr_errno_value = ev,
        hdr_payload_size = of_nat (length payload)\<rparr>)"

definition response_message :: "px4_rpc_header \<Rightarrow> srv_reply \<Rightarrow> bytes" where
  "response_message request reply = header_bytes (response_header request reply) @ snd (snd reply)"

definition send_response :: "'w linux \<Rightarrow> px4_rpc_header \<Rightarrow> srv_reply \<Rightarrow> 'w server \<Rightarrow> bool \<times> 'w server" where
  "send_response env request reply st =
     (case rpmsg_send_response_retry env (response_message request reply) st of (ret, retries, st1) \<Rightarrow>
      (0 \<le> ret, st1\<lparr>s_rpc_resp_no_buf_count := s_rpc_resp_no_buf_count st1 + of_nat retries,
                    s_rpc_resp_send_fail_count := s_rpc_resp_send_fail_count st1 + (if ret < 0 then 1 else 0)\<rparr>))"

section \<open>A message\<close>

definition handle_message_buffer :: "'w linux \<Rightarrow> bytes \<Rightarrow> 'w server \<Rightarrow> (bool \<times> 'w server) exec" where
  "handle_message_buffer env message st =
     (if length message < RPC_HEADER_SIZE then Ret (False, st)
      else let h = bytes_header message; payload = drop RPC_HEADER_SIZE message in
      if hdr_magic h \<noteq> PX4_RPC_MAGIC then Ret (False, st)
      else if length payload < unat (hdr_payload_size h) then Ret (True, snd (send_response env h (reply_error EINVAL) st))
      else let p = take (unat (hdr_payload_size h)) payload in
      exec_bind
        (if hdr_category h = rpc_category_code PX4_RPC_CATEGORY_SOCKET then handle_socket_rpc env (hdr_opcode h) p st
         else if hdr_category h = rpc_category_code PX4_RPC_CATEGORY_FS then handle_fs_rpc env (hdr_opcode h) p st
         else Ret (reply_error ENOTSUP, st))
        (\<lambda>(reply, st1). Ret (send_response env h reply st1)))"

text \<open>Copying a message out of the shared buffer.  The region is that of the endpoint's device,
  if it has one, with the offset of the message, if it lies in the region, and the read of
  libmetal, which returns the number of bytes and the bytes.\<close>

type_synonym shared_message = "(nat option \<times> (nat \<Rightarrow> nat \<Rightarrow> int \<times> bytes)) option"

definition copy_rpmsg_buffer :: "shared_message \<Rightarrow> nat \<Rightarrow> bytes option" where
  "copy_rpmsg_buffer io len =
     (if len = 0 then Some []
      else case io of None \<Rightarrow> None
        | Some (None, _) \<Rightarrow> None
        | Some (Some offset, block_read) \<Rightarrow>
            (case block_read offset len of (copied, d) \<Rightarrow> if copied \<noteq> int len then None else Some d))"

definition px4_openamp_rpc_server_handle :: "'w linux \<Rightarrow> shared_message \<Rightarrow> nat \<Rightarrow> 'w server \<Rightarrow> (bool \<times> 'w server) exec" where
  "px4_openamp_rpc_server_handle env io len st =
     (if len < RPC_HEADER_SIZE then Ret (False, st)
      else case copy_rpmsg_buffer io len of None \<Rightarrow> Ret (False, st) | Some m \<Rightarrow> handle_message_buffer env m st)"

section \<open>The queue and its workers\<close>

abbreviation (input) NUM_WORKERS :: nat where "NUM_WORKERS \<equiv> 4"
abbreviation (input) MAX_QUEUE_SIZE :: nat where "MAX_QUEUE_SIZE \<equiv> 32"

text \<open>A worker that is handling a message holds it.  What was accepted, and in which order
  messages were finished, is recorded.\<close>

record 'w async_worker =
  wk_queue :: "bytes list"
  wk_busy :: "nat \<Rightarrow> bytes option"
  wk_shutdown :: bool
  wk_initialized :: bool
  wk_started :: nat
  wk_accepted :: "bytes list"
  wk_handled :: "bytes list"
  wk_server :: "'w server"

definition worker_boot :: "'w server \<Rightarrow> 'w async_worker" where
  "worker_boot s = \<lparr>wk_queue = [], wk_busy = (\<lambda>_. None), wk_shutdown = False, wk_initialized = False,
     wk_started = 0, wk_accepted = [], wk_handled = [], wk_server = s\<rparr>"

text \<open>The directories made at start-up.\<close>

definition ensure_cr8_data_dirs :: "'w linux \<Rightarrow> 'w server \<Rightarrow> 'w server" where
  "ensure_cr8_data_dirs env st =
     fold (\<lambda>d s. case sys env (Sys_stat d) s of (r, s1) \<Rightarrow>
         if sr_ret r \<noteq> 0 \<and> sr_errno r = ENOENT then snd (sys env (Sys_mkdir d MODE_0777) s1) else s1)
       [cstr ''/drone-data/cr8_data'', cstr ''/drone-data/cr8_data/etc''] st"

text \<open>The end of a shutdown, after all threads have been joined.\<close>

definition worker_joined :: "'w async_worker \<Rightarrow> 'w async_worker" where
  "worker_joined wk = wk\<lparr>wk_started := 0, wk_queue := [], wk_initialized := False\<rparr>"

text \<open>Starting the workers: whether the mutex and the condition variable could be created,
  and how many threads.\<close>

definition worker_init :: "bool \<Rightarrow> bool \<Rightarrow> nat \<Rightarrow> 'w async_worker \<Rightarrow> bool \<times> 'w async_worker" where
  "worker_init mutex_ok cond_ok threads wk =
     (if wk_initialized wk then (True, wk)
      else if \<not> mutex_ok \<or> \<not> cond_ok then (False, wk)
      else let wk1 = wk\<lparr>wk_shutdown := False, wk_started := min threads NUM_WORKERS\<rparr> in
      if wk_started wk1 \<noteq> NUM_WORKERS then
        (False, (let wk2 = wk1\<lparr>wk_shutdown := True\<rparr> in if wk_started wk2 = 0 then wk2 else worker_joined wk2))
      else (True, wk1\<lparr>wk_initialized := True\<rparr>))"

definition px4_openamp_rpc_server_init_async :: "'w linux \<Rightarrow> bool \<Rightarrow> bool \<Rightarrow> nat \<Rightarrow> 'w async_worker \<Rightarrow> bool \<times> 'w async_worker" where
  "px4_openamp_rpc_server_init_async env mutex_ok cond_ok threads wk =
     worker_init mutex_ok cond_ok threads (wk\<lparr>wk_server := ensure_cr8_data_dirs env (wk_server wk)\<rparr>)"

definition worker_error :: "'w linux \<Rightarrow> px4_rpc_header \<Rightarrow> int \<Rightarrow> 'w async_worker \<Rightarrow> bool \<times> 'w async_worker" where
  "worker_error env h e wk = (False, wk\<lparr>wk_server := snd (send_response env h (reply_error e) (wk_server wk))\<rparr>)"

text \<open>A message arrives; \<open>copied\<close> says whether it could be copied out of the shared buffer.\<close>

definition worker_enqueue :: "'w linux \<Rightarrow> bytes \<Rightarrow> bool \<Rightarrow> px4_rpc_header \<Rightarrow> 'w async_worker \<Rightarrow> bool \<times> 'w async_worker" where
  "worker_enqueue env data copied h wk =
     (if \<not> wk_initialized wk then worker_error env h EBUSY wk
      else if \<not> copied then worker_error env h EIO wk
      else if length (wk_queue wk) \<ge> MAX_QUEUE_SIZE then worker_error env h EBUSY wk
      else (True, wk\<lparr>wk_queue := wk_queue wk @ [data], wk_accepted := wk_accepted wk @ [data]\<rparr>))"

definition px4_openamp_rpc_server_enqueue :: "'w linux \<Rightarrow> bytes \<Rightarrow> bool \<Rightarrow> 'w async_worker \<Rightarrow> bool \<times> 'w async_worker" where
  "px4_openamp_rpc_server_enqueue env data copied wk =
     (if length data < RPC_HEADER_SIZE then (False, wk)
      else if hdr_magic (bytes_header data) \<noteq> PX4_RPC_MAGIC then (False, wk)
      else worker_enqueue env data copied (bytes_header data) wk)"

datatype worker_event = Arrive bytes bool | Take nat | Finish nat | Begin_shutdown | Joined

inductive worker_step :: "'w linux \<Rightarrow> 'w async_worker \<Rightarrow> worker_event \<Rightarrow> 'w async_worker \<Rightarrow> bool" for env where
  arrive: "worker_step env wk (Arrive data copied) (snd (px4_openamp_rpc_server_enqueue env data copied wk))"
| take_one: "i < wk_started wk \<Longrightarrow> wk_busy wk i = None \<Longrightarrow> \<not> wk_shutdown wk \<Longrightarrow> wk_queue wk = m # q \<Longrightarrow>
    worker_step env wk (Take i) (wk\<lparr>wk_queue := q, wk_busy := (wk_busy wk)(i := Some m)\<rparr>)"
| finish: "wk_busy wk i = Some m \<Longrightarrow> handle_message_buffer env m (wk_server wk) = Ret (ok, s) \<Longrightarrow>
    worker_step env wk (Finish i)
      (wk\<lparr>wk_busy := (wk_busy wk)(i := None), wk_handled := wk_handled wk @ [m], wk_server := s\<rparr>)"
| begin_shutdown: "wk_initialized wk \<or> wk_started wk \<noteq> 0 \<Longrightarrow>
    worker_step env wk Begin_shutdown (wk\<lparr>wk_shutdown := True\<rparr>)"
| joined: "wk_shutdown wk \<Longrightarrow> \<forall>i < wk_started wk. wk_busy wk i = None \<Longrightarrow> worker_step env wk Joined (worker_joined wk)"

inductive worker_run :: "'w linux \<Rightarrow> 'w async_worker \<Rightarrow> worker_event list \<Rightarrow> 'w async_worker \<Rightarrow> bool" for env wk where
  run_nil: "worker_run env wk [] wk"
| run_snoc: "worker_run env wk es wk1 \<Longrightarrow> worker_step env wk1 e wk2 \<Longrightarrow> worker_run env wk (es @ [e]) wk2"

end
