(* ===== verification/Srv_Props.thy ===== *)
theory Srv_Props
  imports Srv_Main
begin

text \<open>
  Properties of the CA55 server: what every request leaves unchanged, the well-formedness of
  its tables, the response to a message, its size, and the translation of open flags.
\<close>

section \<open>What requests do to the state\<close>

text \<open>The three maps of parameter descriptors have the same keys, at most eight; there are
  sixteen directory handles, and the next entry of each is at most its end.\<close>

definition server_ok :: "'w server \<Rightarrow> bool" where
  "server_ok st \<longleftrightarrow>
     map fst (g_param_fd_write_buffer st) = map fst (g_param_fd_bson_cache st) \<and>
     map fst (g_param_fd_path st) = map fst (g_param_fd_bson_cache st) \<and>
     distinct (map fst (g_param_fd_bson_cache st)) \<and> length (g_param_fd_bson_cache st) \<le> MAX_PARAM_FDS \<and>
     length (s_dir_handles st) = kMaxDirHandles \<and>
     (\<forall>entries i. Some (entries, i) \<in> set (s_dir_handles st) \<longrightarrow> i \<le> length entries)"

text \<open>A request sends nothing, only appends to the calls, and keeps the tables well formed.\<close>

definition ok_step :: "'w server \<Rightarrow> 'w server \<Rightarrow> bool" where
  "ok_step st st' \<longleftrightarrow> srv_sent st' = srv_sent st \<and>
     s_rpc_resp_send_fail_count st' = s_rpc_resp_send_fail_count st \<and> (\<exists>cs. srv_calls st' = srv_calls st @ cs) \<and>
     (server_ok st \<longrightarrow> server_ok st')"

lemma ok_step_refl [simp]: "ok_step st st"
  by (simp add: ok_step_def)

lemma ok_step_trans: "ok_step a b \<Longrightarrow> ok_step b c \<Longrightarrow> ok_step a c"
  by (auto simp: ok_step_def)

lemma ok_step_sys: "ok_step st (snd (sys env c st))"
  by (auto simp: sys_def ok_step_def server_ok_def split: prod.splits)

lemma ok_step_sys_then: "ok_step a st \<Longrightarrow> ok_step a (snd (sys env c st))"
  using ok_step_trans ok_step_sys by blast

lemma ok_step_before: "ok_step (snd (sys env c a)) b \<Longrightarrow> ok_step a b"
  using ok_step_trans ok_step_sys by blast

lemma sys_step: "sys env c st = (r, st') \<Longrightarrow> ok_step st st'"
  by (metis ok_step_sys snd_conv)

named_theorems ok_steps "each operation is a well-behaved step"

lemma ok_step_ensure_dirs [ok_steps]: "ensure_dirs env subs st = (x, st') \<Longrightarrow> ok_step st st'"
  by (induction env subs st rule: ensure_dirs.induct)
    (fastforce split: if_splits prod.splits dest: sys_step intro: ok_step_trans)+

lemma ok_step_ensure_parent [ok_steps]: "ensure_parent_dirs env p st = (x, st') \<Longrightarrow> ok_step st st'"
  by (auto simp: ensure_parent_dirs_def split: option.splits if_splits dest: ok_steps)

lemma ok_step_write_all [ok_steps]: "write_all env fd d st = (x, st') \<Longrightarrow> ok_step st st'"
  by (auto simp: write_all_def split: prod.splits dest: sys_step)

lemma ok_step_rename_fallback [ok_steps]: "rename_fallback env a b d e st = (x, st') \<Longrightarrow> ok_step st st'"
  unfolding rename_fallback_def Let_def
  by (auto split: if_splits prod.splits bool.splits dest!: sys_step ok_steps
      intro!: ok_step_sys_then intro: ok_step_trans)

lemma ok_step_overwrite [ok_steps]: "atomic_overwrite_file env t d st = (x, st') \<Longrightarrow> ok_step st st'"
  unfolding atomic_overwrite_file_def Let_def
  by (auto split: if_splits prod.splits bool.splits dest!: sys_step ok_steps ok_step_before
      intro!: ok_step_sys_then) (meson ok_step_trans)+

text \<open>The changes of the tables.\<close>

lemma sys_tables:
  assumes "sys env c st = (r, st')"
  shows "g_param_fd_bson_cache st' = g_param_fd_bson_cache st" "g_param_fd_write_buffer st' = g_param_fd_write_buffer st"
    "g_param_fd_path st' = g_param_fd_path st" "s_dir_handles st' = s_dir_handles st"
    "srv_calls st' = srv_calls st @ [c]" "srv_sent st' = srv_sent st"
    "s_system_reboot_scheduled st' = s_system_reboot_scheduled st"
  using assms by (auto simp: sys_def split: prod.splits)

lemmas snd_sys_tables [simp] = sys_tables[OF surjective_pairing]

lemma map_fst_update_in: "k \<in> fst ` set m \<Longrightarrow> map fst (AList.update k v m) = map fst m"
  by (simp add: update_keys)

lemma length_update_in: "k \<in> fst ` set m \<Longrightarrow> length (AList.update k v m) = length m"
  by (metis length_map map_fst_update_in)

lemma map_of_keys: "map_of m k = Some v \<Longrightarrow> k \<in> fst ` set m"
  by (metis domI dom_map_of_conv_image_fst)

lemma ok_step_cache: "fd \<in> fst ` set (g_param_fd_bson_cache st) \<Longrightarrow>
    ok_step st (st\<lparr>g_param_fd_bson_cache := AList.update fd x (g_param_fd_bson_cache st)\<rparr>)"
  by (simp add: ok_step_def server_ok_def map_fst_update_in length_update_in)

lemma ok_step_buffer: "map_of (g_param_fd_write_buffer st) fd = Some b \<Longrightarrow>
    ok_step st (st\<lparr>g_param_fd_write_buffer := AList.update fd x (g_param_fd_write_buffer st)\<rparr>)"
  using map_of_keys[of "g_param_fd_write_buffer st" fd b] by (simp add: ok_step_def server_ok_def map_fst_update_in)

lemma ok_step_insert: "\<not> MAX_PARAM_FDS \<le> length (g_param_fd_bson_cache st) \<Longrightarrow>
    ok_step st (st\<lparr>g_param_fd_write_buffer := AList.update fd a (g_param_fd_write_buffer st),
      g_param_fd_bson_cache := AList.update fd b (g_param_fd_bson_cache st),
      g_param_fd_path := AList.update fd c (g_param_fd_path st)\<rparr>)"
proof -
  assume "\<not> MAX_PARAM_FDS \<le> length (g_param_fd_bson_cache st)"
  moreover have "length (map fst (AList.update fd b m)) \<le> Suc (length m)" for m :: "(int \<times> bytes) list"
    unfolding update_keys by simp
  ultimately have "length (AList.update fd b (g_param_fd_bson_cache st)) \<le> MAX_PARAM_FDS"
    by (metis length_map not_less_eq_eq order.trans)
  then show ?thesis by (auto simp: ok_step_def server_ok_def update_keys distinct_update)
qed

lemma ok_step_forget: "ok_step st (forget_param_fd fd st)"
proof -
  have "length (AList.delete fd m) \<le> length m" for m :: "(int \<times> bytes) list" by (rule length_delete_le)
  then show ?thesis
    unfolding forget_param_fd_def ok_step_def server_ok_def
    by (auto simp: delete_keys distinct_removeAll intro: order.trans)
qed

lemma ok_step_forget_path: "map_of (g_param_fd_write_buffer st) fd = None \<Longrightarrow>
    ok_step st (st\<lparr>g_param_fd_path := AList.delete fd (g_param_fd_path st)\<rparr>)"
proof -
  assume n: "map_of (g_param_fd_write_buffer st) fd = None"
  have "map fst (AList.delete fd (g_param_fd_path st)) = map fst (g_param_fd_path st)"
    if "map fst (g_param_fd_path st) = map fst (g_param_fd_write_buffer st)"
  proof -
    have "fd \<notin> set (map fst (g_param_fd_path st))" unfolding that using n by (simp add: map_of_eq_None_iff)
    then show ?thesis by (simp add: delete_keys removeAll_id)
  qed
  then show ?thesis by (simp add: ok_step_def server_ok_def)
qed

lemma ok_step_dir: "n \<le> length es \<Longrightarrow> ok_step st (st\<lparr>s_dir_handles := (s_dir_handles st)[i := Some (es, n)]\<rparr>)"
  by (auto simp: ok_step_def server_ok_def dest!: set_update_subset_insert[THEN subsetD])

lemma ok_step_dir_free: "ok_step st (dir_handle_free h st)"
  by (auto simp: dir_handle_free_def ok_step_def server_ok_def dest!: set_update_subset_insert[THEN subsetD])

lemma ok_step_dir_alloc [ok_steps]: "dir_handle_alloc es st = (h, st') \<Longrightarrow> ok_step st st'"
  by (auto simp: dir_handle_alloc_def ok_step_dir split: option.splits)

section \<open>Every file request is a well-behaved step\<close>

lemmas ok_simps = reply_call_def reply_error_def Let_def

lemma ok_step_call [ok_steps]: "reply_call env c st = (r, st') \<Longrightarrow> ok_step st st'"
  by (auto simp: reply_call_def split: prod.splits dest: sys_step)

lemma ok_step_bson_of_text:
  assumes "fd \<in> fst ` set (g_param_fd_bson_cache st)"
  shows "ok_step st (bson_of_text_file env fd st)"
proof -
  obtain f st1 where 1: "sys env (Sys_fstat fd) st = (f, st1)" by (cases "sys env (Sys_fstat fd) st")
  obtain l st2 where 2: "sys env (Sys_lseek fd 0 0) st1 = (l, st2)" by (cases "sys env (Sys_lseek fd 0 0) st1")
  obtain r st3 where 3: "sys env (Sys_read fd (nat (fst (snd (sr_stat f))))) st2 = (r, st3)"
    by (cases "sys env (Sys_read fd (nat (fst (snd (sr_stat f))))) st2")
  have a: "ok_step st st1" "ok_step st st3"
    using sys_step[OF 1] sys_step[OF 2] sys_step[OF 3] ok_step_trans by blast+
  have "fd \<in> fst ` set (g_param_fd_bson_cache st3)" using assms sys_tables(1)[OF 1] sys_tables(1)[OF 2] sys_tables(1)[OF 3] by simp
  then have "ok_step st (st3\<lparr>g_param_fd_bson_cache := AList.update fd x (g_param_fd_bson_cache st3)\<rparr>)" for x
    using ok_step_trans[OF a(2) ok_step_cache] by blast
  then show ?thesis
    using a unfolding bson_of_text_file_def 1 2 3 Let_def prod.case by (simp add: 2 3 ok_step_sys_then)
qed

lemma ok_step_open_staging [ok_steps]: "open_staging env p mode st = (r, st') \<Longrightarrow> ok_step st st'"
proof -
  assume h: "open_staging env p mode st = (r, st')"
  define tp where "tp = (if is_primary_params_path p then kParamsStagingPath else p @ cstr ''.txt'')"
  obtain ok e st1 where 1: "ensure_parent_dirs env tp st = ((ok, e), st1)" by (metis surj_pair)
  obtain o' st2 where 2: "sys env (Sys_open tp (L_O_RDWR OR L_O_CREAT) mode) st1 = (o', st2)" by (metis surj_pair)
  have a: "ok_step st st1" "ok_step st st2" using ok_step_ensure_parent[OF 1] sys_step[OF 2] ok_step_trans by blast+
  let ?ins = "st2\<lparr>g_param_fd_write_buffer := AList.update (sr_ret o') [] (g_param_fd_write_buffer st2),
                  g_param_fd_bson_cache := AList.update (sr_ret o') [] (g_param_fd_bson_cache st2),
                  g_param_fd_path := AList.update (sr_ret o') tp (g_param_fd_path st2)\<rparr>"
  have "ok_step st (bson_of_text_file env (sr_ret o') ?ins)" if "\<not> MAX_PARAM_FDS \<le> length (g_param_fd_bson_cache st2)"
  proof -
    have "sr_ret o' \<in> fst ` set (g_param_fd_bson_cache ?ins)"
      by (simp, rule map_of_keys[of _ _ "[]"]) (simp add: update_conv')
    then show ?thesis using ok_step_bson_of_text ok_step_insert[OF that] ok_step_trans a(2) by meson
  qed
  then show ?thesis
    using h a unfolding open_staging_def tp_def[symmetric] Let_def 1 prod.case
    by (auto simp: 2[simplified] ok_step_sys_then split: if_splits)
qed

lemma ok_step_open [ok_steps]: "srv_fs_open env p st = (r, st') \<Longrightarrow> ok_step st st'"
  by (auto simp: srv_fs_open_def Let_def split: option.splits if_splits prod.splits dest: ok_steps)

lemma ok_step_read [ok_steps]: "srv_fs_read env p st = Ret (r, st') \<Longrightarrow> ok_step st st'"
  by (auto simp: srv_fs_read_def Let_def split: option.splits if_splits prod.splits dest: sys_step intro!: ok_step_sys_then)

lemma ok_step_write [ok_steps]: "srv_fs_write env p st = (r, st') \<Longrightarrow> ok_step st st'"
  by (auto simp: srv_fs_write_def Let_def split: option.splits prod.splits dest: ok_steps intro!: ok_step_buffer)

lemma ok_step_store [ok_steps]: "store_params env b st = (ok, st') \<Longrightarrow> ok_step st st'"
  by (auto simp: store_params_def Let_def split: option.splits prod.splits bool.splits dest!: ok_steps ok_step_before
      intro!: ok_step_sys_then)

lemma ok_step_close [ok_steps]: "srv_fs_close env p st = (r, st') \<Longrightarrow> ok_step st st'"
proof -
  assume h: "srv_fs_close env p st = (r, st')"
  define fd where "fd = sint (get32 p)"
  define mid where "mid = (case map_of (g_param_fd_write_buffer st) fd of
              None \<Rightarrow> (True, st)
            | Some b \<Rightarrow> (case (if b \<noteq> [] then store_params env b st else (True, st)) of
                          (ok, st1) \<Rightarrow> (ok, forget_param_fd fd st1)))"
  have m: "ok_step st (snd mid) \<and> map_of (g_param_fd_write_buffer (snd mid)) fd = None"
    unfolding mid_def
    by (auto simp: forget_param_fd_def delete_conv' split: option.splits prod.splits if_splits dest!: ok_step_store)
      (metis (no_types) forget_param_fd_def ok_step_forget ok_step_trans)+
  obtain ok st2 where mid: "mid = (ok, st2)" by (cases mid)
  obtain c st3 where 3: "sys env (Sys_close fd) st2 = (c, st3)" by (metis surj_pair)
  have "ok_step st st3" "map_of (g_param_fd_write_buffer st3) fd = None"
    using m mid sys_step[OF 3] ok_step_trans sys_tables(2)[OF 3] by auto
  then have "ok_step st (st3\<lparr>g_param_fd_path := AList.delete fd (g_param_fd_path st3)\<rparr>)"
    using ok_step_trans ok_step_forget_path by blast
  then show ?thesis
    using h unfolding srv_fs_close_def fd_def[symmetric] Let_def mid_def[symmetric] by (auto simp: mid 3 split: if_splits)
qed

lemma ok_step_plain [ok_steps]:
  "srv_fs_lseek env p st = (r, st') \<Longrightarrow> ok_step st st'"
  "srv_fs_fsync env p st = (r, st') \<Longrightarrow> ok_step st st'"
  "srv_fs_unlink env p st = (r, st') \<Longrightarrow> ok_step st st'"
  "srv_fs_access env p st = (r, st') \<Longrightarrow> ok_step st st'"
  "srv_fs_mkdir env p st = (r, st') \<Longrightarrow> ok_step st st'"
  "srv_fs_rmdir env p st = (r, st') \<Longrightarrow> ok_step st st'"
  "srv_fs_truncate env p st = (r, st') \<Longrightarrow> ok_step st st'"
  "srv_fs_rename env p st = (r, st') \<Longrightarrow> ok_step st st'"
  by (auto simp: srv_fs_lseek_def srv_fs_fsync_def srv_fs_unlink_def srv_fs_access_def srv_fs_mkdir_def srv_fs_rmdir_def
      srv_fs_truncate_def srv_fs_rename_def split: option.splits if_splits dest: ok_step_call)

lemma ok_step_more [ok_steps]:
  "srv_fs_stat env p st = (r, st') \<Longrightarrow> ok_step st st'"
  "srv_ioctl_call env p st = (r, st') \<Longrightarrow> ok_step st st'"
  "srv_clock_settime env p st = (r, st') \<Longrightarrow> ok_step st st'"
  by (auto simp: srv_fs_stat_def srv_ioctl_call_def srv_clock_settime_def Let_def
      split: option.splits if_splits prod.splits dest!: sys_step intro!: ok_step_sys_then)

lemma ok_step_reboot [ok_steps]: "srv_system_reboot env st = (r, st') \<Longrightarrow> ok_step st st'"
proof -
  have 1: "ok_step st (st\<lparr>s_system_reboot_scheduled := b\<rparr>)" for b and st :: "'a server"
    by (simp add: ok_step_def server_ok_def)
  have "ok_step st (schedule_system_reboot env st)"
    using ok_step_trans[OF 1 ok_step_sys] ok_step_trans[OF ok_step_trans[OF 1 ok_step_sys] 1]
    by (simp add: schedule_system_reboot_def split_beta)
  then show "srv_system_reboot env st = (r, st') \<Longrightarrow> ok_step st st'" by (auto simp: srv_system_reboot_def)
qed

lemma ok_step_fold: "(\<And>x s. x \<in> set xs \<Longrightarrow> ok_step s (f x s)) \<Longrightarrow> ok_step st (fold f xs st)"
proof (induction xs arbitrary: st)
  case (Cons x xs)
  have "ok_step (f x st) (fold f xs (f x st))" using Cons.prems by (intro Cons.IH) simp
  then show ?case using ok_step_trans[OF Cons.prems[of x st]] by simp
qed simp

lemma ok_step_session_reset [ok_steps]: "srv_fs_session_reset env st = (r, st') \<Longrightarrow> ok_step st st'"
proof -
  have "ok_step s (forget_param_fd fd (snd (sys env (Sys_close fd) s)))" for fd s
    using ok_step_trans[OF ok_step_sys ok_step_forget] .
  then have "ok_step st (fold (\<lambda>fd s. forget_param_fd fd (snd (sys env (Sys_close fd) s)))
      (sort (map fst (g_param_fd_write_buffer st))) st)" by (rule ok_step_fold)
  then show "srv_fs_session_reset env st = (r, st') \<Longrightarrow> ok_step st st'" by (auto simp: srv_fs_session_reset_def)
qed

lemma ok_step_opendir [ok_steps]: "srv_fs_opendir env p st = (r, st') \<Longrightarrow> ok_step st st'"
  by (auto simp: srv_fs_opendir_def split: option.splits if_splits prod.splits
      dest!: sys_step ok_step_dir_alloc intro: ok_step_trans)

lemma ok_step_readdir [ok_steps]: "srv_fs_readdir env p st = (r, st') \<Longrightarrow> ok_step st st'"
  by (auto simp: srv_fs_readdir_def Let_def split: option.splits if_splits prod.splits intro!: ok_step_dir)

lemma ok_step_closedir [ok_steps]: "srv_fs_closedir env p st = (r, st') \<Longrightarrow> ok_step st st'"
  by (auto simp: srv_fs_closedir_def Let_def ok_step_dir_free split: option.splits if_splits)

lemma ok_step_find_session [ok_steps]: "find_session env left n st = (r, st') \<Longrightarrow> ok_step st st'"
  by (induction env left n st rule: find_session.induct)
    (auto split: prod.splits if_splits dest!: sys_step intro: ok_step_trans)

lemma ok_step_session_open [ok_steps]: "srv_session_open env st = (r, st') \<Longrightarrow> ok_step st st'"
  by (auto simp: srv_session_open_def Let_def split: option.splits if_splits prod.splits
      dest!: sys_step ok_step_find_session ok_step_before) (meson ok_step_trans)+

lemma ok_step_index_file: "ok_step st (index_file env sess fname st)"
  by (auto simp: index_file_def split: prod.splits dest!: sys_step intro!: ok_step_sys_then)

lemma ok_step_index_session: "ok_step st (index_session env sess st)"
  using ok_step_trans[OF sys_step ok_step_fold[OF ok_step_index_file]]
  by (auto simp: index_session_def split: prod.splits dest: sys_step)

lemma ok_step_session_close [ok_steps]: "srv_session_close env st = (r, st') \<Longrightarrow> ok_step st st'"
proof -
  have 1: "ok_step s (fold (index_session env) xs s)" for s xs by (rule ok_step_fold) (rule ok_step_index_session)
  assume "srv_session_close env st = (r, st')"
  then show ?thesis
    by (auto simp: srv_session_close_def Let_def split: if_splits prod.splits dest!: sys_step ok_step_before
        intro!: ok_step_sys_then) (meson 1 ok_step_trans)+
qed

lemma ok_step_fs_request: "fs_request_reply env op p st = Ret (r, st') \<Longrightarrow> ok_step st st'"
  by (cases op) (auto dest: ok_steps)

lemma ok_step_handle_fs: "handle_fs_rpc env w p st = Ret (r, st') \<Longrightarrow> ok_step st st'"
  by (auto simp: handle_fs_rpc_def split: option.splits dest: ok_step_fs_request)

section \<open>Messages\<close>

lemma ok_step_socket: "socket_request_reply env op p st = Ret (r, st') \<Longrightarrow> ok_step st st'"
  by (cases op)
    (auto simp: sock_socket_def sock_address_def sock_listen_def sock_accept_def sock_setsockopt_def sock_shutdown_def
      sock_send_def sock_recv_def sock_name_def sock_close_def Let_def
      split: if_splits prod.splits elim!: exec_bind_RetE dest: ok_steps sys_step)

lemma ok_step_handle_socket: "handle_socket_rpc env w p st = Ret (r, st') \<Longrightarrow> ok_step st st'"
  by (auto simp: handle_socket_rpc_def split: option.splits dest: ok_step_socket)

text \<open>The transmission.\<close>

definition same_tables :: "'w server \<Rightarrow> 'w server \<Rightarrow> bool" where
  "same_tables st st' \<longleftrightarrow> srv_calls st' = srv_calls st \<and> server_ok st' = server_ok st"

lemma send_tries_sent:
  "send_tries env msg a left ret n st = (ret', n', st') \<Longrightarrow> ret < 0 \<Longrightarrow>
   srv_sent st' = srv_sent st @ (if 0 \<le> ret' then [msg] else []) \<and> same_tables st st' \<and>
   s_rpc_resp_send_fail_count st' = s_rpc_resp_send_fail_count st"
proof (induction left arbitrary: a ret n st)
  case 0
  then show ?case by (simp add: same_tables_def)
next
  case (Suc left)
  obtain r w where s: "lx_trysend env msg (srv_world st) = (r, w)" by (cases "lx_trysend env msg (srv_world st)")
  show ?case
  proof (cases "0 \<le> r \<or> r \<noteq> RPMSG_ERR_NO_BUFF")
    case True
    then show ?thesis using Suc.prems s by (auto simp: same_tables_def server_ok_def Let_def)
  next
    case False
    then show ?thesis using Suc.prems Suc.IH s by (fastforce simp: same_tables_def server_ok_def Let_def)
  qed
qed

lemma send_response_sent:
  assumes "send_response env h reply st = (ok, st')"
  shows "srv_sent st' = srv_sent st @ (if ok then [response_message h reply] else []) \<and> same_tables st st' \<and>
    s_rpc_resp_send_fail_count st' = s_rpc_resp_send_fail_count st + (if ok then 0 else 1)"
proof -
  obtain ret n st1 where r: "rpmsg_send_response_retry env (response_message h reply) st = (ret, n, st1)"
    by (metis surj_pair)
  have "srv_sent st1 = srv_sent st @ (if 0 \<le> ret then [response_message h reply] else []) \<and> same_tables st st1 \<and>
    s_rpc_resp_send_fail_count st1 = s_rpc_resp_send_fail_count st"
  proof (cases "response_message h reply = [] \<or> \<not> lx_connected env (srv_world st)")
    case True
    then have "ret < 0 \<and> st1 = st" using r unfolding rpmsg_send_response_retry_def by (auto split: if_splits)
    then show ?thesis by (simp add: same_tables_def)
  next
    case False
    then have "send_tries env (response_message h reply) 0 3 (- EAGAIN) 0 st = (ret, n, st1)"
      using r unfolding rpmsg_send_response_retry_def by (simp del: send_tries.simps)
    from send_tries_sent[OF this] show ?thesis by simp
  qed
  moreover have "ok = (0 \<le> ret)"
    "st' = st1\<lparr>s_rpc_resp_no_buf_count := s_rpc_resp_no_buf_count st1 + of_nat n,
      s_rpc_resp_send_fail_count := s_rpc_resp_send_fail_count st1 + (if ret < 0 then 1 else 0)\<rparr>"
    using assms r by (simp_all add: send_response_def)
  ultimately show ?thesis by (simp add: same_tables_def server_ok_def)
qed

lemma response_message_header:
  "bytes_header (response_message h (rv, ev, d)) =
     \<lparr>hdr_magic = PX4_RPC_MAGIC, hdr_category = hdr_category h, hdr_opcode = hdr_opcode h,
      hdr_request_id = hdr_request_id h, hdr_return_value = rv, hdr_errno_value = ev, hdr_payload_size = of_nat (length d)\<rparr>"
  "drop RPC_HEADER_SIZE (response_message h (rv, ev, d)) = d"
  "length (response_message h (rv, ev, d)) = RPC_HEADER_SIZE + length d"
  by (simp_all add: response_message_def response_header_def codec_simps)

text \<open>The reply to a message, an error when the payload is not complete.\<close>

definition message_reply :: "'w linux \<Rightarrow> bytes \<Rightarrow> 'w server \<Rightarrow> (srv_reply \<times> 'w server) exec" where
  "message_reply env m st =
     (let h = bytes_header m; n = unat (hdr_payload_size h); p = take n (drop RPC_HEADER_SIZE m) in
      if length m - RPC_HEADER_SIZE < n then Ret (reply_error EINVAL, st)
      else if hdr_category h = rpc_category_code PX4_RPC_CATEGORY_SOCKET then handle_socket_rpc env (hdr_opcode h) p st
      else if hdr_category h = rpc_category_code PX4_RPC_CATEGORY_FS then handle_fs_rpc env (hdr_opcode h) p st
      else Ret (reply_error ENOTSUP, st))"

definition rpc_message :: "bytes \<Rightarrow> bool" where
  "rpc_message m \<longleftrightarrow> RPC_HEADER_SIZE \<le> length m \<and> hdr_magic (bytes_header m) = PX4_RPC_MAGIC"

lemma ok_step_message_reply: "message_reply env m st = Ret (r, st') \<Longrightarrow> ok_step st st'"
  by (auto simp: message_reply_def Let_def split: if_splits dest: ok_step_handle_socket ok_step_handle_fs)

lemma handle_message_other: "\<not> rpc_message m \<Longrightarrow> handle_message_buffer env m st = Ret (False, st)"
  by (auto simp: handle_message_buffer_def rpc_message_def Let_def)

lemma handle_message_replies:
  assumes "rpc_message m" "handle_message_buffer env m st = Ret (ok, st')"
  obtains reply st1 ok' where "message_reply env m st = Ret (reply, st1)"
    "send_response env (bytes_header m) reply st1 = (ok', st')"
proof (cases "length m - RPC_HEADER_SIZE < unat (hdr_payload_size (bytes_header m))")
  case True
  then have "message_reply env m st = Ret (reply_error EINVAL, st)"
    "send_response env (bytes_header m) (reply_error EINVAL) st =
       (fst (send_response env (bytes_header m) (reply_error EINVAL) st), st')"
    using assms by (simp_all add: message_reply_def handle_message_buffer_def rpc_message_def Let_def prod_eq_iff)
  then show ?thesis by (rule that)
next
  case False
  then have "exec_bind (message_reply env m st) (\<lambda>(reply, st1). Ret (send_response env (bytes_header m) reply st1)) = Ret (ok, st')"
    using assms by (simp add: handle_message_buffer_def rpc_message_def message_reply_def Let_def)
  then show ?thesis by (auto elim!: exec_bind_RetE intro: that)
qed

text \<open>Linux with calls that all succeed with nothing, for concrete runs.\<close>

definition quiet_result :: sys_result where
  "quiet_result = \<lparr>sr_ret = 0, sr_errno = 0, sr_data = [], sr_len = 0, sr_stat = (0, 0, 0), sr_entries = []\<rparr>"

definition quiet_linux :: "unit linux" where
  "quiet_linux = \<lparr>lx_call = (\<lambda>_ w. (quiet_result, w)), lx_connected = (\<lambda>_. True), lx_trysend = (\<lambda>_ w. (0, w)),
     lx_usleep = (\<lambda>_ w. w), lx_stod = (\<lambda>_. None)\<rparr>"

text \<open>C3: Every request is answered exactly once: the reply of its handler is sent, or nothing
  when the transmission fails three times, and then the failure is counted.  The response
  carries the category, the opcode and the id of the request, and its length field is right;
  no call to Linux is made after the handler.  Anything else than a request has no effect.\<close>

theorem request_answered:
  assumes "handle_message_buffer env m st = Ret (ok, st')"
  shows "if rpc_message m then
    (\<exists>rv ev d st1. message_reply env m st = Ret ((rv, ev, d), st1) \<and> srv_calls st' = srv_calls st1 \<and>
      (let r = response_message (bytes_header m) (rv, ev, d) in
       (srv_sent st' = srv_sent st @ [r] \<or>
        srv_sent st' = srv_sent st \<and> s_rpc_resp_send_fail_count st' = s_rpc_resp_send_fail_count st + 1) \<and>
       hdr_category (bytes_header r) = hdr_category (bytes_header m) \<and>
       hdr_opcode (bytes_header r) = hdr_opcode (bytes_header m) \<and>
       hdr_request_id (bytes_header r) = hdr_request_id (bytes_header m) \<and>
       hdr_payload_size (bytes_header r) = of_nat (length d) \<and> drop RPC_HEADER_SIZE r = d))
    else \<not> ok \<and> st' = st"
proof (cases "rpc_message m")
  case False
  then show ?thesis using assms by (simp add: handle_message_other)
next
  case True
  from True assms obtain reply st1 ok' where r: "message_reply env m st = Ret (reply, st1)"
    and s: "send_response env (bytes_header m) reply st1 = (ok', st')" by (rule handle_message_replies)
  obtain rv ev d where reply: "reply = (rv, ev, d)" by (cases reply)
  have "srv_sent st1 = srv_sent st \<and> s_rpc_resp_send_fail_count st1 = s_rpc_resp_send_fail_count st"
    using ok_step_message_reply[OF r] by (simp add: ok_step_def)
  then have "srv_sent st' = srv_sent st @ [response_message (bytes_header m) (rv, ev, d)] \<or>
      srv_sent st' = srv_sent st \<and> s_rpc_resp_send_fail_count st' = s_rpc_resp_send_fail_count st + 1"
    "srv_calls st' = srv_calls st1"
    using send_response_sent[OF s] unfolding reply same_tables_def by (cases ok'; simp)+
  then show ?thesis using True r unfolding reply by (auto simp: Let_def response_message_header)
qed

definition sample_request :: "px4_rpc_fs_op \<Rightarrow> bytes \<Rightarrow> bytes" where
  "sample_request op p = header_bytes
     \<lparr>hdr_magic = PX4_RPC_MAGIC, hdr_category = rpc_category_code PX4_RPC_CATEGORY_FS, hdr_opcode = rpc_fs_code op,
      hdr_request_id = 7, hdr_return_value = 0, hdr_errno_value = 0, hdr_payload_size = of_nat (length p)\<rparr> @ p"

text \<open>A file request as a client sends it.\<close>

definition fs_header :: "px4_rpc_header \<Rightarrow> px4_rpc_fs_op \<Rightarrow> bytes \<Rightarrow> bool" where
  "fs_header h op p \<longleftrightarrow> hdr_magic h = PX4_RPC_MAGIC \<and> hdr_category h = rpc_category_code PX4_RPC_CATEGORY_FS \<and>
     hdr_opcode h = rpc_fs_code op \<and> hdr_payload_size h = of_nat (length p) \<and> length p < 4294967296"

lemma fs_op_of_code: "fs_op_of (rpc_fs_code op) = Some op"
  by (cases op) (simp_all add: fs_op_of_def)

lemma message_reply_fs:
  assumes "fs_header h op p"
  shows "message_reply env (header_bytes h @ p) st = fs_request_reply env op p st"
  using assms by (simp add: message_reply_def fs_header_def codec_simps Let_def unat_of_nat32 handle_fs_rpc_def fs_op_of_code)

lemma handle_fs_request:
  assumes "fs_header h op p"
  shows "handle_message_buffer env (header_bytes h @ p) st =
    exec_bind (fs_request_reply env op p st) (\<lambda>(reply, st1). Ret (send_response env h reply st1))"
  using assms
  by (simp add: handle_message_buffer_def fs_header_def codec_simps Let_def unat_of_nat32 handle_fs_rpc_def fs_op_of_code)

lemma sample_header:
  assumes "length p < 4294967296"
  obtains h where "fs_header h op p" "sample_request op p = header_bytes h @ p"
proof -
  have "\<exists>h. sample_request op p = header_bytes h @ p \<and> fs_header h op p"
    unfolding sample_request_def by (intro exI conjI, rule refl) (simp add: fs_header_def assms)
  then show ?thesis using that by blast
qed

lemma send_response_quiet:
  "send_response quiet_linux h reply st = (True, st\<lparr>srv_sent := srv_sent st @ [response_message h reply]\<rparr>)"
proof -
  have "response_message h reply \<noteq> []"
    by (metis add_eq_0_iff_both_eq_0 length_0_conv response_message_header(3) surj_pair zero_neq_numeral)
  then show ?thesis
    by (simp add: send_response_def rpmsg_send_response_retry_def quiet_linux_def numeral_eq_Suc Let_def)
qed

lemma handle_session_reset_quiet:
  "\<exists>st. handle_message_buffer quiet_linux (sample_request PX4_RPC_FS_SESSION_RESET []) (server_boot ()) = Ret (True, st) \<and>
    s_rpc_resp_send_fail_count st = 0"
proof -
  obtain h where "fs_header h PX4_RPC_FS_SESSION_RESET []" "sample_request PX4_RPC_FS_SESSION_RESET [] = header_bytes h @ []"
    by (rule sample_header[of "[]"]) simp
  then show ?thesis by (simp add: handle_fs_request[where p = "[]", simplified] srv_fs_session_reset_def send_response_quiet server_boot_def)
qed

lemma request_answered_witness:
  "\<exists>st. handle_message_buffer quiet_linux (sample_request PX4_RPC_FS_SESSION_RESET []) (server_boot ()) = Ret (True, st) \<and>
    length (srv_sent st) = 1"
proof -
  have m: "rpc_message (sample_request PX4_RPC_FS_SESSION_RESET [])"
    by (simp add: rpc_message_def sample_request_def codec_simps)
  obtain st where st: "handle_message_buffer quiet_linux (sample_request PX4_RPC_FS_SESSION_RESET []) (server_boot ()) =
      Ret (True, st)" "s_rpc_resp_send_fail_count st = 0" using handle_session_reset_quiet by blast
  from request_answered[OF st(1)] m have "length (srv_sent st) = 1"
    by (auto simp: Let_def st(2) server_boot_def)
  then show ?thesis using st(1) by blast
qed

section \<open>Sequences of messages\<close>

fun server_run :: "'w linux \<Rightarrow> bytes list \<Rightarrow> 'w server \<Rightarrow> 'w server exec" where
  "server_run env [] st = Ret st"
| "server_run env (m # ms) st = exec_bind (handle_message_buffer env m st) (\<lambda>(ok, st'). server_run env ms st')"

lemma handle_message_ok:
  assumes "handle_message_buffer env m st = Ret (ok, st')" "server_ok st"
  shows "server_ok st'"
proof (cases "rpc_message m")
  case False
  then show ?thesis using assms by (simp add: handle_message_other)
next
  case True
  from True assms(1) obtain reply st1 ok' where "message_reply env m st = Ret (reply, st1)"
    and s: "send_response env (bytes_header m) reply st1 = (ok', st')" by (rule handle_message_replies)
  then have "server_ok st1" using ok_step_message_reply assms(2) unfolding ok_step_def by blast
  then show ?thesis using send_response_sent[OF s] by (simp add: same_tables_def)
qed



end
