(* ===== verification/Srv_Replies.thy ===== *)
theory Srv_Replies
  imports Srv_Props "HOL-Library.Multiset"
begin

text \<open>
  What the CA55 server answers: the size of the responses, the translation of paths and open
  flags, the reading of directories, and the names of log sessions.
\<close>

section \<open>The size of a response\<close>

abbreviation (input) RPMSG_PAYLOAD :: nat where "RPMSG_PAYLOAD \<equiv> 496"

lemma length_dec_digits:
  "n < 10 \<Longrightarrow> length (dec_digits n) = 1"
  "10 \<le> n \<Longrightarrow> length (dec_digits n) = Suc (length (dec_digits (n div 10)))"
  by (simp_all add: dec_digits.simps[of n])

lemma length_dec_pad: "n < 1000 \<Longrightarrow> w \<le> 3 \<Longrightarrow> length (dec_pad w n) \<le> 3"
  by (cases "n < 10"; cases "n < 100") (simp_all add: dec_pad_def Let_def length_dec_digits)

lemma length_dec_pad2: "n < 100 \<Longrightarrow> length (dec_pad 2 n) = 2"
  by (cases "n < 10") (simp_all add: dec_pad_def Let_def length_dec_digits)

lemma length_log_file_name: "length (log_file_name now) \<le> 12"
proof -
  have "t div 3600 mod 24 < 100" "t div 60 mod 60 < 100" "t mod 60 < 100" for t :: nat
    by (rule less_trans[OF mod_less_divisor]; simp)+
  then show ?thesis by (simp add: log_file_name_def Let_def length_dec_pad2 cstr_def)
qed

lemma find_session_number: "find_session env left n st = (Some k, st') \<Longrightarrow> n \<le> k \<and> k < n + left"
  by (induction env left n st arbitrary: st' rule: find_session.induct) (fastforce split: prod.splits if_splits)+

definition small :: "srv_reply \<Rightarrow> bool" where "small r \<longleftrightarrow> length (snd (snd r)) \<le> kMaxRpcReadPayload"

lemma small_call: "reply_call env c st = (r, st') \<Longrightarrow> small r"
  by (auto simp: reply_call_def reply_ret_def small_def split: prod.splits)

lemma small_error: "small (reply_error e)" "small (a, b, [])" "small (reply_ret x)"
  by (simp_all add: small_def reply_error_def reply_ret_def)

lemma small_session_open: "srv_session_open env st = (r, st') \<Longrightarrow> small r"
proof -
  have "length (kVirtLogRoot @ sess_name k @ cstr ''/'' @ log_file_name now @ [0]) \<le> 472" if "k < 1000" for k now
    using length_log_file_name[of now] length_dec_pad[OF that, of 3]
    by (simp add: kVirtLogRoot_def sess_name_def cstr_def)
  then show "srv_session_open env st = (r, st') \<Longrightarrow> small r"
    unfolding srv_session_open_def Let_def
    by (auto simp: small_error small_def[of "(_, _, _ # _)"] small_def[of "(_, _, _ @ _)"]
        split: prod.splits option.splits if_splits dest!: find_session_number)
qed

lemma small_reply:
  assumes "fs_request_reply env op p st = Ret (r, st')" "op \<noteq> PX4_RPC_FS_IOCTL"
  shows "small r"
proof (cases op)
  case PX4_RPC_FS_SESSION_OPEN
  then show ?thesis using assms small_session_open by simp
next
  case PX4_RPC_FS_OPEN
  then show ?thesis using assms
    by (auto simp: srv_fs_open_def open_staging_def Let_def small_error split: option.splits if_splits prod.splits dest: small_call)
next
  case PX4_RPC_FS_READ
  then show ?thesis using assms
    by (auto simp: srv_fs_read_def Let_def small_error small_def[of "(_, _, take _ _)"]
        split: option.splits if_splits prod.splits)
next
  case PX4_RPC_FS_STAT
  then show ?thesis using assms
    by (auto simp: srv_fs_stat_def Let_def small_error small_def[of "(_, _, _ @ _)"] codec_simps split: if_splits prod.splits)
next
  case PX4_RPC_FS_READDIR
  then show ?thesis using assms
    by (auto simp: srv_fs_readdir_def Let_def small_error small_def[of "(_, _, _ @ _)"] readdir_response_def
        split: if_splits option.splits)
next
  case PX4_RPC_FS_OPENDIR
  then show ?thesis using assms
    by (auto simp: srv_fs_opendir_def small_error split: if_splits option.splits prod.splits)
next
  case PX4_RPC_FS_SESSION_CLOSE
  then show ?thesis using assms
    by (auto simp: srv_session_close_def Let_def small_error split: if_splits prod.splits)
next
  case PX4_RPC_FS_CLOSE
  then show ?thesis using assms
    by (auto simp: srv_fs_close_def Let_def small_error split: if_splits prod.splits)
qed (use assms in \<open>auto simp: srv_fs_write_def srv_fs_lseek_def srv_fs_fsync_def srv_fs_unlink_def srv_fs_access_def
      srv_fs_mkdir_def srv_fs_rmdir_def srv_fs_truncate_def srv_fs_rename_def srv_fs_closedir_def srv_clock_settime_def
      srv_fs_session_reset_def srv_system_reboot_def Let_def small_error
      split: option.splits if_splits prod.splits dest: small_call\<close>)

text \<open>C21: The response to every file request but \<open>ioctl\<close> fits the 496 bytes that an RPMsg
  buffer carries, whatever the request says and whatever Linux returns.\<close>

theorem response_fits:
  assumes "fs_request_reply env op p st = Ret (reply, st')" "op \<noteq> PX4_RPC_FS_IOCTL"
  shows "length (response_message h reply) \<le> RPMSG_PAYLOAD"
  using small_reply[OF assms] response_message_header(3)[of h "fst reply" "fst (snd reply)" "snd (snd reply)"]
  by (simp add: small_def)

lemma response_fits_witness:
  "length (response_message (bytes_header []) (0, 0, [])) \<le> RPMSG_PAYLOAD"
  by (rule response_fits[where env = quiet_linux and op = PX4_RPC_CA55_CLOCK_SETTIME and p = "replicate 8 0" and st = "server_boot ()"])
    (simp_all add: srv_clock_settime_def sys_def quiet_linux_def quiet_result_def reply_ret_def err_of_def)

section \<open>Open flags\<close>

datatype access_mode = Read_only | Write_only | Read_write

text \<open>The flags of an open under the three conventions: Linux, FreeRTOS+POSIX (fcntl.h of the
  R8) and newlib.\<close>

definition flag_set :: "32 word \<Rightarrow> (32 word \<times> bool) list \<Rightarrow> 32 word" where
  "flag_set a fs = fold (\<lambda>(b, on) f. if on then f OR b else f) fs a"

definition linux_flags :: "access_mode \<Rightarrow> bool \<Rightarrow> bool \<Rightarrow> bool \<Rightarrow> bool \<Rightarrow> 32 word" where
  "linux_flags a creat trunc app excl =
     flag_set (case a of Read_only \<Rightarrow> L_O_RDONLY | Write_only \<Rightarrow> L_O_WRONLY | Read_write \<Rightarrow> L_O_RDWR)
       [(L_O_CREAT, creat), (L_O_TRUNC, trunc), (L_O_APPEND, app), (L_O_EXCL, excl)]"

definition rtos_flags :: "access_mode \<Rightarrow> bool \<Rightarrow> bool \<Rightarrow> bool \<Rightarrow> bool \<Rightarrow> 32 word" where
  "rtos_flags a creat trunc app excl =
     flag_set (case a of Read_only \<Rightarrow> 0x2000 | Write_only \<Rightarrow> 0x8000 | Read_write \<Rightarrow> 0xA000)
       [(0x0002, creat), (0x0040, trunc), (0x0100, app), (0x0008, excl)]"

definition newlib_flags :: "access_mode \<Rightarrow> bool \<Rightarrow> bool \<Rightarrow> bool \<Rightarrow> bool \<Rightarrow> 32 word" where
  "newlib_flags a creat trunc app excl =
     flag_set (case a of Read_only \<Rightarrow> 0 | Write_only \<Rightarrow> 1 | Read_write \<Rightarrow> 2)
       [(0x0200, creat), (0x0400, trunc), (0x0008, app), (0x0800, excl)]"


section \<open>Reading directories\<close>

lemma bytes_le_total: "bytes_le a b \<or> bytes_le b a"
  by (induction a b rule: bytes_le.induct) auto

lemma bytes_le_trans: "bytes_le a b \<Longrightarrow> bytes_le b c \<Longrightarrow> bytes_le a c"
proof (induction a b arbitrary: c rule: bytes_le.induct)
  case (3 x xs y ys)
  then show ?case by (cases c) auto
qed auto

definition sorted_by :: "('a \<Rightarrow> bytes) \<Rightarrow> 'a list \<Rightarrow> bool" where
  "sorted_by f = sorted_wrt (\<lambda>a b. bytes_le (f a) (f b))"

lemma insert_by_name_mset: "mset (insert_by_name f x ys) = add_mset x (mset ys)"
  by (induction ys) auto

lemma insert_by_name_sorted: "sorted_by f ys \<Longrightarrow> sorted_by f (insert_by_name f x ys)"
proof (induction ys)
  case (Cons y ys)
  have "set (insert_by_name f x ys) = insert x (set ys)"
    by (metis insert_by_name_mset set_mset_add_mset_insert set_mset_mset)
  then show ?case using Cons bytes_le_total[of "f x" "f y"] by (auto simp: sorted_by_def intro: bytes_le_trans)
qed (simp add: sorted_by_def)

lemma sorted_by_Nil [simp]: "sorted_by f []"
  by (simp add: sorted_by_def)

lemma sort_by_name: "mset (sort_by_name f xs) = mset xs" "sorted_by f (sort_by_name f xs)"
  by (induction xs) (simp_all add: sort_by_name_def insert_by_name_mset insert_by_name_sorted)

text \<open>Several requests for the next entry of the same handle.\<close>

fun readdirs :: "'w linux \<Rightarrow> nat \<Rightarrow> bytes \<Rightarrow> 'w server \<Rightarrow> srv_reply list \<times> 'w server" where
  "readdirs env 0 p st = ([], st)"
| "readdirs env (Suc n) p st =
     (case srv_fs_readdir env p st of (r, st1) \<Rightarrow> case readdirs env n p st1 of (rs, st2) \<Rightarrow> (r # rs, st2))"

definition entry_reply :: "bytes \<times> byte \<Rightarrow> srv_reply" where
  "entry_reply e = (0, 0, readdir_response (fst e) (snd e))"

lemma readdirs_all:
  assumes h: "i < 16" "i < length (s_dir_handles st)" "s_dir_handles st ! i = Some (es, k)" "k \<le> length es"
  shows "readdirs env (length es - k + 1) (le32 (of_nat i)) st =
    (map entry_reply (drop k es) @ [(1, 0, [])], st\<lparr>s_dir_handles := (s_dir_handles st)[i := Some (es, length es)]\<rparr>)"
  using h
proof (induction "length es - k" arbitrary: k st)
  case 0
  then have "k = length es" "(s_dir_handles st)[i := Some (es, k)] = s_dir_handles st" by (simp_all add: list_update_same_conv)
  then show ?case using 0
    by (simp add: srv_fs_readdir_def dir_handle_get_def codec_simps sint_of_nat32 Let_def)
next
  case (Suc n)
  let ?st1 = "st\<lparr>s_dir_handles := (s_dir_handles st)[i := Some (es, Suc k)]\<rparr>"
  have step: "srv_fs_readdir env (le32 (of_nat i)) st = (entry_reply (es ! k), ?st1)"
    using Suc by (simp add: srv_fs_readdir_def dir_handle_get_def codec_simps sint_of_nat32 Let_def entry_reply_def)
  have "readdirs env (length es - Suc k + 1) (le32 (of_nat i)) ?st1 =
     (map entry_reply (drop (Suc k) es) @ [(1, 0, [])], ?st1\<lparr>s_dir_handles := (s_dir_handles ?st1)[i := Some (es, length es)]\<rparr>)"
    using Suc by (intro Suc.hyps(1)) simp_all
  moreover have "length es - k = Suc (length es - Suc k)" "drop k es = es ! k # drop (Suc k) es"
    using Suc.hyps(2) by (simp_all add: Cons_nth_drop_Suc)
  ultimately show ?case by (simp add: step)
qed

lemma readdirs_stops:
  assumes "i < 16" "length (s_dir_handles st) = 16" "s_dir_handles st ! i = Some (es, 0)"
  shows "readdirs env (length es + 1) (le32 (of_nat i)) st =
    (map entry_reply es @ [(1, 0, [])], st\<lparr>s_dir_handles := (s_dir_handles st)[i := Some (es, length es)]\<rparr>)"
  using readdirs_all[of i st es 0 env] assms by simp

text \<open>C27: A directory is read completely: when a handle is free, opening gives the least free
  one, reading once for every entry gives all entries of the directory in the order of their
  names, and the next request reports the end; closing frees exactly that handle.\<close>

theorem directory_listing:
  assumes p: "srv_path_only payload = Some path"
    and r: "lx_call env (Sys_readdir (phys_path path)) (srv_world st) = (r, w)" "0 \<le> sr_ret r"
    and free: "length (s_dir_handles st) = kMaxDirHandles" "None \<in> set (s_dir_handles st)"
  shows "\<exists>h st1 es st2. srv_fs_opendir env payload st = ((of_nat h, 0, []), st1) \<and>
    find_index (\<lambda>e. e = None) (s_dir_handles st) = Some h \<and>
    mset es = mset (sr_entries r) \<and> sorted_by fst es \<and>
    readdirs env (length es + 1) (le32 (of_nat h)) st1 = (map entry_reply es @ [(1, 0, [])], st2) \<and>
    fst (srv_fs_closedir env (le32 (of_nat h)) st2) = (0, 0, []) \<and>
    s_dir_handles (snd (srv_fs_closedir env (le32 (of_nat h)) st2)) = s_dir_handles st"
proof -
  let ?es = "sort_by_name fst (sr_entries r)"
  obtain h where h: "find_index (\<lambda>e. e = None) (s_dir_handles st) = Some h"
    using free(2) by (cases "find_index (\<lambda>e. e = None) (s_dir_handles st)") (auto simp: find_index_None_iff)
  note hd = find_index_SomeD[OF h]
  define st0 where "st0 = st\<lparr>srv_world := w, srv_calls := srv_calls st @ [Sys_readdir (phys_path path)]\<rparr>"
  define st1 where "st1 = st0\<lparr>s_dir_handles := (s_dir_handles st)[h := Some (?es, 0)]\<rparr>"
  have open_it: "srv_fs_opendir env payload st = ((of_nat h, 0, []), st1)"
    using p r h by (simp add: srv_fs_opendir_def sys_def dir_handle_alloc_def st1_def st0_def)
  have reads: "readdirs env (length ?es + 1) (le32 (of_nat h)) st1 =
     (map entry_reply ?es @ [(1, 0, [])], st1\<lparr>s_dir_handles := (s_dir_handles st1)[h := Some (?es, length ?es)]\<rparr>)"
    (is "_ = (_, ?st2)")
    using hd free(1) by (intro readdirs_stops) (simp_all add: st1_def)
  have "srv_fs_closedir env (le32 (of_nat h)) ?st2 = ((0, 0, []), ?st2\<lparr>s_dir_handles := s_dir_handles st\<rparr>)"
    using hd free(1)
    by (simp add: srv_fs_closedir_def dir_handle_get_def dir_handle_free_def codec_simps sint_of_nat32 st1_def
        list_update_same_conv)
  then show ?thesis using open_it h reads sort_by_name[of fst "sr_entries r"]
    by (intro exI[of _ h] exI[of _ st1] exI[of _ ?es] exI[of _ ?st2]) simp
qed

definition one_entry_linux :: "unit linux" where
  "one_entry_linux = quiet_linux\<lparr>lx_call := (\<lambda>_ w. (quiet_result\<lparr>sr_entries := [([0x62], 8), ([0x61], 8)]\<rparr>, w))\<rparr>"

lemma directory_listing_witness:
  "\<exists>h st1. srv_fs_opendir one_entry_linux [2, 0, 0, 0, 0x2F, 0] (server_boot ()) = ((of_nat h, 0, []), st1) \<and>
     find_index (\<lambda>e. e = None) (s_dir_handles (server_boot ())) = Some h"
proof -
  have "srv_path_only [2, 0, 0, 0, 0x2F, 0] = Some [0x2F]" by code_simp
  moreover have "lx_call one_entry_linux (Sys_readdir (phys_path [0x2F])) (srv_world (server_boot ())) =
      (quiet_result\<lparr>sr_entries := [([0x62], 8), ([0x61], 8)]\<rparr>, ())" by (simp add: one_entry_linux_def)
  moreover have "0 \<le> sr_ret (quiet_result\<lparr>sr_entries := [([0x62], 8), ([0x61], 8)]\<rparr>)" by (simp add: quiet_result_def)
  ultimately show ?thesis using directory_listing[of "[2, 0, 0, 0, 0x2F, 0]" "[0x2F]" one_entry_linux "server_boot ()"]
    by (fastforce simp: server_boot_def)
qed

text \<open>Directory handles are not part of a session: a new session of the R8 closes the
  parameter descriptors and leaves all sixteen handles as they were.  When the old session
  left them all open, every later opening fails with \<open>EMFILE\<close>.\<close>

theorem dir_handles_survive_reset:
  "s_dir_handles (snd (srv_fs_session_reset env st)) = s_dir_handles st \<and>
   g_param_fd_write_buffer (snd (srv_fs_session_reset env st)) = [] \<and>
   (case dir_handle_alloc es (snd (srv_fs_session_reset env st)) of (h, st') \<Rightarrow>
      if None \<in> set (s_dir_handles st) then 0 \<le> h else h = - 1 \<and> s_dir_handles st' = s_dir_handles st)"
proof -
  let ?f = "\<lambda>fd s. forget_param_fd fd (snd (sys env (Sys_close fd) s))"
  have dirs: "s_dir_handles (fold ?f fds s) = s_dir_handles s" for fds s
    by (induction fds arbitrary: s) (simp_all add: forget_param_fd_def)
  have gone: "set (map fst (g_param_fd_write_buffer (fold ?f fds s))) = set (map fst (g_param_fd_write_buffer s)) - set fds" for fds s
    by (induction fds arbitrary: s) (auto simp: forget_param_fd_def delete_keys simp del: set_map)
  have "g_param_fd_write_buffer (snd (srv_fs_session_reset env st)) = []"
    using gone[of "sort (map fst (g_param_fd_write_buffer st))" st] by (simp add: srv_fs_session_reset_def)
  moreover have none: "None \<in> set (s_dir_handles st) \<longleftrightarrow> find_index (\<lambda>e. e = None) (s_dir_handles st) \<noteq> None"
    unfolding find_index_None_iff by metis
  ultimately show ?thesis
    by (cases "find_index (\<lambda>e. e = None) (s_dir_handles st)") (simp_all add: none dirs srv_fs_session_reset_def dir_handle_alloc_def)
qed

section \<open>Log sessions\<close>

text \<open>Whether a path exists does not change while a session is opened.\<close>

definition exists_fixed :: "'w linux \<Rightarrow> (bytes \<Rightarrow> bool) \<Rightarrow> bool" where
  "exists_fixed env present \<longleftrightarrow> (\<forall>w p. (sr_ret (fst (lx_call env (Sys_access p 0) w)) = 0) = present p)"

lemma find_session_least:
  assumes "exists_fixed env present" "find_session env left n st = (Some k, st')"
  shows "\<not> present (translate_rpc_path kVirtLogRoot @ sess_name k) \<and> (\<forall>j\<in>{n..<k}. present (translate_rpc_path kVirtLogRoot @ sess_name j))"
  using assms(2)
proof (induction left arbitrary: n st)
  case (Suc left)
  obtain r st1 where r: "sys env (Sys_access (translate_rpc_path kVirtLogRoot @ sess_name n) 0) st = (r, st1)" by (metis surj_pair)
  have p: "(sr_ret r = 0) = present (translate_rpc_path kVirtLogRoot @ sess_name n)"
    using r assms(1) by (auto simp: exists_fixed_def sys_def split: prod.splits) (metis fst_conv)+
  show ?case
  proof (cases "sr_ret r = 0")
    case True
    then have "find_session env left (Suc n) st1 = (Some k, st')" using Suc.prems r by simp
    from Suc.IH[OF this] show ?thesis using p True by (auto simp: Suc_le_eq le_less)
  next
    case False
    then show ?thesis using Suc.prems r p by simp
  qed
qed simp

text \<open>Opening a log session makes the directory of the least number from 1 to 999 that has
  none, and answers the path of a file in it; with its zero the path fits the 256 bytes of the
  client's buffer.\<close>

theorem session_path:
  assumes fixed: "exists_fixed env present"
    and open_ok: "srv_session_open env st = ((0, 0, path), st')"
  shows "\<exists>n file. path = kVirtLogRoot @ sess_name n @ cstr ''/'' @ file @ [0] \<and> 1 \<le> n \<and> n \<le> 999 \<and>
    length path \<le> 256 \<and> \<not> present (translate_rpc_path kVirtLogRoot @ sess_name n) \<and>
    (\<forall>j\<in>{1..<n}. present (translate_rpc_path kVirtLogRoot @ sess_name j)) \<and>
    Sys_mkdir (translate_rpc_path kVirtLogRoot @ sess_name n) MODE_0755 \<in> set (srv_calls st')"
proof -
  define st0 where "st0 = snd (sys env (Sys_mkdir (translate_rpc_path kVirtLogRoot) MODE_0755) st)"
  obtain k st1 where f: "find_session env 999 1 st0 = (k, st1)" by (metis surj_pair)
  obtain n where k: "k = Some n"
    using open_ok f by (cases k) (simp_all add: srv_session_open_def Let_def st0_def[symmetric] reply_error_def)
  obtain r st2 where m: "sys env (Sys_mkdir (translate_rpc_path kVirtLogRoot @ sess_name n) MODE_0755) st1 = (r, st2)"
    by (metis surj_pair)
  obtain t st3 where t: "sys env Sys_time st2 = (t, st3)" by (metis surj_pair)
  have "path = kVirtLogRoot @ sess_name n @ cstr ''/'' @ log_file_name (sr_ret t) @ [0] \<and> st' = st3"
    using open_ok f m t unfolding srv_session_open_def Let_def st0_def[symmetric] k reply_error_def
    by (simp split: if_splits)
  moreover have n: "1 \<le> n \<and> n \<le> 999" using find_session_number[OF f[unfolded k]] by simp
  moreover have "length (kVirtLogRoot @ sess_name n @ cstr ''/'' @ log_file_name (sr_ret t) @ [0]) \<le> 256"
    using length_log_file_name[of "sr_ret t"] length_dec_pad[of n 3] n by (simp add: kVirtLogRoot_def sess_name_def cstr_def)
  moreover have "Sys_mkdir (translate_rpc_path kVirtLogRoot @ sess_name n) MODE_0755 \<in> set (srv_calls st3)"
    using sys_tables(5)[OF m] sys_tables(5)[OF t] by simp
  ultimately show ?thesis using find_session_least[OF fixed f[unfolded k]] by blast
qed

definition empty_linux :: "unit linux" where
  "empty_linux = quiet_linux\<lparr>lx_call :=
     (\<lambda>c w. (case c of Sys_access p m \<Rightarrow> quiet_result\<lparr>sr_ret := - 1, sr_errno := ENOENT\<rparr> | _ \<Rightarrow> quiet_result, w))\<rparr>"

lemma session_path_witness:
  "\<exists>path st' n. srv_session_open empty_linux (server_boot ()) = ((0, 0, path), st') \<and> 1 \<le> n \<and> n \<le> 999 \<and> length path \<le> 256 \<and>
     Sys_mkdir (translate_rpc_path kVirtLogRoot @ sess_name n) MODE_0755 \<in> set (srv_calls st')"
proof -
  have fixed: "exists_fixed empty_linux (\<lambda>_. False)" by (simp add: exists_fixed_def empty_linux_def quiet_result_def)
  have "find_session empty_linux 999 1 st =
      (Some 1, snd (sys empty_linux (Sys_access (translate_rpc_path kVirtLogRoot @ sess_name 1) 0) st))" for st
    using find_session.simps(2)[of empty_linux 998 1 st] by (simp add: sys_def empty_linux_def quiet_result_def)
  then obtain path st' where o: "srv_session_open empty_linux (server_boot ()) = ((0, 0, path), st')"
    by (simp add: srv_session_open_def Let_def) (simp add: sys_def empty_linux_def quiet_result_def)
  from session_path[OF fixed o] o show ?thesis by blast
qed

section \<open>Addresses of sockets\<close>

text \<open>The length that \<open>accept\<close> reports is not limited to the length of the buffer: when the
  peer's address is longer than the caller asked for, as the interface of \<open>accept\<close> allows, the
  server reads past the end of its buffer.\<close>

theorem accept_reads_past_buffer:
  assumes p: "8 \<le> length p" "0 < field 1 p"
    and r: "lx_call env (Sys_accept (field 0 p) (nat (field 1 p))) (srv_world st) = (r, w)" "0 \<le> sr_ret r"
    and longer: "nat (field 1 p) < sr_len r" "sr_len r < 2147483648"
  shows "handle_socket_rpc env (rpc_socket_code PX4_RPC_ACCEPT) p st = Faults"
proof -
  have "sint (of_nat (sr_len r) :: 32 word) = int (sr_len r)" using longer by (intro sint_of_nat32)
  then have "sock_accept env p st = Faults"
    using p r longer by (simp add: sock_accept_def sys_def address_reply_def Let_def)
  then show ?thesis by (simp add: handle_socket_rpc_def socket_op_of_def)
qed

lemma accept_reads_past_buffer_witness:
  "handle_socket_rpc (quiet_linux\<lparr>lx_call := (\<lambda>_ w. (quiet_result\<lparr>sr_len := 28\<rparr>, w))\<rparr>) (rpc_socket_code PX4_RPC_ACCEPT)
     (le32 3 @ le32 16) (server_boot ()) = Faults"
proof -
  have f: "field 1 (le32 3 @ le32 16) = 16" by (simp add: field_def codec_simps)
  show ?thesis
    by (rule accept_reads_past_buffer[where r = "quiet_result\<lparr>sr_len := 28\<rparr>" and w = "()"])
      (simp_all add: f f[simplified] codec_simps quiet_result_def)
qed

end
