(* ===== verification/Srv_Storage.thy ===== *)
theory Srv_Storage
  imports Srv_Props
begin

text \<open>
  How the CA55 server stores the parameters: which calls closing a parameter descriptor
  makes, when a document is written, and what the replacement of a file leaves in the file
  system, whose documented behaviour is stated as a law for every call.
\<close>

section \<open>Calls\<close>

definition new_calls :: "(linux_call \<Rightarrow> bool) \<Rightarrow> 'w server \<Rightarrow> 'w server \<Rightarrow> bool" where
  "new_calls P st st' \<longleftrightarrow> (\<exists>cs. srv_calls st' = srv_calls st @ cs \<and> list_all P cs)"

lemma new_calls_refl [simp]: "new_calls P st st"
  by (simp add: new_calls_def)

lemma new_calls_trans: "new_calls P a b \<Longrightarrow> new_calls P b c \<Longrightarrow> new_calls P a c"
  unfolding new_calls_def by (metis append.assoc list_all_append)

lemma new_calls_sys: "sys env c st = (r, st') \<Longrightarrow> P c \<Longrightarrow> new_calls P st st'"
  unfolding new_calls_def by (rule exI[of _ "[c]"]) (simp add: sys_tables)

lemma new_calls_snd: "P c \<Longrightarrow> new_calls P a st \<Longrightarrow> new_calls P a (snd (sys env c st))"
  by (metis new_calls_sys new_calls_trans surjective_pairing)

lemma new_calls_mono: "new_calls P a b \<Longrightarrow> (\<And>c. P c \<Longrightarrow> Q c) \<Longrightarrow> new_calls Q a b"
  unfolding new_calls_def by (meson list.pred_mono_strong)

text \<open>The calls that replace a file: looking at and making directories above it, and creating,
  writing, syncing, renaming or removing the temporary file or the file itself, always with
  the whole of the data.\<close>

fun overwrite_call :: "bytes \<Rightarrow> bytes \<Rightarrow> linux_call \<Rightarrow> bool" where
  "overwrite_call target data (Sys_stat p) = (take (length p) target = p)"
| "overwrite_call target data (Sys_mkdir p m) = (take (length p) target = p \<and> length p < length target)"
| "overwrite_call target data (Sys_open p f m) =
     ((p = target \<or> p = target @ cstr ''.tmp'') \<and> f = L_O_WRONLY OR L_O_CREAT OR L_O_TRUNC)"
| "overwrite_call target data (Sys_write fd d) = (d = data)"
| "overwrite_call target data (Sys_fsync fd) = True"
| "overwrite_call target data (Sys_close fd) = True"
| "overwrite_call target data (Sys_rename a b) = (a = target @ cstr ''.tmp'' \<and> b = target)"
| "overwrite_call target data (Sys_unlink p) = (p = target @ cstr ''.tmp'')"
| "overwrite_call target data _ = False"

lemma ensure_dirs_calls:
  assumes "ensure_dirs env subs st = (x, st')"
    "\<And>s. s \<in> set subs \<Longrightarrow> take (length s) target = s \<and> length s < length target"
  shows "new_calls (overwrite_call target data) st st'"
  using assms
proof (induction subs arbitrary: st)
  case (Cons sub subs)
  have rest: "new_calls (overwrite_call target data) s st'" if "ensure_dirs env subs s = (x, st')" for s
    using Cons.IH[OF that] Cons.prems(2) by simp
  have sub: "take (length sub) target = sub" "length sub < length target" using Cons.prems(2)[of sub] by simp_all
  obtain r st1 where 1: "sys env (Sys_stat sub) st = (r, st1)" by (metis surj_pair)
  obtain m st2 where 2: "sys env (Sys_mkdir sub MODE_0777) st1 = (m, st2)" by (metis surj_pair)
  have c1: "new_calls (overwrite_call target data) st st1" using new_calls_sys[OF 1] sub by simp
  have "new_calls (overwrite_call target data) st1 st2" using new_calls_sys[OF 2] sub by simp
  then have c2: "new_calls (overwrite_call target data) st st2" using c1 new_calls_trans by blast
  consider "ensure_dirs env subs st = (x, st')" | "st' = st1" | "st' = st2" | "ensure_dirs env subs st1 = (x, st')"
    | "ensure_dirs env subs st2 = (x, st')"
    using Cons.prems(1) by (auto simp: 1 2 split: if_splits)
  then show ?case using rest c1 c2 new_calls_trans by cases blast+
qed simp

lemma dir_prefixes_of:
  assumes "n \<le> length path" "s \<in> set (dir_prefixes (take n path))"
  shows "take (length s) path = s \<and> length s \<le> n"
  using assms by (auto simp: dir_prefixes_def)

lemma ensure_parent_calls:
  assumes "ensure_parent_dirs env target st = (x, st')"
  shows "new_calls (overwrite_call target data) st st'"
proof (cases "last_slash target")
  case None
  then show ?thesis using assms by (simp add: ensure_parent_dirs_def)
next
  case (Some n)
  have "last_slash t = Some n \<Longrightarrow> n < length t" for t
    by (induction t arbitrary: n) (auto split: option.splits if_splits)
  then have "n < length target" using Some .
  then have "new_calls (overwrite_call target data) st st'" if "ensure_dirs env (dir_prefixes (take n target)) st = (x, st')"
    using that dir_prefixes_of[of n target] by (intro ensure_dirs_calls) fastforce+
  then show ?thesis using assms Some by (auto simp: ensure_parent_dirs_def split: if_splits)
qed

lemma write_all_calls:
  "write_all env fd data st = (x, st') \<Longrightarrow> new_calls (overwrite_call target data) st st'"
  by (auto simp: write_all_def split: prod.splits intro: new_calls_sys)

lemma rename_fallback_calls:
  assumes "rename_fallback env (target @ cstr ''.tmp'') target data e st = (ok, st')"
  shows "new_calls (overwrite_call target data) st st'"
proof -
  let ?P = "overwrite_call target data"
  define mid where "mid = (if e = ENOENT then
              (case ensure_parent_dirs env target st of (_, st1) \<Rightarrow>
               case sys env (Sys_rename (target @ cstr ''.tmp'') target) st1 of (r, st2) \<Rightarrow> (sr_ret r = 0, st2))
            else (False, st))"
  have m: "new_calls ?P st (snd mid)"
    unfolding mid_def by (auto split: prod.splits intro!: new_calls_trans[OF ensure_parent_calls new_calls_sys])
  obtain again st1 where mid: "mid = (again, st1)" by (cases mid)
  obtain r st2 where 2: "sys env (Sys_open target (L_O_WRONLY OR L_O_CREAT OR L_O_TRUNC) MODE_0666) st1 = (r, st2)" by (metis surj_pair)
  obtain d st3 where 3: "write_all env (sr_ret r) data st2 = (d, st3)" by (metis surj_pair)
  have "new_calls ?P st st2" using m mid new_calls_sys[OF 2, of ?P] new_calls_trans by fastforce
  moreover from this have "new_calls ?P st st3" using write_all_calls[OF 3] new_calls_trans by blast
  ultimately show ?thesis
    using assms m unfolding rename_fallback_def mid_def[symmetric] mid Let_def
    by (auto simp: 2[simplified] 3 split: bool.splits if_splits intro!: new_calls_snd)
qed

lemma atomic_overwrite_calls:
  assumes "atomic_overwrite_file env target data st = (ok, st')"
  shows "new_calls (overwrite_call target data) st st'"
proof -
  let ?P = "overwrite_call target data" and ?tmp = "target @ cstr ''.tmp''"
  obtain dirs e st0 where 0: "ensure_parent_dirs env target st = ((dirs, e), st0)" by (metis surj_pair)
  obtain r st1 where 1: "sys env (Sys_open ?tmp (L_O_WRONLY OR L_O_CREAT OR L_O_TRUNC) MODE_0666) st0 = (r, st1)" by (metis surj_pair)
  obtain written st2 where 2: "(if data \<noteq> [] then write_all env (sr_ret r) data st1 else (True, st1)) = (written, st2)" by (metis surj_pair)
  obtain f st3 where 3: "sys env (Sys_fsync (sr_ret r)) st2 = (f, st3)" by (metis surj_pair)
  obtain n st5 where 5: "sys env (Sys_rename ?tmp target) (snd (sys env (Sys_close (sr_ret r)) st3)) = (n, st5)" by (metis surj_pair)
  have c0: "new_calls ?P st st0" using ensure_parent_calls[OF 0] .
  have c1: "new_calls ?P st st1" using c0 new_calls_sys[OF 1, of ?P] new_calls_trans by fastforce
  have "new_calls ?P st1 st2" using 2 write_all_calls by (auto split: if_splits)
  then have c3: "new_calls ?P st st3" using c1 new_calls_sys[OF 3, of ?P] new_calls_trans by fastforce
  then have c4: "new_calls ?P st (snd (sys env (Sys_close (sr_ret r)) st3))" by (rule new_calls_snd[rotated]) simp
  have c5: "new_calls ?P st st5" using c4 new_calls_sys[OF 5, of ?P] new_calls_trans by fastforce
  have "new_calls ?P st st'" if "rename_fallback env ?tmp target data (sr_errno n) st5 = (ok, st')"
    using new_calls_trans[OF c5 rename_fallback_calls[OF that]] .
  then show ?thesis
    using assms c0 c1 c4 c5 new_calls_snd[OF _ c4, of "Sys_unlink ?tmp" env]
    unfolding atomic_overwrite_file_def 0 Let_def prod.case
    by (auto simp: 1[simplified] 2 3 5 split: if_splits)
qed

text \<open>A document that is stored is long enough, and no longer one was announced.\<close>

lemma unat_of_nat_le: "unat (of_nat n :: 'a::len word) \<le> n"
  by (simp add: unat_of_nat)

lemma bson_to_store_complete:
  assumes "bson_to_store b = Some d"
  shows "kMinFullParamsBsonSize \<le> length d \<and> length d = length b \<and> unat (get32 d) \<le> length d \<and> drop 4 d = drop 4 b"
proof (cases "get32 b = 0 \<and> 4 \<le> length b")
  case True
  have o: "overwrite 0 (le32 w) b = le32 w @ drop 4 b" for w
    using True by (simp add: overwrite_def codec_simps)
  have "d = le32 (of_nat (length b)) @ drop 4 b" "1024 \<le> length b"
    using assms True by (auto simp: bson_to_store_def Let_def o codec_simps split: if_splits)
  then show ?thesis using True by (simp add: codec_simps unat_of_nat_le)
next
  case False
  then show ?thesis using assms by (auto simp: bson_to_store_def Let_def split: if_splits)
qed

definition store_call :: "int \<Rightarrow> linux_call \<Rightarrow> bool" where
  "store_call fd c \<longleftrightarrow> c = Sys_stat kPhysParamsBinaryPath \<or> c = Sys_close fd"

lemma store_params_calls:
  assumes "store_params env b st = (ok, st')"
  shows "new_calls (case bson_to_store b of None \<Rightarrow> store_call fd | Some d \<Rightarrow> overwrite_call kPhysParamsBinaryPath d) st st'"
proof -
  obtain r st1 where 1: "sys env (Sys_stat kPhysParamsBinaryPath) st = (r, st1)" by (metis surj_pair)
  show ?thesis
  proof (cases "bson_to_store b")
    case None
    then show ?thesis using assms 1 by (auto simp: store_params_def store_call_def intro: new_calls_sys)
  next
    case (Some d)
    let ?P = "overwrite_call kPhysParamsBinaryPath d"
    obtain ok2 st2 where 2: "atomic_overwrite_file env kPhysParamsBinaryPath d st1 = (ok2, st2)" by (metis surj_pair)
    have "new_calls ?P st st1" by (rule new_calls_sys[OF 1]) simp
    then have "new_calls ?P st st2" using atomic_overwrite_calls[OF 2] new_calls_trans by blast
    then show ?thesis
      using assms Some 1 2 by (cases ok2) (auto simp: store_params_def Let_def intro: new_calls_snd)
  qed
qed

text \<open>C20: Closing a descriptor writes nothing but a complete parameter document: when the
  descriptor has none buffered, or less than 1024 bytes, or fewer bytes than the document
  announces, only the file's state is looked at and the descriptor closed.  Otherwise all
  calls are those that replace the parameter file by the document, which has the buffered
  bytes behind a size that it does reach.\<close>

theorem close_stores_complete_params:
  assumes "srv_fs_close env payload st = (r, st')" "4 \<le> length payload"
  shows "case Option.bind (map_of (g_param_fd_write_buffer st) (sint (get32 payload))) bson_to_store of
      None \<Rightarrow> new_calls (store_call (sint (get32 payload))) st st'
    | Some d \<Rightarrow> new_calls (overwrite_call kPhysParamsBinaryPath d) st st' \<and>
        kMinFullParamsBsonSize \<le> length d \<and> unat (get32 d) \<le> length d \<and>
        Some (drop 4 d) = map_option (drop 4) (map_of (g_param_fd_write_buffer st) (sint (get32 payload)))"
proof -
  define fd where "fd = sint (get32 payload)"
  let ?P = "case Option.bind (map_of (g_param_fd_write_buffer st) fd) bson_to_store of
      None \<Rightarrow> store_call fd | Some d \<Rightarrow> overwrite_call kPhysParamsBinaryPath d"
  define mid where "mid = (case map_of (g_param_fd_write_buffer st) fd of
              None \<Rightarrow> (True, st)
            | Some b \<Rightarrow> (case (if b \<noteq> [] then store_params env b st else (True, st)) of
                          (ok, st1) \<Rightarrow> (ok, forget_param_fd fd st1)))"
  have forget: "new_calls P s (forget_param_fd fd t) = new_calls P s t" for P and s t :: "'a server"
    by (simp add: new_calls_def forget_param_fd_def)
  have m: "new_calls ?P st (snd mid)"
    unfolding mid_def
    by (auto simp: forget bson_to_store_def[of "[]"] split: option.splits prod.splits dest: store_params_calls[where fd = fd])
  obtain ok st2 where mid: "mid = (ok, st2)" by (cases mid)
  obtain c st3 where 3: "sys env (Sys_close fd) st2 = (c, st3)" by (metis surj_pair)
  have "?P (Sys_close fd)" by (auto simp: store_call_def split: option.splits)
  then have "new_calls ?P st2 st3" by (rule new_calls_sys[OF 3])
  then have "new_calls ?P st st3" using m mid new_calls_trans by fastforce
  then have "new_calls ?P st st'"
    using assms unfolding srv_fs_close_def fd_def[symmetric] Let_def mid_def[symmetric]
    by (auto simp: mid 3 new_calls_def split: if_splits)
  note calls = this
  show ?thesis
  proof (cases "Option.bind (map_of (g_param_fd_write_buffer st) fd) bson_to_store")
    case (Some d)
    then obtain b where "map_of (g_param_fd_write_buffer st) fd = Some b" "bson_to_store b = Some d"
      by (auto simp: Option.bind_eq_Some_conv)
    then show ?thesis using calls bson_to_store_complete[of b d] by (simp add: fd_def[symmetric])
  qed (use calls in \<open>simp add: fd_def[symmetric]\<close>)
qed

definition sample_document :: bytes where "sample_document = le32 1024 @ replicate 1020 1"

lemma sample_document_stored: "bson_to_store sample_document = Some sample_document"
proof -
  have "unat (1024 :: 32 word) = 1024" by simp
  moreover have "length (replicate 1020 (1::byte)) = 1020" by simp
  ultimately show ?thesis
    unfolding bson_to_store_def sample_document_def by (simp add: codec_simps Let_def)
qed

lemma close_stores_complete_params_witness:
  "\<exists>r st'. srv_fs_close quiet_linux (le32 5) ((server_boot ())\<lparr>g_param_fd_write_buffer := [(5, sample_document)]\<rparr>) = (r, st') \<and>
     new_calls (overwrite_call kPhysParamsBinaryPath sample_document) (server_boot ()) st'"
proof -
  let ?st = "(server_boot ())\<lparr>g_param_fd_write_buffer := [(5, sample_document)]\<rparr>"
  obtain r st' where c: "srv_fs_close quiet_linux (le32 5) ?st = (r, st')" by (metis surj_pair)
  have "new_calls (overwrite_call kPhysParamsBinaryPath sample_document) ?st st'"
    using close_stores_complete_params[OF c] by (simp add: codec_simps sample_document_stored)
  then have "new_calls (overwrite_call kPhysParamsBinaryPath sample_document) (server_boot ()) st'"
    by (simp add: new_calls_def)
  with c show ?thesis by blast
qed

section \<open>The replacement of a file\<close>

text \<open>The documented effect of the calls on the contents of regular files, for files and for
  descriptors that are open for writing at the end of a file.\<close>

type_synonym files = "bytes \<Rightarrow> bytes option"

fun file_law :: "linux_call \<Rightarrow> sys_result \<Rightarrow> files \<times> (int \<Rightarrow> bytes option) \<Rightarrow> files \<times> (int \<Rightarrow> bytes option) \<Rightarrow> bool" where
  "file_law (Sys_open p f m) r (F, D) s' =
     (if f = L_O_WRONLY OR L_O_CREAT OR L_O_TRUNC then s' = (if 0 \<le> sr_ret r then (F(p \<mapsto> []), D(sr_ret r \<mapsto> p)) else (F, D))
      else True)"
| "file_law (Sys_write fd d) r (F, D) s' =
     (case D fd of None \<Rightarrow> True
      | Some p \<Rightarrow> s' = (F(p \<mapsto> (case F p of None \<Rightarrow> [] | Some old \<Rightarrow> old) @ take (nat (sr_ret r)) d), D) \<and> sr_ret r \<le> int (length d))"
| "file_law (Sys_close fd) r (F, D) s' = (s' = (F, D(fd := None)))"
| "file_law (Sys_rename a b) r (F, D) s' = (fst s' = (if sr_ret r = 0 then F(a := None, b := F a) else F))"
| "file_law (Sys_unlink p) r (F, D) s' = (fst s' = (if sr_ret r = 0 then F(p := None) else F))"
| "file_law (Sys_stat p) r s s' = (s' = s)"
| "file_law (Sys_mkdir p m) r s s' = (s' = s)"
| "file_law (Sys_fsync fd) r s s' = (s' = s)"
| "file_law c r s s' = True"

definition posix_files :: "'w linux \<Rightarrow> ('w \<Rightarrow> files \<times> (int \<Rightarrow> bytes option)) \<Rightarrow> bool" where
  "posix_files env fs \<longleftrightarrow> (\<forall>c w. file_law c (fst (lx_call env c w)) (fs w) (fs (snd (lx_call env c w))))"

lemma posix_sys:
  "posix_files env fs \<Longrightarrow> sys env c st = (r, st') \<Longrightarrow> file_law c r (fs (srv_world st)) (fs (srv_world st'))"
  by (auto simp: posix_files_def sys_def split: prod.splits dest: spec2[of _ c "srv_world st"])

lemma posix_snd: "posix_files env fs \<Longrightarrow> file_law c (fst (sys env c st)) (fs (srv_world st)) (fs (srv_world (snd (sys env c st))))"
  using posix_sys[OF _ surjective_pairing] .

lemma law_keeps_files:
  "file_law (Sys_rename a b) r s s' \<Longrightarrow> sr_ret r \<noteq> 0 \<Longrightarrow> fst s' = fst s"
  "file_law (Sys_close fd) r s s' \<Longrightarrow> fst s' = fst s"
  "file_law (Sys_open p (L_O_WRONLY OR L_O_CREAT OR L_O_TRUNC) m) r s s' \<Longrightarrow> sr_ret r < 0 \<Longrightarrow> s' = s"
  by (cases s; simp)+

lemma ensure_dirs_files:
  assumes "posix_files env fs" "ensure_dirs env subs st = (x, st')"
  shows "fs (srv_world st') = fs (srv_world st)"
  using assms(2)
proof (induction subs arbitrary: st)
  case (Cons sub subs)
  obtain r st1 where 1: "sys env (Sys_stat sub) st = (r, st1)" by (metis surj_pair)
  obtain m st2 where 2: "sys env (Sys_mkdir sub MODE_0777) st1 = (m, st2)" by (metis surj_pair)
  have f: "fs (srv_world st1) = fs (srv_world st)" "fs (srv_world st2) = fs (srv_world st)"
    using posix_sys[OF assms(1) 1] posix_sys[OF assms(1) 2] by simp_all
  consider "ensure_dirs env subs st = (x, st')" | "st' = st1" | "st' = st2" | "ensure_dirs env subs st1 = (x, st')"
    | "ensure_dirs env subs st2 = (x, st')"
    using Cons.prems(1) by (auto simp: 1 2 split: if_splits)
  then show ?case using f Cons.IH by cases auto
qed simp

lemma ensure_parent_files:
  "posix_files env fs \<Longrightarrow> ensure_parent_dirs env target st = (x, st') \<Longrightarrow> fs (srv_world st') = fs (srv_world st)"
  by (auto simp: ensure_parent_dirs_def split: option.splits if_splits dest: ensure_dirs_files)

lemma staged_file:
  assumes laws: "posix_files env fs" and w0: "fs (srv_world st0) = (F, D)"
    and 1: "sys env (Sys_open tmp (L_O_WRONLY OR L_O_CREAT OR L_O_TRUNC) m) st0 = (r, st1)" "0 \<le> sr_ret r"
    and 2: "(if data \<noteq> [] then write_all env (sr_ret r) data st1 else (True, st1)) = (written, st2)"
    and 3: "sys env (Sys_fsync (sr_ret r)) st2 = (f, st3)" and 4: "sys env (Sys_close (sr_ret r)) st3 = (c, st4)"
  obtains x where "fst (fs (srv_world st4)) = F(tmp \<mapsto> x)" "written \<Longrightarrow> x = data"
proof -
  have w1: "fs (srv_world st1) = (F(tmp \<mapsto> []), D(sr_ret r \<mapsto> tmp))"
    using posix_sys[OF laws 1(1)] 1(2) w0 by simp
  have "\<exists>x. fs (srv_world st2) = (F(tmp \<mapsto> x), D(sr_ret r \<mapsto> tmp)) \<and> (written \<longrightarrow> x = data)"
  proof (cases "data = []")
    case True
    then show ?thesis using 2 w1 by auto
  next
    case False
    then obtain v where v: "sys env (Sys_write (sr_ret r) data) st1 = (v, st2)" "written \<Longrightarrow> sr_ret v = int (length data)"
      using 2 by (auto simp: write_all_def split: prod.splits)
    then show ?thesis using posix_sys[OF laws v(1)] w1 by auto
  qed
  then obtain x where x: "fs (srv_world st2) = (F(tmp \<mapsto> x), D(sr_ret r \<mapsto> tmp))" "written \<Longrightarrow> x = data" by blast
  have "fst (fs (srv_world st4)) = F(tmp \<mapsto> x)"
    using posix_sys[OF laws 3] posix_sys[OF laws 4] x(1) by simp
  then show ?thesis using x(2) by (rule that)
qed

text \<open>C9: With a file system that keeps its laws and renames that work, replacing a file is all
  or nothing: on success the file holds exactly the data, and after any failure it holds
  what it held before.\<close>

theorem overwrite_all_or_nothing:
  assumes laws: "posix_files env fs"
    and renames: "\<And>a b w. sr_ret (fst (lx_call env (Sys_rename a b) w)) = 0"
    and run: "atomic_overwrite_file env target data st = (ok, st')"
  shows "fst (fs (srv_world st')) target = (if ok then Some data else fst (fs (srv_world st)) target)"
proof -
  let ?tmp = "target @ cstr ''.tmp''"
  have tmp: "?tmp \<noteq> target" by (simp add: cstr_def)
  obtain dirs e st0 where 0: "ensure_parent_dirs env target st = ((dirs, e), st0)" by (metis surj_pair)
  obtain r st1 where 1: "sys env (Sys_open ?tmp (L_O_WRONLY OR L_O_CREAT OR L_O_TRUNC) MODE_0666) st0 = (r, st1)" by (metis surj_pair)
  obtain written st2 where 2: "(if data \<noteq> [] then write_all env (sr_ret r) data st1 else (True, st1)) = (written, st2)" by (metis surj_pair)
  obtain f st3 where 3: "sys env (Sys_fsync (sr_ret r)) st2 = (f, st3)" by (metis surj_pair)
  obtain c st4 where 4: "sys env (Sys_close (sr_ret r)) st3 = (c, st4)" by (metis surj_pair)
  obtain n st5 where 5: "sys env (Sys_rename ?tmp target) st4 = (n, st5)" by (metis surj_pair)
  obtain F D where FD: "fs (srv_world st) = (F, D)" by (cases "fs (srv_world st)")
  have w0: "fs (srv_world st0) = (F, D)" using ensure_parent_files[OF laws 0] FD by simp
  have w1: "fs (srv_world st1) = (if 0 \<le> sr_ret r then (F(?tmp \<mapsto> []), D(sr_ret r \<mapsto> ?tmp)) else (F, D))"
    using posix_sys[OF laws 1] w0 by simp
  show ?thesis
  proof (cases "dirs \<and> 0 \<le> sr_ret r")
    case False
    then show ?thesis using run 0 1 w0 w1 FD by (auto simp: atomic_overwrite_file_def split: if_splits)
  next
    case True
    then obtain x where w4: "fst (fs (srv_world st4)) = F(?tmp \<mapsto> x)" and x: "written \<Longrightarrow> x = data"
      using staged_file[OF laws w0 1 _ 2 3 4] by blast
    show ?thesis
    proof (cases "written \<and> sr_ret f = 0")
      case True
      have z: "sr_ret n = 0" using renames[of ?tmp target "srv_world st4"] 5 by (auto simp: sys_def split: prod.splits)
      then have "ok" "st' = st5"
        using run True \<open>dirs \<and> 0 \<le> sr_ret r\<close> 0 1 2 3 4 5 by (auto simp: atomic_overwrite_file_def Let_def split: if_splits)
      moreover have "fst (fs (srv_world st5)) target = Some data"
        using posix_sys[OF laws 5] w4 z x True by (cases "fs (srv_world st4)") simp
      ultimately show ?thesis by simp
    next
      case False
      then have "\<not> ok" "st' = snd (sys env (Sys_unlink ?tmp) st4)"
        using run \<open>dirs \<and> 0 \<le> sr_ret r\<close> 0 1 2 3 4 5 by (auto simp: atomic_overwrite_file_def Let_def split: if_splits)
      moreover have "fst (fs (srv_world (snd (sys env (Sys_unlink ?tmp) st4)))) target = F target"
        using posix_snd[OF laws, of "Sys_unlink ?tmp" st4] w4 tmp by (cases "fs (srv_world st4)") simp
      ultimately show ?thesis using FD by simp
    qed
  qed
qed

text \<open>A file system in memory; the calls in \<open>fails\<close> fail.\<close>

definition mem_linux :: "(linux_call \<Rightarrow> bool) \<Rightarrow> (files \<times> (int \<Rightarrow> bytes option)) linux" where
  "mem_linux fails = \<lparr>lx_call = (\<lambda>c (F, D). case c of
       Sys_close fd \<Rightarrow> (quiet_result, (F, D(fd := None)))
     | Sys_stat p \<Rightarrow> (quiet_result\<lparr>sr_stat := (0x41FF, 0, 0)\<rparr>, (F, D))
     | _ \<Rightarrow> if fails c then (quiet_result\<lparr>sr_ret := - 1, sr_errno := EIO\<rparr>, (F, D))
       else (case c of
           Sys_open p f m \<Rightarrow> (quiet_result\<lparr>sr_ret := 3\<rparr>,
             if f = L_O_WRONLY OR L_O_CREAT OR L_O_TRUNC then (F(p \<mapsto> []), D(3 \<mapsto> p)) else (F, D))
         | Sys_write fd d \<Rightarrow> (quiet_result\<lparr>sr_ret := int (length d)\<rparr>,
             case D fd of None \<Rightarrow> (F, D) | Some p \<Rightarrow> (F(p \<mapsto> (case F p of None \<Rightarrow> [] | Some old \<Rightarrow> old) @ d), D))
         | Sys_rename a b \<Rightarrow> (quiet_result, (F(a := None, b := F a), D))
         | Sys_unlink p \<Rightarrow> (quiet_result, (F(p := None), D))
         | _ \<Rightarrow> (quiet_result, (F, D)))),
     lx_connected = (\<lambda>_. True), lx_trysend = (\<lambda>_ w. (0, w)), lx_usleep = (\<lambda>_ w. w), lx_stod = (\<lambda>_. None)\<rparr>"

lemma mem_linux_keeps_laws: "\<forall>fd d. \<not> fails (Sys_write fd d) \<Longrightarrow> posix_files (mem_linux fails) id"
  unfolding posix_files_def
  by (intro allI, rename_tac c w, case_tac w, case_tac c)
    (auto simp: mem_linux_def quiet_result_def split: option.splits)

lemma overwrite_all_or_nothing_witness:
  "\<exists>ok st'. atomic_overwrite_file (mem_linux (\<lambda>_. False)) (cstr ''/d/f'') [1, 2] (server_boot (Map.empty, Map.empty)) = (ok, st') \<and>
     fst (srv_world st') (cstr ''/d/f'') = (if ok then Some [1, 2] else None)"
proof -
  obtain ok st' where run: "atomic_overwrite_file (mem_linux (\<lambda>_. False)) (cstr ''/d/f'') [1, 2] (server_boot (Map.empty, Map.empty)) = (ok, st')"
    by (metis surj_pair)
  have "posix_files (mem_linux (\<lambda>_. False)) id" by (rule mem_linux_keeps_laws) simp
  moreover have "sr_ret (fst (lx_call (mem_linux (\<lambda>_. False)) (Sys_rename a b) w)) = 0" for a b w
    by (cases w) (simp add: mem_linux_def quiet_result_def)
  ultimately show ?thesis using overwrite_all_or_nothing[OF _ _ run, of id] run by (auto simp: server_boot_def)
qed

section \<open>A lost document\<close>

text \<open>Everything works except that the file itself can be neither replaced nor opened.\<close>

definition only_replacing_fails :: "'w linux \<Rightarrow> bytes \<Rightarrow> bool" where
  "only_replacing_fails env target \<longleftrightarrow> (\<forall>c w. let r = fst (lx_call env c w) in
     case c of Sys_rename a b \<Rightarrow> sr_ret r < 0
     | Sys_open p f m \<Rightarrow> (if p = target then sr_ret r < 0 else 0 \<le> sr_ret r)
     | Sys_write fd d \<Rightarrow> sr_ret r = int (length d)
     | Sys_stat p \<Rightarrow> sr_ret r = 0 \<and> fst (sr_stat r) = 0x41FF
     | _ \<Rightarrow> sr_ret r = 0)"

lemma only_fails_sys:
  assumes "only_replacing_fails env target" "sys env c st = (r, st')"
  shows "case c of Sys_rename a b \<Rightarrow> sr_ret r < 0
     | Sys_open p f m \<Rightarrow> (if p = target then sr_ret r < 0 else 0 \<le> sr_ret r)
     | Sys_write fd d \<Rightarrow> sr_ret r = int (length d)
     | Sys_stat p \<Rightarrow> sr_ret r = 0 \<and> fst (sr_stat r) = 0x41FF
     | _ \<Rightarrow> sr_ret r = 0"
proof -
  have "r = fst (lx_call env c (srv_world st))" using assms(2) by (auto simp: sys_def split: prod.splits)
  then show ?thesis using assms(1) unfolding only_replacing_fails_def Let_def by blast
qed

lemma ensure_dirs_works:
  assumes "only_replacing_fails env target"
  shows "\<exists>st'. ensure_dirs env subs st = ((True, 0), st')"
proof (induction subs arbitrary: st)
  case (Cons sub subs)
  obtain r st1 where 1: "sys env (Sys_stat sub) st = (r, st1)" by (metis surj_pair)
  show ?case using only_fails_sys[OF assms 1] Cons.IH by (simp add: 1)
qed simp

lemma ensure_parent_works:
  assumes "only_replacing_fails env target"
  shows "\<exists>st'. ensure_parent_dirs env p st = ((True, 0), st')"
  using ensure_dirs_works[OF assms] by (simp add: ensure_parent_dirs_def split: option.splits)

lemma rename_fallback_lost:
  assumes laws: "posix_files env fs" and fails: "only_replacing_fails env target"
  shows "\<exists>st'. rename_fallback env tmp target data e st = (True, st') \<and> fst (fs (srv_world st')) = fst (fs (srv_world st))"
proof -
  obtain st1 where 1: "ensure_parent_dirs env target st = ((True, 0), st1)" using ensure_parent_works[OF fails] by blast
  obtain r st2 where 2: "sys env (Sys_rename tmp target) st1 = (r, st2)" by (metis surj_pair)
  have r: "sr_ret r < 0" using only_fails_sys[OF fails 2] by simp
  have w2: "fst (fs (srv_world st2)) = fst (fs (srv_world st))"
    using ensure_parent_files[OF laws 1] law_keeps_files(1)[OF posix_sys[OF laws 2]] r by simp
  define s where "s = (if e = ENOENT then st2 else st)"
  obtain q st3 where 3: "sys env (Sys_open target (L_O_WRONLY OR L_O_CREAT OR L_O_TRUNC) MODE_0666) s = (q, st3)" by (metis surj_pair)
  have "sr_ret q < 0" using only_fails_sys[OF fails 3] by simp
  moreover from this have "fs (srv_world st3) = fs (srv_world s)" using law_keeps_files(3)[OF posix_sys[OF laws 3]] by blast
  moreover have "(if e = ENOENT then case ensure_parent_dirs env target st of (_, st1) \<Rightarrow>
      case sys env (Sys_rename tmp target) st1 of (r, st2) \<Rightarrow> (sr_ret r = 0, st2) else (False, st)) = (False, s)"
    using r by (simp add: 1 2 s_def)
  moreover have "fst (fs (srv_world s)) = fst (fs (srv_world st))" using w2 by (simp add: s_def)
  ultimately show ?thesis using 3 by (simp add: rename_fallback_def)
qed

lemma atomic_overwrite_lost:
  assumes laws: "posix_files env fs" and fails: "only_replacing_fails env target"
  shows "\<exists>st'. atomic_overwrite_file env target data st = (True, st') \<and>
    fst (fs (srv_world st')) target = fst (fs (srv_world st)) target"
proof -
  let ?tmp = "target @ cstr ''.tmp''"
  have tmp: "?tmp \<noteq> target" by (simp add: cstr_def)
  obtain st0 where 0: "ensure_parent_dirs env target st = ((True, 0), st0)" using ensure_parent_works[OF fails] by blast
  obtain r st1 where 1: "sys env (Sys_open ?tmp (L_O_WRONLY OR L_O_CREAT OR L_O_TRUNC) MODE_0666) st0 = (r, st1)" by (metis surj_pair)
  obtain written st2 where 2: "(if data \<noteq> [] then write_all env (sr_ret r) data st1 else (True, st1)) = (written, st2)" by (metis surj_pair)
  obtain f st3 where 3: "sys env (Sys_fsync (sr_ret r)) st2 = (f, st3)" by (metis surj_pair)
  obtain c st4 where 4: "sys env (Sys_close (sr_ret r)) st3 = (c, st4)" by (metis surj_pair)
  obtain n st5 where 5: "sys env (Sys_rename ?tmp target) st4 = (n, st5)" by (metis surj_pair)
  have ok: "0 \<le> sr_ret r" "sr_ret f = 0" "sr_ret n < 0"
    using only_fails_sys[OF fails 1] only_fails_sys[OF fails 3] only_fails_sys[OF fails 5] tmp by simp_all
  have w: "written" using 2 by (auto simp: write_all_def split: prod.splits if_splits dest!: only_fails_sys[OF fails])
  obtain F D where FD: "fs (srv_world st0) = (F, D)" by (cases "fs (srv_world st0)")
  obtain x where "fst (fs (srv_world st4)) = F(?tmp \<mapsto> x)" using staged_file[OF laws FD 1 ok(1) 2 3 4] by blast
  then have "fst (fs (srv_world st5)) target = F target"
    using law_keeps_files(1)[OF posix_sys[OF laws 5]] ok(3) tmp by simp
  moreover obtain st' where "rename_fallback env ?tmp target data (sr_errno n) st5 = (True, st')"
    "fst (fs (srv_world st')) = fst (fs (srv_world st5))" using rename_fallback_lost[OF laws fails] by blast
  moreover have "F = fst (fs (srv_world st))" unfolding ensure_parent_files[OF laws 0, symmetric] FD by simp
  ultimately show ?thesis using w ok 0 1 2 3 4 5 by (auto simp: atomic_overwrite_file_def Let_def)
qed

text \<open>When the parameter file can be neither replaced nor opened, closing a descriptor with
  a complete document still reports success, although the file is unchanged and the document
  is dropped.\<close>

theorem lost_params_reported_saved:
  assumes laws: "posix_files env fs" and fails: "only_replacing_fails env kPhysParamsBinaryPath"
    and doc: "4 \<le> length payload" "map_of (g_param_fd_write_buffer st) (sint (get32 payload)) = Some b" "bson_to_store b = Some d"
  shows "\<exists>st'. srv_fs_close env payload st = ((0, 0, []), st') \<and>
    fst (fs (srv_world st')) kPhysParamsBinaryPath = fst (fs (srv_world st)) kPhysParamsBinaryPath \<and>
    map_of (g_param_fd_write_buffer st') (sint (get32 payload)) = None"
proof -
  define fd where "fd = sint (get32 payload)"
  have ne: "b \<noteq> []" using doc(3) by (auto simp: bson_to_store_def)
  obtain r1 st1 where 1: "sys env (Sys_stat kPhysParamsBinaryPath) st = (r1, st1)" by (metis surj_pair)
  obtain st2 where 2: "atomic_overwrite_file env kPhysParamsBinaryPath d st1 = (True, st2)"
    "fst (fs (srv_world st2)) kPhysParamsBinaryPath = fst (fs (srv_world st1)) kPhysParamsBinaryPath"
    using atomic_overwrite_lost[OF laws fails] by blast
  obtain r3 st3 where 3: "sys env (Sys_stat kPhysParamsBinaryPath) st2 = (r3, st3)" by (metis surj_pair)
  obtain r4 st4 where 4: "sys env (Sys_close fd) (forget_param_fd fd st3) = (r4, st4)" by (metis surj_pair)
  have r4: "sr_ret r4 = 0" using only_fails_sys[OF fails 4] by simp
  have "fst (fs (srv_world st4)) kPhysParamsBinaryPath = fst (fs (srv_world st)) kPhysParamsBinaryPath"
    using posix_sys[OF laws 1] 2(2) posix_sys[OF laws 3] law_keeps_files(2)[OF posix_sys[OF laws 4]]
    by (simp add: forget_param_fd_def)
  moreover have "map_of (g_param_fd_write_buffer st4) fd = None"
    using sys_tables(2)[OF 4] by (simp add: forget_param_fd_def delete_conv')
  ultimately show ?thesis
    using doc ne r4 1 2(1) 3 4
    by (simp add: srv_fs_close_def fd_def[symmetric] store_params_def reply_ret_def err_of_def)
qed

definition replacing_call :: "bytes \<Rightarrow> linux_call \<Rightarrow> bool" where
  "replacing_call target c = (case c of Sys_rename a b \<Rightarrow> True | Sys_open p f m \<Rightarrow> p = target | _ \<Rightarrow> False)"

lemma lost_params_reported_saved_witness:
  "\<exists>st'. srv_fs_close (mem_linux (replacing_call kPhysParamsBinaryPath)) (le32 5)
       ((server_boot (Map.empty, Map.empty))\<lparr>g_param_fd_write_buffer := [(5, sample_document)]\<rparr>) = ((0, 0, []), st') \<and>
     fst (srv_world st') kPhysParamsBinaryPath = None"
proof -
  let ?env = "mem_linux (replacing_call kPhysParamsBinaryPath)"
  have "posix_files ?env id" by (rule mem_linux_keeps_laws) (simp add: replacing_call_def)
  moreover have "only_replacing_fails ?env kPhysParamsBinaryPath"
    unfolding only_replacing_fails_def
    by (auto simp: mem_linux_def replacing_call_def quiet_result_def split: linux_call.split)
  ultimately show ?thesis
    using lost_params_reported_saved[of ?env id "le32 5"
        "(server_boot (Map.empty, Map.empty))\<lparr>g_param_fd_write_buffer := [(5, sample_document)]\<rparr>" sample_document sample_document]
    by (fastforce simp: codec_simps sample_document_stored server_boot_def)
qed

end
