(* ===== verification/Srv_Queue.thy ===== *)
theory Srv_Queue
  imports Srv_Props "HOL-Library.Multiset"
begin

text \<open>
  The message queue of the CA55 server and its four workers: what is accepted is taken in
  order and handled once, the queue is bounded, it is drained as long as the handlers return,
  and the order in which messages are finished is not the order in which they came.
\<close>

section \<open>The invariant\<close>

definition busy_messages :: "'w async_worker \<Rightarrow> bytes list" where
  "busy_messages wk = List.map_filter (wk_busy wk) [0..<NUM_WORKERS]"

definition queue_ok :: "'w async_worker \<Rightarrow> bool" where
  "queue_ok wk \<longleftrightarrow> length (wk_queue wk) \<le> MAX_QUEUE_SIZE \<and> wk_started wk \<le> NUM_WORKERS \<and>
     (\<forall>i. wk_busy wk i \<noteq> None \<longrightarrow> i < NUM_WORKERS) \<and>
     (\<exists>taken. wk_accepted wk = taken @ wk_queue wk \<and> mset taken = mset (wk_handled wk) + mset (busy_messages wk))"

lemma map_filter_upd_other: "i \<notin> set xs \<Longrightarrow> List.map_filter (f(i := v)) xs = List.map_filter f xs"
  by (induction xs) (auto split: option.splits)

lemma mset_map_filter_add:
  "distinct xs \<Longrightarrow> i \<in> set xs \<Longrightarrow> f i = None \<Longrightarrow>
   mset (List.map_filter (f(i := Some m)) xs) = add_mset m (mset (List.map_filter f xs))"
  by (induction xs) (auto simp: map_filter_upd_other split: option.splits)

lemma mset_map_filter_remove:
  "distinct xs \<Longrightarrow> i \<in> set xs \<Longrightarrow> f i = Some m \<Longrightarrow>
   mset (List.map_filter f xs) = add_mset m (mset (List.map_filter (f(i := None)) xs))"
  by (induction xs) (auto simp: map_filter_upd_other split: option.splits)

text \<open>A message is accepted or leaves everything but the server as it was.\<close>

definition acceptable :: "bytes \<Rightarrow> bool \<Rightarrow> 'w async_worker \<Rightarrow> bool" where
  "acceptable data copied wk \<longleftrightarrow>
     rpc_message data \<and> wk_initialized wk \<and> copied \<and> length (wk_queue wk) < MAX_QUEUE_SIZE"

lemma enqueue_accepts: "acceptable data copied wk \<Longrightarrow> px4_openamp_rpc_server_enqueue env data copied wk =
    (True, wk\<lparr>wk_queue := wk_queue wk @ [data], wk_accepted := wk_accepted wk @ [data]\<rparr>)"
  by (simp add: acceptable_def px4_openamp_rpc_server_enqueue_def worker_enqueue_def rpc_message_def)

lemma enqueue_refuses: "\<not> acceptable data copied wk \<Longrightarrow>
    \<exists>s. px4_openamp_rpc_server_enqueue env data copied wk = (False, wk\<lparr>wk_server := s\<rparr>)"
  by (auto simp: acceptable_def px4_openamp_rpc_server_enqueue_def worker_enqueue_def worker_error_def rpc_message_def
      intro: exI[of _ "wk_server wk"])

lemma enqueue_rest:
  "wk_started (snd (px4_openamp_rpc_server_enqueue env data copied wk)) = wk_started wk"
  "wk_shutdown (snd (px4_openamp_rpc_server_enqueue env data copied wk)) = wk_shutdown wk"
  by (simp_all add: px4_openamp_rpc_server_enqueue_def worker_enqueue_def worker_error_def)

lemma queue_ok_arrive: "queue_ok wk \<Longrightarrow> queue_ok (snd (px4_openamp_rpc_server_enqueue env data copied wk))"
proof (cases "acceptable data copied wk")
  case True
  then show "queue_ok wk \<Longrightarrow> ?thesis"
    by (auto simp: enqueue_accepts queue_ok_def busy_messages_def acceptable_def)
next
  case False
  from enqueue_refuses[OF this, of env] show "queue_ok wk \<Longrightarrow> ?thesis"
    by (auto simp: queue_ok_def busy_messages_def)
qed

lemma queue_ok_take:
  assumes ok: "queue_ok wk" and i: "i < wk_started wk" "wk_busy wk i = None" "wk_queue wk = m # q"
  shows "queue_ok (wk\<lparr>wk_queue := q, wk_busy := (wk_busy wk)(i := Some m)\<rparr>)"
proof -
  have "i < 4" using ok i(1) by (simp add: queue_ok_def)
  then have "mset (List.map_filter ((wk_busy wk)(i := Some m)) [0..<4]) = add_mset m (mset (busy_messages wk))"
    using i(2) by (simp add: busy_messages_def mset_map_filter_add del: upt_conv_Cons upt_conv_Cons_Cons upt_rec_numeral)
  moreover obtain taken where "wk_accepted wk = taken @ m # q" "mset taken = mset (wk_handled wk) + mset (busy_messages wk)"
    using ok i(3) by (auto simp: queue_ok_def)
  ultimately have "wk_accepted wk = (taken @ [m]) @ q \<and>
      mset (taken @ [m]) = mset (wk_handled wk) + mset (List.map_filter ((wk_busy wk)(i := Some m)) [0..<4])"
    by simp
  then show ?thesis
    using ok i \<open>i < 4\<close> unfolding queue_ok_def busy_messages_def by (auto simp del: upt_rec_numeral)
qed

lemma queue_ok_finish:
  assumes ok: "queue_ok wk" and i: "wk_busy wk i = Some m"
  shows "queue_ok (wk\<lparr>wk_busy := (wk_busy wk)(i := None), wk_handled := wk_handled wk @ [m], wk_server := s\<rparr>)"
proof -
  have "i < 4" using ok i by (simp add: queue_ok_def)
  then have "mset (busy_messages wk) = add_mset m (mset (List.map_filter ((wk_busy wk)(i := None)) [0..<4]))"
    using i unfolding busy_messages_def by (intro mset_map_filter_remove) simp_all
  then show ?thesis
    using ok unfolding queue_ok_def busy_messages_def by (auto simp del: upt_rec_numeral)
qed

inductive_cases worker_stepE: "worker_step env wk e wk'"

lemma queue_ok_step:
  assumes "worker_step env wk e wk'" "e \<noteq> Joined" "queue_ok wk"
  shows "queue_ok wk'"
  using assms(1)
proof (cases rule: worker_step.cases)
  case (begin_shutdown)
  then show ?thesis using assms(3) by (simp add: queue_ok_def busy_messages_def)
qed (use assms in \<open>simp_all add: queue_ok_arrive queue_ok_take queue_ok_finish\<close>)

definition worker_ready :: "'w server \<Rightarrow> 'w async_worker" where
  "worker_ready s = snd (worker_init True True NUM_WORKERS (worker_boot s))"

lemma worker_ready_fields:
  "wk_queue (worker_ready s) = []" "wk_busy (worker_ready s) = (\<lambda>_. None)" "wk_shutdown (worker_ready s) = False"
  "wk_initialized (worker_ready s)" "wk_started (worker_ready s) = 4" "wk_accepted (worker_ready s) = []"
  "wk_handled (worker_ready s) = []" "wk_server (worker_ready s) = s"
  by (simp_all add: worker_ready_def worker_init_def worker_boot_def)

lemma queue_ok_ready: "queue_ok (worker_ready s)"
  by (simp add: queue_ok_def worker_ready_fields busy_messages_def map_filter_def)

text \<open>C14: From start-up until the workers are joined at shutdown, whatever arrives and however
  the workers interleave: at most 32 messages wait, the messages taken out of the queue are
  the first of the accepted ones in their order, and each of them has been handled exactly
  once or is being handled by exactly one worker.\<close>

theorem queue_in_order:
  assumes "worker_run env (worker_ready s) es wk" "Joined \<notin> set es"
  shows "length (wk_queue wk) \<le> MAX_QUEUE_SIZE \<and>
    (\<exists>taken. wk_accepted wk = taken @ wk_queue wk \<and> mset taken = mset (wk_handled wk) + mset (busy_messages wk))"
proof -
  have "queue_ok wk" using assms
  proof (induction rule: worker_run.induct)
    case (run_snoc es wk1 e wk2)
    then show ?case using queue_ok_step by auto
  qed (simp add: queue_ok_ready)
  then show ?thesis by (simp add: queue_ok_def)
qed

section \<open>The queue is drained\<close>

definition handlers_return :: "'w linux \<Rightarrow> bool" where
  "handlers_return env \<longleftrightarrow> (\<forall>m s. \<exists>r. handle_message_buffer env m s = Ret r)"

lemma message_reply_returns:
  "handlers_return env \<longleftrightarrow> (\<forall>m s. rpc_message m \<longrightarrow> (\<exists>r. message_reply env m s = Ret r))"
proof -
  have "(\<exists>r. handle_message_buffer env m s = Ret r) \<longleftrightarrow> (\<exists>r. message_reply env m s = Ret r)" if "rpc_message m" for m s
    using that
    by (auto simp: handle_message_buffer_def message_reply_def rpc_message_def Let_def exec_bind_Ret_iff reply_error_def split: if_splits)
  then show ?thesis unfolding handlers_return_def by (metis handle_message_other)
qed

lemma exec_bind_returns: "m = Ret a \<Longrightarrow> \<exists>r. f a = Ret r \<Longrightarrow> \<exists>r. exec_bind m f = Ret r"
  by simp

lemma quiet_handlers_return: "handlers_return quiet_linux"
proof -
  have a: "\<exists>r. address_reply n ok quiet_result = Ret r" for n ok
    by (simp add: address_reply_def quiet_result_def Let_def)
  have "\<exists>r. socket_request_reply quiet_linux op p st = Ret r" for op p and st :: "unit server"
    by (cases op)
      (auto simp: sock_accept_def sock_name_def sock_recv_def sys_def quiet_linux_def quiet_result_def Let_def reply_error_def
        intro!: exec_bind_returns a[unfolded quiet_result_def, simplified] simp: address_reply_def)
  moreover have "\<exists>r. fs_request_reply quiet_linux op p st = Ret r" for op p and st :: "unit server"
    by (cases op)
      (auto simp: srv_fs_read_def sys_def quiet_linux_def quiet_result_def Let_def reply_error_def split: option.split)
  ultimately have "\<exists>r. message_reply quiet_linux m st = Ret r" for m and st :: "unit server"
    by (auto simp: message_reply_def handle_socket_rpc_def handle_fs_rpc_def Let_def reply_error_def split: option.split)
  then show ?thesis unfolding message_reply_returns by blast
qed

definition work_left :: "'w async_worker \<Rightarrow> nat" where
  "work_left wk = 2 * length (wk_queue wk) + length (busy_messages wk)"

lemma drain_step:
  assumes ret: "handlers_return env" and ok: "queue_ok wk" "wk_started wk = NUM_WORKERS" "\<not> wk_shutdown wk" and work: "0 < work_left wk"
  shows "\<exists>e wk'. worker_step env wk e wk' \<and> e \<noteq> Joined \<and> wk_accepted wk' = wk_accepted wk \<and> wk_started wk' = NUM_WORKERS \<and>
    \<not> wk_shutdown wk' \<and> work_left wk' < work_left wk"
proof (cases "\<exists>i. wk_busy wk i \<noteq> None")
  case True
  then obtain i m where i: "wk_busy wk i = Some m" by auto
  then have "i < 4" using ok(1) by (simp add: queue_ok_def)
  then have "mset (busy_messages wk) = add_mset m (mset (List.map_filter ((wk_busy wk)(i := None)) [0..<4]))"
    using i unfolding busy_messages_def by (intro mset_map_filter_remove) simp_all
  then have less: "length (List.map_filter ((wk_busy wk)(i := None)) [0..<4]) < length (busy_messages wk)"
    by (metis lessI size_add_mset size_mset)
  obtain b s where h: "handle_message_buffer env m (wk_server wk) = Ret (b, s)" using ret unfolding handlers_return_def by fast
  show ?thesis
    by (rule exI[of _ "Finish i"], rule exI, rule conjI, rule worker_step.finish[OF i h])
      (use less ok in \<open>simp add: work_left_def busy_messages_def del: upt_rec_numeral\<close>)
next
  case False
  then have "busy_messages wk = []" by (simp add: busy_messages_def map_filter_def)
  then obtain m q where q: "wk_queue wk = m # q" using work by (cases "wk_queue wk") (auto simp: work_left_def)
  have step: "worker_step env wk (Take 0) (wk\<lparr>wk_queue := q, wk_busy := (wk_busy wk)(0 := Some m)\<rparr>)"
    using False ok q by (intro worker_step.take_one) auto
  have "length (List.map_filter ((wk_busy wk)(0 := Some m)) [0..<4]) = 1"
    using False by (simp add: map_filter_def upt_rec)
  note less = this
  show ?thesis
    by (rule exI[of _ "Take 0"], rule exI, rule conjI, rule step)
      (use less ok q in \<open>simp_all add: work_left_def busy_messages_def del: upt_rec_numeral\<close>)
qed

text \<open>As long as the handlers return, nothing accepted is ever stuck: from every state that
  the running server reaches, the workers can finish, without a further arrival, so that the
  queue is empty and every accepted message has been handled exactly once.\<close>

theorem queue_drains:
  assumes ret: "handlers_return env" and run: "worker_run env (worker_ready s) es wk" "Joined \<notin> set es" "\<not> wk_shutdown wk"
  shows "\<exists>es' wk'. worker_run env (worker_ready s) (es @ es') wk' \<and> wk_queue wk' = [] \<and>
    wk_accepted wk' = wk_accepted wk \<and> mset (wk_handled wk') = mset (wk_accepted wk)"
proof -
  have inv: "queue_ok wk \<and> wk_started wk = 4" if "worker_run env (worker_ready s) es wk" "Joined \<notin> set es" for es wk
    using that
  proof (induction rule: worker_run.induct)
    case (run_snoc es wk1 e wk2)
    then have "wk_started wk2 = 4" by (auto elim!: worker_stepE simp: enqueue_rest)
    then show ?case using run_snoc queue_ok_step by auto
  qed (simp add: queue_ok_ready worker_ready_fields)
  show ?thesis using run
  proof (induction "work_left wk" arbitrary: es wk rule: less_induct)
    case less
    show ?case
    proof (cases "work_left wk = 0")
      case True
      moreover from this have "mset (wk_accepted wk) = mset (wk_handled wk)"
        using inv[OF less.prems(1,2)] by (auto simp: queue_ok_def work_left_def)
      ultimately show ?thesis using less.prems(1)
        by (intro exI[of _ "[]"] exI[of _ wk]) (simp add: work_left_def)
    next
      case False
      then obtain e wk1 where e: "worker_step env wk e wk1" "e \<noteq> Joined" "wk_accepted wk1 = wk_accepted wk"
          "\<not> wk_shutdown wk1" "work_left wk1 < work_left wk"
        using drain_step[OF ret] inv[OF less.prems(1,2)] less.prems(3) by blast
      from less.hyps[OF e(5) worker_run.run_snoc[OF less.prems(1) e(1)]] e less.prems(2) obtain es' wk' where
        "worker_run env (worker_ready s) ((es @ [e]) @ es') wk'" "wk_queue wk' = []"
        "wk_accepted wk' = wk_accepted wk1" "mset (wk_handled wk') = mset (wk_accepted wk1)" by auto
      then show ?thesis using e(3) by (intro exI[of _ "e # es'"] exI[of _ wk']) simp
    qed
  qed
qed

section \<open>Concrete runs\<close>

lemma run_one: "worker_step env wk e wk' \<Longrightarrow> worker_run env wk [e] wk'"
  using worker_run.run_snoc[OF worker_run.run_nil] by fastforce

lemma arrive_ready:
  assumes "rpc_message m"
  shows "worker_run env (worker_ready s) [Arrive m True] ((worker_ready s)\<lparr>wk_queue := [m], wk_accepted := [m]\<rparr>)"
proof -
  have "acceptable m True (worker_ready s)" using assms by (simp add: acceptable_def worker_ready_fields)
  from run_one[OF worker_step.arrive[of env "worker_ready s" m True]] show ?thesis
    by (simp add: enqueue_accepts[OF \<open>acceptable m True (worker_ready s)\<close>] worker_ready_fields)
qed

lemma queue_in_order_witness:
  "\<exists>wk. worker_run quiet_linux (worker_ready (server_boot ())) [Arrive (sample_request PX4_RPC_FS_SESSION_RESET []) True] wk \<and>
     length (wk_queue wk) \<le> MAX_QUEUE_SIZE"
proof -
  have m: "rpc_message (sample_request PX4_RPC_FS_SESSION_RESET [])"
    by (simp add: rpc_message_def sample_request_def codec_simps)
  have "Joined \<notin> set [Arrive (sample_request PX4_RPC_FS_SESSION_RESET []) True]" by simp
  from queue_in_order[OF arrive_ready[OF m] this] arrive_ready[OF m] show ?thesis by blast
qed

lemma queue_drains_witness:
  "\<exists>es wk. worker_run quiet_linux (worker_ready (server_boot ())) es wk \<and> wk_queue wk = [] \<and>
     wk_handled wk = [sample_request PX4_RPC_FS_SESSION_RESET []]"
proof -
  let ?m = "sample_request PX4_RPC_FS_SESSION_RESET []"
  have m: "rpc_message ?m" by (simp add: rpc_message_def sample_request_def codec_simps)
  from queue_drains[OF quiet_handlers_return arrive_ready[OF m]] show ?thesis
    by (fastforce simp: worker_ready_fields)
qed

text \<open>Two messages that arrive one after the other may be carried out in the opposite
  order: the second worker can finish before the first starts to handle its message, and the
  effect on the server is that of the messages in the opposite order.\<close>

theorem messages_overtake:
  assumes ret: "handlers_return env" and msgs: "rpc_message m1" "rpc_message m2"
  shows "\<exists>es wk. worker_run env (worker_ready s) es wk \<and> wk_accepted wk = [m1, m2] \<and> wk_handled wk = [m2, m1] \<and>
    server_run env [m2, m1] s = Ret (wk_server wk)"
proof -
  define w0 where "w0 = worker_ready s"
  define w1 where "w1 = w0\<lparr>wk_queue := [m1], wk_accepted := [m1]\<rparr>"
  define w2 where "w2 = w1\<lparr>wk_queue := [m1, m2], wk_accepted := [m1, m2]\<rparr>"
  define w3 where "w3 = w2\<lparr>wk_queue := [m2], wk_busy := (wk_busy w2)(0 := Some m1)\<rparr>"
  define w4 where "w4 = w3\<lparr>wk_queue := [], wk_busy := (wk_busy w3)(1 := Some m2)\<rparr>"
  obtain b2 s2 where h2: "handle_message_buffer env m2 s = Ret (b2, s2)" using ret unfolding handlers_return_def by fast
  obtain b1 s1 where h1: "handle_message_buffer env m1 s2 = Ret (b1, s1)" using ret unfolding handlers_return_def by fast
  define w5 where "w5 = w4\<lparr>wk_busy := (wk_busy w4)(1 := None), wk_handled := wk_handled w4 @ [m2], wk_server := s2\<rparr>"
  define w6 where "w6 = w5\<lparr>wk_busy := (wk_busy w5)(0 := None), wk_handled := wk_handled w5 @ [m1], wk_server := s1\<rparr>"
  note defs = w6_def w5_def w4_def w3_def w2_def w1_def
  have r1: "worker_run env w0 [Arrive m1 True] w1" using arrive_ready[OF msgs(1)] by (simp add: w0_def w1_def)
  have "acceptable m2 True w1" using msgs by (simp add: acceptable_def w0_def w1_def worker_ready_fields)
  from worker_step.arrive[of env w1 m2 True] have s2: "worker_step env w1 (Arrive m2 True) w2"
    by (simp add: enqueue_accepts[OF \<open>acceptable m2 True w1\<close>]) (simp add: w2_def w1_def)
  have s3: "worker_step env w2 (Take 0) w3" unfolding w3_def
    by (rule worker_step.take_one) (simp_all add: w2_def w1_def w0_def worker_ready_fields)
  have s4: "worker_step env w3 (Take 1) w4" unfolding w4_def
    by (rule worker_step.take_one) (simp_all add: w3_def w2_def w1_def w0_def worker_ready_fields)
  have s5: "worker_step env w4 (Finish 1) w5" unfolding w5_def
    by (rule worker_step.finish) (simp_all add: defs w0_def worker_ready_fields h2)
  have s6: "worker_step env w5 (Finish 0) w6" unfolding w6_def
    by (rule worker_step.finish) (simp_all add: defs w0_def worker_ready_fields h1)
  have "worker_run env w0 ((((([Arrive m1 True] @ [Arrive m2 True]) @ [Take 0]) @ [Take 1]) @ [Finish 1]) @ [Finish 0]) w6"
    using r1 s2 s3 s4 s5 s6 worker_run.run_snoc by blast
  then show ?thesis
    unfolding w0_def[symmetric]
    by (intro exI conjI, assumption) (simp_all add: defs w0_def worker_ready_fields h1 h2)
qed

lemma messages_overtake_witness:
  "\<exists>es wk. worker_run quiet_linux (worker_ready (server_boot ())) es wk \<and>
     wk_accepted wk = [sample_request PX4_RPC_FS_WRITE [1], sample_request PX4_RPC_FS_FSYNC [2]] \<and>
     wk_handled wk = [sample_request PX4_RPC_FS_FSYNC [2], sample_request PX4_RPC_FS_WRITE [1]]"
proof -
  have m: "rpc_message (sample_request op p)" for op p by (simp add: rpc_message_def sample_request_def codec_simps)
  from messages_overtake[OF quiet_handlers_return m m] show ?thesis by blast
qed

end
