(* ===== verification/Client_Server.thy ===== *)
theory Client_Server
  imports Fs_Props Srv_Props
begin

text \<open>
  The two sides composed: the environment of the Cortex-R8 client is the CA55 server behind a
  link that carries messages in order and may lose responses.  A remote operation has the
  effect and the result of the same operation on the server; a lost response makes the client
  repeat the request.
\<close>

section \<open>The link\<close>

text \<open>The world of the client is the server, a clock in milliseconds, and which of the next
  responses are lost.\<close>

record 'w link =
  lk_server :: "'w server"
  lk_ms :: nat
  lk_lost :: "bool list"

definition response_lost :: "'w link \<Rightarrow> bool" where
  "response_lost w = (case lk_lost w of [] \<Rightarrow> False | l # _ \<Rightarrow> l)"

definition link_send :: "'w linux \<Rightarrow> bytes \<Rightarrow> 'w link \<Rightarrow> int \<times> rpc_event list \<times> 'w link" where
  "link_send env m w =
     (case handle_message_buffer env m (lk_server w) of
        Ret (ok, s) \<Rightarrow>
          (int (length m), if response_lost w then [] else map Ev_message (drop (length (srv_sent (lk_server w))) (srv_sent s)),
           w\<lparr>lk_server := s, lk_lost := tl (lk_lost w)\<rparr>)
      | _ \<Rightarrow> (int (length m), [], w))"

definition link_os :: "'w linux \<Rightarrow> 'w link rpc_os" where
  "link_os env = \<lparr>os_ept_rdev = (\<lambda>_. True), os_ept_dest = (\<lambda>_. 1024), os_ept_is_ready = (\<lambda>_. True),
     os_vdev = (\<lambda>_. True), os_rproc = (\<lambda>_. True), os_get_notification = (\<lambda>w. ([], w)),
     os_malloc = (\<lambda>n w. (Some (\<lambda>_. 0), w)), os_free = (\<lambda>w. w), os_trysend = link_send env,
     os_clock = (\<lambda>w. ((0, lk_ms w div 1000, lk_ms w mod 1000 * 1000000), w)), os_cond_wait = (\<lambda>i w. ([], w)),
     os_cond_timedwait = (\<lambda>i d w. (ETIMEDOUT, [], w\<lparr>lk_ms := lk_ms w + 1\<rparr>)),
     os_usleep = (\<lambda>us w. ([], w\<lparr>lk_ms := lk_ms w + us div 1000\<rparr>))\<rparr>"

definition link_env :: "'w linux \<Rightarrow> 'w link fs_env" where
  "link_env env = \<lparr>fe_rpc = link_os env, fe_logger_rdev = (\<lambda>_. False), fe_logger_dest = (\<lambda>_. 0),
     fe_logger_send = (\<lambda>m w. w), fe_task_delay = (\<lambda>t w. ([], w))\<rparr>"

text \<open>Linux takes every response.\<close>

definition takes_responses :: "'w linux \<Rightarrow> bool" where
  "takes_responses env \<longleftrightarrow> (\<forall>w. lx_connected env w) \<and> (\<forall>m w. lx_trysend env m w = (0, w))"

lemma send_response_taken:
  assumes "takes_responses env"
  shows "send_response env h reply st = (True, st\<lparr>srv_sent := srv_sent st @ [response_message h reply]\<rparr>)"
proof -
  have "response_message h reply \<noteq> []"
    by (metis add_eq_0_iff_both_eq_0 length_0_conv response_message_header(3) surj_pair zero_neq_numeral)
  then show ?thesis
    using assms by (simp add: takes_responses_def send_response_def rpmsg_send_response_retry_def numeral_eq_Suc Let_def)
qed

lemma link_ready: "px4_openamp_rpc_endpoint_ready (link_os env) w"
  by (simp add: px4_openamp_rpc_endpoint_ready_def link_os_def RPMSG_ADDR_ANY_def)

text \<open>The server's state after a request: that of the handler, and one more message sent.\<close>

definition answered :: "'w server \<Rightarrow> bytes \<Rightarrow> 'w server" where
  "answered s m = s\<lparr>srv_sent := srv_sent s @ [m]\<rparr>"

lemma link_send_request:
  assumes "takes_responses env" "fs_header h op p" "fs_request_reply env op p (lk_server w) = Ret (reply, s1)"
  shows "link_send env (header_bytes h @ p) w =
    (int (RPC_HEADER_SIZE + length p), if response_lost w then [] else [Ev_message (response_message h reply)],
     w\<lparr>lk_server := answered s1 (response_message h reply), lk_lost := tl (lk_lost w)\<rparr>)"
proof -
  have "fs_request_reply env op p (lk_server w) = Ret (reply, s1) \<Longrightarrow> srv_sent s1 = srv_sent (lk_server w)"
    using ok_step_fs_request[of env op p "lk_server w" reply s1] by (simp add: ok_step_def)
  then show ?thesis
    using assms by (simp add: link_send_def handle_fs_request send_response_taken answered_def codec_simps)
qed

section \<open>One call\<close>

lemma at_rest_alloc_any:
  assumes "at_rest c"
  obtains rid c' where "alloc_pending buf cap lo None 0 c = (Some (0, rid), c')"
    "g_rpc_pending c' = (g_rpc_pending c)[0 := claim_slot (buf, cap, lo, None, 0, rid) (g_rpc_pending c ! 0)]"
    "c_mem c' = c_mem c" "c_sizes c' = c_sizes c"
proof -
  obtain r c' where a: "alloc_pending buf cap lo None 0 c = (r, c')" by fastforce
  have "find_index (\<lambda>s. \<not> in_use s) (g_rpc_pending c) = Some 0"
    using assms by (intro find_indexI) (auto simp: at_rest_def)
  moreover from this obtain i rid where "r = Some (i, rid)"
    using alloc_pending_None[of buf cap lo None 0 c c'] a by (cases r) auto
  moreover have "c_mem c' = c_mem c" "c_sizes c' = c_sizes c"
    using a by (auto simp: alloc_pending_def px4_openamp_rpc_init_locked_def fetch_request_id_def set_slot_def Let_def
        split: option.splits if_splits)
  ultimately show ?thesis using alloc_pending_Some(1,2)[of buf cap lo None 0 c i rid c'] a that by auto
qed

lemma request_fs_header:
  assumes "length p < 4294967296"
  shows "fs_header (rpc_request_header (rpc_category_code PX4_RPC_CATEGORY_FS) (rpc_fs_code op) rid (length p)) op p"
  using assms by (simp add: fs_header_def rpc_request_header_def)

text \<open>The part up to the wait, for a request of moderate length from a client at rest.\<close>

lemma link_call_sent:
  assumes rest: "at_rest (cl st)" and len: "length p \<le> 4096" and taken: "takes_responses env"
    and reply: "fs_request_reply env op p (lk_server (world st)) = Ret (reply, s1)"
    and a: "alloc_pending buf cap lo None 0 (cl st) = (Some (0, rid), c)"
    and h: "h = rpc_request_header (rpc_category_code PX4_RPC_CATEGORY_FS) (rpc_fs_code op) rid (length p)"
  shows "fs_rpc_call (link_os env) fuel (rpc_fs_code op) (Some p) (length p) buf cap lo st =
    (case rpc_wait (link_os env) fuel 0 FS_RPC_TIMEOUT_MS
        (rpc_run_events 0 (if response_lost (world st) then [] else [Ev_message (response_message h reply)]) c)
        ((world st)\<lparr>lk_server := answered s1 (response_message h reply), lk_lost := tl (lk_lost (world st))\<rparr>) of
       Ret (wr, c3, w3) \<Rightarrow> Ret (rpc_finish 0 lo wr (err st) c3 w3)
     | Faults \<Rightarrow> Faults | Diverges \<Rightarrow> Diverges)"
proof -
  have m: "os_malloc (link_os env) (rpc_total_len (length p)) (world st) = (Some (\<lambda>_. 0), world st)" by (simp add: link_os_def)
  have f: "rpc_fill_message (\<lambda>_. 0) h (Some p) (length p) = Ret (header_bytes h @ p)"
    using fill_message_Ret[of "length p" p "\<lambda>_. 0" h] len by simp
  have hd: "fs_header h op p" unfolding h using len by (intro request_fs_header) simp
  have t: "os_trysend (link_os env) (header_bytes h @ p) (world st) =
    (int (RPC_HEADER_SIZE + length p), if response_lost (world st) then [] else [Ev_message (response_message h reply)],
     (world st)\<lparr>lk_server := answered s1 (response_message h reply), lk_lost := tl (lk_lost (world st))\<rparr>)"
    using link_send_request[OF taken hd reply] by (simp add: link_os_def)
  have n: "length p \<le> 4294967295" "0 \<le> int (RPC_HEADER_SIZE + length p)" using len by simp_all
  have free: "os_free (link_os env) w = w" for w by (simp add: link_os_def)
  show ?thesis
    unfolding fs_rpc_call_def using call_sent[OF link_ready n(1) a m f[unfolded h] t[unfolded h] n(2)]
    by (simp only: free h)
qed

lemma link_wait_done:
  "slot_completed i c \<Longrightarrow> 0 < fuel \<Longrightarrow> rpc_wait (link_os env) fuel i FS_RPC_TIMEOUT_MS c w = Ret (0, c, w)"
  by (cases fuel) (simp_all add: rpc_wait_def link_os_def)

lemma timespec_ms_link: "n < 2 ^ 64 \<Longrightarrow> timespec_ms (n div 1000) (n mod 1000 * 1000000) = n"
  by (simp add: timespec_ms_def)

lemma link_wait_timeout:
  assumes "\<not> slot_completed i c" "s \<le> lk_ms w" "lk_ms w + k = s + t" "s + t < 2 ^ 64" "k < fuel" "0 < t"
  shows "rpc_wait_timed (link_os env) i t s fuel c w = Ret (- ETIMEDOUT, c, w\<lparr>lk_ms := s + t\<rparr>)"
  using assms
proof (induction k arbitrary: fuel w)
  case 0
  then obtain f where f: "fuel = Suc f" by (cases fuel) auto
  have ms: "lk_ms w = s + t" using 0 by simp
  have clock: "os_clock (link_os env) w = ((0, lk_ms w div 1000, lk_ms w mod 1000 * 1000000), w)" for w
    by (simp add: link_os_def)
  have "timespec_ms (lk_ms w div 1000) (lk_ms w mod 1000 * 1000000) = s + t" using 0 ms by (simp only: timespec_ms_link)
  then show ?case unfolding f using 0(1,6) ms by (simp add: clock)
next
  case (Suc k)
  then obtain f where f: "fuel = Suc f" "k < f" by (cases fuel) auto
  have clock: "os_clock (link_os env) w = ((0, lk_ms w div 1000, lk_ms w mod 1000 * 1000000), w)" for w
    by (simp add: link_os_def)
  have poll: "poll_remoteproc_notifications (link_os env) i c w = (c, w)" for w
    by (simp add: poll_remoteproc_notifications_def link_os_def)
  have wait: "os_cond_timedwait (link_os env) i d w = (ETIMEDOUT, [], w\<lparr>lk_ms := lk_ms w + 1\<rparr>)" for d w
    by (simp add: link_os_def)
  have now: "timespec_ms (lk_ms w div 1000) (lk_ms w mod 1000 * 1000000) = lk_ms w" using Suc.prems by (intro timespec_ms_link) linarith
  have "rpc_wait_timed (link_os env) i t s f c (w\<lparr>lk_ms := lk_ms w + 1\<rparr>) = Ret (- ETIMEDOUT, c, (w\<lparr>lk_ms := lk_ms w + 1\<rparr>)\<lparr>lk_ms := s + t\<rparr>)"
    using Suc.prems f by (intro Suc.IH) simp_all
  then show ?case unfolding f(1) using Suc.prems by (simp add: clock poll wait now Let_def)
qed

lemma at_rest_release:
  assumes "at_rest c" "g_rpc_pending c' = (g_rpc_pending c)[0 := x]"
  shows "at_rest (release_slot_locked 0 c')"
proof -
  have "\<not> in_use s" if "s \<in> set ((g_rpc_pending c)[0 := release_slot y])" for s y
    using that assms(1) set_update_subset_insert[of "g_rpc_pending c" 0 "release_slot y"] by (auto simp: at_rest_def slot_simps)
  then show ?thesis using assms by (simp add: at_rest_def slot_simps)
qed

text \<open>The response reaches the slot of the call.\<close>

lemma receive_response:
  assumes rest: "at_rest c0" and d: "length d < 4294967296"
    and c: "g_rpc_pending c = (g_rpc_pending c0)[0 := claim_slot (buf, cap, lo, None, 0, rid) (g_rpc_pending c0 ! 0)]"
    and h: "hdr_request_id h = rid" and r_def: "r = response_message h (rv, ev, d)"
  shows "g_rpc_pending (receive r c) = (g_rpc_pending c0)[0 := complete_slot (bytes_header r) (g_rpc_pending c ! 0)]"
    "c_mem (receive r c) b = (if buf = Some b then overwrite 0 (take (min (length d) cap) d) (c_mem c b) else c_mem c b)"
    "c_sizes (receive r c) l = (if lo = Some l then length d else c_sizes c l)"
    "hdr_return_value (bytes_header r) = rv" "hdr_errno_value (bytes_header r) = ev"
proof -
  note hb = response_message_header[of h rv ev d, folded r_def]
  have l0: "0 < length (g_rpc_pending c0)" using rest by (simp add: at_rest_def)
  have s0: "g_rpc_pending c ! 0 = claim_slot (buf, cap, lo, None, 0, rid) (g_rpc_pending c0 ! 0)"
    using l0 by (simp add: c)
  have sz: "unat (of_nat (length d) :: 32 word) = length d" using d by (intro unat_of_nat32)
  have wf: "well_formed_message r" by (simp add: well_formed_message_def hb sz)
  have "find_index (answers (bytes_header r)) (g_rpc_pending c) = Some 0"
    using l0 s0 h by (intro find_indexI) (simp_all add: hb claim_slot_def c)
  from handle_hit[OF wf this]
  have recv: "receive r c = fst (deliver_response (bytes_header r) d 0 (opened c))"
    by (simp add: hb(2))
  have o: "g_rpc_pending (opened c) = g_rpc_pending c" "c_mem (opened c) = c_mem c" "c_sizes (opened c) = c_sizes c"
    by (simp_all add: px4_openamp_rpc_init_locked_def)
  show "g_rpc_pending (receive r c) = (g_rpc_pending c0)[0 := complete_slot (bytes_header r) (g_rpc_pending c ! 0)]"
    using l0 s0 by (simp add: recv deliver_pending o claim_slot_def c)
  show "c_mem (receive r c) b = (if buf = Some b then overwrite 0 (take (min (length d) cap) d) (c_mem c b) else c_mem c b)"
    by (simp add: recv deliver_mem o s0 hb sz claim_slot_def)
  show "c_sizes (receive r c) l = (if lo = Some l then length d else c_sizes c l)"
    by (simp add: recv deliver_sizes o s0 hb sz claim_slot_def)
qed (simp_all add: r_def response_message_header)

lemma link_call_answered:
  assumes rest: "at_rest (cl st)" and len: "length p \<le> 4096" "length d < 4294967296" and taken: "takes_responses env"
    and reply: "fs_request_reply env op p (lk_server (world st)) = Ret ((rv, ev, d), s1)"
    and kept: "\<not> response_lost (world st)" and fuel: "0 < fuel"
  shows "\<exists>st' m. fs_rpc_call (link_os env) fuel (rpc_fs_code op) (Some p) (length p) buf cap lo st = Ret (0, Some (rv, ev), st') \<and>
    at_rest (cl st') \<and> err st' = err st \<and>
    world st' = (world st)\<lparr>lk_server := answered s1 m, lk_lost := tl (lk_lost (world st))\<rparr> \<and>
    (\<forall>b. c_mem (cl st') b = (if buf = Some b then overwrite 0 (take (min (length d) cap) d) (c_mem (cl st) b) else c_mem (cl st) b)) \<and>
    (\<forall>l. c_sizes (cl st') l = (if lo = Some l then length d else c_sizes (cl st) l))"
proof -
  obtain rid c where a: "alloc_pending buf cap lo None 0 (cl st) = (Some (0, rid), c)"
    and c: "g_rpc_pending c = (g_rpc_pending (cl st))[0 := claim_slot (buf, cap, lo, None, 0, rid) (g_rpc_pending (cl st) ! 0)]"
    and cm: "c_mem c = c_mem (cl st)" "c_sizes c = c_sizes (cl st)"
    using at_rest_alloc_any[OF rest, of buf cap lo] .
  define h where "h = rpc_request_header (rpc_category_code PX4_RPC_CATEGORY_FS) (rpc_fs_code op) rid (length p)"
  define r where "r = response_message h (rv, ev, d)"
  have rid: "hdr_request_id h = rid" by (simp add: h_def rpc_request_header_def)
  note recv = receive_response[OF rest len(2) c rid r_def]
  have l0: "0 < length (g_rpc_pending (cl st))" using rest by (simp add: at_rest_def)
  have sc: "slot_completed 0 (receive r c)" using l0 by (simp add: recv(1))
  let ?w = "(world st)\<lparr>lk_server := answered s1 r, lk_lost := tl (lk_lost (world st))\<rparr>"
  have "fs_rpc_call (link_os env) fuel (rpc_fs_code op) (Some p) (length p) buf cap lo st = Ret (rpc_finish 0 lo 0 (err st) (receive r c) ?w)"
    using link_call_sent[OF rest len(1) taken reply a h_def, of fuel] kept link_wait_done[OF sc fuel, of env ?w]
    by (simp add: r_def)
  moreover obtain c' where "rpc_finish 0 lo 0 (err st) (receive r c) ?w = (0, Some (rv, ev), \<lparr>cl = release_slot_locked 0 c', err = err st, world = ?w\<rparr>)"
    "g_rpc_pending c' = g_rpc_pending (receive r c)" "c_mem c' = c_mem (receive r c)"
    "\<forall>l. c_sizes c' l = (if lo = Some l then length d else c_sizes (cl st) l)"
  proof -
    have slot: "g_rpc_pending (receive r c) ! 0 = complete_slot (bytes_header r) (g_rpc_pending c ! 0)"
      using l0 by (simp add: recv(1))
    have "response_length (g_rpc_pending (receive r c) ! 0) = length d"
      using len(2) unfolding slot by (simp add: r_def response_message_header unat_of_nat32)
    then show ?thesis using sc recv(3-5) slot
      by (intro that[of "case lo of Some l \<Rightarrow> (receive r c)\<lparr>c_sizes := (c_sizes (receive r c))(l := length d)\<rparr> | None \<Rightarrow> receive r c"])
        (auto simp: rpc_finish_def Let_def cm split: option.splits)
  qed
  moreover have "at_rest (release_slot_locked 0 c')" if "g_rpc_pending c' = g_rpc_pending (receive r c)" for c'
    using at_rest_release[OF rest] that recv(1) by simp
  ultimately show ?thesis
    using recv(2) by (intro exI[of _ "\<lparr>cl = release_slot_locked 0 c', err = err st, world = ?w\<rparr>"] exI[of _ r])
      (simp add: release_slot_locked_def set_slot_def cm)
qed

text \<open>Without the response the call gives up after two seconds; the request was carried out.\<close>

lemma link_call_lost:
  assumes rest: "at_rest (cl st)" and len: "length p \<le> 4096" and taken: "takes_responses env"
    and reply: "fs_request_reply env op p (lk_server (world st)) = Ret (reply, s1)"
    and lost: "response_lost (world st)" and fuel: "FS_RPC_TIMEOUT_MS < fuel" and ms: "lk_ms (world st) + FS_RPC_TIMEOUT_MS < 2 ^ 64"
  shows "\<exists>st' m. fs_rpc_call (link_os env) fuel (rpc_fs_code op) (Some p) (length p) buf cap lo st = Ret (- 1, None, st') \<and>
    at_rest (cl st') \<and> err st' = ETIMEDOUT \<and> c_mem (cl st') = c_mem (cl st) \<and>
    world st' = (world st)\<lparr>lk_server := answered s1 m, lk_lost := tl (lk_lost (world st)), lk_ms := lk_ms (world st) + FS_RPC_TIMEOUT_MS\<rparr>"
proof -
  obtain rid c where a: "alloc_pending buf cap lo None 0 (cl st) = (Some (0, rid), c)"
    and c: "g_rpc_pending c = (g_rpc_pending (cl st))[0 := claim_slot (buf, cap, lo, None, 0, rid) (g_rpc_pending (cl st) ! 0)]"
    and cm: "c_mem c = c_mem (cl st)"
    using at_rest_alloc_any[OF rest, of buf cap lo] .
  define h where "h = rpc_request_header (rpc_category_code PX4_RPC_CATEGORY_FS) (rpc_fs_code op) rid (length p)"
  define w where "w = (world st)\<lparr>lk_server := answered s1 (response_message h reply), lk_lost := tl (lk_lost (world st))\<rparr>"
  have l0: "0 < length (g_rpc_pending (cl st))" using rest by (simp add: at_rest_def)
  have nc: "\<not> slot_completed 0 c" using l0 by (simp add: c claim_slot_def)
  have "rpc_wait_timed (link_os env) 0 2000 (lk_ms w) fuel c w = Ret (- ETIMEDOUT, c, w\<lparr>lk_ms := lk_ms w + 2000\<rparr>)"
    using ms fuel by (intro link_wait_timeout[where k = 2000] nc) (simp_all add: w_def)
  moreover have "os_clock (link_os env) w = ((0, lk_ms w div 1000, lk_ms w mod 1000 * 1000000), w)"
    by (simp add: link_os_def)
  moreover have "timespec_ms (lk_ms w div 1000) (lk_ms w mod 1000 * 1000000) = lk_ms w"
    using ms by (intro timespec_ms_link) (simp add: w_def)
  ultimately have "rpc_wait (link_os env) fuel 0 2000 c w = Ret (- ETIMEDOUT, c, w\<lparr>lk_ms := lk_ms w + 2000\<rparr>)"
    by (simp add: rpc_wait_def)
  then have "fs_rpc_call (link_os env) fuel (rpc_fs_code op) (Some p) (length p) buf cap lo st =
      Ret (- 1, None, \<lparr>cl = release_slot_locked 0 c, err = ETIMEDOUT, world = w\<lparr>lk_ms := lk_ms w + 2000\<rparr>\<rparr>)"
    using link_call_sent[OF rest len taken reply a h_def, of fuel] lost nc by (simp add: w_def rpc_finish_def)
  then show ?thesis using at_rest_release[OF rest c] cm
    by (intro exI[of _ "\<lparr>cl = release_slot_locked 0 c, err = ETIMEDOUT, world = w\<lparr>lk_ms := lk_ms w + 2000\<rparr>\<rparr>"]
        exI[of _ "response_message h reply"]) (simp add: w_def release_slot_locked_def set_slot_def)
qed

section \<open>A request of the file system\<close>

lemma link_clock: "os_clock (link_os env) w = ((0, lk_ms w div 1000, lk_ms w mod 1000 * 1000000), w)"
  by (simp add: link_os_def)

lemma link_request:
  assumes rest: "at_rest (cl (fs_rpcs st))" and len: "length p \<le> 4096" "length d < 4294967296" and taken: "takes_responses env"
    and reply: "fs_request_reply env op p (lk_server (fs_world st)) = Ret ((rv, ev, d), s1)"
    and kept: "\<not> response_lost (fs_world st)" and fuel: "0 < fuel"
  shows "\<exists>st' m. fs_direct (link_env env) fuel op p buf cap lo st = Ret (0, rv, ev, st') \<and>
    at_rest (cl (fs_rpcs st')) \<and> fs_errno st' = fs_errno st \<and> fs_fds st' = fs_fds st \<and> fs_shm st' = fs_shm st \<and>
    fs_world st' = (fs_world st)\<lparr>lk_server := answered s1 m, lk_lost := tl (lk_lost (fs_world st))\<rparr> \<and>
    (\<forall>b. fs_mem st' b = (if buf = Some b then overwrite 0 (take (min (length d) cap) d) (fs_mem st b) else fs_mem st b)) \<and>
    (\<forall>l. fs_len st' l = (if lo = Some l then length d else fs_len st l))"
proof -
  let ?st = "(fs_rpcs st)\<lparr>world := fs_world st\<rparr>"
  obtain st' m where s: "fs_rpc_call (link_os env) fuel (rpc_fs_code op) (Some p) (length p) buf cap lo ?st = Ret (0, Some (rv, ev), st')"
    "at_rest (cl st')" "err st' = fs_errno st"
    "world st' = (fs_world st)\<lparr>lk_server := answered s1 m, lk_lost := tl (lk_lost (fs_world st))\<rparr>"
    "\<And>b. c_mem (cl st') b = (if buf = Some b then overwrite 0 (take (min (length d) cap) d) (fs_mem st b) else fs_mem st b)"
    "\<And>l. c_sizes (cl st') l = (if lo = Some l then length d else fs_len st l)"
    using link_call_answered[of ?st p d env op rv ev s1 fuel buf cap lo] assms by auto
  have "fs_rpc_attempts (link_os env) fuel (rpc_fs_code op) (Some p) (length p) buf cap lo 3 0 ?st = Ret (None, 0, Some (rv, ev), 0, st')"
    unfolding numeral_3_eq_3 fs_rpc_attempts.simps s(1) by simp
  then have "fs_rpc (link_os env) fuel (rpc_fs_code op) (Some p) (length p) buf cap lo (fs_rpcs st) = Ret (0, Some (rv, ev), st')"
    using link_ready by (simp add: fs_rpc_def link_clock)
  then show ?thesis
    using s by (intro exI[of _ "st\<lparr>fs_rpcs := st'\<rparr>"] exI[of _ m]) (simp add: fs_direct_def link_env_def rpc_values_or_default_def)
qed

lemma set_world_same: "set_world (fs_world st) st = st"
  by (simp add: set_world_def)

lemma link_request_buffered:
  assumes rest: "at_rest (cl (fs_rpcs st))" and len: "length p \<le> 4096" "length d < 4294967296" and taken: "takes_responses env"
    and reply: "fs_request_reply env op p (lk_server (fs_world st)) = Ret ((rv, ev, d), s1)"
    and kept: "\<not> response_lost (fs_world st)" and fuel: "0 < fuel"
  shows "\<exists>st' m. fs_request (link_env env) fuel limit op p buf cap lo st = Ret (Some (0, rv, ev), st') \<and>
    at_rest (cl (fs_rpcs st')) \<and> fs_fds st' = fs_fds st \<and>
    fs_world st' = (fs_world st)\<lparr>lk_server := answered s1 m, lk_lost := tl (lk_lost (fs_world st))\<rparr>"
proof -
  obtain st' m where d: "fs_direct (link_env env) fuel op p buf cap lo st = Ret (0, rv, ev, st')"
    "at_rest (cl (fs_rpcs st'))" "fs_fds st' = fs_fds st"
    "fs_world st' = (fs_world st)\<lparr>lk_server := answered s1 m, lk_lost := tl (lk_lost (fs_world st))\<rparr>"
    using link_request[OF assms, of buf cap lo] by blast
  have "fe_rpc (link_env env) = link_os env" by (simp add: link_env_def)
  moreover have "os_malloc (link_os env) n w = (Some (\<lambda>_. 0), w)" "os_free (link_os env) w = w" for n w
    by (simp_all add: link_os_def)
  ultimately have "fs_request (link_env env) fuel limit op p buf cap lo st = Ret (Some (0, rv, ev), st')"
    using d(1) by (simp add: fs_request_def set_world_same)
  then show ?thesis using d by blast
qed

text \<open>What an operation amounts to: one call on the server, whose outcome is the result, an
  error as its negative number.\<close>

definition amounts_to :: "'w linux \<Rightarrow> linux_call \<Rightarrow> 'w link fs_state \<Rightarrow> (int \<times> 'w link fs_state) exec \<Rightarrow> bool" where
  "amounts_to env c st res \<longleftrightarrow> (\<exists>st'. let s = lk_server (fs_world st); s' = lk_server (fs_world st') in
     res = Ret (- err_of (fst (lx_call env c (srv_world s))), st') \<and> srv_calls s' = srv_calls s @ [c] \<and>
     srv_world s' = snd (lx_call env c (srv_world s)) \<and> at_rest (cl (fs_rpcs st')))"

definition sane_errno :: "'w linux \<Rightarrow> bool" where
  "sane_errno env \<longleftrightarrow> (\<forall>c w. sr_ret (fst (lx_call env c w)) < 0 \<longrightarrow>
     0 < sr_errno (fst (lx_call env c w)) \<and> sr_errno (fst (lx_call env c w)) < 2147483648)"

lemma err_of_word:
  assumes "sane_errno env"
  shows "translate_rpc_error (of_int (err_of (fst (lx_call env c w)))) = - err_of (fst (lx_call env c w))"
proof -
  have b: "0 \<le> err_of (fst (lx_call env c w)) \<and> err_of (fst (lx_call env c w)) < 2147483648"
    using assms by (auto simp: sane_errno_def err_of_def intro: less_imp_le)
  have k: "sint (of_int (err_of (fst (lx_call env c w))) :: 32 word) = err_of (fst (lx_call env c w))"
    using b by (simp add: sint_sbintrunc' signed_take_bit_int_eq_self)
  then show ?thesis by (metis add.inverse_neutral signed_0 translate_rpc_error_def)
qed

lemma amounts_to_status:
  assumes "at_rest (cl (fs_rpcs st))" "length p \<le> 4096" "takes_responses env" "sane_errno env" "\<not> response_lost (fs_world st)" "0 < fuel"
    and "fs_request_reply env op p (lk_server (fs_world st)) = Ret (reply_call env c (lk_server (fs_world st)))"
  shows "amounts_to env c st (path_status (fs_request (link_env env) fuel limit op p None 0 None st))"
proof -
  obtain r w where r: "lx_call env c (srv_world (lk_server (fs_world st))) = (r, w)" by fastforce
  let ?s1 = "(lk_server (fs_world st))\<lparr>srv_world := w, srv_calls := srv_calls (lk_server (fs_world st)) @ [c]\<rparr>"
  have reply: "fs_request_reply env op p (lk_server (fs_world st)) = Ret ((of_int (sr_ret r), of_int (err_of r), []), ?s1)"
    using assms(7) by (simp add: reply_call_def sys_def r reply_ret_def)
  have z: "length ([] :: bytes) < 4294967296" by simp
  obtain st' m where q: "fs_request (link_env env) fuel limit op p None 0 None st = Ret (Some (0, of_int (sr_ret r), of_int (err_of r)), st')"
    "at_rest (cl (fs_rpcs st'))" "fs_world st' = (fs_world st)\<lparr>lk_server := answered ?s1 m, lk_lost := tl (lk_lost (fs_world st))\<rparr>"
    using link_request_buffered[OF assms(1,2) z assms(3) reply assms(5,6), of limit None 0 None] by blast
  then show ?thesis
    using err_of_word[OF assms(4), of c "srv_world (lk_server (fs_world st))"]
    by (auto simp: amounts_to_def path_status_def Let_def r answered_def intro!: exI[of _ st'])
qed

section \<open>Operations on paths\<close>

lemma set_translated: "0 \<notin> set p \<Longrightarrow> 0 \<notin> set (translate_rpc_path p)"
proof -
  have "0 \<notin> set kPhysPrefix" by (simp add: kPhysPrefix_def cstr_def)
  moreover have "set (drop n p) \<subseteq> set p" for n by (rule set_drop_subset)
  ultimately show "0 \<notin> set p \<Longrightarrow> 0 \<notin> set (translate_rpc_path p)" by (auto simp: translate_rpc_path_def)
qed

lemma phys_path_plain: "0 \<notin> set p \<Longrightarrow> phys_path p = translate_rpc_path p"
  unfolding phys_path_def c_str_def using set_translated[of p] by (intro takeWhile_eq_all_conv[THEN iffD2]) auto

lemma length_requests:
  "length (fs_path_request p) = length p + 5" "length (fs_mkdir_request mode p) = length p + 9"
  "length (fs_rename_request p q) = length p + length q + 10" "length (fs_open_request flags mode p) = length p + 13"
  by (simp_all add: fs_path_request_def fs_mkdir_request_def fs_rename_request_def fs_open_request_def decode_simps)


definition link_boot :: "'w \<Rightarrow> bool list \<Rightarrow> 'w link fs_state" where
  "link_boot w lost = \<lparr>fs_rpcs = \<lparr>cl = rpc_boot (\<lambda>_. replicate 8 0) (\<lambda>_. 0), err = 0,
      world = \<lparr>lk_server = server_boot w, lk_ms = 0, lk_lost = lost\<rparr>\<rparr>,
     fs_fds = logger_boot, fs_shm = demo_pool\<rparr>"

lemma link_boot_rest: "at_rest (cl (fs_rpcs (link_boot w lost)))"
  by (auto simp: link_boot_def at_rest_def rpc_boot_def blank_slot_def)

lemma quiet_link: "takes_responses quiet_linux" "sane_errno quiet_linux"
  by (simp_all add: takes_responses_def sane_errno_def quiet_linux_def quiet_result_def)


section \<open>Opening and reading\<close>

text \<open>Opening a file that is neither a parameter file nor the logger's topics makes one open
  call on the server, on the translated path with the translated flags; the result is the
  server's descriptor, or the negative error number.\<close>

theorem remote_open:
  assumes rest: "at_rest (cl (fs_rpcs st))" and env: "takes_responses env" "sane_errno env"
    and link: "\<not> response_lost (fs_world st)" "0 < fuel"
    and path: "0 \<notin> set p" "length p \<le> 4080" "\<not> should_convert_params p" "p \<noteq> kLoggerTopics"
    and r: "lx_call env (Sys_open (translate_rpc_path p) (translate_rtos_to_linux_flags (of_int flags)) (of_int mode))
        (srv_world (lk_server (fs_world st))) = (r, w)" "- 2147483648 \<le> sr_ret r" "sr_ret r < 2147483648"
  shows "\<exists>st'. rzv_remote_fs_open_impl (link_env env) fuel (Some p) flags mode st =
      Ret (if sr_ret r < 0 then - sr_errno r else sr_ret r, st') \<and>
    srv_calls (lk_server (fs_world st')) = srv_calls (lk_server (fs_world st)) @
      [Sys_open (translate_rpc_path p) (translate_rtos_to_linux_flags (of_int flags)) (of_int mode)] \<and>
    srv_world (lk_server (fs_world st')) = w"
proof -
  let ?c = "Sys_open (translate_rpc_path p) (translate_rtos_to_linux_flags (of_int flags)) (of_int mode)"
  let ?s1 = "(lk_server (fs_world st))\<lparr>srv_world := w, srv_calls := srv_calls (lk_server (fs_world st)) @ [?c]\<rparr>"
  have len: "length p < 4095" "\<not> path_too_long p" using path by (simp_all add: path_too_long_def c_string_simps)
  have plain: "c_str p = p" using path(1) unfolding c_str_def by (intro takeWhile_eq_all_conv[THEN iffD2]) auto
  have reply: "fs_request_reply env PX4_RPC_FS_OPEN (fs_open_request flags mode p) (lk_server (fs_world st)) =
      Ret ((of_int (sr_ret r), of_int (err_of r), []), ?s1)"
    using path r by (simp add: srv_fs_open_def open_request_decoded[OF len(1)] plain should_skip_remote_logger_topics_def
        reply_call_def sys_def reply_ret_def)
  have z: "length (fs_open_request flags mode p) \<le> 4096" "length ([] :: bytes) < 4294967296"
    using path by (simp_all add: length_requests)
  obtain st' m where q: "fs_request (link_env env) fuel 256 PX4_RPC_FS_OPEN (fs_open_request flags mode p) None 0 None st =
      Ret (Some (0, of_int (sr_ret r), of_int (err_of r)), st')"
    "fs_world st' = (fs_world st)\<lparr>lk_server := answered ?s1 m, lk_lost := tl (lk_lost (fs_world st))\<rparr>"
    using link_request_buffered[OF rest z env(1) reply link, of 256 None 0 None] by blast
  have b: "0 \<le> err_of r \<and> err_of r < 2147483648 \<and> (sr_ret r < 0 \<longrightarrow> err_of r \<noteq> 0)"
  proof -
    have "0 < sr_errno r \<and> sr_errno r < 2147483648" if "sr_ret r < 0"
      using env(2) that r(1) unfolding sane_errno_def by (metis fst_conv)
    then show ?thesis by (auto simp: err_of_def)
  qed
  have e: "sint (of_int (err_of r) :: 32 word) = err_of r" "sint (of_int (sr_ret r) :: 32 word) = sr_ret r"
    using b r by (simp_all add: sint_of_int32)
  have ez: "(of_int (err_of r) :: 32 word) = 0 \<longleftrightarrow> err_of r = 0" using e(1) by (metis of_int_0 signed_0)
  show ?thesis
    using q len(2) b e ez
    by (auto simp: rzv_remote_fs_open_impl_def Let_def answered_def err_of_def)
qed

text \<open>A read of an ordinary descriptor stores in the caller's buffer exactly the bytes that
  the server's read returned, at most 472, and returns their number.\<close>

theorem remote_read:
  assumes rest: "at_rest (cl (fs_rpcs st))" and env: "takes_responses env"
    and link: "\<not> response_lost (fs_world st)" "0 < fuel"
    and fd: "- 2147483648 \<le> fd" "fd < 2147483648" "map_of (g_param_fd_bson_cache (lk_server (fs_world st))) fd = None"
    and n: "0 < buflen" "buflen < 4294967296"
    and r: "lx_call env (Sys_read fd (min buflen kMaxRpcReadPayload)) (srv_world (lk_server (fs_world st))) = (r, w)"
      "sr_ret r = int (length (sr_data r))" "length (sr_data r) \<le> min buflen kMaxRpcReadPayload"
  shows "\<exists>st'. rzv_remote_fs_read_impl (link_env env) fuel lv fd (Some b) buflen st = Ret (int (length (sr_data r)), st') \<and>
    fs_mem st' b = overwrite 0 (sr_data r) (fs_mem st b) \<and>
    srv_calls (lk_server (fs_world st')) = srv_calls (lk_server (fs_world st)) @ [Sys_read fd (min buflen kMaxRpcReadPayload)] \<and>
    srv_world (lk_server (fs_world st')) = w"
proof -
  let ?p = "int32 fd @ le32 (of_nat buflen)"
  let ?s1 = "(lk_server (fs_world st))\<lparr>srv_world := w, srv_calls := srv_calls (lk_server (fs_world st)) @ [Sys_read fd (min buflen 472)]\<rparr>"
  have u: "unat (of_nat buflen :: 32 word) = buflen" using n by (intro unat_of_nat32)
  have reply: "fs_request_reply env PX4_RPC_FS_READ ?p (lk_server (fs_world (set_len lv 0 st))) =
      Ret ((of_int (sr_ret r), 0, sr_data r), ?s1)"
  proof -
    have w: "fs_world (set_len lv 0 st) = fs_world st" by (simp add: set_len_def)
    have p: "length ?p = 8" "get32 ?p = of_int fd" "get32 (drop 4 ?p) = of_nat buflen" by (simp_all add: int32_def codec_simps)
    have "srv_fs_read env P (lk_server (fs_world st)) = Ret ((of_int (sr_ret r), 0, sr_data r), ?s1)"
      if "length P = 8" "get32 P = of_int fd" "get32 (drop 4 P) = of_nat buflen" for P
      using r(1,2) leD[OF r(3)] n(1) by (simp add: srv_fs_read_def that u sint_of_int32[OF fd(1,2)] fd(3) Let_def sys_def err_of_def)
    from this[OF p] show ?thesis unfolding w by simp
  qed
  have z: "at_rest (cl (fs_rpcs (set_len lv 0 st)))" "length ?p \<le> 4096" "length (sr_data r) < 4294967296"
    "\<not> response_lost (fs_world (set_len lv 0 st))"
    using rest link r n by (simp_all add: int32_def codec_simps set_len_def at_rest_def)
  obtain st' m where q: "fs_direct (link_env env) fuel PX4_RPC_FS_READ ?p (Some b) buflen (Some lv) (set_len lv 0 st) =
      Ret (0, of_int (sr_ret r), 0, st')"
    "fs_world st' = (fs_world (set_len lv 0 st))\<lparr>lk_server := answered ?s1 m, lk_lost := tl (lk_lost (fs_world (set_len lv 0 st)))\<rparr>"
    "fs_mem st' b = overwrite 0 (take (min (length (sr_data r)) buflen) (sr_data r)) (fs_mem (set_len lv 0 st) b)"
    "fs_len st' lv = length (sr_data r)"
    using link_request[OF z(1-3) env reply z(4) link(2), of "Some b" buflen "Some lv"] by auto
  have ret: "sint (of_int (sr_ret r) :: 32 word) = sr_ret r" using r by (intro sint_of_int32) simp_all
  show ?thesis
    using q ret r(2,3) n(2) by (simp add: rzv_remote_fs_read_impl_def answered_def set_len_def min_absorb1)
qed

text \<open>A server whose Linux opens descriptor 3 and reads two bytes.\<close>

definition reading_linux :: "unit linux" where
  "reading_linux = quiet_linux\<lparr>lx_call := (\<lambda>c w. (case c of
     Sys_open p f m \<Rightarrow> quiet_result\<lparr>sr_ret := 3\<rparr> | Sys_read fd n \<Rightarrow> quiet_result\<lparr>sr_ret := 2, sr_data := [7, 8]\<rparr> | _ \<Rightarrow> quiet_result, w))\<rparr>"

lemma reading_link: "takes_responses reading_linux" "sane_errno reading_linux"
  by (auto simp: takes_responses_def sane_errno_def reading_linux_def quiet_linux_def quiet_result_def split: linux_call.split)

lemma remote_open_witness:
  "\<exists>st'. rzv_remote_fs_open_impl (link_env reading_linux) 1 (Some [47, 97]) 0 0 (link_boot () []) = Ret (3, st')"
proof -
  have "\<not> should_convert_params [47, 97]" "[47, 97] \<noteq> kLoggerTopics"
    by (simp_all add: should_convert_params_def kLoggerTopics_def cstr_def)
  from remote_open[OF link_boot_rest reading_link _ _ _ _ this, of "()" "[]" 1 0 0] show ?thesis
    by (fastforce simp: response_lost_def link_boot_def reading_linux_def quiet_result_def)
qed

lemma remote_read_witness:
  "\<exists>st'. rzv_remote_fs_read_impl (link_env reading_linux) 1 0 3 (Some 5) 4 (link_boot () []) = Ret (2, st') \<and>
     fs_mem st' 5 = [7, 8, 0, 0, 0, 0, 0, 0]"
proof -
  have "overwrite 0 [7, 8] (fs_mem (link_boot () []) 5) = [7, 8, 0, 0, 0, 0, 0, 0]"
    by (simp add: overwrite_def link_boot_def rpc_boot_def) (simp add: numeral_eq_Suc)
  then show ?thesis
    using remote_read[OF link_boot_rest reading_link(1), of "()" "[]" 1 3 4 "quiet_result\<lparr>sr_ret := 2, sr_data := [7, 8]\<rparr>" "()" 0 5]
    by (fastforce simp: response_lost_def link_boot_def reading_linux_def quiet_result_def server_boot_def)
qed

section \<open>A lost response\<close>

text \<open>A request is carried out once for every attempt.\<close>

lemma link_request_repeated:
  assumes rest: "at_rest (cl (fs_rpcs st))" and len: "length p \<le> 4096" and env: "takes_responses env"
    and reply: "\<And>s. g_param_fd_write_buffer s = g_param_fd_write_buffer (lk_server (fs_world st)) \<Longrightarrow>
      fs_request_reply env op p s = Ret (reply_call env c s)"
    and lost: "lk_lost (fs_world st) = [True]" and fuel: "FS_RPC_TIMEOUT_MS < fuel" and ms: "lk_ms (fs_world st) + FS_RPC_TIMEOUT_MS < 2 ^ 64"
    and calls: "lx_call env c (srv_world (lk_server (fs_world st))) = (r1, w1)" "lx_call env c w1 = (r2, w2)"
  shows "\<exists>st'. fs_direct (link_env env) fuel op p None 0 None st = Ret (0, of_int (sr_ret r2), of_int (err_of r2), st') \<and>
    srv_calls (lk_server (fs_world st')) = srv_calls (lk_server (fs_world st)) @ [c, c] \<and>
    srv_world (lk_server (fs_world st')) = w2"
proof -
  let ?S = "lk_server (fs_world st)" and ?st = "(fs_rpcs st)\<lparr>world := fs_world st\<rparr>"
  let ?s1 = "?S\<lparr>srv_world := w1, srv_calls := srv_calls ?S @ [c]\<rparr>"
  have reply1: "fs_request_reply env op p (lk_server (world ?st)) = Ret ((of_int (sr_ret r1), of_int (err_of r1), []), ?s1)"
    using reply[of ?S] calls(1) by (simp add: reply_call_def sys_def reply_ret_def)
  obtain st1 m1 where s1: "fs_rpc_call (link_os env) fuel (rpc_fs_code op) (Some p) (length p) None 0 None ?st = Ret (- 1, None, st1)"
    "at_rest (cl st1)" "err st1 = ETIMEDOUT"
    "world st1 = (fs_world st)\<lparr>lk_server := answered ?s1 m1, lk_lost := [], lk_ms := lk_ms (fs_world st) + 2000\<rparr>"
    using link_call_lost[OF _ len env reply1, of fuel None 0 None] rest lost fuel ms by (auto simp: response_lost_def)
  let ?s2 = "(answered ?s1 m1)\<lparr>srv_world := w2, srv_calls := srv_calls ?S @ [c, c]\<rparr>"
  let ?st1 = "st1\<lparr>world := (world st1)\<lparr>lk_ms := lk_ms (world st1) + 200\<rparr>\<rparr>"
  have reply2: "fs_request_reply env op p (lk_server (world ?st1)) = Ret ((of_int (sr_ret r2), of_int (err_of r2), []), ?s2)"
    using reply[of "answered ?s1 m1"] calls(2) by (simp add: reply_call_def sys_def reply_ret_def s1 answered_def)
  have z: "at_rest (cl ?st1)" "length ([] :: bytes) < 4294967296" "\<not> response_lost (world ?st1)" "0 < fuel"
    using s1 fuel by (simp_all add: response_lost_def)
  obtain st2 m2 where s2: "fs_rpc_call (link_os env) fuel (rpc_fs_code op) (Some p) (length p) None 0 None ?st1 =
      Ret (0, Some (of_int (sr_ret r2), of_int (err_of r2)), st2)" "lk_server (world st2) = answered ?s2 m2"
    using link_call_answered[OF z(1) len z(2) env reply2 z(3,4), of None 0 None] by auto
  have sleep: "os_usleep (link_os env) 200000 w = ([], w\<lparr>lk_ms := lk_ms w + 200\<rparr>)" for w by (simp add: link_os_def)
  have "fs_rpc_attempts (link_os env) fuel (rpc_fs_code op) (Some p) (length p) None 0 None (Suc 1) e ?st1 =
     Ret (None, 0, Some (of_int (sr_ret r2), of_int (err_of r2)), e, st2)" for e
    unfolding fs_rpc_attempts.simps s2(1) by simp
  then have "fs_rpc_attempts (link_os env) fuel (rpc_fs_code op) (Some p) (length p) None 0 None 3 0 ?st =
     Ret (None, 0, Some (of_int (sr_ret r2), of_int (err_of r2)), ETIMEDOUT, st2)"
    unfolding numeral_3_eq_3 fs_rpc_attempts.simps(2)[of _ _ _ _ _ _ _ _ "Suc (Suc 0)"] s1(1)
    using s1(3) link_ready[of env "world st1"] by (simp add: fs_rpc_transient_def sleep)
  then have "fs_rpc (link_os env) fuel (rpc_fs_code op) (Some p) (length p) None 0 None (fs_rpcs st) =
     Ret (0, Some (of_int (sr_ret r2), of_int (err_of r2)), st2\<lparr>world := world st2\<rparr>)"
    using link_ready by (simp add: fs_rpc_def link_clock)
  then show ?thesis
    using s2(2) by (intro exI[of _ "st\<lparr>fs_rpcs := st2\<rparr>"])
      (simp add: fs_direct_def link_env_def rpc_values_or_default_def answered_def)
qed

text \<open>When the response to a write is lost, the client waits two seconds, pauses, and sends
  the request again: the server writes the same bytes twice, and the caller is told, once,
  that they were written.\<close>

theorem lost_response_repeats_write:
  assumes rest: "at_rest (cl (fs_rpcs st))" and env: "takes_responses env"
    and lost: "lk_lost (fs_world st) = [True]" and fuel: "FS_RPC_TIMEOUT_MS < fuel" and ms: "lk_ms (fs_world st) + FS_RPC_TIMEOUT_MS < 2 ^ 64"
    and fd: "- 2147483648 \<le> fd" "fd < 2147483648" "map_of (g_param_fd_write_buffer (lk_server (fs_world st))) fd = None"
      "\<not> logger_fd_use_stream (link_env env) fd st"
    and data: "data \<noteq> []" "length data \<le> FS_WRITE_MAX_CHUNK"
    and works: "\<And>w. sr_ret (fst (lx_call env (Sys_write fd data) w)) = int (length data)"
  shows "\<exists>st'. rzv_remote_fs_write_impl (link_env env) fuel 2 fd (Some data) (length data) st = Ret (int (length data), st') \<and>
    srv_calls (lk_server (fs_world st')) = srv_calls (lk_server (fs_world st)) @ [Sys_write fd data, Sys_write fd data]"
proof -
  let ?p = "int32 fd @ le32 (of_nat (length data)) @ data" and ?c = "Sys_write fd data"
  obtain r1 w1 where 1: "lx_call env ?c (srv_world (lk_server (fs_world st))) = (r1, w1)" by fastforce
  obtain r2 w2 where 2: "lx_call env ?c w1 = (r2, w2)" by fastforce
  have ret: "sr_ret r2 = int (length data)" "err_of r2 = 0" using works[of w1] 2 by (simp_all add: err_of_def)
  have dec: "srv_write ?p = Some (of_int fd, data)"
    using data unat_of_nat32[of "length data"] by (simp add: srv_write_def decode_simps)
  have reply: "fs_request_reply env PX4_RPC_FS_WRITE ?p s = Ret (reply_call env ?c s)"
    if "g_param_fd_write_buffer s = g_param_fd_write_buffer (lk_server (fs_world st))" for s
    using fd that by (simp add: srv_fs_write_def dec sint_of_int32)
  have len: "length ?p \<le> 4096" using data by (simp add: int32_def codec_simps)
  obtain st' where q: "fs_direct (link_env env) fuel PX4_RPC_FS_WRITE ?p None 0 None st = Ret (0, of_int (sr_ret r2), of_int (err_of r2), st')"
    "srv_calls (lk_server (fs_world st')) = srv_calls (lk_server (fs_world st)) @ [?c, ?c]"
    using link_request_repeated[OF rest len env reply lost fuel ms 1 2] by blast
  have n: "unat (of_nat (length data) :: 32 word) = length data" "sint (of_nat (length data) :: 32 word) = int (length data)"
    using data by (simp_all add: unat_of_nat32 sint_of_nat32)
  have d: "fs_direct (link_env env) fuel PX4_RPC_FS_WRITE (int32 fd @ le32 (of_nat (length data)) @ data) None 0 None st =
    Ret (0, of_nat (length data), 0, st')" using q(1) ret by simp
  have chunk: "(if length data < 448 then length data else 448) = length data" using data by simp
  have "fs_write_loop (link_env env) fuel fd data (Suc (Suc 0)) 0 (length data) 0 st =
      fs_write_loop (link_env env) fuel fd data (Suc 0) (length data) 0 (int (length data)) st'"
    using data(1) by (subst fs_write_loop.simps(2)) (simp add: chunk d n Let_def del: fs_write_loop.simps)
  then have loop: "fs_write_loop (link_env env) fuel fd data 2 0 (length data) 0 st = Ret (int (length data), st')"
    using data(1) unfolding numeral_2_eq_2 by simp
  then show ?thesis
    using fd(4) data q(2) by (simp add: rzv_remote_fs_write_impl_def)
qed

definition writing_linux :: "unit linux" where
  "writing_linux = quiet_linux\<lparr>lx_call := (\<lambda>c w. (case c of
     Sys_write fd d \<Rightarrow> quiet_result\<lparr>sr_ret := int (length d)\<rparr> | _ \<Rightarrow> quiet_result, w))\<rparr>"

lemma lost_response_repeats_write_witness:
  "\<exists>st'. rzv_remote_fs_write_impl (link_env writing_linux) 2001 2 5 (Some [7]) 1 (link_boot () [True]) = Ret (1, st') \<and>
     srv_calls (lk_server (fs_world st')) = [Sys_write 5 [7], Sys_write 5 [7]]"
proof -
  have "takes_responses writing_linux" by (simp add: takes_responses_def writing_linux_def quiet_linux_def)
  moreover have "\<not> logger_fd_use_stream (link_env writing_linux) 5 (link_boot () [True])"
    by (simp add: logger_fd_use_stream_def logger_stream_ready_def link_env_def)
  moreover have "sr_ret (fst (lx_call writing_linux (Sys_write 5 [7]) w)) = int (length [7 :: byte])" for w
    by (simp add: writing_linux_def)
  ultimately show ?thesis
    using lost_response_repeats_write[OF link_boot_rest, of writing_linux "()" "[True]" 2001 5 "[7]"]
    by (fastforce simp: link_boot_def server_boot_def)
qed

end
