(* ===== verification/Posix_Barrier.thy ===== *)
theory Posix_Barrier
  imports Posix_Sem
begin

text \<open>
  POSIX barriers (FreeRTOS\<open>_\<close>POSIX\<open>_\<close>pthread\<open>_\<close>barrier.c): a kernel counting semaphore admits the
  threads of one cycle, a counter numbers them, and a kernel event group with one bit for each
  number holds them until all bits are set.  The kernel objects are parameters; threads interleave
  at the kernel calls and the accesses to the counter.
\<close>

unbundle bit_operations_syntax

section \<open>Data\<close>

abbreviation (input) PTHREAD_BARRIER_SERIAL_THREAD :: int where "PTHREAD_BARRIER_SERIAL_THREAD \<equiv> - 2"
abbreviation (input) posixPTHREAD_BARRIER_MAX_COUNT :: nat where "posixPTHREAD_BARRIER_MAX_COUNT \<equiv> 24"

record ('k, 'e) barrier =
  uThreadCount :: "32 word"
  uThreshold :: "32 word"
  xThreadCountSemaphore :: 'k
  xBarrierEventGroup :: 'e

text \<open>The event group: creation, the entry of a thread into \<open>xEventGroupSync\<close> with the bits it sets
  and the bits it waits for, and whether a thread is still blocked there.\<close>

record 'e group_kernel =
  gk_create :: 'e
  gk_sync :: "nat \<Rightarrow> 32 word \<Rightarrow> 32 word \<Rightarrow> 'e \<Rightarrow> 'e"
  gk_waits :: "'e \<Rightarrow> nat \<Rightarrow> bool"

section \<open>The functions\<close>

definition pthread_barrier_init ::
  "'k sem_kernel \<Rightarrow> 'e group_kernel \<Rightarrow> 32 word \<Rightarrow> ('k, 'e) barrier \<Rightarrow> int \<times> ('k, 'e) barrier"
where
  "pthread_barrier_init ks gk count b =
    (if count = 0 then (EINVAL, b)
     else if unat count > posixPTHREAD_BARRIER_MAX_COUNT then (ENOMEM, b)
     else (0, b\<lparr>uThreadCount := 0, uThreshold := count,
                xThreadCountSemaphore := sk_create ks (unat count) (unat count),
                xBarrierEventGroup := gk_create gk\<rparr>))"

definition pthread_barrier_destroy :: "('k, 'e) barrier \<Rightarrow> int \<times> ('k, 'e) barrier option" where
  "pthread_barrier_destroy b = (0, None)"

text \<open>The points of \<open>pthread\<open>_\<close>barrier\<open>_\<close>wait\<close> between which other threads run.\<close>

datatype barrier_pc =
    Outside
  | Calling
  | Admitted
  | Numbered "32 word"
  | Syncing "32 word"
  | Giving nat

record ('k, 'e) barrier_sys =
  the_barrier :: "('k, 'e) barrier"
  bpc :: "nat \<Rightarrow> barrier_pc"

datatype barrier_event =
    B_call nat
  | B_take nat
  | B_number nat
  | B_sync nat "32 word"
  | B_reset nat
  | B_give nat
  | B_return nat int

inductive barrier_step ::
  "'k sem_kernel \<Rightarrow> 'e group_kernel \<Rightarrow> ('k, 'e) barrier_sys \<Rightarrow> barrier_event \<Rightarrow> ('k, 'e) barrier_sys \<Rightarrow> bool"
  for ks gk
where
  b_call: "bpc S t = Outside \<Longrightarrow> barrier_step ks gk S (B_call t) (S\<lparr>bpc := (bpc S)(t := Calling)\<rparr>)"
| b_take: "bpc S t = Calling \<Longrightarrow> sk_acquire ks (xThreadCountSemaphore (the_barrier S)) = Some k \<Longrightarrow>
    barrier_step ks gk S (B_take t)
      (S\<lparr>the_barrier := (the_barrier S)\<lparr>xThreadCountSemaphore := k\<rparr>, bpc := (bpc S)(t := Admitted)\<rparr>)"
| b_number: "bpc S t = Admitted \<Longrightarrow> uThreadCount (the_barrier S) = n \<Longrightarrow>
    barrier_step ks gk S (B_number t)
      (S\<lparr>the_barrier := (the_barrier S)\<lparr>uThreadCount := n + 1\<rparr>, bpc := (bpc S)(t := Numbered n)\<rparr>)"
| b_sync: "bpc S t = Numbered n \<Longrightarrow>
    barrier_step ks gk S (B_sync t n)
      (S\<lparr>the_barrier := (the_barrier S)\<lparr>xBarrierEventGroup :=
           gk_sync gk t (push_bit (unat n) 1) (push_bit (unat (uThreshold (the_barrier S))) 1 - 1)
             (xBarrierEventGroup (the_barrier S))\<rparr>,
         bpc := (bpc S)(t := Syncing n)\<rparr>)"
| b_leave: "bpc S t = Syncing n \<Longrightarrow> \<not> gk_waits gk (xBarrierEventGroup (the_barrier S)) t \<Longrightarrow> n \<noteq> 0 \<Longrightarrow>
    barrier_step ks gk S (B_return t 0) (S\<lparr>bpc := (bpc S)(t := Outside)\<rparr>)"
| b_reset: "bpc S t = Syncing n \<Longrightarrow> \<not> gk_waits gk (xBarrierEventGroup (the_barrier S)) t \<Longrightarrow> n = 0 \<Longrightarrow>
    barrier_step ks gk S (B_reset t)
      (S\<lparr>the_barrier := (the_barrier S)\<lparr>uThreadCount := 0\<rparr>, bpc := (bpc S)(t := Giving 0)\<rparr>)"
| b_give: "bpc S t = Giving i \<Longrightarrow> i < unat (uThreshold (the_barrier S)) \<Longrightarrow>
    barrier_step ks gk S (B_give t)
      (S\<lparr>the_barrier := (the_barrier S)\<lparr>xThreadCountSemaphore :=
           sk_give ks (xThreadCountSemaphore (the_barrier S))\<rparr>,
         bpc := (bpc S)(t := Giving (i + 1))\<rparr>)"
| b_serial: "bpc S t = Giving i \<Longrightarrow> \<not> i < unat (uThreshold (the_barrier S)) \<Longrightarrow>
    barrier_step ks gk S (B_return t PTHREAD_BARRIER_SERIAL_THREAD) (S\<lparr>bpc := (bpc S)(t := Outside)\<rparr>)"

inductive barrier_run ::
  "'k sem_kernel \<Rightarrow> 'e group_kernel \<Rightarrow> ('k, 'e) barrier_sys \<Rightarrow> barrier_event list \<Rightarrow> ('k, 'e) barrier_sys \<Rightarrow> bool"
  for ks gk S
where
  barrier_nil: "barrier_run ks gk S [] S"
| barrier_snoc: "barrier_run ks gk S ls T \<Longrightarrow> barrier_step ks gk T ev U \<Longrightarrow> barrier_run ks gk S (ls @ [ev]) U"

text \<open>The documented behaviour of an event group on which all threads wait for the same bits \<open>w\<close>: a
  thread whose bits complete them clears them and releases every thread that waits, and does not
  wait itself; any other waits.  \<open>bits\<close> and \<open>waiting\<close> read the group.\<close>

definition sync_group :: "'e group_kernel \<Rightarrow> 32 word \<Rightarrow> ('e \<Rightarrow> 32 word) \<Rightarrow> ('e \<Rightarrow> nat set) \<Rightarrow> bool" where
  "sync_group gk w bits waiting \<longleftrightarrow>
    bits (gk_create gk) = 0 \<and> waiting (gk_create gk) = {} \<and>
    (\<forall>e t. gk_waits gk e t \<longleftrightarrow> t \<in> waiting e) \<and>
    (\<forall>e t s. let b = bits e OR s; e' = gk_sync gk t s w e in
      if b AND w = w then bits e' = b AND NOT w \<and> waiting e' = {}
      else bits e' = b \<and> waiting e' = insert t (waiting e))"

lemma sync_groupD:
  assumes "sync_group gk w bits waiting"
  shows "bits (gk_create gk) = 0" "waiting (gk_create gk) = {}" "gk_waits gk e t \<longleftrightarrow> t \<in> waiting e"
    "(bits e OR s) AND w = w \<Longrightarrow> bits (gk_sync gk t s w e) = (bits e OR s) AND NOT w \<and> waiting (gk_sync gk t s w e) = {}"
    "(bits e OR s) AND w \<noteq> w \<Longrightarrow> bits (gk_sync gk t s w e) = bits e OR s \<and> waiting (gk_sync gk t s w e) = insert t (waiting e)"
  using assms unfolding sync_group_def Let_def by metis+

section \<open>The invariant\<close>

text \<open>The threads at a point of the function, and the effect of moving one of them.\<close>

definition at_pc :: "('k, 'e) barrier_sys \<Rightarrow> (barrier_pc \<Rightarrow> bool) \<Rightarrow> nat set" where
  "at_pc S P = {t. P (bpc S t)}"

fun is_held :: "barrier_pc \<Rightarrow> bool" where "is_held (Numbered n) = True" | "is_held _ = False"
fun is_sync :: "barrier_pc \<Rightarrow> bool" where "is_sync (Syncing n) = True" | "is_sync _ = False"
fun giving :: "nat \<Rightarrow> barrier_pc \<Rightarrow> bool" where "giving N (Giving i) = (i < N)" | "giving N _ = False"
fun is_giving :: "barrier_pc \<Rightarrow> bool" where "is_giving (Giving i) = True" | "is_giving _ = False"

fun num :: "barrier_pc \<Rightarrow> nat" where
  "num (Numbered n) = unat n" | "num (Syncing n) = unat n" | "num _ = 0"

lemma at_pc_move [simp]:
  "at_pc (S\<lparr>bpc := (bpc S)(t := x)\<rparr>) P = (if P x then insert t (at_pc S P) else at_pc S P - {t})"
  "at_pc (S\<lparr>the_barrier := b, bpc := (bpc S)(t := x)\<rparr>) P = (if P x then insert t (at_pc S P) else at_pc S P - {t})"
  by (auto simp: at_pc_def)

lemma in_at_pc [simp]: "t \<in> at_pc S P \<longleftrightarrow> P (bpc S t)"
  by (simp add: at_pc_def)

abbreviation num_of :: "('k, 'e) barrier_sys \<Rightarrow> nat \<Rightarrow> nat" where "num_of S t \<equiv> num (bpc S t)"

text \<open>The units that the first thread of the last cycle still has to give.\<close>

definition to_give :: "nat \<Rightarrow> ('k, 'e) barrier_sys \<Rightarrow> nat \<Rightarrow> bool" where
  "to_give N S r \<longleftrightarrow> (\<forall>t. \<not> giving N (bpc S t)) \<and> r = 0 \<or>
     (\<exists>t i. (\<forall>s. giving N (bpc S s) \<longleftrightarrow> s = t) \<and> bpc S t = Giving i \<and> r = N - i)"

lemma bpc_move: "bpc (S\<lparr>the_barrier := b, bpc := f\<rparr>) = f"
  by simp

lemma to_give_other:
  assumes "\<not> giving N (bpc S t)" "\<not> giving N x" "to_give N S r"
  shows "to_give N (S\<lparr>the_barrier := b, bpc := (bpc S)(t := x)\<rparr>) r"
proof -
  let ?f = "(bpc S)(t := x)"
  have same: "giving N (?f s) \<longleftrightarrow> giving N (bpc S s)" for s using assms(1,2) by (cases "s = t") simp_all
  have "\<And>u. giving N (bpc S u) \<Longrightarrow> ?f u = bpc S u" using assms(1) by (metis fun_upd_other)
  then show ?thesis using assms(3) unfolding to_give_def by (simp only: bpc_move same) metis
qed

lemma to_give_next:
  assumes "bpc S t = Giving i" "i < N" "to_give N S r"
  shows "0 < r \<and> to_give N (S\<lparr>the_barrier := b, bpc := (bpc S)(t := Giving (i + 1))\<rparr>) (r - 1)"
proof -
  let ?f = "(bpc S)(t := Giving (i + 1))"
  have "giving N (bpc S t)" using assms by simp
  then have u: "\<And>s. giving N (bpc S s) \<longleftrightarrow> s = t" "r = N - i"
    using assms(1,3) unfolding to_give_def by (metis barrier_pc.inject(3))+
  have f: "giving N (?f s) \<longleftrightarrow> s = t \<and> i + 1 < N" for s using u(1)[of s] by (cases "s = t") simp_all
  show ?thesis
  proof (cases "i + 1 < N")
    case True
    have "\<forall>s. giving N (?f s) \<longleftrightarrow> s = t" "?f t = Giving (i + 1)" "r - 1 = N - (i + 1)" "0 < r"
      using f True u(2) by simp_all
    then show ?thesis unfolding to_give_def by (simp only: bpc_move) metis
  next
    case False
    then have "\<forall>s. \<not> giving N (?f s)" "r - 1 = 0" "0 < r" using f u(2) assms(2) by simp_all
    then show ?thesis unfolding to_give_def by (simp only: bpc_move simp_thms)
  qed
qed

lemma to_give_zero:
  assumes "to_give N S 0"
  shows "\<not> giving N (bpc S t)"
proof
  assume g: "giving N (bpc S t)"
  then obtain i where i: "bpc S t = Giving i" by (cases "bpc S t") auto
  then show False using to_give_next[OF i _ assms] g by simp
qed

text \<open>While a cycle collects its threads: the units of the semaphore, the threads that took one, those
  that are numbered and those that the last cycle has not yet returned make up the threshold; the
  numbers are given out once each; \<open>cur\<close> lists the numbers of the threads that wait.\<close>

definition collecting ::
  "('k \<Rightarrow> nat) \<Rightarrow> ('e \<Rightarrow> 32 word) \<Rightarrow> ('e \<Rightarrow> nat set) \<Rightarrow> nat \<Rightarrow> nat list \<Rightarrow> nat \<Rightarrow> ('k, 'e) barrier_sys \<Rightarrow> bool"
where
  "collecting cnt bits waiting N cur r S \<longleftrightarrow>
    (let b = the_barrier S; u = unat (uThreadCount b); g = xBarrierEventGroup b; W = waiting g in
     to_give N S r \<and>
     W \<subseteq> at_pc S is_sync \<and> at_pc S (\<lambda>p. p = Syncing 0) \<subseteq> W \<and>
     cnt (xThreadCountSemaphore b) + card (at_pc S (\<lambda>p. p = Admitted)) + u + r = N \<and>
     bij_betw (num_of S) (at_pc S is_held \<union> W) {0..<u} \<and>
     distinct cur \<and> set cur = num_of S ` W \<and>
     (\<forall>i. bit (bits g) i \<longleftrightarrow> i \<in> set cur) \<and> length cur < N)"

text \<open>Between the last arrival of a cycle and the reset by its first thread.\<close>

definition released ::
  "('k \<Rightarrow> nat) \<Rightarrow> ('e \<Rightarrow> 32 word) \<Rightarrow> ('e \<Rightarrow> nat set) \<Rightarrow> nat \<Rightarrow> ('k, 'e) barrier_sys \<Rightarrow> bool"
where
  "released cnt bits waiting N S \<longleftrightarrow>
    (let b = the_barrier S; g = xBarrierEventGroup b in
     at_pc S (giving N) = {} \<and> waiting g = {} \<and> bits g = 0 \<and> (\<exists>t. at_pc S (\<lambda>p. p = Syncing 0) = {t}) \<and>
     cnt (xThreadCountSemaphore b) = 0 \<and> at_pc S (\<lambda>p. p = Admitted) = {} \<and> at_pc S is_held = {} \<and>
     unat (uThreadCount b) = N)"

text \<open>What does not depend on the phase.\<close>

definition barrier_wf :: "nat \<Rightarrow> ('k, 'e) barrier_sys \<Rightarrow> bool" where
  "barrier_wf N S \<longleftrightarrow> unat (uThreshold (the_barrier S)) = N \<and> 0 < N \<and> N \<le> posixPTHREAD_BARRIER_MAX_COUNT \<and>
     finite (at_pc S (\<lambda>p. p \<noteq> Outside))"

lemma finite_at: "barrier_wf N S \<Longrightarrow> \<not> P Outside \<Longrightarrow> finite (at_pc S P)"
  unfolding barrier_wf_def by (metis (mono_tags, lifting) finite_subset in_at_pc subsetI)

lemma barrier_wf_step:
  assumes "barrier_wf N S" "barrier_step ks gk S ev T"
  shows "barrier_wf N T"
  using assms(2,1) by cases (auto simp: barrier_wf_def)

lemma mask_push: "push_bit n 1 - 1 = (mask n :: 32 word)"
  by (simp add: mask_eq_exp_minus_1)

lemma mask_covered:
  fixes x :: "32 word"
  assumes "n \<le> 32"
  shows "x AND mask n = mask n \<longleftrightarrow> (\<forall>i<n. bit x i)"
proof
  assume e: "x AND mask n = mask n"
  have "bit x i" if "i < n" for i
  proof -
    have "bit (mask n :: 32 word) i" using that assms by (simp add: bit_mask_iff)
    then have "bit (x AND mask n) i" by (simp only: e)
    then show ?thesis by (simp add: bit_and_iff)
  qed
  then show "\<forall>i<n. bit x i" by blast
next
  assume a: "\<forall>i<n. bit x i"
  show "x AND mask n = mask n"
    by (rule bit_word_eqI) (use a in \<open>auto simp: bit_and_iff bit_mask_iff\<close>)
qed

lemma mask_cleared:
  fixes x :: "32 word"
  assumes "\<forall>i. bit x i \<longrightarrow> i < n"
  shows "x AND NOT (mask n) = 0"
  by (rule bit_word_eqI) (use assms in \<open>auto simp: bit_and_iff bit_not_iff bit_mask_iff\<close>)

lemma bit_exp32: "n < 32 \<Longrightarrow> bit (push_bit n 1 :: 32 word) i \<longleftrightarrow> i = n"
  by (auto simp: bit_simps)

text \<open>Moving a thread that is neither numbered nor waiting keeps the numbers.\<close>

lemma bij_move:
  assumes "t \<notin> A"
  shows "bij_betw (num_of (S\<lparr>the_barrier := b, bpc := (bpc S)(t := x)\<rparr>)) A B \<longleftrightarrow> bij_betw (num_of S) A B"
    "num_of (S\<lparr>the_barrier := b, bpc := (bpc S)(t := x)\<rparr>) ` A = num_of S ` A"
proof -
  have e: "num_of (S\<lparr>the_barrier := b, bpc := (bpc S)(t := x)\<rparr>) a = num_of S a" if "a \<in> A" for a
    using that assms by auto
  show "bij_betw (num_of (S\<lparr>the_barrier := b, bpc := (bpc S)(t := x)\<rparr>)) A B \<longleftrightarrow> bij_betw (num_of S) A B"
    by (rule bij_betw_cong) (rule e)
  show "num_of (S\<lparr>the_barrier := b, bpc := (bpc S)(t := x)\<rparr>) ` A = num_of S ` A"
    by (rule image_cong[OF refl]) (rule e)
qed

text \<open>The moves of a thread that is not yet numbered, or has left.\<close>

lemma collecting_move:
  assumes c: "collecting cnt bits waiting N cur r S" and t: "\<not> is_held (bpc S t)" "t \<notin> waiting (xBarrierEventGroup (the_barrier S))"
    and x: "\<not> is_held x" "\<not> is_sync x"
    and g: "giving N (bpc S t) \<or> giving N x \<Longrightarrow> \<exists>i. bpc S t = Giving i \<and> x = Giving (i + 1)"
    and k: "cnt k + (if x = Admitted then 1 else 0) + (if giving N (bpc S t) then 0 else 1) =
       cnt (xThreadCountSemaphore (the_barrier S)) + 1"
    and e: "bpc S t \<noteq> Admitted" "x = Admitted \<longrightarrow> finite (at_pc S (\<lambda>p. p = Admitted))"
  shows "\<exists>r. collecting cnt bits waiting N cur r
    (S\<lparr>the_barrier := (the_barrier S)\<lparr>xThreadCountSemaphore := k\<rparr>, bpc := (bpc S)(t := x)\<rparr>)"
proof -
  let ?W = "waiting (xBarrierEventGroup (the_barrier S))"
  let ?b = "(the_barrier S)\<lparr>xThreadCountSemaphore := k\<rparr>"
  let ?T = "S\<lparr>the_barrier := ?b, bpc := (bpc S)(t := x)\<rparr>"
  note c = c[unfolded collecting_def Let_def]
  have c1: "to_give N S r"
    and c4: "cnt (xThreadCountSemaphore (the_barrier S)) + card (at_pc S (\<lambda>p. p = Admitted)) + unat (uThreadCount (the_barrier S)) + r = N"
    and c5: "bij_betw (num_of S) (at_pc S is_held \<union> ?W) {0..<unat (uThreadCount (the_barrier S))}"
    and c7: "set cur = num_of S ` ?W"
    using c by blast+
  define r' where "r' = (if giving N (bpc S t) then r - 1 else r)"
  have gv: "(giving N (bpc S t) \<longrightarrow> 0 < r) \<and> to_give N ?T r'"
  proof (cases "giving N (bpc S t)")
    case True
    then obtain i where i: "bpc S t = Giving i" "x = Giving (i + 1)" using g by blast
    then show ?thesis using to_give_next[OF i(1) _ c1, of ?b] True by (simp add: r'_def)
  next
    case False
    then have "\<not> giving N x" using g by fastforce
    then show ?thesis using to_give_other[OF False _ c1, of x ?b] False by (simp add: r'_def)
  qed
  have "at_pc S (\<lambda>p. p = Admitted) - {t} = at_pc S (\<lambda>p. p = Admitted)" using e(1) by auto
  then have en: "card (at_pc ?T (\<lambda>p. p = Admitted)) = card (at_pc S (\<lambda>p. p = Admitted)) + (if x = Admitted then 1 else 0)"
    using e by simp
  have sum: "cnt k + card (at_pc ?T (\<lambda>p. p = Admitted)) + unat (uThreadCount (the_barrier S)) + r' = N"
    using c4 k en e(1) gv by (cases "giving N (bpc S t)") (auto simp: r'_def split: if_splits)
  have A: "t \<notin> at_pc S is_held \<union> ?W" "at_pc ?T is_held = at_pc S is_held" using t x by auto
  show ?thesis
    unfolding collecting_def Let_def
  proof (rule exI[of _ r'], intro conjI)
    show "bij_betw (num_of ?T) (at_pc ?T is_held \<union> waiting (xBarrierEventGroup (the_barrier ?T))) {0..<unat (uThreadCount (the_barrier ?T))}"
      using c5 bij_move(1)[OF A(1), where S = S and b = ?b and x = x] by (simp only: A(2)) simp
    show "set cur = num_of ?T ` waiting (xBarrierEventGroup (the_barrier ?T))"
      using c7 bij_move(2)[OF t(2), where S = S and b = ?b and x = x] by simp
    show "waiting (xBarrierEventGroup (the_barrier ?T)) \<subseteq> at_pc ?T is_sync" using c t(2) by auto
    show "at_pc ?T (\<lambda>p. p = Syncing 0) \<subseteq> waiting (xBarrierEventGroup (the_barrier ?T))" using c x(2) by auto
    show "cnt (xThreadCountSemaphore (the_barrier ?T)) + card (at_pc ?T (\<lambda>p. p = Admitted)) +
        unat (uThreadCount (the_barrier ?T)) + r' = N" using sum by simp
    show "\<forall>i. bit (bits (xBarrierEventGroup (the_barrier ?T))) i \<longleftrightarrow> i \<in> set cur" using c by simp
    show "distinct cur" "length cur < N" using c by blast+
    show "to_give N ?T r'" using gv by blast
  qed
qed

lemma collecting_number:
  assumes c: "collecting cnt bits waiting N cur r S" and wf: "barrier_wf N S" and t: "bpc S t = Admitted"
  shows "collecting cnt bits waiting N cur r
    (S\<lparr>the_barrier := (the_barrier S)\<lparr>uThreadCount := uThreadCount (the_barrier S) + 1\<rparr>,
       bpc := (bpc S)(t := Numbered (uThreadCount (the_barrier S)))\<rparr>)"
proof -
  let ?u = "uThreadCount (the_barrier S)" and ?W = "waiting (xBarrierEventGroup (the_barrier S))"
  let ?b = "(the_barrier S)\<lparr>uThreadCount := ?u + 1\<rparr>"
  let ?T = "S\<lparr>the_barrier := ?b, bpc := (bpc S)(t := Numbered ?u)\<rparr>"
  note c = c[unfolded collecting_def Let_def]
  have sum: "cnt (xThreadCountSemaphore (the_barrier S)) + card (at_pc S (\<lambda>p. p = Admitted)) + unat ?u + r = N"
    and bij: "bij_betw (num_of S) (at_pc S is_held \<union> ?W) {0..<unat ?u}"
    and W: "?W \<subseteq> at_pc S is_sync" and cur: "set cur = num_of S ` ?W" using c by blast+
  have fin: "finite (at_pc S (\<lambda>p. p = Admitted))" using finite_at[OF wf] by simp
  then have pos: "card (at_pc S (\<lambda>p. p = Admitted)) = Suc (card (at_pc S (\<lambda>p. p = Admitted) - {t}))"
    using t by (intro card.remove) simp_all
  then have u: "unat (?u + 1) = unat ?u + 1"
    using sum wf by (simp add: barrier_wf_def unat_word_ariths)
  have tW: "t \<notin> ?W" using W t by auto
  have A: "t \<notin> at_pc S is_held \<union> ?W" using t tW by simp
  have "bij_betw (num_of ?T) (insert t (at_pc S is_held \<union> ?W)) (insert (unat ?u) {0..<unat ?u})"
  proof -
    have "bij_betw (num_of ?T) (at_pc S is_held \<union> ?W) {0..<unat ?u}"
      using bij bij_move(1)[OF A, where S = S and b = ?b and x = "Numbered ?u"] by simp
    then have "bij_betw (num_of ?T) ((at_pc S is_held \<union> ?W) \<union> {t}) ({0..<unat ?u} \<union> {num_of ?T t})"
      by (intro notIn_Un_bij_betw) (use A in simp_all)
    then show ?thesis by simp
  qed
  moreover have "insert (unat ?u) {0..<unat ?u} = {0..<unat ?u + 1}" by auto
  moreover have "at_pc ?T is_held \<union> ?W = insert t (at_pc S is_held \<union> ?W)" by simp
  ultimately have bij': "bij_betw (num_of ?T) (at_pc ?T is_held \<union> ?W) {0..<unat (?u + 1)}" using u by simp
  have g: "to_give N ?T r" using c t by (intro to_give_other) simp_all
  show ?thesis
    unfolding collecting_def Let_def
  proof (intro conjI)
    show "bij_betw (num_of ?T) (at_pc ?T is_held \<union> waiting (xBarrierEventGroup (the_barrier ?T))) {0..<unat (uThreadCount (the_barrier ?T))}"
      using bij' by simp
    show "set cur = num_of ?T ` waiting (xBarrierEventGroup (the_barrier ?T))"
      using cur bij_move(2)[OF tW, where S = S and b = ?b and x = "Numbered ?u"] by simp
    show "waiting (xBarrierEventGroup (the_barrier ?T)) \<subseteq> at_pc ?T is_sync" using W tW by auto
    show "at_pc ?T (\<lambda>p. p = Syncing 0) \<subseteq> waiting (xBarrierEventGroup (the_barrier ?T))" using c by auto
    show "cnt (xThreadCountSemaphore (the_barrier ?T)) + card (at_pc ?T (\<lambda>p. p = Admitted)) +
        unat (uThreadCount (the_barrier ?T)) + r = N" using sum u pos by simp
    show "\<forall>i. bit (bits (xBarrierEventGroup (the_barrier ?T))) i \<longleftrightarrow> i \<in> set cur" using c by simp
    show "distinct cur" "length cur < N" using c by blast+
  qed (rule g)
qed

text \<open>The arrival of a thread in the event group: the cycle goes on, or is complete.\<close>

lemma arrival:
  assumes c: "collecting cnt bits waiting N cur r S" and wf: "barrier_wf N S" and t: "bpc S t = Numbered n"
    and gk: "sync_group gk (push_bit N 1 - 1) bits waiting"
  defines "g \<equiv> gk_sync gk t (push_bit (unat n) 1) (push_bit N 1 - 1) (xBarrierEventGroup (the_barrier S))"
  defines "T \<equiv> S\<lparr>the_barrier := (the_barrier S)\<lparr>xBarrierEventGroup := g\<rparr>, bpc := (bpc S)(t := Syncing n)\<rparr>"
  shows "collecting cnt bits waiting N (cur @ [unat n]) r T \<and>
      waiting g = insert t (waiting (xBarrierEventGroup (the_barrier S))) \<or>
    released cnt bits waiting N T \<and> waiting g = {} \<and> length (cur @ [unat n]) = N \<and> set (cur @ [unat n]) = {0..<N}"
proof -
  let ?u = "unat (uThreadCount (the_barrier S))" and ?e = "xBarrierEventGroup (the_barrier S)"
  let ?W = "waiting ?e" and ?s = "push_bit (unat n) 1 :: 32 word" and ?w = "push_bit N 1 - 1 :: 32 word"
  let ?cur = "cur @ [unat n]"
  note c = c[unfolded collecting_def Let_def]
  have sum: "cnt (xThreadCountSemaphore (the_barrier S)) + card (at_pc S (\<lambda>p. p = Admitted)) + ?u + r = N"
    and bij: "bij_betw (num_of S) (at_pc S is_held \<union> ?W) {0..<?u}" and g0: "to_give N S r"
    and W: "?W \<subseteq> at_pc S is_sync" and cur: "set cur = num_of S ` ?W" "distinct cur" "length cur < N"
    and first: "at_pc S (\<lambda>p. p = Syncing 0) \<subseteq> ?W" and bt: "\<And>i. bit (bits ?e) i \<longleftrightarrow> i \<in> set cur"
    using c by blast+
  have N: "N \<le> 24" "0 < N" using wf by (simp_all add: barrier_wf_def)
  have tW: "t \<notin> ?W" using W t by auto
  have tA: "t \<in> at_pc S is_held \<union> ?W" using t by simp
  have inj: "inj_on (num_of S) (at_pc S is_held \<union> ?W)" using bij by (rule bij_betw_imp_inj_on)
  have "num_of S t \<in> {0..<?u}" using bij_betwE[OF bij] tA by blast
  then have n: "unat n < ?u" using t by simp
  have new: "unat n \<notin> set cur"
  proof
    assume "unat n \<in> set cur"
    then obtain v where v: "v \<in> ?W" "num_of S v = num_of S t" using cur(1) t by auto
    then have "v = t" using inj_onD[OF inj] tA by blast
    then show False using v tW by simp
  qed
  have num: "num_of T v = num_of S v" for v using t by (simp add: T_def)
  have d: "distinct ?cur" using cur new by simp
  have sub: "set ?cur \<subseteq> {0..<?u}" using bij_betw_imp_surj_on[OF bij] cur(1) n by auto
  have bit': "bit (bits ?e OR ?s) i \<longleftrightarrow> i \<in> set ?cur" for i
  proof -
    have "unat n < 32" using n sum N by linarith
    from bit_exp32[OF this, of i] show ?thesis using bt[of i] by (simp add: bit_or_iff disj_commute)
  qed
  have full: "(bits ?e OR ?s) AND ?w = ?w \<longleftrightarrow> {0..<N} \<subseteq> set ?cur"
  proof -
    have "(bits ?e OR ?s) AND ?w = ?w \<longleftrightarrow> (\<forall>i<N. bit (bits ?e OR ?s) i)"
      using N(1) by (simp only: mask_push) (rule mask_covered, simp)
    then show ?thesis using bit' by (simp add: subset_eq Ball_def)
  qed
  have len: "length ?cur = card (set ?cur)" using d by (simp only: distinct_card)
  show ?thesis
  proof (cases "{0..<N} \<subseteq> set ?cur")
    case False
    have gg: "bits g = bits ?e OR ?s" "waiting g = insert t ?W"
      using sync_groupD(5)[OF gk, of ?e ?s t] False full by (simp_all add: g_def)
    have short: "length ?cur < N"
    proof (rule ccontr)
      assume "\<not> length ?cur < N"
      then have "card {0..<N} \<le> card (set ?cur)" using len by simp
      moreover have "set ?cur \<subseteq> {0..<N}" using sub sum by auto
      ultimately have "set ?cur = {0..<N}" by (intro card_seteq) auto
      then show False using False by simp
    qed
    have A: "at_pc T is_held \<union> insert t ?W = at_pc S is_held \<union> ?W" using t by (auto simp: T_def)
    have "collecting cnt bits waiting N ?cur r T"
      unfolding collecting_def Let_def
    proof (intro conjI)
      show "to_give N T r" unfolding T_def using g0 t by (intro to_give_other) simp_all
      show "waiting (xBarrierEventGroup (the_barrier T)) \<subseteq> at_pc T is_sync" using W gg(2) by (auto simp: T_def)
      show "at_pc T (\<lambda>p. p = Syncing 0) \<subseteq> waiting (xBarrierEventGroup (the_barrier T))"
        using first gg(2) by (auto simp: T_def)
      show "cnt (xThreadCountSemaphore (the_barrier T)) + card (at_pc T (\<lambda>p. p = Admitted)) +
          unat (uThreadCount (the_barrier T)) + r = N" using sum t by (simp add: T_def)
      have "bij_betw (num_of T) (at_pc S is_held \<union> ?W) {0..<?u}" unfolding num using bij by simp
      then show "bij_betw (num_of T) (at_pc T is_held \<union> waiting (xBarrierEventGroup (the_barrier T)))
          {0..<unat (uThreadCount (the_barrier T))}"
        using A gg(2) by (simp add: T_def)
      show "set ?cur = num_of T ` waiting (xBarrierEventGroup (the_barrier T))"
        using cur(1) gg(2) num t by (auto simp: T_def)
      show "\<forall>i. bit (bits (xBarrierEventGroup (the_barrier T))) i \<longleftrightarrow> i \<in> set ?cur"
        using bit' gg(1) by (simp add: T_def)
    qed (rule d, rule short)
    then show ?thesis using gg(2) by blast
  next
    case True
    have u: "?u = N" "r = 0" "cnt (xThreadCountSemaphore (the_barrier S)) = 0" "card (at_pc S (\<lambda>p. p = Admitted)) = 0"
    proof -
      have "{0..<N} \<subseteq> {0..<?u}" using True sub by blast
      then have "N \<le> ?u" using card_mono[of "{0..<?u}" "{0..<N}"] by simp
      then show "?u = N" "r = 0" "cnt (xThreadCountSemaphore (the_barrier S)) = 0" "card (at_pc S (\<lambda>p. p = Admitted)) = 0"
        using sum by simp_all
    qed
    have s: "set ?cur = {0..<N}" using True sub u(1) by auto
    have gg: "bits g = (bits ?e OR ?s) AND NOT ?w" "waiting g = {}"
      using sync_groupD(4)[OF gk, of ?e ?s t] True full by (simp_all add: g_def)
    have member: "num_of S v \<in> num_of S ` ?W \<or> num_of S v = num_of S t" if "v \<in> at_pc S is_held \<union> ?W" for v
    proof -
      have "num_of S v \<in> {0..<?u}" using bij_betwE[OF bij] that by blast
      then have "num_of S v \<in> set ?cur" using s u(1) by simp
      then show ?thesis using cur(1) t by auto
    qed
    have held: "at_pc S is_held = {t}"
    proof -
      have "v = t" if v: "is_held (bpc S v)" for v
      proof -
        have vA: "v \<in> at_pc S is_held \<union> ?W" using v by simp
        have "\<not> num_of S v \<in> num_of S ` ?W"
        proof
          assume "num_of S v \<in> num_of S ` ?W"
          then obtain x where x: "x \<in> ?W" "num_of S v = num_of S x" by auto
          then have "v = x" using inj_onD[OF inj] vA by blast
          then show False using x W v by (cases "bpc S v") auto
        qed
        then show ?thesis using member[OF vA] inj_onD[OF inj _ vA tA] by blast
      qed
      then show ?thesis using t by (auto simp: at_pc_def)
    qed
    obtain v where v: "v \<in> at_pc S is_held \<union> ?W" "num_of S v = 0"
    proof -
      have "0 \<in> {0..<?u}" using N(2) u(1) by simp
      then have "0 \<in> num_of S ` (at_pc S is_held \<union> ?W)" by (simp only: bij_betw_imp_surj_on[OF bij])
      then show ?thesis using that by (elim imageE) metis
    qed
    have first': "at_pc T (\<lambda>p. p = Syncing 0) = {v}"
    proof -
      have "x = v" if "bpc T x = Syncing 0" for x
      proof -
        have "x \<in> at_pc S is_held \<union> ?W"
        proof (cases "x = t")
          case True
          then show ?thesis using tA by blast
        next
          case False
          then have "x \<in> at_pc S (\<lambda>p. p = Syncing 0)" using that by (simp add: T_def)
          then show ?thesis using first by blast
        qed
        moreover have "num_of S x = 0" using num[of x] that by simp
        ultimately show ?thesis using inj_onD[OF inj] v by metis
      qed
      moreover have "bpc T v = Syncing 0"
      proof (cases "v = t")
        case True
        then show ?thesis using v(2) t by (simp add: T_def unat_eq_zero)
      next
        case False
        then have "v \<in> ?W" using v(1) held by auto
        then have "is_sync (bpc S v)" using W by auto
        then show ?thesis using v(2) False by (cases "bpc S v") (simp_all add: T_def unat_eq_zero)
      qed
      ultimately show ?thesis unfolding at_pc_def by blast
    qed
    have "released cnt bits waiting N T"
      unfolding released_def Let_def
    proof (intro conjI)
      have "\<not> giving N (bpc S x)" for x using g0 u(2) by (intro to_give_zero) simp
      then show "at_pc T (giving N) = {}" by (auto simp: at_pc_def T_def)
      show "waiting (xBarrierEventGroup (the_barrier T)) = {}" using gg by (simp add: T_def)
      have "\<forall>i. bit (bits ?e OR ?s) i \<longrightarrow> i < N"
      proof (intro allI impI)
        fix i assume "bit (bits ?e OR ?s) i"
        then have "i \<in> {0..<N}" using bit'[of i] by (simp only: s)
        then show "i < N" by simp
      qed
      then have "bits g = 0" using gg(1) mask_cleared by (simp only: mask_push)
      then show "bits (xBarrierEventGroup (the_barrier T)) = 0" by (simp add: T_def)
      show "\<exists>t. at_pc T (\<lambda>p. p = Syncing 0) = {t}" using first' by blast
      show "cnt (xThreadCountSemaphore (the_barrier T)) = 0" "unat (uThreadCount (the_barrier T)) = N"
        using u by (simp_all add: T_def)
      have "finite (at_pc S (\<lambda>p. p = Admitted))" using finite_at[OF wf] by simp
      then show "at_pc T (\<lambda>p. p = Admitted) = {}" using u(4) by (simp add: T_def)
      show "at_pc T is_held = {}" using held by (simp add: T_def)
    qed
    moreover have "length ?cur = N" using len s by simp
    ultimately show ?thesis using gg(2) s by blast
  qed
qed

section \<open>Cycles\<close>

text \<open>What a run shows: the numbers of the arriving threads, the threads that were let through, the
  results.\<close>

fun arrival_number :: "barrier_event \<Rightarrow> nat list" where
  "arrival_number (B_sync t n) = [unat n]" | "arrival_number _ = []"

definition arrivals :: "barrier_event list \<Rightarrow> nat list" where
  "arrivals ls = concat (map arrival_number ls)"

fun is_through :: "barrier_event \<Rightarrow> bool" where
  "is_through (B_reset t) = True" | "is_through (B_return t r) = (r = 0)" | "is_through _ = False"

fun is_reset :: "barrier_event \<Rightarrow> bool" where
  "is_reset (B_reset t) = True" | "is_reset _ = False"

fun is_return :: "barrier_event \<Rightarrow> bool" where
  "is_return (B_return t r) = True" | "is_return _ = False"

fun is_serial :: "barrier_event \<Rightarrow> bool" where
  "is_serial (B_return t r) = (r = PTHREAD_BARRIER_SERIAL_THREAD)" | "is_serial _ = False"

text \<open>\<open>gs\<close> are the complete groups of \<open>N\<close> numbers so far, \<open>cur\<close> the numbers of the group that
  collects.\<close>

definition barrier_ok ::
  "('k \<Rightarrow> nat) \<Rightarrow> ('e \<Rightarrow> 32 word) \<Rightarrow> ('e \<Rightarrow> nat set) \<Rightarrow> nat \<Rightarrow> barrier_event list \<Rightarrow> nat list list \<Rightarrow> nat list
   \<Rightarrow> ('k, 'e) barrier_sys \<Rightarrow> bool"
where
  "barrier_ok cnt bits waiting N ls gs cur S \<longleftrightarrow> barrier_wf N S \<and>
    arrivals ls = concat gs @ cur \<and> (\<forall>g\<in>set gs. length g = N \<and> set g = {0..<N}) \<and>
    N * length gs = count_if is_through ls + card (at_pc S is_sync - waiting (xBarrierEventGroup (the_barrier S))) \<and>
    count_if is_reset ls = count_if is_serial ls + card (at_pc S is_giving) \<and>
    ((\<exists>r. collecting cnt bits waiting N cur r S) \<and> length gs = count_if is_reset ls \<or>
     released cnt bits waiting N S \<and> cur = [] \<and> length gs = Suc (count_if is_reset ls))"

text \<open>The first thread of a complete cycle opens the next one.\<close>

lemma reset_ok:
  assumes c: "released cnt bits waiting N S" and wf: "barrier_wf N S" and t: "bpc S t = Syncing 0"
  shows "collecting cnt bits waiting N [] N
    (S\<lparr>the_barrier := (the_barrier S)\<lparr>uThreadCount := 0\<rparr>, bpc := (bpc S)(t := Giving 0)\<rparr>)"
proof -
  let ?T = "S\<lparr>the_barrier := (the_barrier S)\<lparr>uThreadCount := 0\<rparr>, bpc := (bpc S)(t := Giving 0)\<rparr>"
  note c = c[unfolded released_def Let_def]
  have N: "0 < N" using wf by (simp add: barrier_wf_def)
  from c obtain v where v: "at_pc S (\<lambda>p. p = Syncing 0) = {v}" by blast
  have "t \<in> at_pc S (\<lambda>p. p = Syncing 0)" using t by simp
  with v have first: "at_pc S (\<lambda>p. p = Syncing 0) = {t}" by (metis singletonD)
  have none: "\<not> giving N (bpc S s)" for s
  proof -
    have "s \<notin> at_pc S (giving N)" using c by blast
    then show ?thesis by simp
  qed
  have g: "to_give N ?T N"
    unfolding to_give_def
  proof (rule disjI2, rule exI[of _ t], rule exI[of _ 0], intro conjI allI)
    fix s show "giving N (bpc ?T s) \<longleftrightarrow> s = t" using none[of s] N by (cases "s = t") simp_all
  qed simp_all
  show ?thesis
    unfolding collecting_def Let_def
  proof (intro conjI)
    show "at_pc ?T (\<lambda>p. p = Syncing 0) \<subseteq> waiting (xBarrierEventGroup (the_barrier ?T))" using first by simp
    show "waiting (xBarrierEventGroup (the_barrier ?T)) \<subseteq> at_pc ?T is_sync" using c by simp
    show "cnt (xThreadCountSemaphore (the_barrier ?T)) + card (at_pc ?T (\<lambda>p. p = Admitted)) +
        unat (uThreadCount (the_barrier ?T)) + N = N" using c by simp
    have "at_pc ?T is_held = {}" using c by simp
    then show "bij_betw (num_of ?T) (at_pc ?T is_held \<union> waiting (xBarrierEventGroup (the_barrier ?T)))
        {0..<unat (uThreadCount (the_barrier ?T))}" using c by (simp add: bij_betw_def)
    show "\<forall>i. bit (bits (xBarrierEventGroup (the_barrier ?T))) i \<longleftrightarrow> i \<in> set []" using c by simp
    show "set [] = num_of ?T ` waiting (xBarrierEventGroup (the_barrier ?T))" using c by simp
  qed (use g N in simp_all)
qed

text \<open>A complete cycle is not disturbed by threads that call or leave.\<close>

lemma released_move:
  assumes c: "released cnt bits waiting N S"
    and t: "\<not> is_held (bpc S t)" "bpc S t \<noteq> Syncing 0" "\<not> is_held x" "\<not> is_sync x" "x \<noteq> Admitted" "\<not> giving N x"
  shows "released cnt bits waiting N (S\<lparr>bpc := (bpc S)(t := x)\<rparr>)"
proof -
  note c = c[unfolded released_def Let_def]
  from c obtain v where v: "at_pc S (\<lambda>p. p = Syncing 0) = {v}" by blast
  have "x \<noteq> Syncing 0" using t(4) by auto
  moreover have "v \<noteq> t"
  proof -
    have "v \<in> at_pc S (\<lambda>p. p = Syncing 0)" by (simp only: v insert_iff simp_thms)
    then show ?thesis using t(2) by auto
  qed
  ultimately have "at_pc (S\<lparr>bpc := (bpc S)(t := x)\<rparr>) (\<lambda>p. p = Syncing 0) = {v}" using v by simp
  then show ?thesis unfolding released_def Let_def using c t by simp
qed

lemma arrivals_snoc: "arrivals (ls @ [ev]) = arrivals ls @ arrival_number ev"
  by (simp add: arrivals_def)

text \<open>The counts that a move changes: threads that were let through but have not left, and threads that
  give the semaphore.\<close>

lemma card_at_move:
  assumes "finite (at_pc S P)"
  shows "card (at_pc (S\<lparr>the_barrier := b, bpc := (bpc S)(t := x)\<rparr>) P) + (if P (bpc S t) then 1 else 0) =
    card (at_pc S P) + (if P x then 1 else 0)"
proof (cases "P (bpc S t)")
  case True
  then have "t \<in> at_pc S P" by simp
  then have "0 < card (at_pc S P)" "insert t (at_pc S P) = at_pc S P" "card (at_pc S P - {t}) = card (at_pc S P) - 1"
    using assms by (auto simp: card_gt_0_iff)
  then show ?thesis using True by simp
next
  case False
  then have "t \<notin> at_pc S P" "at_pc S P - {t} = at_pc S P" by auto
  then show ?thesis using False assms by simp
qed

lemma card_through_move:
  assumes "finite (at_pc S is_sync)" "t \<notin> W"
  shows "card (at_pc (S\<lparr>the_barrier := b, bpc := (bpc S)(t := x)\<rparr>) is_sync - W) + (if is_sync (bpc S t) then 1 else 0) =
    card (at_pc S is_sync - W) + (if is_sync x then 1 else 0)"
proof -
  let ?A = "at_pc S is_sync - W"
  have T: "at_pc (S\<lparr>the_barrier := b, bpc := (bpc S)(t := x)\<rparr>) is_sync - W = (if is_sync x then insert t ?A else ?A - {t})"
    using assms(2) by auto
  show ?thesis
  proof (cases "is_sync (bpc S t)")
    case True
    then have "t \<in> ?A" using assms(2) by simp
    then have "0 < card ?A" "insert t ?A = ?A" "card (?A - {t}) = card ?A - 1"
      using assms by (auto simp: card_gt_0_iff)
    then show ?thesis unfolding T using True by simp
  next
    case False
    then have "t \<notin> ?A" "?A - {t} = ?A" "finite ?A" using assms(1) by auto
    then show ?thesis unfolding T using False by simp
  qed
qed

text \<open>A move that does not touch the event group nor complete or open a cycle.\<close>

lemma ok_move:
  fixes S :: "('k, 'e) barrier_sys"
  assumes ok: "barrier_ok cnt bits waiting N ls gs cur S" and wf: "barrier_wf N T"
    and T: "T = S\<lparr>the_barrier := b, bpc := (bpc S)(t := x)\<rparr>" "xBarrierEventGroup b = xBarrierEventGroup (the_barrier S)"
    and ev: "arrival_number ev = []" "\<not> is_reset ev" "t \<notin> waiting (xBarrierEventGroup (the_barrier S))"
    and th: "(if is_through ev then 1 else (0::nat)) + (if is_sync x then 1 else 0) = (if is_sync (bpc S t) then 1 else 0)"
    and se: "(if is_serial ev then 1 else (0::nat)) + (if is_giving x then 1 else 0) = (if is_giving (bpc S t) then 1 else 0)"
    and phase: "\<And>r. collecting cnt bits waiting N cur r S \<Longrightarrow> \<exists>r. collecting cnt bits waiting N cur r T"
      "released cnt bits waiting N S \<Longrightarrow> released cnt bits waiting N T"
  shows "barrier_ok cnt bits waiting N (ls @ [ev]) gs cur T"
proof -
  note o = ok[unfolded barrier_ok_def]
  let ?W = "waiting (xBarrierEventGroup (the_barrier S))"
  have wfS: "barrier_wf N S" using o by blast
  have f: "finite (at_pc S is_sync)" "finite (at_pc S is_giving)" using finite_at[OF wfS] by simp_all
  have W: "waiting (xBarrierEventGroup (the_barrier T)) = ?W" using T by simp
  have o1: "N * length gs = count_if is_through ls + card (at_pc S is_sync - ?W)"
    "count_if is_reset ls = count_if is_serial ls + card (at_pc S is_giving)" using o by blast+
  have c1: "card (at_pc T is_sync - ?W) + (if is_sync (bpc S t) then 1 else 0) = card (at_pc S is_sync - ?W) + (if is_sync x then 1 else 0)"
    unfolding T(1) by (rule card_through_move[OF f(1) ev(3)])
  have c2: "card (at_pc T is_giving) + (if is_giving (bpc S t) then 1 else 0) = card (at_pc S is_giving) + (if is_giving x then 1 else 0)"
    unfolding T(1) by (rule card_at_move[OF f(2)])
  have 1: "N * length gs = count_if is_through (ls @ [ev]) + card (at_pc T is_sync - waiting (xBarrierEventGroup (the_barrier T)))"
    using o1(1) c1 th by (simp add: W)
  have 2: "count_if is_reset (ls @ [ev]) = count_if is_serial (ls @ [ev]) + card (at_pc T is_giving)"
    using o1(2) c2 se ev(2) by simp
  have 3: "(\<exists>r. collecting cnt bits waiting N cur r T) \<and> length gs = count_if is_reset (ls @ [ev]) \<or>
     released cnt bits waiting N T \<and> cur = [] \<and> length gs = Suc (count_if is_reset (ls @ [ev]))"
    using o phase ev(2) by auto
  have 4: "arrivals (ls @ [ev]) = concat gs @ cur" using o ev(1) by (simp add: arrivals_snoc)
  show ?thesis unfolding barrier_ok_def using wf 1 2 3 4 o by blast
qed

lemma collecting_plain:
  assumes c: "collecting cnt bits waiting N cur r S" and t: "\<not> is_held (bpc S t)" "t \<notin> waiting (xBarrierEventGroup (the_barrier S))"
    and x: "\<not> is_held x" "\<not> is_sync x" "\<not> giving N (bpc S t)" "\<not> giving N x" "bpc S t \<noteq> Admitted" "x \<noteq> Admitted"
  shows "\<exists>r. collecting cnt bits waiting N cur r (S\<lparr>bpc := (bpc S)(t := x)\<rparr>)"
proof -
  have "\<exists>r. collecting cnt bits waiting N cur r
    (S\<lparr>the_barrier := (the_barrier S)\<lparr>xThreadCountSemaphore := xThreadCountSemaphore (the_barrier S)\<rparr>, bpc := (bpc S)(t := x)\<rparr>)"
    by (rule collecting_move[OF c t x(1,2)]) (use x(3-) in simp_all)
  then show ?thesis by simp
qed

lemma waiting_is_sync:
  assumes "barrier_ok cnt bits waiting N ls gs cur S" "t \<in> waiting (xBarrierEventGroup (the_barrier S))"
  shows "is_sync (bpc S t)"
  using assms unfolding barrier_ok_def collecting_def released_def Let_def by auto

lemma barrier_step_ok:
  fixes S :: "('k, 'e) barrier_sys"
  assumes ks: "counting_upto N ks cnt" and gk: "sync_group gk (push_bit N 1 - 1) bits waiting"
    and ok: "barrier_ok cnt bits waiting N ls gs cur S" and step: "barrier_step ks gk S ev T"
  shows "\<exists>gs cur. barrier_ok cnt bits waiting N (ls @ [ev]) gs cur T"
proof -
  note o = ok[unfolded barrier_ok_def]
  let ?W = "waiting (xBarrierEventGroup (the_barrier S))"
  have wf: "barrier_wf N S" using o by blast
  have wfT: "barrier_wf N T" by (rule barrier_wf_step[OF wf step])
  have thr: "unat (uThreshold (the_barrier S)) = N" "0 < N" using wf by (simp_all add: barrier_wf_def)
  have W: "\<not> is_sync (bpc S t) \<Longrightarrow> t \<notin> ?W" for t using waiting_is_sync[OF ok] by blast
  have rel: "\<not> released cnt bits waiting N S" if "is_held (bpc S t) \<or> bpc S t = Admitted \<or> giving N (bpc S t)" for t
  proof -
    have "t \<in> at_pc S is_held \<or> t \<in> at_pc S (\<lambda>p. p = Admitted) \<or> t \<in> at_pc S (giving N)" using that by simp
    then show ?thesis unfolding released_def Let_def by blast
  qed
  have first: "\<not> collecting cnt bits waiting N cur r S" if "bpc S t = Syncing 0" "t \<notin> ?W" for t r
  proof
    assume "collecting cnt bits waiting N cur r S"
    then have "at_pc S (\<lambda>p. p = Syncing 0) \<subseteq> ?W" unfolding collecting_def Let_def by blast
    moreover have "t \<in> at_pc S (\<lambda>p. p = Syncing 0)" using that(1) by simp
    ultimately show False using that(2) by blast
  qed
  show ?thesis
    using step
  proof cases
    case (b_call t)
    have T: "T = S\<lparr>the_barrier := the_barrier S, bpc := (bpc S)(t := Calling)\<rparr>" using b_call by simp
    have "barrier_ok cnt bits waiting N (ls @ [ev]) gs cur T"
      by (rule ok_move[OF ok wfT T])
         (use b_call W[of t] in \<open>auto intro!: collecting_plain released_move\<close>)
    then show ?thesis by blast
  next
    case (b_leave t n)
    then have tW: "t \<notin> ?W" using sync_groupD(3)[OF gk] by blast
    have T: "T = S\<lparr>the_barrier := the_barrier S, bpc := (bpc S)(t := Outside)\<rparr>" using b_leave by simp
    have "barrier_ok cnt bits waiting N (ls @ [ev]) gs cur T"
      by (rule ok_move[OF ok wfT T])
         (use b_leave tW in \<open>auto intro!: collecting_plain released_move\<close>)
    then show ?thesis by blast
  next
    case (b_serial t i)
    have T: "T = S\<lparr>the_barrier := the_barrier S, bpc := (bpc S)(t := Outside)\<rparr>" using b_serial by simp
    have "barrier_ok cnt bits waiting N (ls @ [ev]) gs cur T"
      by (rule ok_move[OF ok wfT T])
         (use b_serial W[of t] thr in \<open>auto intro!: collecting_plain released_move\<close>)
    then show ?thesis by blast
  next
    case (b_take t k)
    have k: "cnt k + 1 = cnt (xThreadCountSemaphore (the_barrier S))"
      using counting_kernelD(4)[OF ks b_take(4)] by simp
    have nr: "\<not> released cnt bits waiting N S" using k unfolding released_def Let_def by simp
    have "barrier_ok cnt bits waiting N (ls @ [ev]) gs cur T"
    proof (rule ok_move[OF ok wfT b_take(2)])
      fix r assume "collecting cnt bits waiting N cur r S"
      then show "\<exists>r. collecting cnt bits waiting N cur r T"
        unfolding b_take(2)
        by (rule collecting_move) (use b_take(3) W[of t] k finite_at[OF wf] in simp_all)
    qed (use b_take W[of t] nr in auto)
    then show ?thesis by blast
  next
    case (b_give t i)
    have iN: "i < N" using b_give(4) thr by simp
    have "barrier_ok cnt bits waiting N (ls @ [ev]) gs cur T"
    proof (rule ok_move[OF ok wfT b_give(2)])
      fix r assume c: "collecting cnt bits waiting N cur r S"
      have "to_give N S r" "cnt (xThreadCountSemaphore (the_barrier S)) + r \<le> N"
        using c unfolding collecting_def Let_def by auto
      then have k: "cnt (sk_give ks (xThreadCountSemaphore (the_barrier S))) = cnt (xThreadCountSemaphore (the_barrier S)) + 1"
      proof -
        have "0 < r" using to_give_next[OF b_give(3) iN \<open>to_give N S r\<close>] by blast
        then show ?thesis
          using counting_kernelD(2)[OF ks, of "xThreadCountSemaphore (the_barrier S)"]
            \<open>cnt (xThreadCountSemaphore (the_barrier S)) + r \<le> N\<close> by simp
      qed
      from c show "\<exists>r. collecting cnt bits waiting N cur r T"
        unfolding b_give(2)
        by (rule collecting_move) (use b_give(3) iN W[of t] k in simp_all)
    qed (use b_give W[of t] rel[of t] iN in auto)
    then show ?thesis by blast
  next
    case (b_number t n)
    have "barrier_ok cnt bits waiting N (ls @ [ev]) gs cur T"
    proof (rule ok_move[OF ok wfT b_number(2)])
      fix r assume "collecting cnt bits waiting N cur r S"
      then show "\<exists>r. collecting cnt bits waiting N cur r T"
        using collecting_number[OF _ wf b_number(3)] b_number(2,4) by blast
    qed (use b_number W[of t] rel[of t] in auto)
    then show ?thesis by blast
  next
    case (b_sync t n)
    let ?g = "gk_sync gk t (push_bit (unat n) 1) (push_bit N 1 - 1) (xBarrierEventGroup (the_barrier S))"
    have T: "T = S\<lparr>the_barrier := (the_barrier S)\<lparr>xBarrierEventGroup := ?g\<rparr>, bpc := (bpc S)(t := Syncing n)\<rparr>"
      using b_sync(2) thr by simp
    obtain r where c: "collecting cnt bits waiting N cur r S" and lg: "length gs = count_if is_reset ls"
      using o rel[of t] b_sync(3) by auto
    have WT: "waiting (xBarrierEventGroup (the_barrier T)) = waiting ?g" by (simp add: T)
    have at: "at_pc T is_sync = insert t (at_pc S is_sync)" "at_pc T is_giving = at_pc S is_giving" "t \<notin> at_pc S is_sync"
      using b_sync(3) by (auto simp: T)
    have o1: "arrivals ls = concat gs @ cur" "\<forall>g\<in>set gs. length g = N \<and> set g = {0..<N}"
      "N * length gs = count_if is_through ls + card (at_pc S is_sync - ?W)"
      "count_if is_reset ls = count_if is_serial ls + card (at_pc S is_giving)" using o by blast+
    have fin: "finite (at_pc S is_sync)" using finite_at[OF wf] by simp
    have nr: "count_if is_reset (ls @ [ev]) = count_if is_reset ls" "count_if is_through (ls @ [ev]) = count_if is_through ls"
      "count_if is_serial (ls @ [ev]) = count_if is_serial ls" "arrival_number ev = [unat n]" using b_sync(1) by simp_all
    show ?thesis
      using arrival[OF c wf b_sync(3) gk]
    proof (elim disjE conjE)
      assume a: "collecting cnt bits waiting N (cur @ [unat n]) r
          (S\<lparr>the_barrier := (the_barrier S)\<lparr>xBarrierEventGroup := ?g\<rparr>, bpc := (bpc S)(t := Syncing n)\<rparr>)"
        "waiting ?g = insert t ?W"
      have "at_pc T is_sync - waiting (xBarrierEventGroup (the_barrier T)) = at_pc S is_sync - ?W"
        using at a(2) by (auto simp: WT)
      then have "barrier_ok cnt bits waiting N (ls @ [ev]) gs (cur @ [unat n]) T"
        unfolding barrier_ok_def using wfT o1 a(1) at(2) nr lg T by (simp add: arrivals_snoc) blast
      then show ?thesis by blast
    next
      assume a: "released cnt bits waiting N
          (S\<lparr>the_barrier := (the_barrier S)\<lparr>xBarrierEventGroup := ?g\<rparr>, bpc := (bpc S)(t := Syncing n)\<rparr>)"
        "waiting ?g = {}" "length (cur @ [unat n]) = N" "set (cur @ [unat n]) = {0..<N}"
      have W': "?W \<subseteq> at_pc S is_sync" and cw: "card ?W = length cur"
      proof -
        have c': "?W \<subseteq> at_pc S is_sync" "set cur = num_of S ` ?W" "distinct cur"
          "bij_betw (num_of S) (at_pc S is_held \<union> ?W) {0..<unat (uThreadCount (the_barrier S))}"
          using c unfolding collecting_def Let_def by blast+
        have "inj_on (num_of S) ?W" using bij_betw_imp_inj_on[OF c'(4)] by (rule inj_on_subset) blast
        then show "card ?W = length cur" using c'(2,3) by (metis card_image distinct_card)
        show "?W \<subseteq> at_pc S is_sync" by (rule c'(1))
      qed
      have "card (at_pc S is_sync - ?W) + card ?W = card (at_pc S is_sync)"
        using W' fin by (simp add: card_Diff_subset finite_subset card_mono)
      then have "card (at_pc T is_sync - waiting (xBarrierEventGroup (the_barrier T))) = card (at_pc S is_sync - ?W) + N"
        using at(1,3) a(2,3) fin cw by (simp add: WT)
      then have "barrier_ok cnt bits waiting N (ls @ [ev]) (gs @ [cur @ [unat n]]) [] T"
        unfolding barrier_ok_def using wfT o1 a at(2) nr lg T by (simp add: arrivals_snoc)
      then show ?thesis by blast
    qed
  next
    case (b_reset t n)
    have tW: "t \<notin> ?W" using b_reset(4) sync_groupD(3)[OF gk] by blast
    have t0: "bpc S t = Syncing 0" using b_reset(3,5) by simp
    have c: "released cnt bits waiting N S" "cur = []" "length gs = Suc (count_if is_reset ls)"
      using o first[OF t0 tW] by blast+
    have fin: "finite (at_pc S is_sync)" "finite (at_pc S is_giving)" using finite_at[OF wf] by simp_all
    let ?b = "(the_barrier S)\<lparr>uThreadCount := 0\<rparr>"
    have T: "T = S\<lparr>the_barrier := ?b, bpc := (bpc S)(t := Giving 0)\<rparr>" using b_reset(2) by simp
    have o1: "arrivals ls = concat gs" "\<forall>g\<in>set gs. length g = N \<and> set g = {0..<N}"
      "N * length gs = count_if is_through ls + card (at_pc S is_sync - ?W)"
      "count_if is_reset ls = count_if is_serial ls + card (at_pc S is_giving)" using o c by auto
    have "card (at_pc T is_sync - ?W) + 1 = card (at_pc S is_sync - ?W)"
      using card_through_move[OF fin(1) tW, where b = ?b and x = "Giving 0"] t0 by (simp add: T)
    moreover have "card (at_pc T is_giving) = card (at_pc S is_giving) + 1"
      using card_at_move[OF fin(2), where b = ?b and t = t and x = "Giving 0"] t0 by (simp add: T)
    moreover have "waiting (xBarrierEventGroup (the_barrier T)) = ?W" by (simp add: T)
    moreover have "collecting cnt bits waiting N [] N T" using reset_ok[OF c(1) wf t0] by (simp add: T)
    ultimately have "barrier_ok cnt bits waiting N (ls @ [ev]) gs [] T"
      unfolding barrier_ok_def using wfT o1 c(3) b_reset(1) by (auto simp: arrivals_snoc)
    then show ?thesis by blast
  qed
qed

text \<open>A barrier after \<open>pthread\<open>_\<close>barrier\<open>_\<close>init\<close> that no thread has entered.\<close>

definition barrier_start :: "('k, 'e) barrier \<Rightarrow> ('k, 'e) barrier_sys" where
  "barrier_start b = \<lparr>the_barrier = b, bpc = (\<lambda>_. Outside)\<rparr>"

lemma barrier_start_ok:
  assumes init: "pthread_barrier_init ks gk count b0 = (0, b)"
    and ks: "counting_upto (unat count) ks cnt" and gk: "sync_group gk (push_bit (unat count) 1 - 1) bits waiting"
  shows "barrier_ok cnt bits waiting (unat count) [] [] [] (barrier_start b)"
proof -
  have b: "b = b0\<lparr>uThreadCount := 0, uThreshold := count,
      xThreadCountSemaphore := sk_create ks (unat count) (unat count), xBarrierEventGroup := gk_create gk\<rparr>"
    and n: "0 < unat count" "unat count \<le> 24"
    using init by (auto simp: pthread_barrier_init_def unat_gt_0 split: if_splits)
  have k: "cnt (sk_create ks (unat count) (unat count)) = unat count" by (rule counting_kernelD(1)[OF ks]) simp
  have "collecting cnt bits waiting (unat count) [] 0 (barrier_start b)"
    using k n sync_groupD(1,2)[OF gk]
    by (simp add: collecting_def to_give_def barrier_start_def at_pc_def b bij_betw_def)
  moreover have "barrier_wf (unat count) (barrier_start b)"
    using n by (simp add: barrier_wf_def barrier_start_def at_pc_def b)
  ultimately show ?thesis
    by (auto simp: barrier_ok_def arrivals_def) (simp_all add: barrier_start_def at_pc_def)
qed

lemma barrier_run_ok:
  assumes init: "pthread_barrier_init ks gk count b0 = (0, b)"
    and ks: "counting_upto (unat count) ks cnt" and gk: "sync_group gk (push_bit (unat count) 1 - 1) bits waiting"
    and run: "barrier_run ks gk (barrier_start b) ls T"
  obtains gs cur where "barrier_ok cnt bits waiting (unat count) ls gs cur T"
proof -
  have "\<exists>gs cur. barrier_ok cnt bits waiting (unat count) ls gs cur T"
    using run
  proof (induction rule: barrier_run.induct)
    case barrier_nil
    then show ?case using barrier_start_ok[OF init ks gk] by blast
  next
    case (barrier_snoc ls T ev U)
    then show ?case using barrier_step_ok[OF ks gk] by blast
  qed
  then show ?thesis using that by blast
qed

lemma returns_balance:
  "barrier_run ks gk S ls T \<Longrightarrow>
   count_if is_return ls + count_if is_reset ls = count_if is_through ls + count_if is_serial ls"
proof (induction rule: barrier_run.induct)
  case (barrier_snoc ls T ev U)
  from barrier_snoc.hyps(2) show ?case by cases (use barrier_snoc.IH in simp_all)
qed simp

lemma chunk:
  assumes "\<forall>g\<in>set gs. length g = N" "k < length gs"
  shows "take N (drop (k * N) (concat gs @ ys)) = gs ! k"
  using assms
proof (induction gs arbitrary: k)
  case (Cons g gs)
  then show ?case by (cases k) simp_all
qed simp

lemma length_groups: "\<forall>g\<in>set gs. length g = N \<Longrightarrow> length (concat gs) = N * length gs"
  by (induction gs) simp_all

lemma cur_short: "barrier_ok cnt bits waiting N ls gs cur S \<Longrightarrow> length cur < N"
  by (auto simp: barrier_ok_def collecting_def barrier_wf_def Let_def)

text \<open>C7: In every interleaving the threads come through the barrier in groups of the threshold: the
  arrivals of each complete group carry the numbers below the threshold, once each; no more
  threads come through than complete groups have members; and when no thread is left inside, all
  groups are complete, every arrival has returned, and exactly one thread of each group got
  \<open>PTHREAD\<open>_\<close>BARRIER\<open>_\<close>SERIAL\<open>_\<close>THREAD\<close>.\<close>

theorem barrier_cycles:
  assumes init: "pthread_barrier_init ks gk count b0 = (0, b)" and N: "N = unat count"
    and ks: "counting_upto N ks cnt" and gk: "sync_group gk (push_bit N 1 - 1) bits waiting"
    and run: "barrier_run ks gk (barrier_start b) ls T"
  shows "(\<forall>k<length (arrivals ls) div N. set (take N (drop (k * N) (arrivals ls))) = {0..<N}) \<and>
    count_if is_through ls \<le> N * (length (arrivals ls) div N) \<and>
    ((\<forall>t. bpc T t = Outside) \<longrightarrow> length (arrivals ls) = N * count_if is_serial ls \<and>
      count_if is_return ls = length (arrivals ls))"
proof -
  obtain gs cur where ok: "barrier_ok cnt bits waiting N ls gs cur T"
    using barrier_run_ok[OF init _ _ run] ks gk N by metis
  note o = ok[unfolded barrier_ok_def]
  have gs: "\<forall>g\<in>set gs. length g = N" "arrivals ls = concat gs @ cur" using o by blast+
  have len: "length (arrivals ls) = N * length gs + length cur" using length_groups[OF gs(1)] gs(2) by simp
  have N0: "0 < N" using o by (simp add: barrier_wf_def)
  have d: "length (arrivals ls) div N = length gs" using len cur_short[OF ok] N0 by simp
  have a: "set (take N (drop (k * N) (arrivals ls))) = {0..<N}" if "k < length gs" for k
    using chunk[OF gs(1) that, of cur] o that by (simp add: gs(2))
  have b: "count_if is_through ls \<le> N * length gs" using o by simp
  have "length (arrivals ls) = N * count_if is_serial ls \<and> count_if is_return ls = length (arrivals ls)"
    if out: "\<forall>t. bpc T t = Outside"
  proof -
    have e: "at_pc T P = {}" if "\<not> P Outside" for P using out that by (simp add: at_pc_def)
    have "at_pc T (\<lambda>p. p = Syncing 0) = {}" by (rule e) simp
    then have "\<not> released cnt bits waiting N T" unfolding released_def Let_def by (metis insert_not_empty)
    then obtain r where c: "collecting cnt bits waiting N cur r T" and lg: "length gs = count_if is_reset ls" using o by blast
    have sy: "at_pc T is_sync = {}" "at_pc T is_giving = {}" by (rule e, simp)+
    have "set cur = num_of T ` waiting (xBarrierEventGroup (the_barrier T))"
      "waiting (xBarrierEventGroup (the_barrier T)) \<subseteq> at_pc T is_sync" using c unfolding collecting_def Let_def by blast+
    then have "cur = []" using sy by simp
    moreover have "count_if is_reset ls = count_if is_serial ls" "N * length gs = count_if is_through ls"
      using o sy by auto
    ultimately show ?thesis using len lg returns_balance[OF run] by simp
  qed
  then show ?thesis using a b d by simp
qed

section \<open>Progress\<close>

text \<open>The thread that makes a step.\<close>

fun barrier_thread :: "barrier_event \<Rightarrow> nat" where
  "barrier_thread (B_call t) = t" | "barrier_thread (B_take t) = t" | "barrier_thread (B_number t) = t"
| "barrier_thread (B_sync t n) = t" | "barrier_thread (B_reset t) = t" | "barrier_thread (B_give t) = t"
| "barrier_thread (B_return t r) = t"

text \<open>C30: As long as at least as many threads as the threshold are inside \<open>pthread\<open>_\<close>barrier\<open>_\<close>wait\<close>, one
  of them can go on: the barrier never blocks a complete group.\<close>

theorem barrier_progress:
  assumes init: "pthread_barrier_init ks gk count b0 = (0, b)" and N: "N = unat count"
    and ks: "counting_upto N ks cnt" and gk: "sync_group gk (push_bit N 1 - 1) bits waiting"
    and run: "barrier_run ks gk (barrier_start b) ls T"
    and many: "N \<le> card {t. bpc T t \<noteq> Outside}"
  shows "\<exists>ev U. barrier_step ks gk T ev U \<and> bpc T (barrier_thread ev) \<noteq> Outside"
proof (rule ccontr)
  assume stuck: "\<not> (\<exists>ev U. barrier_step ks gk T ev U \<and> bpc T (barrier_thread ev) \<noteq> Outside)"
  let ?W = "waiting (xBarrierEventGroup (the_barrier T))"
  obtain gs cur where ok: "barrier_ok cnt bits waiting N ls gs cur T"
    using barrier_run_ok[OF init _ _ run] ks gk N by metis
  have no: "\<not> barrier_step ks gk T ev U" if "bpc T (barrier_thread ev) \<noteq> Outside" for ev U using stuck that by blast
  have pc: "bpc T t = Outside \<or> bpc T t = Calling \<or> t \<in> ?W" for t
  proof (cases "bpc T t")
    case Admitted
    then show ?thesis using no[of "B_number t"] b_number[OF Admitted refl, of ks gk] by simp
  next
    case (Numbered n)
    then show ?thesis using no[of "B_sync t n"] b_sync[OF Numbered, of ks gk] by simp
  next
    case (Giving i)
    then show ?thesis
      using no[of "B_give t"] no[of "B_return t PTHREAD_BARRIER_SERIAL_THREAD"] b_give[OF Giving] b_serial[OF Giving] by fastforce
  next
    case (Syncing n)
    then show ?thesis
      using no[of "B_return t 0"] no[of "B_reset t"] b_leave[OF Syncing] b_reset[OF Syncing] sync_groupD(3)[OF gk]
      by fastforce
  qed simp_all
  have q: "bpc T t = Outside \<or> bpc T t = Calling \<or> is_sync (bpc T t)" for t
    using pc[of t] waiting_is_sync[OF ok] by blast
  have n: "bpc T t \<noteq> Admitted \<and> \<not> is_held (bpc T t) \<and> \<not> giving N (bpc T t)" for t
    using q[of t] by (cases "bpc T t") simp_all
  have none: "at_pc T (\<lambda>p. p = Admitted) = {}" "at_pc T is_held = {}" "at_pc T (giving N) = {}"
    using n unfolding at_pc_def by blast+
  have nr: "\<not> released cnt bits waiting N T"
  proof
    assume "released cnt bits waiting N T"
    then obtain t where "at_pc T (\<lambda>p. p = Syncing 0) = {t}" "?W = {}" unfolding released_def Let_def by blast
    then have "bpc T t = Syncing 0" by (metis in_at_pc singletonI)
    then show False using pc[of t] \<open>?W = {}\<close> by simp
  qed
  then obtain r where c: "collecting cnt bits waiting N cur r T" using ok unfolding barrier_ok_def by blast
  note c' = c[unfolded collecting_def Let_def]
  have "to_give N T r" using c' by blast
  moreover have "\<not> giving N (bpc T t)" for t
  proof -
    have "t \<notin> at_pc T (giving N)" using none(3) by blast
    then show ?thesis by simp
  qed
  ultimately have "r = 0" by (auto simp: to_give_def)
  have bij: "bij_betw (num_of T) ?W {0..<unat (uThreadCount (the_barrier T))}" using c' none(2) by simp
  then have u: "card ?W = unat (uThreadCount (the_barrier T))" using bij_betw_same_card by fastforce
  have "card ?W = length cur" using c' bij by (metis bij_betw_imp_inj_on card_image distinct_card)
  then have short: "card ?W < N" using c' by simp
  then have pos: "0 < cnt (xThreadCountSemaphore (the_barrier T))" using c' none(1) u \<open>r = 0\<close> by simp
  have "finite ?W"
  proof -
    have "barrier_wf N T" using ok by (simp add: barrier_ok_def)
    from finite_at[OF this] have "finite (at_pc T is_sync)" by simp
    then show ?thesis using c' by (metis finite_subset)
  qed
  then have "\<not> {t. bpc T t \<noteq> Outside} \<subseteq> ?W" using many short card_mono[of ?W "{t. bpc T t \<noteq> Outside}"] by linarith
  then obtain t where t: "bpc T t = Calling" using pc by blast
  obtain k where "sk_acquire ks (xThreadCountSemaphore (the_barrier T)) = Some k"
    using pos counting_kernelD(3)[OF ks, of "xThreadCountSemaphore (the_barrier T)"] by fastforce
  then show False using b_take[OF t] no[of "B_take t"] t by fastforce
qed

section \<open>Runs on concrete kernel objects\<close>

text \<open>The step that an event stands for, as a function.\<close>

fun barrier_next ::
  "'k sem_kernel \<Rightarrow> 'e group_kernel \<Rightarrow> barrier_event \<Rightarrow> ('k, 'e) barrier_sys \<Rightarrow> ('k, 'e) barrier_sys option"
where
  "barrier_next ks gk (B_call t) S = (if bpc S t = Outside then Some (S\<lparr>bpc := (bpc S)(t := Calling)\<rparr>) else None)"
| "barrier_next ks gk (B_take t) S = (case sk_acquire ks (xThreadCountSemaphore (the_barrier S)) of
     Some k \<Rightarrow> if bpc S t = Calling then
       Some (S\<lparr>the_barrier := (the_barrier S)\<lparr>xThreadCountSemaphore := k\<rparr>, bpc := (bpc S)(t := Admitted)\<rparr>) else None
   | None \<Rightarrow> None)"
| "barrier_next ks gk (B_number t) S = (let n = uThreadCount (the_barrier S) in if bpc S t = Admitted then
     Some (S\<lparr>the_barrier := (the_barrier S)\<lparr>uThreadCount := n + 1\<rparr>, bpc := (bpc S)(t := Numbered n)\<rparr>) else None)"
| "barrier_next ks gk (B_sync t n) S = (if bpc S t = Numbered n then
     Some (S\<lparr>the_barrier := (the_barrier S)\<lparr>xBarrierEventGroup :=
           gk_sync gk t (push_bit (unat n) 1) (push_bit (unat (uThreshold (the_barrier S))) 1 - 1)
             (xBarrierEventGroup (the_barrier S))\<rparr>,
         bpc := (bpc S)(t := Syncing n)\<rparr>) else None)"
| "barrier_next ks gk (B_reset t) S =
     (if bpc S t = Syncing 0 \<and> \<not> gk_waits gk (xBarrierEventGroup (the_barrier S)) t then
       Some (S\<lparr>the_barrier := (the_barrier S)\<lparr>uThreadCount := 0\<rparr>, bpc := (bpc S)(t := Giving 0)\<rparr>) else None)"
| "barrier_next ks gk (B_give t) S = (case bpc S t of
     Giving i \<Rightarrow> if i < unat (uThreshold (the_barrier S)) then
       Some (S\<lparr>the_barrier := (the_barrier S)\<lparr>xThreadCountSemaphore :=
           sk_give ks (xThreadCountSemaphore (the_barrier S))\<rparr>, bpc := (bpc S)(t := Giving (i + 1))\<rparr>) else None
   | _ \<Rightarrow> None)"
| "barrier_next ks gk (B_return t r) S = (case bpc S t of
     Giving i \<Rightarrow> if \<not> i < unat (uThreshold (the_barrier S)) \<and> r = PTHREAD_BARRIER_SERIAL_THREAD
       then Some (S\<lparr>bpc := (bpc S)(t := Outside)\<rparr>) else None
   | Syncing n \<Rightarrow> if n \<noteq> 0 \<and> \<not> gk_waits gk (xBarrierEventGroup (the_barrier S)) t \<and> r = 0
       then Some (S\<lparr>bpc := (bpc S)(t := Outside)\<rparr>) else None
   | _ \<Rightarrow> None)"

lemma barrier_next_step: "barrier_next ks gk ev S = Some T \<Longrightarrow> barrier_step ks gk S ev T"
  by (cases ev) (auto simp: Let_def split: if_splits option.splits barrier_pc.splits
      intro: b_call b_take b_number b_sync[simplified] b_leave b_reset b_give[simplified] b_serial)

fun barrier_exec ::
  "'k sem_kernel \<Rightarrow> 'e group_kernel \<Rightarrow> barrier_event list \<Rightarrow> ('k, 'e) barrier_sys \<Rightarrow> ('k, 'e) barrier_sys option"
where
  "barrier_exec ks gk [] S = Some S"
| "barrier_exec ks gk (ev # evs) S =
     (case barrier_next ks gk ev S of None \<Rightarrow> None | Some T \<Rightarrow> barrier_exec ks gk evs T)"

lemma barrier_exec_run:
  "barrier_run ks gk R ls S \<Longrightarrow> barrier_exec ks gk evs S = Some T \<Longrightarrow> barrier_run ks gk R (ls @ evs) T"
proof (induction evs arbitrary: ls S)
  case (Cons ev evs)
  then obtain U where U: "barrier_next ks gk ev S = Some U" "barrier_exec ks gk evs U = Some T"
    by (auto split: option.splits)
  have "barrier_run ks gk R (ls @ [ev]) U" using barrier_snoc[OF Cons.prems(1) barrier_next_step[OF U(1)]] .
  from Cons.IH[OF this U(2)] show ?case by simp
qed simp

text \<open>An event group that is its bits and its waiting threads.\<close>

definition bits_group :: "(32 word \<times> nat list) group_kernel" where
  "bits_group = \<lparr>gk_create = (0, []),
     gk_sync = (\<lambda>t s w (b, W). if (b OR s) AND w = w then ((b OR s) AND NOT w, []) else (b OR s, t # W)),
     gk_waits = (\<lambda>(b, W) t. t \<in> set W)\<rparr>"

lemma bits_group_syncs: "sync_group bits_group w fst (\<lambda>g. set (snd g))"
  by (auto simp: sync_group_def bits_group_def Let_def)

text \<open>Two threads at a barrier of threshold two.\<close>

definition two_calls :: "barrier_event list" where
  "two_calls = [B_call 7, B_call 8, B_take 8, B_take 7, B_number 8, B_number 7, B_sync 7 1]"

definition two_cycle :: "barrier_event list" where
  "two_cycle = two_calls @ [B_sync 8 0, B_reset 8, B_return 7 0, B_give 8, B_give 8, B_return 8 PTHREAD_BARRIER_SERIAL_THREAD]"

definition two_barrier :: "(nat, 32 word \<times> nat list) barrier" where
  "two_barrier = \<lparr>uThreadCount = 0, uThreshold = 2, xThreadCountSemaphore = 2, xBarrierEventGroup = (0, [])\<rparr>"

lemma two_init: "pthread_barrier_init (count_kernel 2) bits_group 2 two_barrier = (0, two_barrier)"
  by (simp add: pthread_barrier_init_def count_kernel_def bits_group_def two_barrier_def)

lemma two_exec:
  "\<exists>T. barrier_exec (count_kernel 2) bits_group two_cycle (barrier_start two_barrier) = Some T \<and> (\<forall>t. bpc T t = Outside)"
  "\<exists>T. barrier_exec (count_kernel 2) bits_group two_calls (barrier_start two_barrier) = Some T \<and>
    {t. bpc T t \<noteq> Outside} = {7, 8}"
  by (auto simp: two_cycle_def two_calls_def barrier_start_def two_barrier_def count_kernel_def bits_group_def Let_def)

theorem barrier_cycles_witness:
  "\<exists>T. barrier_run (count_kernel 2) bits_group (barrier_start two_barrier) two_cycle T \<and>
    length (arrivals two_cycle) = 2 * count_if is_serial two_cycle \<and>
    count_if is_return two_cycle = length (arrivals two_cycle)"
proof -
  obtain T where T: "barrier_exec (count_kernel 2) bits_group two_cycle (barrier_start two_barrier) = Some T"
    "\<forall>t. bpc T t = Outside" using two_exec(1) by blast
  have run: "barrier_run (count_kernel 2) bits_group (barrier_start two_barrier) two_cycle T"
    using barrier_exec_run[OF barrier_nil T(1)] by simp
  from barrier_cycles[OF two_init refl _ bits_group_syncs run, of "\<lambda>k. k"] T(2) run show ?thesis
    using count_kernel_counts[of 2] by auto
qed

theorem barrier_progress_witness:
  "\<exists>T. barrier_run (count_kernel 2) bits_group (barrier_start two_barrier) two_calls T \<and>
    (\<exists>ev U. barrier_step (count_kernel 2) bits_group T ev U \<and> bpc T (barrier_thread ev) \<noteq> Outside)"
proof -
  obtain T where T: "barrier_exec (count_kernel 2) bits_group two_calls (barrier_start two_barrier) = Some T"
    "{t. bpc T t \<noteq> Outside} = {7, 8}" using two_exec(2) by blast
  have run: "barrier_run (count_kernel 2) bits_group (barrier_start two_barrier) two_calls T"
    using barrier_exec_run[OF barrier_nil T(1)] by simp
  from barrier_progress[OF two_init refl _ bits_group_syncs run, of "\<lambda>k. k"] T(2) run show ?thesis
    using count_kernel_counts[of 2] by auto
qed

end
