(* ===== verification/Posix_Thread.thy ===== *)
theory Posix_Thread
  imports Posix_Sem
begin

text \<open>
  POSIX threads (FreeRTOS\<open>_\<close>POSIX\<open>_\<close>pthread.c, FreeRTOS\<open>_\<close>POSIX\<open>_\<close>sched.c): the packed attributes,
  thread names, and the life of a thread object from \<open>pthread\<open>_\<close>create\<close> to the one who frees it: the
  thread itself when it is detached, the caller of \<open>pthread\<open>_\<close>join\<close> otherwise.  Thread objects are entries
  of a map from addresses, tasks entries of a map from handles.  A join barrier and a join mutex are
  kernel objects, which are a parameter, as are the sizes that the FreeRTOS configuration fixes.
\<close>

unbundle bit_operations_syntax

section \<open>Attributes\<close>

abbreviation (input) PTHREAD_CREATE_DETACHED :: int where "PTHREAD_CREATE_DETACHED \<equiv> 0"
abbreviation (input) PTHREAD_CREATE_JOINABLE :: int where "PTHREAD_CREATE_JOINABLE \<equiv> 1"
abbreviation (input) pthreadDETACH_STATE_MASK :: "16 word" where "pthreadDETACH_STATE_MASK \<equiv> 0x8000"
abbreviation (input) pthreadSCHED_PRIORITY_MASK :: "16 word" where "pthreadSCHED_PRIORITY_MASK \<equiv> 0x7FFF"
abbreviation (input) configMAX_PRIORITIES :: int where "configMAX_PRIORITIES \<equiv> 32"
abbreviation (input) tskIDLE_PRIORITY :: int where "tskIDLE_PRIORITY \<equiv> 0"
abbreviation (input) ESRCH :: int where "ESRCH \<equiv> 3"

record pthread_attr =
  ulStackSize :: "32 word"
  usSchedPriorityDetachState :: "16 word"

definition sched_get_priority_max :: "int \<Rightarrow> int" where
  "sched_get_priority_max policy = configMAX_PRIORITIES - 1"

definition sched_get_priority_min :: "int \<Rightarrow> int" where
  "sched_get_priority_min policy = tskIDLE_PRIORITY"

definition pthreadGET_SCHED_PRIORITY :: "16 word \<Rightarrow> int" where
  "pthreadGET_SCHED_PRIORITY v = uint (v AND pthreadSCHED_PRIORITY_MASK)"

definition pthreadIS_JOINABLE :: "16 word \<Rightarrow> bool" where
  "pthreadIS_JOINABLE v \<longleftrightarrow> v AND pthreadDETACH_STATE_MASK = pthreadDETACH_STATE_MASK"

text \<open>\<open>stack\<open>_\<close>min\<close> is \<open>PTHREAD\<open>_\<close>STACK\<open>_\<close>MIN\<close>.\<close>

definition xDefaultThreadAttributes :: "32 word \<Rightarrow> pthread_attr" where
  "xDefaultThreadAttributes stack_min =
    \<lparr>ulStackSize = stack_min,
     usSchedPriorityDetachState =
       (word_of_int tskIDLE_PRIORITY AND pthreadSCHED_PRIORITY_MASK) OR push_bit 15 (word_of_int PTHREAD_CREATE_JOINABLE)\<rparr>"

definition pthread_attr_init :: "32 word \<Rightarrow> pthread_attr \<Rightarrow> int \<times> pthread_attr" where
  "pthread_attr_init stack_min attr = (0, xDefaultThreadAttributes stack_min)"

definition pthread_attr_destroy :: "pthread_attr \<Rightarrow> int" where
  "pthread_attr_destroy attr = 0"

definition pthread_attr_getdetachstate :: "pthread_attr \<Rightarrow> int \<times> int" where
  "pthread_attr_getdetachstate attr =
    (0, if pthreadIS_JOINABLE (usSchedPriorityDetachState attr) then PTHREAD_CREATE_JOINABLE else PTHREAD_CREATE_DETACHED)"

definition pthread_attr_getschedparam :: "pthread_attr \<Rightarrow> int \<times> int" where
  "pthread_attr_getschedparam attr = (0, pthreadGET_SCHED_PRIORITY (usSchedPriorityDetachState attr))"

definition pthread_attr_getstacksize :: "pthread_attr \<Rightarrow> int \<times> 32 word" where
  "pthread_attr_getstacksize attr = (0, ulStackSize attr)"

definition pthread_attr_setdetachstate :: "int \<Rightarrow> pthread_attr \<Rightarrow> int \<times> pthread_attr" where
  "pthread_attr_setdetachstate detachstate attr =
    (if detachstate \<noteq> PTHREAD_CREATE_DETACHED \<and> detachstate \<noteq> PTHREAD_CREATE_JOINABLE then (EINVAL, attr)
     else (0, attr\<lparr>usSchedPriorityDetachState :=
        (usSchedPriorityDetachState attr AND NOT pthreadDETACH_STATE_MASK) OR push_bit 15 (word_of_int detachstate)\<rparr>))"

definition pthread_attr_setschedparam :: "int option \<Rightarrow> pthread_attr \<Rightarrow> int \<times> pthread_attr" where
  "pthread_attr_setschedparam param attr =
    (case param of None \<Rightarrow> (EINVAL, attr) | Some sched_priority \<Rightarrow>
     if sched_priority > sched_get_priority_max 0 \<or> sched_priority < 0 then (ENOTSUP, attr)
     else (0, attr\<lparr>usSchedPriorityDetachState :=
        (usSchedPriorityDetachState attr AND NOT pthreadSCHED_PRIORITY_MASK) OR word_of_int sched_priority\<rparr>))"

definition pthread_attr_setschedpolicy :: "int \<Rightarrow> pthread_attr \<Rightarrow> int \<times> pthread_attr" where
  "pthread_attr_setschedpolicy policy attr = (0, attr)"

definition pthread_attr_setstacksize :: "32 word \<Rightarrow> 32 word \<Rightarrow> pthread_attr \<Rightarrow> int \<times> pthread_attr" where
  "pthread_attr_setstacksize stack_min stacksize attr =
    (if stacksize < stack_min then (EINVAL, attr) else (0, attr\<lparr>ulStackSize := stacksize\<rparr>))"

text \<open>The two fields of the packed word: bit 15 and the bits below.\<close>

lemma low_mask: "(0x7FFF :: 16 word) = mask 15"
  by (simp add: mask_eq_exp_minus_1)

lemma high_mask: "(0x8000 :: 16 word) = NOT (mask 15)"
  by (simp add: mask_eq_exp_minus_1)

lemma joinable_bit: "pthreadIS_JOINABLE v \<longleftrightarrow> bit v 15"
proof
  assume "pthreadIS_JOINABLE v"
  then have "v AND NOT (mask 15) = NOT (mask 15)" by (simp only: pthreadIS_JOINABLE_def high_mask)
  then have "bit (v AND NOT (mask 15)) 15 = bit (NOT (mask 15) :: 16 word) 15" by simp
  then show "bit v 15" by (simp add: bit_and_iff bit_not_iff bit_mask_iff)
next
  assume b: "bit v 15"
  have "v AND NOT (mask 15) = NOT (mask 15)"
  proof (rule bit_word_eqI)
    fix n assume "n < LENGTH(16)"
    then have "n < 15 \<or> n = 15" by auto
    then show "bit (v AND NOT (mask 15)) n = bit (NOT (mask 15) :: 16 word) n"
      using b by (auto simp: bit_and_iff bit_not_iff bit_mask_iff)
  qed
  then show "pthreadIS_JOINABLE v" by (simp only: pthreadIS_JOINABLE_def high_mask)
qed

lemma set_detach_fields:
  fixes v :: "16 word"
  assumes "d = 0 \<or> d = 1"
  defines "w \<equiv> (v AND NOT 0x8000) OR push_bit 15 (word_of_int d) "
  shows "w AND 0x7FFF = v AND 0x7FFF" "bit w 15 \<longleftrightarrow> d = 1"
proof -
  show "w AND 0x7FFF = v AND 0x7FFF"
    unfolding low_mask
  proof (rule bit_word_eqI)
    fix n assume "n < LENGTH(16)"
    show "bit (w AND mask 15) n = bit (v AND mask 15) n"
      unfolding w_def high_mask by (auto simp: bit_and_iff bit_or_iff bit_not_iff bit_mask_iff bit_push_bit_iff)
  qed
  show "bit w 15 \<longleftrightarrow> d = 1"
    using assms(1) unfolding w_def high_mask
    by (auto simp: bit_and_iff bit_or_iff bit_not_iff bit_mask_iff bit_push_bit_iff)
qed

lemma set_priority_fields:
  fixes v :: "16 word"
  assumes "0 \<le> p" "p < 32768"
  defines "w \<equiv> (v AND NOT 0x7FFF) OR word_of_int p "
  shows "uint (w AND 0x7FFF) = p" "bit w 15 \<longleftrightarrow> bit v 15"
proof -
  have small: "\<not> bit (word_of_int p :: 16 word) n" if "15 \<le> n" for n
  proof -
    have "take_bit 15 p = p" using assms(1,2) by (simp add: take_bit_int_eq_self)
    then have "\<not> bit p n" using that by (metis bit_take_bit_iff not_le)
    then show ?thesis by (simp add: bit_word_of_int_iff)
  qed
  have "w AND 0x7FFF = word_of_int p"
    unfolding low_mask
  proof (rule bit_word_eqI)
    fix n assume "n < LENGTH(16)"
    show "bit (w AND mask 15) n = bit (word_of_int p :: 16 word) n"
      using small[of n] \<open>n < LENGTH(16)\<close> unfolding w_def low_mask
      by (cases "15 \<le> n") (auto simp: bit_and_iff bit_or_iff bit_not_iff bit_mask_iff)
  qed
  moreover have "uint (word_of_int p :: 16 word) = p" using assms(1,2) by (simp add: uint_word_of_int)
  ultimately show "uint (w AND 0x7FFF) = p" by simp
  show "bit w 15 \<longleftrightarrow> bit v 15"
    using small[of 15] unfolding w_def low_mask by (auto simp: bit_and_iff bit_or_iff bit_not_iff bit_mask_iff)
qed

text \<open>Each attribute is read back as it was set, and setting one leaves the others; a value that is
  refused changes nothing.\<close>

theorem attr_fields:
  "(case pthread_attr_setdetachstate d a of (st, b) \<Rightarrow>
      (if d = PTHREAD_CREATE_DETACHED \<or> d = PTHREAD_CREATE_JOINABLE then st = 0 \<and> pthread_attr_getdetachstate b = (0, d)
       else st = EINVAL \<and> b = a) \<and>
      pthread_attr_getschedparam b = pthread_attr_getschedparam a \<and> pthread_attr_getstacksize b = pthread_attr_getstacksize a) \<and>
   (case pthread_attr_setschedparam p a of (st, b) \<Rightarrow>
      (case p of None \<Rightarrow> st = EINVAL \<and> b = a
       | Some q \<Rightarrow> if 0 \<le> q \<and> q < configMAX_PRIORITIES then st = 0 \<and> pthread_attr_getschedparam b = (0, q) else st = ENOTSUP \<and> b = a) \<and>
      pthread_attr_getdetachstate b = pthread_attr_getdetachstate a \<and> pthread_attr_getstacksize b = pthread_attr_getstacksize a) \<and>
   (case pthread_attr_setstacksize m n a of (st, b) \<Rightarrow>
      (if m \<le> n then st = 0 \<and> pthread_attr_getstacksize b = (0, n) else st = EINVAL \<and> b = a) \<and>
      pthread_attr_getdetachstate b = pthread_attr_getdetachstate a \<and> pthread_attr_getschedparam b = pthread_attr_getschedparam a)"
proof (intro conjI)
  show "case pthread_attr_setdetachstate d a of (st, b) \<Rightarrow>
      (if d = PTHREAD_CREATE_DETACHED \<or> d = PTHREAD_CREATE_JOINABLE then st = 0 \<and> pthread_attr_getdetachstate b = (0, d)
       else st = EINVAL \<and> b = a) \<and>
      pthread_attr_getschedparam b = pthread_attr_getschedparam a \<and> pthread_attr_getstacksize b = pthread_attr_getstacksize a"
    using set_detach_fields[of d "usSchedPriorityDetachState a"]
    by (auto simp: pthread_attr_setdetachstate_def pthread_attr_getdetachstate_def pthread_attr_getschedparam_def
        pthread_attr_getstacksize_def joinable_bit pthreadGET_SCHED_PRIORITY_def)
  show "case pthread_attr_setschedparam p a of (st, b) \<Rightarrow>
      (case p of None \<Rightarrow> st = EINVAL \<and> b = a
       | Some q \<Rightarrow> if 0 \<le> q \<and> q < configMAX_PRIORITIES then st = 0 \<and> pthread_attr_getschedparam b = (0, q) else st = ENOTSUP \<and> b = a) \<and>
      pthread_attr_getdetachstate b = pthread_attr_getdetachstate a \<and> pthread_attr_getstacksize b = pthread_attr_getstacksize a"
    using set_priority_fields[of "the p" "usSchedPriorityDetachState a"]
    by (auto simp: pthread_attr_setschedparam_def pthread_attr_getdetachstate_def pthread_attr_getschedparam_def sched_get_priority_max_def
        pthread_attr_getstacksize_def joinable_bit pthreadGET_SCHED_PRIORITY_def split: option.splits)
qed (auto simp: pthread_attr_setstacksize_def pthread_attr_getdetachstate_def pthread_attr_getschedparam_def
        pthread_attr_getstacksize_def)

section \<open>Names\<close>

text \<open>A string in memory is read byte by byte; reading where nothing is mapped is \<open>Faults\<close>.\<close>

function copy_name :: "(nat \<Rightarrow> byte option) \<Rightarrow> nat \<Rightarrow> nat \<Rightarrow> bytes \<Rightarrow> bytes exec" where
  "copy_name read limit i buf =
    (if i < limit then
       (case read i of None \<Rightarrow> Faults
        | Some c \<Rightarrow> if c \<noteq> 0 then copy_name read limit (i + 1) (buf[i := c]) else Ret (buf[i := 0]))
     else Ret (buf[i := 0]))"
  by pat_completeness auto
termination by (relation "measure (\<lambda>(read, limit, i, buf). limit - i)") auto

declare copy_name.simps [simp del]

function printable_name :: "(nat \<Rightarrow> byte option) \<Rightarrow> nat \<Rightarrow> nat \<Rightarrow> bool exec" where
  "printable_name read limit i =
    (if i < limit then
       (case read i of None \<Rightarrow> Faults
        | Some c \<Rightarrow> if c = 0 then Ret True else if c < 0x20 \<or> c > 0x7E then Ret False
                    else printable_name read limit (i + 1))
     else Ret True)"
  by pat_completeness auto
termination by (relation "measure (\<lambda>(read, limit, i). limit - i)") auto

declare printable_name.simps [simp del]

record thread_config =
  configMAX_TASK_NAME_LEN :: nat
  PTHREAD_STACK_MIN :: "32 word"

definition posixconfigPTHREAD_TASK_NAME :: bytes where
  "posixconfigPTHREAD_TASK_NAME = [0x70, 0x74, 0x68, 0x72, 0x65, 0x61, 0x64, 0]"

definition read_list :: "bytes \<Rightarrow> nat \<Rightarrow> byte option" where
  "read_list bs i = (if i < length bs then Some (bs ! i) else None)"

text \<open>\<open>prvResolveInitialName\<close>: the name in the object that the argument is taken to point to, four
  bytes behind its start, or the default.\<close>

definition prvResolveInitialName :: "thread_config \<Rightarrow> (nat \<Rightarrow> byte option) \<Rightarrow> nat \<Rightarrow> (nat \<Rightarrow> byte option) exec" where
  "prvResolveInitialName cfg mem arg =
    (if arg \<noteq> 0 then
       exec_bind (printable_name (\<lambda>i. mem (arg + 4 + i)) (configMAX_TASK_NAME_LEN cfg - 1) 0)
        (\<lambda>valid. Ret (if valid then (\<lambda>i. mem (arg + 4 + i)) else read_list posixconfigPTHREAD_TASK_NAME))
     else Ret (read_list posixconfigPTHREAD_TASK_NAME))"

section \<open>Thread objects and tasks\<close>

record 'k pthread =
  th_attr :: pthread_attr
  th_start :: nat
  th_arg :: nat
  th_handle :: nat
  th_sync :: "('k \<times> 'k) option"
  th_return :: nat
  th_name :: bytes

text \<open>Where a task is: in its routine, in \<open>prvExitThread\<close>, or in \<open>pthread\<open>_\<close>join\<close> of an object.\<close>

datatype thread_pc =
    Runs
  | Exiting
  | Given
  | Suspended
  | Freed
  | Join_checked nat
  | Join_locked nat
  | Join_owns nat

text \<open>Tasks with their tag, the address of their thread object (0 for a task that is no thread).\<close>

record 'k thread_sys =
  objs :: "nat \<Rightarrow> 'k pthread option"
  tasks :: "nat \<Rightarrow> (nat \<times> thread_pc) option"

abbreviation joinable :: "'k pthread \<Rightarrow> bool" where
  "joinable th \<equiv> pthreadIS_JOINABLE (usSchedPriorityDetachState (th_attr th))"

definition prvStoreThreadName :: "thread_config \<Rightarrow> (nat \<Rightarrow> byte option) \<Rightarrow> 'k pthread \<Rightarrow> 'k pthread exec" where
  "prvStoreThreadName cfg name th =
    exec_bind (copy_name name (configMAX_TASK_NAME_LEN cfg - 1) 0 (th_name th)) (\<lambda>n. Ret (th\<lparr>th_name := n\<rparr>))"

text \<open>The new object before its task exists; the join semaphores are a mutex and an empty binary
  semaphore.\<close>

definition new_thread ::
  "thread_config \<Rightarrow> 'k sem_kernel \<Rightarrow> (nat \<Rightarrow> byte option) \<Rightarrow> pthread_attr option \<Rightarrow> nat \<Rightarrow> nat \<Rightarrow> 'k pthread exec"
where
  "new_thread cfg ks mem attr startroutine arg =
    (let a = (case attr of None \<Rightarrow> xDefaultThreadAttributes (PTHREAD_STACK_MIN cfg) | Some x \<Rightarrow> x);
         th = \<lparr>th_attr = a, th_start = startroutine, th_arg = arg, th_handle = 0, th_sync = None, th_return = 0,
               th_name = replicate (configMAX_TASK_NAME_LEN cfg) 0\<rparr> in
     exec_bind (prvResolveInitialName cfg mem arg) (\<lambda>name.
     exec_bind (prvStoreThreadName cfg name th) (\<lambda>th1.
     Ret (if joinable th1 then th1\<lparr>th_sync := Some (sk_create ks 1 0, sk_create ks 1 1)\<rparr> else th1))))"

text \<open>\<open>alloc\<close> is the answer of \<open>pvPortMalloc\<close>, \<open>spawn\<close> that of \<open>xTaskCreate\<close>, given the name, the depth
  of the stack and the priority.\<close>

definition pthread_create ::
  "thread_config \<Rightarrow> 'k sem_kernel \<Rightarrow> (nat \<Rightarrow> byte option) \<Rightarrow> nat option \<Rightarrow> (bytes \<Rightarrow> nat \<Rightarrow> int \<Rightarrow> nat option)
   \<Rightarrow> pthread_attr option \<Rightarrow> nat \<Rightarrow> nat \<Rightarrow> 'k thread_sys \<Rightarrow> (int \<times> nat option \<times> 'k thread_sys) exec"
where
  "pthread_create cfg ks mem alloc spawn attr startroutine arg S =
    (case alloc of None \<Rightarrow> Ret (EAGAIN, None, S)
     | Some a \<Rightarrow>
       exec_bind (new_thread cfg ks mem attr startroutine arg) (\<lambda>th.
       (case spawn (th_name th) (unat (ulStackSize (th_attr th)) div 4)
               (pthreadGET_SCHED_PRIORITY (usSchedPriorityDetachState (th_attr th))) of
          None \<Rightarrow> Ret (EAGAIN, None, S)
        | Some h \<Rightarrow> Ret (0, Some a, S\<lparr>objs := (objs S)(a \<mapsto> th\<lparr>th_handle := h\<rparr>), tasks := (tasks S)(h \<mapsto> (a, Runs))\<rparr>))))"

definition set_pc :: "nat \<Rightarrow> thread_pc \<Rightarrow> 'k thread_sys \<Rightarrow> 'k thread_sys" where
  "set_pc t pc S = S\<lparr>tasks := (tasks S)(t := map_option (\<lambda>(a, _). (a, pc)) (tasks S t))\<rparr>"

definition pthread_self :: "nat \<Rightarrow> 'k thread_sys \<Rightarrow> nat" where
  "pthread_self t S = (case tasks S t of Some (a, pc) \<Rightarrow> a | None \<Rightarrow> 0)"

definition pthread_equal :: "nat \<Rightarrow> nat \<Rightarrow> bool" where
  "pthread_equal t1 t2 \<longleftrightarrow> t1 = t2"

text \<open>\<open>with_obj\<close> is an access to the object at an address.\<close>

definition with_obj :: "'k thread_sys \<Rightarrow> nat \<Rightarrow> ('k pthread \<Rightarrow> 'b exec) \<Rightarrow> 'b exec" where
  "with_obj S a f = (case objs S a of None \<Rightarrow> Faults | Some th \<Rightarrow> f th)"

text \<open>The end of a routine, or \<open>pthread\<open>_\<close>exit\<close>: the value is stored.\<close>

definition thread_finish :: "nat \<Rightarrow> nat \<Rightarrow> 'k thread_sys \<Rightarrow> 'k thread_sys exec" where
  "thread_finish t v S =
    with_obj S (pthread_self t S) (\<lambda>th.
      Ret (set_pc t Exiting (S\<lparr>objs := (objs S)(pthread_self t S \<mapsto> th\<lparr>th_return := v\<rparr>)\<rparr>)))"

text \<open>\<open>prvExitThread\<close> up to \<open>vTaskSuspend\<close> or \<open>vTaskDelete\<close>.\<close>

definition prvExitThread :: "'k sem_kernel \<Rightarrow> nat \<Rightarrow> 'k thread_sys \<Rightarrow> 'k thread_sys exec" where
  "prvExitThread ks t S =
    (let a = pthread_self t S in
     with_obj S a (\<lambda>th.
       if joinable th then
         (case th_sync th of None \<Rightarrow> Faults
          | Some (b, m) \<Rightarrow> Ret (set_pc t Given (S\<lparr>objs := (objs S)(a \<mapsto> th\<lparr>th_sync := Some (sk_give ks b, m)\<rparr>)\<rparr>)))
       else Ret (set_pc t Freed (S\<lparr>objs := (objs S)(a := None)\<rparr>))))"

text \<open>The parts of \<open>pthread\<open>_\<close>join\<close> between which other tasks run: the check for a joinable thread; the
  join mutex without waiting, with the check for the calling thread; the join barrier; and the
  clean-up with the scheduler suspended.  A result is the status and the value for \<open>retval\<close>.\<close>

definition join_check :: "nat \<Rightarrow> nat \<Rightarrow> 'k thread_sys \<Rightarrow> ((int \<times> nat) option \<times> 'k thread_sys) exec" where
  "join_check t a S =
    with_obj S a (\<lambda>th. if joinable th then Ret (None, set_pc t (Join_checked a) S) else Ret (Some (EDEADLK, 0), S))"

definition join_lock :: "'k sem_kernel \<Rightarrow> nat \<Rightarrow> nat \<Rightarrow> 'k thread_sys \<Rightarrow> ((int \<times> nat) option \<times> 'k thread_sys) exec" where
  "join_lock ks t a S =
    with_obj S a (\<lambda>th. case th_sync th of None \<Rightarrow> Faults
     | Some (b, m) \<Rightarrow>
       (case sk_acquire ks m of
          None \<Rightarrow> Ret (Some (EDEADLK, 0), set_pc t Runs S)
        | Some m1 \<Rightarrow>
          (let S1 = S\<lparr>objs := (objs S)(a \<mapsto> th\<lparr>th_sync := Some (b, m1)\<rparr>)\<rparr> in
           if pthread_equal (pthread_self t S) a then Ret (Some (EDEADLK, 0), set_pc t Runs S1)
           else Ret (None, set_pc t (Join_locked a) S1))))"

text \<open>\<open>None\<close>: the thread is still blocked.\<close>

definition join_wait :: "'k sem_kernel \<Rightarrow> nat \<Rightarrow> nat \<Rightarrow> 'k thread_sys \<Rightarrow> 'k thread_sys exec option" where
  "join_wait ks t a S =
    (case objs S a of None \<Rightarrow> Some Faults
     | Some th \<Rightarrow> (case th_sync th of None \<Rightarrow> Some Faults
       | Some (b, m) \<Rightarrow> (case sk_acquire ks b of None \<Rightarrow> None
          | Some b1 \<Rightarrow> Some (Ret (set_pc t (Join_owns a) (S\<lparr>objs := (objs S)(a \<mapsto> th\<lparr>th_sync := Some (b1, m)\<rparr>)\<rparr>))))))"

definition join_collect :: "nat \<Rightarrow> nat \<Rightarrow> 'k thread_sys \<Rightarrow> ((int \<times> nat) option \<times> 'k thread_sys) exec" where
  "join_collect t a S =
    with_obj S a (\<lambda>th.
      (let S1 = set_pc t Runs S in
       Ret (Some (0, th_return th), S1\<lparr>objs := (objs S1)(a := None), tasks := (tasks S1)(th_handle th := None)\<rparr>)))"

text \<open>Names and priorities of living threads; the copies that the kernel keeps of them are not part of
  this state.\<close>

definition px4_pthread_setname_np ::
  "thread_config \<Rightarrow> nat \<Rightarrow> (nat \<Rightarrow> byte option) option \<Rightarrow> 'k thread_sys \<Rightarrow> (int \<times> 'k thread_sys) exec"
where
  "px4_pthread_setname_np cfg a name S =
    (case name of None \<Rightarrow> Ret (EINVAL, S)
     | Some nm \<Rightarrow> (case nm 0 of None \<Rightarrow> Faults
       | Some c \<Rightarrow> if c = 0 then Ret (EINVAL, S)
         else if a = 0 then Ret (ESRCH, S)
         else with_obj S a (\<lambda>th. exec_bind (prvStoreThreadName cfg nm th)
                (\<lambda>th1. Ret (0, S\<lparr>objs := (objs S)(a \<mapsto> th1)\<rparr>)))))"

definition pthread_setschedparam :: "nat \<Rightarrow> int option \<Rightarrow> 'k thread_sys \<Rightarrow> (int \<times> 'k thread_sys) exec" where
  "pthread_setschedparam a param S =
    with_obj S a (\<lambda>th. case pthread_attr_setschedparam param (th_attr th) of (st, at) \<Rightarrow>
      Ret (st, S\<lparr>objs := (objs S)(a \<mapsto> th\<lparr>th_attr := at\<rparr>)\<rparr>))"

definition pthread_getschedparam :: "nat \<Rightarrow> 'k thread_sys \<Rightarrow> (int \<times> int) exec" where
  "pthread_getschedparam a S =
    with_obj S a (\<lambda>th. Ret (0, pthreadGET_SCHED_PRIORITY (usSchedPriorityDetachState (th_attr th))))"

text \<open>What a C string reader delivers to a name field of \<open>n\<close> bytes.\<close>

lemma copy_name_spec:
  assumes "limit < length buf" "\<forall>j. i \<le> j \<longrightarrow> j < limit \<longrightarrow> j \<le> e \<longrightarrow> (\<exists>c. read j = Some c \<and> (c = 0 \<longleftrightarrow> j = e))" "i \<le> e" "i \<le> limit"
  shows "\<exists>r. copy_name read limit i buf = Ret r \<and> length r = length buf \<and> r ! min e limit = 0 \<and>
    (\<forall>j<i. r ! j = buf ! j) \<and> (\<forall>j. i \<le> j \<longrightarrow> j < min e limit \<longrightarrow> read j = Some (r ! j))"
  using assms
proof (induction "limit - i" arbitrary: i buf)
  case 0
  then have "i = limit" by simp
  then show ?case using 0 by (subst copy_name.simps) (auto simp: min_def)
next
  case (Suc n)
  then have il: "i < limit" by simp
  then obtain c where c: "read i = Some c" "c = 0 \<longleftrightarrow> i = e" using Suc.prems(2,3) by auto
  show ?case
  proof (cases "c = 0")
    case True
    then show ?thesis using c il Suc.prems by (subst copy_name.simps) auto
  next
    case False
    have "\<exists>r. copy_name read limit (i + 1) (buf[i := c]) = Ret r \<and> length r = length (buf[i := c]) \<and> r ! min e limit = 0 \<and>
      (\<forall>j<i + 1. r ! j = buf[i := c] ! j) \<and> (\<forall>j. i + 1 \<le> j \<longrightarrow> j < min e limit \<longrightarrow> read j = Some (r ! j))"
      by (rule Suc.hyps(1)) (use Suc.hyps(2) Suc.prems c False il in auto)
    then obtain r where r: "copy_name read limit (i + 1) (buf[i := c]) = Ret r" "length r = length buf" "r ! min e limit = 0"
      "\<forall>j<i + 1. r ! j = buf[i := c] ! j" "\<forall>j. i + 1 \<le> j \<longrightarrow> j < min e limit \<longrightarrow> read j = Some (r ! j)" by auto
    have "r ! i = c" using r(4) il Suc.prems(1) by simp
    then have "\<forall>j. i \<le> j \<longrightarrow> j < min e limit \<longrightarrow> read j = Some (r ! j)"
      using r(5) c(1) by (metis Suc_eq_plus1 le_antisym not_less_eq_eq)
    moreover have "\<forall>j<i. r ! j = buf ! j" using r(4) by simp
    moreover have "copy_name read limit i buf = Ret r" using r(1) c(1) False il by (subst copy_name.simps) simp
    ultimately show ?thesis using r(2,3) by blast
  qed
qed

section \<open>Interleaved threads\<close>

datatype thread_event =
    T_create nat nat "pthread_attr option" nat nat
  | T_finish nat nat nat
  | T_exit nat
  | T_stop nat
  | T_join nat nat
  | T_lock nat
  | T_wait nat
  | T_collect nat

text \<open>An event of a system, if it is possible: the result of a \<open>pthread\<open>_\<close>join\<close> that returns, and the
  state.  A creation gets an address and a task handle that are not in use.\<close>

definition thread_do ::
  "thread_config \<Rightarrow> 'k sem_kernel \<Rightarrow> (nat \<Rightarrow> byte option) \<Rightarrow> thread_event \<Rightarrow> 'k thread_sys
   \<Rightarrow> ((int \<times> nat) option \<times> 'k thread_sys) exec option"
where
  "thread_do cfg ks mem ev S =
    (let quiet = (\<lambda>x. Some (exec_bind x (\<lambda>T. Ret (None, T)))) in
     case ev of
       T_create a h attr f arg \<Rightarrow>
         if a \<noteq> 0 \<and> objs S a = None \<and> tasks S h = None then
           Some (exec_bind (pthread_create cfg ks mem (Some a) (\<lambda>_ _ _. Some h) attr f arg S) (\<lambda>(st, th, T). Ret (None, T)))
         else None
     | T_finish t a v \<Rightarrow> if a \<noteq> 0 \<and> tasks S t = Some (a, Runs) then quiet (thread_finish t v S) else None
     | T_exit t \<Rightarrow> (case tasks S t of Some (a, Exiting) \<Rightarrow> quiet (prvExitThread ks t S) | _ \<Rightarrow> None)
     | T_stop t \<Rightarrow> (case tasks S t of
           Some (a, Given) \<Rightarrow> quiet (Ret (set_pc t Suspended S))
         | Some (a, Freed) \<Rightarrow> quiet (Ret (S\<lparr>tasks := (tasks S)(t := None)\<rparr>))
         | _ \<Rightarrow> None)
     | T_join t a \<Rightarrow> (case tasks S t of Some (b, Runs) \<Rightarrow> Some (join_check t a S) | _ \<Rightarrow> None)
     | T_lock t \<Rightarrow> (case tasks S t of Some (b, Join_checked a) \<Rightarrow> Some (join_lock ks t a S) | _ \<Rightarrow> None)
     | T_wait t \<Rightarrow> (case tasks S t of
           Some (b, Join_locked a) \<Rightarrow> map_option (\<lambda>x. exec_bind x (\<lambda>T. Ret (None, T))) (join_wait ks t a S)
         | _ \<Rightarrow> None)
     | T_collect t \<Rightarrow> (case tasks S t of Some (b, Join_owns a) \<Rightarrow> Some (join_collect t a S) | _ \<Rightarrow> None))"

text \<open>The handles that the application may still join: those of joinable threads that nobody has begun
  to join.  It joins no other, and no thread joins itself.\<close>

fun handles_after :: "thread_config \<Rightarrow> thread_event \<Rightarrow> nat set \<Rightarrow> nat set" where
  "handles_after cfg (T_create a h attr f arg) H =
     (if pthreadIS_JOINABLE (usSchedPriorityDetachState
          (case attr of None \<Rightarrow> xDefaultThreadAttributes (PTHREAD_STACK_MIN cfg) | Some x \<Rightarrow> x))
      then insert a H else H - {a})"
| "handles_after cfg (T_join t a) H = H - {a}"
| "handles_after cfg _ H = H"

fun proper :: "nat set \<Rightarrow> 'k thread_sys \<Rightarrow> thread_event \<Rightarrow> bool" where
  "proper H S (T_join t a) \<longleftrightarrow> a \<in> H \<and> pthread_self t S \<noteq> a"
| "proper H S _ \<longleftrightarrow> True"

inductive thread_run ::
  "thread_config \<Rightarrow> 'k sem_kernel \<Rightarrow> (nat \<Rightarrow> byte option) \<Rightarrow> thread_event list \<Rightarrow> nat set \<Rightarrow> 'k thread_sys \<Rightarrow> bool"
  for cfg ks mem
where
  thread_start: "thread_run cfg ks mem [] {} \<lparr>objs = (\<lambda>_. None), tasks = (\<lambda>t. if t \<in> M then Some (0, Runs) else None)\<rparr>"
| thread_next: "thread_run cfg ks mem ls H S \<Longrightarrow> proper H S ev \<Longrightarrow> thread_do cfg ks mem ev S = Some (Ret (r, T)) \<Longrightarrow>
    thread_run cfg ks mem (ls @ [ev]) (handles_after cfg ev H) T"

section \<open>The invariant\<close>

text \<open>The value with which the thread at an address ended last.\<close>

fun value_step :: "thread_event \<Rightarrow> (nat \<Rightarrow> nat option) \<Rightarrow> nat \<Rightarrow> nat option" where
  "value_step (T_create a h attr f arg) g = g(a := None)"
| "value_step (T_finish t a v) g = g(a := Some v)"
| "value_step _ g = g"

definition exit_value :: "thread_event list \<Rightarrow> nat \<Rightarrow> nat option" where
  "exit_value ls = fold value_step ls (\<lambda>_. None)"

lemma exit_value_snoc: "exit_value (ls @ [ev]) = value_step ev (exit_value ls)"
  by (simp add: exit_value_def)

fun joins :: "thread_pc \<Rightarrow> nat option" where
  "joins (Join_checked a) = Some a" | "joins (Join_locked a) = Some a" | "joins (Join_owns a) = Some a" | "joins _ = None"

fun gone :: "thread_pc \<Rightarrow> bool" where
  "gone Given = True" | "gone Suspended = True" | "gone _ = False"

fun ended :: "thread_pc \<Rightarrow> bool" where
  "ended Exiting = True" | "ended pc = gone pc"

text \<open>Some thread has locked the join mutex of \<open>a\<close>, or has taken its barrier.\<close>

definition holds :: "(thread_pc \<Rightarrow> bool) \<Rightarrow> 'k thread_sys \<Rightarrow> bool" where
  "holds P S \<longleftrightarrow> (\<exists>t b pc. tasks S t = Some (b, pc) \<and> P pc)"

abbreviation locked :: "'k thread_sys \<Rightarrow> nat \<Rightarrow> bool" where
  "locked S a \<equiv> holds (\<lambda>pc. pc = Join_locked a \<or> pc = Join_owns a) S"

abbreviation owned :: "'k thread_sys \<Rightarrow> nat \<Rightarrow> bool" where
  "owned S a \<equiv> holds (\<lambda>pc. pc = Join_owns a) S"

lemma holdsI: "tasks S t = Some (b, pc) \<Longrightarrow> P pc \<Longrightarrow> holds P S"
  by (auto simp: holds_def)

lemma holds_move:
  assumes "tasks S t = Some (b, pc)" "tasks T = (tasks S)(t := x)" "case x of None \<Rightarrow> \<not> P pc | Some (c, pc') \<Rightarrow> P pc' \<longleftrightarrow> P pc"
  shows "holds P T \<longleftrightarrow> holds P S"
proof
  assume "holds P T"
  then obtain u c q where u: "tasks T u = Some (c, q)" "P q" unfolding holds_def by blast
  then show "holds P S" using assms unfolding holds_def by (cases "u = t") (auto split: option.splits prod.splits)
next
  assume "holds P S"
  then obtain u c q where u: "tasks S u = Some (c, q)" "P q" unfolding holds_def by blast
  show "holds P T"
  proof (cases "u = t")
    case True
    then obtain d r where "x = Some (d, r)" "P r" using assms u by (cases x) auto
    then show ?thesis using assms(2) by (intro holdsI[of T t d r P]) simp_all
  next
    case False
    then show ?thesis using assms(2) u by (intro holdsI[of T u c q P]) simp_all
  qed
qed

lemma holds_new:
  assumes "tasks S t = None" "tasks T = (tasks S)(t := Some (b, pc))" "\<not> P pc"
  shows "holds P T \<longleftrightarrow> holds P S"
proof
  assume "holds P T"
  then show "holds P S" using assms unfolding holds_def by (metis fun_upd_apply option.inject prod.inject)
next
  assume "holds P S"
  then obtain u c q where u: "tasks S u = Some (c, q)" "P q" unfolding holds_def by blast
  then have "u \<noteq> t" using assms(1) by auto
  then show "holds P T" using u assms(2) by (intro holdsI[of T u c q P]) simp_all
qed

text \<open>Tasks and objects belong to each other.\<close>

definition live :: "'k thread_sys \<Rightarrow> nat \<Rightarrow> nat \<Rightarrow> bool" where
  "live S t a \<longleftrightarrow> (\<exists>pc. tasks S t = Some (a, pc) \<and> pc \<noteq> Freed)"

definition handle_of :: "'k thread_sys \<Rightarrow> nat \<Rightarrow> nat option" where
  "handle_of S a = map_option th_handle (objs S a)"

definition pc_of :: "'k thread_sys \<Rightarrow> nat \<Rightarrow> thread_pc" where
  "pc_of S t = (case tasks S t of None \<Rightarrow> Freed | Some (a, pc) \<Rightarrow> pc)"

definition tasks_ok :: "'k thread_sys \<Rightarrow> bool" where
  "tasks_ok S \<longleftrightarrow> objs S 0 = None \<and> (\<forall>t a. a \<noteq> 0 \<longrightarrow> (live S t a \<longleftrightarrow> handle_of S a = Some t)) \<and>
     (\<forall>t pc. tasks S t = Some (0, pc) \<longrightarrow> \<not> ended pc \<and> pc \<noteq> Freed)"

text \<open>An object, given the value of its thread, whether it is owned and locked, and where its thread is:
  an ended thread has left its value; a joinable object has the mutex free unless it is locked, and
  the barrier open when its thread is gone and nobody has taken it.\<close>

definition obj_good :: "('k \<Rightarrow> nat) \<Rightarrow> nat option \<Rightarrow> bool \<Rightarrow> bool \<Rightarrow> thread_pc \<Rightarrow> 'k pthread \<Rightarrow> bool" where
  "obj_good cnt val own lock pc th \<longleftrightarrow>
    (ended pc \<longrightarrow> val = Some (th_return th)) \<and> (gone pc \<longrightarrow> joinable th) \<and>
    (joinable th \<longrightarrow> (own \<longrightarrow> gone pc) \<and>
      (\<exists>b m. th_sync th = Some (b, m) \<and> cnt m = (if lock then 0 else 1) \<and> cnt b = (if gone pc \<and> \<not> own then 1 else 0)))"

lemma obj_good_pc:
  "ended pc = ended pc' \<Longrightarrow> gone pc = gone pc' \<Longrightarrow> obj_good cnt val own lock pc th \<longleftrightarrow> obj_good cnt val own lock pc' th"
  by (simp add: obj_good_def)

definition objects_ok :: "('k \<Rightarrow> nat) \<Rightarrow> (nat \<Rightarrow> nat option) \<Rightarrow> 'k thread_sys \<Rightarrow> bool" where
  "objects_ok cnt val S \<longleftrightarrow> (\<forall>a th. objs S a = Some th \<longrightarrow>
     obj_good cnt (val a) (owned S a) (locked S a) (pc_of S (th_handle th)) th)"

text \<open>The threads that join, and the handles that are left.\<close>

definition joins_ok :: "nat set \<Rightarrow> 'k thread_sys \<Rightarrow> bool" where
  "joins_ok H S \<longleftrightarrow>
    (\<forall>t b pc a. tasks S t = Some (b, pc) \<longrightarrow> joins pc = Some a \<longrightarrow> a \<notin> H \<and> a \<noteq> b \<and> (\<exists>th. objs S a = Some th \<and> joinable th)) \<and>
    (\<forall>t b pc t' b' pc' a. tasks S t = Some (b, pc) \<longrightarrow> joins pc = Some a \<longrightarrow>
       tasks S t' = Some (b', pc') \<longrightarrow> joins pc' = Some a \<longrightarrow> t' = t) \<and>
    (\<forall>a\<in>H. \<exists>th. objs S a = Some th \<and> joinable th)"

definition threads_ok :: "('k \<Rightarrow> nat) \<Rightarrow> thread_event list \<Rightarrow> nat set \<Rightarrow> 'k thread_sys \<Rightarrow> bool" where
  "threads_ok cnt ls H S \<longleftrightarrow> tasks_ok S \<and> objects_ok cnt (exit_value ls) S \<and> joins_ok H S"

lemma set_pc_eq: "tasks S t = Some (b, pc) \<Longrightarrow> set_pc t pc' S = S\<lparr>tasks := (tasks S)(t \<mapsto> (b, pc'))\<rparr>"
  by (simp add: set_pc_def)

lemma obj_nonzero: "tasks_ok S \<Longrightarrow> objs S a = Some th \<Longrightarrow> a \<noteq> 0"
  by (metis option.distinct(1) tasks_ok_def)

lemma ended_nonzero: "tasks_ok S \<Longrightarrow> tasks S t = Some (a, pc) \<Longrightarrow> ended pc \<or> pc = Freed \<Longrightarrow> a \<noteq> 0"
  by (metis tasks_ok_def)

lemma own_object:
  assumes "tasks_ok S" "tasks S t = Some (a, pc)" "a \<noteq> 0" "pc \<noteq> Freed"
  obtains th where "objs S a = Some th" "th_handle th = t" "pc_of S (th_handle th) = pc"
proof -
  have "handle_of S a = Some t" using assms unfolding tasks_ok_def live_def by blast
  then obtain th where "objs S a = Some th" "th_handle th = t" by (auto simp: handle_of_def)
  then show ?thesis using that assms(2) by (simp add: pc_of_def)
qed

lemma other_handle:
  assumes "tasks_ok S" "objs S x = Some th" "tasks S t = Some (b, pc)" "x \<noteq> b"
  shows "th_handle th \<noteq> t"
proof
  assume h: "th_handle th = t"
  have "x \<noteq> 0" by (rule obj_nonzero[OF assms(1,2)])
  then have "live S t x" using assms(1,2) h unfolding tasks_ok_def handle_of_def by simp
  then show False using assms(3,4) by (simp add: live_def)
qed

text \<open>A task moves, and objects keep their handles.\<close>

lemma tasks_ok_move:
  assumes ok: "tasks_ok S" and t: "tasks S t = Some (b, pc)" "pc \<noteq> Freed" "pc' \<noteq> Freed" "b = 0 \<longrightarrow> \<not> ended pc'"
    and T: "tasks T = (tasks S)(t \<mapsto> (b, pc'))" "\<And>a. handle_of T a = handle_of S a"
  shows "tasks_ok T"
proof -
  have l: "live T u a \<longleftrightarrow> live S u a" for u a using t T(1) by (cases "u = t") (auto simp: live_def)
  have "objs T 0 = None" using ok T(2)[of 0] by (simp add: tasks_ok_def handle_of_def)
  then show ?thesis using ok t(3,4) unfolding tasks_ok_def l T by (auto split: if_splits)
qed

lemma joins_ok_mono:
  assumes ok: "joins_ok H S" and j: "\<And>u c r a. tasks T u = Some (c, r) \<Longrightarrow> joins r = Some a \<Longrightarrow> \<exists>q. tasks S u = Some (c, q) \<and> joins q = Some a"
    and o: "\<And>a th. objs S a = Some th \<Longrightarrow> joinable th \<Longrightarrow> a \<in> H \<or> (\<exists>u c r. tasks T u = Some (c, r) \<and> joins r = Some a) \<Longrightarrow>
      \<exists>th'. objs T a = Some th' \<and> joinable th'"
  shows "joins_ok H T"
  unfolding joins_ok_def
proof (intro conjI allI impI ballI)
  fix u c r a assume a: "tasks T u = Some (c, r)" "joins r = Some a"
  from j[OF a] show "a \<notin> H" "a \<noteq> c" using ok unfolding joins_ok_def by blast+
  from j[OF a] obtain th where "objs S a = Some th" "joinable th" using ok unfolding joins_ok_def by blast
  then show "\<exists>th. objs T a = Some th \<and> joinable th" using o a by blast
next
  fix u c r u' c' r' a
  assume a: "tasks T u = Some (c, r)" "joins r = Some a" "tasks T u' = Some (c', r')" "joins r' = Some a"
  from j[OF a(1,2)] j[OF a(3,4)] show "u' = u" using ok unfolding joins_ok_def by blast
next
  fix a assume a: "a \<in> H"
  then obtain th where "objs S a = Some th" "joinable th" using ok unfolding joins_ok_def by blast
  then show "\<exists>th. objs T a = Some th \<and> joinable th" using o a by blast
qed

lemma joins_ok_same:
  assumes "joins_ok H S" "tasks S t = Some (b, pc)" "tasks T = (tasks S)(t \<mapsto> (b, pc'))" "joins pc' = None \<or> joins pc' = joins pc"
    and "\<And>a th. objs S a = Some th \<Longrightarrow> joinable th \<Longrightarrow> \<exists>th'. objs T a = Some th' \<and> joinable th'"
  shows "joins_ok H T"
proof (rule joins_ok_mono[OF assms(1)])
  fix u c r a assume "tasks T u = Some (c, r)" "joins r = Some a"
  then show "\<exists>q. tasks S u = Some (c, q) \<and> joins q = Some a" using assms(2,3,4) by (cases "u = t") auto
qed (rule assms(5))

text \<open>A task whose own object is \<open>a\<close> moves outside of \<open>pthread\<open>_\<close>join\<close>, and changes only this object.\<close>

lemma own_move:
  assumes ok: "tasks_ok S" "objects_ok cnt val S" "joins_ok H S"
    and t: "tasks S t = Some (a, pc)" "objs S a = Some th" "pc \<noteq> Freed" "pc' \<noteq> Freed"
    and j: "joins pc' = None" "joins pc = None"
    and T: "tasks T = (tasks S)(t \<mapsto> (a, pc'))" "objs T = (objs S)(a \<mapsto> th')" "th_handle th' = th_handle th" "joinable th' = joinable th"
    and v: "\<And>x. x \<noteq> a \<Longrightarrow> val' x = val x" and good: "obj_good cnt (val' a) (owned S a) (locked S a) pc' th'"
  shows "tasks_ok T \<and> objects_ok cnt val' T \<and> joins_ok H T"
proof (intro conjI)
  have a0: "a \<noteq> 0" by (rule obj_nonzero[OF ok(1) t(2)])
  show "tasks_ok T"
    by (rule tasks_ok_move[OF ok(1) t(1,3,4) _ T(1)]) (use a0 T t(2) in \<open>auto simp: handle_of_def\<close>)
  show "joins_ok H T"
    by (rule joins_ok_same[OF ok(3) t(1) T(1)]) (use j T t(2) in \<open>auto split: if_splits\<close>)
  have ow: "owned T x \<longleftrightarrow> owned S x" for x by (rule holds_move[OF t(1) T(1)]) (use j in auto)
  have lo: "locked T x \<longleftrightarrow> locked S x" for x by (rule holds_move[OF t(1) T(1)]) (use j in auto)
  obtain h where h: "th_handle th = t" by (rule own_object[OF ok(1) t(1) a0 t(3)]) (use t(2) in auto)
  show "objects_ok cnt val' T"
    unfolding objects_ok_def
  proof (intro allI impI)
    fix x xh assume x: "objs T x = Some xh"
    show "obj_good cnt (val' x) (owned T x) (locked T x) (pc_of T (th_handle xh)) xh"
    proof (cases "x = a")
      case True
      then have "xh = th'" "pc_of T (th_handle xh) = pc'" using x T h by (auto simp: pc_of_def)
      then show ?thesis using good True ow lo by simp
    next
      case False
      then have xs: "objs S x = Some xh" using x T(2) by simp
      from other_handle[OF ok(1) xs t(1) False] have "pc_of T (th_handle xh) = pc_of S (th_handle xh)"
        using T(1) by (simp add: pc_of_def)
      then show ?thesis using ok(2) xs v[OF False] ow lo by (simp add: objects_ok_def)
    qed
  qed
qed

lemma finish_ok:
  assumes ok: "threads_ok cnt ls H S" and t: "tasks S t = Some (a, Runs)" "a \<noteq> 0"
  shows "\<exists>T. thread_finish t v S = Ret T \<and> threads_ok cnt (ls @ [T_finish t a v]) H T"
proof -
  have o: "tasks_ok S" "objects_ok cnt (exit_value ls) S" "joins_ok H S" using ok by (simp_all add: threads_ok_def)
  obtain th where th: "objs S a = Some th" "th_handle th = t" "pc_of S (th_handle th) = Runs"
    by (rule own_object[OF o(1) t(1,2)]) simp_all
  let ?T = "S\<lparr>objs := (objs S)(a \<mapsto> th\<lparr>th_return := v\<rparr>), tasks := (tasks S)(t \<mapsto> (a, Exiting))\<rparr>"
  have e: "thread_finish t v S = Ret ?T"
    using t th by (simp add: thread_finish_def pthread_self_def with_obj_def set_pc_def)
  have g: "obj_good cnt (exit_value ls a) (owned S a) (locked S a) Runs th"
    using o(2) th unfolding objects_ok_def by metis
  have "tasks_ok ?T \<and> objects_ok cnt (exit_value (ls @ [T_finish t a v])) ?T \<and> joins_ok H ?T"
    by (rule own_move[OF o t(1) th(1), where th' = "th\<lparr>th_return := v\<rparr>"])
       (use g in \<open>auto simp: obj_good_def exit_value_snoc\<close>)
  then show ?thesis using e by (auto simp: threads_ok_def)
qed

text \<open>A task that leaves its object, or the system.\<close>

lemma remove_object:
  assumes ok: "tasks_ok S" "joins_ok H S"
    and good: "\<And>y th. objs S y = Some th \<Longrightarrow> y \<noteq> a \<Longrightarrow> obj_good cnt (val y) (owned S y) (locked S y) (pc_of S (th_handle th)) th"
    and nj: "a \<notin> H" "\<And>u c q. tasks S u = Some (c, q) \<Longrightarrow> joins q \<noteq> Some a"
    and t: "tasks S t = Some (a, pc)" "objs S a = Some th" "pc \<noteq> Freed" "joins pc = None"
    and T: "tasks T = (tasks S)(t := x)" "objs T = (objs S)(a := None)" "x = None \<or> x = Some (a, Freed)"
  shows "tasks_ok T \<and> objects_ok cnt val T \<and> joins_ok H T"
proof (intro conjI)
  have a0: "a \<noteq> 0" by (rule obj_nonzero[OF ok(1) t(2)])
  obtain h where h: "th_handle th = t" by (rule own_object[OF ok(1) t(1) a0 t(3)]) (use t(2) in auto)
  have other: "th_handle xh \<noteq> t" if "objs S x = Some xh" "x \<noteq> a" for x xh by (rule other_handle[OF ok(1) that(1) t(1) that(2)])
  have la: "live S u a \<longleftrightarrow> u = t" for u
    using ok(1) a0 t(2) h unfolding tasks_ok_def handle_of_def by (metis option.inject option.simps(9))
  have nl: "\<not> live T t y" for y using T(1,3) by (auto simp: live_def)
  show "tasks_ok T"
    unfolding tasks_ok_def
  proof (intro conjI allI impI)
    show "objs T 0 = None" using ok(1) T(2) by (simp add: tasks_ok_def)
    fix u y assume y: "y \<noteq> (0::nat)"
    have "live T u y \<longleftrightarrow> live S u y \<and> y \<noteq> a"
    proof (cases "u = t")
      case True
      have "live S t y \<longleftrightarrow> y = a" using t(1,3) by (auto simp: live_def)
      then show ?thesis using nl True by simp
    next
      case False
      then have "live T u y \<longleftrightarrow> live S u y" using T(1) by (simp add: live_def)
      then show ?thesis using la[of u] False by auto
    qed
    moreover have "handle_of T y = Some u \<longleftrightarrow> handle_of S y = Some u \<and> y \<noteq> a" using T(2) by (auto simp: handle_of_def)
    ultimately show "live T u y \<longleftrightarrow> handle_of T y = Some u" using ok(1) y unfolding tasks_ok_def by blast
  next
    fix u q assume q: "tasks T u = Some (0, q)"
    then have "tasks S u = Some (0, q)" using T(1,3) a0 by (cases "u = t") auto
    then show "\<not> ended q" "q \<noteq> Freed" using ok(1) unfolding tasks_ok_def by blast+
  qed
  have P: "case x of None \<Rightarrow> \<not> P pc | Some (c, pc') \<Rightarrow> P pc' \<longleftrightarrow> P pc" if "\<not> P pc" "\<not> P Freed" for P
    using T(3) that by auto
  have ow: "owned T y \<longleftrightarrow> owned S y" for y by (rule holds_move[OF t(1) T(1)], rule P) (use t(4) in auto)
  have lo: "locked T y \<longleftrightarrow> locked S y" for y by (rule holds_move[OF t(1) T(1)], rule P) (use t(4) in auto)
  show "objects_ok cnt val T"
    unfolding objects_ok_def
  proof (intro allI impI)
    fix y xh assume y: "objs T y = Some xh"
    then have "y \<noteq> a" "objs S y = Some xh" using T(2) by (auto split: if_splits)
    moreover from this have "pc_of T (th_handle xh) = pc_of S (th_handle xh)" using other T(1) by (simp add: pc_of_def)
    ultimately show "obj_good cnt (val y) (owned T y) (locked T y) (pc_of T (th_handle xh)) xh"
      using good ow lo by simp
  qed
  have j: "tasks S u = Some (c, r)" if "tasks T u = Some (c, r)" "joins r = Some y" for u c r y
    using that T(1,3) by (cases "u = t") auto
  show "joins_ok H T"
  proof (rule joins_ok_mono[OF ok(2)])
    fix u c r y assume a: "tasks T u = Some (c, r)" "joins r = Some y"
    from j[OF a] a(2) show "\<exists>q. tasks S u = Some (c, q) \<and> joins q = Some y" by blast
  next
    fix y xh assume y: "objs S y = Some xh" "joinable xh" "y \<in> H \<or> (\<exists>u c r. tasks T u = Some (c, r) \<and> joins r = Some y)"
    then have "y \<noteq> a" using nj j by blast
    then show "\<exists>th'. objs T y = Some th' \<and> joinable th'" using T(2) y by simp
  qed
qed

text \<open>What the kernel semaphores of an object do.\<close>

lemma give_open: "counting_upto 1 ks cnt \<Longrightarrow> cnt k = 0 \<Longrightarrow> cnt (sk_give ks k) = 1"
  using counting_kernelD(2)[of 1 ks cnt k] by simp

lemma acquire_open:
  assumes "counting_upto 1 ks cnt" "cnt k = 1"
  obtains k' where "sk_acquire ks k = Some k'" "cnt k' = 0"
proof -
  have "sk_acquire ks k \<noteq> None" using counting_kernelD(3)[OF assms(1), of k] assms(2) by simp
  then obtain k' where k: "sk_acquire ks k = Some k'" by blast
  then show ?thesis using that counting_kernelD(4)[OF assms(1) k] assms(2) by simp
qed

lemma exit_ok:
  assumes ks: "counting_upto 1 ks cnt" and ok: "threads_ok cnt ls H S" and t: "tasks S t = Some (a, Exiting)"
  shows "\<exists>T. prvExitThread ks t S = Ret T \<and> threads_ok cnt (ls @ [T_exit t]) H T"
proof -
  have o: "tasks_ok S" "objects_ok cnt (exit_value ls) S" "joins_ok H S" using ok by (simp_all add: threads_ok_def)
  have a0: "a \<noteq> 0" by (rule ended_nonzero[OF o(1) t]) simp
  obtain th where th: "objs S a = Some th" "th_handle th = t" "pc_of S (th_handle th) = Exiting"
    by (rule own_object[OF o(1) t a0]) simp_all
  have g: "obj_good cnt (exit_value ls a) (owned S a) (locked S a) Exiting th"
    using o(2) th unfolding objects_ok_def by metis
  have self: "pthread_self t S = a" using t by (simp add: pthread_self_def)
  show ?thesis
  proof (cases "joinable th")
    case True
    then obtain b m where bm: "th_sync th = Some (b, m)" "cnt m = (if locked S a then 0 else 1)" "cnt b = 0" "\<not> owned S a"
      using g by (auto simp: obj_good_def)
    let ?th = "th\<lparr>th_sync := Some (sk_give ks b, m)\<rparr>"
    let ?T = "S\<lparr>objs := (objs S)(a \<mapsto> ?th), tasks := (tasks S)(t \<mapsto> (a, Given))\<rparr>"
    have e: "prvExitThread ks t S = Ret ?T"
      using True bm t th self by (simp add: prvExitThread_def with_obj_def set_pc_def)
    have "tasks_ok ?T \<and> objects_ok cnt (exit_value (ls @ [T_exit t])) ?T \<and> joins_ok H ?T"
      by (rule own_move[OF o t th(1), where th' = ?th])
         (use g bm True give_open[OF ks bm(3)] in \<open>auto simp: obj_good_def exit_value_snoc\<close>)
    then show ?thesis using e by (auto simp: threads_ok_def)
  next
    case False
    let ?T = "S\<lparr>objs := (objs S)(a := None), tasks := (tasks S)(t \<mapsto> (a, Freed))\<rparr>"
    have e: "prvExitThread ks t S = Ret ?T"
      using False t th self by (simp add: prvExitThread_def with_obj_def set_pc_def)
    have "tasks_ok ?T \<and> objects_ok cnt (exit_value ls) ?T \<and> joins_ok H ?T"
    proof (rule remove_object[OF o(1,3) _ _ _ t th(1), where x = "Some (a, Freed)"])
      have n: "\<not> (\<exists>th. objs S a = Some th \<and> joinable th)" using False th(1) by simp
      then show "a \<notin> H" using o(3) unfolding joins_ok_def by blast
      show "joins q \<noteq> Some a" if "tasks S u = Some (c, q)" for u c q
        using n o(3) that unfolding joins_ok_def by blast
    qed (use o(2) in \<open>auto simp: objects_ok_def\<close>)
    then show ?thesis using e by (auto simp: threads_ok_def exit_value_snoc)
  qed
qed

lemma suspend_ok:
  assumes ok: "threads_ok cnt ls H S" and t: "tasks S t = Some (a, Given)"
  shows "threads_ok cnt (ls @ [T_stop t]) H (set_pc t Suspended S)"
proof -
  have o: "tasks_ok S" "objects_ok cnt (exit_value ls) S" "joins_ok H S" using ok by (simp_all add: threads_ok_def)
  have a0: "a \<noteq> 0" by (rule ended_nonzero[OF o(1) t]) simp
  obtain th where th: "objs S a = Some th" "th_handle th = t" "pc_of S (th_handle th) = Given"
    by (rule own_object[OF o(1) t a0]) simp_all
  have "obj_good cnt (exit_value ls a) (owned S a) (locked S a) Given th"
    using o(2) th unfolding objects_ok_def by metis
  then have g: "obj_good cnt (exit_value ls a) (owned S a) (locked S a) Suspended th"
    by (simp add: obj_good_def)
  have "tasks_ok (set_pc t Suspended S) \<and> objects_ok cnt (exit_value (ls @ [T_stop t])) (set_pc t Suspended S) \<and>
      joins_ok H (set_pc t Suspended S)"
    by (rule own_move[OF o t th(1), where th' = th])
       (use g th(1) in \<open>auto simp: exit_value_snoc set_pc_eq[OF t]\<close>)
  then show ?thesis by (simp add: threads_ok_def)
qed

lemma delete_ok:
  assumes ok: "threads_ok cnt ls H S" and t: "tasks S t = Some (a, Freed)"
  shows "threads_ok cnt (ls @ [T_stop t]) H (S\<lparr>tasks := (tasks S)(t := None)\<rparr>)"
proof -
  let ?T = "S\<lparr>tasks := (tasks S)(t := None)\<rparr>"
  have o: "tasks_ok S" "objects_ok cnt (exit_value ls) S" "joins_ok H S" using ok by (simp_all add: threads_ok_def)
  have l: "live ?T u x \<longleftrightarrow> live S u x" for u x using t by (auto simp: live_def)
  have h: "handle_of ?T x = handle_of S x" for x by (simp add: handle_of_def)
  have p: "pc_of ?T u = pc_of S u" for u using t by (simp add: pc_of_def)
  have ow: "owned ?T x \<longleftrightarrow> owned S x" for x by (rule holds_move[OF t], simp, simp)
  have lo: "locked ?T x \<longleftrightarrow> locked S x" for x by (rule holds_move[OF t], simp, simp)
  have "tasks_ok ?T" using o(1) unfolding tasks_ok_def l h by auto
  moreover have "objects_ok cnt (exit_value ls) ?T" using o(2) unfolding objects_ok_def ow lo p by simp
  moreover have "joins_ok H ?T" by (rule joins_ok_mono[OF o(3)]) (auto split: if_splits)
  ultimately show ?thesis by (simp add: threads_ok_def exit_value_snoc)
qed

text \<open>A thread in \<open>pthread\<open>_\<close>join\<close> of \<open>a\<close> moves, and changes the semaphores of \<open>a\<close> only.\<close>

lemma gone_ended: "\<not> ended pc \<Longrightarrow> \<not> gone pc"
  by (cases pc) simp_all

lemma join_move:
  assumes ok: "tasks_ok S" "objects_ok cnt val S"
    and t: "tasks S t = Some (b, pc)" "a \<noteq> b" "\<not> ended pc" "\<not> ended pc'" "pc \<noteq> Freed" "pc' \<noteq> Freed"
    and th: "objs S a = Some th"
    and T: "tasks T = (tasks S)(t \<mapsto> (b, pc'))" "objs T = (objs S)(a \<mapsto> th')" "th_handle th' = th_handle th"
    and j: "\<And>x. x \<noteq> a \<Longrightarrow> pc' = Join_owns x \<longleftrightarrow> pc = Join_owns x" "\<And>x. x \<noteq> a \<Longrightarrow> pc' = Join_locked x \<longleftrightarrow> pc = Join_locked x"
    and good: "obj_good cnt (val a) (owned T a) (locked T a) (pc_of S (th_handle th)) th'"
  shows "tasks_ok T \<and> objects_ok cnt val T"
proof
  show "tasks_ok T"
  proof (rule tasks_ok_move[OF ok(1) t(1,5,6) _ T(1)])
    show "handle_of T x = handle_of S x" for x using T(2,3) th by (simp add: handle_of_def)
  qed (use t(4) in simp)
  have ng: "\<not> gone pc" "\<not> gone pc'" using gone_ended t(3,4) by blast+
  show "objects_ok cnt val T"
    unfolding objects_ok_def
  proof (intro allI impI)
    fix x xh assume x: "objs T x = Some xh"
    have p: "obj_good cnt v o' l' (pc_of T u) h = obj_good cnt v o' l' (pc_of S u) h" for v o' l' u h
      using t T(1) ng by (intro obj_good_pc) (auto simp: pc_of_def)
    show "obj_good cnt (val x) (owned T x) (locked T x) (pc_of T (th_handle xh)) xh"
    proof (cases "x = a")
      case True
      then show ?thesis using good x T p by simp
    next
      case False
      have ow: "owned T x \<longleftrightarrow> owned S x" by (rule holds_move[OF t(1) T(1)]) (use j False in auto)
      have lo: "locked T x \<longleftrightarrow> locked S x" by (rule holds_move[OF t(1) T(1)]) (use j False in auto)
      show ?thesis using ok(2) x T(2) False unfolding objects_ok_def p ow lo by simp
    qed
  qed
qed

lemma check_ok:
  assumes ok: "threads_ok cnt ls H S" and t: "tasks S t = Some (b, Runs)" and a: "a \<in> H" "b \<noteq> a"
  shows "\<exists>T. join_check t a S = Ret (None, T) \<and> threads_ok cnt (ls @ [T_join t a]) (H - {a}) T"
proof -
  have o: "tasks_ok S" "objects_ok cnt (exit_value ls) S" "joins_ok H S" using ok by (simp_all add: threads_ok_def)
  obtain th where th: "objs S a = Some th" "joinable th" using o(3) a(1) unfolding joins_ok_def by blast
  let ?T = "S\<lparr>tasks := (tasks S)(t \<mapsto> (b, Join_checked a))\<rparr>"
  have e: "join_check t a S = Ret (None, ?T)" using th by (simp add: join_check_def with_obj_def set_pc_eq[OF t])
  have ow: "owned ?T x \<longleftrightarrow> owned S x" for x by (rule holds_move[OF t], simp, simp)
  have lo: "locked ?T x \<longleftrightarrow> locked S x" for x by (rule holds_move[OF t], simp, simp)
  have 1: "tasks_ok ?T \<and> objects_ok cnt (exit_value ls) ?T"
  proof (rule join_move[OF o(1,2) t _ _ _ _ _ th(1), where th' = th and pc' = "Join_checked a"])
    show "obj_good cnt (exit_value ls a) (owned ?T a) (locked ?T a) (pc_of S (th_handle th)) th"
      unfolding ow lo using o(2) th(1) by (simp add: objects_ok_def)
    show "objs ?T = (objs S)(a \<mapsto> th)" using th(1) by auto
  qed (use a(2) in auto)
  have nj: "joins q \<noteq> Some a" if "tasks S u = Some (c, q)" for u c q using o(3) that a(1) unfolding joins_ok_def by blast
  have "joins_ok (H - {a}) ?T"
    unfolding joins_ok_def
  proof (intro conjI allI impI ballI)
    fix u c q x assume q: "tasks ?T u = Some (c, q)" "joins q = Some x"
    have "x \<notin> H - {a} \<and> x \<noteq> c \<and> (\<exists>th. objs S x = Some th \<and> joinable th)"
    proof (cases "u = t")
      case True
      then have "x = a" "c = b" using q by auto
      then show ?thesis using th a(2) by simp
    next
      case False
      then have "tasks S u = Some (c, q)" using q(1) by simp
      then show ?thesis using o(3) q(2) unfolding joins_ok_def by blast
    qed
    then show "x \<notin> H - {a}" "x \<noteq> c" "\<exists>th. objs ?T x = Some th \<and> joinable th" by simp_all
  next
    fix u c q u' c' q' x
    assume q: "tasks ?T u = Some (c, q)" "joins q = Some x" "tasks ?T u' = Some (c', q')" "joins q' = Some x"
    show "u' = u"
    proof -
      have s: "tasks S v = Some (d, r) \<and> x \<noteq> a" if "tasks ?T v = Some (d, r)" "joins r = Some x" "v \<noteq> t" for v d r
      proof -
        have "tasks S v = Some (d, r)" using that(1,3) by simp
        then show ?thesis using nj that(2) by metis
      qed
      have e: "x = a" if "tasks ?T t = Some (d, r)" "joins r = Some x" for d r using that by auto
      show ?thesis
      proof (cases "x = a")
        case True
        then have "u = t" "u' = t" using s[OF q(1,2)] s[OF q(3,4)] by blast+
        then show ?thesis by simp
      next
        case False
        then have "u \<noteq> t" "u' \<noteq> t" using e q by blast+
        then have "tasks S u = Some (c, q)" "tasks S u' = Some (c', q')" using s q by blast+
        then show ?thesis using o(3) q(2,4) unfolding joins_ok_def by blast
      qed
    qed
  next
    fix x assume "x \<in> H - {a}"
    then show "\<exists>th. objs ?T x = Some th \<and> joinable th" using o(3) unfolding joins_ok_def by auto
  qed
  then show ?thesis using 1 e by (simp add: threads_ok_def exit_value_snoc)
qed

text \<open>Only one thread joins an object at a time.\<close>

lemma sole_joiner:
  assumes "joins_ok H S" "tasks S t = Some (b, pc)" "joins pc = Some a" "P pc \<Longrightarrow> False" "\<And>q. P q \<Longrightarrow> joins q = Some a"
  shows "\<not> holds P S"
proof
  assume "holds P S"
  then obtain u c q where u: "tasks S u = Some (c, q)" "P q" unfolding holds_def by blast
  then have "u = t" using assms(1,2,3,5) unfolding joins_ok_def by blast
  then show False using u assms(2,4) by simp
qed

lemma lock_ok:
  assumes ks: "counting_upto 1 ks cnt" and ok: "threads_ok cnt ls H S" and t: "tasks S t = Some (b, Join_checked a)"
  shows "\<exists>T. join_lock ks t a S = Ret (None, T) \<and> threads_ok cnt (ls @ [T_lock t]) H T"
proof -
  have o: "tasks_ok S" "objects_ok cnt (exit_value ls) S" "joins_ok H S" using ok by (simp_all add: threads_ok_def)
  have ab: "a \<noteq> b" and "\<exists>th. objs S a = Some th \<and> joinable th" using o(3) t unfolding joins_ok_def by fastforce+
  then obtain th where th: "objs S a = Some th" "joinable th" by blast
  have nl: "\<not> locked S a" by (rule sole_joiner[OF o(3) t]) auto
  have no: "\<not> owned S a" by (rule sole_joiner[OF o(3) t]) auto
  have g: "obj_good cnt (exit_value ls a) (owned S a) (locked S a) (pc_of S (th_handle th)) th"
    using o(2) th(1) unfolding objects_ok_def by blast
  then obtain c m where cm: "th_sync th = Some (c, m)" "cnt m = 1" using th(2) nl by (auto simp: obj_good_def)
  obtain m1 where m1: "sk_acquire ks m = Some m1" "cnt m1 = 0" by (rule acquire_open[OF ks cm(2)])
  let ?th = "th\<lparr>th_sync := Some (c, m1)\<rparr>"
  let ?T = "S\<lparr>objs := (objs S)(a \<mapsto> ?th), tasks := (tasks S)(t \<mapsto> (b, Join_locked a))\<rparr>"
  have e: "join_lock ks t a S = Ret (None, ?T)"
    using th cm m1 ab t by (simp add: join_lock_def with_obj_def set_pc_def pthread_self_def pthread_equal_def)
  have ow: "owned ?T a \<longleftrightarrow> owned S a" by (rule holds_move[OF t], simp, simp)
  have lo: "locked ?T a" by (rule holdsI[of ?T t b "Join_locked a"]) simp_all
  have 1: "tasks_ok ?T \<and> objects_ok cnt (exit_value ls) ?T"
  proof (rule join_move[OF o(1,2) t ab _ _ _ _ th(1), where th' = ?th and pc' = "Join_locked a"])
    show "obj_good cnt (exit_value ls a) (owned ?T a) (locked ?T a) (pc_of S (th_handle th)) ?th"
      using g lo no cm m1(2) unfolding ow by (auto simp: obj_good_def)
  qed auto
  have "joins_ok H ?T" by (rule joins_ok_same[OF o(3) t]) (use th in auto)
  then show ?thesis using 1 e by (simp add: threads_ok_def exit_value_snoc)
qed

lemma wait_ok:
  assumes ks: "counting_upto 1 ks cnt" and ok: "threads_ok cnt ls H S" and t: "tasks S t = Some (b, Join_locked a)"
    and w: "join_wait ks t a S = Some r"
  shows "\<exists>T. r = Ret T \<and> threads_ok cnt (ls @ [T_wait t]) H T"
proof -
  have o: "tasks_ok S" "objects_ok cnt (exit_value ls) S" "joins_ok H S" using ok by (simp_all add: threads_ok_def)
  have ab: "a \<noteq> b" and "\<exists>th. objs S a = Some th \<and> joinable th" using o(3) t unfolding joins_ok_def by fastforce+
  then obtain th where th: "objs S a = Some th" "joinable th" by blast
  have no: "\<not> owned S a" by (rule sole_joiner[OF o(3) t]) auto
  have lS: "locked S a" by (rule holdsI[OF t]) simp
  have g: "obj_good cnt (exit_value ls a) (owned S a) (locked S a) (pc_of S (th_handle th)) th"
    using o(2) th(1) unfolding objects_ok_def by blast
  then obtain c m where cm: "th_sync th = Some (c, m)" "cnt m = 0" "cnt c = (if gone (pc_of S (th_handle th)) then 1 else 0)"
    using th(2) no lS by (auto simp: obj_good_def)
  obtain c1 where c1: "sk_acquire ks c = Some c1" using w th cm(1) by (auto simp: join_wait_def split: option.splits)
  have cc: "cnt c1 = 0" "gone (pc_of S (th_handle th))" using counting_kernelD(4)[OF ks c1] cm(3) by (auto split: if_splits)
  let ?th = "th\<lparr>th_sync := Some (c1, m)\<rparr>"
  let ?T = "S\<lparr>objs := (objs S)(a \<mapsto> ?th), tasks := (tasks S)(t \<mapsto> (b, Join_owns a))\<rparr>"
  have e: "r = Ret ?T" using w th cm(1) c1 t by (simp add: join_wait_def set_pc_def)
  have ow: "owned ?T a" by (rule holdsI[of ?T t b "Join_owns a"]) simp_all
  have lo: "locked ?T a" by (rule holdsI[of ?T t b "Join_owns a"]) simp_all
  have 1: "tasks_ok ?T \<and> objects_ok cnt (exit_value ls) ?T"
  proof (rule join_move[OF o(1,2) t ab _ _ _ _ th(1), where th' = ?th and pc' = "Join_owns a"])
    show "obj_good cnt (exit_value ls a) (owned ?T a) (locked ?T a) (pc_of S (th_handle th)) ?th"
      using g lo ow cm cc by (auto simp: obj_good_def)
  qed auto
  have "joins_ok H ?T" by (rule joins_ok_same[OF o(3) t]) (use th in auto)
  then show ?thesis using 1 e by (simp add: threads_ok_def exit_value_snoc)
qed

lemma collect_ok:
  assumes ok: "threads_ok cnt ls H S" and t: "tasks S t = Some (b, Join_owns a)"
  shows "\<exists>v T. join_collect t a S = Ret (Some (0, v), T) \<and> threads_ok cnt (ls @ [T_collect t]) H T \<and>
    exit_value ls a = Some v \<and> objs T a = None \<and> (\<forall>u. \<not> live T u a)"
proof -
  have o: "tasks_ok S" "objects_ok cnt (exit_value ls) S" "joins_ok H S" using ok by (simp_all add: threads_ok_def)
  have ab: "a \<noteq> b" "a \<notin> H" and "\<exists>th. objs S a = Some th \<and> joinable th" using o(3) t unfolding joins_ok_def by fastforce+
  then obtain th where th: "objs S a = Some th" "joinable th" by blast
  let ?h = "th_handle th"
  have own: "owned S a" by (rule holdsI[OF t]) simp
  have g: "obj_good cnt (exit_value ls a) (owned S a) (locked S a) (pc_of S ?h) th"
    using o(2) th(1) unfolding objects_ok_def by blast
  have gone: "gone (pc_of S ?h)" using g th(2) own by (simp add: obj_good_def)
  then have v: "exit_value ls a = Some (th_return th)" using g gone_ended by (auto simp: obj_good_def)
  have a0: "a \<noteq> 0" by (rule obj_nonzero[OF o(1) th(1)])
  have "live S ?h a" using o(1) a0 th(1) unfolding tasks_ok_def handle_of_def by simp
  then obtain pc where h: "tasks S ?h = Some (a, pc)" "pc \<noteq> Freed" unfolding live_def by blast
  have gpc: "gone pc" using gone h by (simp add: pc_of_def)
  have ht: "?h \<noteq> t" using h t ab by auto
  let ?S1 = "S\<lparr>tasks := (tasks S)(t \<mapsto> (b, Runs))\<rparr>"
  let ?T = "?S1\<lparr>objs := (objs ?S1)(a := None), tasks := (tasks ?S1)(?h := None)\<rparr>"
  have e: "join_collect t a S = Ret (Some (0, th_return th), ?T)"
    using th t by (simp add: join_collect_def with_obj_def set_pc_def Let_def)
  have t1: "tasks_ok ?S1"
    by (rule tasks_ok_move[OF o(1) t]) (simp_all add: handle_of_def)
  have j1: "joins_ok H ?S1" by (rule joins_ok_same[OF o(3) t]) auto
  have nj: "joins q \<noteq> Some a" if q: "tasks ?S1 u = Some (c, q)" for u c q
  proof
    assume j: "joins q = Some a"
    then have "u \<noteq> t" using q by auto
    then have "tasks S u = Some (c, q)" using q by simp
    then show False using o(3) t j \<open>u \<noteq> t\<close> unfolding joins_ok_def by (metis joins.simps(3))
  qed
  have good: "obj_good cnt (exit_value ls y) (owned ?S1 y) (locked ?S1 y) (pc_of ?S1 (th_handle xh)) xh"
    if y: "objs ?S1 y = Some xh" "y \<noteq> a" for y xh
  proof -
    have ow: "owned ?S1 y \<longleftrightarrow> owned S y" by (rule holds_move[OF t], simp) (use y in simp)
    have lo: "locked ?S1 y \<longleftrightarrow> locked S y" by (rule holds_move[OF t], simp) (use y in simp)
    have p: "ended (pc_of ?S1 u) = ended (pc_of S u)" "gone (pc_of ?S1 u) = gone (pc_of S u)" for u
      using t by (auto simp: pc_of_def)
    have "obj_good cnt (exit_value ls y) (owned S y) (locked S y) (pc_of S (th_handle xh)) xh"
      using o(2) y(1) by (simp add: objects_ok_def)
    then show ?thesis unfolding ow lo
      using obj_good_pc[OF p(1)[of "th_handle xh"] p(2)[of "th_handle xh"]] by blast
  qed
  have jn: "joins pc = None" using gpc by (cases pc) simp_all
  have T: "tasks_ok ?T \<and> objects_ok cnt (exit_value ls) ?T \<and> joins_ok H ?T"
    by (rule remove_object[OF t1 j1 good ab(2) nj, where th = th and t = ?h and pc = pc and x = None])
       (use h ht th jn in simp_all)
  have "\<not> live ?T u a" for u
  proof -
    have "handle_of ?T a = None" by (simp add: handle_of_def)
    then show ?thesis using T a0 unfolding tasks_ok_def by simp
  qed
  then show ?thesis using e T v by (auto simp: threads_ok_def exit_value_snoc)
qed

text \<open>A new thread: its object and its task appear together.\<close>

lemma exec_bind_RetD: "exec_bind x f = Ret y \<Longrightarrow> \<exists>z. x = Ret z \<and> f z = Ret y"
  by (cases x) simp_all

lemma stored_name_attr: "prvStoreThreadName cfg nm th = Ret th' \<Longrightarrow> th_attr th' = th_attr th \<and> th_sync th' = th_sync th"
  by (auto simp: prvStoreThreadName_def dest!: exec_bind_RetD)

definition attr_given :: "thread_config \<Rightarrow> pthread_attr option \<Rightarrow> pthread_attr" where
  "attr_given cfg attr = (case attr of None \<Rightarrow> xDefaultThreadAttributes (PTHREAD_STACK_MIN cfg) | Some x \<Rightarrow> x)"

lemma new_thread_good:
  assumes "counting_upto 1 ks cnt" "new_thread cfg ks mem attr f arg = Ret th"
  shows "th_attr th = attr_given cfg attr" "joinable th \<Longrightarrow> \<exists>b m. th_sync th = Some (b, m) \<and> cnt m = 1 \<and> cnt b = 0"
proof -
  obtain th1 where th1: "th_attr th1 = attr_given cfg attr" "th = (if joinable th1 then th1\<lparr>th_sync := Some (sk_create ks 1 0, sk_create ks 1 1)\<rparr> else th1)"
    using assms(2) unfolding new_thread_def attr_given_def Let_def
    by (fastforce dest!: exec_bind_RetD stored_name_attr split: if_splits)
  then show "th_attr th = attr_given cfg attr" by simp
  show "joinable th \<Longrightarrow> \<exists>b m. th_sync th = Some (b, m) \<and> cnt m = 1 \<and> cnt b = 0"
    using th1 counting_kernelD(1)[OF assms(1)] by (simp split: if_splits)
qed

lemma create_tasks_ok:
  assumes ok: "tasks_ok S" and a: "a \<noteq> 0" "objs S a = None" "tasks S h = None" and h: "th_handle th = h"
  shows "tasks_ok (S\<lparr>objs := (objs S)(a \<mapsto> th), tasks := (tasks S)(h \<mapsto> (a, Runs))\<rparr>)" (is "tasks_ok ?T")
proof -
  have nl: "\<not> live S u a" for u using ok a by (simp add: tasks_ok_def handle_of_def)
  have nh: "\<not> live S h x" for x using a(3) by (simp add: live_def)
  have l: "live ?T u x \<longleftrightarrow> live S u x \<or> u = h \<and> x = a" for u x
    using nh by (cases "u = h") (auto simp: live_def)
  have e: "handle_of ?T x = (if x = a then Some h else handle_of S x)" for x using h by (simp add: handle_of_def)
  show ?thesis
    unfolding tasks_ok_def
  proof (intro conjI allI impI)
    show "objs ?T 0 = None" using ok a(1) by (simp add: tasks_ok_def)
    fix u x assume x: "x \<noteq> (0::nat)"
    show "live ?T u x \<longleftrightarrow> handle_of ?T x = Some u"
    proof (cases "x = a")
      case True
      then show ?thesis unfolding l e using nl by auto
    next
      case False
      then show ?thesis unfolding l e using ok x by (simp add: tasks_ok_def)
    qed
  next
    fix u q assume "tasks ?T u = Some (0, q)"
    then have "tasks S u = Some (0, q)" using a(1) by (simp split: if_splits)
    then show "\<not> ended q" "q \<noteq> Freed" using ok unfolding tasks_ok_def by blast+
  qed
qed

lemma create_ok:
  assumes ks: "counting_upto 1 ks cnt" and ok: "threads_ok cnt ls H S"
    and do: "thread_do cfg ks mem (T_create a h attr f arg) S = Some (Ret (r, T))"
  shows "threads_ok cnt (ls @ [T_create a h attr f arg]) (handles_after cfg (T_create a h attr f arg) H) T \<and> r = None"
proof -
  have o: "tasks_ok S" "objects_ok cnt (exit_value ls) S" "joins_ok H S" using ok by (simp_all add: threads_ok_def)
  have a: "a \<noteq> 0" "objs S a = None" "tasks S h = None" and
    p: "exec_bind (pthread_create cfg ks mem (Some a) (\<lambda>_ _ _. Some h) attr f arg S) (\<lambda>(st, th, T). Ret (None, T)) = Ret (r, T)"
    using do by (simp_all add: thread_do_def Let_def split: if_splits)
  obtain th0 where th0: "new_thread cfg ks mem attr f arg = Ret th0" and r: "r = None" and
    T: "T = S\<lparr>objs := (objs S)(a \<mapsto> th0\<lparr>th_handle := h\<rparr>), tasks := (tasks S)(h \<mapsto> (a, Runs))\<rparr>"
    using p by (auto simp: pthread_create_def dest!: exec_bind_RetD)
  note good = new_thread_good[OF ks th0]
  have tT: "tasks T = (tasks S)(h := Some (a, Runs))" "objs T = (objs S)(a \<mapsto> th0\<lparr>th_handle := h\<rparr>)" using T by simp_all
  have 1: "tasks_ok T" unfolding T by (rule create_tasks_ok[OF o(1) a]) simp
  have ow: "owned T x \<longleftrightarrow> owned S x" for x by (rule holds_new[OF a(3) tT(1)]) simp
  have lo: "locked T x \<longleftrightarrow> locked S x" for x by (rule holds_new[OF a(3) tT(1)]) simp
  have nj: "joins q \<noteq> Some a" if "tasks S u = Some (c, q)" for u c q
    using o(3) that a(2) unfolding joins_ok_def by (metis option.distinct(1))
  have no: "\<not> holds P S" if "\<And>q. P q \<Longrightarrow> joins q = Some a" for P
    using nj that unfolding holds_def by blast
  have n1: "\<not> owned S a" by (rule no) auto
  have n2: "\<not> locked S a" by (rule no) auto
  have 2: "objects_ok cnt (exit_value (ls @ [T_create a h attr f arg])) T"
    unfolding objects_ok_def
  proof (intro allI impI)
    fix x xh assume x: "objs T x = Some xh"
    show "obj_good cnt (exit_value (ls @ [T_create a h attr f arg]) x) (owned T x) (locked T x) (pc_of T (th_handle xh)) xh"
    proof (cases "x = a")
      case True
      then have xh: "xh = th0\<lparr>th_handle := h\<rparr>" using x tT by simp
      then have "pc_of T (th_handle xh) = Runs" using tT by (simp add: pc_of_def)
      then show ?thesis using True good xh n1 n2 unfolding ow lo by (simp add: obj_good_def)
    next
      case False
      then have xs: "objs S x = Some xh" using x tT by simp
      have "live S (th_handle xh) x" using o(1) xs obj_nonzero[OF o(1) xs] unfolding tasks_ok_def handle_of_def by simp
      then have "th_handle xh \<noteq> h" using a(3) by (auto simp: live_def)
      then have "pc_of T (th_handle xh) = pc_of S (th_handle xh)" using tT by (simp add: pc_of_def)
      then show ?thesis using o(2) xs False unfolding ow lo by (simp add: objects_ok_def exit_value_snoc)
    qed
  qed
  let ?H = "handles_after cfg (T_create a h attr f arg) H"
  have H: "x \<in> ?H \<Longrightarrow> x \<noteq> a \<Longrightarrow> x \<in> H" "a \<in> ?H \<Longrightarrow> joinable th0" for x
    using good(1) by (auto simp: attr_given_def split: if_splits)
  have jj: "tasks S u = Some (c, q)" if "tasks T u = Some (c, q)" "joins q = Some x" for u c q x
    using that tT by (cases "u = h") auto
  have 3: "joins_ok ?H T"
    unfolding joins_ok_def
  proof (intro conjI allI impI ballI)
    fix u c q x assume q: "tasks T u = Some (c, q)" "joins q = Some x"
    have s: "tasks S u = Some (c, q)" by (rule jj[OF q])
    then have xa: "x \<noteq> a" using nj q(2) by metis
    have g: "x \<notin> H \<and> x \<noteq> c \<and> (\<exists>th. objs S x = Some th \<and> joinable th)" using o(3) s q(2) unfolding joins_ok_def by blast
    then show "x \<notin> ?H" using H(1) xa by blast
    show "x \<noteq> c" "\<exists>th. objs T x = Some th \<and> joinable th" using g xa tT by simp_all
  next
    fix u c q u' c' q' x
    assume q: "tasks T u = Some (c, q)" "joins q = Some x" "tasks T u' = Some (c', q')" "joins q' = Some x"
    show "u' = u" using o(3) jj[OF q(1,2)] jj[OF q(3,4)] q(2,4) unfolding joins_ok_def by blast
  next
    fix x assume x: "x \<in> ?H"
    show "\<exists>th. objs T x = Some th \<and> joinable th"
    proof (cases "x = a")
      case True
      then show ?thesis using H(2) x tT by simp
    next
      case False
      then have "x \<in> H" using H(1) x by blast
      then show ?thesis using o(3) False tT unfolding joins_ok_def by simp
    qed
  qed
  show ?thesis using 1 2 3 r by (simp add: threads_ok_def)
qed

section \<open>Runs\<close>

text \<open>Whether an event is a creation; only its reading of the name can fault.\<close>

fun creates :: "thread_event \<Rightarrow> bool" where
  "creates (T_create a h attr f arg) = True" | "creates _ = False"

lemma event_ok:
  assumes ks: "counting_upto 1 ks cnt" and ok: "threads_ok cnt ls H S" and p: "proper H S ev"
    and do: "thread_do cfg ks mem ev S = Some x" and x: "x = Ret (r, T) \<or> \<not> creates ev"
  shows "\<exists>r T. x = Ret (r, T) \<and> threads_ok cnt (ls @ [ev]) (handles_after cfg ev H) T"
proof (cases ev)
  case (T_create a h attr f arg)
  then show ?thesis using create_ok[OF ks ok] do x by auto
next
  case (T_finish t a v)
  then have t: "tasks S t = Some (a, Runs)" "a \<noteq> 0" using do by (simp_all add: thread_do_def Let_def split: if_splits)
  show ?thesis using finish_ok[OF ok t, of v] T_finish do t by (auto simp: thread_do_def Let_def)
next
  case (T_exit t)
  then obtain a where t: "tasks S t = Some (a, Exiting)"
    using do by (auto simp: thread_do_def Let_def split: option.splits thread_pc.splits)
  show ?thesis using exit_ok[OF ks ok t] T_exit do t by (auto simp: thread_do_def Let_def)
next
  case (T_stop t)
  then obtain a pc where t: "tasks S t = Some (a, pc)" "pc = Given \<or> pc = Freed"
    using do by (auto simp: thread_do_def Let_def split: option.splits thread_pc.splits)
  then show ?thesis
  proof (elim disjE)
    assume "pc = Given"
    then show ?thesis using suspend_ok[OF ok, of t a] T_stop do t by (auto simp: thread_do_def Let_def)
  next
    assume "pc = Freed"
    then show ?thesis using delete_ok[OF ok, of t a] T_stop do t by (auto simp: thread_do_def Let_def)
  qed
next
  case (T_join t a)
  then obtain b where t: "tasks S t = Some (b, Runs)"
    using do by (auto simp: thread_do_def Let_def split: option.splits thread_pc.splits)
  have "a \<in> H" "b \<noteq> a" using p T_join t by (simp_all add: pthread_self_def)
  from check_ok[OF ok t this] show ?thesis using T_join do t by (auto simp: thread_do_def Let_def)
next
  case (T_lock t)
  then obtain b a where t: "tasks S t = Some (b, Join_checked a)"
    using do by (auto simp: thread_do_def Let_def split: option.splits thread_pc.splits)
  show ?thesis using lock_ok[OF ks ok t] T_lock do t by (auto simp: thread_do_def Let_def)
next
  case (T_wait t)
  then obtain b a where t: "tasks S t = Some (b, Join_locked a)"
    using do by (auto simp: thread_do_def Let_def split: option.splits thread_pc.splits)
  then obtain y where y: "join_wait ks t a S = Some y" "x = exec_bind y (\<lambda>T. Ret (None, T))"
    using T_wait do by (auto simp: thread_do_def Let_def)
  show ?thesis using wait_ok[OF ks ok t y(1)] y(2) T_wait by auto
next
  case (T_collect t)
  then obtain b a where t: "tasks S t = Some (b, Join_owns a)"
    using do by (auto simp: thread_do_def Let_def split: option.splits thread_pc.splits)
  show ?thesis using collect_ok[OF ok t] T_collect do t by (auto simp: thread_do_def Let_def)
qed

lemma run_threads_ok:
  assumes ks: "counting_upto 1 ks cnt" and run: "thread_run cfg ks mem ls H S"
  shows "threads_ok cnt ls H S"
  using run
proof (induction rule: thread_run.induct)
  case (thread_start M)
  then show ?case
    by (auto simp: threads_ok_def tasks_ok_def objects_ok_def joins_ok_def live_def handle_of_def split: if_splits)
next
  case (thread_next ls H S ev r T)
  then show ?case using event_ok[OF ks thread_next.IH thread_next.hyps(2,3)] by blast
qed

text \<open>Several events, and the result of the last.\<close>

fun thread_exec ::
  "thread_config \<Rightarrow> 'k sem_kernel \<Rightarrow> (nat \<Rightarrow> byte option) \<Rightarrow> thread_event list \<Rightarrow> nat set \<Rightarrow> 'k thread_sys
   \<Rightarrow> (int \<times> nat) option \<Rightarrow> ((int \<times> nat) option \<times> nat set \<times> 'k thread_sys) option"
where
  "thread_exec cfg ks mem [] H S r = Some (r, H, S)"
| "thread_exec cfg ks mem (ev # evs) H S r =
    (if proper H S ev then
       (case thread_do cfg ks mem ev S of
          Some (Ret (r', T)) \<Rightarrow> thread_exec cfg ks mem evs (handles_after cfg ev H) T r'
        | _ \<Rightarrow> None)
     else None)"

lemma thread_exec_run:
  "thread_run cfg ks mem ls H S \<Longrightarrow> thread_exec cfg ks mem evs H S r = Some (r', H', T) \<Longrightarrow> thread_run cfg ks mem (ls @ evs) H' T"
proof (induction evs arbitrary: ls H S r)
  case Nil
  then show ?case by simp
next
  case (Cons ev evs)
  then obtain q U where q: "proper H S ev" "thread_do cfg ks mem ev S = Some (Ret (q, U))"
    "thread_exec cfg ks mem evs (handles_after cfg ev H) U q = Some (r', H', T)"
    by (auto split: if_splits option.splits exec.splits)
  show ?case using Cons.IH[OF thread_next[OF Cons.prems(1) q(1,2)] q(3)] by simp
qed

lemma exec_collect:
  assumes ok: "threads_ok cnt ls H S" and t: "tasks S t = Some (b, Join_owns a)"
  shows "\<exists>v T. thread_exec cfg ks mem [T_collect t] H S r = Some (Some (0, v), H, T) \<and> exit_value ls a = Some v \<and>
    objs T a = None \<and> (\<forall>u. \<not> live T u a)"
  using collect_ok[OF ok t] t by (auto simp: thread_do_def Let_def)

lemma exec_wait:
  assumes ks: "counting_upto 1 ks cnt" and ok: "threads_ok cnt ls H S" and t: "tasks S t = Some (b, Join_locked a)"
    and th: "objs S a = Some th" "gone (pc_of S (th_handle th))"
  shows "\<exists>v T. thread_exec cfg ks mem [T_wait t, T_collect t] H S r = Some (Some (0, v), H, T) \<and> exit_value ls a = Some v \<and>
    objs T a = None \<and> (\<forall>u. \<not> live T u a)"
proof -
  have o: "objects_ok cnt (exit_value ls) S" "joins_ok H S" using ok by (simp_all add: threads_ok_def)
  have no: "\<not> owned S a" by (rule sole_joiner[OF o(2) t]) auto
  have g: "obj_good cnt (exit_value ls a) (owned S a) (locked S a) (pc_of S (th_handle th)) th"
    using o(1) th(1) unfolding objects_ok_def by blast
  obtain c m where cm: "th_sync th = Some (c, m)" "cnt c = 1" using g no th(2) unfolding obj_good_def by auto
  obtain c1 where c1: "sk_acquire ks c = Some c1" by (rule acquire_open[OF ks cm(2)])
  let ?T = "set_pc t (Join_owns a) (S\<lparr>objs := (objs S)(a \<mapsto> th\<lparr>th_sync := Some (c1, m)\<rparr>)\<rparr>)"
  have w: "join_wait ks t a S = Some (Ret ?T)" using th cm c1 by (simp add: join_wait_def)
  have o1: "threads_ok cnt (ls @ [T_wait t]) H ?T" using wait_ok[OF ks ok t w] by simp
  have "tasks ?T t = Some (b, Join_owns a)" using t by (simp add: set_pc_def)
  from exec_collect[OF o1 this, of cfg ks mem None] show ?thesis
    using t w by (simp add: thread_do_def Let_def exit_value_snoc)
qed

lemma exec_lock:
  assumes ks: "counting_upto 1 ks cnt" and ok: "threads_ok cnt ls H S" and t: "tasks S t = Some (b, Join_checked a)"
    and th: "objs S a = Some th" "gone (pc_of S (th_handle th))"
  shows "\<exists>v T. thread_exec cfg ks mem [T_lock t, T_wait t, T_collect t] H S r = Some (Some (0, v), H, T) \<and> exit_value ls a = Some v \<and>
    objs T a = None \<and> (\<forall>u. \<not> live T u a)"
proof -
  obtain T where T: "join_lock ks t a S = Ret (None, T)" "threads_ok cnt (ls @ [T_lock t]) H T"
    using lock_ok[OF ks ok t] by blast
  obtain th' where e: "tasks T t = Some (b, Join_locked a)" "objs T a = Some th'" "th_handle th' = th_handle th"
    using T(1) t th(1) by (auto simp: join_lock_def with_obj_def set_pc_def Let_def split: option.splits prod.splits if_splits)
  have "pc_of T u = (if u = t then Join_locked a else pc_of S u)" for u
    using T(1) t th(1) by (auto simp: pc_of_def join_lock_def with_obj_def set_pc_def Let_def split: option.splits prod.splits if_splits)
  moreover have "th_handle th \<noteq> t" using th(2) t by (auto simp: pc_of_def)
  ultimately have "gone (pc_of T (th_handle th'))" using th(2) e(3) by simp
  from exec_wait[OF ks T(2) e(1,2) this, of cfg mem None] show ?thesis
    using t T(1) by (simp add: thread_do_def Let_def exit_value_snoc)
qed

section \<open>Properties\<close>

text \<open>C16: In every run in which the application joins only joinable threads that nobody has begun to join:
  a thread object exists exactly as long as its one task, which has not freed it yet; the threads that
  can still be joined exist and are joinable; and no operation but the creation, which reads a name
  through its argument, accesses an object that does not exist.\<close>

theorem thread_objects:
  assumes "counting_upto 1 ks cnt" "thread_run cfg ks mem ls H S"
  shows "(\<forall>a th. objs S a = Some th \<longrightarrow> {t. live S t a} = {th_handle th}) \<and>
    (\<forall>t a. live S t a \<longrightarrow> a \<noteq> 0 \<longrightarrow> objs S a \<noteq> None) \<and>
    (\<forall>a\<in>H. \<exists>th. objs S a = Some th \<and> joinable th) \<and>
    (\<forall>ev x. proper H S ev \<longrightarrow> thread_do cfg ks mem ev S = Some x \<longrightarrow> creates ev \<or> x \<noteq> Faults)"
proof (intro conjI allI impI)
  note ok = run_threads_ok[OF assms]
  then have o: "tasks_ok S" "joins_ok H S" by (simp_all add: threads_ok_def)
  show "{t. live S t a} = {th_handle th}" if "objs S a = Some th" for a th
    using o(1) obj_nonzero[OF o(1) that] that unfolding tasks_ok_def handle_of_def by auto
  show "objs S a \<noteq> None" if "live S t a" "a \<noteq> 0" for t a
    using o(1) that unfolding tasks_ok_def handle_of_def by force
  show "\<forall>a\<in>H. \<exists>th. objs S a = Some th \<and> joinable th" using o(2) by (simp add: joins_ok_def)
  show "creates ev \<or> x \<noteq> Faults" if "proper H S ev" "thread_do cfg ks mem ev S = Some x" for ev x
    using event_ok[OF assms(1) ok that] by auto
qed

text \<open>C6: When a thread waits in \<open>pthread\<open>_\<close>join\<close> for a thread that has come to its end, its own next steps
  finish the call: it returns 0 and the value with which the other thread ended, and the object and
  the task of that thread are gone.\<close>

theorem join_returns:
  assumes "counting_upto 1 ks cnt" "thread_run cfg ks mem ls H S"
    and "tasks S t = Some (b, pc)" "joins pc = Some a" "objs S a = Some th" "gone (pc_of S (th_handle th))"
  shows "\<exists>evs v T. set evs \<subseteq> {T_lock t, T_wait t, T_collect t} \<and>
    thread_exec cfg ks mem evs H S None = Some (Some (0, v), H, T) \<and> exit_value ls a = Some v \<and>
    objs T a = None \<and> (\<forall>u. \<not> live T u a)"
proof -
  note ok = run_threads_ok[OF assms(1,2)]
  from assms(4) consider "pc = Join_checked a" | "pc = Join_locked a" | "pc = Join_owns a" by (cases pc) auto
  then show ?thesis
  proof cases
    case 1
    from exec_lock[OF assms(1) ok _ assms(5,6), of t b cfg mem None] assms(3) 1 show ?thesis
      by (intro exI[of _ "[T_lock t, T_wait t, T_collect t]"]) auto
  next
    case 2
    from exec_wait[OF assms(1) ok _ assms(5,6), of t b cfg mem None] assms(3) 2 show ?thesis
      by (intro exI[of _ "[T_wait t, T_collect t]"]) auto
  next
    case 3
    from exec_collect[OF ok, of t b a cfg ks mem None] assms(3) 3 show ?thesis
      by (intro exI[of _ "[T_collect t]"]) auto
  qed
qed

text \<open>A joinable thread that joins itself is refused with \<open>EDEADLK\<close>, but its join mutex stays locked:
  every later \<open>pthread\<open>_\<close>join\<close> of it is refused too, so nobody can free it any more.\<close>

theorem self_join_blocks_others:
  assumes "counting_upto 1 ks cnt" "thread_run cfg ks mem ls H S"
    and "tasks S t = Some (a, Runs)" "a \<in> H" "tasks S u = Some (b, Runs)" "u \<noteq> t"
  shows "\<exists>S1 S2 S3 S4. thread_do cfg ks mem (T_join t a) S = Some (Ret (None, S1)) \<and>
    thread_do cfg ks mem (T_lock t) S1 = Some (Ret (Some (EDEADLK, 0), S2)) \<and>
    thread_do cfg ks mem (T_join u a) S2 = Some (Ret (None, S3)) \<and>
    thread_do cfg ks mem (T_lock u) S3 = Some (Ret (Some (EDEADLK, 0), S4)) \<and> objs S4 a = objs S2 a \<and> objs S4 a \<noteq> None"
proof -
  have ok: "tasks_ok S" "objects_ok cnt (exit_value ls) S" "joins_ok H S"
    using run_threads_ok[OF assms(1,2)] by (simp_all add: threads_ok_def)
  obtain th where th: "objs S a = Some th" "joinable th" using ok(3) assms(4) unfolding joins_ok_def by blast
  have nj: "joins q \<noteq> Some a" if "tasks S v = Some (c, q)" for v c q using ok(3) that assms(4) unfolding joins_ok_def by blast
  have nl: "\<not> locked S a" using nj unfolding holds_def by fastforce
  have "obj_good cnt (exit_value ls a) (owned S a) (locked S a) (pc_of S (th_handle th)) th"
    using ok(2) th(1) by (simp add: objects_ok_def)
  then obtain c m where cm: "th_sync th = Some (c, m)" "cnt m = 1" using th(2) nl unfolding obj_good_def by auto
  obtain m1 where m1: "sk_acquire ks m = Some m1" "cnt m1 = 0" by (rule acquire_open[OF assms(1) cm(2)])
  then have m2: "sk_acquire ks m1 = None" using counting_kernelD(3)[OF assms(1)] by simp
  show ?thesis using assms(3,5,6) th cm m1 m2
    by (simp add: thread_do_def Let_def join_check_def join_lock_def with_obj_def set_pc_def pthread_self_def pthread_equal_def)
qed

section \<open>Instances\<close>

text \<open>Task 1 creates a thread with the default attributes, begins to join it, and the thread ends with
  the value 7; task 2 looks on.\<close>

definition demo_config :: thread_config where
  "demo_config = \<lparr>configMAX_TASK_NAME_LEN = 3, PTHREAD_STACK_MIN = 512\<rparr>"

definition demo_tasks :: "nat thread_sys" where
  "demo_tasks = \<lparr>objs = (\<lambda>_. None), tasks = (\<lambda>t. if t \<in> {1, 2} then Some (0, Runs) else None)\<rparr>"

definition demo_thread :: "nat pthread" where
  "demo_thread = \<lparr>th_attr = xDefaultThreadAttributes 512, th_start = 5, th_arg = 0, th_handle = 10, th_sync = Some (0, 1),
     th_return = 0, th_name = [0x70, 0x74, 0]\<rparr>"

lemma default_joinable: "pthreadIS_JOINABLE (usSchedPriorityDetachState (xDefaultThreadAttributes m))"
  by (simp add: xDefaultThreadAttributes_def joinable_bit bit_push_bit_iff)

lemma demo_create:
  "thread_do demo_config (count_kernel 1) (\<lambda>_. None) (T_create 100 10 None 5 0) demo_tasks =
    Some (Ret (None, demo_tasks\<lparr>objs := (objs demo_tasks)(100 \<mapsto> demo_thread), tasks := (tasks demo_tasks)(10 \<mapsto> (100, Runs))\<rparr>))"
  using default_joinable[of 512]
  by (simp add: thread_do_def demo_tasks_def demo_thread_def pthread_create_def new_thread_def prvResolveInitialName_def
      prvStoreThreadName_def posixconfigPTHREAD_TASK_NAME_def read_list_def copy_name.simps count_kernel_def demo_config_def
      numeral_3_eq_3)

lemma demo_created:
  "thread_run demo_config (count_kernel 1) (\<lambda>_. None) [T_create 100 10 None 5 0] {100}
    (demo_tasks\<lparr>objs := (objs demo_tasks)(100 \<mapsto> demo_thread), tasks := (tasks demo_tasks)(10 \<mapsto> (100, Runs))\<rparr>)"
proof -
  have "thread_run demo_config (count_kernel 1) (\<lambda>_. None) [] {} demo_tasks"
    unfolding demo_tasks_def by (rule thread_start)
  from thread_next[OF this _ demo_create] show ?thesis using default_joinable by simp
qed

lemma demo_ended:
  "\<exists>H S th. thread_run demo_config (count_kernel 1) (\<lambda>_. None)
      ([T_create 100 10 None 5 0] @ [T_join 1 100, T_finish 10 100 7, T_exit 10]) H S \<and>
    tasks S 1 = Some (0, Join_checked 100) \<and> objs S 100 = Some th \<and> gone (pc_of S (th_handle th))"
proof -
  obtain r H S where e: "thread_exec demo_config (count_kernel 1) (\<lambda>_. None) [T_join 1 100, T_finish 10 100 7, T_exit 10] {100}
    (demo_tasks\<lparr>objs := (objs demo_tasks)(100 \<mapsto> demo_thread), tasks := (tasks demo_tasks)(10 \<mapsto> (100, Runs))\<rparr>) None = Some (r, H, S)"
    "tasks S 1 = Some (0, Join_checked 100)" "\<exists>th. objs S 100 = Some th \<and> gone (pc_of S (th_handle th))"
    using default_joinable[of 512]
    by (simp add: thread_do_def Let_def demo_tasks_def demo_thread_def join_check_def thread_finish_def prvExitThread_def
        with_obj_def set_pc_def pthread_self_def pc_of_def count_kernel_def)
  from thread_exec_run[OF demo_created e(1)] e(2,3) show ?thesis by blast
qed

theorem thread_objects_witness:
  "\<exists>H S th. thread_run demo_config (count_kernel 1) (\<lambda>_. None) [T_create 100 10 None 5 0] H S \<and> objs S 100 = Some th \<and>
    {t. live S t 100} = {th_handle th}"
proof -
  let ?S = "demo_tasks\<lparr>objs := (objs demo_tasks)(100 \<mapsto> demo_thread), tasks := (tasks demo_tasks)(10 \<mapsto> (100, Runs))\<rparr>"
  have "objs ?S 100 = Some demo_thread" by simp
  then have "{t. live ?S t 100} = {th_handle demo_thread}"
    using thread_objects[OF count_kernel_counts demo_created] by blast
  with demo_created show ?thesis by fastforce
qed

theorem join_returns_witness:
  "\<exists>H S evs T. thread_run demo_config (count_kernel 1) (\<lambda>_. None)
      ([T_create 100 10 None 5 0] @ [T_join 1 100, T_finish 10 100 7, T_exit 10]) H S \<and>
    thread_exec demo_config (count_kernel 1) (\<lambda>_. None) evs H S None = Some (Some (0, 7), H, T) \<and> objs T 100 = None"
proof -
  obtain H S th where d: "thread_run demo_config (count_kernel 1) (\<lambda>_. None)
      ([T_create 100 10 None 5 0] @ [T_join 1 100, T_finish 10 100 7, T_exit 10]) H S"
    "tasks S 1 = Some (0, Join_checked 100)" "objs S 100 = Some th" "gone (pc_of S (th_handle th))"
    using demo_ended by blast
  have "exit_value ([T_create 100 10 None 5 0] @ [T_join 1 100, T_finish 10 100 7, T_exit 10]) 100 = Some 7"
    by (simp add: exit_value_def)
  then show ?thesis using join_returns[OF count_kernel_counts d(1,2) _ d(3,4)] d(1) by fastforce
qed

theorem self_join_blocks_others_witness:
  "\<exists>H S S1 S2. thread_run demo_config (count_kernel 1) (\<lambda>_. None) [T_create 100 10 None 5 0] H S \<and>
    thread_do demo_config (count_kernel 1) (\<lambda>_. None) (T_join 10 100) S = Some (Ret (None, S1)) \<and>
    thread_do demo_config (count_kernel 1) (\<lambda>_. None) (T_lock 10) S1 = Some (Ret (Some (EDEADLK, 0), S2))"
  using self_join_blocks_others[OF count_kernel_counts demo_created, of 10 100 2 0] demo_created
  by (auto simp: demo_tasks_def)

end
