(* ===== verification/Posix_Timer.thy ===== *)
theory Posix_Timer
  imports Posix_Time
begin

text \<open>
  POSIX timers (FreeRTOS\<open>_\<close>POSIX\<open>_\<close>timer.c), \<open>sleep\<close> and \<open>usleep\<close> (FreeRTOS\<open>_\<close>POSIX\<open>_\<close>unistd.c) and the rest
  of the clock functions.  The software timers of FreeRTOS are a parameter: a timer \<open>'k\<close> with the
  operations that the code calls, whose commands take effect when they are given.  Times of the
  kernel are 32-bit ticks.  \<open>hz\<close> is \<open>configTICK\<open>_\<close>RATE\<open>_\<close>HZ\<close>, \<open>ms_to_ticks\<close> is \<open>pdMS\<open>_\<close>TO\<open>_\<close>TICKS\<close>.
\<close>

section \<open>Clocks and sleeping\<close>

abbreviation (input) POSIX_EPERM :: int where "POSIX_EPERM \<equiv> 1"
abbreviation (input) POSIX_EAGAIN :: int where "POSIX_EAGAIN \<equiv> 11"

definition clock :: int where "clock = - 1"

definition clock_getcpuclockid :: int where "clock_getcpuclockid = POSIX_EPERM"

text \<open>\<open>shim\<close> is the platform's clock where it is configured; otherwise the ticks are converted, with the
  number of their overflows.\<close>

definition clock_gettime :: "int \<Rightarrow> (int \<times> timespec) option \<Rightarrow> nat \<Rightarrow> 32 word \<Rightarrow> int \<times> timespec" where
  "clock_gettime hz shim overflows ticks =
    (case shim of Some r \<Rightarrow> r
     | None \<Rightarrow> (0, UTILS_NanosecondsToTimespec
         (s64 (s64 (take_bit 64 (int overflows * 4294967296 + uint ticks)) * NANOSECONDS_PER_TICK hz))))"

definition clock_settime :: "int option \<Rightarrow> int \<Rightarrow> int \<times> int" where
  "clock_settime shim errno = (case shim of Some r \<Rightarrow> (r, errno) | None \<Rightarrow> (- 1, POSIX_EPERM))"

definition sleep :: "(int \<Rightarrow> int) \<Rightarrow> 32 word \<Rightarrow> int \<times> sleep_call list" where
  "sleep ms_to_ticks seconds = (0, [Task_delay (ms_to_ticks (uint (seconds * 1000)))])"

definition usleep :: "(int \<Rightarrow> int) \<Rightarrow> 32 word \<Rightarrow> int \<times> sleep_call list" where
  "usleep ms_to_ticks usec =
    (0, [Task_delay (ms_to_ticks (uint (usec div 1000 + (if usec mod 1000 \<noteq> 0 then 1 else 0))))])"

section \<open>Timers\<close>

record 'k timer_kernel =
  tk_create :: 'k
  tk_change_period :: "32 word \<Rightarrow> 32 word \<Rightarrow> 'k \<Rightarrow> 'k"
  tk_start :: "32 word \<Rightarrow> 'k \<Rightarrow> 'k"
  tk_stop :: "'k \<Rightarrow> 'k"
  tk_active :: "'k \<Rightarrow> bool"
  tk_expiry :: "'k \<Rightarrow> 32 word"
  tk_expire :: "'k \<Rightarrow> 'k"

datatype sigev_notify = SIGEV_NONE | SIGEV_SIGNAL | SIGEV_THREAD

record sigevent =
  sigev_notify :: sigev_notify
  sigev_notify_attributes :: bool

text \<open>How a notification is given.\<close>

datatype notification = Notify_call | Notify_thread

record 'k timer_internal =
  xTimerBuffer :: 'k
  xTimerEvent :: sigevent
  xTimerPeriod :: "32 word"
  notified :: "notification list"

record itimerspec =
  it_interval :: timespec
  it_value :: timespec

definition prvTimerCallback :: "'k timer_kernel \<Rightarrow> 32 word \<Rightarrow> 'k timer_internal \<Rightarrow> 'k timer_internal exec" where
  "prvTimerCallback tk now T =
    (if sigev_notify (xTimerEvent T) = SIGEV_SIGNAL then Faults
     else
       let T1 = (if xTimerPeriod T > 0
                 then T\<lparr>xTimerBuffer := tk_change_period tk now (xTimerPeriod T) (xTimerBuffer T)\<rparr> else T)
       in if sigev_notify (xTimerEvent T) = SIGEV_THREAD
          then Ret (T1\<lparr>notified := notified T1 @
                 [if \<not> sigev_notify_attributes (xTimerEvent T) then Notify_call else Notify_thread]\<rparr>)
          else Ret T1)"

text \<open>The status, \<open>errno\<close> and the timer; \<open>alloc\<close> says whether memory was there.\<close>

definition timer_create ::
  "'k timer_kernel \<Rightarrow> sigevent option \<Rightarrow> bool \<Rightarrow> int \<Rightarrow> int \<times> int \<times> 'k timer_internal option"
where
  "timer_create tk evp alloc errno =
    (case evp of None \<Rightarrow> (- 1, ENOTSUP, None)
     | Some ev \<Rightarrow>
       if sigev_notify ev = SIGEV_SIGNAL then (- 1, ENOTSUP, None)
       else if \<not> alloc then (- 1, POSIX_EAGAIN, None)
       else (0, errno, Some \<lparr>xTimerBuffer = tk_create tk, xTimerEvent = ev, xTimerPeriod = 0, notified = []\<rparr>))"

text \<open>Stopping takes effect at once here, so a timer that stays active would be waited for for ever.\<close>

definition timer_delete :: "'k timer_kernel \<Rightarrow> 'k timer_internal \<Rightarrow> int exec" where
  "timer_delete tk T = (if tk_active tk (tk_stop tk (xTimerBuffer T)) then Diverges else Ret 0)"

definition timer_getoverrun :: int where "timer_getoverrun = 0"

text \<open>A number of ticks as a timespec.\<close>

definition ticks_timespec :: "int \<Rightarrow> 32 word \<Rightarrow> timespec" where
  "ticks_timespec hz ticks = Timespec (uint ticks div hz) (uint ticks mod hz * NANOSECONDS_PER_TICK hz)"

definition timer_gettime :: "'k timer_kernel \<Rightarrow> int \<Rightarrow> 32 word \<Rightarrow> 'k timer_internal \<Rightarrow> itimerspec" where
  "timer_gettime tk hz now T =
    \<lparr>it_interval = (if xTimerPeriod T \<noteq> 0xFFFFFFFF then ticks_timespec hz (xTimerPeriod T) else Timespec 0 0),
     it_value = (if tk_active tk (xTimerBuffer T) then ticks_timespec hz (tk_expiry tk (xTimerBuffer T) - now)
                 else Timespec 0 0)\<rparr>"

abbreviation TIMESPEC_IS_ZERO :: "timespec \<Rightarrow> bool" where
  "TIMESPEC_IS_ZERO t \<equiv> tv_sec t = 0 \<and> tv_nsec t = 0"

text \<open>The number of ticks until the first expiry and the status: \<open>clk\<close> is what \<open>clock\<open>_\<close>gettime\<close> answers.\<close>

definition timer_next_expiration :: "int \<Rightarrow> (int \<times> timespec) \<Rightarrow> bool \<Rightarrow> timespec \<Rightarrow> int \<times> int" where
  "timer_next_expiration hz clk absolute v =
    (if absolute then
       (case (if fst clk \<noteq> 0 then (EINVAL, 0) else UTILS_AbsoluteTimespecToDeltaTicks hz (Some v) (Some (snd clk)) 0) of
          (st, ticks) \<Rightarrow> if st \<noteq> 0 then (if st = ETIMEDOUT then 0 else st, 0) else (0, ticks))
     else (0, snd (UTILS_TimespecToTicks hz (Some v) 0)))"

text \<open>The status, \<open>errno\<close>, the old setting (which the caller may not have asked for), and the timer.\<close>

definition timer_settime ::
  "'k timer_kernel \<Rightarrow> int \<Rightarrow> (int \<times> timespec) \<Rightarrow> 32 word \<Rightarrow> bool \<Rightarrow> itimerspec \<Rightarrow> int \<Rightarrow> 'k timer_internal
   \<Rightarrow> (int \<times> int \<times> itimerspec \<times> 'k timer_internal) exec"
where
  "timer_settime tk hz clk now absolute v errno T =
    (let old = timer_gettime tk hz now T in
     if \<not> TIMESPEC_IS_ZERO (it_value v) \<and>
        (\<not> UTILS_ValidateTimespec (Some (it_interval v)) \<or> \<not> UTILS_ValidateTimespec (Some (it_value v)))
     then Ret (- 1, EINVAL, old, T)
     else
       let T1 = (if tk_active tk (xTimerBuffer T) then T\<lparr>xTimerBuffer := tk_stop tk (xTimerBuffer T)\<rparr> else T) in
       if TIMESPEC_IS_ZERO (it_value v) then Ret (0, errno, old, T1)
       else
         let period = (if TIMESPEC_IS_ZERO (it_interval v) then 0 else snd (UTILS_TimespecToTicks hz (Some (it_interval v)) 0));
             T2 = T1\<lparr>xTimerPeriod := word_of_int period\<rparr>
         in (case timer_next_expiration hz clk absolute (it_value v) of (st, next) \<Rightarrow>
            if next = 0 then exec_bind (prvTimerCallback tk now T2) (\<lambda>T3. Ret (st, errno, old, T3))
            else Ret (st, errno, old, T2\<lparr>xTimerBuffer :=
                   tk_start tk now (tk_change_period tk now (word_of_int next) (xTimerBuffer T2))\<rparr>)))"

section \<open>Time passes\<close>

text \<open>A tick of the kernel: a timer that is due becomes dormant, as it does not reload itself, and its
  callback runs.\<close>

definition timer_tick :: "'k timer_kernel \<Rightarrow> 32 word \<times> 'k timer_internal \<Rightarrow> (32 word \<times> 'k timer_internal) exec" where
  "timer_tick tk s =
    (case s of (now, T) \<Rightarrow>
      if tk_active tk (xTimerBuffer T) \<and> tk_expiry tk (xTimerBuffer T) = now + 1
      then exec_bind (prvTimerCallback tk (now + 1) (T\<lparr>xTimerBuffer := tk_expire tk (xTimerBuffer T)\<rparr>))
             (\<lambda>T1. Ret (now + 1, T1))
      else Ret (now + 1, T))"

fun timer_ticks :: "'k timer_kernel \<Rightarrow> nat \<Rightarrow> 32 word \<times> 'k timer_internal \<Rightarrow> (32 word \<times> 'k timer_internal) exec" where
  "timer_ticks tk 0 s = Ret s"
| "timer_ticks tk (Suc n) s = exec_bind (timer_ticks tk n s) (timer_tick tk)"

text \<open>What FreeRTOS documents: changing the period starts a timer that is dormant, starting one counts
  its period from then, stopping and the expiry of a one-shot timer make it dormant.\<close>

definition timer_laws :: "'k timer_kernel \<Rightarrow> ('k \<Rightarrow> 32 word) \<Rightarrow> bool" where
  "timer_laws tk per \<longleftrightarrow>
    (\<forall>now p k. p \<noteq> 0 \<longrightarrow> (let k' = tk_change_period tk now p k in tk_active tk k' \<and> tk_expiry tk k' = now + p \<and> per k' = p)) \<and>
    (\<forall>now k. let k' = tk_start tk now k in tk_active tk k' \<and> tk_expiry tk k' = now + per k \<and> per k' = per k) \<and>
    (\<forall>k. \<not> tk_active tk (tk_stop tk k)) \<and> (\<forall>k. \<not> tk_active tk (tk_expire tk k))"

section \<open>The schedule of a timer\<close>

text \<open>A timer due after \<open>t\<close> ticks and then every \<open>p\<close> (never again, if \<open>p\<close> is 0): how often it has expired
  after \<open>n\<close> ticks, and when it is due next.\<close>

definition times_due :: "nat \<Rightarrow> nat \<Rightarrow> nat \<Rightarrow> nat" where
  "times_due t p n = (if n < t then 0 else if p = 0 then 1 else 1 + (n - t) div p)"

definition next_due :: "nat \<Rightarrow> nat \<Rightarrow> nat \<Rightarrow> nat" where
  "next_due t p n = (if n < t then t else t + p * (1 + (n - t) div p))"

lemma next_due_ahead:
  assumes "n < t \<or> 0 < p"
  shows "n < next_due t p n" "next_due t p n \<le> n + max t p"
proof -
  have "n - t < p * (1 + (n - t) div p)" if "0 < p"
    using that dividend_less_div_times[of p "n - t"] by (simp add: mult.commute)
  moreover have "p * ((n - t) div p) \<le> n - t" by (rule times_div_less_eq_dividend)
  ultimately have b: "0 < p \<Longrightarrow> n - t < p + p * ((n - t) div p)" "p * ((n - t) div p) \<le> n - t" by simp_all
  show "n < next_due t p n" using assms b by (auto simp: next_due_def)
  show "next_due t p n \<le> n + max t p"
  proof (cases "n < t")
    case False
    then have "t + (p + p * ((n - t) div p)) \<le> n + p" using b(2) by linarith
    then show ?thesis using False by (simp add: next_due_def)
  qed (simp add: next_due_def)
qed

lemma due_step:
  assumes "n < t \<or> 0 < p"
  shows "times_due t p (Suc n) = times_due t p n + (if next_due t p n = Suc n then 1 else 0)"
    "next_due t p n = Suc n \<Longrightarrow> 0 < p \<Longrightarrow> next_due t p (Suc n) = Suc n + p"
    "next_due t p n \<noteq> Suc n \<Longrightarrow> next_due t p (Suc n) = next_due t p n"
proof -
  let ?q = "(n - t) div p"
  have q: "p * ?q \<le> n - t" "0 < p \<Longrightarrow> n - t < p * (1 + ?q)"
    using dividend_less_div_times[of p "n - t"] by (simp_all add: mult.commute times_div_less_eq_dividend)
  have hit: "(Suc n - t) div p = 1 + ?q" if "t \<le> n" "0 < p" "t + p * (1 + ?q) = Suc n"
  proof -
    have "Suc n - t = p * (1 + ?q)" using that by linarith
    then show ?thesis using that(2) by simp
  qed
  have miss: "(Suc n - t) div p = ?q" if "t \<le> n" "0 < p" "t + p * (1 + ?q) \<noteq> Suc n"
  proof (rule div_nat_eqI)
    show "p * ?q \<le> Suc n - t" using q(1) that(1) by linarith
    have "Suc n - t \<noteq> p * (1 + ?q)" using that by linarith
    then have "Suc n - t < p * (1 + ?q)" using q(2)[OF that(2)] that(1) by linarith
    then show "Suc n - t < p * Suc ?q" by simp
  qed
  show "times_due t p (Suc n) = times_due t p n + (if next_due t p n = Suc n then 1 else 0)"
    using assms hit miss by (cases "n < t"; cases "Suc n < t") (auto simp: times_due_def next_due_def)
  show "next_due t p (Suc n) = Suc n + p" if "next_due t p n = Suc n" "0 < p"
    using assms hit that by (cases "n < t") (auto simp: next_due_def)
  show "next_due t p (Suc n) = next_due t p n" if "next_due t p n \<noteq> Suc n"
    using assms miss that by (cases "n < t"; cases "Suc n < t") (auto simp: next_due_def)
qed

text \<open>What holds \<open>n\<close> ticks after the time \<open>now\<close>.\<close>

definition on_schedule ::
  "'k timer_kernel \<Rightarrow> 32 word \<Rightarrow> notification list \<Rightarrow> notification \<Rightarrow> nat \<Rightarrow> nat \<Rightarrow> nat \<Rightarrow> 32 word \<times> 'k timer_internal \<Rightarrow> bool"
where
  "on_schedule tk now old kind t p n s \<longleftrightarrow>
    (case s of (tm, T) \<Rightarrow> tm = now + of_nat n \<and> xTimerPeriod T = of_nat p \<and> sigev_notify (xTimerEvent T) = SIGEV_THREAD \<and>
      kind = (if \<not> sigev_notify_attributes (xTimerEvent T) then Notify_call else Notify_thread) \<and>
      notified T = old @ replicate (times_due t p n) kind \<and>
      (if n < t \<or> 0 < p then tk_active tk (xTimerBuffer T) \<and> tk_expiry tk (xTimerBuffer T) = now + of_nat (next_due t p n)
       else \<not> tk_active tk (xTimerBuffer T)))"

lemma on_scheduleI:
  assumes "tm = now + of_nat n" "xTimerPeriod T = of_nat p" "sigev_notify (xTimerEvent T) = SIGEV_THREAD"
    "kind = (if \<not> sigev_notify_attributes (xTimerEvent T) then Notify_call else Notify_thread)"
    "notified T = old @ replicate (times_due t p n) kind"
    "n < t \<or> 0 < p \<Longrightarrow> tk_active tk (xTimerBuffer T)"
    "n < t \<or> 0 < p \<Longrightarrow> tk_expiry tk (xTimerBuffer T) = now + of_nat (next_due t p n)"
    "\<not> (n < t \<or> 0 < p) \<Longrightarrow> \<not> tk_active tk (xTimerBuffer T)"
  shows "on_schedule tk now old kind t p n (tm, T)"
  using assms by (simp add: on_schedule_def)

lemma timer_lawsD:
  assumes "timer_laws tk per"
  shows "p \<noteq> 0 \<Longrightarrow> tk_active tk (tk_change_period tk now p k)" "p \<noteq> 0 \<Longrightarrow> tk_expiry tk (tk_change_period tk now p k) = now + p"
    "p \<noteq> 0 \<Longrightarrow> per (tk_change_period tk now p k) = p"
    "tk_active tk (tk_start tk now k)" "tk_expiry tk (tk_start tk now k) = now + per k"
    "\<not> tk_active tk (tk_stop tk k)" "\<not> tk_active tk (tk_expire tk k)"
  using assms by (simp_all add: timer_laws_def Let_def)

lemma word_ahead:
  assumes "n < m" "m < n + 4294967296"
  shows "now + of_nat m = now + of_nat n + (1 :: 32 word) \<longleftrightarrow> m = Suc n"
proof -
  have "(of_nat m :: 32 word) = of_nat (Suc n + (m - Suc n))" using assms(1) by simp
  then have "(of_nat m :: 32 word) = of_nat (Suc n) \<longleftrightarrow> (of_nat (m - Suc n) :: 32 word) = 0"
    by (simp only: of_nat_add) simp
  also have "\<dots> \<longleftrightarrow> 4294967296 dvd m - Suc n" by (simp add: word_of_nat_eq_0_iff)
  also have "\<dots> \<longleftrightarrow> m = Suc n" using assms by (auto dest!: dvd_imp_le)
  finally have "(of_nat m :: 32 word) = of_nat (Suc n) \<longleftrightarrow> m = Suc n" .
  moreover have "now + of_nat n + (1 :: 32 word) = now + of_nat (Suc n)" by simp
  ultimately show ?thesis by (simp only: add_left_cancel)
qed

lemma schedule_tick:
  assumes laws: "timer_laws tk per" and tp: "t < 4294967296" "p < 4294967296" and s: "on_schedule tk now old kind t p n s"
  shows "\<exists>s'. timer_tick tk s = Ret s' \<and> on_schedule tk now old kind t p (Suc n) s'"
proof -
  obtain tm T where sT: "s = (tm, T)" by (cases s)
  have o: "tm = now + of_nat n" "xTimerPeriod T = of_nat p" "sigev_notify (xTimerEvent T) = SIGEV_THREAD"
    "kind = (if \<not> sigev_notify_attributes (xTimerEvent T) then Notify_call else Notify_thread)"
    "notified T = old @ replicate (times_due t p n) kind"
    "if n < t \<or> 0 < p then tk_active tk (xTimerBuffer T) \<and> tk_expiry tk (xTimerBuffer T) = now + of_nat (next_due t p n)
       else \<not> tk_active tk (xTimerBuffer T)"
    using s by (simp_all add: on_schedule_def sT)
  have tm: "tm + 1 = now + of_nat (Suc n)" using o(1) by simp
  show ?thesis
  proof (cases "n < t \<or> 0 < p")
    case False
    then have "timer_tick tk s = Ret (tm + 1, T)" using o(6) sT by (simp add: timer_tick_def)
    moreover have "times_due t p (Suc n) = times_due t p n" using False by (simp add: times_due_def)
    ultimately show ?thesis using o False tm by (simp add: on_schedule_def)
  next
    case True
    note ah = next_due_ahead[OF True] and st = due_step[OF True]
    have act: "tk_active tk (xTimerBuffer T)" "tk_expiry tk (xTimerBuffer T) = now + of_nat (next_due t p n)"
      using o(6) True by simp_all
    have due: "tk_expiry tk (xTimerBuffer T) = tm + 1 \<longleftrightarrow> next_due t p n = Suc n"
      unfolding act(2) o(1) by (rule word_ahead[OF ah(1)]) (use ah(2) tp in simp)
    show ?thesis
    proof (cases "next_due t p n = Suc n")
      case miss: False
      then have "timer_tick tk s = Ret (tm + 1, T)" using due sT by (simp add: timer_tick_def)
      moreover have "Suc n < t \<or> 0 < p" using True miss by (auto simp: next_due_def)
      ultimately show ?thesis using o(2-5) act st(1,3) miss tm by (simp add: on_schedule_def)
    next
      case hit: True
      let ?k = "tk_expire tk (xTimerBuffer T)"
      let ?k' = "if 0 < p then tk_change_period tk (tm + 1) (of_nat p) ?k else ?k"
      let ?T = "T\<lparr>xTimerBuffer := ?k', notified := notified T @ [kind]\<rparr>"
      have w: "(of_nat p :: 32 word) = 0 \<longleftrightarrow> p = 0" using tp(2) by (auto simp: word_of_nat_eq_0_iff dest!: dvd_imp_le)
      have "timer_tick tk s = Ret (tm + 1, ?T)"
        using act(1) due hit o(2,3,4) sT w by (simp add: timer_tick_def prvTimerCallback_def Let_def word_gt_0)
      moreover have "on_schedule tk now old kind t p (Suc n) (tm + 1, ?T)"
      proof (rule on_scheduleI[OF tm])
        show "notified ?T = old @ replicate (times_due t p (Suc n)) kind"
          using o(5) st(1) hit by (simp add: replicate_append_same)
        show "tk_active tk (xTimerBuffer ?T)" "tk_expiry tk (xTimerBuffer ?T) = now + of_nat (next_due t p (Suc n))"
          if "Suc n < t \<or> 0 < p"
        proof -
          have pos: "0 < p" using that hit by (auto simp: next_due_def split: if_splits)
          then have "of_nat p \<noteq> (0 :: 32 word)" using w by simp
          note l = timer_lawsD(1,2)[OF laws this, of "tm + 1" ?k]
          show "tk_active tk (xTimerBuffer ?T)" using l(1) pos by simp
          show "tk_expiry tk (xTimerBuffer ?T) = now + of_nat (next_due t p (Suc n))"
            using l(2) pos unfolding st(2)[OF hit pos] tm by (simp add: add.assoc)
        qed
        show "\<not> tk_active tk (xTimerBuffer ?T)" if "\<not> (Suc n < t \<or> 0 < p)"
          using timer_lawsD(7)[OF laws] that by simp
      qed (use o(2,3,4) in simp_all)
      ultimately show ?thesis by blast
    qed
  qed
qed

lemma schedule_ticks:
  assumes "timer_laws tk per" "t < 4294967296" "p < 4294967296" "on_schedule tk now old kind t p 0 s"
  shows "\<exists>s'. timer_ticks tk n s = Ret s' \<and> on_schedule tk now old kind t p n s'"
proof (induction n)
  case (Suc n)
  then show ?case using schedule_tick[OF assms(1,2,3)] by auto
qed (use assms(4) in simp)

text \<open>Setting a timer puts it on its schedule.\<close>

lemma settime_schedule:
  assumes laws: "timer_laws tk per" and tp: "t < 4294967296" "p < 4294967296"
    and v: "\<not> TIMESPEC_IS_ZERO (it_value v)" "valid_ts (it_interval v)" "valid_ts (it_value v)"
    and nt: "timer_next_expiration hz clk absolute (it_value v) = (st, int t)"
    and pt: "(if TIMESPEC_IS_ZERO (it_interval v) then 0 else snd (UTILS_TimespecToTicks hz (Some (it_interval v)) 0)) = int p"
    and ev: "sigev_notify (xTimerEvent T) = SIGEV_THREAD"
  shows "\<exists>U. timer_settime tk hz clk now absolute v e T = Ret (st, e, timer_gettime tk hz now T, U) \<and>
    on_schedule tk now (notified T) (if \<not> sigev_notify_attributes (xTimerEvent T) then Notify_call else Notify_thread) t p 0 (now, U)"
proof -
  let ?T1 = "if tk_active tk (xTimerBuffer T) then T\<lparr>xTimerBuffer := tk_stop tk (xTimerBuffer T)\<rparr> else T"
  let ?T2 = "?T1\<lparr>xTimerPeriod := of_nat p\<rparr>"
  have T2: "\<not> tk_active tk (xTimerBuffer ?T2)" "xTimerEvent ?T2 = xTimerEvent T" "notified ?T2 = notified T" "xTimerPeriod ?T2 = of_nat p"
    using timer_lawsD(6)[OF laws] by simp_all
  have w: "(of_nat p :: 32 word) = 0 \<longleftrightarrow> p = 0" "(of_nat t :: 32 word) = 0 \<longleftrightarrow> t = 0"
    using tp by (auto simp: word_of_nat_eq_0_iff dest!: dvd_imp_le)
  have set: "timer_settime tk hz clk now absolute v e T =
    (if t = 0 then exec_bind (prvTimerCallback tk now ?T2) (\<lambda>T3. Ret (st, e, timer_gettime tk hz now T, T3))
     else Ret (st, e, timer_gettime tk hz now T, ?T2\<lparr>xTimerBuffer :=
       tk_start tk now (tk_change_period tk now (of_nat t) (xTimerBuffer ?T2))\<rparr>))"
    using v(2,3) unfolding timer_settime_def Let_def pt if_not_P[OF v(1)] nt by simp
  show ?thesis
  proof (cases "t = 0")
    case True
    have "0 < p \<Longrightarrow> tk_active tk (tk_change_period tk now (of_nat p) k) \<and> tk_expiry tk (tk_change_period tk now (of_nat p) k) = now + of_nat p" for k
      using timer_lawsD(1,2)[OF laws, of "of_nat p"] w(1) by simp
    then show ?thesis using set True T2 ev w(1)
      by (cases "0 < p") (auto simp: prvTimerCallback_def Let_def on_schedule_def times_due_def next_due_def word_gt_0)
  next
    case False
    then have "of_nat t \<noteq> (0 :: 32 word)" using w(2) by simp
    note l = timer_lawsD(1,2,3)[OF laws this] timer_lawsD(4,5)[OF laws]
    show ?thesis using set False T2 ev l by (auto simp: on_schedule_def times_due_def next_due_def)
  qed
qed

section \<open>Properties\<close>

text \<open>The time that a setting stands for: from now, or until the given time, at least 0.\<close>

definition time_ahead :: "timespec \<Rightarrow> bool \<Rightarrow> timespec \<Rightarrow> int" where
  "time_ahead clk absolute v = (if absolute then max 0 (ns v - ns clk) else ns v)"

lemma next_expiration:
  assumes hz: "0 < hz" "hz \<le> NANOSECONDS_PER_SECOND" and v: "valid_ts v" "0 \<le> tv_sec v" "tv_sec v < 4294967296"
    and c: "valid_ts clk" "0 \<le> tv_sec clk" "tv_sec clk < 4294967296"
    and d: "ticks_of hz (time_ahead clk absolute v) < 4294967296"
  shows "timer_next_expiration hz (0, clk) absolute v = (0, ticks_of hz (time_ahead clk absolute v))"
proof (cases absolute)
  case False
  have "0 \<le> ns v" using v valid_tsD[OF v(1)] by (simp add: ns_def)
  then show ?thesis using False d to_ticks[OF hz v, of 0] ticks_of_bounds(3)[OF hz, of "ns v"]
    by (simp add: timer_next_expiration_def time_ahead_def)
next
  case True
  have z: "ticks_of hz 0 = 0" using tick_pos[OF hz] by (simp add: ticks_of_def)
  show ?thesis
  proof (cases "ns v < ns clk")
    case past: True
    then have "UTILS_AbsoluteTimespecToDeltaTicks hz (Some v) (Some clk) 0 = (ETIMEDOUT, 0)"
      using abs_ticks[OF hz v(1) c(1) v(2,3) c(2,3), of 0] by simp
    then show ?thesis using True past z by (simp add: timer_next_expiration_def time_ahead_def max_def)
  next
    case ahead: False
    then have "UTILS_AbsoluteTimespecToDeltaTicks hz (Some v) (Some clk) 0 = (0, ticks_of hz (ns v - ns clk))"
      using abs_ticks[OF hz v(1) c(1) v(2,3) c(2,3), of 0] d True by (simp add: time_ahead_def max_def split: if_splits)
    then show ?thesis using True ahead by (simp add: timer_next_expiration_def time_ahead_def max_def)
  qed
qed

lemma interval_ticks:
  assumes "0 < hz" "hz \<le> NANOSECONDS_PER_SECOND" "valid_ts i" "0 \<le> tv_sec i" "tv_sec i < 4294967296" "ticks_of hz (ns i) < 4294967296"
  shows "(if TIMESPEC_IS_ZERO i then 0 else snd (UTILS_TimespecToTicks hz (Some i) 0)) = ticks_of hz (ns i)" "0 \<le> ticks_of hz (ns i)"
proof -
  have n: "0 \<le> ns i" using assms(4) valid_tsD[OF assms(3)] by (simp add: ns_def)
  show p: "0 \<le> ticks_of hz (ns i)" by (rule ticks_of_bounds(3)[OF assms(1,2) n])
  have z: "ticks_of hz 0 = 0" using tick_pos[OF assms(1,2)] by (simp add: ticks_of_def)
  show "(if TIMESPEC_IS_ZERO i then 0 else snd (UTILS_TimespecToTicks hz (Some i) 0)) = ticks_of hz (ns i)"
    using to_ticks[OF assms(1-5), of 0] assms(6) p z by (simp add: ns_def)
qed


text \<open>A time of 2^32 ticks or more cannot be represented.  A relative one is accepted without an error and
  expires early, at its remainder modulo 2^32; an absolute one is refused with \<open>EINVAL\<close>, but the
  notification is given at once all the same.\<close>

theorem timer_unrepresentable:
  assumes "timer_laws tk per" "0 < hz" "hz \<le> NANOSECONDS_PER_SECOND"
    and "valid_ts (it_value v)" "0 \<le> tv_sec (it_value v)" "tv_sec (it_value v) < 4294967296" "it_interval v = Timespec 0 0"
    and "valid_ts clk" "0 \<le> tv_sec clk" "tv_sec clk < 4294967296"
    and "4294967296 \<le> ticks_of hz (time_ahead clk absolute (it_value v))" "sigev_notify (xTimerEvent T) = SIGEV_THREAD"
  defines "t \<equiv> if absolute then 0 else nat (ticks_of hz (time_ahead clk absolute (it_value v)) mod 4294967296)"
  shows "\<exists>U tm V kind. timer_settime tk hz (0, clk) now absolute v e T =
      Ret (if absolute then EINVAL else 0, e, timer_gettime tk hz now T, U) \<and>
    timer_ticks tk t (now, U) = Ret (tm, V) \<and> notified V = notified T @ [kind]"
proof -
  let ?d = "time_ahead clk absolute (it_value v)"
  have big: "4294967296 \<le> ticks_of hz ?d" by (rule assms(11))
  have z: "ticks_of hz 0 = 0" using tick_pos[OF assms(2,3)] by (simp add: ticks_of_def)
  have nz: "\<not> TIMESPEC_IS_ZERO (it_value v)"
  proof
    assume zero: "TIMESPEC_IS_ZERO (it_value v)"
    then have n: "ns (it_value v) = 0" by (simp add: ns_def)
    have "0 \<le> ns clk" using assms(9) valid_tsD[OF assms(8)] by (simp add: ns_def)
    then have "?d = 0" using n by (simp add: time_ahead_def)
    then show False using big z by simp
  qed
  have nx: "timer_next_expiration hz (0, clk) absolute (it_value v) = (if absolute then EINVAL else 0, int t)"
  proof (cases absolute)
    case False
    then show ?thesis using to_ticks[OF assms(2,3,4,5,6), of 0] by (simp add: timer_next_expiration_def t_def time_ahead_def)
  next
    case True
    have "ns (it_value v) \<ge> ns clk" using big z True by (auto simp: time_ahead_def max_def split: if_splits)
    then show ?thesis using True big abs_ticks[OF assms(2,3,4,8,5,6,9,10), of 0]
      by (simp add: timer_next_expiration_def t_def time_ahead_def max_def)
  qed
  have t32: "t < 4294967296" by (simp add: t_def nat_less_iff)
  have z32: "(0 :: nat) < 4294967296" by simp
  have iv: "valid_ts (it_interval v)" "(if TIMESPEC_IS_ZERO (it_interval v) then 0 else snd (UTILS_TimespecToTicks hz (Some (it_interval v)) 0)) = int 0"
    using assms(7) by (simp_all add: UTILS_ValidateTimespec_def)
  obtain U kind where U: "timer_settime tk hz (0, clk) now absolute v e T = Ret (if absolute then EINVAL else 0, e, timer_gettime tk hz now T, U)"
    "on_schedule tk now (notified T) kind t 0 0 (now, U)"
    using settime_schedule[OF assms(1) t32 z32 nz iv(1) assms(4) nx iv(2) assms(12)] by blast
  obtain s where s: "timer_ticks tk t (now, U) = Ret s" "on_schedule tk now (notified T) kind t 0 t s"
    using schedule_ticks[OF assms(1) t32 z32 U(2)] by blast
  then show ?thesis using U(1) by (cases s) (auto simp: on_schedule_def times_due_def)
qed

section \<open>Instances\<close>

text \<open>A software timer that is its state, its expiry and its period.\<close>

definition word_timer :: "(bool \<times> 32 word \<times> 32 word) timer_kernel" where
  "word_timer = \<lparr>tk_create = (False, 0, 0xFFFFFFFF), tk_change_period = (\<lambda>now p k. (True, now + p, p)),
     tk_start = (\<lambda>now (a, x, p). (True, now + p, p)), tk_stop = (\<lambda>(a, x, p). (False, x, p)),
     tk_active = fst, tk_expiry = (\<lambda>(a, x, p). x), tk_expire = (\<lambda>(a, x, p). (False, x, p))\<rparr>"

lemma word_timer_laws: "timer_laws word_timer (\<lambda>(a, x, p). p)"
  by (auto simp: timer_laws_def word_timer_def Let_def)

definition demo_timer :: "(bool \<times> 32 word \<times> 32 word) timer_internal" where
  "demo_timer = \<lparr>xTimerBuffer = (False, 0, 0xFFFFFFFF),
     xTimerEvent = \<lparr>sigev_notify = SIGEV_THREAD, sigev_notify_attributes = False\<rparr>, xTimerPeriod = 0, notified = []\<rparr>"

lemma demo_timer_created:
  "timer_create word_timer (Some \<lparr>sigev_notify = SIGEV_THREAD, sigev_notify_attributes = False\<rparr>) True e = (0, e, Some demo_timer)"
  by (simp add: timer_create_def demo_timer_def word_timer_def)


theorem timer_unrepresentable_witness:
  "\<exists>U tm V kind. timer_settime word_timer 1000 (0, Timespec 5 0) 100 False \<lparr>it_interval = Timespec 0 0, it_value = Timespec 4294967 297000000\<rparr> 0 demo_timer =
      Ret (0, 0, timer_gettime word_timer 1000 100 demo_timer, U) \<and>
    timer_ticks word_timer 1 (100, U) = Ret (tm, V) \<and> notified V = [kind]"
proof -
  let ?v = "\<lparr>it_interval = Timespec 0 0, it_value = Timespec 4294967 297000000\<rparr>"
  have t: "ticks_of 1000 (time_ahead (Timespec 5 0) False (it_value ?v)) = 4294967297"
    by (simp add: time_ahead_def ns_def ticks_of_def NANOSECONDS_PER_TICK_def)
  show ?thesis
    using timer_unrepresentable[OF word_timer_laws, of 1000 ?v "Timespec 5 0" False demo_timer 100 0] unfolding t
    by (simp add: UTILS_ValidateTimespec_def demo_timer_def)
qed

end
