(* ===== verification/Runtime_Stats.thy ===== *)
theory Runtime_Stats
  imports Prelude
begin

text \<open>
  The run-time counter for the statistics of FreeRTOS (rzv\<open>_\<close>runtime\<open>_\<close>stats.c): an up-count in units of 10
  microseconds from a periodic down-counter, with an overflow count kept by polling.  The timer driver
  is a parameter: the answer of \<open>statusGet\<close>, with the value of the counter if it succeeds.  \<open>unsigned
  long\<close> has 32 bits on the Cortex-R8.
\<close>

record run_time =
  ulLastRaw :: "32 word"
  ulOverflows :: "32 word"

definition run_time_boot :: run_time where
  "run_time_boot = \<lparr>ulLastRaw = 0, ulOverflows = 0\<rparr>"

definition ulGetRunTimeCounterValue :: "32 word \<Rightarrow> 32 word option \<Rightarrow> run_time \<Rightarrow> 32 word \<times> run_time" where
  "ulGetRunTimeCounterValue period_counts status rt =
    (let (ulRaw, rt1) =
       (case status of None \<Rightarrow> (0, rt)
        | Some counter \<Rightarrow>
          (let raw = period_counts - counter;
               rt' = (if raw < ulLastRaw rt then rt\<lparr>ulOverflows := ulOverflows rt + 1\<rparr> else rt)
           in (raw, rt'\<lparr>ulLastRaw := raw\<rparr>)))
     in (ulOverflows rt1 * 100 + ulRaw div 1000, rt1))"

text \<open>The timer of the comment: 100 000 counts of 10 ns, reloaded every millisecond.  After \<open>x\<close> counts it
  shows what is left of the period.\<close>

abbreviation (input) PERIOD :: nat where "PERIOD \<equiv> 100000"

definition gtm_counter :: "nat \<Rightarrow> 32 word" where
  "gtm_counter x = of_nat (PERIOD - x mod PERIOD)"

fun poll_at :: "nat list \<Rightarrow> run_time \<Rightarrow> 32 word list \<times> run_time" where
  "poll_at [] rt = ([], rt)"
| "poll_at (x # xs) rt =
    (case ulGetRunTimeCounterValue (of_nat PERIOD) (Some (gtm_counter x)) rt of (v, rt1) \<Rightarrow>
     case poll_at xs rt1 of (vs, rt2) \<Rightarrow> (v # vs, rt2))"

text \<open>Polled at least once in every period.\<close>

fun polled_often :: "nat \<Rightarrow> nat list \<Rightarrow> bool" where
  "polled_often prev [] = True"
| "polled_often prev (x # xs) \<longleftrightarrow> prev \<le> x \<and> x < prev + PERIOD \<and> polled_often x xs"

definition counts :: "nat \<Rightarrow> run_time \<Rightarrow> bool" where
  "counts x rt \<longleftrightarrow> ulLastRaw rt = of_nat (x mod PERIOD) \<and> ulOverflows rt = of_nat (x div PERIOD)"

lemma raw_count: "of_nat PERIOD - gtm_counter x = of_nat (x mod PERIOD)"
  unfolding gtm_counter_def by (subst of_nat_diff) simp_all

lemma raw_less: "a < PERIOD \<Longrightarrow> b < PERIOD \<Longrightarrow> (of_nat a :: 32 word) < of_nat b \<longleftrightarrow> a < b"
  by (simp add: word_less_nat_alt unat_of_nat)

lemma next_period:
  assumes "prev \<le> x" "x < prev + (P :: nat)" "0 < P"
  shows "x div P = prev div P + (if x mod P < prev mod P then 1 else 0)"
proof -
  have l: "prev = P * (prev div P) + prev mod P" and xx: "x = P * (x div P) + x mod P" by simp_all
  have m: "prev mod P < P" "x mod P < P" using assms(3) by simp_all
  have "prev div P \<le> x div P" by (rule div_le_mono[OF assms(1)])
  moreover have "x div P < prev div P + 2"
  proof -
    have "P * (prev div P + 2) = P * (prev div P) + P + P" by simp
    then have "x < P * (prev div P + 2)" using assms(2) l m(1) by linarith
    then show ?thesis using assms(3) by (simp add: less_mult_imp_div_less mult.commute)
  qed
  ultimately consider "x div P = prev div P" | "x div P = prev div P + 1" by linarith
  then show ?thesis
  proof cases
    case 1
    then have "prev mod P \<le> x mod P" using assms(1) l xx by (metis add_le_cancel_left)
    then show ?thesis using 1 by simp
  next
    case 2
    then have "x = P * (prev div P) + P + x mod P" using xx by (simp add: algebra_simps)
    then have "x mod P < prev mod P" using assms(2) l by linarith
    then show ?thesis using 2 by simp
  qed
qed

lemma tens_count: "x div 1000 = x div PERIOD * 100 + x mod PERIOD div 1000"
proof -
  have "x = 1000 * (100 * (x div PERIOD)) + x mod PERIOD" by simp
  then have "x div 1000 = (1000 * (100 * (x div PERIOD)) + x mod PERIOD) div 1000" by simp
  also have "\<dots> = 100 * (x div PERIOD) + x mod PERIOD div 1000" by (rule div_mult_self4) simp
  finally show ?thesis by simp
qed

lemma poll_counts:
  assumes "counts prev rt" "prev \<le> x" "x < prev + PERIOD"
  shows "\<exists>rt1. ulGetRunTimeCounterValue (of_nat PERIOD) (Some (gtm_counter x)) rt = (of_nat (x div 1000), rt1) \<and> counts x rt1"
proof -
  have less: "(of_nat (x mod PERIOD) :: 32 word) < of_nat (prev mod PERIOD) \<longleftrightarrow> x mod PERIOD < prev mod PERIOD"
    by (rule raw_less) simp_all
  have d: "x div PERIOD = prev div PERIOD + (if x mod PERIOD < prev mod PERIOD then 1 else 0)"
    by (rule next_period[OF assms(2,3)]) simp
  have u: "unat (of_nat (x mod PERIOD) :: 32 word) = x mod PERIOD"
    using mod_less_divisor[of PERIOD x] by (simp add: unat_of_nat)
  have r: "(of_nat (x mod PERIOD) :: 32 word) div 1000 = of_nat (x mod PERIOD div 1000)"
    by (rule word_unat_eq_iff[THEN iffD2]) (simp add: unat_div_distrib u unat_of_nat)
  have v: "(of_nat (x div PERIOD) :: 32 word) * 100 + of_nat (x mod PERIOD div 1000) = of_nat (x div 1000)"
    using tens_count[of x] by simp
  let ?rt = "(if x mod PERIOD < prev mod PERIOD then rt\<lparr>ulOverflows := ulOverflows rt + 1\<rparr> else rt)\<lparr>ulLastRaw := of_nat (x mod PERIOD)\<rparr>"
  have o: "ulOverflows ?rt = of_nat (x div PERIOD)" using assms(1) d by (simp add: counts_def)
  have "ulGetRunTimeCounterValue (of_nat PERIOD) (Some (gtm_counter x)) rt =
      (ulOverflows ?rt * 100 + of_nat (x mod PERIOD) div 1000, ?rt)"
    using assms(1) less unfolding ulGetRunTimeCounterValue_def Let_def option.case raw_count counts_def by simp
  then show ?thesis unfolding o r v using o by (intro exI[of _ ?rt]) (simp add: counts_def)
qed

lemma poll_values:
  assumes "polled_often 0 xs"
  shows "fst (poll_at xs run_time_boot) = map (\<lambda>x. of_nat (x div 1000)) xs"
proof -
  have "fst (poll_at xs rt) = map (\<lambda>x. of_nat (x div 1000)) xs" if "counts prev rt" "polled_often prev xs" for prev rt
    using that
  proof (induction xs arbitrary: prev rt)
    case (Cons x xs)
    obtain rt1 where "ulGetRunTimeCounterValue (of_nat PERIOD) (Some (gtm_counter x)) rt = (of_nat (x div 1000), rt1)" "counts x rt1"
      using poll_counts[OF Cons.prems(1)] Cons.prems(2) by auto
    then show ?case using Cons.IH[of x rt1] Cons.prems(2) by (simp add: case_prod_beta)
  qed simp
  moreover have "counts 0 run_time_boot" by (simp add: counts_def run_time_boot_def)
  ultimately show ?thesis using assms by blast
qed



text \<open>When the status of the timer cannot be read the counter falls back to the start of the period, below
  a value that it has already shown.\<close>

theorem run_time_falls_back:
  assumes "polled_often 0 (xs @ [x])" "x div PERIOD * 100 + x mod PERIOD div 1000 < 4294967296" "1000 \<le> x mod PERIOD"
  shows "fst (ulGetRunTimeCounterValue (of_nat PERIOD) None (snd (poll_at (xs @ [x]) run_time_boot))) <
    last (fst (poll_at (xs @ [x]) run_time_boot))"
proof -
  have app: "snd (poll_at (ys @ [x]) rt) = snd (ulGetRunTimeCounterValue (of_nat PERIOD) (Some (gtm_counter x)) (snd (poll_at ys rt)))" for ys rt
    by (induction ys arbitrary: rt) (simp_all add: case_prod_beta)
  have c: "\<exists>z. counts z (snd (poll_at ys rt)) \<and> z \<le> x \<and> x < z + PERIOD"
    if "counts l rt" "polled_often l (ys @ [x])" for l rt ys
    using that
  proof (induction ys arbitrary: l rt)
    case (Cons y ys)
    obtain rt1 where "ulGetRunTimeCounterValue (of_nat PERIOD) (Some (gtm_counter y)) rt = (of_nat (y div 1000), rt1)" "counts y rt1"
      using poll_counts[OF Cons.prems(1)] Cons.prems(2) by auto
    then show ?case using Cons.IH[of y rt1] Cons.prems(2) by (simp add: case_prod_beta)
  qed auto
  have "counts 0 run_time_boot" by (simp add: counts_def run_time_boot_def)
  from c[OF this assms(1)] obtain z where z: "counts z (snd (poll_at xs run_time_boot))" "z \<le> x" "x < z + PERIOD" by blast
  obtain rt1 where rt1: "ulGetRunTimeCounterValue (of_nat PERIOD) (Some (gtm_counter x)) (snd (poll_at xs run_time_boot)) = (of_nat (x div 1000), rt1)"
    "counts x rt1" using poll_counts[OF z] by blast
  have "fst (ulGetRunTimeCounterValue (of_nat PERIOD) None (snd (poll_at (xs @ [x]) run_time_boot))) = of_nat (x div PERIOD * 100)"
    using rt1 by (simp add: app ulGetRunTimeCounterValue_def counts_def)
  moreover have "last (fst (poll_at (xs @ [x]) run_time_boot)) = of_nat (x div 1000)"
    using poll_values[OF assms(1)] by simp
  moreover have "(of_nat (x div PERIOD * 100) :: 32 word) < of_nat (x div 1000)"
  proof -
    have "1 \<le> x mod PERIOD div 1000" using assms(3) by (simp add: less_eq_div_iff_mult_less_eq)
    then have b: "x div PERIOD * 100 < x div 1000" "x div 1000 < 4294967296" using assms(2) tens_count[of x] by linarith+
    have u: "unat (of_nat n :: 32 word) = n" if "n < 4294967296" for n using that by (simp add: unat_of_nat)
    show ?thesis unfolding word_less_nat_alt u[OF b(2)] u[OF less_trans[OF b]] by (rule b(1))
  qed
  ultimately show ?thesis by simp
qed

lemma run_time_values_demo: "last (fst (poll_at [99000, 150000] run_time_boot)) = 150"
  by (subst poll_values) simp_all

theorem run_time_falls_back_witness:
  "fst (ulGetRunTimeCounterValue (of_nat PERIOD) None (snd (poll_at [99000, 150000] run_time_boot))) < 150"
  using run_time_falls_back[of "[99000]" 150000] run_time_values_demo by simp

end
