(* ===== verification/Agent_Logs.thy ===== *)
theory Agent_Logs
  imports Logger_Shm Srv_Files
begin

text \<open>
  The CA55 end of the log streams (custom\<open>_\<close>agent.cpp): the logger endpoint and its callback, the
  flush thread, and \<open>process\<open>_\<close>shm\<open>_\<close>stream\<open>_\<close>sync\<close>, which writes what the Cortex-R8 put into the shared
  rings to the log files.  The R8 does not take \<open>g\<open>_\<close>log\<open>_\<close>mutex\<close>: its stream writes may come between any
  two steps of the agent, so the agent is a step function with a program counter.  Linux is the
  parameter of Srv\<open>_\<close>Files.
\<close>

section \<open>State\<close>

abbreviation (input) LOG_MAX_WRITE_CHUNK :: "32 word" where "LOG_MAX_WRITE_CHUNK \<equiv> 131072"
abbreviation (input) LINUX_ETIMEDOUT :: int where "LINUX_ETIMEDOUT \<equiv> 110"
abbreviation (input) LOG_FLUSH_INTERVAL_MS :: int where "LOG_FLUSH_INTERVAL_MS \<equiv> 100"

text \<open>Where the holder of \<open>g\<open>_\<close>log\<open>_\<close>mutex\<close> is in \<open>process\<open>_\<close>shm\<open>_\<close>stream\<open>_\<close>sync\<close>, if there is one: at the
  stream \<open>i\<close>, in the loop with descriptor, head, tail and size, or behind it.\<close>

datatype agent_pc =
    A_idle
  | A_stream nat int bool
  | A_drain nat int bool int "32 word" "32 word" "32 word"
  | A_close nat int bool int

record 'w log_sys =
  lg :: logger_shm
  g_log_shm :: bool
  g_log_write_error_reported :: "int \<Rightarrow> bool option"
  lg_world :: 'w
  agent :: agent_pc
  logger_service_bound :: bool
  g_log_flush_running :: bool
  g_log_flush_thread :: bool
  rp_ept_logger :: "32 word option"

section \<open>The agent\<close>

text \<open>\<open>operator[]\<close> of the map inserts a false entry.\<close>

definition clear_logger_error_state :: "int \<Rightarrow> 'w log_sys \<Rightarrow> 'w log_sys" where
  "clear_logger_error_state fd S =
    S\<lparr>g_log_write_error_reported := (g_log_write_error_reported S)(fd := None)\<rparr>"

definition error_reported :: "int \<Rightarrow> 'w log_sys \<Rightarrow> bool \<times> 'w log_sys" where
  "error_reported fd S =
    (case g_log_write_error_reported S fd of
       Some b \<Rightarrow> (b, S)
     | None \<Rightarrow> (False, S\<lparr>g_log_write_error_reported := (g_log_write_error_reported S)(fd \<mapsto> False)\<rparr>))"

definition stream_at :: "nat \<Rightarrow> 'w log_sys \<Rightarrow> logger_shm_ctrl" where
  "stream_at i S = shm_streams (lg S) ! i"

definition set_stream :: "nat \<Rightarrow> logger_shm_ctrl \<Rightarrow> 'w log_sys \<Rightarrow> 'w log_sys" where
  "set_stream i c S = S\<lparr>lg := (lg S)\<lparr>shm_streams := (shm_streams (lg S))[i := c]\<rparr>\<rparr>"

definition log_chunk :: "32 word \<Rightarrow> 32 word \<Rightarrow> 32 word \<Rightarrow> 32 word" where
  "log_chunk head tail bsize =
    (let chunk_size = (if head > tail then head - tail else bsize - tail) in
     if chunk_size > LOG_MAX_WRITE_CHUNK then LOG_MAX_WRITE_CHUNK else chunk_size)"

text \<open>The head of the loop over the streams, up to the copies of head, tail and size.\<close>

definition log_look :: "nat \<Rightarrow> int \<Rightarrow> bool \<Rightarrow> 'w log_sys \<Rightarrow> 'w log_sys" where
  "log_look i target close S =
    (if \<not> i < RZV_SDRAM_LOGGER_STREAM_COUNT then S\<lparr>agent := A_idle\<rparr>
     else let ctrl = stream_at i S; fd = sc_active_fd ctrl; skip = S\<lparr>agent := A_stream (i + 1) target close\<rparr> in
       if sc_magic ctrl \<noteq> LOG_SHM_MAGIC then skip
       else if target \<ge> 0 \<and> fd \<noteq> target then skip
       else if fd < 0 then skip
       else S\<lparr>agent := A_drain i target close fd (sc_head ctrl) (sc_tail ctrl) (sc_buffer_size ctrl)\<rparr>)"

text \<open>One round of the inner loop; the sum of the tail and the number of bytes written is taken in 64
  bits.\<close>

definition log_block ::
  "'w linux \<Rightarrow> nat \<Rightarrow> int \<Rightarrow> bool \<Rightarrow> int \<Rightarrow> 32 word \<Rightarrow> 32 word \<Rightarrow> 32 word \<Rightarrow> 'w log_sys \<Rightarrow> 'w log_sys exec"
where
  "log_block env i target close fd head tail bsize S =
    (if tail = head then Ret (S\<lparr>agent := A_close i target close fd\<rparr>)
     else let c = stream_at i S; n = unat (log_chunk head tail bsize) in
       if length (sc_data c) < unat tail + n then Faults
       else (case lx_call env (Sys_write fd (take n (drop (unat tail) (sc_data c)))) (lg_world S) of (r, w) \<Rightarrow>
         let written = sr_ret r; S1 = S\<lparr>lg_world := w\<rparr> in
         if written \<le> 0 then
           (case error_reported fd S1 of (told, S2) \<Rightarrow>
            let S3 = (if told then S2
                      else S2\<lparr>g_log_write_error_reported := (g_log_write_error_reported S2)(fd \<mapsto> True)\<rparr>)
            in Ret (S3\<lparr>agent := A_close i target close fd\<rparr>))
         else
           (case error_reported fd S1 of (told, S2) \<Rightarrow>
            let S3 = (if told then clear_logger_error_state fd S2 else S2) in
            if bsize = 0 then Faults
            else let tail' = word_of_int ((uint tail + written) mod uint bsize) in
              Ret ((set_stream i (c\<lparr>sc_tail := tail'\<rparr>) S3)\<lparr>agent := A_drain i target close fd head tail' bsize\<rparr>))))"

definition log_release :: "nat \<Rightarrow> int \<Rightarrow> bool \<Rightarrow> int \<Rightarrow> 'w log_sys \<Rightarrow> 'w log_sys" where
  "log_release i target close fd S =
    (let S1 = (if close \<and> target = fd
               then clear_logger_error_state fd (set_stream i (ca55_close_stream (stream_at i S)) S) else S)
     in S1\<lparr>agent := A_stream (i + 1) target close\<rparr>)"

text \<open>A step of \<open>process\<open>_\<close>shm\<open>_\<close>stream\<open>_\<close>sync\<close>.\<close>

definition agent_step :: "'w linux \<Rightarrow> 'w log_sys \<Rightarrow> 'w log_sys exec" where
  "agent_step env S =
    (case agent S of
       A_idle \<Rightarrow> Ret S
     | A_stream i target close \<Rightarrow> Ret (log_look i target close S)
     | A_drain i target close fd head tail bsize \<Rightarrow> log_block env i target close fd head tail bsize S
     | A_close i target close fd \<Rightarrow> Ret (log_release i target close fd S))"

definition process_shm_stream_sync :: "int \<Rightarrow> bool \<Rightarrow> 'w log_sys \<Rightarrow> 'w log_sys" where
  "process_shm_stream_sync target close S = (if \<not> g_log_shm S then S else S\<lparr>agent := A_stream 0 target close\<rparr>)"

text \<open>The callback of the logger endpoint, given the mutex; a kick only signals the flush thread.\<close>

definition rpmsg_logger_cb :: "bytes option \<Rightarrow> 'w log_sys \<Rightarrow> bool \<times> 'w log_sys" where
  "rpmsg_logger_cb data S =
    (case data of None \<Rightarrow> (False, S)
     | Some d \<Rightarrow>
       if length d < 8 then (False, S)
       else if d ! 0 = LOG_STREAM_MSG_KICK then (True, S)
       else if d ! 0 = LOG_STREAM_MSG_FLUSH then (False, process_shm_stream_sync (sint (get32 (drop 4 d))) True S)
       else (False, S))"

text \<open>The deadline of the wait of the flush thread, and a round of it, with the mutex, after a wait that
  returned \<open>ret\<close>; after its loop it looks at the streams once more.\<close>

definition log_flush_deadline :: "int \<times> int \<Rightarrow> int \<times> int" where
  "log_flush_deadline now =
    (let nsec = snd now + LOG_FLUSH_INTERVAL_MS * 1000000 in
     if nsec \<ge> 1000000000 then (fst now + 1, nsec - 1000000000) else (fst now, nsec))"

definition logger_flush_round :: "int \<Rightarrow> 'w log_sys \<Rightarrow> 'w log_sys" where
  "logger_flush_round ret S =
    (if ret \<noteq> 0 \<and> ret \<noteq> LINUX_ETIMEDOUT then S
     else if g_log_flush_running S then process_shm_stream_sync (- 1) False S else S)"

definition logger_flush_exit :: "'w log_sys \<Rightarrow> 'w log_sys" where
  "logger_flush_exit S = (process_shm_stream_sync (- 1) False S)\<lparr>g_log_flush_thread := False\<rparr>"

text \<open>The service is announced, with the result of \<open>rpmsg\<open>_\<close>create\<open>_\<close>ept\<close>, and taken back: up to the join
  of the flush thread, and behind it.  The endpoint is known by the address it sends to.\<close>

definition rpmsg_logger_service_bind :: "int \<Rightarrow> 32 word \<Rightarrow> 'w log_sys \<Rightarrow> 'w log_sys" where
  "rpmsg_logger_service_bind ret dest S =
    (if logger_service_bound S then S\<lparr>rp_ept_logger := Some dest\<rparr>
     else if ret \<noteq> 0 then S
     else let S1 = S\<lparr>rp_ept_logger := Some dest, logger_service_bound := True\<rparr> in
       if g_log_flush_running S1 then S1 else S1\<lparr>g_log_flush_running := True, g_log_flush_thread := True\<rparr>)"

definition logger_unbind :: "'w log_sys \<Rightarrow> 'w log_sys" where
  "logger_unbind S = S\<lparr>logger_service_bound := False, g_log_flush_running := False\<rparr>"

definition logger_ept_destroy :: "'w log_sys \<Rightarrow> 'w log_sys" where
  "logger_ept_destroy S = S\<lparr>rp_ept_logger := None\<rparr>"

section \<open>The R8 and the agent together\<close>

datatype log_event =
    L_write int bytes
  | L_message "bytes option"
  | L_round int
  | L_exit
  | L_bind int "32 word"
  | L_unbind
  | L_destroy
  | L_agent

text \<open>Messages reach the callback, and the flush thread wakes up, when nobody holds the mutex.\<close>

definition log_do :: "'w linux \<Rightarrow> log_event \<Rightarrow> 'w log_sys \<Rightarrow> 'w log_sys exec option" where
  "log_do env ev S =
    (case ev of
       L_write fd b \<Rightarrow> Some (exec_bind (rzv_logger_stream_write fd b (lg S)) (\<lambda>(r, msgs, l). Ret (S\<lparr>lg := l\<rparr>)))
     | L_message d \<Rightarrow> if agent S = A_idle then Some (Ret (snd (rpmsg_logger_cb d S))) else None
     | L_round ret \<Rightarrow> if agent S = A_idle \<and> g_log_flush_thread S then Some (Ret (logger_flush_round ret S)) else None
     | L_exit \<Rightarrow> if agent S = A_idle \<and> g_log_flush_thread S \<and> \<not> g_log_flush_running S
                 then Some (Ret (logger_flush_exit S)) else None
     | L_bind ret dest \<Rightarrow> if rp_ept_logger S = None \<or> logger_service_bound S
                 then Some (Ret (rpmsg_logger_service_bind ret dest S)) else None
     | L_unbind \<Rightarrow> Some (Ret (logger_unbind S))
     | L_destroy \<Rightarrow> if \<not> logger_service_bound S \<and> \<not> g_log_flush_thread S \<and> agent S = A_idle
                 then Some (Ret (logger_ept_destroy S)) else None
     | L_agent \<Rightarrow> if agent S = A_idle then None else Some (agent_step env S))"

text \<open>What the R8 got into the ring of each descriptor: whole blocks, unless the ring is full or no stream
  is free.  A close with bytes left is a loss.\<close>

definition log_accepts :: "int \<Rightarrow> bytes \<Rightarrow> logger_shm \<Rightarrow> bool" where
  "log_accepts fd b l \<longleftrightarrow> \<not> (\<forall>c\<in>set (shm_streams l). stream_live c \<and> sc_active_fd c \<noteq> fd) \<and>
     length b \<le> RZV_SDRAM_LOGGER_BUF_SIZE - 1 - length (fd_contents fd l)"

fun accepted_by :: "log_event \<Rightarrow> 'w log_sys \<Rightarrow> (int \<Rightarrow> bytes) \<Rightarrow> int \<Rightarrow> bytes" where
  "accepted_by (L_write fd b) S acc = (if log_accepts fd b (lg S) then acc(fd := acc fd @ b) else acc)"
| "accepted_by _ S acc = acc"

definition log_loses :: "'w log_sys \<Rightarrow> int set" where
  "log_loses S = (case agent S of A_close i target True fd \<Rightarrow> if target = fd \<and> fd_contents fd (lg S) \<noteq> [] then {fd} else {} | _ \<Rightarrow> {})"

inductive log_run ::
  "'w linux \<Rightarrow> 'w log_sys \<Rightarrow> (int \<Rightarrow> bytes) \<Rightarrow> int set \<Rightarrow> 'w log_sys \<Rightarrow> bool"
  for env S0
where
  log_start: "log_run env S0 (\<lambda>_. []) {} S0"
| log_next: "log_run env S0 acc lost S \<Longrightarrow> log_do env ev S = Some (Ret T) \<Longrightarrow> (\<forall>fd b. ev = L_write fd b \<longrightarrow> 0 \<le> fd) \<Longrightarrow>
    log_run env S0 (accepted_by ev S acc) (if ev = L_agent then lost \<union> log_loses S else lost) T"

text \<open>What the agent relies on of \<open>write\<close>: the result is at most the length given, and so many bytes are
  appended to what was written through the descriptor.\<close>

definition appends :: "'w linux \<Rightarrow> (int \<Rightarrow> 'w \<Rightarrow> bytes) \<Rightarrow> bool" where
  "appends env file \<longleftrightarrow> (\<forall>fd b w. case lx_call env (Sys_write fd b) w of (r, w') \<Rightarrow>
     sr_ret r \<le> int (length b) \<and>
     (\<forall>x. file x w' = file x w @ (if x = fd then take (nat (sr_ret r)) b else [])))"

definition writes_succeed :: "'w linux \<Rightarrow> bool" where
  "writes_succeed env \<longleftrightarrow> (\<forall>fd b w. b \<noteq> [] \<longrightarrow> 0 < sr_ret (fst (lx_call env (Sys_write fd b) w)))"

section \<open>The snapshot of the agent\<close>

text \<open>The head that the agent copied lies in the unread bytes, whatever the R8 adds behind it.\<close>

definition within :: "logger_shm_ctrl \<Rightarrow> 32 word \<Rightarrow> nat \<Rightarrow> bool" where
  "within c head m \<longleftrightarrow> unat head = (unat (sc_tail c) + m) mod length (sc_data c) \<and> m \<le> length (shm_contents c)"

lemma wf_indices:
  assumes "shm_wf c"
  shows "unat (sc_buffer_size c) = length (sc_data c)" "unat (sc_head c) < length (sc_data c)"
    "unat (sc_tail c) < length (sc_data c)" "length (sc_data c) < 2 ^ 31" "length (shm_contents c) < length (sc_data c)"
  using assms length_ring[of "unat (sc_head c)" "sc_data c" "unat (sc_tail c)"]
  by (auto simp: shm_wf_def shm_contents_ring split: if_splits)

lemma within_now:
  assumes "shm_wf c"
  shows "within c (sc_head c) (length (shm_contents c))"
  using wf_indices[OF assms] by (auto simp: within_def shm_contents_ring length_ring)

lemma within_put:
  assumes "shm_wf c" "within c head m"
  shows "within (snd (shm_put d c)) head m"
proof -
  have "sc_tail (snd (shm_put d c)) = sc_tail c"
    by (auto simp: shm_put_def shm_append_def shm_drop_def Let_def split: exec.splits if_splits)
  moreover have "length (shm_contents c) \<le> length (shm_contents (snd (shm_put d c)))"
    using put_cases[OF assms(1), of d] by auto
  ultimately show ?thesis using assms(2) put_fields(3)[OF assms(1), of d] by (simp add: within_def)
qed

lemma within_block:
  assumes wf: "shm_wf c" and m: "within c head m" and ne: "sc_tail c \<noteq> head" and b: "bsize = sc_buffer_size c"
  defines "n \<equiv> unat (log_chunk head (sc_tail c) bsize)"
  shows "0 < n" "n \<le> m" "unat (sc_tail c) + n \<le> length (sc_data c)"
    "take n (drop (unat (sc_tail c)) (sc_data c)) = take n (shm_contents c)"
proof -
  let ?t = "unat (sc_tail c)" and ?N = "length (sc_data c)" and ?h = "unat head"
  note w = wf_indices[OF wf]
  have h: "?h = (?t + m) mod ?N" "m \<le> length (shm_contents c)" using m by (simp_all add: within_def)
  have neq: "?t \<noteq> ?h" using ne by (simp add: word_unat_eq_iff)
  have hN: "?h = (if ?t + m < ?N then ?t + m else ?t + m - ?N)"
    using h w by (simp add: mod_if[of "?t + m" ?N])
  have "unat (if head > sc_tail c then head - sc_tail c else bsize - sc_tail c) = (if ?t < ?h then ?h - ?t else ?N - ?t)"
    using w b by (auto simp: unat_sub word_less_nat_alt word_le_nat_alt)
  then have n: "n = min (if ?t < ?h then ?h - ?t else ?N - ?t) 131072"
    by (auto simp: n_def log_chunk_def Let_def min_def word_less_nat_alt)
  show "0 < n" using n w by simp
  show nm: "n \<le> m" using n neq hN w h by (auto split: if_splits)
  show tn: "?t + n \<le> ?N" using n neq hN w h by (auto split: if_splits)
  have "n \<le> length (shm_contents c)" using nm h by simp
  then show "take n (drop ?t (sc_data c)) = take n (shm_contents c)"
    using tn w by (auto simp: shm_contents_ring ring_def min_def split: if_splits)
qed

lemma within_consume:
  assumes wf: "shm_wf c" and m: "within c head m" and k: "0 < k" "k \<le> int m" and b: "bsize = sc_buffer_size c"
  defines "c' \<equiv> c\<lparr>sc_tail := word_of_int ((uint (sc_tail c) + k) mod uint bsize)\<rparr>"
  shows "shm_wf c'" "shm_contents c' = drop (nat k) (shm_contents c)" "within c' head (m - nat k)"
proof -
  let ?t = "unat (sc_tail c)" and ?N = "length (sc_data c)"
  note w = wf_indices[OF wf]
  have le: "nat k \<le> length (shm_contents c)" using m k unfolding within_def by linarith
  have u: "uint (sc_tail c) = int ?t" "uint bsize = int ?N" by (simp, unfold b uint_nat, simp only: w(1))
  have "(uint (sc_tail c) + k) mod uint bsize = int ((?t + nat k) mod ?N)"
    using k u by (simp add: zmod_int)
  moreover have small: "(?t + nat k) mod ?N < 2 ^ 32"
  proof -
    have "0 < ?N" using w(2) by linarith
    then have "(?t + nat k) mod ?N < ?N" by (rule mod_less_divisor)
    then show ?thesis using w(4) by simp
  qed
  ultimately have "unat (word_of_int ((uint (sc_tail c) + k) mod uint bsize) :: 32 word) = (?t + nat k) mod ?N"
    by (simp add: unat_of_nat_small)
  then have e: "c' = ca55_consume (nat k) c"
    using consume_tail[OF wf le] unfolding c'_def by (simp add: ca55_consume_def word_unat_eq_iff)
  show "shm_wf c'" unfolding e by (rule consume_wf[OF wf le])
  show ct: "shm_contents c' = drop (nat k) (shm_contents c)" unfolding e by (rule consume_contents[OF wf le])
  have "unat (sc_tail c') = (?t + nat k) mod ?N" unfolding e by (rule consume_tail[OF wf le])
  moreover have "sc_data c' = sc_data c" by (simp add: c'_def)
  moreover have "((?t + nat k) mod ?N + (m - nat k)) mod ?N = (?t + m) mod ?N"
  proof -
    have "?t + m = ?t + nat k + (m - nat k)" using k by simp
    then show ?thesis by (simp only: mod_add_left_eq)
  qed
  moreover have "m - nat k \<le> length (shm_contents c')" using m ct unfolding within_def by (simp add: diff_le_mono)
  ultimately show "within c' head (m - nat k)" using m by (simp only: within_def)
qed

section \<open>The invariant\<close>

text \<open>What a write of the R8 does to a stream that is live.\<close>

lemma stream_write_at:
  assumes wf: "pool_wf l" and fd: "0 \<le> fd" and i: "i < 2" "stream_live (shm_streams l ! i)"
    and w: "rzv_logger_stream_write fd b l = Ret (r, msgs, l')"
  shows "shm_streams l' ! i = (if sc_active_fd (shm_streams l ! i) = fd then snd (shm_put b (shm_streams l ! i)) else shm_streams l ! i)"
proof (cases "get_shm_stream fd (shm_streams l)")
  case (Pair j ss)
  have len: "length (shm_streams l) = 2" using wf by (simp add: pool_wf_def)
  show ?thesis
  proof (cases j)
    case None
    have "fst (get_shm_stream fd (shm_streams l)) = None" using Pair None by simp
    then have "sc_active_fd (shm_streams l ! i) \<noteq> fd" using get_shm_stream_None[OF fd] i(1) len by (metis nth_mem)
    moreover have "ss = shm_streams l" using Pair None by (auto simp: get_shm_stream_def split: option.splits)
    ultimately show ?thesis using w Pair None by (simp add: rzv_logger_stream_write_def)
  next
    case (Some k)
    note s = get_shm_stream_Some[OF Pair[unfolded Some]]
    have l': "shm_streams l' = (shm_streams l)[k := snd (shm_put b (ss ! k))]"
      using write_shape[OF wf fd Pair[unfolded Some], of b] w by auto
    show ?thesis
    proof (cases "sc_active_fd (shm_streams l ! i) = fd")
      case True
      then have ss: "ss = shm_streams l" using s i len by (metis nth_mem)
      then have "k = i" using s wf i fd len True unfolding pool_wf_def by simp
      then show ?thesis using l' ss True len i(1) by simp
    next
      case False
      have "k \<noteq> i" using s i False by auto
      then show ?thesis using l' False by simp
    qed
  qed
qed

definition pc_ok :: "'w log_sys \<Rightarrow> bool" where
  "pc_ok S = (case agent S of
     A_idle \<Rightarrow> True
   | A_stream i target close \<Rightarrow> True
   | A_drain i target close fd head tail bsize \<Rightarrow> i < 2 \<and> 0 \<le> fd \<and> sc_magic (stream_at i S) = LOG_SHM_MAGIC \<and>
       sc_active_fd (stream_at i S) = fd \<and> sc_tail (stream_at i S) = tail \<and> sc_buffer_size (stream_at i S) = bsize \<and>
       (\<exists>m. within (stream_at i S) head m)
   | A_close i target close fd \<Rightarrow> i < 2 \<and> 0 \<le> fd \<and> sc_magic (stream_at i S) = LOG_SHM_MAGIC \<and> sc_active_fd (stream_at i S) = fd)"

definition log_ok :: "(int \<Rightarrow> 'w \<Rightarrow> bytes) \<Rightarrow> (int \<Rightarrow> bytes) \<Rightarrow> int set \<Rightarrow> 'w log_sys \<Rightarrow> bool" where
  "log_ok file want lost S \<longleftrightarrow> pool_wf (lg S) \<and> pc_ok S \<and>
     (\<forall>fd. 0 \<le> fd \<longrightarrow> fd \<notin> lost \<longrightarrow> file fd (lg_world S) @ fd_contents fd (lg S) = want fd)"

lemma pool_at:
  assumes "pool_wf l" "i < 2"
  shows "i < length (shm_streams l)" "length (sc_data (shm_streams l ! i)) = RZV_SDRAM_LOGGER_BUF_SIZE"
    "sc_magic (shm_streams l ! i) = LOG_SHM_MAGIC \<Longrightarrow> shm_wf (shm_streams l ! i)"
proof -
  show i: "i < length (shm_streams l)" using assms by (simp add: pool_wf_def)
  then have "shm_streams l ! i \<in> set (shm_streams l)" by simp
  then show "length (sc_data (shm_streams l ! i)) = RZV_SDRAM_LOGGER_BUF_SIZE"
    "sc_magic (shm_streams l ! i) = LOG_SHM_MAGIC \<Longrightarrow> shm_wf (shm_streams l ! i)"
    using assms(1) by (simp_all add: pool_wf_def)
qed

lemma log_write_ok:
  assumes ok: "log_ok file want lost S" and fd: "0 \<le> fd"
    and w: "rzv_logger_stream_write fd b (lg S) = Ret (r, msgs, l)"
  shows "log_ok file (if log_accepts fd b (lg S) then want(fd := want fd @ b) else want) lost (S\<lparr>lg := l\<rparr>)"
proof -
  have o: "pool_wf (lg S)" "pc_ok S" "\<And>x. 0 \<le> x \<Longrightarrow> x \<notin> lost \<Longrightarrow> file x (lg_world S) @ fd_contents x (lg S) = want x"
    using ok by (simp_all add: log_ok_def)
  let ?full = "\<forall>c\<in>set (shm_streams (lg S)). stream_live c \<and> sc_active_fd c \<noteq> fd"
  have e: "pool_wf l \<and> fd_contents fd l = (if log_accepts fd b (lg S) then fd_contents fd (lg S) @ b else fd_contents fd (lg S)) \<and>
      (\<forall>fd'. 0 \<le> fd' \<and> fd' \<noteq> fd \<longrightarrow> fd_contents fd' l = fd_contents fd' (lg S))"
  proof (cases ?full)
    case True
    then show ?thesis using stream_write_effect[OF o(1) fd, of b] w o(1) by (simp add: log_accepts_def)
  next
    case False
    then show ?thesis using stream_write_effect[OF o(1) fd, of b] w unfolding if_not_P[OF False] log_accepts_def by auto
  qed
  have at: "stream_at i (S\<lparr>lg := l\<rparr>) = (if sc_active_fd (stream_at i S) = fd then snd (shm_put b (stream_at i S)) else stream_at i S)"
    if "i < 2" "stream_live (stream_at i S)" for i
    using stream_write_at[OF o(1) fd that(1) _ w] that(2) by (simp add: stream_at_def)
  have wfi: "shm_wf (stream_at i S)" if "i < 2" "sc_magic (stream_at i S) = LOG_SHM_MAGIC" for i
    using pool_at(3)[OF o(1) that(1)] that(2) by (simp add: stream_at_def)
  have keep: "sc_tail (snd (shm_put b c)) = sc_tail c" "sc_buffer_size (snd (shm_put b c)) = sc_buffer_size c" for c
    by (auto simp: shm_put_def shm_append_def shm_drop_def Let_def split: exec.splits if_splits)
  have "pc_ok (S\<lparr>lg := l\<rparr>)"
    using o(2) at wfi within_put put_fields(1,2) keep by (simp add: pc_ok_def split: agent_pc.splits) blast
  then show ?thesis using e o(3) by (auto simp: log_ok_def)
qed

text \<open>A stream in use changes.\<close>

lemma stream_update:
  assumes wf: "pool_wf l" and i: "i < 2" "stream_live (shm_streams l ! i)"
    and c: "sc_magic c = LOG_SHM_MAGIC" "sc_active_fd c = sc_active_fd (shm_streams l ! i) \<or> sc_active_fd c < 0"
      "length (sc_data c) = length (sc_data (shm_streams l ! i))" "shm_wf c"
  defines "l' \<equiv> l\<lparr>shm_streams := (shm_streams l)[i := c]\<rparr>" and "fd \<equiv> sc_active_fd (shm_streams l ! i)"
  shows "pool_wf l'" "fd_contents fd l' = (if sc_active_fd c = fd then shm_contents c else [])"
    "\<And>x. 0 \<le> x \<Longrightarrow> x \<noteq> fd \<Longrightarrow> fd_contents x l' = fd_contents x l"
proof -
  note p = pool_at[OF wf i(1)]
  have un: "j = i" if "j < 2" "stream_live (shm_streams l ! j)" "sc_active_fd (shm_streams l ! j) = fd" for j
    using wf i that unfolding pool_wf_def fd_def by simp
  show wf': "pool_wf l'"
    unfolding l'_def
  proof (rule pool_update_wf[OF wf i(1) _ c(4)])
    fix j assume j: "j < 2" "j \<noteq> i" "stream_live (shm_streams l ! j)"
    then show "sc_active_fd (shm_streams l ! j) \<noteq> sc_active_fd c" using un[of j] c(2) fd_def by auto
  qed (use c(3) p(2) in simp)
  have l: "l' = l\<lparr>shm_streams := (shm_streams l)[i := c], last_kick_head := last_kick_head l\<rparr>" by (simp add: l'_def)
  have at: "shm_streams l' ! i = c" using p(1) by (simp add: l'_def)
  show "fd_contents fd l' = (if sc_active_fd c = fd then shm_contents c else [])"
  proof (cases "sc_active_fd c = fd")
    case True
    then show ?thesis using fd_contents_at[OF wf' i(1), of fd] at c(1) i(2) by (simp add: fd_def)
  next
    case False
    have "\<not> (sc_magic d = LOG_SHM_MAGIC \<and> sc_active_fd d = fd)" if "d \<in> set (shm_streams l')" for d
    proof -
      have "length (shm_streams l') = 2" using wf' by (simp add: pool_wf_def)
      then obtain j where j: "j < 2" "d = shm_streams l' ! j" using \<open>d \<in> set (shm_streams l')\<close> by (metis in_set_conv_nth)
      show ?thesis
      proof (cases "j = i")
        case True
        then show ?thesis using j at False by simp
      next
        case ji: False
        then have "d = shm_streams l ! j" using j by (simp add: l'_def)
        then show ?thesis using un[of j] ji j i(2) by (auto simp: fd_def)
      qed
    qed
    then have "find_index (\<lambda>d. sc_magic d = LOG_SHM_MAGIC \<and> sc_active_fd d = fd) (shm_streams l') = None"
      by (simp add: find_index_None_iff)
    then show ?thesis using False by (simp add: fd_contents_def)
  qed
  fix x :: int assume x: "0 \<le> x" "x \<noteq> fd"
  have ne: "sc_active_fd c \<noteq> x" using c(2) x by (auto simp: fd_def)
  show "fd_contents x l' = fd_contents x l"
    unfolding l by (rule fd_contents_other[OF wf i(1) x(1) ne]) (use x(2) in \<open>simp add: fd_def\<close>)
qed

lemma error_reported_only: "\<exists>m. error_reported fd S = (fst (error_reported fd S), S\<lparr>g_log_write_error_reported := m\<rparr>)"
  by (auto simp: error_reported_def split: option.splits intro: exI[of _ "g_log_write_error_reported S"])

text \<open>One block: it is read from the bytes not yet written, and what was written leaves the ring.\<close>

lemma log_block_shape:
  assumes wf: "pool_wf (lg S)" and pc: "pc_ok S" "agent S = A_drain i target close fd head tail bsize"
    and w: "lx_call env (Sys_write fd (take n (fd_contents fd (lg S)))) (lg_world S) = (r, w')"
    and n: "n = unat (log_chunk head tail bsize)" and ne: "tail \<noteq> head" and r: "sr_ret r \<le> int n"
  shows "\<exists>T. log_block env i target close fd head tail bsize S = Ret T \<and>
    lg_world T = w' \<and> agent T = (if sr_ret r \<le> 0 then A_close i target close fd
         else A_drain i target close fd head (sc_tail (stream_at i T)) bsize) \<and>
    pool_wf (lg T) \<and> pc_ok T \<and> 0 < n \<and> n \<le> length (fd_contents fd (lg S)) \<and>
    fd_contents fd (lg T) = drop (nat (sr_ret r)) (fd_contents fd (lg S)) \<and>
    (\<forall>x. 0 \<le> x \<longrightarrow> x \<noteq> fd \<longrightarrow> fd_contents x (lg T) = fd_contents x (lg S)) \<and>
    sc_head (stream_at i T) = sc_head (stream_at i S) \<and> (\<forall>j. j \<noteq> i \<longrightarrow> stream_at j T = stream_at j S)"
proof -
  let ?c = "stream_at i S"
  obtain m where c: "i < 2" "0 \<le> fd" "sc_magic ?c = LOG_SHM_MAGIC" "sc_active_fd ?c = fd" "sc_tail ?c = tail"
    "sc_buffer_size ?c = bsize" "within ?c head m"
    using pc by (auto simp: pc_ok_def)
  have c': "shm_streams (lg S) ! i = ?c" by (simp add: stream_at_def)
  note p = pool_at[OF wf c(1), unfolded c']
  have cwf: "shm_wf ?c" by (rule p(3)[OF c(3)])
  have cont: "fd_contents fd (lg S) = shm_contents ?c"
    using fd_contents_at[OF wf c(1,2)] c(3,4) by (simp add: c')
  have ne': "sc_tail ?c \<noteq> head" using ne c(5) by simp
  note bl = within_block[OF cwf c(7) ne' c(6)[symmetric], unfolded c(5)]
  have b: "0 < n" "n \<le> m" "unat tail + n \<le> length (sc_data ?c)" "take n (drop (unat tail) (sc_data ?c)) = take n (fd_contents fd (lg S))"
    using bl by (simp_all add: n cont)
  have nl: "n \<le> length (fd_contents fd (lg S))" using b(2) c(7) by (simp add: within_def cont)
  show ?thesis
  proof (cases "sr_ret r \<le> 0")
    case True
    obtain q where q: "error_reported fd (S\<lparr>lg_world := w'\<rparr>) = (fst (error_reported fd (S\<lparr>lg_world := w'\<rparr>)), S\<lparr>lg_world := w', g_log_write_error_reported := q\<rparr>)"
      using error_reported_only[of fd "S\<lparr>lg_world := w'\<rparr>"] by auto
    obtain z where z: "log_block env i target close fd head tail bsize S =
      Ret (S\<lparr>lg_world := w', g_log_write_error_reported := z, agent := A_close i target close fd\<rparr>)"
      using ne b(3) True q by (cases "fst (error_reported fd (S\<lparr>lg_world := w'\<rparr>))")
        (auto simp: log_block_def n[symmetric] b(4) w Let_def)
    show ?thesis
      by (rule exI, intro conjI, rule z)
         (use True wf c b(1) nl in \<open>simp_all add: pc_ok_def stream_at_def\<close>)
  next
    case False
    let ?k = "sr_ret r"
    let ?d = "?c\<lparr>sc_tail := word_of_int ((uint (sc_tail ?c) + ?k) mod uint bsize)\<rparr>"
    have k: "0 < ?k" "?k \<le> int m" using False r b(2) by simp_all
    note co = within_consume[OF cwf c(7) k c(6)[symmetric]]
    have z0: "bsize \<noteq> 0" using wf_indices(1,2)[OF cwf] c(6) by auto
    obtain q where q: "error_reported fd (S\<lparr>lg_world := w'\<rparr>) = (fst (error_reported fd (S\<lparr>lg_world := w'\<rparr>)), S\<lparr>lg_world := w', g_log_write_error_reported := q\<rparr>)"
      using error_reported_only[of fd "S\<lparr>lg_world := w'\<rparr>"] by auto
    obtain z where z: "log_block env i target close fd head tail bsize S =
      Ret ((set_stream i ?d (S\<lparr>lg_world := w', g_log_write_error_reported := z\<rparr>))\<lparr>agent := A_drain i target close fd head (sc_tail ?d) bsize\<rparr>)"
      using ne b(3) False q z0 by (cases "fst (error_reported fd (S\<lparr>lg_world := w'\<rparr>))")
        (auto simp: log_block_def n[symmetric] b(4) w Let_def c(5) clear_logger_error_state_def set_stream_def)
    let ?T = "(set_stream i ?d (S\<lparr>lg_world := w', g_log_write_error_reported := z\<rparr>))\<lparr>agent := A_drain i target close fd head (sc_tail ?d) bsize\<rparr>"
    have at: "stream_at i ?T = ?d" using p(1) by (simp add: stream_at_def set_stream_def)
    have up: "lg ?T = (lg S)\<lparr>shm_streams := (shm_streams (lg S))[i := ?d]\<rparr>" by (simp add: set_stream_def)
    have live: "stream_live (shm_streams (lg S) ! i)" using c by (simp add: c')
    note su = stream_update[OF wf c(1) live, of ?d]
    have fdi: "sc_active_fd (shm_streams (lg S) ! i) = fd" using c(4) by (simp add: c')
    have "pool_wf (lg ?T)" "fd_contents fd (lg ?T) = shm_contents ?d"
      "\<forall>x. 0 \<le> x \<longrightarrow> x \<noteq> fd \<longrightarrow> fd_contents x (lg ?T) = fd_contents x (lg S)"
      using su co(1) c(3,4) fdi unfolding up by (simp_all add: c')
    moreover have "pc_ok ?T" using c co(3) at by (auto simp: pc_ok_def)
    moreover have "shm_contents ?d = drop (nat ?k) (fd_contents fd (lg S))" using co(2) by (simp add: cont)
    moreover have "lg_world ?T = w'" "\<forall>j. j \<noteq> i \<longrightarrow> stream_at j ?T = stream_at j S"
      by (simp_all add: set_stream_def stream_at_def)
    ultimately show ?thesis using False z at b(1) nl
      by (intro exI[of _ ?T]) simp
  qed
qed

lemma appendsD:
  assumes "appends env file" "lx_call env (Sys_write fd b) w = (r, w')"
  shows "sr_ret r \<le> int (length b)" "file x w' = file x w @ (if x = fd then take (nat (sr_ret r)) b else [])"
proof -
  have a: "case lx_call env (Sys_write fd b) w of (r, w') \<Rightarrow> sr_ret r \<le> int (length b) \<and>
     (\<forall>x. file x w' = file x w @ (if x = fd then take (nat (sr_ret r)) b else []))"
    by (rule assms(1)[unfolded appends_def, THEN spec, THEN spec, THEN spec])
  note a = a[unfolded assms(2) prod.case]
  from a show "sr_ret r \<le> int (length b)" "file x w' = file x w @ (if x = fd then take (nat (sr_ret r)) b else [])"
    by blast+
qed

lemma log_block_ok:
  assumes env: "appends env file" and ok: "log_ok file want lost S" and a: "agent S = A_drain i target close fd head tail bsize"
  shows "\<exists>T. log_block env i target close fd head tail bsize S = Ret T \<and> log_ok file want lost T"
proof (cases "tail = head")
  case True
  then have "log_block env i target close fd head tail bsize S = Ret (S\<lparr>agent := A_close i target close fd\<rparr>)"
    by (simp add: log_block_def)
  then show ?thesis using ok a by (auto simp: log_ok_def pc_ok_def stream_at_def)
next
  case False
  have o: "pool_wf (lg S)" "pc_ok S" "\<And>x. 0 \<le> x \<Longrightarrow> x \<notin> lost \<Longrightarrow> file x (lg_world S) @ fd_contents x (lg S) = want x"
    using ok by (simp_all add: log_ok_def)
  define n where "n = unat (log_chunk head tail bsize)"
  obtain r w' where w: "lx_call env (Sys_write fd (take n (fd_contents fd (lg S)))) (lg_world S) = (r, w')" by fastforce
  note ap = appendsD[OF env w]
  have r: "sr_ret r \<le> int n" using ap(1) by simp
  obtain T where T: "log_block env i target close fd head tail bsize S = Ret T" "lg_world T = w'"
    "pool_wf (lg T)" "pc_ok T" "n \<le> length (fd_contents fd (lg S))"
    "fd_contents fd (lg T) = drop (nat (sr_ret r)) (fd_contents fd (lg S))"
    "\<And>x. 0 \<le> x \<Longrightarrow> x \<noteq> fd \<Longrightarrow> fd_contents x (lg T) = fd_contents x (lg S)"
    using log_block_shape[OF o(1,2) a w n_def False r] by blast
  have "file x (lg_world T) @ fd_contents x (lg T) = want x" if x: "0 \<le> x" "x \<notin> lost" for x
  proof (cases "x = fd")
    case True
    have "take (nat (sr_ret r)) (take n (fd_contents fd (lg S))) = take (nat (sr_ret r)) (fd_contents fd (lg S))"
      using nat_mono[OF r] by (simp add: min_absorb1)
    then show ?thesis using ap(2)[of x] T(2,6) True o(3)[OF x] by simp
  next
    case False
    then show ?thesis using ap(2)[of x] T(2,7) o(3)[OF x] x by simp
  qed
  then show ?thesis using T by (auto simp: log_ok_def)
qed

lemma log_look_ok:
  assumes ok: "log_ok file want lost S"
  shows "log_ok file want lost (log_look i target close S)"
proof -
  have o: "pool_wf (lg S)" using ok by (simp add: log_ok_def)
  have "\<exists>m. within (stream_at i S) (sc_head (stream_at i S)) m" if "i < 2" "sc_magic (stream_at i S) = LOG_SHM_MAGIC"
    using within_now pool_at(3)[OF o that(1)] that(2) unfolding stream_at_def by blast
  then show ?thesis using ok by (auto simp: log_look_def Let_def log_ok_def pc_ok_def stream_at_def)
qed

lemma log_release_ok:
  assumes ok: "log_ok file want lost S" and a: "agent S = A_close i target close fd"
  shows "log_ok file want (lost \<union> log_loses S) (log_release i target close fd S)"
proof (cases "close \<and> target = fd")
  case False
  then show ?thesis using ok by (auto simp: log_release_def log_ok_def pc_ok_def)
next
  case True
  have o: "pool_wf (lg S)" "\<And>x. 0 \<le> x \<Longrightarrow> x \<notin> lost \<Longrightarrow> file x (lg_world S) @ fd_contents x (lg S) = want x"
    using ok by (simp_all add: log_ok_def)
  let ?c = "stream_at i S" and ?T = "log_release i target close fd S"
  have c: "i < 2" "0 \<le> fd" "sc_magic ?c = LOG_SHM_MAGIC" "sc_active_fd ?c = fd" using ok a by (simp_all add: log_ok_def pc_ok_def)
  have c': "shm_streams (lg S) ! i = ?c" by (simp add: stream_at_def)
  have live: "stream_live (shm_streams (lg S) ! i)" using c by (simp add: c')
  have up: "lg ?T = (lg S)\<lparr>shm_streams := (shm_streams (lg S))[i := ca55_close_stream ?c]\<rparr>"
    using True by (simp add: log_release_def set_stream_def clear_logger_error_state_def)
  have cw: "shm_wf (ca55_close_stream ?c)" using pool_at(3)[OF o(1) c(1)] c(3)
    by (simp add: c' ca55_close_stream_def shm_wf_def)
  note su = stream_update[OF o(1) c(1) live _ _ _ cw, unfolded up[symmetric] c']
  have s: "pool_wf (lg ?T)" "fd_contents fd (lg ?T) = []" "\<And>x. 0 \<le> x \<Longrightarrow> x \<noteq> fd \<Longrightarrow> fd_contents x (lg ?T) = fd_contents x (lg S)"
    using su c by (simp_all add: ca55_close_stream_def)
  have w: "lg_world ?T = lg_world S" using True by (simp add: log_release_def set_stream_def clear_logger_error_state_def)
  have "fd_contents fd (lg S) = []" if "fd \<notin> log_loses S"
    using that True a by (simp add: log_loses_def split: if_splits)
  then have "file x (lg_world ?T) @ fd_contents x (lg ?T) = want x" if "0 \<le> x" "x \<notin> lost \<union> log_loses S" for x
    using s(2) s(3)[of x] w o(2)[OF that(1)] that \<open>fd \<notin> log_loses S \<Longrightarrow> fd_contents fd (lg S) = []\<close>
    by (cases "x = fd") simp_all
  moreover have "pc_ok ?T" by (simp add: log_release_def pc_ok_def)
  ultimately show ?thesis using s(1) by (simp add: log_ok_def)
qed

lemma agent_ok:
  assumes "appends env file" "log_ok file want lost S"
  shows "\<exists>T. agent_step env S = Ret T \<and> log_ok file want (lost \<union> log_loses S) T"
proof -
  have mono: "log_ok file want lost T \<Longrightarrow> log_ok file want (lost \<union> log_loses S) T" for T by (simp add: log_ok_def)
  show ?thesis
  proof (cases "agent S")
    case A_idle
    then show ?thesis using assms(2) mono by (simp add: agent_step_def)
  next
    case (A_stream i target close)
    then show ?thesis using log_look_ok[OF assms(2)] mono by (simp add: agent_step_def)
  next
    case (A_drain i target close fd head tail bsize)
    then show ?thesis using log_block_ok[OF assms A_drain] mono by (auto simp: agent_step_def)
  next
    case (A_close i target close fd)
    then show ?thesis using log_release_ok[OF assms(2) A_close] by (simp add: agent_step_def)
  qed
qed

lemma log_ok_cong:
  assumes "log_ok file want lost S" "lg T = lg S" "lg_world T = lg_world S"
    and "agent T = agent S \<or> (\<exists>i target close. agent T = A_stream i target close)"
  shows "log_ok file want lost T"
proof -
  have "stream_at i T = stream_at i S" for i using assms(2) by (simp add: stream_at_def)
  then show ?thesis using assms by (elim disjE exE; cases "agent S") (simp_all add: log_ok_def pc_ok_def)
qed

lemma process_ok: "log_ok file want lost S \<Longrightarrow> log_ok file want lost (process_shm_stream_sync target close S)"
  by (erule log_ok_cong) (simp_all add: process_shm_stream_sync_def)

lemma log_event_ok:
  assumes env: "appends env file" and ok: "log_ok file (\<lambda>fd. a fd @ acc fd) lost S"
    and ev: "log_do env ev S = Some x" "\<forall>fd b. ev = L_write fd b \<longrightarrow> 0 \<le> fd"
  shows "\<exists>T. x = Ret T \<and> log_ok file (\<lambda>fd. a fd @ accepted_by ev S acc fd) (if ev = L_agent then lost \<union> log_loses S else lost) T"
proof (cases ev)
  case (L_write fd b)
  have wf: "pool_wf (lg S)" and fd: "0 \<le> fd" using ok ev(2) L_write by (simp_all add: log_ok_def)
  obtain r msgs l where w: "rzv_logger_stream_write fd b (lg S) = Ret (r, msgs, l)"
    using stream_write_returns[OF wf] by blast
  have x: "x = Ret (S\<lparr>lg := l\<rparr>)" using ev(1) w unfolding L_write by (simp add: log_do_def)
  have f: "(if log_accepts fd b (lg S) then (\<lambda>x. a x @ acc x)(fd := (a fd @ acc fd) @ b) else (\<lambda>x. a x @ acc x)) =
      (\<lambda>x. a x @ accepted_by ev S acc x)"
    unfolding L_write by (simp add: fun_eq_iff)
  show ?thesis using log_write_ok[OF ok fd w] x unfolding f by (simp add: L_write)
next
  case (L_message d)
  then show ?thesis using ev ok process_ok by (auto simp: log_do_def rpmsg_logger_cb_def split: if_splits option.splits)
next
  case (L_round ret)
  then show ?thesis using ev ok process_ok by (auto simp: log_do_def logger_flush_round_def split: if_splits)
next
  case L_exit
  then have "x = Ret (logger_flush_exit S)" using ev by (simp add: log_do_def split: if_splits)
  moreover have "log_ok file (\<lambda>fd. a fd @ acc fd) lost (logger_flush_exit S)"
    by (rule log_ok_cong[OF process_ok[OF ok, of "- 1" False]]) (simp_all add: logger_flush_exit_def)
  ultimately show ?thesis using L_exit by simp
next
  case L_agent
  then have "x = agent_step env S" using ev by (simp add: log_do_def split: if_splits)
  then show ?thesis using agent_ok[OF env ok] L_agent by simp
next
  case (L_bind ret dest)
  then have "x = Ret (rpmsg_logger_service_bind ret dest S)" using ev by (simp add: log_do_def split: if_splits)
  moreover have "log_ok file (\<lambda>fd. a fd @ acc fd) lost (rpmsg_logger_service_bind ret dest S)"
    by (rule log_ok_cong[OF ok]) (simp_all add: rpmsg_logger_service_bind_def Let_def)
  ultimately show ?thesis using L_bind by simp
next
  case L_unbind
  then have "x = Ret (logger_unbind S)" using ev by (simp add: log_do_def)
  moreover have "log_ok file (\<lambda>fd. a fd @ acc fd) lost (logger_unbind S)"
    by (rule log_ok_cong[OF ok]) (simp_all add: logger_unbind_def)
  ultimately show ?thesis using L_unbind by simp
next
  case L_destroy
  then have "x = Ret (logger_ept_destroy S)" using ev by (simp add: log_do_def split: if_splits)
  moreover have "log_ok file (\<lambda>fd. a fd @ acc fd) lost (logger_ept_destroy S)"
    by (rule log_ok_cong[OF ok]) (simp_all add: logger_ept_destroy_def)
  ultimately show ?thesis using L_destroy by simp
qed

lemma log_run_ok:
  assumes env: "appends env file" and s0: "pool_wf (lg S0)" "agent S0 = A_idle" and run: "log_run env S0 acc lost S"
  shows "log_ok file (\<lambda>fd. (file fd (lg_world S0) @ fd_contents fd (lg S0)) @ acc fd) lost S"
  using run
proof (induction rule: log_run.induct)
  case log_start
  then show ?case using s0 by (simp add: log_ok_def pc_ok_def)
next
  case (log_next acc lost S ev T)
  then show ?case using log_event_ok[OF env log_next.IH log_next.hyps(2,3)] by auto
qed

section \<open>A flush drains its stream\<close>

text \<open>The agent alone, for \<open>n\<close> steps.\<close>

fun agent_iter :: "'w linux \<Rightarrow> nat \<Rightarrow> 'w log_sys \<Rightarrow> 'w log_sys exec" where
  "agent_iter env 0 S = Ret S"
| "agent_iter env (Suc n) S = exec_bind (agent_step env S) (agent_iter env n)"

lemma agent_iter_add:
  "agent_iter env m S = Ret T \<Longrightarrow> agent_iter env n T = Ret U \<Longrightarrow> agent_iter env (m + n) S = Ret U"
proof (induction m arbitrary: S)
  case (Suc m)
  then obtain R where "agent_step env S = Ret R" "agent_iter env m R = Ret T" by (auto simp: exec_bind_Ret_iff)
  then show ?case using Suc.IH Suc.prems(2) by simp
qed simp

lemma log_drain:
  assumes env: "appends env file" "writes_succeed env"
    and ok: "log_ok file want lost S" and a: "agent S = A_drain i target close fd head tail bsize"
    and h: "sc_head (stream_at i S) = head"
  shows "\<exists>n T. agent_iter env n S = Ret T \<and> log_ok file want lost T \<and> agent T = A_close i target close fd \<and>
    fd_contents fd (lg T) = [] \<and> (\<forall>j. j \<noteq> i \<longrightarrow> stream_at j T = stream_at j S)"
  using ok a h
proof (induction "length (fd_contents fd (lg S))" arbitrary: S tail rule: less_induct)
  case less
  have o: "pool_wf (lg S)" "pc_ok S" using less.prems(1) by (simp_all add: log_ok_def)
  have c: "i < 2" "0 \<le> fd" "sc_magic (stream_at i S) = LOG_SHM_MAGIC" "sc_active_fd (stream_at i S) = fd" "sc_tail (stream_at i S) = tail"
    using o(2) less.prems(2) by (simp_all add: pc_ok_def)
  show ?case
  proof (cases "tail = head")
    case True
    then have b: "log_block env i target close fd head tail bsize S = Ret (S\<lparr>agent := A_close i target close fd\<rparr>)"
      by (simp add: log_block_def)
    have "fd_contents fd (lg S) = shm_contents (stream_at i S)"
      using fd_contents_at[OF o(1) c(1,2)] c(3,4) by (simp add: stream_at_def)
    then have "fd_contents fd (lg S) = []" using True less.prems(3) c(5) by (simp add: shm_contents_def)
    moreover have "log_ok file want lost (S\<lparr>agent := A_close i target close fd\<rparr>)"
      using log_block_ok[OF env(1) less.prems(1,2)] b by simp
    ultimately show ?thesis using b less.prems(2)
      by (intro exI[of _ 1] exI[of _ "S\<lparr>agent := A_close i target close fd\<rparr>"]) (simp add: agent_step_def stream_at_def)
  next
    case False
    define n where "n = unat (log_chunk head tail bsize)"
    obtain r w' where w: "lx_call env (Sys_write fd (take n (fd_contents fd (lg S)))) (lg_world S) = (r, w')" by fastforce
    have r: "sr_ret r \<le> int n" using appendsD(1)[OF env(1) w] by simp
    obtain T where T: "log_block env i target close fd head tail bsize S = Ret T" "0 < n" "n \<le> length (fd_contents fd (lg S))"
      "agent T = (if sr_ret r \<le> 0 then A_close i target close fd else A_drain i target close fd head (sc_tail (stream_at i T)) bsize)"
      "fd_contents fd (lg T) = drop (nat (sr_ret r)) (fd_contents fd (lg S))" "sc_head (stream_at i T) = sc_head (stream_at i S)"
      "\<forall>j. j \<noteq> i \<longrightarrow> stream_at j T = stream_at j S"
      using log_block_shape[OF o less.prems(2) w n_def False r] by blast
    have "take n (fd_contents fd (lg S)) \<noteq> []" using T(2,3) by auto
    then have "0 < sr_ret (fst (lx_call env (Sys_write fd (take n (fd_contents fd (lg S)))) (lg_world S)))"
      using env(2) unfolding writes_succeed_def by blast
    then have pos: "0 < sr_ret r" using w by simp
    have "log_ok file want lost T" using log_block_ok[OF env(1) less.prems(1,2)] T(1) by auto
    moreover have "length (fd_contents fd (lg T)) < length (fd_contents fd (lg S))" using T(2,3,5) pos by simp
    moreover have "agent T = A_drain i target close fd head (sc_tail (stream_at i T)) bsize" using T(4) pos by simp
    ultimately obtain k U where U: "agent_iter env k T = Ret U" "log_ok file want lost U" "agent U = A_close i target close fd"
      "fd_contents fd (lg U) = []" "\<forall>j. j \<noteq> i \<longrightarrow> stream_at j U = stream_at j T"
      using less.hyps[of T "sc_tail (stream_at i T)"] T(6) less.prems(3) by auto
    have "agent_iter env (Suc k) S = Ret U" using T(1) U(1) less.prems(2) by (simp add: agent_step_def)
    then show ?thesis using U T(7) by (metis (no_types))
  qed
qed

abbreviation serves :: "logger_shm_ctrl \<Rightarrow> int \<Rightarrow> bool" where
  "serves c fd \<equiv> sc_magic c = LOG_SHM_MAGIC \<and> sc_active_fd c = fd"

lemma log_visit:
  assumes env: "appends env file" "writes_succeed env" and fd: "0 \<le> fd" and i: "i < 2"
    and ok: "log_ok file want lost S" and a: "agent S = A_stream i fd True"
  shows "\<exists>n T. agent_iter env n S = Ret T \<and> log_ok file want lost T \<and> agent T = A_stream (i + 1) fd True \<and>
    \<not> serves (stream_at i T) fd \<and> (\<forall>j. j \<noteq> i \<longrightarrow> stream_at j T = stream_at j S)"
proof (cases "serves (stream_at i S) fd")
  case False
  then have l: "log_look i fd True S = S\<lparr>agent := A_stream (i + 1) fd True\<rparr>"
    using i fd by (auto simp: log_look_def Let_def)
  then have "agent_iter env 1 S = Ret (S\<lparr>agent := A_stream (i + 1) fd True\<rparr>)" using a by (simp add: agent_step_def)
  then show ?thesis using log_look_ok[OF ok, of i fd True] False l by (fastforce simp: stream_at_def)
next
  case True
  let ?D = "log_look i fd True S"
  have D: "agent ?D = A_drain i fd True fd (sc_head (stream_at i S)) (sc_tail (stream_at i S)) (sc_buffer_size (stream_at i S))"
    "lg ?D = lg S"
    using True i fd by (simp_all add: log_look_def Let_def)
  have at: "stream_at j ?D = stream_at j S" for j using D(2) by (simp add: stream_at_def)
  obtain n T where T: "agent_iter env n ?D = Ret T" "log_ok file want lost T" "agent T = A_close i fd True fd"
    "fd_contents fd (lg T) = []" "\<forall>j. j \<noteq> i \<longrightarrow> stream_at j T = stream_at j ?D"
    using log_drain[OF env log_look_ok[OF ok, of i fd True] D(1)] at by auto
  let ?U = "log_release i fd True fd T"
  have "log_loses T = {}" using T(3,4) by (simp add: log_loses_def)
  then have U: "log_ok file want lost ?U" using log_release_ok[OF T(2,3)] by simp
  have "agent_iter env 1 S = Ret ?D" "agent_iter env 1 T = Ret ?U" using a T(3) by (simp_all add: agent_step_def)
  then have "agent_iter env (1 + n + 1) S = Ret ?U" using T(1) agent_iter_add by blast
  moreover have "agent ?U = A_stream (i + 1) fd True" by (simp add: log_release_def)
  moreover have "lg ?U = (lg T)\<lparr>shm_streams := (shm_streams (lg T))[i := ca55_close_stream (stream_at i T)]\<rparr>"
    by (simp add: log_release_def set_stream_def clear_logger_error_state_def)
  moreover have "i < length (shm_streams (lg T))" using T(2) i by (simp add: log_ok_def pool_wf_def)
  ultimately show ?thesis using U T(5) at fd
    by (intro exI[of _ "1 + n + 1"] exI[of _ ?U]) (simp add: stream_at_def ca55_close_stream_def)
qed

lemma flush_message:
  assumes "0 \<le> fd" "fd < 2147483648" "g_log_shm S"
  shows "snd (rpmsg_logger_cb (Some (hd (rzv_logger_stream_flush fd))) S) = S\<lparr>agent := A_stream 0 fd True\<rparr>"
proof -
  have "sint (of_int fd :: 32 word) = fd" using assms(1,2) by (intro sint_of_int32) simp_all
  moreover have "get32 (drop 4 (log_stream_hdr 2 fd)) = of_int fd"
    by (simp add: log_stream_hdr_def le16_def codec_simps)
  moreover have "length (log_stream_hdr 2 fd) = 8" "log_stream_hdr 2 fd ! 0 = 2"
    by (simp_all add: log_stream_hdr_def le16_def le32_def)
  ultimately show ?thesis using assms(3)
    by (simp add: rzv_logger_stream_flush_def rpmsg_logger_cb_def process_shm_stream_sync_def)
qed

section \<open>Properties\<close>


text \<open>C15: When Linux writes succeed and the R8 does not write meanwhile, the FLUSH that the R8 sends before it
  closes a log is carried out in finitely many steps: afterwards the file holds everything that was
  accepted, and no stream is bound to the descriptor any more.\<close>

theorem log_flush_completes:
  assumes "appends env file" "writes_succeed env" "pool_wf (lg S0)" "agent S0 = A_idle" "log_run env S0 acc lost S"
    and "agent S = A_idle" "g_log_shm S" "0 \<le> fd" "fd < 2147483648" "fd \<notin> lost"
  shows "\<exists>n T. agent_iter env n (snd (rpmsg_logger_cb (Some (hd (rzv_logger_stream_flush fd))) S)) = Ret T \<and>
    agent T = A_idle \<and> file fd (lg_world T) = file fd (lg_world S0) @ fd_contents fd (lg S0) @ acc fd \<and>
    (\<forall>c\<in>set (shm_streams (lg T)). \<not> serves c fd)"
proof -
  let ?want = "\<lambda>fd. (file fd (lg_world S0) @ fd_contents fd (lg S0)) @ acc fd"
  let ?S = "S\<lparr>agent := A_stream 0 fd True\<rparr>"
  have "log_ok file ?want lost ?S"
    by (rule log_ok_cong[OF log_run_ok[OF assms(1,3,4,5)]]) (simp, simp, fastforce)
  from log_visit[OF assms(1,2,8) _ this] obtain n T where T: "agent_iter env n ?S = Ret T" "log_ok file ?want lost T"
    "agent T = A_stream 1 fd True" "\<not> serves (stream_at 0 T) fd" by auto
  from log_visit[OF assms(1,2,8) _ T(2,3)] obtain m U where U: "agent_iter env m T = Ret U" "log_ok file ?want lost U"
    "agent U = A_stream 2 fd True" "\<not> serves (stream_at 1 U) fd" "stream_at 0 U = stream_at 0 T"
    by (auto simp: numeral_2_eq_2)
  let ?V = "U\<lparr>agent := A_idle\<rparr>"
  have "agent_iter env 1 U = Ret ?V" using U(3) by (simp add: agent_step_def log_look_def)
  then have e: "agent_iter env (n + (m + 1)) ?S = Ret ?V" using agent_iter_add T(1) U(1) by blast
  have len: "length (shm_streams (lg U)) = 2" using U(2) by (simp add: log_ok_def pool_wf_def)
  have no: "\<not> serves c fd" if "c \<in> set (shm_streams (lg U))" for c
    using that len T(4) U(4,5) by (auto simp: in_set_conv_nth stream_at_def less_2_cases_iff)
  then have "find_index (\<lambda>c. serves c fd) (shm_streams (lg U)) = None" by (simp add: find_index_None_iff)
  then have "fd_contents fd (lg U) = []" by (simp add: fd_contents_def)
  moreover have "file fd (lg_world U) @ fd_contents fd (lg U) = ?want fd"
    using U(2) assms(8,10) by (simp add: log_ok_def)
  ultimately have "file fd (lg_world U) = ?want fd" by simp
  then show ?thesis unfolding flush_message[OF assms(8,9,7)]
    by (intro exI[of _ "n + (m + 1)"] exI[of _ ?V] conjI) (use e no in simp_all)
qed

text \<open>When the file cannot be written, the FLUSH still releases the stream: what was in the ring is lost,
  and nothing but a message on the console tells.\<close>

theorem log_flush_loses:
  assumes "appends env file" "pool_wf (lg S)" "agent S = A_stream i fd True" "i < 2" "0 \<le> fd" "serves (stream_at i S) fd"
    and "fd_contents fd (lg S) \<noteq> []" "\<forall>b w. sr_ret (fst (lx_call env (Sys_write fd b) w)) \<le> 0"
  shows "\<exists>T. agent_iter env 3 S = Ret T \<and> file fd (lg_world T) = file fd (lg_world S) \<and>
    fd_contents fd (lg T) = [] \<and> \<not> serves (stream_at i T) fd"
proof -
  let ?want = "\<lambda>x. file x (lg_world S) @ fd_contents x (lg S)"
  let ?c = "stream_at i S" and ?D = "log_look i fd True S"
  have ok: "log_ok file ?want {} S" using assms(2,3) by (simp add: log_ok_def pc_ok_def)
  have D: "agent ?D = A_drain i fd True fd (sc_head ?c) (sc_tail ?c) (sc_buffer_size ?c)" "lg ?D = lg S" "lg_world ?D = lg_world S"
    using assms(4,5,6) by (simp_all add: log_look_def Let_def)
  have okD: "pool_wf (lg ?D)" "pc_ok ?D" using log_look_ok[OF ok, of i fd True] by (simp_all add: log_ok_def)
  have "fd_contents fd (lg S) = shm_contents ?c"
    using fd_contents_at[OF assms(2,4,5)] assms(6) by (simp add: stream_at_def)
  then have ne: "sc_tail ?c \<noteq> sc_head ?c" using assms(7) by (auto simp: shm_contents_def)
  define n where "n = unat (log_chunk (sc_head ?c) (sc_tail ?c) (sc_buffer_size ?c))"
  obtain r w where w: "lx_call env (Sys_write fd (take n (fd_contents fd (lg ?D)))) (lg_world ?D) = (r, w)" by fastforce
  have r: "sr_ret r \<le> 0" using assms(8) w by (metis fst_conv)
  then have rn: "sr_ret r \<le> int n" by simp
  obtain T where T: "log_block env i fd True fd (sc_head ?c) (sc_tail ?c) (sc_buffer_size ?c) ?D = Ret T"
    "lg_world T = w" "agent T = A_close i fd True fd" "pool_wf (lg T)" "pc_ok T"
    using log_block_shape[OF okD D(1) w n_def ne rn] r by (auto split: if_splits)
  let ?U = "log_release i fd True fd T"
  have "agent_iter env 3 S = Ret ?U" using assms(3) D(1) T(1,3) by (simp add: numeral_3_eq_3 agent_step_def)
  moreover have "lg_world ?U = w" using T(2) by (simp add: log_release_def set_stream_def clear_logger_error_state_def)
  moreover have "file fd w = file fd (lg_world S)" using appendsD(2)[OF assms(1) w, of fd] r D(3) by simp
  moreover have c: "serves (stream_at i T) fd" "i < length (shm_streams (lg T))" using T(3,4,5) by (simp_all add: pc_ok_def pool_wf_def)
  have l: "lg ?U = (lg T)\<lparr>shm_streams := (shm_streams (lg T))[i := ca55_close_stream (stream_at i T)]\<rparr>"
    by (simp add: log_release_def set_stream_def clear_logger_error_state_def)
  have "\<not> serves (stream_at i ?U) fd" using l c assms(5) by (simp add: stream_at_def ca55_close_stream_def)
  moreover have "fd_contents fd (lg ?U) = []"
  proof -
    let ?d = "ca55_close_stream (stream_at i T)"
    have live: "stream_live (shm_streams (lg T) ! i)" using c(1) assms(5) by (simp add: stream_at_def)
    have "shm_wf ?d" using pool_at(3)[OF T(4) assms(4)] c(1) by (simp add: stream_at_def ca55_close_stream_def shm_wf_def)
    from stream_update(2)[OF T(4) assms(4) live _ _ _ this] c(1) assms(5) show ?thesis
      unfolding l by (simp add: stream_at_def ca55_close_stream_def)
  qed
  ultimately show ?thesis by blast
qed

section \<open>Instances\<close>

text \<open>A Linux that writes at most four bytes at a time, and a block of three bytes in a ring.\<close>

definition slow_files :: "(int \<Rightarrow> bytes) linux" where
  "slow_files = \<lparr>lx_call = (\<lambda>c w. case c of
       Sys_write fd b \<Rightarrow> (\<lparr>sr_ret = int (min 4 (length b)), sr_errno = 0, sr_data = [], sr_len = 0, sr_stat = (0, 0, 0), sr_entries = []\<rparr>,
          w(fd := w fd @ take 4 b))
     | _ \<Rightarrow> (\<lparr>sr_ret = 0, sr_errno = 0, sr_data = [], sr_len = 0, sr_stat = (0, 0, 0), sr_entries = []\<rparr>, w)),
     lx_connected = (\<lambda>_. True), lx_trysend = (\<lambda>d w. (int (length d), w)), lx_usleep = (\<lambda>_ w. w), lx_stod = (\<lambda>_. None)\<rparr>"

lemma slow_files_laws: "appends slow_files (\<lambda>fd w. w fd)" "writes_succeed slow_files"
  by (auto simp: appends_def writes_succeed_def slow_files_def min_def)

definition demo_logs :: "(int \<Rightarrow> bytes) log_sys" where
  "demo_logs = \<lparr>lg = demo_pool, g_log_shm = True, g_log_write_error_reported = (\<lambda>_. None), lg_world = (\<lambda>_. []), agent = A_idle,
     logger_service_bound = True, g_log_flush_running = True, g_log_flush_thread = True, rp_ept_logger = Some 1026\<rparr>"

lemma demo_log_run:
  "\<exists>S acc. log_run slow_files demo_logs acc {} S \<and> acc 7 = [1, 2, 3] \<and> agent S = A_idle \<and> g_log_shm S"
proof -
  have no: "\<not> (\<forall>c\<in>set (shm_streams demo_pool). stream_live c \<and> sc_active_fd c \<noteq> 7)" by (simp add: demo_pool_def)
  have e: "fd_contents 7 demo_pool = []" by (simp add: fd_contents_def demo_pool_def numeral_2_eq_2)
  then have a: "log_accepts 7 [1, 2, 3] demo_pool" using no by (simp add: log_accepts_def)
  obtain msgs l where w: "rzv_logger_stream_write 7 [1, 2, 3] demo_pool = Ret (3, msgs, l)"
    using stream_write_effect[OF demo_pool_wf, of 7 "[1, 2, 3]"] unfolding if_not_P[OF no] by auto
  have "log_do slow_files (L_write 7 [1, 2, 3]) demo_logs = Some (Ret (demo_logs\<lparr>lg := l\<rparr>))"
    using w by (simp add: log_do_def demo_logs_def)
  from log_next[OF log_start this] have
    "log_run slow_files demo_logs (accepted_by (L_write 7 [1, 2, 3]) demo_logs (\<lambda>_. [])) {} (demo_logs\<lparr>lg := l\<rparr>)" by simp
  moreover have "accepted_by (L_write 7 [1, 2, 3]) demo_logs (\<lambda>_. []) 7 = [1, 2, 3]" using a by (simp add: demo_logs_def)
  moreover have "agent (demo_logs\<lparr>lg := l\<rparr>) = A_idle" "g_log_shm (demo_logs\<lparr>lg := l\<rparr>)" by (simp_all add: demo_logs_def)
  ultimately show ?thesis by blast
qed


theorem log_flush_completes_witness:
  "\<exists>S n T. agent_iter slow_files n (snd (rpmsg_logger_cb (Some (hd (rzv_logger_stream_flush 7))) S)) = Ret T \<and>
    agent T = A_idle \<and> lg_world T 7 = [1, 2, 3]"
proof -
  obtain S acc where S: "log_run slow_files demo_logs acc {} S" "acc 7 = [1, 2, 3]" "agent S = A_idle" "g_log_shm S"
    using demo_log_run by blast
  have "pool_wf (lg demo_logs)" "agent demo_logs = A_idle" by (simp_all add: demo_logs_def demo_pool_wf)
  from log_flush_completes[OF slow_files_laws this S(1,3,4), of 7] S(2) show ?thesis
    by (fastforce simp: demo_logs_def fd_contents_def demo_pool_def numeral_2_eq_2)
qed

text \<open>With a Linux whose writes fail, the block in the ring of \<open>demo\<open>_\<close>logs\<close> is gone.\<close>

definition full_disk :: "(int \<Rightarrow> bytes) linux" where
  "full_disk = slow_files\<lparr>lx_call := (\<lambda>c w. (\<lparr>sr_ret = - 1, sr_errno = 28, sr_data = [], sr_len = 0, sr_stat = (0, 0, 0), sr_entries = []\<rparr>, w))\<rparr>"

theorem log_flush_loses_witness:
  "\<exists>S T. fd_contents 7 (lg S) = [1, 2, 3] \<and> agent_iter full_disk 3 S = Ret T \<and> lg_world T 7 = [] \<and> fd_contents 7 (lg T) = []"
proof -
  let ?c = "snd (shm_put [1, 2, 3] (shm_open_stream 7 (shm_streams demo_pool ! 0)))"
  let ?l = "demo_pool\<lparr>shm_streams := (shm_streams demo_pool)[0 := ?c]\<rparr>"
  let ?S = "demo_logs\<lparr>lg := ?l, agent := A_stream 0 7 True\<rparr>"
  have d: "length (sc_data (shm_streams demo_pool ! 0)) = RZV_SDRAM_LOGGER_BUF_SIZE" by (simp add: demo_pool_def)
  note o = opened_wf[OF d, of 7]
  have len: "length (sc_data (shm_open_stream 7 (shm_streams demo_pool ! 0))) = RZV_SDRAM_LOGGER_BUF_SIZE"
    using d by (simp add: shm_open_stream_def)
  have c: "shm_wf ?c" "shm_contents ?c = [1, 2, 3]" using put_cases[OF conjunct1[OF o], of "[1, 2, 3]"] o len by simp_all
  have f: "sc_magic ?c = LOG_SHM_MAGIC" "sc_active_fd ?c = 7" "length (sc_data ?c) = RZV_SDRAM_LOGGER_BUF_SIZE"
    using put_fields(1,2)[of "[1, 2, 3]" "shm_open_stream 7 (shm_streams demo_pool ! 0)"] put_fields(3)[OF conjunct1[OF o], of "[1, 2, 3]"] len
    by (simp_all add: shm_open_stream_def)
  have wf: "pool_wf ?l"
    by (rule pool_update_wf[OF demo_pool_wf _ f(3) c(1)]) (simp_all add: demo_pool_def less_2_cases_iff)
  have at: "shm_streams ?l ! 0 = ?c" by (simp add: demo_pool_def)
  have k: "fd_contents 7 ?l = [1, 2, 3]" using fd_contents_at[OF wf, of 0 7] f c(2) at by simp
  have "appends full_disk (\<lambda>fd w. w fd)" by (simp add: appends_def full_disk_def)
  from log_flush_loses[OF this, of ?S 0 7] wf f at k
  obtain T where "agent_iter full_disk 3 ?S = Ret T" "lg_world T 7 = lg_world ?S 7" "fd_contents 7 (lg T) = []"
    by (auto simp: stream_at_def full_disk_def)
  then show ?thesis using k by (intro exI[of _ ?S] exI[of _ T]) (simp add: demo_logs_def)
qed

end
