(* ===== verification/Agent_Transport.thy ===== *)
theory Agent_Transport
  imports Srv_Main "HOL-Library.Sublist"
begin

text \<open>
  The CA55 end of the other RPMsg channels (custom\<open>_\<close>agent.cpp): binding of services, the callbacks of
  the RPC, micro-XRCE-DDS and MAVLink endpoints, the bounded queue between the micro-XRCE-DDS endpoint
  and the agent's receive function, and sending with retries.  RPMsg, the network and the clock are
  parameters; messages printed are left out.
\<close>

section \<open>State\<close>

abbreviation (input) MAX_UXRCE_QUEUE :: nat where "MAX_UXRCE_QUEUE \<equiv> 500"
abbreviation (input) QUEUE_WARNING_THRESHOLD :: nat where "QUEUE_WARNING_THRESHOLD \<equiv> 400"
abbreviation (input) L_ENOTCONN :: int where "L_ENOTCONN \<equiv> 107"
abbreviation (input) L_ETIMEDOUT :: int where "L_ETIMEDOUT \<equiv> 110"
abbreviation (input) RPMSG_ADDR_ANY :: "32 word" where "RPMSG_ADDR_ANY \<equiv> 0xFFFFFFFF"
abbreviation (input) APP_EPT_ADDR_MAVLINK :: "32 word" where "APP_EPT_ADDR_MAVLINK \<equiv> 2"

definition svc_name :: bytes where "svc_name = cstr ''rpmsg-service-0''"
definition uxrce_svc_name :: bytes where "uxrce_svc_name = cstr ''rpmsg-service-1''"
definition logger_svc_name :: bytes where "logger_svc_name = cstr ''rpmsg-logger-0''"
definition mavlink_svc_name :: bytes where "mavlink_svc_name = cstr ''rpmsg-mavlink-channel''"

record rpmsg_ept =
  ep_addr :: "32 word"
  ep_dest :: "32 word"
  ep_rdev :: bool

definition ept_cleared :: rpmsg_ept where
  "ept_cleared = \<lparr>ep_addr = 0, ep_dest = 0, ep_rdev = False\<rparr>"

record 'w ca55_agent =
  rp_ept :: rpmsg_ept
  rp_ept_uxrce :: rpmsg_ept
  rp_ept_mavlink :: rpmsg_ept
  service_bound :: bool
  uxrce_service_bound :: bool
  mavlink_endpoint_bound :: bool
  message_queue :: "bytes list"
  queue_drops :: "32 word"
  queue_peak_size :: nat
  g_next_queue_warn_threshold :: nat
  g_rpmsg_no_buf_count :: "32 word"
  g_rpmsg_retry_events :: "32 word"
  g_rpmsg_send_fail_count :: "32 word"
  force_stop :: bool
  mavlink_udp_sock :: int
  ag_world :: 'w

text \<open>Sending through an endpoint, the creation of one (with the address asked for), sleeping and the
  datagram socket.\<close>

record 'w rpmsg_env =
  re_trysend :: "rpmsg_ept \<Rightarrow> bytes \<Rightarrow> 'w \<Rightarrow> int \<times> 'w"
  re_create_ept :: "bytes \<Rightarrow> 32 word \<Rightarrow> 32 word \<Rightarrow> 'w \<Rightarrow> (int \<times> 32 word) \<times> 'w"
  re_usleep :: "nat \<Rightarrow> 'w \<Rightarrow> 'w"
  re_sendto :: "int \<Rightarrow> bytes \<Rightarrow> 'w \<Rightarrow> int \<times> 'w"

section \<open>Sending\<close>

fun rpmsg_tries :: "'w rpmsg_env \<Rightarrow> rpmsg_ept \<Rightarrow> bytes \<Rightarrow> nat \<Rightarrow> nat \<Rightarrow> int \<Rightarrow> 'w ca55_agent \<Rightarrow> int \<times> 'w ca55_agent" where
  "rpmsg_tries env ept data attempt 0 ret A =
     (ret, if ret < 0 then A\<lparr>g_rpmsg_send_fail_count := g_rpmsg_send_fail_count A + 1\<rparr> else A)"
| "rpmsg_tries env ept data attempt (Suc left) ret A =
     (case re_trysend env ept data (ag_world A) of (ret', w) \<Rightarrow>
      let A1 = A\<lparr>ag_world := w\<rparr> in
      if 0 \<le> ret' \<or> ret' \<noteq> RPMSG_ERR_NO_BUFF then
        (ret', if ret' < 0 then A1\<lparr>g_rpmsg_send_fail_count := g_rpmsg_send_fail_count A1 + 1\<rparr> else A1)
      else rpmsg_tries env ept data (attempt + 1) left ret'
             (A1\<lparr>g_rpmsg_no_buf_count := g_rpmsg_no_buf_count A1 + 1,
                 g_rpmsg_retry_events := g_rpmsg_retry_events A1 + 1,
                 ag_world := re_usleep env (1000 * (attempt + 1)) (ag_world A1)\<rparr>))"

definition rpmsg_send_retry :: "'w rpmsg_env \<Rightarrow> rpmsg_ept \<Rightarrow> bytes \<Rightarrow> 'w ca55_agent \<Rightarrow> int \<times> 'w ca55_agent" where
  "rpmsg_send_retry env ept data A =
    (if data = [] then (- EINVAL, A)
     else if ep_dest ept = RPMSG_ADDR_ANY \<or> \<not> ep_rdev ept then (- L_ENOTCONN, A)
     else rpmsg_tries env ept data 0 3 (- EAGAIN) A)"

section \<open>Binding\<close>

text \<open>A C string with its terminator.\<close>

definition handshake :: "string \<Rightarrow> bytes" where "handshake s = cstr s @ [0]"

definition new_ept :: "32 word \<Rightarrow> 32 word \<Rightarrow> rpmsg_ept" where
  "new_ept addr dest = \<lparr>ep_addr = addr, ep_dest = dest, ep_rdev = True\<rparr>"

definition rpmsg_service_bind :: "'w rpmsg_env \<Rightarrow> bytes \<Rightarrow> 32 word \<Rightarrow> 'w ca55_agent \<Rightarrow> 'w ca55_agent" where
  "rpmsg_service_bind env name dest A =
    (if name \<noteq> svc_name then A
     else if service_bound A then A\<lparr>rp_ept := (rp_ept A)\<lparr>ep_dest := dest\<rparr>\<rparr>
     else case re_create_ept env svc_name RPMSG_ADDR_ANY dest (ag_world A) of ((ret, addr), w) \<Rightarrow>
       if ret \<noteq> 0 then A\<lparr>ag_world := w\<rparr>
       else let A1 = A\<lparr>rp_ept := new_ept addr dest, service_bound := True, ag_world := w\<rparr>
            in snd (rpmsg_send_retry env (rp_ept A1) (handshake ''HANDSHAKE_FROM_CA55'') A1))"

definition rpmsg_service_unbind :: "'w ca55_agent \<Rightarrow> 'w ca55_agent" where
  "rpmsg_service_unbind A = A\<lparr>service_bound := False, rp_ept := ept_cleared\<rparr>"

definition rpmsg_uxrce_service_bind :: "'w rpmsg_env \<Rightarrow> bytes \<Rightarrow> 32 word \<Rightarrow> 'w ca55_agent \<Rightarrow> 'w ca55_agent" where
  "rpmsg_uxrce_service_bind env name dest A =
    (if name \<noteq> uxrce_svc_name then A
     else if uxrce_service_bound A then A\<lparr>rp_ept_uxrce := (rp_ept_uxrce A)\<lparr>ep_dest := dest\<rparr>\<rparr>
     else case re_create_ept env uxrce_svc_name RPMSG_ADDR_ANY dest (ag_world A) of ((ret, addr), w) \<Rightarrow>
       if ret \<noteq> 0 then A\<lparr>ag_world := w\<rparr>
       else let A1 = A\<lparr>rp_ept_uxrce := new_ept addr dest, uxrce_service_bound := True, ag_world := w\<rparr>
            in snd (rpmsg_send_retry env (rp_ept_uxrce A1) (handshake ''UXRCE_HANDSHAKE_FROM_CA55'') A1))"

definition rpmsg_uxrce_service_unbind :: "'w ca55_agent \<Rightarrow> 'w ca55_agent" where
  "rpmsg_uxrce_service_unbind A = A\<lparr>uxrce_service_bound := False, rp_ept_uxrce := ept_cleared\<rparr>"

definition rpmsg_mavlink_bind :: "'w rpmsg_env \<Rightarrow> bytes \<Rightarrow> 32 word \<Rightarrow> 'w ca55_agent \<Rightarrow> 'w ca55_agent" where
  "rpmsg_mavlink_bind env name dest A =
    (if name \<noteq> mavlink_svc_name then A
     else case re_create_ept env mavlink_svc_name APP_EPT_ADDR_MAVLINK dest (ag_world A) of ((ret, addr), w) \<Rightarrow>
       if ret \<noteq> 0 then A\<lparr>ag_world := w\<rparr>
       else let A1 = A\<lparr>rp_ept_mavlink := new_ept addr dest, mavlink_endpoint_bound := True, ag_world := w\<rparr>
            in snd (rpmsg_send_retry env (rp_ept_mavlink A1) (handshake ''HANDSHAKE_MAVLink_CA55'') A1))"

text \<open>Announcements on the shared device; whether the logger's service is to be bound is returned.\<close>

definition rpc_ns_bind_cb :: "'w rpmsg_env \<Rightarrow> bool \<Rightarrow> bytes \<Rightarrow> 32 word \<Rightarrow> 'w ca55_agent \<Rightarrow> bool \<times> 'w ca55_agent" where
  "rpc_ns_bind_cb env enable_mavlink_forward name dest A =
    (if name = svc_name then (False, rpmsg_service_bind env name dest A)
     else if enable_mavlink_forward \<and> name = mavlink_svc_name then (False, rpmsg_mavlink_bind env name dest A)
     else if name = uxrce_svc_name then (False, rpmsg_uxrce_service_bind env name dest A)
     else (name = logger_svc_name, A))"

section \<open>Callbacks\<close>

definition is_rpc_message :: "bytes \<Rightarrow> bool" where
  "is_rpc_message data \<longleftrightarrow> \<not> length data < RPC_HEADER_SIZE \<and> hdr_magic (bytes_header data) = PX4_RPC_MAGIC"

text \<open>\<open>copied\<close>: the copy of the message for the worker queue could be made.\<close>

definition rpmsg_service_cb ::
  "'v linux \<Rightarrow> bytes \<Rightarrow> 32 word \<Rightarrow> bool \<Rightarrow> 'w ca55_agent \<times> 'v async_worker \<Rightarrow> 'w ca55_agent \<times> 'v async_worker"
where
  "rpmsg_service_cb lx data src copied s =
    (case s of (A, wk) \<Rightarrow>
      if data = [] then (A, wk)
      else let A1 = (if src \<noteq> RPMSG_ADDR_ANY \<and> src \<noteq> ep_addr (rp_ept A) then A\<lparr>rp_ept := (rp_ept A)\<lparr>ep_dest := src\<rparr>\<rparr> else A) in
        (A1, if is_rpc_message data then snd (px4_openamp_rpc_server_enqueue lx data copied wk) else wk))"

definition rpmsg_uxrce_service_cb :: "bytes \<Rightarrow> 32 word \<Rightarrow> 'w ca55_agent \<Rightarrow> 'w ca55_agent" where
  "rpmsg_uxrce_service_cb data src A =
    (if data = [] then A
     else
       let A1 = (if src \<noteq> RPMSG_ADDR_ANY \<and> src \<noteq> ep_addr (rp_ept_uxrce A)
                 then A\<lparr>rp_ept_uxrce := (rp_ept_uxrce A)\<lparr>ep_dest := src\<rparr>\<rparr> else A);
           current_size = length (message_queue A1);
           A2 = (if current_size > queue_peak_size A1 then A1\<lparr>queue_peak_size := current_size\<rparr> else A1);
           A3 = (if current_size \<ge> MAX_UXRCE_QUEUE
                 then A2\<lparr>queue_drops := queue_drops A2 + 1, message_queue := tl (message_queue A2)\<rparr> else A2);
           A4 = A3\<lparr>message_queue := message_queue A3 @ [data]\<rparr>;
           queued_after_push = length (message_queue A4)
       in if queued_after_push \<ge> g_next_queue_warn_threshold A4
          then A4\<lparr>g_next_queue_warn_threshold := queued_after_push + 50\<rparr>
          else if queued_after_push < QUEUE_WARNING_THRESHOLD div 2
          then A4\<lparr>g_next_queue_warn_threshold := QUEUE_WARNING_THRESHOLD\<rparr>
          else A4)"

definition rpmsg_mavlink_cb :: "'w rpmsg_env \<Rightarrow> bytes \<Rightarrow> 'w ca55_agent \<Rightarrow> 'w ca55_agent" where
  "rpmsg_mavlink_cb env data A =
    (if data = [] then A
     else if mavlink_udp_sock A \<ge> 0 then A\<lparr>ag_world := snd (re_sendto env (mavlink_udp_sock A) data (ag_world A))\<rparr>
     else A)"

text \<open>A datagram received for the R8, by the sender's IPv4 address.\<close>

unbundle bit_operations_syntax

definition mavlink_ignored :: "32 word \<Rightarrow> bool" where
  "mavlink_ignored s_addr \<longleftrightarrow> (s_addr = 0x7F000001 \<or> s_addr AND 0xFFFFFF00 = 0xC0A80100) \<and> s_addr AND 0xFF = 150"

definition mavlink_udp_receive :: "'w rpmsg_env \<Rightarrow> bytes \<Rightarrow> 32 word \<Rightarrow> 'w ca55_agent \<Rightarrow> 'w ca55_agent" where
  "mavlink_udp_receive env data s_addr A =
    (if data = [] \<or> mavlink_ignored s_addr then A
     else if mavlink_endpoint_bound A \<and> ep_dest (rp_ept_mavlink A) \<noteq> RPMSG_ADDR_ANY
     then snd (rpmsg_send_retry env (rp_ept_mavlink A) data A) else A)"

section \<open>The transport of the micro-XRCE-DDS agent\<close>

datatype TransportRc = TRC_ok | TRC_timeout_error | TRC_server_error

text \<open>The deadline of a wait.\<close>

definition recv_deadline :: "int \<times> int \<Rightarrow> int \<Rightarrow> int \<times> int" where
  "recv_deadline now timeout =
    (let sec = fst now + timeout div 1000; nsec = snd now + timeout mod 1000 * 1000000 in
     if nsec \<ge> 1000000000 then (sec + 1, nsec - 1000000000) else (sec, nsec))"

text \<open>The wait for a message.  A wake-up is the result of the wait and what happened to the agent
  meanwhile; without a further wake-up the call is still blocked.\<close>

fun recv_wait :: "bool \<Rightarrow> (int \<times> ('w ca55_agent \<Rightarrow> 'w ca55_agent)) list \<Rightarrow> 'w ca55_agent \<Rightarrow> 'w ca55_agent option" where
  "recv_wait timed wakes A =
    (if message_queue A = [] \<and> \<not> force_stop A then
       (case wakes of [] \<Rightarrow> None
        | (ret, f) # ws \<Rightarrow> if timed \<and> ret = L_ETIMEDOUT then Some (f A) else recv_wait timed ws (f A))
     else Some A)"

declare recv_wait.simps [simp del]

definition recv_take :: "nat \<Rightarrow> 'w ca55_agent \<Rightarrow> (int \<times> bytes \<times> TransportRc) \<times> 'w ca55_agent" where
  "recv_take buffer_length A =
    (case message_queue A of
       m # q \<Rightarrow> ((int (min (length m) buffer_length), take buffer_length m, TRC_ok), A\<lparr>message_queue := q\<rparr>)
     | [] \<Rightarrow> if force_stop A then ((- 1, [], TRC_server_error), A) else ((0, [], TRC_timeout_error), A))"

definition recv_msg_function ::
  "nat \<Rightarrow> int \<Rightarrow> (int \<times> ('w ca55_agent \<Rightarrow> 'w ca55_agent)) list \<Rightarrow> 'w ca55_agent
   \<Rightarrow> ((int \<times> bytes \<times> TransportRc) \<times> 'w ca55_agent) option"
where
  "recv_msg_function buffer_length timeout wakes A =
    map_option (recv_take buffer_length) (recv_wait (timeout \<ge> 0) wakes A)"

definition send_msg_function :: "'w rpmsg_env \<Rightarrow> bytes \<Rightarrow> 'w ca55_agent \<Rightarrow> (int \<times> TransportRc) \<times> 'w ca55_agent" where
  "send_msg_function env data A =
    (if \<not> uxrce_service_bound A \<or> ep_dest (rp_ept_uxrce A) = RPMSG_ADDR_ANY then ((- 1, TRC_server_error), A)
     else case rpmsg_send_retry env (rp_ept_uxrce A) data A of (ret, A1) \<Rightarrow>
       if ret \<ge> 0 then ((int (length data), TRC_ok), A1) else ((- 1, TRC_server_error), A1))"

section \<open>The queue of the micro-XRCE-DDS channel\<close>

text \<open>Messages arrive, and the agent receives into its buffer of \<open>n\<close> bytes when one is there.\<close>

datatype uxrce_event = U_arrive bytes "32 word" | U_receive

fun uxrce_event_do :: "nat \<Rightarrow> uxrce_event \<Rightarrow> bytes list \<times> 'w ca55_agent \<Rightarrow> bytes list \<times> 'w ca55_agent" where
  "uxrce_event_do n (U_arrive data src) (got, A) = (got, rpmsg_uxrce_service_cb data src A)"
| "uxrce_event_do n U_receive (got, A) =
    (case recv_take n A of ((r, bs, rc), B) \<Rightarrow> (if rc = TRC_ok then got @ [bs] else got, B))"

fun uxrce_arrived :: "uxrce_event \<Rightarrow> bytes list" where
  "uxrce_arrived (U_arrive data src) = (if data = [] then [] else [data])"
| "uxrce_arrived U_receive = []"

lemma service_cb_queue:
  assumes "data \<noteq> []"
  shows "message_queue (rpmsg_uxrce_service_cb data src A) =
      (if length (message_queue A) \<ge> MAX_UXRCE_QUEUE then tl (message_queue A) else message_queue A) @ [data]"
    "queue_drops (rpmsg_uxrce_service_cb data src A) =
      queue_drops A + (if length (message_queue A) \<ge> MAX_UXRCE_QUEUE then 1 else 0)"
  using assms by (simp_all add: rpmsg_uxrce_service_cb_def Let_def)

text \<open>\<open>P\<close> is what has left the queue, \<open>taken\<close> what of it was received.\<close>

definition uxrce_ok :: "nat \<Rightarrow> bytes list \<Rightarrow> bytes list \<times> 'w ca55_agent \<Rightarrow> bool" where
  "uxrce_ok n arrived s \<longleftrightarrow> (case s of (got, A) \<Rightarrow> length (message_queue A) \<le> MAX_UXRCE_QUEUE \<and>
     (\<exists>P taken. arrived = P @ message_queue A \<and> subseq taken P \<and> got = map (take n) taken \<and>
        queue_drops A = of_nat (length P - length taken)))"

lemma uxrce_step_ok:
  assumes "uxrce_ok n arrived s"
  shows "uxrce_ok n (arrived @ uxrce_arrived ev) (uxrce_event_do n ev s)"
proof -
  obtain got A where s: "s = (got, A)" by (cases s)
  obtain P taken where i: "length (message_queue A) \<le> MAX_UXRCE_QUEUE" "arrived = P @ message_queue A" "subseq taken P"
    "got = map (take n) taken" "queue_drops A = of_nat (length P - length taken)"
    using assms by (auto simp: uxrce_ok_def s)
  have le: "length taken \<le> length P" by (rule list_emb_length[OF i(3)])
  show ?thesis
  proof (cases ev)
    case (U_arrive data src)
    show ?thesis
    proof (cases "data = []")
      case True
      then show ?thesis using assms U_arrive by (simp add: s rpmsg_uxrce_service_cb_def)
    next
      case False
      note q = service_cb_queue[OF False, of src A]
      show ?thesis
      proof (cases "length (message_queue A) \<ge> MAX_UXRCE_QUEUE")
        case full: True
        then have l: "length (message_queue A) = MAX_UXRCE_QUEUE" using i(1) by simp
        then obtain m r where mr: "message_queue A = m # r" by (cases "message_queue A") auto
        have "subseq taken (P @ [m])" using i(3) by (rule subseq_rev_drop_many)
        moreover have "length (P @ [m]) - length taken = Suc (length P - length taken)" using le by simp
        ultimately show ?thesis using U_arrive False q full l i mr
          by (auto simp: s uxrce_ok_def intro!: exI[of _ "P @ [m]"] exI[of _ taken])
      next
        case room: False
        then show ?thesis using U_arrive False q i
          by (auto simp: s uxrce_ok_def intro!: exI[of _ P] exI[of _ taken])
      qed
    qed
  next
    case U_receive
    show ?thesis
    proof (cases "message_queue A")
      case Nil
      then show ?thesis using assms U_receive by (simp add: s recv_take_def)
    next
      case (Cons m r)
      have "subseq (taken @ [m]) (P @ [m])" using i(3) by simp
      then show ?thesis using U_receive Cons i le
        by (auto simp: s uxrce_ok_def recv_take_def intro!: exI[of _ "P @ [m]"] exI[of _ "taken @ [m]"])
    qed
  qed
qed

section \<open>Properties\<close>


text \<open>\<open>sent\<close> lists the messages that RPMsg has taken.\<close>

definition rpmsg_laws :: "'w rpmsg_env \<Rightarrow> ('w \<Rightarrow> (rpmsg_ept \<times> bytes) list) \<Rightarrow> bool" where
  "rpmsg_laws env sent \<longleftrightarrow>
    (\<forall>e d w. case re_trysend env e d w of (r, w') \<Rightarrow> sent w' = sent w @ (if 0 \<le> r then [(e, d)] else [])) \<and>
    (\<forall>n w. sent (re_usleep env n w) = sent w)"

lemma rpmsg_tries_once:
  assumes "rpmsg_laws env sent"
  shows "ret < 0 \<Longrightarrow> rpmsg_tries env e d k left ret A = (r, B) \<Longrightarrow>
    sent (ag_world B) = sent (ag_world A) @ (if 0 \<le> r then [(e, d)] else []) \<and>
    g_rpmsg_send_fail_count B = g_rpmsg_send_fail_count A + (if r < 0 then 1 else 0) \<and>
    (\<exists>j\<le>left. g_rpmsg_no_buf_count B = g_rpmsg_no_buf_count A + of_nat j \<and> (r = RPMSG_ERR_NO_BUFF \<longrightarrow> 0 < left \<longrightarrow> j = left))"
proof (induction left arbitrary: k ret A)
  case (Suc left)
  obtain r' w where t: "re_trysend env e d (ag_world A) = (r', w)" by fastforce
  have law: "case re_trysend env e d (ag_world A) of (r, w') \<Rightarrow> sent w' = sent (ag_world A) @ (if 0 \<le> r then [(e, d)] else [])"
    by (rule assms[unfolded rpmsg_laws_def, THEN conjunct1, THEN spec, THEN spec, THEN spec])
  have w: "sent w = sent (ag_world A) @ (if 0 \<le> r' then [(e, d)] else [])" using law unfolding t by simp
  have sl: "sent (re_usleep env n x) = sent x" for n x using assms unfolding rpmsg_laws_def by blast
  show ?case
  proof (cases "0 \<le> r' \<or> r' \<noteq> RPMSG_ERR_NO_BUFF")
    case True
    then show ?thesis using Suc.prems t w by (auto simp: Let_def intro!: exI[of _ 0])
  next
    case False
    let ?A = "A\<lparr>ag_world := w, g_rpmsg_no_buf_count := g_rpmsg_no_buf_count A + 1,
                 g_rpmsg_retry_events := g_rpmsg_retry_events A + 1, ag_world := re_usleep env (1000 * (k + 1)) w\<rparr>"
    have n: "r' < 0" using False by simp
    have "rpmsg_tries env e d (k + 1) left r' ?A = (r, B)" using Suc.prems(2) False t by (simp add: Let_def)
    from Suc.IH[OF n this] obtain j where j: "j \<le> left" "g_rpmsg_no_buf_count B = g_rpmsg_no_buf_count A + 1 + of_nat j"
      "r = RPMSG_ERR_NO_BUFF \<longrightarrow> 0 < left \<longrightarrow> j = left"
      and b: "sent (ag_world B) = sent (re_usleep env (1000 * (k + 1)) w) @ (if 0 \<le> r then [(e, d)] else [])"
      "g_rpmsg_send_fail_count B = g_rpmsg_send_fail_count A + (if r < 0 then 1 else 0)"
      by auto
    have "g_rpmsg_no_buf_count B = g_rpmsg_no_buf_count A + of_nat (Suc j)" using j(2) by simp
    moreover have "r = RPMSG_ERR_NO_BUFF \<longrightarrow> Suc j = Suc left" using j(1,3) by auto
    moreover have "Suc j \<le> Suc left" using j(1) by simp
    ultimately show ?thesis using b sl w n by auto
  qed
qed auto

text \<open>Sending with retries hands a message to RPMsg at most once, and exactly once when it reports success;
  it gives up after three refusals for lack of a buffer, and every failure of a connected endpoint is
  counted.\<close>

theorem send_retry_once:
  assumes "rpmsg_laws env sent" "rpmsg_send_retry env e d A = (r, B)"
  shows "sent (ag_world B) = sent (ag_world A) @ (if 0 \<le> r then [(e, d)] else []) \<and>
    (d \<noteq> [] \<and> ep_dest e \<noteq> RPMSG_ADDR_ANY \<and> ep_rdev e \<longrightarrow>
      g_rpmsg_send_fail_count B = g_rpmsg_send_fail_count A + (if r < 0 then 1 else 0) \<and>
      (\<exists>j\<le>3. g_rpmsg_no_buf_count B = g_rpmsg_no_buf_count A + of_nat j \<and> (r = RPMSG_ERR_NO_BUFF \<longrightarrow> j = 3)))"
proof (cases "d = [] \<or> ep_dest e = RPMSG_ADDR_ANY \<or> \<not> ep_rdev e")
  case True
  then show ?thesis using assms(2) by (auto simp: rpmsg_send_retry_def split: if_splits)
next
  case False
  then have "rpmsg_tries env e d 0 3 (- EAGAIN) A = (r, B)" using assms(2) by (simp add: rpmsg_send_retry_def)
  from rpmsg_tries_once[OF assms(1) _ this] show ?thesis by auto
qed

text \<open>The filter for packets of this machine lets everything through but one address, 192.168.1.150;
  packets from the local host are forwarded to the R8.\<close>

theorem mavlink_filter:
  "mavlink_ignored a \<longleftrightarrow> a = 0xC0A80196"
proof
  assume i: "mavlink_ignored a"
  have "a = (a AND 0xFFFFFF00) OR (a AND 0xFF)"
  proof -
    have "(0xFFFFFF00 :: 32 word) OR 0xFF = - 1" by simp
    then show ?thesis by (metis word_bw_same(1) bit.conj_disj_distrib and.right_neutral)
  qed
  moreover have "a \<noteq> 0x7F000001" using i by (auto simp: mavlink_ignored_def)
  ultimately have "a = 0xC0A80100 OR 150" using i by (simp add: mavlink_ignored_def)
  then show "a = 0xC0A80196" by simp
qed (simp add: mavlink_ignored_def)

section \<open>Instances\<close>

text \<open>A world of the refusals to come and the messages taken.\<close>

definition refusing_env :: "(nat \<times> (rpmsg_ept \<times> bytes) list) rpmsg_env" where
  "refusing_env = \<lparr>re_trysend = (\<lambda>e d (k, ms). if k = 0 then (int (length d), (k, ms @ [(e, d)])) else (RPMSG_ERR_NO_BUFF, (k - 1, ms))),
     re_create_ept = (\<lambda>name addr dest w. ((0, 1024), w)), re_usleep = (\<lambda>n w. w), re_sendto = (\<lambda>fd d w. (int (length d), w))\<rparr>"

lemma refusing_env_laws: "rpmsg_laws refusing_env snd"
  by (auto simp: rpmsg_laws_def refusing_env_def split: prod.splits)

definition demo_agent :: "(nat \<times> (rpmsg_ept \<times> bytes) list) ca55_agent" where
  "demo_agent = \<lparr>rp_ept = ept_cleared, rp_ept_uxrce = new_ept 1025 1026, rp_ept_mavlink = ept_cleared, service_bound = False,
     uxrce_service_bound = True, mavlink_endpoint_bound = False, message_queue = [], queue_drops = 0, queue_peak_size = 0,
     g_next_queue_warn_threshold = 400, g_rpmsg_no_buf_count = 0, g_rpmsg_retry_events = 0, g_rpmsg_send_fail_count = 0,
     force_stop = False, mavlink_udp_sock = - 1, ag_world = (1, [])\<rparr>"


lemmas rpmsg_tries_numeral = rpmsg_tries.simps(2)[of _ _ _ _ "pred_numeral v" for v, folded numeral_eq_Suc]

theorem send_retry_once_witness:
  "\<exists>B. rpmsg_send_retry refusing_env (rp_ept_uxrce demo_agent) [7] demo_agent = (1, B) \<and>
    snd (ag_world B) = [(rp_ept_uxrce demo_agent, [7])] \<and> g_rpmsg_send_fail_count B = 0"
proof -
  obtain B where B: "rpmsg_send_retry refusing_env (rp_ept_uxrce demo_agent) [7] demo_agent = (1, B)"
    by (simp add: rpmsg_send_retry_def demo_agent_def new_ept_def refusing_env_def rpmsg_tries_numeral)
  from send_retry_once[OF refusing_env_laws B] B show ?thesis by (auto simp: demo_agent_def new_ept_def)
qed

end
