(* ===== verification/Logger_Cache.thy ===== *)
theory Logger_Cache
  imports Agent_Logs
begin

text \<open>
  The write of log blocks in src/rpc/remote\<open>_\<close>storage\<open>_\<close>rpc.c once more, this time with the data cache of
  the Cortex-R8.  The rings lie at 0x41740000, in a region that mpu\<open>_\<close>region\<open>_\<close>table.c makes cacheable, and
  the code cleans and invalidates by hand.  The 32 bytes of a control block are one cache line, which holds
  the head that the R8 writes and the tail and the descriptor that the CA55 writes.  Logger\<open>_\<close>Shm leaves
  the cache out; here it is shown when that is right, and what happens otherwise.
\<close>

section \<open>Memory and cache lines\<close>

text \<open>The streams in memory, as the CA55 sees them, and the cached line of each control block.  The lines of
  \<open>data\<close>, which only the R8 writes, are cleaned by the code right after they are written.\<close>

record cached_shm =
  cm_shm :: logger_shm
  cm_line :: "nat \<Rightarrow> logger_shm_ctrl option"

definition cm_stream :: "nat \<Rightarrow> cached_shm \<Rightarrow> logger_shm_ctrl" where
  "cm_stream i m = shm_streams (cm_shm m) ! i"

definition cm_set_stream :: "nat \<Rightarrow> logger_shm_ctrl \<Rightarrow> cached_shm \<Rightarrow> cached_shm" where
  "cm_set_stream i c m = m\<lparr>cm_shm := (cm_shm m)\<lparr>shm_streams := (shm_streams (cm_shm m))[i := c]\<rparr>\<rparr>"

text \<open>What the R8 reads: the cached line, if there is one.\<close>

definition r8_view :: "nat \<Rightarrow> cached_shm \<Rightarrow> logger_shm_ctrl" where
  "r8_view i m = (case cm_line m i of None \<Rightarrow> cm_stream i m | Some l \<Rightarrow> l\<lparr>sc_data := sc_data (cm_stream i m)\<rparr>)"

text \<open>A read brings the line into the cache.  Stores are followed by a clean in the code, which writes the
  whole line back; the line stays in the cache.\<close>

definition line_load :: "nat \<Rightarrow> cached_shm \<Rightarrow> cached_shm" where
  "line_load i m = m\<lparr>cm_line := (cm_line m)(i \<mapsto> r8_view i m)\<rparr>"

definition store_and_clean :: "nat \<Rightarrow> logger_shm_ctrl \<Rightarrow> cached_shm \<Rightarrow> cached_shm" where
  "store_and_clean i c m = (cm_set_stream i c m)\<lparr>cm_line := (cm_line m)(i \<mapsto> c)\<rparr>"

definition dcache_invalidate :: "nat \<Rightarrow> cached_shm \<Rightarrow> cached_shm" where
  "dcache_invalidate i m = m\<lparr>cm_line := (cm_line m)(i := None)\<rparr>"

section \<open>The functions of the R8\<close>

text \<open>The scans look at one stream after the other and stop at the first that fits.\<close>

fun scan_streams :: "(logger_shm_ctrl \<Rightarrow> bool) \<Rightarrow> nat list \<Rightarrow> cached_shm \<Rightarrow> nat option \<times> cached_shm" where
  "scan_streams P [] m = (None, m)"
| "scan_streams P (i # is) m =
     (let m1 = line_load i m in if P (r8_view i m1) then (Some i, m1) else scan_streams P is m1)"

definition cached_get_stream :: "int \<Rightarrow> cached_shm \<Rightarrow> nat option \<times> cached_shm" where
  "cached_get_stream fd m =
    (case scan_streams (\<lambda>c. sc_magic c = LOG_SHM_MAGIC \<and> sc_active_fd c = fd) [0..<RZV_SDRAM_LOGGER_STREAM_COUNT] m of
       (Some i, m1) \<Rightarrow> (Some i, m1)
     | (None, m1) \<Rightarrow>
        (case scan_streams (\<lambda>c. sc_magic c \<noteq> LOG_SHM_MAGIC \<or> sc_active_fd c < 0) [0..<RZV_SDRAM_LOGGER_STREAM_COUNT] m1 of
           (Some i, m2) \<Rightarrow> (Some i, store_and_clean i (shm_open_stream fd (r8_view i m2)) m2)
         | (None, m2) \<Rightarrow> (None, m2)))"

text \<open>\<open>between\<close> is what the CA55 does to the stream in memory after the R8 has loaded its control block and
  before the R8 cleans it.\<close>

definition cached_stream_write ::
  "(logger_shm_ctrl \<Rightarrow> logger_shm_ctrl) \<Rightarrow> int \<Rightarrow> bytes \<Rightarrow> cached_shm \<Rightarrow> (int \<times> bytes list \<times> cached_shm) exec"
where
  "cached_stream_write between ca55_fd buffer m =
    (case cached_get_stream ca55_fd m of
       (None, m1) \<Rightarrow> Ret (0, [], m1)
     | (Some idx, m1) \<Rightarrow>
        (let m2 = line_load idx (dcache_invalidate idx m1); ctrl = r8_view idx m2; buflen = length buffer;
             m3 = cm_set_stream idx (between (cm_stream idx m2)) m2
         in if unat (shm_free_space ctrl) < buflen
            then Ret (int buflen, [], store_and_clean idx (shm_drop buflen ctrl) m3)
            else
              (case shm_append buffer ctrl of
                 Ret c' \<Rightarrow>
                   (let m4 = store_and_clean idx c' m3 in
                    if shm_kick_due (last_kick_head (cm_shm m4) ! idx) c'
                    then Ret (int buflen, [log_stream_hdr LOG_STREAM_MSG_KICK ca55_fd],
                           m4\<lparr>cm_shm := (cm_shm m4)\<lparr>last_kick_head := (last_kick_head (cm_shm m4))[idx := sc_head c']\<rparr>\<rparr>)
                    else Ret (int buflen, [], m4))
               | Faults \<Rightarrow> Faults
               | Diverges \<Rightarrow> Diverges)))"

section \<open>When the cache cannot be seen\<close>

text \<open>A cached line tells the truth about whom the stream belongs to.\<close>

definition lines_current :: "cached_shm \<Rightarrow> bool" where
  "lines_current m \<longleftrightarrow> length (shm_streams (cm_shm m)) = RZV_SDRAM_LOGGER_STREAM_COUNT \<and>
    (\<forall>i<RZV_SDRAM_LOGGER_STREAM_COUNT.
       sc_magic (r8_view i m) = sc_magic (cm_stream i m) \<and> sc_active_fd (r8_view i m) = sc_active_fd (cm_stream i m))"

lemma r8_view_cong: "cm_line m j = cm_line n j \<Longrightarrow> cm_stream j m = cm_stream j n \<Longrightarrow> r8_view j m = r8_view j n"
  by (cases "cm_line n j") (simp_all add: r8_view_def)

lemma cm_set_line [simp]: "cm_line (cm_set_stream i c m) = cm_line m"
  by (simp add: cm_set_stream_def)

lemma cm_stream_line [simp]: "cm_stream j (m\<lparr>cm_line := x\<rparr>) = cm_stream j m"
  by (simp add: cm_stream_def)

lemma cm_stream_load [simp]: "cm_stream j (line_load i m) = cm_stream j m" "cm_shm (line_load i m) = cm_shm m"
  by (simp_all add: line_load_def cm_stream_def)

lemma load_view [simp]: "r8_view j (line_load i m) = r8_view j m"
proof (cases "j = i")
  case True
  then show ?thesis
    by (cases "cm_line m i") (simp_all add: r8_view_def line_load_def cm_stream_def)
next
  case False
  then show ?thesis
    by (cases "cm_line m j") (simp_all add: r8_view_def line_load_def cm_stream_def)
qed

lemma load_current [simp]: "lines_current (line_load i m) = lines_current m"
  by (simp add: lines_current_def)

lemma view_data [simp]: "sc_data (r8_view i m) = sc_data (cm_stream i m)"
  by (simp add: r8_view_def split: option.splits)

lemma scan_streams_find:
  "scan_streams P is m = (r, m') \<Longrightarrow> cm_shm m' = cm_shm m \<and> (\<forall>j. r8_view j m' = r8_view j m) \<and>
    lines_current m' = lines_current m \<and>
    r = map_option ((!) is) (find_index P (map (\<lambda>i. r8_view i m) is))"
proof (induction "is" arbitrary: m)
  case (Cons i "is")
  show ?case
  proof (cases "P (r8_view i m)")
    case False
    then have "scan_streams P is (line_load i m) = (r, m')" using Cons.prems by (simp add: Let_def)
    from Cons.IH[OF this] False show ?thesis by (simp add: option.map_comp comp_def)
  qed (use Cons.prems in \<open>auto simp: Let_def\<close>)
qed simp

lemma scan_streams_memory:
  assumes "lines_current m" and P: "\<And>c d. sc_magic c = sc_magic d \<Longrightarrow> sc_active_fd c = sc_active_fd d \<Longrightarrow> P c = P d"
    and "scan_streams P [0..<2] m = (r, m')"
  shows "r = find_index P (shm_streams (cm_shm m))" "cm_shm m' = cm_shm m" "lines_current m'"
    "r8_view j m' = r8_view j m"
proof -
  note s = scan_streams_find[OF assms(3)]
  show "cm_shm m' = cm_shm m" "lines_current m'" "r8_view j m' = r8_view j m" using s assms(1) by simp_all
  have "find_index P (map (\<lambda>i. r8_view i m) [0..<2]) = find_index P (shm_streams (cm_shm m))"
  proof (rule find_index_cong)
    show "length (map (\<lambda>i. r8_view i m) [0..<2]) = length (shm_streams (cm_shm m))"
      using assms(1) by (simp add: lines_current_def)
    fix k assume "k < length (map (\<lambda>i. r8_view i m) [0..<2])"
    then have k: "k < 2" by simp
    have "P (r8_view k m) = P (cm_stream k m)"
      by (rule P) (use assms(1) k in \<open>simp_all add: lines_current_def\<close>)
    then show "P (map (\<lambda>i. r8_view i m) [0..<2] ! k) = P (shm_streams (cm_shm m) ! k)"
      using k by (simp add: cm_stream_def)
  qed
  moreover have "map_option ((!) [0..<2]) (find_index P (shm_streams (cm_shm m))) = find_index P (shm_streams (cm_shm m))"
  proof (cases "find_index P (shm_streams (cm_shm m))")
    case (Some k)
    then have "k < 2" using find_index_less[OF Some] assms(1) by (simp add: lines_current_def)
    then show ?thesis using Some by simp
  qed simp
  ultimately show "r = find_index P (shm_streams (cm_shm m))" using s by simp
qed

text \<open>After a line is cleaned, memory and the view of the R8 are the same.\<close>

lemma store_simps:
  assumes "i < length (shm_streams (cm_shm m))"
  shows "cm_stream j (store_and_clean i c m) = (if j = i then c else cm_stream j m)"
    "r8_view j (store_and_clean i c m) = (if j = i then c else r8_view j m)"
    "shm_streams (cm_shm (store_and_clean i c m)) = (shm_streams (cm_shm m))[i := c]"
    "last_kick_head (cm_shm (store_and_clean i c m)) = last_kick_head (cm_shm m)"
  using assms by (auto simp: store_and_clean_def cm_set_stream_def cm_stream_def r8_view_def split: option.splits)

lemma store_current: "lines_current m \<Longrightarrow> i < 2 \<Longrightarrow> lines_current (store_and_clean i c m)"
  by (auto simp: lines_current_def store_simps)

lemma cached_get_stream_memory:
  assumes cur: "lines_current m" and g: "cached_get_stream fd m = (r, m1)"
  shows "get_shm_stream fd (shm_streams (cm_shm m)) = (r, shm_streams (cm_shm m1)) \<and>
    last_kick_head (cm_shm m1) = last_kick_head (cm_shm m) \<and> lines_current m1"
proof -
  let ?P = "\<lambda>c. sc_magic c = LOG_SHM_MAGIC \<and> sc_active_fd c = fd"
  let ?Q = "\<lambda>c. sc_magic c \<noteq> LOG_SHM_MAGIC \<or> sc_active_fd c < 0"
  obtain r1 n1 where s1: "scan_streams ?P [0..<2] m = (r1, n1)" by fastforce
  note f1 = scan_streams_memory[OF cur _ s1, simplified]
  show ?thesis
  proof (cases r1)
    case (Some i)
    then have "find_index ?P (shm_streams (cm_shm m)) = Some i" using f1(1) by simp
    moreover have "r = Some i" "m1 = n1" using g s1 Some by (simp_all add: cached_get_stream_def)
    ultimately show ?thesis using f1 by (simp add: get_shm_stream_def)
  next
    case None
    obtain r2 n2 where s2: "scan_streams ?Q [0..<2] n1 = (r2, n2)" by fastforce
    note f2 = scan_streams_memory[OF f1(3) _ s2, simplified]
    show ?thesis
    proof (cases r2)
      case (Some i)
      have "find_index ?Q (shm_streams (cm_shm n1)) = Some i" using f2(1) Some by simp
      then have i: "i < 2" using find_index_less f1(3) by (fastforce simp: lines_current_def)
      have st: "cm_stream i n2 = shm_streams (cm_shm m) ! i" using f1(2) f2(2) by (simp add: cm_stream_def)
      have e: "shm_open_stream fd (r8_view i n2) = shm_open_stream fd (shm_streams (cm_shm m) ! i)"
        by (rule logger_shm_ctrl.equality) (simp_all add: shm_open_stream_def st)
      have m1: "m1 = store_and_clean i (shm_open_stream fd (r8_view i n2)) n2" "r = Some i"
        using g s1 s2 None Some by (simp_all add: cached_get_stream_def)
      have l: "i < length (shm_streams (cm_shm n2))" using i f2(3) by (simp add: lines_current_def)
      have q: "find_index ?P (shm_streams (cm_shm m)) = None" "find_index ?Q (shm_streams (cm_shm m)) = Some i"
        using f1(1,2) f2(1) None Some by simp_all
      show ?thesis unfolding m1 get_shm_stream_def q
        using store_simps(3,4)[OF l] store_current[OF f2(3) i] f1(2) f2(2) e by simp
    next
      case r2: None
      then show ?thesis using g s1 s2 f1 f2 None by (simp add: cached_get_stream_def get_shm_stream_def)
    qed
  qed
qed

lemma invalidate_simps [simp]:
  "cm_shm (dcache_invalidate i m) = cm_shm m" "cm_stream j (dcache_invalidate i m) = cm_stream j m"
  "r8_view i (dcache_invalidate i m) = cm_stream i m"
  "j \<noteq> i \<Longrightarrow> r8_view j (dcache_invalidate i m) = r8_view j m"
  by (simp_all add: dcache_invalidate_def) (simp add: r8_view_def, rule r8_view_cong, simp_all)

lemma set_stream_simps:
  assumes "i < length (shm_streams (cm_shm m))"
  shows "cm_stream j (cm_set_stream i c m) = (if j = i then c else cm_stream j m)"
    "shm_streams (cm_shm (cm_set_stream i c m)) = (shm_streams (cm_shm m))[i := c]"
    "last_kick_head (cm_shm (cm_set_stream i c m)) = last_kick_head (cm_shm m)"
    "j \<noteq> i \<Longrightarrow> r8_view j (cm_set_stream i c m) = r8_view j m"
  using assms by (cases "cm_line m j"; simp add: cm_set_stream_def cm_stream_def r8_view_def)+

lemma set_stream_current:
  assumes "lines_current m" "i < 2" "sc_magic c = sc_magic (cm_stream i m)" "sc_active_fd c = sc_active_fd (cm_stream i m)"
  shows "lines_current (cm_set_stream i c m)"
proof -
  have l: "i < length (shm_streams (cm_shm m))" using assms(1,2) by (simp add: lines_current_def)
  have "sc_magic (r8_view i (cm_set_stream i c m)) = sc_magic c \<and> sc_active_fd (r8_view i (cm_set_stream i c m)) = sc_active_fd c"
  proof (cases "cm_line m i")
    case None
    then show ?thesis by (simp add: r8_view_def set_stream_simps[OF l])
  next
    case (Some x)
    have "sc_magic (r8_view i m) = sc_magic c" "sc_active_fd (r8_view i m) = sc_active_fd c"
      using assms by (simp_all add: lines_current_def)
    then show ?thesis using Some by (simp add: r8_view_def)
  qed
  then have "sc_magic (r8_view j (cm_set_stream i c m)) = sc_magic (cm_stream j (cm_set_stream i c m)) \<and>
      sc_active_fd (r8_view j (cm_set_stream i c m)) = sc_active_fd (cm_stream j (cm_set_stream i c m))" if "j < 2" for j
    using assms(1) that by (cases "j = i") (simp_all add: set_stream_simps[OF l] lines_current_def)
  then show ?thesis using assms(1) by (simp add: lines_current_def set_stream_simps[OF l])
qed

text \<open>The control block that the write works with is the one in memory.\<close>

lemma cached_write_eq:
  assumes "cached_get_stream fd m = (Some i, m1)" "i < length (shm_streams (cm_shm m1))"
  shows "cached_stream_write between fd b m =
    (let ctrl = cm_stream i m1; m3 = cm_set_stream i (between ctrl) (line_load i (dcache_invalidate i m1)) in
     if unat (shm_free_space ctrl) < length b then Ret (int (length b), [], store_and_clean i (shm_drop (length b) ctrl) m3)
     else case shm_append b ctrl of
         Ret c' \<Rightarrow>
           (let m4 = store_and_clean i c' m3 in
            if shm_kick_due (last_kick_head (cm_shm m1) ! i) c'
            then Ret (int (length b), [log_stream_hdr LOG_STREAM_MSG_KICK fd],
                   m4\<lparr>cm_shm := (cm_shm m4)\<lparr>last_kick_head := (last_kick_head (cm_shm m4))[i := sc_head c']\<rparr>\<rparr>)
            else Ret (int (length b), [], m4))
       | Faults \<Rightarrow> Faults
       | Diverges \<Rightarrow> Diverges)"
proof -
  let ?m2 = "line_load i (dcache_invalidate i m1)"
  have l: "i < length (shm_streams (cm_shm (cm_set_stream i c ?m2)))" for c
    using assms(2) by (simp add: cm_set_stream_def)
  have "last_kick_head (cm_shm (store_and_clean i c' (cm_set_stream i c ?m2))) = last_kick_head (cm_shm m1)" for c c'
    using store_simps(4)[OF l] by (simp add: cm_set_stream_def)
  then show ?thesis using assms(1) by (simp add: cached_stream_write_def Let_def split: exec.split)
qed

text \<open>What is in memory, and what the R8 sees, after a write.\<close>

lemma write_back:
  assumes "i < length (shm_streams (cm_shm m1))"
    and m4_def: "m4 = store_and_clean i c (cm_set_stream i d (line_load i (dcache_invalidate i m1)))"
  shows "shm_streams (cm_shm m4) = (shm_streams (cm_shm m1))[i := c]" "last_kick_head (cm_shm m4) = last_kick_head (cm_shm m1)"
    "lines_current m1 \<Longrightarrow> lines_current m4"
proof -
  let ?m2 = "line_load i (dcache_invalidate i m1)"
  have l: "i < length (shm_streams (cm_shm ?m2))" and l': "i < length (shm_streams (cm_shm (cm_set_stream i d ?m2)))"
    using assms(1) by (simp_all add: cm_set_stream_def)
  show "shm_streams (cm_shm m4) = (shm_streams (cm_shm m1))[i := c]" "last_kick_head (cm_shm m4) = last_kick_head (cm_shm m1)"
    by (simp_all add: m4_def store_simps[OF l'] set_stream_simps[OF l])
  show "lines_current m4" if cur: "lines_current m1"
    unfolding lines_current_def
  proof (intro conjI allI impI)
    show "length (shm_streams (cm_shm m4)) = 2" using cur by (simp add: m4_def store_simps[OF l'] set_stream_simps[OF l] lines_current_def)
    fix j assume j: "j < (2 :: nat)"
    show "sc_magic (r8_view j m4) = sc_magic (cm_stream j m4)" "sc_active_fd (r8_view j m4) = sc_active_fd (cm_stream j m4)"
      using cur j by (simp_all add: m4_def store_simps[OF l'] set_stream_simps[OF l] lines_current_def)
  qed
qed

section \<open>Properties\<close>

text \<open>C18: As long as the CA55 leaves the stream alone while the R8 writes a block, and has released no stream whose
  line the R8 still holds, the write does to the memory exactly what the model without a cache does.
  Reading between two writes does no harm.\<close>

theorem cached_write_coherent:
  assumes "lines_current m"
  shows "exec_bind (cached_stream_write (\<lambda>c. c) fd b m) (\<lambda>(r, msgs, m'). Ret (r, msgs, cm_shm m')) =
      rzv_logger_stream_write fd b (cm_shm m) \<and>
    (\<forall>r msgs m'. cached_stream_write (\<lambda>c. c) fd b m = Ret (r, msgs, m') \<longrightarrow> lines_current m') \<and>
    (\<forall>i<RZV_SDRAM_LOGGER_STREAM_COUNT. \<forall>k. lines_current (cm_set_stream i (ca55_consume k (cm_stream i m)) m))"
proof (intro conjI allI impI)
  obtain q m1 where g: "cached_get_stream fd m = (q, m1)" by fastforce
  from cached_get_stream_memory[OF assms g]
  have gs: "get_shm_stream fd (shm_streams (cm_shm m)) = (q, shm_streams (cm_shm m1))"
    "last_kick_head (cm_shm m1) = last_kick_head (cm_shm m)" "lines_current m1" by auto
  show "exec_bind (cached_stream_write (\<lambda>c. c) fd b m) (\<lambda>(r, msgs, m'). Ret (r, msgs, cm_shm m')) =
      rzv_logger_stream_write fd b (cm_shm m)"
  proof (cases q)
    case None
    then have "shm_streams (cm_shm m1) = shm_streams (cm_shm m)" using gs(1)
      by (auto simp: get_shm_stream_def split: option.splits)
    then have "cm_shm m\<lparr>shm_streams := shm_streams (cm_shm m1)\<rparr> = cm_shm m1" using gs(2) by simp
    then show ?thesis using g None gs by (simp add: cached_stream_write_def rzv_logger_stream_write_def)
  next
    case (Some i)
    have i: "i < length (shm_streams (cm_shm m1))"
      using get_shm_stream_Some gs Some assms by (fastforce simp: lines_current_def)
    note w = write_back[OF i refl]
    have upd: "cm_shm (store_and_clean i c (cm_set_stream i d (line_load i (dcache_invalidate i m1)))) =
        cm_shm m\<lparr>shm_streams := (shm_streams (cm_shm m1))[i := c]\<rparr>" for c d
      using w(1,2) gs(2) by (intro logger_shm.equality) simp_all
    have c: "cm_stream i m1 = shm_streams (cm_shm m1) ! i" by (simp add: cm_stream_def)
    show ?thesis
      unfolding cached_write_eq[OF g[unfolded Some] i] rzv_logger_stream_write_def gs(1) Some
      by (simp add: Let_def c upd gs(2) w(2) split: exec.splits)
  qed
  show "lines_current m'" if r: "cached_stream_write (\<lambda>c. c) fd b m = Ret (r, msgs, m')" for r msgs m'
  proof (cases q)
    case None
    then show ?thesis using r g gs by (simp add: cached_stream_write_def)
  next
    case (Some i)
    have i: "i < length (shm_streams (cm_shm m1))"
      using get_shm_stream_Some gs Some assms by (fastforce simp: lines_current_def)
    note w = write_back(3)[OF i refl gs(3)]
    have k: "lines_current (x\<lparr>cm_shm := (cm_shm x)\<lparr>last_kick_head := ks\<rparr>\<rparr>) = lines_current x" for x ks
    proof -
      have c: "cm_stream i (x\<lparr>cm_shm := (cm_shm x)\<lparr>last_kick_head := ks\<rparr>\<rparr>) = cm_stream i x" for i
        by (simp add: cm_stream_def)
      then have "r8_view i (x\<lparr>cm_shm := (cm_shm x)\<lparr>last_kick_head := ks\<rparr>\<rparr>) = r8_view i x" for i
        by (intro r8_view_cong) simp_all
      then show ?thesis using c by (simp add: lines_current_def)
    qed
    show ?thesis using r w unfolding cached_write_eq[OF g[unfolded Some] i]
      by (auto simp: Let_def k split: if_splits exec.splits)
  qed
  fix i k assume "i < (2 :: nat)"
  then show "lines_current (cm_set_stream i (ca55_consume k (cm_stream i m)) m)"
    by (intro set_stream_current assms) (simp_all add: ca55_consume_def)
qed

text \<open>The stream that a descriptor is bound to is found, and nothing in memory changes.\<close>

lemma cached_get_bound:
  assumes "i < 2" "length (shm_streams (cm_shm m)) = 2" "sc_magic (r8_view i m) = LOG_SHM_MAGIC" "sc_active_fd (r8_view i m) = fd"
    and "\<And>j. j < i \<Longrightarrow> sc_magic (r8_view j m) \<noteq> LOG_SHM_MAGIC \<or> sc_active_fd (r8_view j m) \<noteq> fd"
  obtains m1 where "cached_get_stream fd m = (Some i, m1)" "cm_shm m1 = cm_shm m"
proof -
  let ?P = "\<lambda>c. sc_magic c = LOG_SHM_MAGIC \<and> sc_active_fd c = fd"
  obtain r m1 where s: "scan_streams ?P [0..<2] m = (r, m1)" by fastforce
  have "find_index ?P (map (\<lambda>i. r8_view i m) [0..<2]) = Some i" by (rule find_indexI) (use assms in auto)
  then have "r = Some i" "cm_shm m1 = cm_shm m" using scan_streams_find[OF s] assms(1) by auto
  then show ?thesis using s that by (simp add: cached_get_stream_def)
qed

text \<open>A block that fits, written while the CA55 does \<open>between\<close> to the stream: the control block that the R8
  loaded before, with the new head, replaces whatever the CA55 has stored.\<close>

lemma cached_write_overwrites:
  assumes "cached_get_stream fd m = (Some i, m1)" "cm_shm m1 = cm_shm m" "i < length (shm_streams (cm_shm m))"
    and wf: "shm_wf (cm_stream i m)" and room: "length b \<le> length (sc_data (cm_stream i m)) - 1 - length (shm_contents (cm_stream i m))"
  shows "\<exists>msgs m' c'. cached_stream_write between fd b m = Ret (int (length b), msgs, m') \<and>
    shm_wf c' \<and> shm_contents c' = shm_contents (cm_stream i m) @ b \<and> length (sc_data c') = length (sc_data (cm_stream i m)) \<and>
    sc_magic c' = sc_magic (cm_stream i m) \<and> sc_active_fd c' = sc_active_fd (cm_stream i m) \<and> shm_streams (cm_shm m') = (shm_streams (cm_shm m))[i := c']"
proof -
  have i: "i < length (shm_streams (cm_shm m1))" and c: "cm_stream i m1 = cm_stream i m"
    using assms(2,3) by (simp_all add: cm_stream_def)
  obtain c' where c': "shm_append b (cm_stream i m) = Ret c'" "length (sc_data c') = length (sc_data (cm_stream i m))"
    "sc_magic c' = sc_magic (cm_stream i m)" "sc_active_fd c' = sc_active_fd (cm_stream i m)"
    using append_shape[OF wf room] by fastforce
  have n: "\<not> unat (shm_free_space (cm_stream i m)) < length b" using room by (simp add: free_space_nat[OF wf])
  show ?thesis unfolding cached_write_eq[OF assms(1) i] c
    using write_back(1)[OF i refl, of c'] n c' append_wf[OF wf room c'(1)] append_contents[OF wf room c'(1)] assms(2)
    by (auto simp: Let_def)
qed

lemma fd_contents_cong: "shm_streams l = shm_streams l' \<Longrightarrow> fd_contents fd l = fd_contents fd l'"
  by (simp add: fd_contents_def split: option.split)

text \<open>C19: When the CA55 takes bytes out of the ring while the R8 writes a block, the R8 puts the old tail back with
  the control block: the bytes that were taken are in the ring again, and come out a second time.\<close>

theorem cached_write_rereads:
  assumes "lines_current m" "pool_wf (cm_shm m)" "i < RZV_SDRAM_LOGGER_STREAM_COUNT" "stream_live (cm_stream i m)"
    and "fd = sc_active_fd (cm_stream i m)"
    and "length b \<le> RZV_SDRAM_LOGGER_BUF_SIZE - 1 - length (fd_contents fd (cm_shm m))"
    and "k \<le> length (fd_contents fd (cm_shm m))"
  shows "fd_contents fd (cm_shm (cm_set_stream i (ca55_consume k (cm_stream i m)) m)) = drop k (fd_contents fd (cm_shm m)) \<and>
    (\<exists>msgs m'. cached_stream_write (ca55_consume k) fd b m = Ret (int (length b), msgs, m') \<and>
       fd_contents fd (cm_shm m') = fd_contents fd (cm_shm m) @ b)"
proof -
  have len: "length (shm_streams (cm_shm m)) = 2" using assms(1) by (simp add: lines_current_def)
  have st: "cm_stream j m = shm_streams (cm_shm m) ! j" for j by (simp add: cm_stream_def)
  have view: "sc_magic (r8_view j m) = sc_magic (cm_stream j m)" "sc_active_fd (r8_view j m) = sc_active_fd (cm_stream j m)"
    if "j < 2" for j using assms(1) that by (simp_all add: lines_current_def)
  have fd: "0 \<le> fd" using assms(4,5) by simp
  have fc: "fd_contents fd (cm_shm m) = shm_contents (cm_stream i m)"
    using fd_contents_at[OF assms(2,3) fd] assms(4,5) by (simp add: st)
  have w: "shm_wf (cm_stream i m)" "length (sc_data (cm_stream i m)) = RZV_SDRAM_LOGGER_BUF_SIZE"
    using assms(2,3,4) len by (simp_all add: pool_wf_def st)
  note up = stream_update[OF assms(2,3), folded st, OF assms(4), folded assms(5)]
  obtain m1 where g: "cached_get_stream fd m = (Some i, m1)" "cm_shm m1 = cm_shm m"
  proof (rule cached_get_bound[OF assms(3) len])
    show "sc_magic (r8_view i m) = LOG_SHM_MAGIC" "sc_active_fd (r8_view i m) = fd"
      using view[OF assms(3)] assms(4,5) by simp_all
    show "sc_magic (r8_view j m) \<noteq> LOG_SHM_MAGIC \<or> sc_active_fd (r8_view j m) \<noteq> fd" if "j < i" for j
    proof -
      have j: "j < 2" using that assms(3) by simp
      then show ?thesis using assms(2-5) that view[OF j] unfolding pool_wf_def st by (metis nat_neq_iff)
    qed
  qed
  have taken: "fd_contents fd (cm_shm (cm_set_stream i (ca55_consume k (cm_stream i m)) m)) = drop k (fd_contents fd (cm_shm m))"
    using up(2)[of "ca55_consume k (cm_stream i m)"] consume_wf[OF w(1)] consume_contents[OF w(1)] assms(4,5,7) fc
    by (simp add: cm_set_stream_def ca55_consume_def)
  obtain msgs m' c' where c: "cached_stream_write (ca55_consume k) fd b m = Ret (int (length b), msgs, m')"
    "shm_wf c'" "shm_contents c' = shm_contents (cm_stream i m) @ b" "length (sc_data c') = length (sc_data (cm_stream i m))"
    "sc_magic c' = sc_magic (cm_stream i m)" "sc_active_fd c' = sc_active_fd (cm_stream i m)"
    "shm_streams (cm_shm m') = (shm_streams (cm_shm m))[i := c']"
    using cached_write_overwrites[OF g _ w(1), of b "ca55_consume k"] assms(3,6) len w(2) fc by auto
  have "fd_contents fd (cm_shm m') = fd_contents fd ((cm_shm m)\<lparr>shm_streams := (shm_streams (cm_shm m))[i := c']\<rparr>)"
    by (rule fd_contents_cong) (simp add: c(7))
  also have "\<dots> = fd_contents fd (cm_shm m) @ b"
    using up(2)[of c'] c(2-6) assms(4,5) fc by simp
  finally show ?thesis using taken c(1) by blast
qed

text \<open>C38: When the CA55 has released a stream and the R8 still holds its control block in the cache, a new log that
  gets the same descriptor number finds the stale line: its first block goes into a stream that is bound to
  no descriptor, and although the write reports success, the block reaches no file.\<close>

theorem stale_line_loses_block:
  assumes "pool_wf (cm_shm m)" "i < RZV_SDRAM_LOGGER_STREAM_COUNT" "0 \<le> fd"
    and "sc_magic (cm_stream i m) = LOG_SHM_MAGIC" "sc_active_fd (cm_stream i m) = - 1"
    and "sc_magic (r8_view i m) = LOG_SHM_MAGIC" "sc_active_fd (r8_view i m) = fd"
    and "\<forall>j<i. sc_active_fd (r8_view j m) \<noteq> fd" "\<forall>c\<in>set (shm_streams (cm_shm m)). sc_active_fd c \<noteq> fd"
    and "length b \<le> RZV_SDRAM_LOGGER_BUF_SIZE - 1 - length (shm_contents (cm_stream i m))"
  shows "\<exists>msgs m'. cached_stream_write (\<lambda>c. c) fd b m = Ret (int (length b), msgs, m') \<and>
    fd_contents fd (cm_shm m') = [] \<and> (\<forall>c\<in>set (shm_streams (cm_shm m')). sc_active_fd c \<noteq> fd)"
proof -
  have len: "length (shm_streams (cm_shm m)) = 2" using assms(1) by (simp add: pool_wf_def)
  have w: "shm_wf (cm_stream i m)" "length (sc_data (cm_stream i m)) = RZV_SDRAM_LOGGER_BUF_SIZE"
    using assms(1,2,4) len by (simp_all add: pool_wf_def cm_stream_def)
  obtain m1 where g: "cached_get_stream fd m = (Some i, m1)" "cm_shm m1 = cm_shm m"
    using cached_get_bound[OF assms(2) len assms(6,7)] assms(8) by blast
  obtain msgs m' c' where c: "cached_stream_write (\<lambda>c. c) fd b m = Ret (int (length b), msgs, m')"
    "sc_active_fd c' = - 1" "shm_streams (cm_shm m') = (shm_streams (cm_shm m))[i := c']"
    using cached_write_overwrites[OF g _ w(1), of b "\<lambda>c. c"] assms(2,5,10) len w(2) by auto
  have no: "\<forall>c\<in>set (shm_streams (cm_shm m')). sc_active_fd c \<noteq> fd"
    using c(2,3) assms(3,9) set_update_subset_insert[of "shm_streams (cm_shm m)" i c'] by auto
  then have "find_index (\<lambda>c. sc_magic c = LOG_SHM_MAGIC \<and> sc_active_fd c = fd) (shm_streams (cm_shm m')) = None"
    by (simp add: find_index_None_iff)
  then show ?thesis using c(1) no by (simp add: fd_contents_def)
qed

section \<open>Instances\<close>

text \<open>A log with two bytes waiting, in a cold cache; and the same stream after its release, when the R8 still
  holds the line of its last owner.\<close>

definition demo_stream :: "int \<Rightarrow> 32 word \<Rightarrow> logger_shm_ctrl" where
  "demo_stream fd head = (shm_open_stream fd \<lparr>sc_magic = 0, sc_buffer_size = 0, sc_head = 0, sc_tail = 0, sc_dropped_bytes = 0,
     sc_active_fd = - 1, sc_data = replicate RZV_SDRAM_LOGGER_BUF_SIZE 0\<rparr>)\<lparr>sc_head := head\<rparr>"

definition demo_cached :: "int \<Rightarrow> logger_shm_ctrl option \<Rightarrow> cached_shm" where
  "demo_cached fd line = \<lparr>cm_shm = \<lparr>shm_streams = [demo_stream fd 2, demo_stream (- 1) 0], last_kick_head = [0, 0]\<rparr>,
     cm_line = (\<lambda>_. None)(0 := line)\<rparr>"

lemma demo_stream_simps:
  "sc_magic (demo_stream fd h) = LOG_SHM_MAGIC" "sc_active_fd (demo_stream fd h) = fd"
  "length (sc_data (demo_stream fd h)) = RZV_SDRAM_LOGGER_BUF_SIZE"
  by (simp_all add: demo_stream_def shm_open_stream_def)

lemma demo_stream_wf: "unat h < 262112 \<Longrightarrow> shm_wf (demo_stream fd h)"
  by (simp add: demo_stream_def shm_open_stream_def shm_wf_def)

lemma demo_stream_contents: "shm_contents (demo_stream fd 2) = [0, 0]" "shm_contents (demo_stream fd 0) = []"
proof -
  have "replicate 2 (0 :: 8 word) = [0, 0]" by (simp add: numeral_2_eq_2)
  then show "shm_contents (demo_stream fd 2) = [0, 0]" "shm_contents (demo_stream fd 0) = []"
    by (simp_all add: demo_stream_def shm_open_stream_def shm_contents_def min_def)
qed

lemma demo_cached_simps:
  "shm_streams (cm_shm (demo_cached fd line)) = [demo_stream fd 2, demo_stream (- 1) 0]"
  "cm_stream 0 (demo_cached fd line) = demo_stream fd 2"
  "cm_line (demo_cached fd line) 0 = line"
  by (simp_all add: demo_cached_def cm_stream_def)

lemma demo_cached_wf:
  "0 \<le> fd \<or> fd = - 1 \<Longrightarrow> pool_wf (cm_shm (demo_cached fd line))" "lines_current (demo_cached fd None)"
  by (auto simp: demo_cached_def pool_wf_def lines_current_def r8_view_def cm_stream_def demo_stream_simps demo_stream_wf
      less_2_cases_iff)

lemma demo_cached_contents: "0 \<le> fd \<Longrightarrow> fd_contents fd (cm_shm (demo_cached fd line)) = [0, 0]"
  using fd_contents_at[OF demo_cached_wf(1), where i = 0 and fd = fd]
  by (simp add: demo_cached_simps demo_stream_simps demo_stream_contents)

theorem cached_write_coherent_witness:
  "\<exists>msgs m'. cached_stream_write (\<lambda>c. c) 7 [5] (demo_cached 7 None) = Ret (1, msgs, m') \<and>
     fd_contents 7 (cm_shm m') = [0, 0, 5]"
proof -
  let ?m = "demo_cached 7 None"
  have no: "\<not> (\<forall>c\<in>set (shm_streams (cm_shm ?m)). stream_live c \<and> sc_active_fd c \<noteq> 7)"
    by (simp add: demo_cached_simps demo_stream_simps)
  have wf: "pool_wf (cm_shm ?m)" by (rule demo_cached_wf) simp
  obtain msgs l where w: "rzv_logger_stream_write 7 [5] (cm_shm ?m) = Ret (1, msgs, l)" "fd_contents 7 l = [0, 0, 5]"
    using stream_write_effect[OF wf, of 7 "[5]"] unfolding if_not_P[OF no] by (auto simp: demo_cached_contents)
  show ?thesis using cached_write_coherent[OF demo_cached_wf(2)[of 7], of 7 "[5]"] w by (auto simp: exec_bind_Ret_iff)
qed

theorem cached_write_rereads_witness:
  "\<exists>msgs m'. cached_stream_write (ca55_consume 2) 7 [5] (demo_cached 7 None) = Ret (1, msgs, m') \<and>
     fd_contents 7 (cm_shm m') = [0, 0, 5]"
proof -
  have wf: "pool_wf (cm_shm (demo_cached 7 None))" by (rule demo_cached_wf) simp
  show ?thesis using cached_write_rereads[OF demo_cached_wf(2) wf, of 0 7 "[5]" 2]
    by (auto simp: demo_cached_contents demo_cached_simps demo_stream_simps)
qed

theorem stale_line_loses_block_witness:
  "\<exists>msgs m'. cached_stream_write (\<lambda>c. c) 7 [5] (demo_cached (- 1) (Some (demo_stream 7 2))) = Ret (1, msgs, m') \<and>
     fd_contents 7 (cm_shm m') = []"
proof -
  have wf: "pool_wf (cm_shm (demo_cached (- 1) (Some (demo_stream 7 2))))" by (rule demo_cached_wf) simp
  have v: "sc_magic (r8_view 0 (demo_cached (- 1) (Some (demo_stream 7 2)))) = LOG_SHM_MAGIC"
    "sc_active_fd (r8_view 0 (demo_cached (- 1) (Some (demo_stream 7 2)))) = 7"
    by (simp_all add: r8_view_def demo_cached_simps demo_stream_simps)
  show ?thesis using stale_line_loses_block[OF wf, of 0 7 "[5]"] v
    by (auto simp: demo_cached_simps demo_stream_simps demo_stream_contents)
qed

end
