(* ===== verification/Spec2Isabelle.thy ===== *)
theory Spec2Isabelle
  imports Fs_Props Fs_Async Heap4_Props Syscalls_Props Posix_Time Posix_Mq Posix_Cond Transport_Props Platform_Props Srv_Replies Srv_Storage Srv_Queue Client_Server
    Posix_Barrier Posix_Thread Posix_Timer Runtime_Stats Agent_Logs Agent_Transport Logger_Cache
begin

text \<open>
  Verification development for the RZ/V2H drone stack: the flight controller PX4 runs under
  FreeRTOS on a Cortex-R8, and has no storage of its own; files, parameters, logs, sockets and the
  wall clock are served by Linux on the Cortex-A55 of the same chip.

  \<^bold>\<open>1. The program and how its parts interact\<close>

  On the Cortex-R8 a task calls a C library function.  newlib calls the system calls of
  \<open>src/runtime/syscalls.c\<close>; for a file these go (through PX4's \<open>px4_open\<close> and its relatives, which
  are not in the repository) to the remote file operations \<open>rzv_remote_*\<close> of
  \<open>src/rpc/remote_storage_rpc.c\<close>.  An operation packs its arguments into a payload and hands it to
  \<open>fs_rpc\<close>, which makes up to three calls of \<open>px4_openamp_rpc_call_timeout\<close>
  (\<open>src/rpc/openamp_rpc_client.c\<close>).  A call takes a slot of the table of pending calls and a fresh
  request id, sends header and payload over an RPMsg endpoint and waits until a message with its id
  has completed the slot or the time is up.  The endpoints are made and torn down by the watchdog
  task of \<open>src/runtime/main_task_entry.c\<close> on top of the platform layer
  (\<open>src/runtime/rzv2_rproc.c\<close>, \<open>src/platform/platform_info.c\<close>).  The writes of the PX4 logger do not
  take this way: they go into two rings of shared memory, with a small message as a doorbell.  All
  of it runs over the threads, semaphores, mutexes, condition variables and message queues of
  \<open>src/freertos_posix\<close>.

  On the Cortex-A55 the agent's RPMsg callback calls \<open>handle_message\<close> of
  \<open>px4_openamp_rpc_server.cpp\<close>, which puts the message into a queue of 32 entries; four workers take
  messages out, execute them as Linux calls and send a response with the id of the request.  A
  descriptor opened on the parameter file is kept in memory and converted between text and BSON
  (\<open>param_converter.cpp\<close>).  Another part of the agent (\<open>custom_agent.cpp\<close>) empties the log rings
  into files.

  All paths here are under \<open>src/\<close> of the repository's sources; those of the Cortex-A55 are in
  \<open>ca55_stack/xrce_dds_agent\<close>.

  \<^bold>\<open>2. Theories, code, state\<close>

  \<^item> \<open>Prelude\<close>: bytes, outcomes of C code (\<open>exec\<close>: a value, a fault, or no end), errno values, copies
  into buffers, \<open>find_index\<close> for the scans of fixed tables, and the locale \<open>le_codec\<close> of a
  little-endian encoding with its inverse.
  \<^item> \<open>Slot_Pool\<close>: the locale \<open>slot_pool\<close> of a fixed table whose entries are claimed and released, with
  the accounting of its entries.  It is interpreted by the pending calls, the logger descriptors and
  the log streams.
  \<^item> \<open>Rpc_Protocol\<close>: \<open>openamp_rpc.h\<close>.  The record \<open>px4_rpc_header\<close> is the packed header;
  \<open>header_bytes\<close> and \<open>bytes_header\<close> are its \<open>memcpy\<close> to and from memory.
  \<^item> \<open>Rpc_Client\<close>: \<open>openamp_rpc_client.c\<close>.  The record \<open>rpc_client\<close> holds the static variables of the
  file under their own names and a store for the callers' buffers.  The operations have the names of
  the code.  The record \<open>rpc_os\<close> is what the file calls: endpoint, heap, clock, condition variables.
  Whatever other threads and the peer do while the lock is free comes back as a list of
  \<open>rpc_event\<close>s, chosen freely by the environment.  \<open>Rpc_Client_Correct\<close> has the lemmas about slots,
  ids and ownership, \<open>Rpc_Client_Props\<close> and \<open>Rpc_Client_Liveness\<close> the properties.
  \<^item> \<open>Logger_Fds\<close>, \<open>Logger_Shm\<close>: the table of logger descriptors, and the two log streams with the
  writer of the Cortex-R8 (\<open>shm_open_stream\<close>, \<open>shm_put\<close>) and the reader of the Cortex-A55
  (\<open>ca55_consume\<close>).  The ring satisfies the locale \<open>byte_fifo\<close> of a queue of bytes.
  \<^item> \<open>Fs_Rpc\<close>, \<open>Fs_Ops\<close>, \<open>Fs_Props\<close>: \<open>remote_storage_rpc.c\<close>.  \<open>Fs_Rpc\<close> is \<open>fs_rpc\<close> with its retries,
  \<open>Fs_Ops\<close> has one definition per operation, \<open>Fs_Props\<close> states the contract of the transport as the
  locale \<open>rpc_transport\<close>, which \<open>fs_rpc\<close> is shown to satisfy.
  \<^item> \<open>Fs_Async\<close>: the asynchronous operations of the same file, with their context objects.
  \<^item> \<open>Fs_Server\<close>: the decoding of the payloads on the Cortex-A55, against the encoding of \<open>Fs_Ops\<close>.
  \<^item> \<open>Syscalls\<close>, \<open>Syscalls_Props\<close>, \<open>Heap_Glue\<close>: \<open>syscalls.c\<close>: descriptors, UART channels with
  reference counts, \<open>realloc\<close> and \<open>calloc\<close> on memory with block headers.
  \<^item> \<open>Heap4\<close>: the allocator \<open>rzv/aws/FreeRTOS/FreeRTOS/Source/portable/MemMang/heap_4.c\<close>, which is
  below \<open>malloc\<close> of \<open>syscalls.c\<close>, in the same byte memory: block headers and the free list are words
  in the heap array.  \<open>Heap4_Free\<close> has the lemmas about the free list, \<open>Heap4_Blocks\<close> those about the
  blocks, and \<open>Heap4_Props\<close> the contract of a heap as the locale \<open>c_heap\<close>, interpreted by the model,
  with any number of clients on top of it.
  \<^item> \<open>Posix_Time\<close>, \<open>Posix_Sem\<close>, \<open>Posix_Mutex\<close>, \<open>Posix_Cond\<close>, \<open>Posix_Mq\<close>, \<open>Posix_Barrier\<close>,
  \<open>Posix_Thread\<close>, \<open>Posix_Timer\<close>: the files of \<open>freertos_posix/source\<close> of these names
  (\<open>Posix_Time\<close> is \<open>FreeRTOS_POSIX_utils.c\<close> and \<open>FreeRTOS_POSIX_clock.c\<close>, \<open>Posix_Thread\<close> also has
  \<open>FreeRTOS_POSIX_sched.c\<close>, \<open>Posix_Timer\<close> also \<open>FreeRTOS_POSIX_unistd.c\<close> and the clock functions).  The objects of the FreeRTOS kernel below them are parameters with their
  documented behaviour; semaphores, condition variables and barriers are step relations whose steps are the
  atomic accesses of the code; \<open>pthread_join\<close> is cut where other tasks run.
  \<^item> \<open>Transport\<close>, \<open>Transport_Props\<close>: the endpoints and the watchdog task of \<open>main_task_entry.c\<close>.
  \<^item> \<open>Platform\<close>, \<open>Platform_Props\<close>: \<open>rzv2_rproc.c\<close> and \<open>platform_info.c\<close>.
  \<^item> \<open>Runtime_Stats\<close>: \<open>rzv_runtime_stats.c\<close>, the counter for run-time statistics.
  \<^item> \<open>Agent_Logs\<close>: of \<open>custom_agent.cpp\<close> the reader of the log rings, step by step, together with the
  writer of \<open>Logger_Shm\<close> in one system.
  \<^item> \<open>Logger_Cache\<close>: the writer of \<open>Logger_Shm\<close> over memory behind the data cache of the Cortex-R8, one
  line for each control block.
  \<^item> \<open>Agent_Transport\<close>: of \<open>custom_agent.cpp\<close> the endpoints, their callbacks, the bounded queue of the
  micro-XRCE channel and the transport functions for the agent library.
  \<^item> \<open>Srv_Files\<close>, \<open>Srv_Ops\<close>, \<open>Srv_Main\<close>: \<open>px4_openamp_rpc_server.cpp\<close>: the state of the server and
  its paths, flags and tables; one definition per request; the dispatch, the response and the queue
  with its workers.  Linux is a function \<open>lx_call\<close> from a call and a world to a result, and every
  call is logged.  \<open>Srv_Convert\<close> is \<open>param_converter.cpp\<close>.
  \<^item> \<open>Srv_Props\<close>, \<open>Srv_Replies\<close>, \<open>Srv_Storage\<close>, \<open>Srv_Queue\<close>: the properties of the server.
  \<^item> \<open>Client_Server\<close>: the two sides joined: the function \<open>link_os\<close> is an \<open>rpc_os\<close> for the client
  whose peer is the model of the server.

  \<^bold>\<open>3. What is shown\<close>

  \<^item> Ids and slots: at most 32 calls are pending, no two with the same id under every interleaving;
  each return of a call leaves its slot free; a response goes to the call it belongs to, verbatim;
  after the return nothing more is written to the caller's buffer; a timed call returns.
  \<^item> Files: a remote write accepts a prefix of its buffer without gaps; the decoders of the server
  invert the encoders of the client, except for \<open>truncate\<close>, whose layouts differ; through both
  sides an operation on paths is exactly one Linux call with its result; a lost response repeats a
  write.
  \<^item> Logs: a write of the R8 appends all of its block to the ring or drops it; whatever the interleaving
  with the agent, the file and what waits in the ring are together what was accepted; a flush ends
  with all of it in the file, unless a write fails, when the rest is lost.  The data cache cannot be
  seen as long as the agent neither moves a tail during a write nor releases a stream whose line the
  R8 still holds; in the first case bytes are read twice, in the second a block is lost.
  \<^item> Transport of the agent: the micro-XRCE agent gets messages in order, only the oldest of 500 are
  dropped; a message is sent at most once.
  \<^item> Server: each request is answered once, by its own id; its response fits an RPMsg buffer; messages
  are taken in order, each is handled once, at most 32 wait, and with four workers two of them may be
  carried out in the opposite order; its tables stay well formed; a stored parameter file is a
  complete document, and replacing a file keeps the old one or has all of the new one.
  \<^item> System calls and POSIX objects: reference counts, complete reads, no lost wake-up of semaphores and
  condition variables, exclusion and recursion of mutexes, order and wholeness of queued messages;
  barriers release complete groups with one serial thread each; thread objects are freed once and a
  join returns the value of its thread; timers notify on their schedule.
  \<^item> Heap: what is allocated lies in the heap array, aligned and apart from everything else allocated;
  its bytes are only changed by its owner; allocation fails only when no free block is large enough,
  and when all is released the heap is one block again.
  \<^item> Asynchronous calls: their context objects are freed exactly once, and every accepted call stays
  pending until its callback ran.
  \<^item> Start-up and shut-down: matched creation and release of the transport and of the platform.

  \<^bold>\<open>4. Bounds and fuel\<close>

  Loops over data are structural recursions.  The loops that wait take fuel, and running out of it is
  the outcome \<open>Diverges\<close>, apart from every result of the code.  \<open>rpc_wait_timed\<close> needs more fuel than
  its time-out in milliseconds when every turn lets the clock advance by a millisecond
  (\<open>timed_call_returns\<close> states this, with the clock below $2^{64}$ ms); the wait for the peer takes
  at most the ticks of 15 seconds (\<open>transport_returns\<close>).  \<open>rpc_wait_forever\<close> has no bound, as in the
  code.  Machine integers are words of the code's width, \<open>size_t\<close> of the Cortex-R8 has 32 bits and of
  the Cortex-A55 64.

  \<^bold>\<open>5. What is assumed\<close>

  The environment records are parameters of the definitions; where a property needs to know something
  of them, it is a named predicate in its statement, and its witness gives an instance: the laws of
  the kernel semaphore, mutex and queue, a clock that advances, a file system that keeps a file until
  it is renamed, a link that keeps the order of messages.  Memory is sequentially consistent, and
  the data cache is left out everywhere but in \<open>Logger_Cache\<close>, where a line stays in the cache until the
  code invalidates it.

  \<^bold>\<open>6. Not modelled\<close>

  \<^item> The rest of \<open>custom_agent.cpp\<close> (\<open>main\<close> with its options, the polling threads, the signal handler,
  printed statistics) and the CA55 variants of \<open>platform_info.c\<close> and \<open>rz_rproc.c\<close>: set-up of Linux
  processes, sockets and devices around libraries that are not in the repository.
  \<^item> \<open>ca55_stack/ros2_ws\<close> and the \<open>ai\<close> directories: ROS 2 nodes and the AI runtime, the latter vendored
  (TVM, DLPack, dmlc) or built on floating-point arrays and a hardware driver.
  \<^item> \<open>rzv/\<close>, \<open>rzv_gen/\<close>, \<open>rzv_cfg/\<close> but for the heap: the FreeRTOS kernel, OpenAMP, libmetal and the board support package, and the
  files its configurator generates.
  \<^item> Register set-up at boot, linker tables, the hooks that print and stop, and everything that is only
  printed.
\<close>

end
